(* ===== verification/Prelude.thy ===== *)
theory Prelude
  imports Main "HOL-Library.Word" "HOL-Library.While_Combinator"
begin

text \<open>
  Shared vocabulary of the development: the machine integers of the C sources, the result
  type and the small state monad in which every stateful C function is written, the loop
  combinators for C loops, and the generic lemmas on words and lists that the component
  theories use.
\<close>

unbundle bit_operations_syntax

named_theorems kern_simps "evaluation rules of the kernel monad"
named_theorems mem_simps "reads over writes of kernel memory"

section \<open>Machine integers\<close>

type_synonym u8 = "8 word"
type_synonym u16 = "16 word"
type_synonym u32 = "32 word"
type_synonym u64 = "64 word"

section \<open>Outcomes of kernel code\<close>

text \<open>
  A C function of the kernel either returns a value in a new state, or calls
  \<open>kkill\<close>, which halts the processor for good, or runs forever (a spinlock nobody
  releases, a polling loop whose condition never holds), or performs an access the C
  language leaves undefined (a null pointer dereference, a missing variadic argument).
\<close>

datatype ('s, 'a) kres = Ret 'a 's | Killed 's | Diverge | Fault

type_synonym ('s, 'a) kern = "'s \<Rightarrow> ('s, 'a) kres"

definition kret :: "'a \<Rightarrow> ('s, 'a) kern" where
  "kret x = (\<lambda>s. Ret x s)"

definition kbind :: "('s, 'a) kern \<Rightarrow> ('a \<Rightarrow> ('s, 'b) kern) \<Rightarrow> ('s, 'b) kern" where
  "kbind f g = (\<lambda>s. case f s of
       Ret x s' \<Rightarrow> g x s' | Killed s' \<Rightarrow> Killed s' | Diverge \<Rightarrow> Diverge | Fault \<Rightarrow> Fault)"

definition kseq :: "('s, 'a) kern \<Rightarrow> ('s, 'b) kern \<Rightarrow> ('s, 'b) kern" where
  "kseq f g = kbind f (\<lambda>_. g)"

definition kget :: "('s \<Rightarrow> 'a) \<Rightarrow> ('s, 'a) kern" where
  "kget f = (\<lambda>s. Ret (f s) s)"

definition kmod :: "('s \<Rightarrow> 's) \<Rightarrow> ('s, unit) kern" where
  "kmod f = (\<lambda>s. Ret () (f s))"

definition kfault :: "('s, 'a) kern" where
  "kfault = (\<lambda>s. Fault)"

definition kif :: "bool \<Rightarrow> ('s, unit) kern \<Rightarrow> ('s, unit) kern" where
  "kif c f = (if c then f else kret ())"

text \<open>Dereferencing a pointer that may be null: undefined when it is.\<close>

definition deref :: "u64 \<Rightarrow> ('s, unit) kern" where
  "deref p = (if p = 0 then kfault else kret ())"

lemma kret_apply [simp]: "kret x s = Ret x s"
  by (simp add: kret_def)

lemma kget_apply [simp]: "kget f s = Ret (f s) s"
  by (simp add: kget_def)

lemma kmod_apply [simp]: "kmod f s = Ret () (f s)"
  by (simp add: kmod_def)

lemma kfault_apply [simp]: "kfault s = Fault"
  by (simp add: kfault_def)

lemma kbind_cases [kern_simps]:
  "f s = Ret x s' \<Longrightarrow> kbind f g s = g x s'"
  "f s = Killed s' \<Longrightarrow> kbind f g s = Killed s'"
  "f s = Diverge \<Longrightarrow> kbind f g s = Diverge"
  "f s = Fault \<Longrightarrow> kbind f g s = Fault"
  by (simp_all add: kbind_def)

lemma kseq_cases [kern_simps]:
  "f s = Ret x s' \<Longrightarrow> kseq f h s = h s'"
  "f s = Killed s' \<Longrightarrow> kseq f h s = Killed s'"
  "f s = Diverge \<Longrightarrow> kseq f h s = Diverge"
  "f s = Fault \<Longrightarrow> kseq f h s = Fault"
  by (simp_all add: kseq_def kbind_def)

lemma kbind_kret [simp]: "kbind (kret x) g = g x"
  by (rule ext) (simp add: kbind_def)

lemma kbind_Ret_iff:
  "kbind f g s = Ret y t \<longleftrightarrow> (\<exists>x s'. f s = Ret x s' \<and> g x s' = Ret y t)"
  by (simp add: kbind_def split: kres.splits)

lemma kseq_Ret_iff:
  "kseq f g s = Ret y t \<longleftrightarrow> (\<exists>x s'. f s = Ret x s' \<and> g s' = Ret y t)"
  by (simp add: kseq_def kbind_Ret_iff)

lemma kbind_assoc: "kbind (kbind f g) h = kbind f (\<lambda>x. kbind (g x) h)"
  by (rule ext) (simp add: kbind_def split: kres.splits)

lemma kif_simps [simp]:
  "kif True f = f" "kif False f = kret ()"
  by (simp_all add: kif_def)

lemma deref_simps [simp]:
  "p \<noteq> 0 \<Longrightarrow> deref p s = Ret () s" "deref 0 s = Fault"
  by (simp_all add: deref_def)

section \<open>Loops\<close>

text \<open>
  A C loop is an iteration of its body on a configuration: \<open>Inl x\<close> goes round again
  with the loop variables \<open>x\<close>, \<open>Inr r\<close> leaves the loop (or returns from the
  function) with \<open>r\<close>. Not leaving is the outcome \<open>Diverge\<close>.
\<close>

fun kgoes_on :: "('s, 'x + 'a) kres \<Rightarrow> bool" where
  "kgoes_on (Ret (Inl x) s) = True"
| "kgoes_on r = False"

fun kround :: "('x \<Rightarrow> ('s, 'x + 'a) kern) \<Rightarrow> ('s, 'x + 'a) kres \<Rightarrow> ('s, 'x + 'a) kres" where
  "kround body (Ret (Inl x) s) = body x s"
| "kround body r = r"

fun kleave :: "('s, 'x + 'a) kres \<Rightarrow> ('s, 'a) kres" where
  "kleave (Ret (Inr a) s) = Ret a s"
| "kleave (Ret (Inl x) s) = Diverge"
| "kleave (Killed s) = Killed s"
| "kleave Diverge = Diverge"
| "kleave Fault = Fault"

definition kloop :: "('x \<Rightarrow> ('s, 'x + 'a) kern) \<Rightarrow> 'x \<Rightarrow> ('s, 'a) kern" where
  "kloop body x = (\<lambda>s. case while_option kgoes_on (kround body) (Ret (Inl x) s) of
       None \<Rightarrow> Diverge | Some r \<Rightarrow> kleave r)"

lemma kloop_unfold:
  "kloop body x s = (case body x s of
       Ret (Inl x') s' \<Rightarrow> kloop body x' s'
     | Ret (Inr a) s' \<Rightarrow> Ret a s'
     | Killed s' \<Rightarrow> Killed s' | Diverge \<Rightarrow> Diverge | Fault \<Rightarrow> Fault)"
proof (cases "kgoes_on (body x s)")
  case True
  then obtain x' s' where "body x s = Ret (Inl x') s'"
    by (cases "body x s" rule: kgoes_on.cases) auto
  then show ?thesis
    unfolding kloop_def by (subst while_option_unfold) simp
next
  case False
  then have "while_option kgoes_on (kround body) (Ret (Inl x) s) = Some (body x s)"
    by (subst while_option_unfold, simp, subst while_option_unfold, simp)
  with False show ?thesis
    unfolding kloop_def by (cases "body x s" rule: kleave.cases) auto
qed

lemma kloop_step:
  "body x s = Ret (Inl x') s' \<Longrightarrow> kloop body x s = kloop body x' s'"
  "body x s = Ret (Inr a) s' \<Longrightarrow> kloop body x s = Ret a s'"
  "body x s = Killed s' \<Longrightarrow> kloop body x s = Killed s'"
  "body x s = Diverge \<Longrightarrow> kloop body x s = Diverge"
  "body x s = Fault \<Longrightarrow> kloop body x s = Fault"
  by (simp_all add: kloop_unfold [of body x s])

text \<open>A loop whose body always goes round again never returns.\<close>

lemma kloop_diverge:
  fixes body :: "'a \<Rightarrow> ('b, 'a + 'c) kern"
  assumes step: "\<And>x s. P x s \<Longrightarrow> \<exists>x' s'. body x s = Ret (Inl x') s' \<and> P x' s'"
    and init: "P x s"
  shows "kloop body x s = Diverge"
proof -
  let ?Q = "\<lambda>r :: ('b, 'a + 'c) kres. \<exists>x s. r = Ret (Inl x) s \<and> P x s"
  have "while_option kgoes_on (kround body) (Ret (Inl x) s) = None"
  proof (rule ccontr)
    assume "while_option kgoes_on (kround body) (Ret (Inl x) s) \<noteq> None"
    then obtain t where t: "while_option kgoes_on (kround body) (Ret (Inl x) s) = Some t"
      by blast
    have "?Q t"
    proof (rule while_option_rule [OF _ t])
      fix r assume "?Q r" "kgoes_on r"
      then show "?Q (kround body r)" using step by fastforce
    next
      show "?Q (Ret (Inl x) s)" using init by blast
    qed
    then have "kgoes_on t" by auto
    with while_option_stop [OF t] show False by blast
  qed
  then show ?thesis by (simp add: kloop_def)
qed

text \<open>A loop with a measure returns; its result satisfies what the last round gives.\<close>

lemma kloop_total:
  fixes f :: "'x \<Rightarrow> 's \<Rightarrow> nat"
  assumes step: "\<And>x s. P x s \<Longrightarrow>
      (\<exists>x' s'. body x s = Ret (Inl x') s' \<and> P x' s' \<and> f x' s' < f x s)
    \<or> (\<exists>a s'. body x s = Ret (Inr a) s' \<and> Q a s')"
    and init: "P x s"
  shows "\<exists>a s'. kloop body x s = Ret a s' \<and> Q a s'"
  using init
proof (induction "f x s" arbitrary: x s rule: less_induct)
  case less
  from step [OF less.prems] show ?case
  proof (elim disjE exE conjE)
    fix x' s' assume "body x s = Ret (Inl x') s'" "P x' s'" "f x' s' < f x s"
    then show ?case using less.hyps by (simp add: kloop_step)
  next
    fix a s' assume "body x s = Ret (Inr a) s'" "Q a s'"
    then show ?case by (simp add: kloop_step)
  qed
qed

text \<open>A counting loop over a list of indices, and one whose body may return early.\<close>

fun kfor :: "'i list \<Rightarrow> ('i \<Rightarrow> ('s, unit) kern) \<Rightarrow> ('s, unit) kern" where
  "kfor [] body = kret ()"
| "kfor (i # is) body = kseq (body i) (kfor is body)"

fun kfor_ret :: "'i list \<Rightarrow> ('i \<Rightarrow> ('s, 'a option) kern) \<Rightarrow> ('s, 'a option) kern" where
  "kfor_ret [] body = kret None"
| "kfor_ret (i # is) body = kbind (body i)
     (\<lambda>r. case r of Some a \<Rightarrow> kret (Some a) | None \<Rightarrow> kfor_ret is body)"

lemma kfor_append: "kfor (xs @ ys) body s = kseq (kfor xs body) (kfor ys body) s"
  by (induction xs arbitrary: s)
    (auto simp: kseq_def kbind_def split: kres.splits)

text \<open>\<open>for (uint64_t i = start; i < bound; i += step) body(i);\<close>, wrap-around included.\<close>

definition kfor_step :: "u64 \<Rightarrow> u64 \<Rightarrow> u64 \<Rightarrow> (u64 \<Rightarrow> ('s, unit) kern) \<Rightarrow> ('s, unit) kern" where
  "kfor_step start bound step body =
     kloop (\<lambda>i. if i < bound then kseq (body i) (kret (Inl (i + step))) else kret (Inr ())) start"

section \<open>Words\<close>

lemma unat_of_nat_u64: "unat (of_nat n :: u64) = n mod 2 ^ 64"
  by (simp add: unat_of_nat take_bit_eq_mod)

lemma unat_add_nowrap: "unat (a :: u64) + unat b < 2 ^ 64 \<Longrightarrow> unat (a + b) = unat a + unat b"
  by (simp add: unat_word_ariths)

lemma unat_diff_pos: "(a :: u64) \<noteq> b \<Longrightarrow> 0 < unat (b - a)"
  by (metis right_minus_eq unat_gt_0 word_neq_0_conv)

lemma and_ffffffff: "(v :: u64) AND 0xFFFFFFFF = take_bit 32 v"
  by (simp add: take_bit_eq_mask mask_eq_exp_minus_1)

lemma word_neq_0_unat: "(x :: 'a::len word) \<noteq> 0 \<longleftrightarrow> 0 < unat x"
  by (simp add: unat_gt_0)

lemma unat_ucast_up: "unat (ucast (x :: u32) :: u64) = unat x"
proof -
  have "unat x < 2 ^ 32" using unsigned_less [of x] by simp
  then show ?thesis by (simp add: unsigned_ucast_eq take_bit_nat_eq_self)
qed

end
