(* ===== verification/Machine.thy ===== *)
theory Machine
  imports Prelude
begin

text \<open>
  The machine the kernel runs on: byte-addressed kernel virtual memory with little-endian
  loads and stores, the device side of the processor (ports, memory-mapped registers,
  time-stamp counter, \<open>cpuid\<close>), model-specific and control registers, the terminal, and
  the port and register primitives of \<^verbatim>\<open>src/lib/io.c\<close>.
\<close>

section \<open>Kernel memory\<close>

type_synonym mem = "u64 \<Rightarrow> u8"

definition bytes_at :: "mem \<Rightarrow> u64 \<Rightarrow> nat \<Rightarrow> u8 list" where
  "bytes_at m a n = map (\<lambda>i. m (a + of_nat i)) [0..<n]"

definition store_bytes :: "mem \<Rightarrow> u64 \<Rightarrow> u8 list \<Rightarrow> mem" where
  "store_bytes m a bs =
     (\<lambda>x. if unat (x - a) < length bs then bs ! unat (x - a) else m x)"

fun le_word :: "u8 list \<Rightarrow> 'a::len word" where
  "le_word [] = 0"
| "le_word (b # bs) = ucast b OR push_bit 8 (le_word bs)"

fun word_bytes :: "nat \<Rightarrow> 'a::len word \<Rightarrow> u8 list" where
  "word_bytes 0 w = []"
| "word_bytes (Suc n) w = ucast w # word_bytes n (drop_bit 8 w)"

definition load16 :: "mem \<Rightarrow> u64 \<Rightarrow> u16" where
  "load16 m a = le_word (bytes_at m a 2)"

definition load32 :: "mem \<Rightarrow> u64 \<Rightarrow> u32" where
  "load32 m a = le_word (bytes_at m a 4)"

definition load64 :: "mem \<Rightarrow> u64 \<Rightarrow> u64" where
  "load64 m a = le_word (bytes_at m a 8)"

definition store16 :: "mem \<Rightarrow> u64 \<Rightarrow> u16 \<Rightarrow> mem" where
  "store16 m a v = store_bytes m a (word_bytes 2 v)"

definition store32 :: "mem \<Rightarrow> u64 \<Rightarrow> u32 \<Rightarrow> mem" where
  "store32 m a v = store_bytes m a (word_bytes 4 v)"

definition store64 :: "mem \<Rightarrow> u64 \<Rightarrow> u64 \<Rightarrow> mem" where
  "store64 m a v = store_bytes m a (word_bytes 8 v)"

text \<open>\<open>disj_mem a n b k\<close>: the \<open>k\<close> bytes at \<open>b\<close> lie outside the \<open>n\<close> bytes at \<open>a\<close>.\<close>

definition disj_mem :: "u64 \<Rightarrow> nat \<Rightarrow> u64 \<Rightarrow> nat \<Rightarrow> bool" where
  "disj_mem a n b k \<longleftrightarrow> (\<forall>i<k. n \<le> unat (b + of_nat i - a))"

subsection \<open>Encoding and decoding\<close>

lemma length_word_bytes [simp]: "length (word_bytes n w) = n"
  by (induction n arbitrary: w) simp_all

lemma length_bytes_at [simp]: "length (bytes_at m a n) = n"
  by (simp add: bytes_at_def)

lemma nth_bytes_at [simp]: "i < n \<Longrightarrow> bytes_at m a n ! i = m (a + of_nat i)"
  by (simp add: bytes_at_def)

lemma take_bit_split8:
  fixes w :: "'a::len word"
  shows "take_bit 8 w OR push_bit 8 (take_bit n (drop_bit 8 w)) = take_bit (n + 8) w"
  by (rule bit_eqI) (auto simp: bit_simps)

lemma le_word_word_bytes:
  "le_word (word_bytes n (w :: 'a::len word)) = take_bit (8 * n) w"
proof (induction n arbitrary: w)
  case 0
  then show ?case by simp
next
  case (Suc n)
  have "ucast (ucast w :: u8) = take_bit 8 w"
    by (rule bit_eqI) (auto simp: bit_simps)
  then show ?case
    using Suc take_bit_split8 [of w "8 * n"] by (simp add: add.commute)
qed

lemma take_bit_full [simp]:
  "take_bit 16 (x :: u16) = x" "take_bit 32 (y :: u32) = y" "take_bit 64 (z :: u64) = z"
  by (simp_all add: take_bit_word_eq_self)

lemma bytes_at_store_same:
  "length bs < 2 ^ 64 \<Longrightarrow> bytes_at (store_bytes m a bs) a (length bs) = bs"
  by (rule nth_equalityI)
    (auto simp: store_bytes_def unat_of_nat_u64)

lemma bytes_at_store_other:
  "disj_mem a (length bs) b k \<Longrightarrow> bytes_at (store_bytes m a bs) b k = bytes_at m b k"
  by (rule nth_equalityI) (auto simp: store_bytes_def disj_mem_def)

lemma load_store_same [simp, mem_simps]:
  "load16 (store16 m a v) a = v"
  "load32 (store32 m a w) a = w"
  "load64 (store64 m a x) a = x"
  using bytes_at_store_same [of "word_bytes 2 v" m a] bytes_at_store_same [of "word_bytes 4 w" m a]
    bytes_at_store_same [of "word_bytes 8 x" m a]
  by (simp_all add: load16_def store16_def load32_def store32_def load64_def store64_def
      le_word_word_bytes)

lemma load64_store64_other [mem_simps]:
  "disj_mem a 8 b 8 \<Longrightarrow> load64 (store64 m a v) b = load64 m b"
  by (simp add: load64_def store64_def bytes_at_store_other)

lemma load64_cong:
  "(\<And>i. i < 8 \<Longrightarrow> m (a + of_nat i) = m' (a + of_nat i)) \<Longrightarrow> load64 m a = load64 m' a"
  by (auto simp: load64_def bytes_at_def intro: arg_cong)

lemma load_store_bytes_other [mem_simps]:
  "disj_mem a (length bs) b 2 \<Longrightarrow> load16 (store_bytes m a bs) b = load16 m b"
  "disj_mem a (length bs) b 4 \<Longrightarrow> load32 (store_bytes m a bs) b = load32 m b"
  "disj_mem a (length bs) b 8 \<Longrightarrow> load64 (store_bytes m a bs) b = load64 m b"
  "disj_mem a (length bs) b 1 \<Longrightarrow> store_bytes m a bs b = m b"
  by (simp_all add: load16_def load32_def load64_def bytes_at_store_other)
    (simp add: store_bytes_def disj_mem_def)

lemma fun_upd_store_bytes: "m(a := v) = store_bytes m a [v]"
proof
  fix x
  have "unat (x - a) = 0 \<longleftrightarrow> x = a" by (simp add: unat_eq_zero)
  then show "(m(a := v)) x = store_bytes m a [v] x" by (auto simp: store_bytes_def)
qed

lemma le_word_zeros: "le_word (replicate n 0) = 0"
  by (induction n) simp_all

lemma load64_zero:
  assumes "\<And>i. i < 8 \<Longrightarrow> m (a + of_nat i) = 0"
  shows "load64 m a = 0"
proof -
  have "bytes_at m a 8 = replicate 8 0"
    by (rule nth_equalityI) (auto simp: assms)
  then show ?thesis
    unfolding load64_def by (simp only: le_word_zeros)
qed

subsection \<open>Disjoint ranges\<close>

lemma disj_memI:
  assumes "n \<le> unat (b - a)" and "unat (b - a) + k \<le> 2 ^ 64"
  shows "disj_mem a n b k"
  unfolding disj_mem_def
proof (intro allI impI)
  fix i assume i: "i < k"
  have eq: "b + of_nat i - a = (b - a) + of_nat i" by simp
  have "unat ((b - a) + of_nat i) = unat (b - a) + i"
    using assms(2) i by (simp add: unat_word_ariths unat_of_nat_u64)
  then show "n \<le> unat (b + of_nat i - a)"
    unfolding eq using assms(1) by linarith
qed

text \<open>Two fields at different offsets from the same base.\<close>

lemma disj_off:
  assumes "p + n \<le> q \<or> q + k \<le> p" "p + n \<le> 2 ^ 64" "q + k \<le> 2 ^ 64"
  shows "disj_mem (b + of_nat p) n (b + of_nat q) k"
  unfolding disj_mem_def
proof (intro allI impI)
  fix i assume i: "i < k"
  have eq: "b + of_nat q + of_nat i - (b + of_nat p) = (of_nat (q + i) - of_nat p :: u64)" by simp
  show "n \<le> unat (b + of_nat q + of_nat i - (b + of_nat p))"
  proof (cases "p + n \<le> q")
    case True
    then have "(of_nat (q + i) - of_nat p :: u64) = of_nat (q + i - p)" by (simp add: of_nat_diff)
    moreover have "unat (of_nat (q + i - p) :: u64) = q + i - p"
      using i assms(3) by (simp add: unat_of_nat_u64)
    ultimately show ?thesis unfolding eq using True by simp
  next
    case False
    then have lt: "q + i < p" using assms(1) i by simp
    define e where "e = p - (q + i)"
    have e: "p = e + (q + i)" "0 < e" using lt by (simp_all add: e_def)
    then have d: "(of_nat (q + i) - of_nat p :: u64) = 0 - of_nat e" by simp
    show ?thesis
    proof (cases "n = 0")
      case False
      then have "e < 2 ^ 64" using e assms(2) by simp
      then have "unat (0 - of_nat e :: u64) = 2 ^ 64 - e"
        using e(2) unat_sub_if' [of 0 "of_nat e :: u64"] by (simp add: unat_of_nat_u64)
      then show ?thesis unfolding eq d using e assms(2) by simp
    qed simp
  qed
qed

definition aligned :: "nat \<Rightarrow> u64 \<Rightarrow> bool" where
  "aligned k a \<longleftrightarrow> take_bit k a = 0"

lemma aligned_dvd: "aligned k a \<longleftrightarrow> 2 ^ k dvd unat a"
proof -
  have "unat (take_bit k a) = unat a mod 2 ^ k"
    unfolding unsigned_take_bit_eq by (rule take_bit_eq_mod)
  then show ?thesis
    unfolding aligned_def by (metis dvd_eq_mod_eq_0 unat_eq_zero)
qed

lemma aligned_diff_bounds:
  assumes "aligned k a" "aligned k b" "a \<noteq> b" "k < 64"
  shows "2 ^ k \<le> unat (b - a)" and "unat (b - a) + 2 ^ k \<le> 2 ^ 64"
proof -
  have d: "(2::nat) ^ k dvd unat (b - a)"
  proof -
    have "(2::nat) ^ k dvd 2 ^ 64" using assms(4) by (intro le_imp_power_dvd) simp
    moreover have "2 ^ k dvd unat a" "2 ^ k dvd unat b"
      using assms(1,2) by (simp_all add: aligned_dvd)
    ultimately show ?thesis
      by (auto simp: unat_sub_if' word_le_nat_alt)
  qed
  from unat_diff_pos [OF assms(3)] d show "2 ^ k \<le> unat (b - a)" by (intro dvd_imp_le)
  have "(2::nat) ^ 64 = 2 ^ k * 2 ^ (64 - k)" using assms(4) by (simp add: power_add [symmetric])
  moreover from d obtain q where q: "unat (b - a) = 2 ^ k * q" by blast
  moreover have "unat (b - a) < 2 ^ 64" using unsigned_less [of "b - a"] by simp
  ultimately have "q < 2 ^ (64 - k)" by (metis mult_less_cancel1)
  then have "2 ^ k * (q + 1) \<le> 2 ^ k * (2::nat) ^ (64 - k)" by (intro mult_le_mono2) simp
  then show "unat (b - a) + 2 ^ k \<le> 2 ^ 64"
    unfolding q \<open>(2::nat) ^ 64 = 2 ^ k * 2 ^ (64 - k)\<close> by simp
qed

lemma aligned_disj:
  assumes "aligned k p" "aligned k q" "p \<noteq> q" "k < 64"
    and "unat x + n \<le> 2 ^ k" "unat y + l \<le> 2 ^ k"
  shows "disj_mem (p + x) n (q + y) l"
  unfolding disj_mem_def
proof (intro allI impI)
  fix i assume i: "i < l"
  let ?d = "unat (q - p)"
  have d: "2 ^ k \<le> ?d" "?d + 2 ^ k \<le> 2 ^ 64"
    using aligned_diff_bounds [OF assms(1,2,3,4)] by simp_all
  have eq: "q + y + of_nat i - (p + x) = (q - p) + (y + of_nat i) - x" by (simp add: algebra_simps)
  have yi: "unat (y + of_nat i) = unat y + i"
    using assms(6) i d by (simp add: unat_word_ariths unat_of_nat_u64)
  have "unat ((q - p) + (y + of_nat i)) = ?d + unat (y + of_nat i)"
    using assms(6) i d yi by (intro unat_add_nowrap) linarith
  then have sum: "unat ((q - p) + (y + of_nat i)) = ?d + (unat y + i)" by (simp only: yi)
  then have "x \<le> (q - p) + (y + of_nat i)"
    unfolding word_le_nat_alt using assms(5) d by linarith
  then have "unat ((q - p) + (y + of_nat i) - x) = ?d + (unat y + i) - unat x"
    unfolding sum [symmetric] by (rule unat_sub)
  then show "n \<le> unat (q + y + of_nat i - (p + x))"
    unfolding eq using d(1) assms(5) by linarith
qed

section \<open>The machine state\<close>

text \<open>
  The hardware is not part of the kernel: what a device answers is an arbitrary function
  \<open>devices\<close> of the history of the accesses made so far and of the request. The history
  is kept newest first.
\<close>

datatype io_req = In8 u16 | In16 u16 | In32 u16 | MmioRead8 u64 | MmioRead16 u64
  | MmioRead32 u64 | MmioRead64 u64 | Rdtsc | CpuidEcx u32 | CpuidEdx u32

datatype io_event = Read io_req u64 | Out8 u16 u8 | Out16 u16 u16 | Out32 u16 u32
  | MmioWrite8 u64 u8 | MmioWrite16 u64 u16 | MmioWrite32 u64 u32 | MmioWrite64 u64 u64 | Lidt | Lgdt | Cli | Sti | Hlt

record machine =
  mem :: mem
  hhdmoffset :: u64
  devices :: "io_event list \<Rightarrow> io_req \<Rightarrow> u64"
  io_trace :: "io_event list"
  msrs :: "u32 \<Rightarrow> u64"
  cr3 :: u64
  cr4 :: u64
  fb_out :: string
  kernel_killed :: bool

definition emit :: "io_event \<Rightarrow> ('a machine_scheme, unit) kern" where
  "emit e = kmod (\<lambda>s. s\<lparr>io_trace := e # io_trace s\<rparr>)"

definition hw_read :: "io_req \<Rightarrow> ('a machine_scheme, u64) kern" where
  "hw_read r = (\<lambda>s. let v = devices s (io_trace s) r in
     Ret v (s\<lparr>io_trace := Read r v # io_trace s\<rparr>))"

definition mstore64 :: "u64 \<Rightarrow> u64 \<Rightarrow> ('a machine_scheme, unit) kern" where
  "mstore64 a v = kmod (\<lambda>s. s\<lparr>mem := store64 (mem s) a v\<rparr>)"

definition mstore32 :: "u64 \<Rightarrow> u32 \<Rightarrow> ('a machine_scheme, unit) kern" where
  "mstore32 a v = kmod (\<lambda>s. s\<lparr>mem := store32 (mem s) a v\<rparr>)"

definition mstore16 :: "u64 \<Rightarrow> u16 \<Rightarrow> ('a machine_scheme, unit) kern" where
  "mstore16 a v = kmod (\<lambda>s. s\<lparr>mem := store16 (mem s) a v\<rparr>)"

definition mstore8 :: "u64 \<Rightarrow> u8 \<Rightarrow> ('a machine_scheme, unit) kern" where
  "mstore8 a v = kmod (\<lambda>s. s\<lparr>mem := (mem s)(a := v)\<rparr>)"

text \<open>Registers of a device mapped into memory.\<close>

definition mmio_read8 :: "u64 \<Rightarrow> ('a machine_scheme, u8) kern" where
  "mmio_read8 a = kbind (hw_read (MmioRead8 a)) (\<lambda>v. kret (ucast v))"

definition mmio_read16 :: "u64 \<Rightarrow> ('a machine_scheme, u16) kern" where
  "mmio_read16 a = kbind (hw_read (MmioRead16 a)) (\<lambda>v. kret (ucast v))"

definition mmio_read32 :: "u64 \<Rightarrow> ('a machine_scheme, u32) kern" where
  "mmio_read32 a = kbind (hw_read (MmioRead32 a)) (\<lambda>v. kret (ucast v))"

definition mmio_read64 :: "u64 \<Rightarrow> ('a machine_scheme, u64) kern" where
  "mmio_read64 a = hw_read (MmioRead64 a)"

text \<open>\<^verbatim>\<open>kkill\<close> of \<^verbatim>\<open>src/main.c\<close>: record the kill, disable interrupts, halt, never return.\<close>

definition kkill :: "('a machine_scheme, 'b) kern" where
  "kkill = (\<lambda>s. Killed (s\<lparr>kernel_killed := True, io_trace := Hlt # Cli # io_trace s\<rparr>))"

section \<open>Ports and model-specific registers: src/lib/io.c\<close>

definition rdmsr :: "u64 \<Rightarrow> ('a machine_scheme, u64) kern" where
  "rdmsr msr = kget (\<lambda>s.
     let v = msrs s (ucast msr); low = (ucast v :: u32); high = (ucast (drop_bit 32 v) :: u32)
     in push_bit 32 (ucast high) OR ucast low)"

definition wrmsr :: "u64 \<Rightarrow> u64 \<Rightarrow> ('a machine_scheme, unit) kern" where
  "wrmsr msr value = kmod (\<lambda>s.
     let low = (ucast (value AND 0xFFFFFFFF) :: u32); high = (ucast (drop_bit 32 value) :: u32)
     in s\<lparr>msrs := (msrs s)(ucast msr := push_bit 32 (ucast high) OR ucast low)\<rparr>)"

definition outb :: "u16 \<Rightarrow> u8 \<Rightarrow> ('a machine_scheme, unit) kern" where
  "outb port val = emit (Out8 port val)"

definition outw :: "u16 \<Rightarrow> u16 \<Rightarrow> ('a machine_scheme, unit) kern" where
  "outw port val = emit (Out16 port val)"

definition outl :: "u16 \<Rightarrow> u32 \<Rightarrow> ('a machine_scheme, unit) kern" where
  "outl port val = emit (Out32 port val)"

definition inb :: "u16 \<Rightarrow> ('a machine_scheme, u8) kern" where
  "inb port = kbind (hw_read (In8 port)) (\<lambda>v. kret (ucast v))"

definition inw :: "u16 \<Rightarrow> ('a machine_scheme, u16) kern" where
  "inw port = kbind (hw_read (In16 port)) (\<lambda>v. kret (ucast v))"

definition inl :: "u16 \<Rightarrow> ('a machine_scheme, u32) kern" where
  "inl port = kbind (hw_read (In32 port)) (\<lambda>v. kret (ucast v))"

lemma emit_apply [simp]: "emit e s = Ret () (s\<lparr>io_trace := e # io_trace s\<rparr>)"
  by (simp add: emit_def)

lemma mstore_apply [simp]:
  "mstore64 a x s = Ret () (s\<lparr>mem := store64 (mem s) a x\<rparr>)"
  "mstore32 a y s = Ret () (s\<lparr>mem := store32 (mem s) a y\<rparr>)"
  "mstore16 a z s = Ret () (s\<lparr>mem := store16 (mem s) a z\<rparr>)"
  "mstore8 a w s = Ret () (s\<lparr>mem := (mem s)(a := w)\<rparr>)"
  by (simp_all add: mstore64_def mstore32_def mstore16_def mstore8_def)

lemma join_halves: "push_bit 32 (ucast (ucast (drop_bit 32 v) :: u32)) OR ucast (ucast v :: u32) = (v :: u64)"
  by (rule bit_eqI) (auto simp: bit_simps)

lemma rdmsr_value: "rdmsr msr s = Ret (msrs s (ucast msr)) s"
  by (simp add: rdmsr_def Let_def join_halves)

lemma wrmsr_value: "wrmsr msr v s = Ret () (s\<lparr>msrs := (msrs s)(ucast msr := v)\<rparr>)"
proof -
  have "ucast (v AND 0xFFFFFFFF) = (ucast v :: u32)"
    unfolding and_ffffffff by (rule bit_eqI) (auto simp: bit_simps)
  then show ?thesis by (simp add: wrmsr_def Let_def join_halves)
qed

end
