(* ===== verification/KString.thy ===== *)
theory KString
  imports Machine
begin

text \<open>
  The memory and string routines of \<^verbatim>\<open>src/lib/string.c\<close>, byte by byte as the
  loops run, and their closed forms: a range of memory replaced by a byte list.
\<close>

section \<open>Definitions\<close>

definition memset_mem :: "mem \<Rightarrow> u64 \<Rightarrow> u32 \<Rightarrow> u64 \<Rightarrow> mem" where
  "memset_mem m dest c n = fold (\<lambda>i m. m(dest + of_nat i := ucast c)) [0..<unat n] m"

definition memset :: "u64 \<Rightarrow> u32 \<Rightarrow> u64 \<Rightarrow> ('a machine_scheme, u64) kern" where
  "memset dest c n = kseq (kmod (\<lambda>s. s\<lparr>mem := memset_mem (mem s) dest c n\<rparr>)) (kret dest)"

definition copy_fwd :: "mem \<Rightarrow> u64 \<Rightarrow> u64 \<Rightarrow> nat \<Rightarrow> mem" where
  "copy_fwd m dest src n =
     fold (\<lambda>i m. m(dest + of_nat i := m (src + of_nat i))) [0..<n] m"

definition copy_bwd :: "mem \<Rightarrow> u64 \<Rightarrow> u64 \<Rightarrow> nat \<Rightarrow> mem" where
  "copy_bwd m dest src n =
     fold (\<lambda>i m. m(dest + of_nat i := m (src + of_nat i))) (rev [0..<n]) m"

definition memcpy_mem :: "mem \<Rightarrow> u64 \<Rightarrow> u64 \<Rightarrow> u64 \<Rightarrow> mem" where
  "memcpy_mem m dest src n = copy_fwd m dest src (unat n)"

definition memcpy :: "u64 \<Rightarrow> u64 \<Rightarrow> u64 \<Rightarrow> ('a machine_scheme, u64) kern" where
  "memcpy dest src n = kseq (kmod (\<lambda>s. s\<lparr>mem := memcpy_mem (mem s) dest src n\<rparr>)) (kret dest)"

definition memmove_mem :: "mem \<Rightarrow> u64 \<Rightarrow> u64 \<Rightarrow> u64 \<Rightarrow> mem" where
  "memmove_mem m dest src n =
     (if dest < src then copy_fwd m dest src (unat n)
      else if src < dest then copy_bwd m dest src (unat n)
      else m)"

definition memmove :: "u64 \<Rightarrow> u64 \<Rightarrow> u64 \<Rightarrow> ('a machine_scheme, u64) kern" where
  "memmove dest src n = kseq (kmod (\<lambda>s. s\<lparr>mem := memmove_mem (mem s) dest src n\<rparr>)) (kret dest)"

fun memcmp_loop :: "mem \<Rightarrow> u64 \<Rightarrow> u64 \<Rightarrow> nat list \<Rightarrow> int" where
  "memcmp_loop m s1 s2 [] = 0"
| "memcmp_loop m s1 s2 (i # is) =
     (let a = m (s1 + of_nat i); b = m (s2 + of_nat i)
      in if a \<noteq> b then (if a < b then -1 else 1) else memcmp_loop m s1 s2 is)"

definition memcmp :: "mem \<Rightarrow> u64 \<Rightarrow> u64 \<Rightarrow> u64 \<Rightarrow> int" where
  "memcmp m s1 s2 n = memcmp_loop m s1 s2 [0..<unat n]"

definition strlen :: "u64 \<Rightarrow> ('a machine_scheme, u64) kern" where
  "strlen str = kloop (\<lambda>i. kbind (kget (\<lambda>s. mem s (str + i)))
     (\<lambda>c. kret (if c \<noteq> 0 then Inl (i + 1) else Inr i))) 0"

definition dtoc :: "int \<Rightarrow> char" where
  "dtoc digit =
     (if digit > 15 then CHR 0x00
      else if digit = 0 then CHR ''0''
      else if digit < 10 then char_of (48 + digit)
      else char_of (65 + digit - 10))"

section \<open>Closed forms\<close>

lemma store_bytes_snoc:
  assumes "length bs < 2 ^ 64"
  shows "store_bytes m a (bs @ [b]) = (store_bytes m a bs)(a + of_nat (length bs) := b)"
proof
  fix x
  have eq: "x = a + of_nat (length bs) \<longleftrightarrow> unat (x - a) = length bs"
  proof
    assume "unat (x - a) = length bs"
    moreover have "x - a = of_nat (unat (x - a))" by simp
    ultimately have "x - a = of_nat (length bs)" by simp
    then show "x = a + of_nat (length bs)" by (simp add: diff_eq_eq add.commute)
  qed (use assms in \<open>simp add: unat_of_nat_u64\<close>)
  show "store_bytes m a (bs @ [b]) x = ((store_bytes m a bs)(a + of_nat (length bs) := b)) x"
    unfolding store_bytes_def fun_upd_apply eq by (auto simp: nth_append)
qed

lemma store_bytes_apply:
  "store_bytes m a bs x = (if unat (x - a) < length bs then bs ! unat (x - a) else m x)"
  by (simp add: store_bytes_def)

lemma store_bytes_Nil [simp]: "store_bytes m a [] = m"
  by (rule ext) (simp add: store_bytes_def)

lemma memset_fold:
  "n < 2 ^ 64 \<Longrightarrow> fold (\<lambda>i m. m(dest + of_nat i := v)) [0..<n] m = store_bytes m dest (replicate n v)"
proof (induction n)
  case 0
  then show ?case by simp
next
  case (Suc n)
  let ?f = "\<lambda>i (m :: mem). m(dest + of_nat i := v)"
  have "fold ?f [0..<Suc n] m = ?f n (fold ?f [0..<n] m)"
    by (simp only: upt_Suc_append fold_append o_apply fold_simps zero_le)
  also have "fold ?f [0..<n] m = store_bytes m dest (replicate n v)"
    by (rule Suc.IH) (use Suc.prems in linarith)
  also have "?f n \<dots> = store_bytes m dest (replicate n v @ [v])"
    using Suc.prems store_bytes_snoc [of "replicate n v" m dest v] by (simp only: length_replicate)
  also have "replicate n v @ [v] = replicate (Suc n) v"
    by (simp add: replicate_append_same)
  finally show ?case .
qed

lemma memset_mem_eq: "memset_mem m dest c n = store_bytes m dest (replicate (unat n) (ucast c))"
  unfolding memset_mem_def by (rule memset_fold) (use unsigned_less [of n] in simp)

lemma bytes_at_Suc: "bytes_at m a (Suc n) = bytes_at m a n @ [m (a + of_nat n)]"
  by (simp add: bytes_at_def)

lemma copy_fwd_eq:
  assumes "n < 2 ^ 64" and sep: "\<And>i j. j < i \<Longrightarrow> i < n \<Longrightarrow> src + of_nat i \<noteq> dest + of_nat j"
  shows "copy_fwd m dest src n = store_bytes m dest (bytes_at m src n)"
  using assms
proof (induction n)
  case 0
  then show ?case by (simp add: copy_fwd_def bytes_at_def)
next
  case (Suc n)
  have IH: "copy_fwd m dest src n = store_bytes m dest (bytes_at m src n)"
    using Suc.prems by (intro Suc.IH) auto
  have "\<not> unat (src + of_nat n - dest) < n"
  proof
    assume lt: "unat (src + of_nat n - dest) < n"
    have "src + of_nat n = dest + of_nat (unat (src + of_nat n - dest))" by simp
    with Suc.prems(2) [OF lt] show False by simp
  qed
  then have "store_bytes m dest (bytes_at m src n) (src + of_nat n) = m (src + of_nat n)"
    by (simp add: store_bytes_apply)
  then show ?case
    using IH Suc.prems(1) store_bytes_snoc [of "bytes_at m src n" m dest "m (src + of_nat n)"]
    by (simp add: copy_fwd_def bytes_at_Suc)
qed

lemma copy_bwd_eq:
  assumes "n < 2 ^ 64" and sep: "\<And>i j. i < j \<Longrightarrow> j < n \<Longrightarrow> src + of_nat i \<noteq> dest + of_nat j"
  shows "copy_bwd m dest src n = store_bytes m dest (bytes_at m src n)"
  using assms
proof (induction n arbitrary: m)
  case 0
  then show ?case by (simp add: copy_bwd_def bytes_at_def)
next
  case (Suc n)
  let ?m = "m(dest + of_nat n := m (src + of_nat n))"
  have "copy_bwd m dest src (Suc n) = copy_bwd ?m dest src n"
    by (simp add: copy_bwd_def)
  also have "\<dots> = store_bytes ?m dest (bytes_at ?m src n)"
    using Suc.prems by (intro Suc.IH) auto
  also have "bytes_at ?m src n = bytes_at m src n"
    using Suc.prems(2) [of _ n] by (intro nth_equalityI) auto
  also have "store_bytes ?m dest (bytes_at m src n)
      = (store_bytes m dest (bytes_at m src n))(dest + of_nat n := m (src + of_nat n))"
    using Suc.prems(1) by (intro ext) (auto simp: store_bytes_apply unat_of_nat_u64)
  also have "\<dots> = store_bytes m dest (bytes_at m src (Suc n))"
    using Suc.prems(1) store_bytes_snoc [of "bytes_at m src n" m dest "m (src + of_nat n)"]
    by (simp add: bytes_at_Suc)
  finally show ?case .
qed

lemma unat_plus_of_nat:
  "unat (a :: u64) + i < 2 ^ 64 \<Longrightarrow> unat (a + of_nat i) = unat a + i"
  by (simp add: unat_word_ariths unat_of_nat_u64)

text \<open>
  C14: \<open>memmove\<close> copies the source range as it was before the call, whatever the
  overlap of the two ranges, and changes no byte outside the destination, provided neither
  range runs past the end of the address space.
\<close>

theorem memmove_correct:
  assumes "unat src + unat n \<le> 2 ^ 64" and "unat dest + unat n \<le> 2 ^ 64"
  shows "memmove dest src n s
       = Ret dest (s\<lparr>mem := store_bytes (mem s) dest (bytes_at (mem s) src (unat n))\<rparr>)"
proof -
  let ?m = "mem s"
  have n: "unat n < 2 ^ 64" using unsigned_less [of n] by simp
  have ne: "src + of_nat i \<noteq> dest + of_nat j"
    if "i < unat n" "j < unat n" "unat src + i \<noteq> unat dest + j" for i j
  proof -
    have "unat (src + of_nat i) = unat src + i" "unat (dest + of_nat j) = unat dest + j"
      using assms that(1,2) by (intro unat_plus_of_nat; linarith)+
    then show ?thesis using that(3) by (metis)
  qed
  consider "dest < src" | "src < dest" | "src = dest" by (meson linorder_less_linear)
  then have "memmove_mem ?m dest src n = store_bytes ?m dest (bytes_at ?m src (unat n))"
  proof cases
    case 1
    then have "unat dest < unat src" by (simp add: word_less_nat_alt)
    then have "copy_fwd ?m dest src (unat n) = store_bytes ?m dest (bytes_at ?m src (unat n))"
      using n by (intro copy_fwd_eq ne) simp_all
    then show ?thesis using 1 by (simp add: memmove_mem_def)
  next
    case 2
    then have "unat src < unat dest" by (simp add: word_less_nat_alt)
    then have "copy_bwd ?m dest src (unat n) = store_bytes ?m dest (bytes_at ?m src (unat n))"
      using n by (intro copy_bwd_eq ne) simp_all
    then show ?thesis using 2 by (auto simp: memmove_mem_def)
  next
    case 3
    then have "store_bytes ?m dest (bytes_at ?m src (unat n)) = ?m"
      by (intro ext) (auto simp: store_bytes_apply)
    then show ?thesis using 3 by (simp add: memmove_mem_def)
  qed
  then show ?thesis by (simp add: memmove_def kern_simps)
qed

text \<open>An overlapping move by one byte, in both directions.\<close>

theorem memmove_correct_witness:
  "bytes_at (memmove_mem (\<lambda>a. ucast a) 0x11 0x10 4) 0x10 5 = [0x10, 0x10, 0x11, 0x12, 0x13]
   \<and> (\<forall>s :: machine. memmove 0x11 0x10 4 s
        = Ret 0x11 (s\<lparr>mem := store_bytes (mem s) 0x11 (bytes_at (mem s) 0x10 4)\<rparr>))"
proof -
  have "bytes_at (memmove_mem (\<lambda>a. ucast a) 0x11 0x10 4) 0x10 5 = [0x10, 0x10, 0x11, 0x12, 0x13]"
    by code_simp
  then show ?thesis by (simp add: memmove_correct)
qed

end
