(* ===== verification/Spinlock.thy ===== *)
theory Spinlock
  imports KString
begin

text \<open>
  The spinlocks of \<^verbatim>\<open>src/lib/spinlock.c\<close>. The sequential model gives the effect of
  \<open>acquire_lock\<close> and \<open>free_lock\<close> on one processor: spinning on a flag that nobody
  clears never returns. The interleaving model runs the same test-and-set on any number of
  processors and shows that they exclude each other.
\<close>

section \<open>Locks on one processor\<close>

text \<open>Every \<open>atomic_flag\<close> object of the kernel.\<close>

datatype lock_id = pmm_lock | page_table_lock | printf_lock | lapic_timer_flag
  | irq_register_lock | ap_init_lock | pci_array_lock

record lmachine = machine +
  locks :: "lock_id \<Rightarrow> bool"

text \<open>\<open>atomic_flag_test_and_set\<close>: the old value, and the flag afterwards.\<close>

definition tas :: "bool \<Rightarrow> bool \<times> bool" where
  "tas flag = (flag, True)"

definition test_and_set :: "lock_id \<Rightarrow> ('a lmachine_scheme, bool) kern" where
  "test_and_set l = (\<lambda>s. case tas (locks s l) of
     (old, new) \<Rightarrow> Ret old (s\<lparr>locks := (locks s)(l := new)\<rparr>))"

definition acquire_lock :: "lock_id \<Rightarrow> ('a lmachine_scheme, unit) kern" where
  "acquire_lock l = kloop (\<lambda>_. kbind (test_and_set l)
     (\<lambda>old. kret (if old then Inl () else Inr ()))) ()"

definition free_lock :: "lock_id \<Rightarrow> ('a lmachine_scheme, unit) kern" where
  "free_lock l = kmod (\<lambda>s. s\<lparr>locks := (locks s)(l := False)\<rparr>)"

lemma acquire_lock_free [simp]:
  "\<not> locks s l \<Longrightarrow> acquire_lock l s = Ret () (s\<lparr>locks := (locks s)(l := True)\<rparr>)"
  by (simp add: acquire_lock_def kloop_unfold test_and_set_def tas_def kbind_def)

lemma acquire_lock_held [simp]:
  assumes "locks s l"
  shows "acquire_lock l s = Diverge"
  unfolding acquire_lock_def
  by (rule kloop_diverge [where P = "\<lambda>_ s. locks s l"])
    (use assms in \<open>auto simp: test_and_set_def tas_def kbind_def\<close>)

lemma free_lock_apply [simp]:
  "free_lock l s = Ret () (s\<lparr>locks := (locks s)(l := False)\<rparr>)"
  by (simp add: free_lock_def)

lemma locks_restore [simp]:
  "\<not> f l \<Longrightarrow> (f(l := True))(l := False) = f"
  "\<not> f l \<Longrightarrow> f(l := False) = f"
  by (auto simp: fun_eq_iff)

section \<open>Many processors\<close>

text \<open>
  A processor is outside, spinning in the loop of \<open>acquire_lock\<close>, or between
  \<open>acquire_lock\<close> and \<open>free_lock\<close>. Each rule is one atomic access to the flag.
\<close>

datatype lock_pc = Outside | Spinning | Critical

record lock_sys =
  flag :: bool
  pcs :: "nat \<Rightarrow> lock_pc"

definition lock_init :: lock_sys where
  "lock_init = \<lparr>flag = False, pcs = (\<lambda>_. Outside)\<rparr>"

inductive lock_step :: "lock_sys \<Rightarrow> lock_sys \<Rightarrow> bool" where
  enter: "pcs s i = Outside \<Longrightarrow> lock_step s (s\<lparr>pcs := (pcs s)(i := Spinning)\<rparr>)"
| spin: "pcs s i = Spinning \<Longrightarrow> tas (flag s) = (True, new) \<Longrightarrow> lock_step s (s\<lparr>flag := new\<rparr>)"
| acquire: "pcs s i = Spinning \<Longrightarrow> tas (flag s) = (False, new) \<Longrightarrow>
    lock_step s (s\<lparr>flag := new, pcs := (pcs s)(i := Critical)\<rparr>)"
| release: "pcs s i = Critical \<Longrightarrow>
    lock_step s (s\<lparr>flag := False, pcs := (pcs s)(i := Outside)\<rparr>)"

inductive lock_reach :: "lock_sys \<Rightarrow> bool" where
  start: "lock_reach lock_init"
| step: "lock_reach s \<Longrightarrow> lock_step s t \<Longrightarrow> lock_reach t"

definition lock_inv :: "lock_sys \<Rightarrow> bool" where
  "lock_inv s \<longleftrightarrow> (\<forall>i. pcs s i = Critical \<longrightarrow> flag s)
     \<and> (\<forall>i j. pcs s i = Critical \<longrightarrow> pcs s j = Critical \<longrightarrow> i = j)
     \<and> (flag s \<longrightarrow> (\<exists>i. pcs s i = Critical))"

lemma lock_step_inv: "lock_step s t \<Longrightarrow> lock_inv s \<Longrightarrow> lock_inv t"
proof (induction rule: lock_step.induct)
  case (enter s i)
  then show ?case unfolding lock_inv_def by (simp, metis lock_pc.distinct(3))
next
  case (spin s i new)
  then show ?case by (simp add: lock_inv_def tas_def)
next
  case (acquire s i new)
  then show ?case by (auto simp: lock_inv_def tas_def)
next
  case (release s i)
  then show ?case by (auto simp: lock_inv_def)
qed

lemma lock_init_inv: "lock_inv lock_init"
  by (simp add: lock_inv_def lock_init_def)

lemma lock_reach_inv: "lock_reach s \<Longrightarrow> lock_inv s"
  by (induction rule: lock_reach.induct) (blast intro: lock_init_inv lock_step_inv)+

text \<open>
  C8: in every state reachable by interleaving the test-and-set rounds and the releases
  of any number of processors, at most one processor is between \<open>acquire_lock\<close> and
  \<open>free_lock\<close>, and the flag is set exactly when one is.
\<close>

theorem spinlock_mutual_exclusion:
  assumes "lock_reach s"
  shows "(\<forall>i j. pcs s i = Critical \<and> pcs s j = Critical \<longrightarrow> i = j)
       \<and> (flag s \<longleftrightarrow> (\<exists>i. pcs s i = Critical))"
  using lock_reach_inv [OF assms] by (auto simp: lock_inv_def)

definition lock_example :: lock_sys where
  "lock_example = \<lparr>flag = True, pcs = (\<lambda>_. Outside)(0 := Critical, 1 := Spinning)\<rparr>"

lemma lock_example_reach: "lock_reach lock_example"
proof -
  let ?s1 = "lock_init\<lparr>pcs := (pcs lock_init)(0 := Spinning)\<rparr>"
  let ?s2 = "?s1\<lparr>pcs := (pcs ?s1)(1 := Spinning)\<rparr>"
  have "lock_reach ?s1"
    by (rule lock_reach.step [OF lock_reach.start lock_step.enter]) (simp add: lock_init_def)
  then have "lock_reach ?s2"
    by (rule lock_reach.step [OF _ lock_step.enter]) (simp add: lock_init_def)
  then have "lock_reach (?s2\<lparr>flag := True, pcs := (pcs ?s2)(0 := Critical)\<rparr>)"
    by (rule lock_reach.step [OF _ lock_step.acquire]) (simp_all add: lock_init_def tas_def)
  also have "?s2\<lparr>flag := True, pcs := (pcs ?s2)(0 := Critical)\<rparr> = lock_example"
    by (simp add: lock_init_def lock_example_def fun_eq_iff)
  finally show ?thesis .
qed

theorem spinlock_mutual_exclusion_witness:
  "lock_reach lock_example \<and> flag lock_example \<and> pcs lock_example 1 = Spinning
     \<and> {i. pcs lock_example i = Critical} = {0}"
proof -
  have c: "pcs lock_example 0 = Critical" "pcs lock_example 1 = Spinning" by (simp_all add: lock_example_def)
  have "{i. pcs lock_example i = Critical} = {0}" "flag lock_example"
    using spinlock_mutual_exclusion [OF lock_example_reach] c(1) by blast+
  then show ?thesis using c lock_example_reach by simp
qed

end
