(* ===== verification/Stdio.thy ===== *)
theory Stdio
  imports Spinlock
begin

text \<open>
  The console: the serial port of \<^verbatim>\<open>src/drivers/serial.c\<close>, the time stamp that log
  lines carry (\<^verbatim>\<open>src/hal/tsc.c\<close>), and the formatted output of
  \<^verbatim>\<open>src/lib/stdio.c\<close>. What reaches \<open>flanterm_write\<close> is collected in
  \<open>fb_out\<close>; what reaches the serial port is in the port trace.
\<close>

section \<open>State\<close>

record console = lmachine +
  serial_enabled :: bool
  core_crystal_clock :: u32

section \<open>The serial port\<close>

definition COM1 :: u16 where "COM1 = 0x3F8"
definition LINE_CTRL_REG :: u16 where "LINE_CTRL_REG = 0x3"
definition LINE_STAT_REG :: u16 where "LINE_STAT_REG = 0x5"
definition INT_ENABLE_REG :: u16 where "INT_ENABLE_REG = 0x1"
definition MDM_CTRL_REG :: u16 where "MDM_CTRL_REG = 0x4"

definition wait_line_status :: "u8 \<Rightarrow> ('a machine_scheme, unit) kern" where
  "wait_line_status bits = kloop (\<lambda>_. kbind (inb (COM1 + LINE_STAT_REG))
     (\<lambda>v. kret (if v AND bits = 0 then Inl () else Inr ()))) ()"

definition serial_read :: "('a machine_scheme, u8) kern" where
  "serial_read = kseq (wait_line_status 0x1) (inb COM1)"

definition serial_write :: "u8 \<Rightarrow> ('a machine_scheme, unit) kern" where
  "serial_write data = kseq (wait_line_status (push_bit 5 1)) (outb COM1 data)"

text \<open>A C string held in a HOL string ends at its first NUL character.\<close>

definition cstr :: "string \<Rightarrow> string" where
  "cstr str = takeWhile (\<lambda>c. c \<noteq> CHR 0x00) str"

definition serial_print :: "string \<Rightarrow> ('a machine_scheme, unit) kern" where
  "serial_print str = kfor (cstr str) (\<lambda>c. serial_write (of_char c))"

section \<open>Time stamps\<close>

definition read_tsc :: "('a machine_scheme, u64) kern" where
  "read_tsc = kbind (hw_read Rdtsc) (\<lambda>v.
     let eax = (ucast v :: u32); edx = (ucast (drop_bit 32 v) :: u32)
     in kret (push_bit 32 (ucast edx) OR ucast eax))"

definition tsc_get_timestamp :: "('a console_scheme, u64) kern" where
  "tsc_get_timestamp = kbind (kget core_crystal_clock) (\<lambda>clk.
     if clk = 0 then kret 0
     else kbind read_tsc (\<lambda>rd. kret (rd div ucast clk)))"

section \<open>Characters and numbers\<close>

definition kernel_framebuffer_print :: "string \<Rightarrow> ('a machine_scheme, unit) kern" where
  "kernel_framebuffer_print buffer = kmod (\<lambda>s. s\<lparr>fb_out := fb_out s @ buffer\<rparr>)"

definition serial_print_char :: "char \<Rightarrow> ('a machine_scheme, unit) kern" where
  "serial_print_char c = serial_write (of_char c)"

definition kernel_serial_print :: "string \<Rightarrow> ('a machine_scheme, unit) kern" where
  "kernel_serial_print buffer = kfor buffer serial_print_char"

definition print_char :: "char \<Rightarrow> ('a machine_scheme, unit) kern" where
  "print_char c = kernel_framebuffer_print [c]"

definition print_str :: "string \<Rightarrow> ('a machine_scheme, unit) kern" where
  "print_str str = kernel_framebuffer_print (cstr str)"

datatype radix = Dec | Hex | Bin

fun radix_val :: "radix \<Rightarrow> u64" where
  "radix_val Dec = 10"
| "radix_val Hex = 16"
| "radix_val Bin = 2"

definition MAX_INTERGER_SIZE :: nat where "MAX_INTERGER_SIZE = 128"

text \<open>
  The digit loop that the six number printers share: the digits from the least significant
  one, or \<open>None\<close> for the early return when the array is full.
\<close>

function digit_loop :: "radix \<Rightarrow> u64 \<Rightarrow> char list \<Rightarrow> char list option" where
  "digit_loop r num arr =
     (if num = 0 then Some arr
      else let arr' = arr @ [dtoc (uint (num mod radix_val r))]
           in if length arr' = MAX_INTERGER_SIZE then None
              else digit_loop r (num div radix_val r) arr')"
  by pat_completeness auto
termination
proof (relation "measure (\<lambda>(r, num, arr). unat num)")
  fix r :: radix and num :: u64 and arr x :: "char list"
  assume "num \<noteq> 0"
  moreover have "1 < unat (radix_val r)" by (cases r) simp_all
  ultimately have "unat num div unat (radix_val r) < unat num"
    by (intro div_less_dividend) (simp_all add: unat_gt_0)
  then show "((r, num div radix_val r, x), (r, num, arr)) \<in> measure (\<lambda>(r, num, arr). unat num)"
    by (simp add: unat_div)
qed simp

declare digit_loop.simps [simp del]

text \<open>
  The zero-filled character buffer of \<open>MAX_INTERGER_SIZE\<close> bytes, with the digits copied
  in reverse order.
\<close>

definition zero_buffer :: "bool \<Rightarrow> string" where
  "zero_buffer put0 =
     (if put0 then (replicate MAX_INTERGER_SIZE (CHR 0x00))[0 := CHR ''0'']
      else replicate MAX_INTERGER_SIZE (CHR 0x00))"

definition reverse_buffer :: "string \<Rightarrow> char list \<Rightarrow> string" where
  "reverse_buffer buffer arr =
     fold (\<lambda>i b. b[i := arr ! (length arr - i - 1)]) [0..<length arr] buffer"

definition print_int :: "u64 \<Rightarrow> ('a machine_scheme, unit) kern" where
  "print_int num = (case digit_loop Dec num [] of None \<Rightarrow> kret ()
     | Some arr \<Rightarrow> kernel_framebuffer_print (cstr (reverse_buffer (zero_buffer (num = 0)) arr)))"

definition print_hex :: "u64 \<Rightarrow> ('a machine_scheme, unit) kern" where
  "print_hex num = (case digit_loop Hex num [] of None \<Rightarrow> kret ()
     | Some arr \<Rightarrow> kernel_framebuffer_print (cstr (reverse_buffer (zero_buffer (num = 0)) arr)))"

definition print_bin :: "u64 \<Rightarrow> ('a machine_scheme, unit) kern" where
  "print_bin num = (case digit_loop Bin num [] of None \<Rightarrow> kret ()
     | Some arr \<Rightarrow> kernel_framebuffer_print (cstr (reverse_buffer (zero_buffer False) arr)))"

definition serial_print_int :: "u64 \<Rightarrow> ('a machine_scheme, unit) kern" where
  "serial_print_int num = (case digit_loop Dec num [] of None \<Rightarrow> kret ()
     | Some arr \<Rightarrow> kernel_serial_print (cstr (reverse_buffer (zero_buffer False) arr)))"

definition serial_print_hex :: "u64 \<Rightarrow> ('a machine_scheme, unit) kern" where
  "serial_print_hex num = (case digit_loop Hex num [] of None \<Rightarrow> kret ()
     | Some arr \<Rightarrow> kernel_serial_print (cstr (reverse_buffer (zero_buffer False) arr)))"

definition serial_print_bin :: "u64 \<Rightarrow> ('a machine_scheme, unit) kern" where
  "serial_print_bin num = (case digit_loop Bin num [] of None \<Rightarrow> kret ()
     | Some arr \<Rightarrow> kernel_serial_print (cstr (reverse_buffer (zero_buffer False) arr)))"

section \<open>Formatted output\<close>

text \<open>
  Variadic arguments: a string pointer or an integer (passed in 64 bits). Reading an
  argument of the other kind, or one that was not passed, is undefined.
\<close>

datatype karg = AStr string | ANum u64

datatype fmt_state = NORMAL | FORMAT_SPECIFIER

record 's sink =
  put_char :: "char \<Rightarrow> ('s, unit) kern"
  put_str :: "string \<Rightarrow> ('s, unit) kern"
  put_int :: "u64 \<Rightarrow> ('s, unit) kern"
  put_hex :: "u64 \<Rightarrow> ('s, unit) kern"
  put_bin :: "u64 \<Rightarrow> ('s, unit) kern"

fun va_str :: "karg list \<Rightarrow> (string \<Rightarrow> karg list \<Rightarrow> ('s, unit) kern) \<Rightarrow> ('s, unit) kern" where
  "va_str (AStr x # rest) k = k x rest"
| "va_str _ k = kfault"

fun va_num :: "karg list \<Rightarrow> (u64 \<Rightarrow> karg list \<Rightarrow> ('s, unit) kern) \<Rightarrow> ('s, unit) kern" where
  "va_num (ANum x # rest) k = k x rest"
| "va_num _ k = kfault"

text \<open>
  The loop over the format string. In the case \<open>'l'\<close> the code increments its copy of
  the character, which makes it \<open>'m'\<close>, and then compares it with \<open>'d'\<close>: the branch
  never consumes an argument.
\<close>

fun fmt_loop :: "'s sink \<Rightarrow> fmt_state \<Rightarrow> karg list \<Rightarrow> string \<Rightarrow> ('s, unit) kern" where
  "fmt_loop k st args [] = kret ()"
| "fmt_loop k NORMAL args (c # cs) =
     (if c = CHR ''{'' then fmt_loop k FORMAT_SPECIFIER args cs
      else kseq (put_char k c) (fmt_loop k NORMAL args cs))"
| "fmt_loop k FORMAT_SPECIFIER args (c # cs) =
     (if c = CHR ''n'' then kseq (put_str k [CHR 0x0A]) (fmt_loop k FORMAT_SPECIFIER args cs)
      else if c = CHR ''k'' then va_str args (\<lambda>x rest.
        kseq (put_str k x) (fmt_loop k FORMAT_SPECIFIER rest cs))
      else if c = CHR ''d'' \<or> c = CHR ''i'' then va_num args (\<lambda>x rest.
        kseq (put_int k x) (fmt_loop k FORMAT_SPECIFIER rest cs))
      else if c = CHR ''s'' then va_str args (\<lambda>x rest.
        kseq (put_str k x) (fmt_loop k FORMAT_SPECIFIER rest cs))
      else if c = CHR ''c'' then va_num args (\<lambda>x rest.
        kseq (put_char k (char_of (unat x mod 256))) (fmt_loop k FORMAT_SPECIFIER rest cs))
      else if c = CHR ''x'' then va_num args (\<lambda>x rest.
        kseq (put_hex k x) (fmt_loop k FORMAT_SPECIFIER rest cs))
      else if c = CHR ''b'' then va_num args (\<lambda>x rest.
        kseq (put_bin k x) (fmt_loop k FORMAT_SPECIFIER rest cs))
      else if c = CHR ''}'' then fmt_loop k NORMAL args cs
      else fmt_loop k FORMAT_SPECIFIER args cs)"

definition fb_sink :: "('a machine_scheme) sink" where
  "fb_sink = \<lparr>put_char = print_char, put_str = print_str, put_int = print_int,
     put_hex = print_hex, put_bin = print_bin\<rparr>"

definition serial_sink :: "('a machine_scheme) sink" where
  "serial_sink = \<lparr>put_char = serial_print_char, put_str = serial_print,
     put_int = serial_print_int, put_hex = serial_print_hex, put_bin = serial_print_bin\<rparr>"

definition kprintf :: "string \<Rightarrow> karg list \<Rightarrow> ('a lmachine_scheme, unit) kern" where
  "kprintf fmt args =
     kseq (acquire_lock printf_lock)
    (kseq (fmt_loop fb_sink NORMAL args (cstr fmt))
          (free_lock printf_lock))"

definition serial_kprintf :: "string \<Rightarrow> karg list \<Rightarrow> ('a machine_scheme, unit) kern" where
  "serial_kprintf fmt args = fmt_loop serial_sink NORMAL args (cstr fmt)"

definition esc :: "string \<Rightarrow> karg" where
  "esc code = AStr (CHR 0x1B # code)"

datatype log_level = LOG_INFO | LOG_WARN | LOG_ERROR | LOG_SUCCESS

fun klog_fmt :: "log_level \<Rightarrow> string \<times> string \<times> karg list" where
  "klog_fmt LOG_INFO = (''[{d}] info: {s}: {sn}'', ''{k}KLOG_INFO{k}: {s}: {sn}'',
     [esc ''[35m'', esc ''[0m''])"
| "klog_fmt LOG_WARN = (''[{d}] {k}warning{k}: {s}: {sn}'', ''{k}KLOG_WARN{k}: {s}: {sn}'',
     [esc ''[33m'', esc ''[0m''])"
| "klog_fmt LOG_ERROR = (''[{d}] {k}error{k}: {s}: {sn}'', ''{k}KLOG_ERROR{k}: {s}: {sn}'',
     [esc ''[31m'', esc ''[0m''])"
| "klog_fmt LOG_SUCCESS = (''[{d}] {k}success{k}: {s}: {sn}'', ''{k}KLOG_SUCCESS{k}: {s}: {sn}'',
     [esc ''[32m'', esc ''[0m''])"

definition klog :: "log_level \<Rightarrow> string \<Rightarrow> string \<Rightarrow> ('a console_scheme, unit) kern" where
  "klog level func msg = (case klog_fmt level of (fmt, sfmt, colours) \<Rightarrow>
     kbind tsc_get_timestamp (\<lambda>t.
     kseq (kprintf fmt ([ANum t] @ (if level = LOG_INFO then [] else colours)
             @ [AStr func, AStr msg]))
    (kbind (kget serial_enabled) (\<lambda>en.
     kif en (serial_kprintf sfmt (colours @ [AStr func, AStr msg]))))))"

section \<open>Serial initialisation: src/drivers/serial.c\<close>

definition serial_init :: "('a console_scheme, unit) kern" where
  "serial_init =
     kseq (outb (COM1 + INT_ENABLE_REG) 0)
    (kseq (outb (COM1 + LINE_CTRL_REG) (push_bit 7 1))
    (kseq (outb (COM1 + 1) 0)
    (kseq (outb COM1 12)
    (kseq (outb (COM1 + LINE_CTRL_REG) (push_bit 7 0))
    (kseq (outb (COM1 + LINE_CTRL_REG) 0b00000011)
    (kseq (outb (COM1 + MDM_CTRL_REG) 0b00001101)
    (kseq (outb (COM1 + MDM_CTRL_REG) 0b00011110)
    (kseq (outb COM1 0xAE)
    (kbind (inb COM1) (\<lambda>v.
     if v \<noteq> 0xAE
     then klog LOG_WARN ''serial_init''
            ''Serial controller failed test, serial output will not work''
     else kseq (outb (COM1 + MDM_CTRL_REG) 0b00001111)
               (kmod (\<lambda>s. s\<lparr>serial_enabled := True\<rparr>))))))))))))"

definition toupper :: "char \<Rightarrow> char" where
  "toupper c = (case c of
     CHR ''a'' \<Rightarrow> CHR ''A'' | CHR ''b'' \<Rightarrow> CHR ''B'' | CHR ''c'' \<Rightarrow> CHR ''C''
   | CHR ''d'' \<Rightarrow> CHR ''D'' | CHR ''e'' \<Rightarrow> CHR ''E'' | CHR ''f'' \<Rightarrow> CHR ''F''
   | CHR ''g'' \<Rightarrow> CHR ''G'' | CHR ''h'' \<Rightarrow> CHR ''H'' | CHR ''i'' \<Rightarrow> CHR ''I''
   | CHR ''j'' \<Rightarrow> CHR ''J'' | CHR ''k'' \<Rightarrow> CHR ''K'' | CHR ''l'' \<Rightarrow> CHR ''L''
   | CHR ''m'' \<Rightarrow> CHR ''M'' | CHR ''n'' \<Rightarrow> CHR ''N'' | CHR ''o'' \<Rightarrow> CHR ''O''
   | CHR ''p'' \<Rightarrow> CHR ''P'' | CHR ''t'' \<Rightarrow> CHR ''T'' | CHR ''r'' \<Rightarrow> CHR ''R''
   | CHR ''s'' \<Rightarrow> CHR ''S'' | CHR ''u'' \<Rightarrow> CHR ''U'' | CHR ''v'' \<Rightarrow> CHR ''V''
   | CHR ''w'' \<Rightarrow> CHR ''W'' | CHR ''x'' \<Rightarrow> CHR ''X'' | CHR ''y'' \<Rightarrow> CHR ''Y''
   | CHR ''z'' \<Rightarrow> CHR ''Z'' | _ \<Rightarrow> c)"

section \<open>Numbers: the printed text is the number\<close>

text \<open>The reference: the digits of a number, most significant first.\<close>

lemma radix_bounds: "2 \<le> unat (radix_val r)" "unat (radix_val r) \<le> 16"
  by (cases r; simp)+

function numeral_str :: "radix \<Rightarrow> nat \<Rightarrow> string" where
  "numeral_str r n =
     (if n = 0 then []
      else numeral_str r (n div unat (radix_val r)) @ [dtoc (int (n mod unat (radix_val r)))])"
  by pat_completeness auto
termination
proof (relation "measure snd")
  fix r n assume "n \<noteq> (0::nat)"
  then show "((r, n div unat (radix_val r)), (r, n)) \<in> measure snd"
    using radix_bounds(1) [of r] by (simp add: div_less_dividend)
qed simp

declare numeral_str.simps [simp del]

definition number_str :: "radix \<Rightarrow> nat \<Rightarrow> string" where
  "number_str r n = (if n = 0 then ''0'' else numeral_str r n)"

definition digit_val :: "char \<Rightarrow> nat" where
  "digit_val c = (if of_char c < (58::nat) then of_char c - 48 else of_char c - 55)"

definition str_val :: "radix \<Rightarrow> string \<Rightarrow> nat" where
  "str_val r str = foldl (\<lambda>v c. v * unat (radix_val r) + digit_val c) 0 str"

lemma dtoc_table:
  "\<forall>d \<in> set [0..<16]. digit_val (dtoc (int d)) = d \<and> dtoc (int d) \<noteq> CHR 0x00"
  by code_simp

lemma dtoc_digit:
  assumes "d < 16"
  shows "digit_val (dtoc (int d)) = d" "dtoc (int d) \<noteq> CHR 0x00"
  using dtoc_table assms by simp_all

lemma mod_radix_lt: "n mod unat (radix_val r) < 16"
  using radix_bounds [of r] by (meson less_le_trans mod_less_divisor zero_less_numeral)

lemma str_val_numeral: "str_val r (numeral_str r n) = n"
proof (induction r n rule: numeral_str.induct)
  case (1 r n)
  then show ?case
    by (subst numeral_str.simps)
      (simp add: str_val_def dtoc_digit [OF mod_radix_lt])
qed

lemma numeral_str_no_nul: "CHR 0x00 \<notin> set (numeral_str r n)"
proof (induction r n rule: numeral_str.induct)
  case (1 r n)
  then show ?case
    by (subst numeral_str.simps) (auto simp: dtoc_digit [OF mod_radix_lt] dest: sym)
qed

lemma numeral_str_length: "n < unat (radix_val r) ^ k \<Longrightarrow> length (numeral_str r n) \<le> k"
proof (induction k arbitrary: n)
  case 0
  then show ?case by (simp add: numeral_str.simps)
next
  case (Suc k)
  have "n div unat (radix_val r) < unat (radix_val r) ^ k"
    using Suc.prems by (simp add: less_mult_imp_div_less mult.commute)
  then have "length (numeral_str r (n div unat (radix_val r))) \<le> k" by (rule Suc.IH)
  then show ?case by (subst numeral_str.simps) simp
qed

lemma numeral_str_u64: "length (numeral_str r (unat (num :: u64))) \<le> 64"
proof (rule numeral_str_length)
  have "unat num < 2 ^ 64" using unsigned_less [of num] by simp
  also have "\<dots> \<le> unat (radix_val r) ^ 64" using radix_bounds(1) by (rule power_mono) simp
  finally show "unat num < unat (radix_val r) ^ 64" .
qed

lemma numeral_str_lead: "0 < n \<Longrightarrow> numeral_str r n \<noteq> [] \<and> hd (numeral_str r n) \<noteq> CHR ''0''"
proof (induction r n rule: numeral_str.induct)
  case (1 r n)
  let ?b = "unat (radix_val r)"
  show ?case
  proof (cases "n div ?b = 0")
    case True
    then have "n < ?b" using radix_bounds(1) [of r] by (auto simp: div_eq_0_iff)
    with 1(2) have "digit_val (dtoc (int (n mod ?b))) \<noteq> 0"
      by (simp only: dtoc_digit [OF mod_radix_lt]) simp
    then have "dtoc (int (n mod ?b)) \<noteq> CHR ''0''" by (auto simp: digit_val_def)
    moreover have "numeral_str r n = [dtoc (int (n mod ?b))]"
      using 1(2) True by (subst numeral_str.simps) (simp add: numeral_str.simps [of r 0])
    ultimately show ?thesis by simp
  next
    case False
    with 1 show ?thesis by (subst numeral_str.simps, subst (2) numeral_str.simps) auto
  qed
qed

lemma digit_loop_eq:
  "length arr + length (numeral_str r (unat num)) < MAX_INTERGER_SIZE
   \<Longrightarrow> digit_loop r num arr = Some (arr @ rev (numeral_str r (unat num)))"
proof (induction r num arr rule: digit_loop.induct)
  case (1 r num arr)
  let ?b = "unat (radix_val r)"
  let ?arr = "arr @ [dtoc (uint (num mod radix_val r))]"
  show ?case
  proof (cases "num = 0")
    case True
    then show ?thesis by (simp add: digit_loop.simps numeral_str.simps)
  next
    case False
    have d: "uint (num mod radix_val r) = int (unat num mod ?b)"
      by (metis of_nat_unat unat_mod)
    have ns: "numeral_str r (unat num) = numeral_str r (unat num div ?b) @ [dtoc (int (unat num mod ?b))]"
      using False by (subst numeral_str.simps) (simp add: unat_eq_zero)
    have "digit_loop r (num div radix_val r) ?arr
        = Some (?arr @ rev (numeral_str r (unat (num div radix_val r))))"
      using False 1(2) ns by (intro 1(1)) (auto simp: unat_div)
    then show ?thesis
      using False 1(2) ns d by (subst digit_loop.simps) (auto simp: unat_div)
  qed
qed

lemma digit_loop_u64: "digit_loop r num [] = Some (rev (numeral_str r (unat num)))"
  using numeral_str_u64 [of r num] digit_loop_eq [of "[]" r num] by (simp add: MAX_INTERGER_SIZE_def)

lemma reverse_buffer_prefix:
  assumes "length arr \<le> length buffer" "k \<le> length arr"
  shows "fold (\<lambda>i b. b[i := arr ! (length arr - i - 1)]) [0..<k] buffer = take k (rev arr) @ drop k buffer"
  using assms
proof (induction k)
  case 0
  then show ?case by simp
next
  case (Suc k)
  then have "take (Suc k) (rev arr) = take k (rev arr) @ [arr ! (length arr - k - 1)]"
    by (simp add: take_Suc_conv_app_nth rev_nth)
  moreover have "drop k buffer = buffer ! k # drop (Suc k) buffer"
    using Suc.prems by (simp add: Cons_nth_drop_Suc)
  ultimately show ?case
    using Suc by (simp add: list_update_append min_def)
qed

lemma reverse_buffer_eq:
  "length arr \<le> length buffer \<Longrightarrow> reverse_buffer buffer arr = rev arr @ drop (length arr) buffer"
  unfolding reverse_buffer_def using reverse_buffer_prefix [of arr buffer "length arr"] by simp

lemma cstr_append_nul: "CHR 0x00 \<notin> set xs \<Longrightarrow> cstr (xs @ replicate n (CHR 0x00)) = xs"
  unfolding cstr_def by (subst takeWhile_append2) (auto simp: takeWhile_replicate)

lemma number_buffer:
  fixes num :: u64
  shows "cstr (reverse_buffer (zero_buffer False) (rev (numeral_str r (unat num)))) = numeral_str r (unat num)"
    and "cstr (reverse_buffer (zero_buffer (num = 0)) (rev (numeral_str r (unat num)))) = number_str r (unat num)"
proof -
  have len: "length (numeral_str r (unat num)) \<le> 128" using numeral_str_u64 [of r num] by simp
  show *: "cstr (reverse_buffer (zero_buffer False) (rev (numeral_str r (unat num)))) = numeral_str r (unat num)"
    using len by (simp add: reverse_buffer_eq zero_buffer_def MAX_INTERGER_SIZE_def cstr_append_nul
        numeral_str_no_nul)
  show "cstr (reverse_buffer (zero_buffer (num = 0)) (rev (numeral_str r (unat num)))) = number_str r (unat num)"
  proof (cases "num = 0")
    case True
    have "replicate 128 (CHR 0x00) = CHR 0x00 # replicate 127 (CHR 0x00)"
      using replicate_Suc [of 127 "CHR 0x00"] by simp
    then show ?thesis
      using True by (simp add: number_str_def numeral_str.simps reverse_buffer_def zero_buffer_def
          MAX_INTERGER_SIZE_def cstr_def takeWhile_replicate)
  next
    case False
    then show ?thesis using * by (simp add: number_str_def unat_eq_zero)
  qed
qed

lemma print_number:
  "print_int num s = Ret () (s\<lparr>fb_out := fb_out s @ number_str Dec (unat num)\<rparr>)"
  "print_hex num s = Ret () (s\<lparr>fb_out := fb_out s @ number_str Hex (unat num)\<rparr>)"
  "print_bin num s = Ret () (s\<lparr>fb_out := fb_out s @ numeral_str Bin (unat num)\<rparr>)"
  by (simp_all add: print_int_def print_hex_def print_bin_def digit_loop_u64 number_buffer
      kernel_framebuffer_print_def)

text \<open>
  \<open>print_int\<close> and \<open>print_hex\<close> write a non-empty digit string without a
  leading zero (except for the number 0) whose value in the radix is the argument: no 64-bit
  number is cut off by the digit array, and the text can be read back.
\<close>

theorem print_number_roundtrip:
  "\<exists>ds hs. print_int num s = Ret () (s\<lparr>fb_out := fb_out s @ ds\<rparr>)
     \<and> print_hex num s = Ret () (s\<lparr>fb_out := fb_out s @ hs\<rparr>)
     \<and> ds \<noteq> [] \<and> hs \<noteq> []
     \<and> str_val Dec ds = unat num \<and> str_val Hex hs = unat num
     \<and> (hd ds = CHR ''0'' \<longleftrightarrow> num = 0) \<and> (hd hs = CHR ''0'' \<longleftrightarrow> num = 0)"
proof -
  have val: "str_val r (number_str r n) = n" for r n
    by (auto simp: number_str_def str_val_numeral) (simp add: str_val_def digit_val_def)
  have lead: "number_str r n \<noteq> [] \<and> (hd (number_str r n) = CHR ''0'' \<longleftrightarrow> n = 0)" for r n
    using numeral_str_lead [of n r] by (simp add: number_str_def)
  have "unat num = 0 \<longleftrightarrow> num = 0" by (simp add: unat_eq_zero)
  then show ?thesis
    using val lead print_number(1,2) [of num s] by metis
qed

section \<open>Formatted output: the reference\<close>

fun render :: "fmt_state \<Rightarrow> karg list \<Rightarrow> string \<Rightarrow> string option" where
  "render st args [] = Some []"
| "render NORMAL args (c # cs) =
     (if c = CHR ''{'' then render FORMAT_SPECIFIER args cs
      else map_option (Cons c) (render NORMAL args cs))"
| "render FORMAT_SPECIFIER args (c # cs) =
     (if c = CHR ''n'' then map_option (Cons (CHR 0x0A)) (render FORMAT_SPECIFIER args cs)
      else if c = CHR ''k'' \<or> c = CHR ''s'' then (case args of
        AStr x # rest \<Rightarrow> map_option ((@) (cstr x)) (render FORMAT_SPECIFIER rest cs) | _ \<Rightarrow> None)
      else if c = CHR ''d'' \<or> c = CHR ''i'' then (case args of
        ANum x # rest \<Rightarrow> map_option ((@) (number_str Dec (unat x))) (render FORMAT_SPECIFIER rest cs)
        | _ \<Rightarrow> None)
      else if c = CHR ''c'' then (case args of
        ANum x # rest \<Rightarrow> map_option ((@) [char_of (unat x mod 256)]) (render FORMAT_SPECIFIER rest cs)
        | _ \<Rightarrow> None)
      else if c = CHR ''x'' then (case args of
        ANum x # rest \<Rightarrow> map_option ((@) (number_str Hex (unat x))) (render FORMAT_SPECIFIER rest cs)
        | _ \<Rightarrow> None)
      else if c = CHR ''b'' then (case args of
        ANum x # rest \<Rightarrow> map_option ((@) (numeral_str Bin (unat x))) (render FORMAT_SPECIFIER rest cs)
        | _ \<Rightarrow> None)
      else if c = CHR ''}'' then render NORMAL args cs
      else render FORMAT_SPECIFIER args cs)"

lemma karg_list_cases [case_names Nil AStr ANum]:
  "(args = [] \<Longrightarrow> P) \<Longrightarrow> (\<And>x rest. args = AStr x # rest \<Longrightarrow> P)
   \<Longrightarrow> (\<And>x rest. args = ANum x # rest \<Longrightarrow> P) \<Longrightarrow> P"
  by (metis karg.exhaust list.exhaust)

lemma fb_sink_fields [simp]:
  "put_char fb_sink = print_char" "put_str fb_sink = print_str" "put_int fb_sink = print_int"
  "put_hex fb_sink = print_hex" "put_bin fb_sink = print_bin"
  by (simp_all add: fb_sink_def)

lemma print_char_apply [simp]: "print_char c s = Ret () (s\<lparr>fb_out := fb_out s @ [c]\<rparr>)"
  by (simp add: print_char_def kernel_framebuffer_print_def)

lemma print_str_apply [simp]: "print_str x s = Ret () (s\<lparr>fb_out := fb_out s @ cstr x\<rparr>)"
  by (simp add: print_str_def kernel_framebuffer_print_def)

lemma spec_char_cases [case_names newline str num chr hex bin close other]:
  "(c = CHR ''n'' \<Longrightarrow> P) \<Longrightarrow> (c = CHR ''k'' \<or> c = CHR ''s'' \<Longrightarrow> P) \<Longrightarrow> (c = CHR ''d'' \<or> c = CHR ''i'' \<Longrightarrow> P)
   \<Longrightarrow> (c = CHR ''c'' \<Longrightarrow> P) \<Longrightarrow> (c = CHR ''x'' \<Longrightarrow> P) \<Longrightarrow> (c = CHR ''b'' \<Longrightarrow> P) \<Longrightarrow> (c = CHR ''}'' \<Longrightarrow> P)
   \<Longrightarrow> (c \<notin> set ''nksdicxb}'' \<Longrightarrow> P) \<Longrightarrow> P"
  by (metis insert_iff list.set(2) empty_iff list.set(1))

lemma fmt_loop_spec:
  "fmt_loop k FORMAT_SPECIFIER args (CHR ''n'' # cs)
     = kseq (put_str k [CHR 0x0A]) (fmt_loop k FORMAT_SPECIFIER args cs)"
  "c = CHR ''k'' \<or> c = CHR ''s'' \<Longrightarrow> fmt_loop k FORMAT_SPECIFIER args (c # cs)
     = va_str args (\<lambda>x rest. kseq (put_str k x) (fmt_loop k FORMAT_SPECIFIER rest cs))"
  "c = CHR ''d'' \<or> c = CHR ''i'' \<Longrightarrow> fmt_loop k FORMAT_SPECIFIER args (c # cs)
     = va_num args (\<lambda>x rest. kseq (put_int k x) (fmt_loop k FORMAT_SPECIFIER rest cs))"
  "fmt_loop k FORMAT_SPECIFIER args (CHR ''c'' # cs) = va_num args (\<lambda>x rest.
     kseq (put_char k (char_of (unat x mod 256))) (fmt_loop k FORMAT_SPECIFIER rest cs))"
  "fmt_loop k FORMAT_SPECIFIER args (CHR ''x'' # cs)
     = va_num args (\<lambda>x rest. kseq (put_hex k x) (fmt_loop k FORMAT_SPECIFIER rest cs))"
  "fmt_loop k FORMAT_SPECIFIER args (CHR ''b'' # cs)
     = va_num args (\<lambda>x rest. kseq (put_bin k x) (fmt_loop k FORMAT_SPECIFIER rest cs))"
  "fmt_loop k FORMAT_SPECIFIER args (CHR ''}'' # cs) = fmt_loop k NORMAL args cs"
  "c \<notin> set ''nksdicxb}'' \<Longrightarrow>
     fmt_loop k FORMAT_SPECIFIER args (c # cs) = fmt_loop k FORMAT_SPECIFIER args cs"
  by auto

lemma render_spec:
  "render FORMAT_SPECIFIER args (CHR ''n'' # cs)
     = map_option (Cons (CHR 0x0A)) (render FORMAT_SPECIFIER args cs)"
  "c = CHR ''k'' \<or> c = CHR ''s'' \<Longrightarrow> render FORMAT_SPECIFIER args (c # cs) = (case args of
     AStr x # rest \<Rightarrow> map_option ((@) (cstr x)) (render FORMAT_SPECIFIER rest cs) | _ \<Rightarrow> None)"
  "c = CHR ''d'' \<or> c = CHR ''i'' \<Longrightarrow> render FORMAT_SPECIFIER args (c # cs) = (case args of
     ANum x # rest \<Rightarrow> map_option ((@) (number_str Dec (unat x))) (render FORMAT_SPECIFIER rest cs)
     | _ \<Rightarrow> None)"
  "render FORMAT_SPECIFIER args (CHR ''c'' # cs) = (case args of
     ANum x # rest \<Rightarrow> map_option ((@) [char_of (unat x mod 256)]) (render FORMAT_SPECIFIER rest cs)
     | _ \<Rightarrow> None)"
  "render FORMAT_SPECIFIER args (CHR ''x'' # cs) = (case args of
     ANum x # rest \<Rightarrow> map_option ((@) (number_str Hex (unat x))) (render FORMAT_SPECIFIER rest cs)
     | _ \<Rightarrow> None)"
  "render FORMAT_SPECIFIER args (CHR ''b'' # cs) = (case args of
     ANum x # rest \<Rightarrow> map_option ((@) (numeral_str Bin (unat x))) (render FORMAT_SPECIFIER rest cs)
     | _ \<Rightarrow> None)"
  "render FORMAT_SPECIFIER args (CHR ''}'' # cs) = render NORMAL args cs"
  "c \<notin> set ''nksdicxb}'' \<Longrightarrow>
     render FORMAT_SPECIFIER args (c # cs) = render FORMAT_SPECIFIER args cs"
  by auto

declare fmt_loop.simps(3) [simp del] render.simps(3) [simp del]

lemma fmt_loop_fb:
  "fmt_loop fb_sink st args cs s = (case render st args cs of
     Some out \<Rightarrow> Ret () (s\<lparr>fb_out := fb_out s @ out\<rparr>) | None \<Rightarrow> Fault)"
proof (induction cs arbitrary: st args s)
  case Nil
  then show ?case by simp
next
  case (Cons c cs)
  have nl: "cstr [CHR 0x0A] = [CHR 0x0A]" by (simp add: cstr_def)
  note sink = kseq_cases print_number
  show ?case
  proof (cases st)
    case NORMAL
    then show ?thesis by (auto simp: Cons.IH sink split: option.splits)
  next
    case FORMAT_SPECIFIER
    show ?thesis
    proof (cases c rule: spec_char_cases)
      case newline
      then show ?thesis using FORMAT_SPECIFIER nl
        by (simp add: fmt_loop_spec render_spec Cons.IH sink split: option.splits)
    next
      case other
      then show ?thesis using FORMAT_SPECIFIER
        by (simp only: fmt_loop_spec(8) [OF other] render_spec(8) [OF other] Cons.IH)
    qed (use FORMAT_SPECIFIER in \<open>cases args rule: karg_list_cases;
          simp add: fmt_loop_spec render_spec Cons.IH sink split: option.splits\<close>)+
  qed
qed

lemma kprintf_render:
  "kprintf fmt args s =
     (if locks s printf_lock then Diverge
      else case render NORMAL args (cstr fmt) of
        None \<Rightarrow> Fault
      | Some out \<Rightarrow> Ret () (s\<lparr>fb_out := fb_out s @ out\<rparr>))"
  by (cases "locks s printf_lock")
    (auto simp: kprintf_def kseq_cases fmt_loop_fb split: option.splits)

text \<open>
  C5: with the print lock free, \<open>kprintf\<close> writes exactly the reference rendering of
  its format and arguments, gives the lock back and changes nothing else; it is undefined
  exactly when the arguments do not fit the format, and it never returns when the lock is
  already held (as when an interrupt handler prints over an interrupted print).
\<close>

theorem kprintf_refines_render:
  "kprintf fmt args s =
     (if locks s printf_lock then Diverge
      else case render NORMAL args (cstr fmt) of
        None \<Rightarrow> Fault
      | Some out \<Rightarrow> Ret () (s\<lparr>fb_out := fb_out s @ out\<rparr>))"
  by (rule kprintf_render)

section \<open>The console as the other components see it\<close>

definition uart_ready :: "'a machine_scheme \<Rightarrow> bool" where
  "uart_ready s \<longleftrightarrow> (\<forall>tr. (ucast (devices s tr (In8 (COM1 + LINE_STAT_REG))) :: u8) AND push_bit 5 1 \<noteq> 0)"

definition console_ok :: "'a console_scheme \<Rightarrow> bool" where
  "console_ok s \<longleftrightarrow> \<not> locks s printf_lock \<and> (serial_enabled s \<longrightarrow> uart_ready s)"

text \<open>\<open>traced f s\<close>: \<open>f\<close> returns from \<open>s\<close>, and only the port trace has grown.\<close>

definition traced :: "('a machine_scheme, unit) kern \<Rightarrow> 'a machine_scheme \<Rightarrow> bool" where
  "traced f s \<longleftrightarrow> (\<exists>tr. f s = Ret () (s\<lparr>io_trace := tr\<rparr>))"

lemma uart_ready_upd [simp]:
  "uart_ready (s\<lparr>io_trace := tr\<rparr>) = uart_ready s" "uart_ready (s\<lparr>fb_out := x\<rparr>) = uart_ready s"
  "uart_ready (s\<lparr>mem := m\<rparr>) = uart_ready s"
  by (simp_all add: uart_ready_def)

lemma traced_kret [simp]: "traced (kret ()) s" "traced (Ret ()) s"
  unfolding traced_def by (rule exI [of _ "io_trace s"]; simp)+

lemma traced_kseq:
  "traced f s \<Longrightarrow> (\<And>tr. traced g (s\<lparr>io_trace := tr\<rparr>)) \<Longrightarrow> traced (kseq f g) s"
  by (fastforce simp: traced_def kseq_cases)

lemma traced_serial_write: "uart_ready s \<Longrightarrow> traced (serial_write d) s"
  by (simp add: traced_def serial_write_def wait_line_status_def kloop_unfold inb_def hw_read_def
      kbind_def kseq_def Let_def uart_ready_def outb_def) (rule exI, rule refl)

lemma traced_kfor:
  "(\<And>x tr. traced (f x) (s\<lparr>io_trace := tr\<rparr>)) \<Longrightarrow> traced (kfor xs f) s"
proof (induction xs arbitrary: s)
  case Nil
  then show ?case by simp
next
  case (Cons x xs)
  have "traced (f x) s" using Cons.prems [of x "io_trace s"] by simp
  then show ?case by (simp, intro traced_kseq Cons.IH) (use Cons.prems in simp_all)
qed

lemma traced_serial_sink:
  assumes "uart_ready s"
  shows "traced (put_char serial_sink c) s" "traced (put_str serial_sink x) s"
    "traced (put_int serial_sink n) s" "traced (put_hex serial_sink n) s"
    "traced (put_bin serial_sink n) s"
proof -
  have w: "traced (serial_write d) (s\<lparr>io_trace := tr\<rparr>)" for d tr
    using assms by (intro traced_serial_write) simp
  then have p: "traced (kernel_serial_print y) s" "traced (serial_print y) s" for y
    by (simp_all add: kernel_serial_print_def serial_print_def serial_print_char_def traced_kfor)
  show "traced (put_char serial_sink c) s" "traced (put_str serial_sink x) s"
    "traced (put_int serial_sink n) s" "traced (put_hex serial_sink n) s"
    "traced (put_bin serial_sink n) s"
    using p traced_serial_write [OF assms]
    by (simp_all add: serial_sink_def serial_print_char_def serial_print_int_def
        serial_print_hex_def serial_print_bin_def digit_loop_u64)
qed

lemma traced_serial_fmt:
  "uart_ready s \<Longrightarrow> render st args cs \<noteq> None \<Longrightarrow> traced (fmt_loop serial_sink st args cs) s"
proof (induction cs arbitrary: st args s)
  case Nil
  then show ?case by simp
next
  case (Cons c cs)
  show ?case
  proof (cases st)
    case NORMAL
    with Cons.prems show ?thesis
      by (auto intro!: traced_kseq traced_serial_sink Cons.IH split: if_splits)
  next
    case FORMAT_SPECIFIER
    show ?thesis
    proof (cases c rule: spec_char_cases)
      case other
      then have "traced (fmt_loop serial_sink FORMAT_SPECIFIER args cs) s"
        using FORMAT_SPECIFIER Cons.prems by (intro Cons.IH) (simp_all only: render_spec(8) [OF other] not_False_eq_True)
      then show ?thesis using FORMAT_SPECIFIER fmt_loop_spec(8) [OF other] by metis
    qed (use FORMAT_SPECIFIER Cons.prems in \<open>cases args rule: karg_list_cases;
          auto simp: fmt_loop_spec render_spec intro!: traced_kseq traced_serial_sink Cons.IH\<close>)+
  qed
qed

lemma klog_fmt_renders:
  assumes "klog_fmt level = (fmt, sfmt, colours)"
  shows "render NORMAL ([ANum t] @ (if level = LOG_INFO then [] else colours)
             @ [AStr func, AStr msg]) (cstr fmt) \<noteq> None" (is ?A)
    and "render NORMAL (colours @ [AStr func, AStr msg]) (cstr sfmt) \<noteq> None" (is ?B)
proof -
  show ?A using assms
    by (cases level; clarsimp simp: cstr_def esc_def render_spec)
  show ?B using assms
    by (cases level; clarsimp simp: cstr_def esc_def render_spec)
qed

lemma klog_console:
  assumes "console_ok s"
  shows "\<exists>out tr. klog level func msg s = Ret () (s\<lparr>fb_out := out, io_trace := tr\<rparr>)"
proof -
  obtain t tr0 where ts: "tsc_get_timestamp s = Ret t (s\<lparr>io_trace := tr0\<rparr>)"
    by (cases "core_crystal_clock s = 0")
      (auto simp: tsc_get_timestamp_def read_tsc_def hw_read_def kbind_def Let_def
        intro: that [of 0 "io_trace s"])
  obtain fmt sfmt colours where f: "klog_fmt level = (fmt, sfmt, colours)"
    by (metis prod_cases3)
  let ?args = "[ANum t] @ (if level = LOG_INFO then [] else colours) @ [AStr func, AStr msg]"
  obtain out where out: "render NORMAL ?args (cstr fmt) = Some out"
    using klog_fmt_renders(1) [OF f] by blast
  note sfmt = klog_fmt_renders(2) [OF f]
  let ?s = "s\<lparr>io_trace := tr0, fb_out := fb_out s @ out\<rparr>"
  have pr: "kprintf fmt ?args (s\<lparr>io_trace := tr0\<rparr>) = Ret () ?s"
    using assms out by (simp add: kprintf_render console_ok_def)
  obtain tr where "kif (serial_enabled s) (serial_kprintf sfmt (colours @ [AStr func, AStr msg])) ?s
      = Ret () (?s\<lparr>io_trace := tr\<rparr>)"
  proof (cases "serial_enabled s")
    case True
    then have "traced (serial_kprintf sfmt (colours @ [AStr func, AStr msg])) ?s"
      unfolding serial_kprintf_def using assms sfmt
      by (intro traced_serial_fmt) (simp_all add: console_ok_def)
    then show ?thesis using that True by (auto simp: traced_def)
  qed (use that [of tr0] in simp)
  then have "klog level func msg s = Ret () (s\<lparr>fb_out := fb_out s @ out, io_trace := tr\<rparr>)"
    using ts pr by (simp add: klog_def f kbind_def kseq_cases)
  then show ?thesis by blast
qed

text \<open>\<open>prints f s\<close>: \<open>f\<close> returns, and only the terminal and the port trace change.\<close>

definition prints :: "('a console_scheme, unit) kern \<Rightarrow> 'a console_scheme \<Rightarrow> bool" where
  "prints f s \<longleftrightarrow> (\<exists>out tr. f s = Ret () (s\<lparr>fb_out := out, io_trace := tr\<rparr>))"

lemma console_ok_upd [simp]:
  "console_ok (s\<lparr>io_trace := tr\<rparr>) = console_ok s" "console_ok (s\<lparr>fb_out := x\<rparr>) = console_ok s"
  "console_ok (s\<lparr>mem := m\<rparr>) = console_ok s"
  by (simp_all add: console_ok_def)

lemma prints_kret [simp]: "prints (kret ()) s" "prints (Ret ()) s"
  unfolding prints_def by (rule exI [of _ "fb_out s"], rule exI [of _ "io_trace s"], simp)+

lemma prints_klog: "console_ok s \<Longrightarrow> prints (klog level func msg) s"
  unfolding prints_def by (rule klog_console)

lemma prints_kprintf:
  assumes "console_ok s" "render NORMAL args (cstr fmt) \<noteq> None"
  shows "prints (kprintf fmt args) s"
proof -
  obtain out where "render NORMAL args (cstr fmt) = Some out" using assms(2) by blast
  then have "kprintf fmt args s = Ret () (s\<lparr>fb_out := fb_out s @ out, io_trace := io_trace s\<rparr>)"
    using assms(1) by (simp add: kprintf_render console_ok_def)
  then show ?thesis unfolding prints_def by blast
qed

lemma prints_kseq:
  "prints f s \<Longrightarrow> (\<And>out tr. prints g (s\<lparr>fb_out := out, io_trace := tr\<rparr>)) \<Longrightarrow> prints (kseq f g) s"
  by (fastforce simp: prints_def kseq_cases)

text \<open>A format string without specifiers is printed as it is; arguments are ignored.\<close>

lemma render_plain: "CHR ''{'' \<notin> set str \<Longrightarrow> render NORMAL args str = Some str"
  by (induction str) auto

lemma kprintf_plain:
  "\<not> locks s printf_lock \<Longrightarrow> CHR ''{'' \<notin> set fmt \<Longrightarrow> CHR 0x00 \<notin> set fmt \<Longrightarrow>
     kprintf fmt args s = Ret () (s\<lparr>fb_out := fb_out s @ fmt\<rparr>)"
proof -
  assume a: "\<not> locks s printf_lock" "CHR ''{'' \<notin> set fmt" "CHR 0x00 \<notin> set fmt"
  have "cstr fmt = fmt" using a(3) by (auto simp: cstr_def takeWhile_eq_all_conv)
  then show ?thesis using a by (simp add: kprintf_render render_plain)
qed

end
