(* ===== verification/Pmm.thy ===== *)
theory Pmm
  imports Stdio
begin

text \<open>
  The physical memory manager of \<^verbatim>\<open>src/mm/pmm.c\<close>: a free list threaded through
  the first eight bytes of every free page, reached through the higher-half direct map.
  Its contract is a stack of pages, stated as the locale \<open>page_allocator\<close> and
  discharged for the code by an interpretation.
\<close>

section \<open>State and operations\<close>

definition BLOCK_SIZE :: u64 where "BLOCK_SIZE = 4096"

text \<open>An entry of the memory map the boot loader hands over (\<^verbatim>\<open>struct limine_memmap_entry\<close>).\<close>

record memmap_entry =
  me_base :: u64
  me_length :: u64
  me_type :: u64

definition LIMINE_MEMMAP_USABLE :: u64 where "LIMINE_MEMMAP_USABLE = 0"
definition LIMINE_MEMMAP_ACPI_RECLAIMABLE :: u64 where "LIMINE_MEMMAP_ACPI_RECLAIMABLE = 2"
definition LIMINE_MEMMAP_BOOTLOADER_RECLAIMABLE :: u64 where "LIMINE_MEMMAP_BOOTLOADER_RECLAIMABLE = 5"
definition LIMINE_MEMMAP_FRAMEBUFFER :: u64 where "LIMINE_MEMMAP_FRAMEBUFFER = 7"

record pmm = console +
  memmap_request_response :: "memmap_entry list option"
  memmap_response :: "memmap_entry list"
  free_list :: u64
  pmm_free_page_count :: u64
  pmm_page_count :: u64
  mem_size :: u64

definition nl :: string where "nl = [CHR 0x0A]"

definition pmm_free :: "u64 \<Rightarrow> ('a pmm_scheme, unit) kern" where
  "pmm_free addr =
     kseq (acquire_lock pmm_lock)
    (kbind (kget hhdmoffset) (\<lambda>h. let virt_addr = addr + h in
     kbind (kget free_list) (\<lambda>fl.
     kseq (mstore64 virt_addr fl)
    (kseq (kmod (\<lambda>s. s\<lparr>free_list := virt_addr\<rparr>))
    (kseq (kmod (\<lambda>s. s\<lparr>pmm_free_page_count := pmm_free_page_count s + 1\<rparr>))
          (free_lock pmm_lock))))))"

text \<open>The early return on an empty list leaves the lock taken, as in the source.\<close>

definition pmm_alloc :: "('a pmm_scheme, u64) kern" where
  "pmm_alloc =
     kseq (acquire_lock pmm_lock)
    (kbind (kget pmm_free_page_count) (\<lambda>cnt.
     if cnt \<le> 0 then kret 0
     else kbind (kget hhdmoffset) (\<lambda>h.
          kbind (kget free_list) (\<lambda>fl.
          let addr = fl - h in
          kseq (deref fl)
         (kseq (kmod (\<lambda>s. s\<lparr>free_list := load64 (mem s) fl\<rparr>))
         (kseq (kmod (\<lambda>s. s\<lparr>pmm_free_page_count := pmm_free_page_count s - 1\<rparr>))
         (kseq (free_lock pmm_lock)
               (kret addr))))))))"

fun pmm_count_usable :: "memmap_entry list \<Rightarrow> ('a pmm_scheme, unit) kern" where
  "pmm_count_usable [] = kret ()"
| "pmm_count_usable (e # es) =
     kseq (kif (me_type e = LIMINE_MEMMAP_USABLE)
             (kmod (\<lambda>s. s\<lparr>mem_size := mem_size s + me_length e\<rparr>)))
          (pmm_count_usable es)"

fun pmm_init_entries :: "bool \<Rightarrow> memmap_entry list \<Rightarrow> ('a pmm_scheme, unit) kern" where
  "pmm_init_entries first_entry [] = kret ()"
| "pmm_init_entries first_entry (e # es) =
     (if me_type e = LIMINE_MEMMAP_USABLE then
        kseq (kif first_entry (kmod (\<lambda>s. s\<lparr>free_list := me_base e + hhdmoffset s\<rparr>)))
       (kseq (kfor [(if first_entry then 1 else 0)..<unat (me_length e div BLOCK_SIZE)]
               (\<lambda>j. kseq (pmm_free (me_base e + of_nat j * BLOCK_SIZE))
                        (kmod (\<lambda>s. s\<lparr>pmm_page_count := pmm_page_count s + 1\<rparr>))))
             (pmm_init_entries False es))
      else pmm_init_entries first_entry es)"

definition pmm_init :: "('a pmm_scheme, unit) kern" where
  "pmm_init = kbind (kget memmap_request_response) (\<lambda>resp. case resp of
     None \<Rightarrow> kseq (klog LOG_ERROR ''pmm_init'' ''Memmap response is null'') kkill
   | Some entries \<Rightarrow>
       kseq (kmod (\<lambda>s. s\<lparr>memmap_response := entries\<rparr>))
      (kseq (pmm_count_usable entries)
      (kbind (kget mem_size) (\<lambda>sz.
       kseq (kprintf (''pmm: got a total of {d}MB of memory'' @ nl) [ANum (sz div 1048576)])
            (pmm_init_entries True entries)))))"

section \<open>The page allocator interface\<close>

text \<open>
  What a client of the allocator may rely on: \<open>inv s ps\<close> says that in state \<open>s\<close> the
  free pages are the stack \<open>ps\<close>, and \<open>ok s p\<close> that \<open>p\<close> is a page the allocator
  can take over.
\<close>

locale page_allocator =
  fixes alloc :: "('s, u64) kern"
    and release :: "u64 \<Rightarrow> ('s, unit) kern"
    and inv :: "'s \<Rightarrow> u64 list \<Rightarrow> bool"
    and ok :: "'s \<Rightarrow> u64 \<Rightarrow> bool"
  assumes alloc_pops: "inv s (p # ps) \<Longrightarrow> \<exists>s'. alloc s = Ret p s' \<and> inv s' ps \<and> ok s' = ok s"
    and release_pushes: "inv s ps \<Longrightarrow> ok s p \<Longrightarrow> p \<notin> set ps \<Longrightarrow>
          \<exists>s'. release p s = Ret () s' \<and> inv s' (p # ps) \<and> ok s' = ok s"
    and inv_pages: "inv s ps \<Longrightarrow> distinct ps \<and> (\<forall>p \<in> set ps. ok s p)"
begin

text \<open>Allocating \<open>n\<close> pages one after the other.\<close>

fun alloc_n :: "nat \<Rightarrow> ('s, u64 list) kern" where
  "alloc_n 0 = kret []"
| "alloc_n (Suc n) = kbind alloc (\<lambda>p. kbind (alloc_n n) (\<lambda>ps. kret (p # ps)))"

lemma alloc_n_pops:
  "inv s (ps @ qs) \<Longrightarrow> \<exists>s'. alloc_n (length ps) s = Ret ps s' \<and> inv s' qs \<and> ok s' = ok s"
proof (induction ps arbitrary: s)
  case Nil
  then show ?case by simp
next
  case (Cons p ps)
  then obtain s1 where s1: "alloc s = Ret p s1" "inv s1 (ps @ qs)" "ok s1 = ok s"
    using alloc_pops [of s p "ps @ qs"] by auto
  with Cons.IH [of s1] show ?case by (auto simp: kbind_cases)
qed

lemma alloc_n_distinct:
  assumes "inv s (ps @ qs)"
  shows "\<exists>s'. alloc_n (length ps) s = Ret ps s' \<and> inv s' qs
     \<and> distinct ps \<and> set ps \<inter> set qs = {}"
  using alloc_n_pops [OF assms] inv_pages [OF assms] by auto

lemma release_alloc:
  assumes "inv s ps" "ok s p" "p \<notin> set ps"
  shows "\<exists>s'. kseq (release p) alloc s = Ret p s' \<and> inv s' ps"
proof -
  obtain s1 where s1: "release p s = Ret () s1" "inv s1 (p # ps)"
    using release_pushes [OF assms] by blast
  then obtain s2 where "alloc s1 = Ret p s2" "inv s2 ps" using alloc_pops by blast
  with s1 show ?thesis by (auto simp: kseq_cases)
qed

end

section \<open>The free list in memory\<close>

fun free_chain :: "mem \<Rightarrow> u64 \<Rightarrow> u64 \<Rightarrow> u64 list \<Rightarrow> bool" where
  "free_chain m h p [] = True"
| "free_chain m h p (x # xs) = (p = x + h \<and> free_chain m h (load64 m p) xs)"

definition page_ok :: "'a machine_scheme \<Rightarrow> u64 \<Rightarrow> bool" where
  "page_ok s p \<longleftrightarrow> aligned 12 (p + hhdmoffset s) \<and> p + hhdmoffset s \<noteq> 0"

definition pmm_inv :: "'a pmm_scheme \<Rightarrow> u64 list \<Rightarrow> bool" where
  "pmm_inv s ps \<longleftrightarrow> free_chain (mem s) (hhdmoffset s) (free_list s) ps
     \<and> length ps = unat (pmm_free_page_count s) \<and> distinct ps
     \<and> (\<forall>p \<in> set ps. page_ok s p) \<and> \<not> locks s pmm_lock"

lemma free_chain_store:
  assumes "\<forall>p \<in> set ps. disj_mem a 8 (p + h) 8"
  shows "free_chain (store64 m a v) h q ps = free_chain m h q ps"
  using assms by (induction ps arbitrary: q) (auto simp: load64_store64_other)

lemma page_disj8:
  "aligned 12 p \<Longrightarrow> aligned 12 q \<Longrightarrow> p \<noteq> q \<Longrightarrow> disj_mem p 8 q 8"
  using aligned_disj [of 12 p q 0 8 0 8] by simp

lemma pmm_inv_cong:
  "pmm_inv s ps \<Longrightarrow> mem t = mem s \<Longrightarrow> hhdmoffset t = hhdmoffset s \<Longrightarrow> free_list t = free_list s
   \<Longrightarrow> pmm_free_page_count t = pmm_free_page_count s \<Longrightarrow> locks t pmm_lock = locks s pmm_lock
   \<Longrightarrow> pmm_inv t ps"
  by (simp add: pmm_inv_def page_ok_def)

text \<open>The states after a successful allocation and after a release of page \<open>p\<close>.\<close>

abbreviation pmm_popped :: "'a pmm_scheme \<Rightarrow> u64 \<Rightarrow> 'a pmm_scheme" where
  "pmm_popped s p \<equiv> s\<lparr>free_list := load64 (mem s) (p + hhdmoffset s),
     pmm_free_page_count := pmm_free_page_count s - 1\<rparr>"

abbreviation pmm_pushed :: "'a pmm_scheme \<Rightarrow> u64 \<Rightarrow> 'a pmm_scheme" where
  "pmm_pushed s p \<equiv> s\<lparr>mem := store64 (mem s) (p + hhdmoffset s) (free_list s),
     free_list := p + hhdmoffset s, pmm_free_page_count := pmm_free_page_count s + 1\<rparr>"

lemma pmm_alloc_Cons:
  assumes "pmm_inv s (p # ps)"
  shows "pmm_alloc s = Ret p (pmm_popped s p)" and "pmm_inv (pmm_popped s p) ps"
proof -
  have cnt: "unat (pmm_free_page_count s) = Suc (length ps)" and fl: "free_list s = p + hhdmoffset s"
    and nz: "p + hhdmoffset s \<noteq> 0" and lk: "\<not> locks s pmm_lock"
    using assms by (simp_all add: pmm_inv_def page_ok_def)
  then have "pmm_free_page_count s \<noteq> 0" by auto
  then show "pmm_alloc s = Ret p (pmm_popped s p)"
    using fl nz lk by (simp add: pmm_alloc_def kseq_cases kbind_cases Let_def)
  have "unat (pmm_free_page_count s - 1) = length ps"
    using cnt \<open>pmm_free_page_count s \<noteq> 0\<close> by (simp add: unat_minus_one)
  then show "pmm_inv (pmm_popped s p) ps"
    using assms by (auto simp: pmm_inv_def page_ok_def)
qed

lemma pmm_alloc_Nil:
  "pmm_inv s [] \<Longrightarrow> pmm_alloc s = Ret 0 (s\<lparr>locks := (locks s)(pmm_lock := True)\<rparr>)"
  by (simp add: pmm_inv_def pmm_alloc_def kseq_cases kbind_cases unat_eq_zero)

lemma pmm_free_page:
  assumes "pmm_inv s ps" "page_ok s p" "p \<notin> set ps"
  shows "pmm_free p s = Ret () (pmm_pushed s p)"
    and "unat (pmm_free_page_count s) + 1 < 2 ^ 64 \<Longrightarrow> pmm_inv (pmm_pushed s p) (p # ps)"
proof -
  show "pmm_free p s = Ret () (pmm_pushed s p)"
    using assms(1) by (simp add: pmm_inv_def pmm_free_def kseq_cases kbind_cases Let_def)
  assume "unat (pmm_free_page_count s) + 1 < 2 ^ 64"
  then have "unat (pmm_free_page_count s + 1) = Suc (unat (pmm_free_page_count s))"
    by (simp add: unat_word_ariths)
  moreover have "\<forall>q \<in> set ps. disj_mem (p + hhdmoffset s) 8 (q + hhdmoffset s) 8"
    using assms by (auto simp: pmm_inv_def page_ok_def intro!: page_disj8)
  ultimately show "pmm_inv (pmm_pushed s p) (p # ps)"
    using assms by (simp add: pmm_inv_def page_ok_def free_chain_store)
qed

text \<open>
  A stack of aligned, distinct pages never fills the 64-bit counter: there are fewer pages
  than addresses.
\<close>

lemma pmm_inv_count:
  assumes "pmm_inv s ps" "page_ok s p" "p \<notin> set ps"
  shows "unat (pmm_free_page_count s) + 1 < 2 ^ 64"
proof -
  let ?v = "\<lambda>p. unat (p + hhdmoffset s) div 4096"
  let ?A = "set (p # ps)"
  have al: "4096 dvd unat (q + hhdmoffset s)" if "q \<in> ?A" for q
  proof -
    have "aligned 12 (q + hhdmoffset s)" using assms that by (auto simp: pmm_inv_def page_ok_def)
    then show ?thesis by (simp add: aligned_dvd)
  qed
  have "inj_on ?v ?A"
  proof (rule inj_onI)
    fix x y assume xy: "x \<in> ?A" "y \<in> ?A" "?v x = ?v y"
    then have "unat (x + hhdmoffset s) = unat (y + hhdmoffset s)"
      using al by (metis dvd_mult_div_cancel)
    then have "x + hhdmoffset s = y + hhdmoffset s" by (simp only: word_unat_eq_iff)
    then show "x = y" by simp
  qed
  moreover have "?v ` ?A \<subseteq> {..<2 ^ 52}"
  proof
    fix k assume "k \<in> ?v ` ?A"
    then obtain q where "k = ?v q" by blast
    moreover have "unat (q + hhdmoffset s) < 2 ^ 52 * 4096"
      using unsigned_less [of "q + hhdmoffset s"] by simp
    ultimately show "k \<in> {..<2 ^ 52}" by (simp add: less_mult_imp_div_less)
  qed
  ultimately have "card ?A \<le> card {..<(2::nat) ^ 52}"
    by (meson card_inj_on_le finite_lessThan)
  moreover have "card ?A = Suc (length ps)"
    using assms by (simp add: pmm_inv_def distinct_card)
  ultimately show ?thesis using assms(1) by (simp add: pmm_inv_def)
qed

interpretation pmm: page_allocator pmm_alloc pmm_free pmm_inv page_ok
proof unfold_locales
  fix s :: "'a pmm_scheme" and p ps
  assume "pmm_inv s (p # ps)"
  from pmm_alloc_Cons [OF this]
  show "\<exists>s'. pmm_alloc s = Ret p s' \<and> pmm_inv s' ps \<and> page_ok s' = page_ok s"
    by (auto simp: page_ok_def fun_eq_iff)
next
  fix s :: "'a pmm_scheme" and p ps
  assume a: "pmm_inv s ps" "page_ok s p" "p \<notin> set ps"
  from pmm_free_page [OF a] pmm_inv_count [OF a]
  show "\<exists>s'. pmm_free p s = Ret () s' \<and> pmm_inv s' (p # ps) \<and> page_ok s' = page_ok s"
    by (auto simp: page_ok_def fun_eq_iff)
next
  fix s :: "'a pmm_scheme" and ps
  assume "pmm_inv s ps"
  then show "distinct ps \<and> (\<forall>p\<in>set ps. page_ok s p)" by (simp add: pmm_inv_def)
qed

text \<open>
  C2: the free list refines a stack of pages. In a state whose free pages are the stack
  \<open>ps\<close>, \<open>pmm_alloc\<close> returns the top page and leaves the rest; \<open>pmm_free\<close> of a
  page that is not free pushes it; both keep the invariant that ties the list in memory,
  the counter and the lock together, and the pages stay distinct.
\<close>

theorem pmm_refines_stack:
  assumes "pmm_inv s ps"
  shows "(\<forall>p qs. ps = p # qs \<longrightarrow> (\<exists>s'. pmm_alloc s = Ret p s' \<and> pmm_inv s' qs \<and> p \<notin> set qs))
       \<and> (\<forall>p. page_ok s p \<longrightarrow> p \<notin> set ps \<longrightarrow>
            (\<exists>s' s''. pmm_free p s = Ret () s' \<and> pmm_inv s' (p # ps)
                \<and> pmm_alloc s' = Ret p s'' \<and> pmm_inv s'' ps))"
proof (intro conjI allI impI)
  fix p qs assume "ps = p # qs"
  then show "\<exists>s'. pmm_alloc s = Ret p s' \<and> pmm_inv s' qs \<and> p \<notin> set qs"
    using pmm.alloc_pops [of s p qs] pmm.inv_pages [OF assms] assms by auto
next
  fix p assume "page_ok s p" "p \<notin> set ps"
  then obtain s' where "pmm_free p s = Ret () s'" "pmm_inv s' (p # ps)"
    using pmm.release_pushes [OF assms] by blast
  then show "\<exists>s' s''. pmm_free p s = Ret () s' \<and> pmm_inv s' (p # ps)
                \<and> pmm_alloc s' = Ret p s'' \<and> pmm_inv s'' ps"
    using pmm.alloc_pops [of s' p ps] by blast
qed

text \<open>
  When the free list is empty, \<open>pmm_alloc\<close> returns \<open>NULL\<close> but keeps the
  allocator lock, so that the next call of \<open>pmm_alloc\<close> or \<open>pmm_free\<close> spins
  forever: running out of memory once blocks the allocator for good.
\<close>

theorem pmm_exhausted_deadlock:
  assumes "pmm_inv s []"
  shows "\<exists>s'. pmm_alloc s = Ret 0 s' \<and> pmm_alloc s' = Diverge \<and> (\<forall>p. pmm_free p s' = Diverge)"
  using pmm_alloc_Nil [OF assms] by (simp add: pmm_alloc_def pmm_free_def kseq_cases)

section \<open>Initialisation\<close>

definition entry_pages :: "memmap_entry \<Rightarrow> u64 list" where
  "entry_pages e = map (\<lambda>j. me_base e + of_nat j * BLOCK_SIZE) [0..<unat (me_length e div BLOCK_SIZE)]"

definition usable :: "memmap_entry \<Rightarrow> bool" where
  "usable e \<longleftrightarrow> me_type e = LIMINE_MEMMAP_USABLE"

text \<open>
  The pages \<open>pmm_init\<close> puts on the list: every page of every usable entry but the first
  page of the first usable entry, which ends the list and is never handed out.
\<close>

fun boot_pages :: "bool \<Rightarrow> memmap_entry list \<Rightarrow> u64 list" where
  "boot_pages first [] = []"
| "boot_pages first (e # es) =
     (if usable e then (if first then tl (entry_pages e) else entry_pages e) @ boot_pages False es
      else boot_pages first es)"

definition usable_size :: "memmap_entry list \<Rightarrow> u64" where
  "usable_size es = sum_list (map me_length (filter usable es))"

lemma pmm_count_usable_eq:
  "pmm_count_usable es s = Ret () (s\<lparr>mem_size := mem_size s + usable_size es\<rparr>)"
  by (induction es arbitrary: s)
    (simp_all add: kseq_cases kif_def usable_def usable_size_def add.assoc)

text \<open>\<open>pmm_grown s t ps\<close>: \<open>t\<close> is \<open>s\<close> after the pages \<open>ps\<close> were freed in that order.\<close>

definition pmm_grown :: "'a pmm_scheme \<Rightarrow> 'a pmm_scheme \<Rightarrow> nat \<Rightarrow> bool" where
  "pmm_grown s t n \<longleftrightarrow> (\<exists>m fl c. t = s\<lparr>mem := m, free_list := fl, pmm_free_page_count := c,
     pmm_page_count := pmm_page_count s + of_nat n\<rparr>)"

lemma pmm_grown_refl [simp]: "pmm_grown s s 0" "pmm_grown s (s\<lparr>free_list := p\<rparr>) 0"
  unfolding pmm_grown_def
  by (rule exI [of _ "mem s"], rule exI [of _ "free_list s"], rule exI [of _ "pmm_free_page_count s"], simp)
    (rule exI [of _ "mem s"], rule exI [of _ p], rule exI [of _ "pmm_free_page_count s"], simp)

lemma pmm_grown_trans: "pmm_grown s t a \<Longrightarrow> pmm_grown t u b \<Longrightarrow> pmm_grown s u (a + b)"
  unfolding pmm_grown_def by (elim exE, simp) (intro exI, simp add: add.assoc)

lemma pmm_free_loop:
  assumes "pmm_inv s ps" "\<forall>j \<in> set js. page_ok s (f j)" "distinct (map f js)"
    "set (map f js) \<inter> set ps = {}"
  shows "\<exists>t. kfor js (\<lambda>j. kseq (pmm_free (f j))
            (kmod (\<lambda>s. s\<lparr>pmm_page_count := pmm_page_count s + 1\<rparr>))) s = Ret () t
     \<and> pmm_inv t (rev (map f js) @ ps) \<and> pmm_grown s t (length js)"
  using assms
proof (induction js arbitrary: s ps)
  case Nil
  then show ?case by auto
next
  case (Cons j js)
  let ?s1 = "(pmm_pushed s (f j))\<lparr>pmm_page_count := pmm_page_count s + 1\<rparr>"
  have fr: "pmm_inv s ps" "page_ok s (f j)" "f j \<notin> set ps" using Cons.prems by auto
  have inv1: "pmm_inv ?s1 (f j # ps)"
    by (rule pmm_inv_cong [OF pmm_free_page(2) [OF fr pmm_inv_count [OF fr]]]) simp_all
  have "\<exists>t. kfor js (\<lambda>j. kseq (pmm_free (f j))
        (kmod (\<lambda>s. s\<lparr>pmm_page_count := pmm_page_count s + 1\<rparr>))) ?s1 = Ret () t
     \<and> pmm_inv t (rev (map f js) @ f j # ps) \<and> pmm_grown ?s1 t (length js)"
    using Cons.prems by (intro Cons.IH [OF inv1]) (auto simp: page_ok_def)
  then obtain t where t: "kfor js (\<lambda>j. kseq (pmm_free (f j))
        (kmod (\<lambda>s. s\<lparr>pmm_page_count := pmm_page_count s + 1\<rparr>))) ?s1 = Ret () t"
    "pmm_inv t (rev (map f js) @ f j # ps)" "pmm_grown ?s1 t (length js)" by blast
  have "pmm_grown s ?s1 1" by (auto simp: pmm_grown_def)
  then have "pmm_grown s t (length (j # js))"
    using pmm_grown_trans t(3) by fastforce
  moreover have "kfor (j # js) (\<lambda>j. kseq (pmm_free (f j))
      (kmod (\<lambda>s. s\<lparr>pmm_page_count := pmm_page_count s + 1\<rparr>))) s = Ret () t"
    unfolding t(1) [symmetric] by (simp add: kseq_cases pmm_free_page(1) [OF fr])
  moreover have "pmm_inv t (rev (map f (j # js)) @ ps)" using t(2) by simp
  ultimately show ?case by blast
qed

lemma boot_range:
  "(if first then tl (entry_pages e) else entry_pages e)
   = map (\<lambda>j. me_base e + of_nat j * BLOCK_SIZE)
       [(if first then 1 else 0)..<unat (me_length e div BLOCK_SIZE)]"
  by (simp add: entry_pages_def map_tl [symmetric] tl_upt)

lemma pmm_init_entries_inv:
  assumes "pmm_inv s ps" "first \<longrightarrow> ps = []" "\<forall>p \<in> set (boot_pages first es). page_ok s p"
    "distinct (boot_pages first es)" "set (boot_pages first es) \<inter> set ps = {}"
  shows "\<exists>t. pmm_init_entries first es s = Ret () t \<and> pmm_inv t (rev (boot_pages first es) @ ps)
     \<and> pmm_grown s t (length (boot_pages first es))"
  using assms
proof (induction es arbitrary: s ps first)
  case Nil
  then show ?case by auto
next
  case (Cons e es)
  show ?case
  proof (cases "usable e")
    case False
    then show ?thesis using Cons.IH [of s ps first] Cons.prems by (simp add: usable_def)
  next
    case True
    let ?f = "\<lambda>j. me_base e + of_nat j * BLOCK_SIZE"
    let ?js = "[(if first then 1 else 0)..<unat (me_length e div BLOCK_SIZE)]"
    let ?s1 = "if first then s\<lparr>free_list := me_base e + hhdmoffset s\<rparr> else s"
    have bp: "boot_pages first (e # es) = map ?f ?js @ boot_pages False es"
      using True boot_range [of first e] by simp
    define L where "L = map ?f ?js"
    have L: "\<forall>p \<in> set L. page_ok s p" "\<forall>p \<in> set (boot_pages False es). page_ok s p" "distinct L"
      "distinct (boot_pages False es)" "set L \<inter> set (boot_pages False es) = {}"
      "set L \<inter> set ps = {}" "set (boot_pages False es) \<inter> set ps = {}"
      using Cons.prems(3,4,5) unfolding bp L_def [symmetric] by auto
    have inv1: "pmm_inv ?s1 ps" using Cons.prems(1,2) by (auto simp: pmm_inv_def page_ok_def)
    have "\<exists>t. kfor ?js (\<lambda>j. kseq (pmm_free (?f j))
          (kmod (\<lambda>s. s\<lparr>pmm_page_count := pmm_page_count s + 1\<rparr>))) ?s1 = Ret () t
       \<and> pmm_inv t (rev (map ?f ?js) @ ps) \<and> pmm_grown ?s1 t (length ?js)"
      using L by (intro pmm_free_loop [OF inv1]) (simp_all add: L_def page_ok_def)
    then obtain t where t: "kfor ?js (\<lambda>j. kseq (pmm_free (?f j))
          (kmod (\<lambda>s. s\<lparr>pmm_page_count := pmm_page_count s + 1\<rparr>))) ?s1 = Ret () t"
      "pmm_inv t (rev (map ?f ?js) @ ps)" "pmm_grown ?s1 t (length ?js)" by blast
    have pk: "page_ok t = page_ok s"
      using t(3) by (cases first) (auto simp: pmm_grown_def page_ok_def fun_eq_iff)
    have "\<exists>u. pmm_init_entries False es t = Ret () u
       \<and> pmm_inv u (rev (boot_pages False es) @ rev (map ?f ?js) @ ps)
       \<and> pmm_grown t u (length (boot_pages False es))"
      unfolding L_def [symmetric] using L
      by (intro Cons.IH [OF t(2) [folded L_def]]) (auto simp: pk)
    then obtain u where u: "pmm_init_entries False es t = Ret () u"
       "pmm_inv u (rev (boot_pages False es) @ rev (map ?f ?js) @ ps)"
       "pmm_grown t u (length (boot_pages False es))" by blast
    have "pmm_grown s ?s1 0" by auto
    then have "pmm_grown s u (length (boot_pages first (e # es)))"
      unfolding bp using pmm_grown_trans [OF _ pmm_grown_trans [OF t(3) u(3)]] by fastforce
    moreover have "pmm_init_entries first (e # es) s = Ret () u"
      using True t(1) u(1) by (cases first) (simp_all add: usable_def kseq_cases)
    ultimately show ?thesis using u(2) unfolding bp by auto
  qed
qed

text \<open>
  C6: from the boot state and a memory map whose usable pages are aligned and do not
  overlap, \<open>pmm_init\<close> returns with all usable pages but the very first one on the free
  list, in reverse order of the map, and with the counters and the total size matching.
\<close>

theorem pmm_init_free_list:
  assumes "memmap_request_response s = Some es"
    and "pmm_free_page_count s = 0" "pmm_page_count s = 0" "mem_size s = 0"
    and "\<not> locks s pmm_lock" "\<not> locks s printf_lock"
    and "\<forall>p \<in> set (boot_pages True es). page_ok s p" "distinct (boot_pages True es)"
  shows "\<exists>t. pmm_init s = Ret () t \<and> pmm_inv t (rev (boot_pages True es))
     \<and> pmm_page_count t = of_nat (length (boot_pages True es))
     \<and> mem_size t = usable_size es \<and> memmap_response t = es \<and> hhdmoffset t = hhdmoffset s"
proof -
  let ?fmt = "''pmm: got a total of {d}MB of memory'' @ nl"
  let ?s1 = "s\<lparr>memmap_response := es, mem_size := usable_size es\<rparr>"
  let ?args = "[ANum (usable_size es div 1048576)]"
  obtain out where "render NORMAL ?args (cstr ?fmt) = Some out"
    by (simp add: cstr_def nl_def render_spec)
  then have pr: "kprintf ?fmt ?args ?s1 = Ret () (?s1\<lparr>fb_out := fb_out s @ out\<rparr>)" (is "_ = Ret () ?s2")
    using assms(6) by (simp add: kprintf_render)
  have "pmm_inv ?s2 []" using assms(2,5) by (simp add: pmm_inv_def)
  from pmm_init_entries_inv [OF this, of True es]
  obtain t where t: "pmm_init_entries True es ?s2 = Ret () t" "pmm_inv t (rev (boot_pages True es))"
    "pmm_grown ?s2 t (length (boot_pages True es))"
    using assms(7,8) by (auto simp: page_ok_def)
  have "pmm_init s = Ret () t"
    using assms(1,4) pr t(1) by (simp add: pmm_init_def kseq_cases kbind_cases pmm_count_usable_eq)
  with t(2,3) assms(3) show ?thesis by (auto simp: pmm_grown_def)
qed

section \<open>A concrete boot state\<close>

definition boot_state :: "memmap_entry list \<Rightarrow> pmm" where
  "boot_state es = \<lparr>mem = (\<lambda>_. 0), hhdmoffset = 0xffff800000000000, devices = (\<lambda>_ _. 0),
     io_trace = [], msrs = (\<lambda>_. 0), cr3 = 0, cr4 = 0, fb_out = [], kernel_killed = False,
     locks = (\<lambda>_. False), serial_enabled = False, core_crystal_clock = 0,
     memmap_request_response = Some es, memmap_response = [], free_list = 0,
     pmm_free_page_count = 0, pmm_page_count = 0, mem_size = 0\<rparr>"

definition boot_map :: "memmap_entry list" where
  "boot_map = [\<lparr>me_base = 0x1000, me_length = 0x3000, me_type = 1\<rparr>,
     \<lparr>me_base = 0x100000, me_length = 0x4000, me_type = 0\<rparr>,
     \<lparr>me_base = 0x200000, me_length = 0x1800, me_type = 0\<rparr>]"

lemma boot_map_pages: "boot_pages True boot_map = [0x101000, 0x102000, 0x103000, 0x200000]"
  by code_simp

lemma boot_map_ok: "\<forall>p \<in> set (boot_pages True boot_map). page_ok (boot_state boot_map) p"
  by (simp add: boot_map_pages page_ok_def boot_state_def aligned_def)

theorem pmm_init_free_list_witness:
  "\<exists>t. pmm_init (boot_state boot_map) = Ret () t
     \<and> pmm_inv t [0x200000, 0x103000, 0x102000, 0x101000] \<and> pmm_page_count t = 4"
proof -
  have "\<exists>t. pmm_init (boot_state boot_map) = Ret () t \<and> pmm_inv t (rev (boot_pages True boot_map))
     \<and> pmm_page_count t = of_nat (length (boot_pages True boot_map))
     \<and> mem_size t = usable_size boot_map \<and> memmap_response t = boot_map
     \<and> hhdmoffset t = hhdmoffset (boot_state boot_map)"
    by (rule pmm_init_free_list) (use boot_map_ok in \<open>simp_all add: boot_state_def boot_map_pages\<close>)
  then show ?thesis by (auto simp: boot_map_pages)
qed

text \<open>A state with one free page, and one whose last page has been handed out.\<close>

definition one_page_state :: pmm where
  "one_page_state = (boot_state [])\<lparr>free_list := 0xffff800000300000, pmm_free_page_count := 1\<rparr>"

lemma one_page_inv: "pmm_inv one_page_state [0x300000]" "pmm_inv (boot_state []) []"
  by (simp_all add: pmm_inv_def page_ok_def one_page_state_def boot_state_def aligned_def)

theorem pmm_refines_stack_witness:
  "pmm_inv one_page_state [0x300000] \<and> (\<exists>s'. pmm_alloc one_page_state = Ret 0x300000 s' \<and> pmm_inv s' [])
   \<and> (\<exists>s' s''. pmm_free 0x400000 one_page_state = Ret () s' \<and> pmm_inv s' [0x400000, 0x300000]
        \<and> pmm_alloc s' = Ret 0x400000 s'' \<and> pmm_inv s'' [0x300000])"
proof -
  have "page_ok one_page_state 0x400000"
    by (simp add: page_ok_def one_page_state_def boot_state_def aligned_def)
  then show ?thesis
    using one_page_inv(1) pmm_refines_stack [OF one_page_inv(1)] by auto
qed

theorem pmm_exhausted_deadlock_witness:
  "\<exists>s'. pmm_alloc (boot_state []) = Ret 0 s' \<and> pmm_alloc s' = Diverge \<and> pmm_free 0x1000 s' = Diverge"
  using pmm_exhausted_deadlock [OF one_page_inv(2)] by blast

end
