(* ===== verification/Vmm.thy ===== *)
theory Vmm
  imports Pmm "HOL-Library.Sublist"
begin

text \<open>
  The virtual memory manager of \<^verbatim>\<open>src/mm/vmm.c\<close>: four-level page tables held in
  pages of the physical allocator and edited through the direct map. The specification is
  the translation the processor computes from the tables (\<open>translate\<close>); the invariant
  says that the tables form a tree of distinct, aligned pages disjoint from the free list.
\<close>

section \<open>Operations\<close>

definition PTE_BIT_PRESENT :: u64 where "PTE_BIT_PRESENT = 0x1"
definition PTE_BIT_RW :: u64 where "PTE_BIT_RW = 0x2"
definition PTE_BIT_US :: u64 where "PTE_BIT_US = 0x4"
definition PTE_BIT_NX :: u64 where "PTE_BIT_NX = 0x4000000000000000"
definition PTE_BIT_UNCACHABLE :: u64 where "PTE_BIT_UNCACHABLE = push_bit 4 1"
definition PAGE_SIZE :: u64 where "PAGE_SIZE = 4096"

record vmm = pmm +
  kernel_page_map :: u64

definition ALIGN_UP :: "u64 \<Rightarrow> u64 \<Rightarrow> u64" where
  "ALIGN_UP x val = (x + (val - 1)) AND NOT (val - 1)"

definition ALIGN_DOWN :: "u64 \<Rightarrow> u64 \<Rightarrow> u64" where
  "ALIGN_DOWN x val = x AND NOT (val - 1)"

definition vmm_set_ctx :: "u64 \<Rightarrow> ('a vmm_scheme, unit) kern" where
  "vmm_set_ctx page_map = kmod (\<lambda>s. s\<lparr>cr3 := page_map - hhdmoffset s\<rparr>)"

text \<open>Reading \<open>cr3\<close> and writing it back flushes the translation cache.\<close>

definition flush_tlb :: "('a vmm_scheme, unit) kern" where
  "flush_tlb = kbind (kget cr3) (\<lambda>rax. kmod (\<lambda>s. s\<lparr>cr3 := rax\<rparr>))"

definition get_lower_table :: "u64 \<Rightarrow> u64 \<Rightarrow> ('a vmm_scheme, u64) kern" where
  "get_lower_table page_map offset =
     kbind (kget (\<lambda>s. load64 (mem s) (page_map + 8 * offset))) (\<lambda>e.
     kbind (kget hhdmoffset) (\<lambda>h.
     if e AND PTE_BIT_PRESENT \<noteq> 0 then kret ((e AND 0x000ffffffffff000) + h)
     else kbind pmm_alloc (\<lambda>ret.
       if ret = 0 then
         kseq (klog LOG_ERROR ''get_lower_table'' ''Failed to allocate page table'')
        (kseq (kprintf ''page_map: 0x{xn}'' [ANum page_map])
        (kseq (kprintf ''offset: 0x{xn}'' [ANum offset])
              (kret 0)))
       else
         kseq (memset (ret + h) 0 PAGE_SIZE)
        (kseq (mstore64 (page_map + 8 * offset)
                 (ret OR PTE_BIT_PRESENT OR PTE_BIT_RW OR PTE_BIT_US))
              (kret (ret + h))))))"

definition pml4_offset :: "u64 \<Rightarrow> u64" where "pml4_offset v = drop_bit 39 v AND 0x1ff"
definition pdp_offset :: "u64 \<Rightarrow> u64" where "pdp_offset v = drop_bit 30 v AND 0x1ff"
definition pd_offset :: "u64 \<Rightarrow> u64" where "pd_offset v = drop_bit 21 v AND 0x1ff"
definition pt_offset :: "u64 \<Rightarrow> u64" where "pt_offset v = drop_bit 12 v AND 0x1ff"

text \<open>\<open>if(!table){ klog(...); kkill(); }\<close> after each level.\<close>

definition need_table :: "string \<Rightarrow> string \<Rightarrow> u64 \<Rightarrow> ('a vmm_scheme, unit) kern" where
  "need_table func msg t = kif (t = 0) (kseq (klog LOG_ERROR func msg) kkill)"

definition vmm_map_page :: "u64 \<Rightarrow> u64 \<Rightarrow> u64 \<Rightarrow> u64 \<Rightarrow> ('a vmm_scheme, unit) kern" where
  "vmm_map_page page_map virt_addr phys_addr flags =
     kseq (acquire_lock page_table_lock)
    (kbind (get_lower_table page_map (pml4_offset virt_addr)) (\<lambda>pdp.
     kseq (need_table ''vmm_map_page'' ''Failed to allocate PDP'' pdp)
    (kbind (get_lower_table pdp (pdp_offset virt_addr)) (\<lambda>pd.
     kseq (need_table ''vmm_map_page'' ''Failed to allocate PD'' pd)
    (kbind (get_lower_table pd (pd_offset virt_addr)) (\<lambda>pt.
     kseq (need_table ''vmm_map_page'' ''Failed to allocate PT'' pt)
    (kseq (mstore64 (pt + 8 * pt_offset virt_addr) (phys_addr OR flags))
    (kseq flush_tlb
          (free_lock page_table_lock)))))))))"

definition vmm_free_page :: "u64 \<Rightarrow> u64 \<Rightarrow> ('a vmm_scheme, unit) kern" where
  "vmm_free_page page_map virt_addr =
     kbind (get_lower_table page_map (pml4_offset virt_addr)) (\<lambda>pdp.
     kseq (need_table ''vmm_free_page'' ''Failed to allocate PDP'' pdp)
    (kbind (get_lower_table pdp (pdp_offset virt_addr)) (\<lambda>pd.
     kseq (need_table ''vmm_free_page'' ''Failed to allocate PD'' pd)
    (kbind (get_lower_table pd (pd_offset virt_addr)) (\<lambda>pt.
     kseq (need_table ''vmm_free_page'' ''Failed to allocate PT'' pt)
    (kbind (kget (\<lambda>s. load64 (mem s) (pt + 8 * pt_offset virt_addr))) (\<lambda>e.
     kseq (pmm_free (e AND 0x000ffffffffff000))
    (kseq (mstore64 (pt + 8 * pt_offset virt_addr) 0)
          flush_tlb))))))))"

definition vmm_map_continous_pages ::
  "u64 \<Rightarrow> u64 \<Rightarrow> u64 \<Rightarrow> u64 \<Rightarrow> u64 \<Rightarrow> ('a vmm_scheme, int) kern" where
  "vmm_map_continous_pages page_map virt_addr phys_addr sz flags =
     kseq (kfor [0..<unat sz]
        (\<lambda>i. vmm_map_page page_map (virt_addr + of_nat i * PAGE_SIZE) phys_addr flags))
     (kret 0)"

text \<open>One round of the loop of \<open>kernel_allocate_memory\<close>, on its variables \<open>i\<close> and \<open>ret\<close>.\<close>

fun kernel_allocate_round :: "u64 \<Rightarrow> u64 \<Rightarrow> u64 \<times> u64 \<Rightarrow> ('a vmm_scheme, u64 \<times> u64 + u64) kern" where
  "kernel_allocate_round sz flags (i, ret) =
     kbind (kget hhdmoffset) (\<lambda>h.
     if i < sz then
       kbind pmm_alloc (\<lambda>ret.
       if ret = 0 then kret (Inr 0)
       else kbind (kget kernel_page_map) (\<lambda>pm.
            kseq (vmm_map_page pm (ret + h) ret (PTE_BIT_PRESENT OR flags))
                 (kret (Inl (i + PAGE_SIZE, ret)))))
     else kret (Inr (ret + h)))"

definition kernel_allocate_memory :: "u64 \<Rightarrow> u64 \<Rightarrow> ('a vmm_scheme, u64) kern" where
  "kernel_allocate_memory sz flags =
     (if sz = 0 then kret 0 else kloop (kernel_allocate_round sz flags) (0, 0))"

definition kernel_map_pages :: "u64 \<Rightarrow> u64 \<Rightarrow> u64 \<Rightarrow> ('a vmm_scheme, unit) kern" where
  "kernel_map_pages phys_addr sz flags =
     kfor [0..<unat sz] (\<lambda>i. kbind (kget kernel_page_map) (\<lambda>pm. kbind (kget hhdmoffset) (\<lambda>h.
        vmm_map_page pm (phys_addr + h + of_nat i * PAGE_SIZE) (phys_addr + of_nat i * PAGE_SIZE)
          (PTE_BIT_PRESENT OR flags))))"

definition kernel_unmap_pages :: "u64 \<Rightarrow> u64 \<Rightarrow> ('a vmm_scheme, unit) kern" where
  "kernel_unmap_pages addr sz =
     kfor [0..<unat sz] (\<lambda>i. kbind (kget kernel_page_map) (\<lambda>pm.
        vmm_free_page pm (addr + of_nat i * PAGE_SIZE)))"

section \<open>What the processor sees\<close>

definition present :: "u64 \<Rightarrow> bool" where
  "present e \<longleftrightarrow> e AND PTE_BIT_PRESENT \<noteq> 0"

definition pte_page :: "u64 \<Rightarrow> u64" where
  "pte_page e = e AND 0x000ffffffffff000"

definition entry :: "mem \<Rightarrow> u64 \<Rightarrow> u64 \<Rightarrow> u64" where
  "entry m t i = load64 m (t + 8 * i)"

definition lower :: "mem \<Rightarrow> u64 \<Rightarrow> u64 \<Rightarrow> u64 \<Rightarrow> u64 option" where
  "lower m h i t = (if present (entry m t i) then Some (pte_page (entry m t i) + h) else None)"

text \<open>The table reached from \<open>t\<close> by a list of indices, as an address in the direct map.\<close>

fun table_at :: "mem \<Rightarrow> u64 \<Rightarrow> u64 \<Rightarrow> u64 list \<Rightarrow> u64 option" where
  "table_at m h t [] = Some t"
| "table_at m h t (i # is) = Option.bind (lower m h i t) (\<lambda>t'. table_at m h t' is)"

definition path3 :: "u64 \<Rightarrow> u64 list" where
  "path3 v = [pml4_offset v, pdp_offset v, pd_offset v]"

text \<open>The page-table entry that maps \<open>v\<close>, if the walk ends in a present one.\<close>

definition translate :: "mem \<Rightarrow> u64 \<Rightarrow> u64 \<Rightarrow> u64 \<Rightarrow> u64 option" where
  "translate m h root v = (case table_at m h root (path3 v) of
     None \<Rightarrow> None
   | Some pt \<Rightarrow> let e = entry m pt (pt_offset v) in if present e then Some e else None)"

definition same_page :: "u64 \<Rightarrow> u64 \<Rightarrow> bool" where
  "same_page v w \<longleftrightarrow> path3 v = path3 w \<and> pt_offset v = pt_offset w"

definition idx_path :: "nat \<Rightarrow> u64 list \<Rightarrow> bool" where
  "idx_path n is \<longleftrightarrow> length is \<le> n \<and> (\<forall>i \<in> set is. i < 512)"

definition pt_inv :: "mem \<Rightarrow> u64 \<Rightarrow> u64 \<Rightarrow> u64 list \<Rightarrow> bool" where
  "pt_inv m h root fs \<longleftrightarrow>
     (\<forall>is t. idx_path 3 is \<longrightarrow> table_at m h root is = Some t \<longrightarrow> aligned 12 t \<and> t \<noteq> 0 \<and> t - h \<notin> set fs)
   \<and> (\<forall>is js t. idx_path 3 is \<longrightarrow> idx_path 3 js \<longrightarrow> table_at m h root is = Some t \<longrightarrow>
        table_at m h root js = Some t \<longrightarrow> is = js)
   \<and> (\<forall>p \<in> set fs. pte_page p = p \<and> p \<noteq> 0)"

definition vm_inv :: "'a vmm_scheme \<Rightarrow> u64 \<Rightarrow> u64 list \<Rightarrow> bool" where
  "vm_inv s root fs \<longleftrightarrow> pmm_inv s fs \<and> pt_inv (mem s) (hhdmoffset s) root fs"

section \<open>Page and entry lemmas\<close>

lemma idx_bounds [simp]:
  "pml4_offset v < 512" "pdp_offset v < 512" "pd_offset v < 512" "pt_offset v < 512"
proof -
  have "x AND 0x1ff < (512 :: u64)" for x :: u64
    using word_and_le1 [of x "0x1ff"] by (rule order.strict_trans1) simp
  then show "pml4_offset v < 512" "pdp_offset v < 512" "pd_offset v < 512" "pt_offset v < 512"
    by (simp_all add: pml4_offset_def pdp_offset_def pd_offset_def pt_offset_def)
qed

lemma idx_path3 [simp]: "idx_path 3 (path3 v)"
  by (simp add: idx_path_def path3_def)

lemma entry_offset: "i < 512 \<Longrightarrow> unat (8 * i :: u64) = 8 * unat i" "i < 512 \<Longrightarrow> unat (8 * i :: u64) + 8 \<le> 4096"
proof -
  assume "i < (512 :: u64)"
  then have lt: "unat i < 512" by (simp add: word_less_nat_alt)
  then show "unat (8 * i :: u64) = 8 * unat i" by (simp add: unat_word_ariths)
  with lt show "unat (8 * i :: u64) + 8 \<le> 4096" by simp
qed

lemma entry_disj:
  assumes "aligned 12 t" "aligned 12 u" "i < 512" "j < 512" "(t, i) \<noteq> (u, j)"
  shows "disj_mem (t + 8 * i) 8 (u + 8 * j) 8"
proof (cases "t = u")
  case False
  then show ?thesis
    using aligned_disj [OF assms(1,2) False, of "8 * i" 8 "8 * j" 8] entry_offset(2) [of i]
      entry_offset(2) [of j] assms(3,4) by simp
next
  case True
  with assms(5) have ij: "i \<noteq> j" by simp
  have al: "aligned 3 (t + 8 * k)" if "k < 512" for k
  proof -
    have "(8::nat) dvd 4096" by simp
    moreover have "4096 dvd unat t" using assms(1) by (simp add: aligned_dvd)
    ultimately have "8 dvd unat t" by (rule dvd_trans)
    moreover have "8 dvd unat (8 * k)" using entry_offset(1) [OF that] by simp
    ultimately have "8 dvd (unat t + unat (8 * k)) mod 2 ^ 64" by (intro dvd_mod dvd_add) simp_all
    then have "8 dvd unat (t + 8 * k)" by (simp add: unat_word_ariths(1) [of t "8 * k"])
    then show ?thesis by (simp add: aligned_dvd)
  qed
  have "8 * i \<noteq> 8 * j"
    using ij entry_offset(1) [of i] entry_offset(1) [of j] assms(3,4)
    by (metis mult_cancel1 word_unat_eq_iff zero_neq_numeral)
  then have "t + 8 * i \<noteq> u + 8 * j" using True by simp
  then show ?thesis
    using aligned_disj [of 3 "t + 8 * i" "u + 8 * j" 0 8 0 8] al assms(3,4) True by simp
qed

lemma entry_store:
  assumes "aligned 12 t" "aligned 12 u" "i < 512" "j < 512"
  shows "entry (store64 m (t + 8 * i) e) u j = (if (t, i) = (u, j) then e else entry m u j)"
proof (cases "(t, i) = (u, j)")
  case True
  then show ?thesis by (simp add: entry_def)
next
  case False
  then show ?thesis
    using load64_store64_other [OF entry_disj [OF assms False]] by (auto simp: entry_def)
qed

lemma memset_page_other:
  assumes "aligned 12 p" "aligned 12 u" "p \<noteq> u" "unat x + 8 \<le> 4096"
  shows "load64 (memset_mem m p c PAGE_SIZE) (u + x) = load64 m (u + x)"
proof -
  have "disj_mem (p + 0) 4096 (u + x) 8"
    using aligned_disj [OF assms(1-3), of 0 4096 x 8] assms(4) by simp
  then show ?thesis
    by (intro load64_cong) (auto simp: memset_mem_eq store_bytes_apply disj_mem_def PAGE_SIZE_def)
qed

lemma entry_memset:
  assumes "aligned 12 p" "aligned 12 u" "j < 512"
  shows "entry (memset_mem m p 0 PAGE_SIZE) u j = (if p = u then 0 else entry m u j)"
proof (cases "p = u")
  case False
  then show ?thesis
    using memset_page_other [OF assms(1,2) False entry_offset(2) [OF assms(3)]] by (simp add: entry_def)
next
  case True
  have "memset_mem m u 0 PAGE_SIZE (u + 8 * j + of_nat i) = 0" if "i < 8" for i
  proof -
    have "unat (8 * j + of_nat i :: u64) < 4096"
      using entry_offset(2) [OF assms(3)] that by (simp add: unat_plus_of_nat)
    then show ?thesis
      by (simp add: memset_mem_eq store_bytes_apply PAGE_SIZE_def add.assoc)
  qed
  then show ?thesis using True by (auto simp: entry_def intro!: load64_zero)
qed

section \<open>The table tree\<close>

lemma table_at_append:
  "table_at m h t (is @ js) = Option.bind (table_at m h t is) (\<lambda>t'. table_at m h t' js)"
  by (induction "is" arbitrary: t) (auto split: Option.bind_splits)

lemma idx_path_append [simp]:
  "idx_path n (is @ js) \<longleftrightarrow> length is + length js \<le> n \<and> (\<forall>i \<in> set is. i < 512) \<and> (\<forall>j \<in> set js. j < 512)"
  by (auto simp: idx_path_def)

lemma idx_path_mono: "idx_path n is \<Longrightarrow> n \<le> k \<Longrightarrow> idx_path k is"
  by (simp add: idx_path_def)

lemma pt_inv_table:
  "pt_inv m h root fs \<Longrightarrow> idx_path 3 is \<Longrightarrow> table_at m h root is = Some t
   \<Longrightarrow> aligned 12 t \<and> t \<noteq> 0 \<and> t - h \<notin> set fs"
  by (simp add: pt_inv_def)

lemma pt_inv_inj:
  "pt_inv m h root fs \<Longrightarrow> idx_path 3 is \<Longrightarrow> idx_path 3 js \<Longrightarrow> table_at m h root is = Some t
   \<Longrightarrow> table_at m h root js = Some t \<Longrightarrow> is = js"
  unfolding pt_inv_def by blast

lemma table_not_free:
  "pt_inv m h root fs \<Longrightarrow> idx_path 3 is \<Longrightarrow> table_at m h root is = Some t \<Longrightarrow> p \<in> set fs \<Longrightarrow> p + h \<noteq> t"
  using pt_inv_table by fastforce

text \<open>
  Memory that agrees with the old one on every table entry but the one that ends the path
  \<open>ps\<close> has the same tables except behind that entry.
\<close>

lemma table_at_upd:
  assumes ag: "\<And>js t j. idx_path 2 js \<Longrightarrow> table_at m h root js = Some t \<Longrightarrow> j < 512 \<Longrightarrow>
      js @ [j] \<noteq> ps \<Longrightarrow> entry m' t j = entry m t j"
    and "idx_path 3 qs" "\<not> prefix ps qs"
  shows "table_at m' h root qs = table_at m h root qs"
  using assms(2,3)
proof (induction qs rule: rev_induct)
  case Nil
  then show ?case by simp
next
  case (snoc j qs)
  have IH: "table_at m' h root qs = table_at m h root qs"
    using snoc by (intro snoc.IH) (auto simp: idx_path_def)
  show ?case
  proof (cases "table_at m h root qs")
    case None
    then show ?thesis using IH by (simp add: table_at_append)
  next
    case (Some t)
    have "entry m' t j = entry m t j"
      using snoc.prems Some by (intro ag) (auto simp: idx_path_def)
    then show ?thesis using IH Some by (simp add: table_at_append lower_def)
  qed
qed

lemma table_at_store:
  assumes inv: "pt_inv m h root fs" and ps: "idx_path 3 ps" "table_at m h root ps = Some t" "i < 512"
    and "idx_path 3 qs" "\<not> prefix (ps @ [i]) qs"
  shows "table_at (store64 m (t + 8 * i) e) h root qs = table_at m h root qs"
proof (rule table_at_upd [OF _ assms(5,6)])
  fix js t' j
  assume js: "idx_path 2 js" "table_at m h root js = Some t'" "j < 512" "js @ [j] \<noteq> ps @ [i]"
  have "idx_path 3 js" using js(1) by (rule idx_path_mono) simp
  moreover have "(t, i) \<noteq> (t', j)"
    using js(2,4) ps(2) pt_inv_inj [OF inv \<open>idx_path 3 js\<close> ps(1)] by auto
  ultimately show "entry (store64 m (t + 8 * i) e) t' j = entry m t' j"
    using entry_store [of t t' i j m e] pt_inv_table [OF inv] ps js(2,3) by auto
qed

text \<open>Clearing a page that is not a table changes no table.\<close>

lemma table_at_memset:
  assumes inv: "pt_inv m h root fs" and p: "aligned 12 p" "\<And>is. idx_path 3 is \<Longrightarrow> table_at m h root is \<noteq> Some p"
    and qs: "idx_path 3 qs"
  shows "table_at (memset_mem m p 0 PAGE_SIZE) h root qs = table_at m h root qs"
proof (rule table_at_upd [OF _ qs, where ps = "replicate 4 0"])
  fix js and t j :: u64
  assume js: "idx_path 2 js" "table_at m h root js = Some t" "j < 512"
  have "idx_path 3 js" using js(1) by (rule idx_path_mono) simp
  then have "aligned 12 t" "p \<noteq> t" using pt_inv_table [OF inv] js(2) p(2) by auto
  then show "entry (memset_mem m p 0 PAGE_SIZE) t j = entry m t j"
    using entry_memset [OF p(1) _ js(3)] by simp
next
  show "\<not> prefix (replicate 4 0) qs"
    using qs by (auto simp: idx_path_def dest!: prefix_length_le)
qed

lemma new_entry:
  assumes "pte_page p = p"
  shows "pte_page (p OR PTE_BIT_PRESENT OR PTE_BIT_RW OR PTE_BIT_US) = p"
    and "present (p OR PTE_BIT_PRESENT OR PTE_BIT_RW OR PTE_BIT_US)"
proof -
  have "(p OR 7) AND 0x000ffffffffff000 = p AND 0x000ffffffffff000"
    by (simp add: bit.conj_disj_distrib2)
  then show "pte_page (p OR PTE_BIT_PRESENT OR PTE_BIT_RW OR PTE_BIT_US) = p"
    using assms by (simp add: pte_page_def PTE_BIT_PRESENT_def PTE_BIT_RW_def PTE_BIT_US_def or.assoc)
  have "(p OR 7) AND 1 = 1"
    by (rule bit_eqI) (auto simp: bit_simps bit_1_iff)
  then show "present (p OR PTE_BIT_PRESENT OR PTE_BIT_RW OR PTE_BIT_US)"
    by (simp add: present_def PTE_BIT_PRESENT_def PTE_BIT_RW_def PTE_BIT_US_def or.assoc)
qed

lemma present_0 [simp]: "\<not> present 0"
  by (simp add: present_def)

text \<open>The memory after \<open>get_lower_table\<close> has linked a fresh page \<open>p\<close> at entry \<open>i\<close> of \<open>t\<close>.\<close>

definition linked :: "mem \<Rightarrow> u64 \<Rightarrow> u64 \<Rightarrow> u64 \<Rightarrow> u64 \<Rightarrow> mem" where
  "linked m h t i p = store64 (memset_mem m (p + h) 0 PAGE_SIZE) (t + 8 * i)
     (p OR PTE_BIT_PRESENT OR PTE_BIT_RW OR PTE_BIT_US)"

definition link_pre :: "mem \<Rightarrow> u64 \<Rightarrow> u64 \<Rightarrow> u64 list \<Rightarrow> u64 list \<Rightarrow> u64 \<Rightarrow> u64 \<Rightarrow> u64 \<Rightarrow> bool" where
  "link_pre m h root fs ps t i p \<longleftrightarrow> pt_inv m h root (p # fs) \<and> idx_path 2 ps
     \<and> table_at m h root ps = Some t \<and> i < 512 \<and> \<not> present (entry m t i)
     \<and> aligned 12 (p + h) \<and> p + h \<noteq> 0 \<and> p \<notin> set fs"

lemma link_pre_facts:
  assumes "link_pre m h root fs ps t i p"
  shows "pt_inv m h root (p # fs)" "idx_path 3 ps" "length ps \<le> 2" "table_at m h root ps = Some t"
    "i < 512" "\<not> present (entry m t i)" "aligned 12 (p + h)" "p + h \<noteq> 0" "p \<notin> set fs"
    "aligned 12 t" "p + h \<noteq> t" "idx_path 3 js \<Longrightarrow> table_at m h root js \<noteq> Some (p + h)"
proof -
  have inv: "pt_inv m h root (p # fs)" and tb: "table_at m h root ps = Some t"
    using assms by (simp_all add: link_pre_def)
  have p3: "idx_path 3 ps" using assms by (auto simp: link_pre_def intro: idx_path_mono)
  show "aligned 12 t" "p + h \<noteq> t" "idx_path 3 js \<Longrightarrow> table_at m h root js \<noteq> Some (p + h)"
    using pt_inv_table [OF inv p3 tb] table_not_free [OF inv p3 tb] table_not_free [OF inv, of js "p + h" p]
    by auto
qed (use assms in \<open>auto simp: link_pre_def idx_path_def\<close>)

lemma entry_linked:
  assumes L: "link_pre m h root fs ps t i p" and "aligned 12 u" "j < 512"
  shows "entry (linked m h t i p) u j =
    (if (t, i) = (u, j) then p OR PTE_BIT_PRESENT OR PTE_BIT_RW OR PTE_BIT_US
     else if p + h = u then 0 else entry m u j)"
  using entry_store [OF _ assms(2) _ assms(3), of t i] entry_memset [OF _ assms(2,3), of "p + h"]
    link_pre_facts [OF L] by (auto simp: linked_def)

lemma entry_linked_table:
  assumes L: "link_pre m h root fs ps t i p" and js: "idx_path 3 js" "table_at m h root js = Some t'" "j < 512"
    and ne: "js @ [j] \<noteq> ps @ [i]"
  shows "entry (linked m h t i p) t' j = entry m t' j"
proof -
  note F = link_pre_facts [OF L]
  have "(t, i) \<noteq> (t', j)" using js(2) ne F(4) pt_inv_inj [OF F(1) js(1) F(2)] by auto
  moreover have "p + h \<noteq> t'" using F(12) [OF js(1)] js(2) by auto
  moreover have "aligned 12 t'" using pt_inv_table [OF F(1) js(1,2)] by simp
  ultimately show ?thesis using entry_linked [OF L _ js(3)] by auto
qed

lemma table_at_linked:
  assumes L: "link_pre m h root fs ps t i p" and qs: "idx_path 3 qs"
  shows "table_at (linked m h t i p) h root qs =
    (if qs = ps @ [i] then Some (p + h) else table_at m h root qs)"
proof -
  let ?m = "linked m h t i p"
  note F = link_pre_facts [OF L]
  have out: "table_at ?m h root qs = table_at m h root qs"
    if "idx_path 3 qs" "\<not> prefix (ps @ [i]) qs" for qs
    by (rule table_at_upd [OF entry_linked_table [OF L] that]) (auto intro: idx_path_mono)
  show ?thesis
  proof (cases "prefix (ps @ [i]) qs")
    case False
    then show ?thesis using out [OF qs] by auto
  next
    case True
    then obtain rs where rs: "qs = ps @ i # rs" by (auto simp: prefix_def)
    have "table_at ?m h root ps = Some t" using out [OF F(2)] F(4) by simp
    moreover have "lower ?m h i t = Some (p + h)"
      using F(1) entry_linked [OF L F(10) F(5)] by (simp add: lower_def new_entry pt_inv_def)
    moreover have "table_at ?m h (p + h) rs = (if rs = [] then Some (p + h) else None)"
    proof (cases rs)
      case (Cons r rs')
      then have "r < 512" using qs rs by (simp add: idx_path_def)
      then have "entry ?m (p + h) r = 0" using entry_linked [OF L F(7)] F(11) by auto
      then show ?thesis using Cons by (simp add: lower_def)
    qed simp
    moreover have "table_at m h root qs = None"
      using F(4,6) by (simp add: rs table_at_append lower_def)
    ultimately show ?thesis using rs by (simp add: table_at_append)
  qed
qed

lemma pt_inv_linked:
  assumes L: "link_pre m h root fs ps t i p"
  shows "pt_inv (linked m h t i p) h root fs"
proof -
  let ?m = "linked m h t i p"
  note F = link_pre_facts [OF L]
  have "aligned 12 t' \<and> t' \<noteq> 0 \<and> t' - h \<notin> set fs"
    if "idx_path 3 is" "table_at ?m h root is = Some t'" for "is" t'
    using that table_at_linked [OF L that(1)] pt_inv_table [OF F(1) that(1)] F(7,8,9)
    by (auto split: if_splits)
  moreover have "is = js"
    if a: "idx_path 3 is" "idx_path 3 js" "table_at ?m h root is = Some t'" "table_at ?m h root js = Some t'"
    for "is" js t'
    using a(3,4) table_at_linked [OF L a(1)] table_at_linked [OF L a(2)] F(12) [OF a(1)] F(12) [OF a(2)]
      pt_inv_inj [OF F(1) a(1,2)] by (auto split: if_splits)
  moreover have "\<forall>q \<in> set fs. pte_page q = q \<and> q \<noteq> 0" using F(1) by (simp add: pt_inv_def)
  ultimately show ?thesis unfolding pt_inv_def by blast
qed

lemma translate_linked:
  assumes L: "link_pre m h root fs ps t i p"
  shows "translate (linked m h t i p) h root v = translate m h root v"
proof -
  let ?m = "linked m h t i p"
  note F = link_pre_facts [OF L] and tb = table_at_linked [OF L idx_path3]
  show ?thesis
  proof (cases "path3 v = ps @ [i]")
    case True
    have "entry ?m (p + h) (pt_offset v) = 0"
      using entry_linked [OF L F(7), of "pt_offset v"] F(11) by auto
    moreover have "table_at m h root (path3 v) = None"
      using F(4,6) True by (simp add: table_at_append lower_def)
    ultimately show ?thesis using True tb [of v] by (simp add: translate_def)
  next
    case False
    have "length (path3 v @ [pt_offset v]) \<noteq> length (ps @ [i])" using F(3) by (simp add: path3_def)
    then have "path3 v @ [pt_offset v] \<noteq> ps @ [i]" by metis
    then have "entry ?m pt (pt_offset v) = entry m pt (pt_offset v)"
      if "table_at m h root (path3 v) = Some pt" for pt
      using entry_linked_table [OF L idx_path3 that] by simp
    then show ?thesis using False tb [of v] by (simp add: translate_def split: option.splits)
  qed
qed

section \<open>Walking down one level\<close>

text \<open>What mapping operations leave alone: everything but memory and the free list.\<close>

definition vm_frame :: "'a vmm_scheme \<Rightarrow> 'a vmm_scheme \<Rightarrow> bool" where
  "vm_frame s t \<longleftrightarrow> (\<exists>m fl c. t = s\<lparr>mem := m, free_list := fl, pmm_free_page_count := c\<rparr>)"

lemma vm_frame_refl [simp]: "vm_frame s s" "vm_frame s (s\<lparr>mem := m\<rparr>)"
  unfolding vm_frame_def
  by (rule exI [of _ "mem s"], rule exI [of _ "free_list s"], rule exI [of _ "pmm_free_page_count s"], simp)
    (rule exI [of _ m], rule exI [of _ "free_list s"], rule exI [of _ "pmm_free_page_count s"], simp)

lemma vm_frameI:
  "t = s\<lparr>mem := mem t, free_list := free_list t, pmm_free_page_count := pmm_free_page_count t\<rparr> \<Longrightarrow> vm_frame s t"
  unfolding vm_frame_def by blast

lemma vm_frame_trans: "vm_frame s t \<Longrightarrow> vm_frame t u \<Longrightarrow> vm_frame s u"
  unfolding vm_frame_def by (elim exE, simp) (intro exI, rule refl)

lemma vm_frame_fields:
  assumes "vm_frame s t"
  shows "hhdmoffset t = hhdmoffset s" "locks t = locks s" "kernel_page_map t = kernel_page_map s"
    "cr3 t = cr3 s"
  using assms by (auto simp: vm_frame_def)

lemma free_chain_cong:
  "(\<And>q. q \<in> set fs \<Longrightarrow> load64 m' (q + h) = load64 m (q + h)) \<Longrightarrow> free_chain m' h fl fs = free_chain m h fl fs"
  by (induction fs arbitrary: fl) auto

lemma pmm_inv_mem:
  assumes "pmm_inv s fs" "\<And>q. q \<in> set fs \<Longrightarrow> load64 m (q + hhdmoffset s) = load64 (mem s) (q + hhdmoffset s)"
  shows "pmm_inv (s\<lparr>mem := m\<rparr>) fs"
  using assms free_chain_cong [of fs m "hhdmoffset s" "mem s" "free_list s"]
  by (simp add: pmm_inv_def page_ok_def)

lemma free_page_aligned: "pmm_inv s fs \<Longrightarrow> q \<in> set fs \<Longrightarrow> aligned 12 (q + hhdmoffset s)"
  by (simp add: pmm_inv_def page_ok_def)

text \<open>Editing a table entry does not touch the free list.\<close>

lemma pmm_inv_store_entry:
  assumes "vm_inv s root fs" "idx_path 3 ps" "table_at (mem s) (hhdmoffset s) root ps = Some t" "i < 512"
  shows "pmm_inv (s\<lparr>mem := store64 (mem s) (t + 8 * i) e\<rparr>) fs"
proof (rule pmm_inv_mem)
  show inv: "pmm_inv s fs" using assms(1) by (simp add: vm_inv_def)
  fix q assume q: "q \<in> set fs"
  have pt: "pt_inv (mem s) (hhdmoffset s) root fs" using assms(1) by (simp add: vm_inv_def)
  have "t \<noteq> q + hhdmoffset s" using table_not_free [OF pt assms(2,3) q] by simp
  then show "load64 (store64 (mem s) (t + 8 * i) e) (q + hhdmoffset s) = load64 (mem s) (q + hhdmoffset s)"
    using entry_store [of t "q + hhdmoffset s" i 0] pt_inv_table [OF pt assms(2,3)]
      free_page_aligned [OF inv q] assms(4) by (simp add: entry_def)
qed

lemma get_lower_table_present:
  assumes "present (entry (mem s) t i)"
  shows "get_lower_table t i s = Ret (pte_page (entry (mem s) t i) + hhdmoffset s) s"
  using assms by (simp add: get_lower_table_def kbind_cases present_def entry_def pte_page_def)

lemma get_lower_table_alloc:
  assumes vm: "vm_inv s root (p # fs)" and ps: "idx_path 2 ps"
    and t: "table_at (mem s) (hhdmoffset s) root ps = Some t" "i < 512" "\<not> present (entry (mem s) t i)"
  shows "get_lower_table t i s
       = Ret (p + hhdmoffset s) ((pmm_popped s p)\<lparr>mem := linked (mem s) (hhdmoffset s) t i p\<rparr>)"
    and "link_pre (mem s) (hhdmoffset s) root fs ps t i p"
    and "vm_inv ((pmm_popped s p)\<lparr>mem := linked (mem s) (hhdmoffset s) t i p\<rparr>) root fs"
proof -
  let ?h = "hhdmoffset s"
  have inv: "pmm_inv s (p # fs)" and pt: "pt_inv (mem s) ?h root (p # fs)"
    using vm by (simp_all add: vm_inv_def)
  note al = pmm_alloc_Cons [OF inv]
  show L: "link_pre (mem s) ?h root fs ps t i p"
    using inv pt ps t by (auto simp: link_pre_def pmm_inv_def page_ok_def)
  note F = link_pre_facts [OF L]
  have "p \<noteq> 0" using pt by (simp add: pt_inv_def)
  then show "get_lower_table t i s = Ret (p + ?h) ((pmm_popped s p)\<lparr>mem := linked (mem s) ?h t i p\<rparr>)"
    using al(1) t(3)
    by (simp add: get_lower_table_def kbind_cases kseq_cases memset_def present_def entry_def linked_def)
  have "pmm_inv ((pmm_popped s p)\<lparr>mem := linked (mem s) ?h t i p\<rparr>) fs"
  proof (rule pmm_inv_mem [OF al(2)])
    fix q assume q: "q \<in> set fs"
    have "t \<noteq> q + ?h" using table_not_free [OF F(1) F(2) F(4), of q] q by auto
    moreover have "p + ?h \<noteq> q + ?h" using F(9) q by auto
    moreover have "aligned 12 (q + ?h)" using free_page_aligned [OF inv, of q] q by simp
    ultimately show "load64 (linked (mem s) ?h t i p) (q + hhdmoffset (pmm_popped s p))
        = load64 (mem (pmm_popped s p)) (q + hhdmoffset (pmm_popped s p))"
      using entry_linked [OF L, of "q + ?h" 0] by (simp add: entry_def)
  qed
  then show "vm_inv ((pmm_popped s p)\<lparr>mem := linked (mem s) ?h t i p\<rparr>) root fs"
    using pt_inv_linked [OF L] by (simp add: vm_inv_def)
qed

text \<open>\<open>keeps_tables\<close>: tables that exist stay where they are.\<close>

definition keeps_tables :: "u64 \<Rightarrow> 'a vmm_scheme \<Rightarrow> 'a vmm_scheme \<Rightarrow> bool" where
  "keeps_tables root s t \<longleftrightarrow> (\<forall>is x. idx_path 3 is \<longrightarrow>
     table_at (mem s) (hhdmoffset s) root is = Some x \<longrightarrow> table_at (mem t) (hhdmoffset t) root is = Some x)"

lemma keeps_tables_refl [simp]: "keeps_tables root s s"
  by (simp add: keeps_tables_def)

lemma keeps_tables_trans: "keeps_tables root s t \<Longrightarrow> keeps_tables root t u \<Longrightarrow> keeps_tables root s u"
  by (simp add: keeps_tables_def)

lemma get_lower_table_ok:
  assumes vm: "vm_inv s root fs" and ps: "idx_path 2 ps"
    and t: "table_at (mem s) (hhdmoffset s) root ps = Some t" "i < 512"
    and pages: "present (entry (mem s) t i) \<or> fs \<noteq> []"
  shows "\<exists>t' s' used fs'. get_lower_table t i s = Ret t' s' \<and> t' \<noteq> 0 \<and> fs = used @ fs' \<and> length used \<le> 1
     \<and> (present (entry (mem s) t i) \<longrightarrow> s' = s \<and> used = [])
     \<and> vm_inv s' root fs' \<and> vm_frame s s' \<and> keeps_tables root s s'
     \<and> table_at (mem s') (hhdmoffset s') root (ps @ [i]) = Some t'
     \<and> translate (mem s') (hhdmoffset s') root = translate (mem s) (hhdmoffset s) root"
proof (cases "present (entry (mem s) t i)")
  case True
  let ?t = "pte_page (entry (mem s) t i) + hhdmoffset s"
  have tb: "table_at (mem s) (hhdmoffset s) root (ps @ [i]) = Some ?t"
    using True t(1) by (simp add: table_at_append lower_def)
  have i3: "idx_path 3 (ps @ [i])" using ps t(2) by (auto simp: idx_path_def)
  have "pt_inv (mem s) (hhdmoffset s) root fs" using vm by (simp add: vm_inv_def)
  from pt_inv_table [OF this i3 tb] have "?t \<noteq> 0" by blast
  then show ?thesis
    using tb vm get_lower_table_present [OF True] True
    by (intro exI [of _ ?t] exI [of _ s] exI [of _ "[]"] exI [of _ fs]) simp
next
  case False
  then obtain p fs' where fs: "fs = p # fs'" using pages by (cases fs) auto
  note al = get_lower_table_alloc [OF vm [unfolded fs] ps t False]
  let ?s = "(pmm_popped s p)\<lparr>mem := linked (mem s) (hhdmoffset s) t i p\<rparr>"
  have i3: "idx_path 3 (ps @ [i])" using ps t(2) by (auto simp: idx_path_def)
  have none: "table_at (mem s) (hhdmoffset s) root (ps @ [i]) = None"
    using False t(1) by (simp add: table_at_append lower_def)
  have "vm_frame s ?s" by (rule vm_frameI) simp
  moreover have "keeps_tables root s ?s"
    using none by (auto simp: keeps_tables_def table_at_linked [OF al(2)])
  moreover have "translate (mem ?s) (hhdmoffset ?s) root = translate (mem s) (hhdmoffset s) root"
    using translate_linked [OF al(2)] by (simp add: fun_eq_iff)
  moreover have "table_at (mem ?s) (hhdmoffset ?s) root (ps @ [i]) = Some (p + hhdmoffset s)"
    using table_at_linked [OF al(2) i3] by simp
  moreover have "p + hhdmoffset s \<noteq> 0" using link_pre_facts(8) [OF al(2)] .
  ultimately show ?thesis
    using al(1,3) fs False
    by (intro exI [of _ "p + hhdmoffset s"] exI [of _ ?s] exI [of _ "[p]"] exI [of _ fs']) simp
qed

section \<open>Mapping and unmapping one page\<close>

text \<open>Storing a leaf entry changes the translation of its own page only.\<close>

lemma store_leaf:
  fixes e :: u64
  assumes vm: "vm_inv s root fs" and tb: "table_at (mem s) (hhdmoffset s) root (path3 v) = Some pt"
  defines "s' \<equiv> s\<lparr>mem := store64 (mem s) (pt + 8 * pt_offset v) e\<rparr>"
  shows "vm_inv s' root fs" "keeps_tables root s s'"
    and "translate (mem s') (hhdmoffset s) root v = (if present e then Some e else None)"
    and "\<not> same_page v w \<Longrightarrow> translate (mem s') (hhdmoffset s) root w = translate (mem s) (hhdmoffset s) root w"
proof -
  let ?h = "hhdmoffset s"
  have inv: "pt_inv (mem s) ?h root fs" using vm by (simp add: vm_inv_def)
  have tabs: "table_at (mem s') ?h root qs = table_at (mem s) ?h root qs" if "idx_path 3 qs" for qs
  proof -
    have "\<not> prefix (path3 v @ [pt_offset v]) qs"
      using that by (auto simp: idx_path_def path3_def dest!: prefix_length_le)
    then show ?thesis
      unfolding s'_def using table_at_store [OF inv idx_path3 tb idx_bounds(4) that] by simp
  qed
  have "pt_inv (mem s') ?h root fs" using inv tabs unfolding pt_inv_def by metis
  then show "vm_inv s' root fs"
    using pmm_inv_store_entry [OF vm idx_path3 tb idx_bounds(4)] by (simp add: vm_inv_def s'_def)
  show "keeps_tables root s s'" using tabs by (simp add: keeps_tables_def s'_def)
  have al: "aligned 12 pt" using pt_inv_table [OF inv idx_path3 tb] by blast
  show "translate (mem s') ?h root v = (if present e then Some e else None)"
    using tabs [of "path3 v"] tb entry_store [OF al al, of "pt_offset v" "pt_offset v" "mem s" e]
    by (simp add: translate_def s'_def)
  assume ns: "\<not> same_page v w"
  have "entry (mem s') pt' (pt_offset w) = entry (mem s) pt' (pt_offset w)"
    if tw: "table_at (mem s) ?h root (path3 w) = Some pt'" for pt'
  proof -
    have "(pt, pt_offset v) \<noteq> (pt', pt_offset w)"
      using ns tw tb pt_inv_inj [OF inv idx_path3 idx_path3, of v pt w] by (auto simp: same_page_def)
    then show ?thesis
      using entry_store [OF al, of pt' "pt_offset v" "pt_offset w" "mem s" e] pt_inv_table [OF inv idx_path3 tw]
      by (auto simp: s'_def)
  qed
  then show "translate (mem s') ?h root w = translate (mem s) ?h root w"
    using tabs [of "path3 w"] by (simp add: translate_def split: option.splits)
qed

lemma need_table_ok [simp]: "t \<noteq> 0 \<Longrightarrow> need_table f g t s = Ret () s"
  by (simp add: need_table_def)

lemma flush_tlb_apply [simp]: "flush_tlb s = Ret () s"
  by (simp add: flush_tlb_def kbind_cases)

lemma table_at_prefix: "table_at m h t (is @ js) \<noteq> None \<Longrightarrow> table_at m h t is \<noteq> None"
  by (cases "table_at m h t is") (simp_all add: table_at_append)

lemma present_iff_table:
  "table_at m h root ps = Some t \<Longrightarrow> present (entry m t i) \<longleftrightarrow> table_at m h root (ps @ [i]) \<noteq> None"
  by (simp add: table_at_append lower_def)

text \<open>
  \<open>walked v s fs s' fs' n\<close>: after at most \<open>n\<close> pages were taken from the free list for
  tables (none if the path to \<open>v\<close> existed), no translation has changed.
\<close>

definition walked :: "u64 \<Rightarrow> bool \<Rightarrow> 'a vmm_scheme \<Rightarrow> u64 list \<Rightarrow> 'a vmm_scheme \<Rightarrow> u64 list \<Rightarrow> nat \<Rightarrow> bool" where
  "walked root ex s fs s' fs' n \<longleftrightarrow> (\<exists>used. fs = used @ fs' \<and> length used \<le> n \<and> (ex \<longrightarrow> s' = s \<and> used = []))
     \<and> vm_inv s' root fs' \<and> vm_frame s s' \<and> keeps_tables root s s'
     \<and> translate (mem s') (hhdmoffset s') root = translate (mem s) (hhdmoffset s) root"

lemma walked_trans:
  assumes "walked root ex s fs s1 fs1 a" "walked root ex s1 fs1 s2 fs2 b"
  shows "walked root ex s fs s2 fs2 (a + b)"
proof -
  obtain u v where "fs = u @ fs1" "length u \<le> a" "ex \<longrightarrow> s1 = s \<and> u = []"
    "fs1 = v @ fs2" "length v \<le> b" "ex \<longrightarrow> s2 = s1 \<and> v = []"
    using assms by (auto simp: walked_def)
  then have "fs = (u @ v) @ fs2 \<and> length (u @ v) \<le> a + b \<and> (ex \<longrightarrow> s2 = s \<and> u @ v = [])" by auto
  moreover have "vm_frame s s2" "keeps_tables root s s2"
    using assms vm_frame_trans keeps_tables_trans by (auto simp: walked_def)
  ultimately show ?thesis using assms unfolding walked_def by metis
qed

lemma walk_down:
  assumes vm: "vm_inv s root fs" and ps: "idx_path 2 ps"
    and t: "table_at (mem s) (hhdmoffset s) root ps = Some t" "i < 512"
    and ex: "ex \<Longrightarrow> table_at (mem s) (hhdmoffset s) root (ps @ [i]) \<noteq> None" and pages: "\<not> ex \<Longrightarrow> fs \<noteq> []"
  obtains t' s' fs' where "get_lower_table t i s = Ret t' s'" "t' \<noteq> 0" "walked root ex s fs s' fs' 1"
    "table_at (mem s') (hhdmoffset s') root (ps @ [i]) = Some t'"
proof -
  have pr: "ex \<Longrightarrow> present (entry (mem s) t i)" using ex present_iff_table [OF t(1)] by blast
  then have "present (entry (mem s) t i) \<or> fs \<noteq> []" using pages by blast
  from get_lower_table_ok [OF vm ps t this] pr that show ?thesis unfolding walked_def by metis
qed

text \<open>The three walks of \<open>vmm_map_page\<close> and \<open>vmm_free_page\<close>.\<close>

lemma three_walks:
  assumes vm: "vm_inv s root fs"
    and ex: "ex \<Longrightarrow> table_at (mem s) (hhdmoffset s) root (path3 v) \<noteq> None" and pages: "\<not> ex \<Longrightarrow> 3 \<le> length fs"
  obtains pdp pd pt s1 s2 s3 fs3 where "get_lower_table root (pml4_offset v) s = Ret pdp s1" "pdp \<noteq> 0"
    "get_lower_table pdp (pdp_offset v) s1 = Ret pd s2" "pd \<noteq> 0"
    "get_lower_table pd (pd_offset v) s2 = Ret pt s3" "pt \<noteq> 0" "walked root ex s fs s3 fs3 3"
    "table_at (mem s3) (hhdmoffset s3) root (path3 v) = Some pt"
proof -
  let ?a = "pml4_offset v" and ?b = "pdp_offset v" and ?c = "pd_offset v"
  let ?tab = "\<lambda>s is. table_at (mem s) (hhdmoffset s) root is"
  have exs: "ex \<Longrightarrow> ?tab s ([] @ [?a]) \<noteq> None" "ex \<Longrightarrow> ?tab s ([?a] @ [?b]) \<noteq> None"
    "ex \<Longrightarrow> ?tab s ([?a, ?b] @ [?c]) \<noteq> None"
    using ex table_at_prefix [of "mem s" "hhdmoffset s" root "[?a]" "[?b, ?c]"]
      table_at_prefix [of "mem s" "hhdmoffset s" root "[?a, ?b]" "[?c]"]
    by (simp_all add: path3_def)
  have ne: "\<not> ex \<Longrightarrow> fs \<noteq> []" using pages by auto
  obtain pdp s1 fs1 where 1: "get_lower_table root ?a s = Ret pdp s1" "pdp \<noteq> 0"
    "walked root ex s fs s1 fs1 1" "?tab s1 ([] @ [?a]) = Some pdp"
    by (rule walk_down [OF vm _ _ idx_bounds(1) exs(1) ne]) (simp_all add: idx_path_def)
  have same1: "ex \<Longrightarrow> s1 = s" and vm1: "vm_inv s1 root fs1" and "length fs \<le> length fs1 + 1"
    using 1(3) by (auto simp: walked_def)
  then have ne1: "\<not> ex \<Longrightarrow> fs1 \<noteq> []" using pages by auto
  have ex1: "ex \<Longrightarrow> ?tab s1 ([?a] @ [?b]) \<noteq> None" using exs(2) same1 by blast
  obtain pd s2 fs2 where 2: "get_lower_table pdp ?b s1 = Ret pd s2" "pd \<noteq> 0"
    "walked root ex s1 fs1 s2 fs2 1" "?tab s2 ([?a] @ [?b]) = Some pd"
    by (rule walk_down [OF vm1 _ _ idx_bounds(2) ex1 ne1]) (use 1(4) in \<open>simp_all add: idx_path_def\<close>)
  have same2: "ex \<Longrightarrow> s2 = s" and vm2: "vm_inv s2 root fs2" and "length fs1 \<le> length fs2 + 1"
    using 2(3) same1 by (auto simp: walked_def)
  then have ne2: "\<not> ex \<Longrightarrow> fs2 \<noteq> []" using pages \<open>length fs \<le> length fs1 + 1\<close> by auto
  have ex2: "ex \<Longrightarrow> ?tab s2 ([?a, ?b] @ [?c]) \<noteq> None" using exs(3) same2 by blast
  obtain pt s3 fs3 where 3: "get_lower_table pd ?c s2 = Ret pt s3" "pt \<noteq> 0"
    "walked root ex s2 fs2 s3 fs3 1" "?tab s3 ([?a, ?b] @ [?c]) = Some pt"
    by (rule walk_down [OF vm2 _ _ idx_bounds(3) ex2 ne2]) (use 2(4) in \<open>simp_all add: idx_path_def\<close>)
  have "walked root ex s fs s3 fs3 (1 + (1 + 1))"
    by (rule walked_trans [OF 1(3) walked_trans [OF 2(3) 3(3)]])
  then show ?thesis
    using that [OF 1(1,2) 2(1,2) 3(1,2)] 3(4) by (simp add: path3_def numeral_eq_Suc)
qed

lemma vm_inv_cong:
  "vm_inv s root fs \<Longrightarrow> mem t = mem s \<Longrightarrow> hhdmoffset t = hhdmoffset s \<Longrightarrow> free_list t = free_list s
   \<Longrightarrow> pmm_free_page_count t = pmm_free_page_count s \<Longrightarrow> locks t pmm_lock = locks s pmm_lock
   \<Longrightarrow> vm_inv t root fs"
  unfolding vm_inv_def using pmm_inv_cong by auto

text \<open>
  \<open>mapped_only root v e s s'\<close>: the entry of \<open>v\<close> is \<open>e\<close> and no other page has
  changed its translation.
\<close>

definition mapped_only :: "u64 \<Rightarrow> u64 \<Rightarrow> u64 option \<Rightarrow> 'a vmm_scheme \<Rightarrow> 'a vmm_scheme \<Rightarrow> bool" where
  "mapped_only root v e s s' \<longleftrightarrow> translate (mem s') (hhdmoffset s) root v = e
     \<and> (\<forall>w. \<not> same_page v w \<longrightarrow>
          translate (mem s') (hhdmoffset s) root w = translate (mem s) (hhdmoffset s) root w)"

lemma vmm_map_page_ok:
  fixes s :: "'a vmm_scheme"
  assumes vm: "vm_inv s root fs" and lk: "\<not> locks s page_table_lock" and pr: "present (p OR fl)"
    and ex: "table_at (mem s) (hhdmoffset s) root (path3 v) \<noteq> None \<or> 3 \<le> length fs"
  shows "\<exists>s' used fs'. vmm_map_page root v p fl s = Ret () s' \<and> fs = used @ fs' \<and> length used \<le> 3
     \<and> (table_at (mem s) (hhdmoffset s) root (path3 v) \<noteq> None \<longrightarrow> used = [])
     \<and> vm_inv s' root fs' \<and> vm_frame s s'
     \<and> keeps_tables root s s' \<and> mapped_only root v (Some (p OR fl)) s s'"
proof -
  let ?ex = "table_at (mem s) (hhdmoffset s) root (path3 v) \<noteq> None"
  let ?s0 = "s\<lparr>locks := (locks s)(page_table_lock := True)\<rparr>"
  have vm0: "vm_inv ?s0 root fs" using vm by (rule vm_inv_cong) simp_all
  obtain pdp pd pt s1 s2 s3 fs3 where w: "get_lower_table root (pml4_offset v) ?s0 = Ret pdp s1" "pdp \<noteq> 0"
    "get_lower_table pdp (pdp_offset v) s1 = Ret pd s2" "pd \<noteq> 0"
    "get_lower_table pd (pd_offset v) s2 = Ret pt s3" "pt \<noteq> 0" "walked root ?ex ?s0 fs s3 fs3 3"
    "table_at (mem s3) (hhdmoffset s3) root (path3 v) = Some pt"
    by (rule three_walks [OF vm0, of ?ex v]) (use ex in auto)
  let ?s4 = "s3\<lparr>mem := store64 (mem s3) (pt + 8 * pt_offset v) (p OR fl)\<rparr>"
  have vm3: "vm_inv s3 root fs3" and fr3: "vm_frame ?s0 s3" using w(7) by (simp_all add: walked_def)
  note F = vm_frame_fields [OF fr3] and L = store_leaf [OF vm3 w(8)]
  let ?s5 = "?s4\<lparr>locks := (locks s3)(page_table_lock := False)\<rparr>"
  have run: "vmm_map_page root v p fl s = Ret () ?s5"
    using lk w(1-6) by (simp add: vmm_map_page_def kseq_cases kbind_cases)
  have "locks ?s5 = locks s" using lk F by (simp add: fun_eq_iff)
  then have "vm_frame s ?s5"
    using fr3 unfolding vm_frame_def [of ?s0] by (intro vm_frameI) auto
  moreover have "vm_inv ?s5 root fs3" using L(1) [of "p OR fl"] by (rule vm_inv_cong) simp_all
  moreover obtain used where "fs = used @ fs3" "length used \<le> 3" "?ex \<longrightarrow> used = []"
    using w(7) by (auto simp: walked_def)
  moreover have "translate (mem s3) (hhdmoffset s) root = translate (mem s) (hhdmoffset s) root"
    using w(7) F by (simp add: walked_def)
  moreover have "keeps_tables root s ?s5"
    using w(7) L(2) [of "p OR fl"] by (simp add: walked_def keeps_tables_def)
  ultimately show ?thesis
    using run pr L(3,4) [where e = "p OR fl"] F
    by - (rule exI [of _ ?s5], rule exI [of _ used], rule exI [of _ fs3], simp add: mapped_only_def)
qed


text \<open>
  C1: \<open>vmm_map_page\<close> maps the page it is asked to and nothing else. With the page-table
  lock free and either all tables of the path in place or three free pages left, the call
  returns; afterwards the processor translates \<open>v\<close> to the entry \<open>p | fl\<close>, the
  translation of every other page is what it was, the tables and the free list are again
  well formed, at most three pages were taken (none when the tables existed), and nothing
  but memory and the free list has changed.
\<close>

theorem vmm_map_page_correct:
  fixes s :: "'a vmm_scheme"
  assumes vm: "vm_inv s root fs" and lk: "\<not> locks s page_table_lock" and pr: "present (p OR fl)"
    and ex: "table_at (mem s) (hhdmoffset s) root (path3 v) \<noteq> None \<or> 3 \<le> length fs"
  shows "\<exists>s' used fs'. vmm_map_page root v p fl s = Ret () s' \<and> fs = used @ fs' \<and> length used \<le> 3
     \<and> (table_at (mem s) (hhdmoffset s) root (path3 v) \<noteq> None \<longrightarrow> used = [])
     \<and> vm_inv s' root fs' \<and> vm_frame s s'
     \<and> translate (mem s') (hhdmoffset s) root v = Some (p OR fl)
     \<and> (\<forall>w. \<not> same_page v w \<longrightarrow>
          translate (mem s') (hhdmoffset s) root w = translate (mem s) (hhdmoffset s) root w)"
  using vmm_map_page_ok [OF assms] unfolding mapped_only_def by blast

text \<open>Pushing a page that is neither free nor a table leaves the tables alone.\<close>

lemma vm_inv_pushed:
  assumes vm: "vm_inv s root fs" and q: "page_ok s q" "q \<notin> set fs" "pte_page q = q" "q \<noteq> 0"
    and nt: "\<And>is. idx_path 3 is \<Longrightarrow> table_at (mem s) (hhdmoffset s) root is \<noteq> Some (q + hhdmoffset s)"
  shows "vm_inv (pmm_pushed s q) root (q # fs)" and "keeps_tables root s (pmm_pushed s q)"
    and "translate (mem (pmm_pushed s q)) (hhdmoffset s) root = translate (mem s) (hhdmoffset s) root"
proof -
  let ?h = "hhdmoffset s" and ?m = "store64 (mem s) (q + hhdmoffset s + 8 * 0) (free_list s)"
  have m: "mem (pmm_pushed s q) = ?m" by simp
  have inv: "pt_inv (mem s) ?h root fs" and pm: "pmm_inv s fs" using vm by (simp_all add: vm_inv_def)
  have al: "aligned 12 (q + ?h)" using q(1) by (simp add: page_ok_def)
  have ent: "entry ?m t j = entry (mem s) t j"
    if "idx_path 3 js" "table_at (mem s) ?h root js = Some t" "j < 512" for js t j
  proof -
    have "aligned 12 t" "q + ?h \<noteq> t" using pt_inv_table [OF inv that(1,2)] nt [OF that(1)] that(2) by auto
    then show ?thesis using entry_store [OF al, of t 0 j] that(3) by auto
  qed
  have tabs: "table_at ?m ?h root qs = table_at (mem s) ?h root qs" if "idx_path 3 qs" for qs
  proof (rule table_at_upd [OF _ that, where ps = "replicate 4 0"])
    show "\<not> prefix (replicate 4 0) qs" using that by (auto simp: idx_path_def dest!: prefix_length_le)
  next
    fix js and t j :: u64
    assume "idx_path 2 js" "table_at (mem s) ?h root js = Some t" "j < 512"
    then show "entry ?m t j = entry (mem s) t j" by (intro ent) (auto intro: idx_path_mono)
  qed
  have "q + ?h - ?h = q" by simp
  then have "pt_inv ?m ?h root (q # fs)"
    using inv tabs nt q(3,4) unfolding pt_inv_def
    by (metis (no_types, lifting) diff_add_cancel set_ConsD)
  then show "vm_inv (pmm_pushed s q) root (q # fs)"
    using pmm_free_page(2) [OF pm q(1,2) pmm_inv_count [OF pm q(1,2)]] by (simp add: vm_inv_def)
  show "keeps_tables root s (pmm_pushed s q)" using tabs by (simp add: keeps_tables_def)
  show "translate (mem (pmm_pushed s q)) ?h root = translate (mem s) ?h root"
    using tabs [OF idx_path3] ent [OF idx_path3] unfolding m translate_def fun_eq_iff
    by (auto split: option.splits)
qed

text \<open>
  C7: \<open>vmm_free_page\<close> undoes a mapping. For a page mapped by the entry \<open>e\<close> whose
  frame is neither free nor a page table, the call returns; afterwards the page has no
  translation, every other page is translated as before, and the frame is on top of the
  free list.
\<close>

theorem vmm_free_page_correct:
  fixes s :: "'a vmm_scheme"
  assumes vm: "vm_inv s root fs" and tr: "translate (mem s) (hhdmoffset s) root v = Some e"
    and q: "page_ok s (pte_page e)" "pte_page e \<notin> set fs" "pte_page e \<noteq> 0"
    and nt: "\<And>is. idx_path 3 is \<Longrightarrow> table_at (mem s) (hhdmoffset s) root is \<noteq> Some (pte_page e + hhdmoffset s)"
  shows "\<exists>s'. vmm_free_page root v s = Ret () s' \<and> vm_inv s' root (pte_page e # fs) \<and> vm_frame s s'
     \<and> translate (mem s') (hhdmoffset s) root v = None
     \<and> (\<forall>w. \<not> same_page v w \<longrightarrow>
          translate (mem s') (hhdmoffset s) root w = translate (mem s) (hhdmoffset s) root w)"
proof -
  let ?h = "hhdmoffset s" and ?q = "pte_page e"
  have ex: "table_at (mem s) ?h root (path3 v) \<noteq> None"
    using tr by (auto simp: translate_def split: option.splits)
  obtain pdp pd pt s1 s2 s3 fs3 where w: "get_lower_table root (pml4_offset v) s = Ret pdp s1" "pdp \<noteq> 0"
    "get_lower_table pdp (pdp_offset v) s1 = Ret pd s2" "pd \<noteq> 0"
    "get_lower_table pd (pd_offset v) s2 = Ret pt s3" "pt \<noteq> 0" "walked root True s fs s3 fs3 3"
    "table_at (mem s3) (hhdmoffset s3) root (path3 v) = Some pt"
    by (rule three_walks [OF vm, of True v]) (use ex in auto)
  have [simp]: "s3 = s" using w(7) by (simp add: walked_def)
  have ent: "load64 (mem s) (pt + 8 * pt_offset v) = e"
    using tr w(8) by (simp add: translate_def entry_def Let_def split: if_splits)
  have qq: "pte_page ?q = ?q" by (simp add: pte_page_def and.assoc)
  have pm: "pmm_inv s fs" using vm by (simp add: vm_inv_def)
  let ?t = "pmm_pushed s ?q"
  note P = vm_inv_pushed [OF vm q(1,2) qq q(3) nt]
  have tb: "table_at (mem ?t) (hhdmoffset ?t) root (path3 v) = Some pt"
    using P(2) w(8) idx_path3 [of v] unfolding keeps_tables_def by simp
  note L = store_leaf [OF P(1) tb, where e = 0]
  let ?u = "?t\<lparr>mem := store64 (mem ?t) (pt + 8 * pt_offset v) 0\<rparr>"
  have "vmm_free_page root v s = Ret () ?u"
    using w(1-6) ent pmm_free_page(1) [OF pm q(1,2)]
    by (simp add: vmm_free_page_def kseq_cases kbind_cases pte_page_def)
  moreover have "vm_frame s ?u" by (rule vm_frameI) simp
  ultimately show ?thesis using L P(3) by (intro exI [of _ ?u]) simp
qed


section \<open>Allocating kernel memory\<close>

lemma vm_inv_popped:
  assumes "vm_inv s root (p # fs)"
  shows "pmm_alloc s = Ret p (pmm_popped s p)" "vm_inv (pmm_popped s p) root fs" "p \<noteq> 0"
proof -
  have inv: "pmm_inv s (p # fs)" and pt: "pt_inv (mem s) (hhdmoffset s) root (p # fs)"
    using assms by (simp_all add: vm_inv_def)
  show "pmm_alloc s = Ret p (pmm_popped s p)" by (rule pmm_alloc_Cons [OF inv])
  show "p \<noteq> 0" using pt by (simp add: pt_inv_def)
  have "pt_inv (mem s) (hhdmoffset s) root fs" using pt unfolding pt_inv_def by auto
  then show "vm_inv (pmm_popped s p) root fs"
    using pmm_alloc_Cons(2) [OF inv] by (simp add: vm_inv_def)
qed

text \<open>Page-aligned addresses of the higher half are told apart by their table indices.\<close>

definition higher_half :: "u64 \<Rightarrow> bool" where
  "higher_half v \<longleftrightarrow> drop_bit 48 v = 0xffff"

lemma same_page_eq:
  assumes "same_page v w" "aligned 12 v" "aligned 12 w" "higher_half v" "higher_half w"
  shows "v = w"
proof (rule bit_eqI)
  fix n assume "possible_bit TYPE(64 word) n"
  then have n: "n < 64" by simp
  have f: "bit (drop_bit k x AND 0x1ff) (n - k) = bit x n" if "k \<le> n" "n < k + 9" for k and x :: u64
  proof -
    have m: "(0x1ff :: u64) = mask 9" by (simp add: mask_eq_exp_minus_1)
    have "bit (0x1ff :: u64) (n - k)" unfolding m bit_mask_iff using that n by simp arith
    then show ?thesis using that by (simp add: bit_and_iff bit_drop_bit_eq)
  qed
  have eqs: "pml4_offset v = pml4_offset w" "pdp_offset v = pdp_offset w" "pd_offset v = pd_offset w"
    "pt_offset v = pt_offset w" using assms(1) by (simp_all add: same_page_def path3_def)
  consider "n < 12" | "12 \<le> n" "n < 12 + 9" | "21 \<le> n" "n < 21 + 9" | "30 \<le> n" "n < 30 + 9"
    | "39 \<le> n" "n < 39 + 9" | "48 \<le> n" by linarith
  then show "bit v n = bit w n"
  proof cases
    case 1
    have "bit x n = bit (take_bit 12 x) n" for x :: u64 using 1 by (simp add: bit_take_bit_iff)
    then show ?thesis using assms(2,3) unfolding aligned_def by metis
  next
    case 6
    have "bit x n = bit (drop_bit 48 x) (n - 48)" for x :: u64 using 6 by (simp add: bit_drop_bit_eq)
    then show ?thesis using assms(4,5) unfolding higher_half_def by metis
  qed (use f eqs in \<open>metis pml4_offset_def pdp_offset_def pd_offset_def pt_offset_def\<close>)+
qed


text \<open>The pages \<open>ps\<close> still to be taken cover the bytes from \<open>i\<close> up to \<open>sz\<close> exactly.\<close>

definition covers :: "u64 list \<Rightarrow> u64 \<Rightarrow> u64 \<Rightarrow> bool" where
  "covers ps i sz \<longleftrightarrow> unat sz \<le> unat i + 4096 * length ps \<and> (ps \<noteq> [] \<longrightarrow> unat i + 4096 * length ps < unat sz + 4096)
     \<and> unat sz + 4096 < 2 ^ 64"

lemma covers_Cons:
  assumes "covers (p # ps) i sz"
  shows "i < sz" "covers ps (i + PAGE_SIZE) sz"
proof -
  have lt: "unat i < unat sz" and b: "unat sz + 4096 < 2 ^ 64" using assms by (auto simp: covers_def)
  show "i < sz" using lt by (simp add: word_less_nat_alt)
  have "unat (i + PAGE_SIZE) = unat i + 4096"
    using lt b unat_add_nowrap [of i PAGE_SIZE] by (simp add: PAGE_SIZE_def)
  then show "covers ps (i + PAGE_SIZE) sz" using assms by (auto simp: covers_def)
qed

text \<open>
  \<open>direct_mapped root fl ps s s'\<close>: the pages \<open>ps\<close> are mapped at their direct-map
  addresses, and no other page has changed its translation.
\<close>

definition direct_mapped :: "u64 \<Rightarrow> u64 \<Rightarrow> u64 list \<Rightarrow> 'a vmm_scheme \<Rightarrow> 'a vmm_scheme \<Rightarrow> bool" where
  "direct_mapped root fl ps s s' \<longleftrightarrow>
     (\<forall>p \<in> set ps. translate (mem s') (hhdmoffset s) root (p + hhdmoffset s) = Some (p OR (PTE_BIT_PRESENT OR fl)))
   \<and> (\<forall>w. (\<forall>p \<in> set ps. \<not> same_page (p + hhdmoffset s) w) \<longrightarrow>
        translate (mem s') (hhdmoffset s) root w = translate (mem s) (hhdmoffset s) root w)"

lemma direct_mapped_Cons:
  assumes "mapped_only root (p + hhdmoffset s) (Some (p OR (PTE_BIT_PRESENT OR fl))) s t"
    "direct_mapped root fl ps t u" "hhdmoffset t = hhdmoffset s"
    "\<forall>q \<in> set ps. \<not> same_page (q + hhdmoffset s) (p + hhdmoffset s)"
  shows "direct_mapped root fl (p # ps) s u"
  using assms by (auto simp: direct_mapped_def mapped_only_def)

lemma kernel_allocate_step:
  assumes vm: "vm_inv s root (p # fs)" and lk: "\<not> locks s page_table_lock" "kernel_page_map s = root"
    and tb: "table_at (mem s) (hhdmoffset s) root (path3 (p + hhdmoffset s)) \<noteq> None" and i: "i < sz"
  obtains t where "kernel_allocate_round sz fl (i, r) s = Ret (Inl (i + PAGE_SIZE, p)) t"
    "vm_inv t root fs" "vm_frame s t" "keeps_tables root s t"
    "mapped_only root (p + hhdmoffset s) (Some (p OR (PTE_BIT_PRESENT OR fl))) s t"
proof -
  note P = vm_inv_popped [OF vm]
  let ?s1 = "pmm_popped s p" and ?e = "p OR (PTE_BIT_PRESENT OR fl)"
  have "?e AND 1 = 1" by (rule bit_eqI) (auto simp: bit_simps PTE_BIT_PRESENT_def bit_1_iff)
  then have pr: "present ?e" by (simp add: present_def PTE_BIT_PRESENT_def)
  obtain t fs' used where t: "vmm_map_page root (p + hhdmoffset s) p (PTE_BIT_PRESENT OR fl) ?s1 = Ret () t"
    "fs = used @ fs'" "used = []" "vm_inv t root fs'" "vm_frame ?s1 t" "keeps_tables root ?s1 t"
    "mapped_only root (p + hhdmoffset s) (Some ?e) ?s1 t"
    using vmm_map_page_ok [OF P(2) _ pr, of "p + hhdmoffset s"] lk tb by auto
  have "vm_frame s ?s1" by (rule vm_frameI) simp
  then have "vm_frame s t" using t(5) vm_frame_trans by blast
  moreover have "kernel_allocate_round sz fl (i, r) s = Ret (Inl (i + PAGE_SIZE, p)) t"
    using P(1,3) t(1) lk(2) i by (simp add: kbind_cases kseq_cases)
  moreover have "keeps_tables root s t" "mapped_only root (p + hhdmoffset s) (Some ?e) s t"
    using t(6,7) by (simp_all add: keeps_tables_def mapped_only_def)
  ultimately show ?thesis using that t(2,3,4) by simp
qed

lemma kernel_allocate_loop:
  fixes s :: "'a vmm_scheme"
  assumes "vm_inv s root (ps @ fs)" "covers ps i sz" "\<not> locks s page_table_lock" "kernel_page_map s = root"
    and "\<forall>p \<in> set ps. higher_half (p + hhdmoffset s)
      \<and> table_at (mem s) (hhdmoffset s) root (path3 (p + hhdmoffset s)) \<noteq> None"
  shows "\<exists>s'. kloop (kernel_allocate_round sz fl) (i, r) s = Ret (last (r # ps) + hhdmoffset s) s'
     \<and> vm_inv s' root fs \<and> vm_frame s s' \<and> direct_mapped root fl ps s s'"
  using assms
proof (induction ps arbitrary: i r s)
  case Nil
  then have "\<not> i < sz" by (simp add: covers_def word_less_nat_alt)
  then have "kloop (kernel_allocate_round sz fl) (i, r) s = Ret (r + hhdmoffset s) s"
    by (simp add: kloop_step kbind_cases)
  then show ?case using Nil by (intro exI [of _ s]) (simp add: direct_mapped_def)
next
  case (Cons p ps)
  note cov = covers_Cons [OF Cons.prems(2)]
  obtain t where t: "kernel_allocate_round sz fl (i, r) s = Ret (Inl (i + PAGE_SIZE, p)) t"
    "vm_inv t root (ps @ fs)" "vm_frame s t" "keeps_tables root s t"
    "mapped_only root (p + hhdmoffset s) (Some (p OR (PTE_BIT_PRESENT OR fl))) s t"
    by (rule kernel_allocate_step [of s root p "ps @ fs" i sz fl r]) (use Cons.prems cov(1) in auto)
  note F = vm_frame_fields [OF t(3)]
  have tabs: "table_at (mem t) (hhdmoffset s) root (path3 v) \<noteq> None"
    if "table_at (mem s) (hhdmoffset s) root (path3 v) \<noteq> None" for v
    using t(4) that F(1) idx_path3 [of v] unfolding keeps_tables_def by fastforce
  have "\<exists>s'. kloop (kernel_allocate_round sz fl) (i + PAGE_SIZE, p) t = Ret (last (p # ps) + hhdmoffset t) s'
     \<and> vm_inv s' root fs \<and> vm_frame t s' \<and> direct_mapped root fl ps t s'"
    by (rule Cons.IH [OF t(2) cov(2)]) (use Cons.prems(3-5) F tabs in auto)
  then obtain u where u: "kloop (kernel_allocate_round sz fl) (i + PAGE_SIZE, p) t = Ret (last (p # ps) + hhdmoffset t) u"
    "vm_inv u root fs" "vm_frame t u" "direct_mapped root fl ps t u" by blast
  have pm: "pmm_inv s (p # ps @ fs)" using Cons.prems(1) by (simp add: vm_inv_def)
  have "\<not> same_page (q + hhdmoffset s) (p + hhdmoffset s)" if "q \<in> set ps" for q
  proof
    assume "same_page (q + hhdmoffset s) (p + hhdmoffset s)"
    then have "q + hhdmoffset s = p + hhdmoffset s"
      by (rule same_page_eq) (use that Cons.prems(5) free_page_aligned [OF pm] in auto)
    then show False using that pm by (auto simp: pmm_inv_def)
  qed
  then have "direct_mapped root fl (p # ps) s u" using direct_mapped_Cons [OF t(5) u(4) F(1)] by blast
  moreover have "kloop (kernel_allocate_round sz fl) (i, r) s = Ret (last (r # p # ps) + hhdmoffset s) u"
    using u(1) F(1) by (simp add: kloop_step(1) [of "kernel_allocate_round sz fl", OF t(1)])
  ultimately show ?case using u(2,3) t(3) vm_frame_trans by blast
qed


definition descending :: "u64 list \<Rightarrow> bool" where
  "descending ps \<longleftrightarrow> (\<forall>k. Suc k < length ps \<longrightarrow> ps ! k = ps ! Suc k + PAGE_SIZE)"

lemma descending_nth:
  assumes "descending ps" "k < length ps"
  shows "last ps + of_nat k * PAGE_SIZE = ps ! (length ps - Suc k)"
  using assms(2)
proof (induction k)
  case 0
  then show ?case by (simp add: last_conv_nth)
next
  case (Suc k)
  let ?j = "length ps - Suc (Suc k)"
  have "ps ! ?j = ps ! Suc ?j + PAGE_SIZE" using assms(1) Suc.prems by (auto simp: descending_def)
  moreover have "Suc ?j = length ps - Suc k" using Suc.prems by simp
  ultimately show ?case using Suc by (simp add: algebra_simps)
qed

text \<open>
  \<open>kernel_allocate_memory\<close> maps as many free pages as the size needs, at their
  direct-map addresses and with the requested flags, changes no other translation, and
  returns the address of the last page taken. When the free list hands the pages out in
  descending order, that address starts a mapped block that covers the whole request.
\<close>

theorem kernel_allocate_memory_maps:
  fixes s :: "'a vmm_scheme"
  assumes "vm_inv s root (ps @ fs)" "sz \<noteq> 0" "covers ps 0 sz" "\<not> locks s page_table_lock"
    "kernel_page_map s = root"
    and "\<forall>p \<in> set ps. higher_half (p + hhdmoffset s)
      \<and> table_at (mem s) (hhdmoffset s) root (path3 (p + hhdmoffset s)) \<noteq> None"
  shows "\<exists>s'. kernel_allocate_memory sz fl s = Ret (last ps + hhdmoffset s) s'
     \<and> vm_inv s' root fs \<and> vm_frame s s' \<and> direct_mapped root fl ps s s'
     \<and> (descending ps \<longrightarrow> unat sz \<le> 4096 * length ps \<and> (\<forall>k < length ps.
          translate (mem s') (hhdmoffset s) root (last ps + hhdmoffset s + of_nat k * PAGE_SIZE)
            = Some ((last ps + of_nat k * PAGE_SIZE) OR (PTE_BIT_PRESENT OR fl))))"
proof -
  have ne: "ps \<noteq> []"
  proof
    assume "ps = []"
    then have "unat sz = 0" using assms(3) by (simp add: covers_def)
    then show False using assms(2) by (simp add: unat_eq_zero)
  qed
  obtain s' where s': "kloop (kernel_allocate_round sz fl) (0, 0) s = Ret (last (0 # ps) + hhdmoffset s) s'"
    "vm_inv s' root fs" "vm_frame s s'" "direct_mapped root fl ps s s'"
    using kernel_allocate_loop [OF assms(1,3-6), of fl 0] by blast
  have "translate (mem s') (hhdmoffset s) root (last ps + hhdmoffset s + of_nat k * PAGE_SIZE)
      = Some ((last ps + of_nat k * PAGE_SIZE) OR (PTE_BIT_PRESENT OR fl))"
    if "descending ps" "k < length ps" for k
  proof -
    have "last ps + of_nat k * PAGE_SIZE \<in> set ps" using descending_nth [OF that] that(2) by simp
    then have "translate (mem s') (hhdmoffset s) root (last ps + of_nat k * PAGE_SIZE + hhdmoffset s)
        = Some ((last ps + of_nat k * PAGE_SIZE) OR (PTE_BIT_PRESENT OR fl))"
      using s'(4) unfolding direct_mapped_def by blast
    moreover have "last ps + hhdmoffset s + of_nat k * PAGE_SIZE = last ps + of_nat k * PAGE_SIZE + hhdmoffset s"
      by (simp only: ac_simps)
    ultimately show ?thesis by metis
  qed
  moreover have "unat sz \<le> 4096 * length ps" using assms(3) by (simp add: covers_def)
  ultimately show ?thesis
    using s' ne assms(2) by (intro exI [of _ s']) (simp add: kernel_allocate_memory_def)
qed

section \<open>Concrete page tables\<close>

text \<open>An empty top-level table, and the same with a path of three tables and one page.\<close>

definition vm_boot :: "mem \<Rightarrow> u64 \<Rightarrow> u64 \<Rightarrow> vmm" where
  "vm_boot m fl c = pmm.extend ((boot_state [])\<lparr>mem := m, free_list := fl, pmm_free_page_count := c\<rparr>)
     (vmm.fields 0xffff800000001000)"

abbreviation ex_h :: u64 where "ex_h \<equiv> 0xffff800000000000"
abbreviation ex_root :: u64 where "ex_root \<equiv> 0xffff800000001000"

definition three_free :: mem where
  "three_free = store64 (store64 (\<lambda>_. 0) (ex_h + 0x4000) (ex_h + 0x3000)) (ex_h + 0x3000) (ex_h + 0x2000)"

lemma pt_inv_fresh:
  assumes "\<And>i. i < 512 \<Longrightarrow> \<not> present (entry m root i)" "aligned 12 root" "root \<noteq> 0" "root - h \<notin> set fs"
    "\<forall>p \<in> set fs. pte_page p = p \<and> p \<noteq> 0"
  shows "pt_inv m h root fs"
proof -
  have "table_at m h root is = (if is = [] then Some root else None)" if "idx_path 3 is" for "is"
    using that assms(1) by (cases "is") (auto simp: idx_path_def lower_def)
  then show ?thesis unfolding pt_inv_def using assms(2-5) by (auto split: if_splits)
qed

lemma three_free_vm_inv: "vm_inv (vm_boot three_free (ex_h + 0x4000) 3) ex_root [0x4000, 0x3000, 0x2000]"
proof -
  let ?m1 = "store64 (\<lambda>_. 0) (ex_h + 0x4000) (ex_h + 0x3000)"
  have d: "aligned 12 (ex_h + 0x4000)" "aligned 12 (ex_h + 0x3000)" "aligned 12 ex_root" by (simp_all add: aligned_def)
  have z: "entry (\<lambda>_. 0) t i = 0" for t i unfolding entry_def by (rule load64_zero) simp
  have "\<not> present (entry three_free ex_root i)" if "i < 512" for i
    using entry_store [OF d(2) d(3) _ that, of 0 ?m1] entry_store [OF d(1) d(3) _ that, of 0 "\<lambda>_. 0"] z
    by (simp add: three_free_def)
  then have "pt_inv three_free ex_h ex_root [0x4000, 0x3000, 0x2000]"
    by (rule pt_inv_fresh) (use d in \<open>simp_all add: pte_page_def\<close>)
  moreover have "load64 three_free (ex_h + 0x4000) = ex_h + 0x3000" "load64 three_free (ex_h + 0x3000) = ex_h + 0x2000"
    using entry_store [OF d(2) d(1), of 0 0 ?m1] by (simp_all add: three_free_def entry_def)
  ultimately show ?thesis
    by (simp add: vm_inv_def pmm_inv_def page_ok_def vm_boot_def boot_state_def pmm.defs vmm.defs aligned_def)
qed

theorem vmm_map_page_correct_witness:
  "\<exists>s'. vmm_map_page ex_root 0xffffffff80200000 0x7000 3 (vm_boot three_free (ex_h + 0x4000) 3) = Ret () s'
     \<and> translate (mem s') ex_h ex_root 0xffffffff80200000 = Some 0x7003"
proof -
  have "present (0x7000 OR 3)" by (simp add: present_def PTE_BIT_PRESENT_def)
  from vmm_map_page_correct [OF three_free_vm_inv _ this, where v = "0xffffffff80200000"]
  show ?thesis by (auto simp: vm_boot_def boot_state_def pmm.defs vmm.defs)
qed


text \<open>The tables that cover the first two megabytes of the direct map, and two free pages.\<close>

definition two_free :: mem where
  "two_free = store64 (\<lambda>_. 0) (ex_h + 0x8000) (ex_h + 0x7000)"

definition direct_tables :: mem where
  "direct_tables = linked (linked (linked two_free ex_h ex_root 256 0x2000) ex_h (ex_h + 0x2000) 0 0x3000)
     ex_h (ex_h + 0x3000) 0 0x4000"

lemma two_free_entry:
  assumes "aligned 12 t" "i < 512"
  shows "entry two_free t i = (if t = ex_h + 0x8000 \<and> i = 0 then ex_h + 0x7000 else 0)"
proof -
  have "entry (\<lambda>_. 0) t i = 0" unfolding entry_def by (rule load64_zero) simp
  then show ?thesis
    using entry_store [of "ex_h + 0x8000" t 0 i "\<lambda>_. 0"] assms by (auto simp: two_free_def aligned_def)
qed

text \<open>Linking one more table at the end of a path.\<close>

lemma link_next:
  assumes "pt_inv m h root (p # fs)" "table_at m h root ps = Some t" "idx_path 2 ps" "i < 512"
    "entry m t i = 0" "aligned 12 (p + h)" "p + h \<noteq> 0" "p \<notin> set fs"
  shows "pt_inv (linked m h t i p) h root fs" "table_at (linked m h t i p) h root (ps @ [i]) = Some (p + h)"
    "\<And>u j. aligned 12 u \<Longrightarrow> j < 512 \<Longrightarrow> u \<noteq> t \<Longrightarrow> entry (linked m h t i p) u j = (if p + h = u then 0 else entry m u j)"
proof -
  have L: "link_pre m h root fs ps t i p" using assms by (simp add: link_pre_def)
  then show "pt_inv (linked m h t i p) h root fs" by (rule pt_inv_linked)
  have "idx_path 3 (ps @ [i])" using assms(3,4) by (auto simp: idx_path_def)
  then show "table_at (linked m h t i p) h root (ps @ [i]) = Some (p + h)" using table_at_linked [OF L] by simp
  show "entry (linked m h t i p) u j = (if p + h = u then 0 else entry m u j)"
    if "aligned 12 u" "j < 512" "u \<noteq> t" for u j
    using entry_linked [OF L that(1,2)] that(3) by auto
qed

lemma direct_tables_pt:
  "pt_inv direct_tables ex_h ex_root [0x8000, 0x7000]"
  "table_at direct_tables ex_h ex_root [256, 0, 0] = Some (ex_h + 0x4000)"
  "load64 direct_tables (ex_h + 0x8000) = ex_h + 0x7000"
proof -
  have al: "aligned 12 ex_root" "aligned 12 (0x2000 + ex_h)" "aligned 12 (0x3000 + ex_h)"
    "aligned 12 (0x4000 + ex_h)" "aligned 12 (0x8000 + ex_h)" by (simp_all add: aligned_def)
  let ?m1 = "linked two_free ex_h ex_root 256 0x2000"
  let ?m2 = "linked ?m1 ex_h (0x2000 + ex_h) 0 0x3000"
  have "\<not> present (entry two_free ex_root i)" if "i < 512" for i using two_free_entry [OF al(1) that] by simp
  then have 0: "pt_inv two_free ex_h ex_root [0x2000, 0x3000, 0x4000, 0x8000, 0x7000]"
    by (rule pt_inv_fresh) (use al in \<open>simp_all add: pte_page_def\<close>)
  have 1: "pt_inv ?m1 ex_h ex_root [0x3000, 0x4000, 0x8000, 0x7000]"
    "table_at ?m1 ex_h ex_root ([] @ [256]) = Some (0x2000 + ex_h)"
    "\<And>u j. aligned 12 u \<Longrightarrow> j < 512 \<Longrightarrow> u \<noteq> ex_root \<Longrightarrow> entry ?m1 u j = (if 0x2000 + ex_h = u then 0 else entry two_free u j)"
    by (rule link_next [OF 0, where ps = "[]"]; use two_free_entry [OF al(1)] al in \<open>simp add: idx_path_def\<close>)+
  have e1: "entry ?m1 (0x2000 + ex_h) 0 = 0" using 1(3) [OF al(2), of 0] by simp
  have 2: "pt_inv ?m2 ex_h ex_root [0x4000, 0x8000, 0x7000]"
    "table_at ?m2 ex_h ex_root ([256] @ [0]) = Some (0x3000 + ex_h)"
    "\<And>u j. aligned 12 u \<Longrightarrow> j < 512 \<Longrightarrow> u \<noteq> 0x2000 + ex_h \<Longrightarrow> entry ?m2 u j = (if 0x3000 + ex_h = u then 0 else entry ?m1 u j)"
    by (rule link_next [OF 1(1), where ps = "[256]"]; use 1(2) e1 al in \<open>simp add: idx_path_def\<close>)+
  have e2: "entry ?m2 (0x3000 + ex_h) 0 = 0" using 2(3) [OF al(3), of 0] by simp
  let ?m3 = "linked ?m2 ex_h (0x3000 + ex_h) 0 0x4000"
  have m3: "direct_tables = ?m3" by (simp add: direct_tables_def)
  have 3: "pt_inv ?m3 ex_h ex_root [0x8000, 0x7000]"
    "table_at ?m3 ex_h ex_root ([256, 0] @ [0]) = Some (0x4000 + ex_h)"
    "\<And>u j. aligned 12 u \<Longrightarrow> j < 512 \<Longrightarrow> u \<noteq> 0x3000 + ex_h \<Longrightarrow> entry ?m3 u j = (if 0x4000 + ex_h = u then 0 else entry ?m2 u j)"
    by (rule link_next [OF 2(1), where ps = "[256, 0]"]; use 2(2) e2 al in \<open>simp add: idx_path_def\<close>)+
  then show "pt_inv direct_tables ex_h ex_root [0x8000, 0x7000]"
    "table_at direct_tables ex_h ex_root [256, 0, 0] = Some (ex_h + 0x4000)" by (simp_all add: m3)
  have "entry ?m3 (0x8000 + ex_h) 0 = entry two_free (0x8000 + ex_h) 0"
    using 3(3) [OF al(5), of 0] 2(3) [OF al(5), of 0] 1(3) [OF al(5), of 0] by simp
  then show "load64 direct_tables (ex_h + 0x8000) = ex_h + 0x7000"
    using two_free_entry [OF al(5), of 0] by (simp add: m3 entry_def)
qed

definition direct_state :: vmm where
  "direct_state = vm_boot direct_tables (ex_h + 0x8000) 2"

lemma direct_state_simps [simp]:
  "mem direct_state = direct_tables" "hhdmoffset direct_state = ex_h" "kernel_page_map direct_state = ex_root"
  "locks direct_state = (\<lambda>_. False)" "free_list direct_state = ex_h + 0x8000"
  by (simp_all add: direct_state_def vm_boot_def boot_state_def pmm.defs vmm.defs)

lemma direct_state_vm_inv: "vm_inv direct_state ex_root [0x8000, 0x7000]"
  using direct_tables_pt
  by (simp add: vm_inv_def pmm_inv_def page_ok_def direct_state_def vm_boot_def boot_state_def pmm.defs
      vmm.defs aligned_def)

lemma direct_path: "path3 (ex_h + 0x8000) = [256, 0, 0]" "path3 (ex_h + 0x7000) = [256, 0, 0]"
  by (simp_all add: path3_def pml4_offset_def pdp_offset_def pd_offset_def)

theorem kernel_allocate_memory_maps_witness:
  "\<exists>s'. kernel_allocate_memory 0x1800 PTE_BIT_RW direct_state = Ret (ex_h + 0x7000) s'
     \<and> vm_inv s' ex_root []
     \<and> translate (mem s') ex_h ex_root (ex_h + 0x7000) = Some 0x7003
     \<and> translate (mem s') ex_h ex_root (ex_h + 0x8000) = Some 0x8003"
proof -
  have "descending [0x8000, 0x7000]" by (simp add: descending_def PAGE_SIZE_def)
  moreover have "covers [0x8000, 0x7000] 0 0x1800" by (simp add: covers_def)
  ultimately show ?thesis
    using kernel_allocate_memory_maps [of direct_state ex_root "[0x8000, 0x7000]" "[]" "0x1800" PTE_BIT_RW]
      direct_state_vm_inv direct_tables_pt(2) direct_path
    by (auto simp: higher_half_def direct_mapped_def PTE_BIT_PRESENT_def PTE_BIT_RW_def)
qed

text \<open>A page mapped in that table, taken from the free list.\<close>

definition leaf_state :: vmm where
  "leaf_state = direct_state\<lparr>mem := store64 direct_tables (ex_h + 0x4000 + 8 * pt_offset (ex_h + 0x8000)) 0x8003\<rparr>"

theorem vmm_free_page_correct_witness:
  "\<exists>s'. vmm_free_page ex_root (ex_h + 0x8000) (pmm_popped leaf_state 0x8000) = Ret () s'
     \<and> translate (mem s') ex_h ex_root (ex_h + 0x8000) = None \<and> vm_inv s' ex_root [0x8000, 0x7000]"
proof -
  have tb: "table_at (mem direct_state) (hhdmoffset direct_state) ex_root (path3 (ex_h + 0x8000)) = Some (ex_h + 0x4000)"
    using direct_tables_pt(2) direct_path by simp
  note L = store_leaf [OF direct_state_vm_inv tb, where e = "0x8003"]
  have vm: "vm_inv leaf_state ex_root [0x8000, 0x7000]" and h: "hhdmoffset leaf_state = ex_h"
    using L(1) by (simp_all add: leaf_state_def)
  have tr: "translate (mem leaf_state) ex_h ex_root (ex_h + 0x8000) = Some 0x8003"
    using L(3) by (simp add: leaf_state_def present_def PTE_BIT_PRESENT_def)
  have nt: "table_at (mem leaf_state) ex_h ex_root is \<noteq> Some (0x8000 + ex_h)" if "idx_path 3 is" for "is"
    using table_not_free [OF _ that, of "mem leaf_state" ex_h ex_root "[0x8000, 0x7000]" _ "0x8000"] vm h
    by (auto simp: vm_inv_def)
  have q: "pte_page 0x8003 = 0x8000" by (simp add: pte_page_def)
  show ?thesis
    using vmm_free_page_correct [OF vm_inv_popped(2) [OF vm], of "ex_h + 0x8000" "0x8003"] tr nt
    by (auto simp: q h page_ok_def aligned_def)
qed

end
