(* ===== verification/Kmalloc.thy ===== *)
theory Kmalloc
  imports Vmm
begin

text \<open>
  The kernel heap of \<^verbatim>\<open>src/mm/kmalloc.c\<close>: an array of 512 block descriptors of 16
  bytes each in kernel memory. The contract proved is what the code does: after
  initialisation only block 0 is ever used, so every allocation that succeeds returns the
  start of the heap.
\<close>

section \<open>State and operations\<close>

definition KERNEL_MAX_BLOCK :: nat where "KERNEL_MAX_BLOCK = 512"
definition KERNEL_HEAP_SIZE :: u64 where "KERNEL_HEAP_SIZE = 0x10000000"
definition sizeof_block_t :: nat where "sizeof_block_t = 16"

record heap = vmm +
  heap_base :: u64
  heap_addr :: u64

text \<open>The fields of \<open>base[i]\<close>: \<open>addr\<close> at 0, \<open>size\<close> at 8, \<open>free\<close> at 12.\<close>

definition block_addr :: "mem \<Rightarrow> u64 \<Rightarrow> nat \<Rightarrow> u64" where
  "block_addr m b i = load64 m (b + of_nat (16 * i))"

definition block_size :: "mem \<Rightarrow> u64 \<Rightarrow> nat \<Rightarrow> u32" where
  "block_size m b i = load32 m (b + of_nat (16 * i + 8))"

definition block_free :: "mem \<Rightarrow> u64 \<Rightarrow> nat \<Rightarrow> bool" where
  "block_free m b i \<longleftrightarrow> m (b + of_nat (16 * i + 12)) \<noteq> 0"

definition set_block_addr :: "u64 \<Rightarrow> nat \<Rightarrow> u64 \<Rightarrow> ('a machine_scheme, unit) kern" where
  "set_block_addr b i v = mstore64 (b + of_nat (16 * i)) v"

definition set_block_size :: "u64 \<Rightarrow> nat \<Rightarrow> u32 \<Rightarrow> ('a machine_scheme, unit) kern" where
  "set_block_size b i v = mstore32 (b + of_nat (16 * i + 8)) v"

definition set_block_free :: "u64 \<Rightarrow> nat \<Rightarrow> bool \<Rightarrow> ('a machine_scheme, unit) kern" where
  "set_block_free b i v = mstore8 (b + of_nat (16 * i + 12)) (if v then 1 else 0)"

definition kernel_heap_init :: "('a heap_scheme, unit) kern" where
  "kernel_heap_init =
     kbind (kernel_allocate_memory (of_nat (KERNEL_MAX_BLOCK * sizeof_block_t)) (PTE_BIT_RW OR PTE_BIT_NX)) (\<lambda>b.
     kseq (kmod (\<lambda>s. s\<lparr>heap_base := b\<rparr>))
    (kseq (kif (b = 0) (kseq (klog LOG_ERROR ''kernel_heap_init''
             ''Failed to allocate memory for kernel heap blocks'') kkill))
    (kseq (memset b 0 (of_nat (KERNEL_MAX_BLOCK * sizeof_block_t)))
    (kbind (kernel_allocate_memory KERNEL_HEAP_SIZE (PTE_BIT_RW OR PTE_BIT_NX)) (\<lambda>h.
     kseq (kmod (\<lambda>s. s\<lparr>heap_addr := h\<rparr>))
    (kseq (kif (h = 0) (kseq (klog LOG_ERROR ''kernel_heap_init''
             ''Failed to allocate memory for the kernel heap'') kkill))
          (set_block_free b 0 True)))))))"

text \<open>The first loop of \<open>kmalloc\<close>: a free block that fits is taken.\<close>

definition kmalloc_reuse :: "u64 \<Rightarrow> u64 \<Rightarrow> nat \<Rightarrow> ('a heap_scheme, u64 option) kern" where
  "kmalloc_reuse b sz i =
     kbind (kget (\<lambda>s. block_addr (mem s) b i \<noteq> 0 \<and> block_free (mem s) b i
                     \<and> sz \<le> ucast (block_size (mem s) b i))) (\<lambda>fits.
     if fits then kseq (set_block_free b i False)
                       (kget (\<lambda>s. Some (block_addr (mem s) b i)))
     else kret None)"

text \<open>The scan for the next block, bound check inside the loop body as in the source.\<close>

function kmalloc_scan :: "mem \<Rightarrow> u64 \<Rightarrow> nat \<Rightarrow> nat option" where
  "kmalloc_scan m b i =
     (if \<not> block_free m b i \<and> block_addr m b i = 0
      then if i > KERNEL_MAX_BLOCK then None else kmalloc_scan m b (i + 1)
      else Some i)"
  by pat_completeness auto
termination
  by (relation "measure (\<lambda>(m, b, i). KERNEL_MAX_BLOCK + 1 - i)") auto

declare kmalloc_scan.simps [simp del]

text \<open>The address offset: the sizes of the blocks before \<open>i\<close>.\<close>

fun kmalloc_offset :: "mem \<Rightarrow> u64 \<Rightarrow> u64 \<Rightarrow> nat list \<Rightarrow> u64 \<Rightarrow> u64 option" where
  "kmalloc_offset m b heap [] addr = Some addr"
| "kmalloc_offset m b heap (j # js) addr =
     (if addr > heap + KERNEL_HEAP_SIZE then None
      else kmalloc_offset m b heap js (addr + ucast (block_size m b j)))"

definition kmalloc :: "u64 \<Rightarrow> ('a heap_scheme, u64) kern" where
  "kmalloc sz =
     kbind (kget heap_base) (\<lambda>b.
     kseq (deref b)
    (kbind (kfor_ret [0..<KERNEL_MAX_BLOCK] (kmalloc_reuse b sz)) (\<lambda>r. case r of
       Some a \<Rightarrow> kret a
     | None \<Rightarrow>
         kbind (kget (\<lambda>s. kmalloc_scan (mem s) b 0)) (\<lambda>slot. case slot of
           None \<Rightarrow> kret 0
         | Some i \<Rightarrow>
             kbind (kget (\<lambda>s. kmalloc_offset (mem s) b (heap_addr s) [0..<i] (heap_addr s))) (\<lambda>off. case off of
               None \<Rightarrow> kret 0
             | Some addr \<Rightarrow>
                 kseq (memset addr 0 sz)
                (kseq (set_block_addr b i addr)
                (kseq (set_block_free b i False)
                (kseq (set_block_size b i (ucast sz))
                      (kret addr)))))))))"

definition kfree_block :: "u64 \<Rightarrow> u64 \<Rightarrow> nat \<Rightarrow> ('a heap_scheme, unit option) kern" where
  "kfree_block b addr i =
     kbind (kget (\<lambda>s. block_addr (mem s) b i = addr)) (\<lambda>found.
     if found then kseq (set_block_free b i True)
                  (kbind (kget (\<lambda>s. (block_addr (mem s) b i, block_size (mem s) b i))) (\<lambda>(a, n).
                   kseq (memset a 0 (ucast n)) (kret (Some ()))))
     else kret None)"

definition kfree :: "u64 \<Rightarrow> ('a heap_scheme, unit) kern" where
  "kfree addr =
     kbind (kget heap_base) (\<lambda>b.
     kseq (deref b)
    (kbind (kfor_ret [0..<KERNEL_MAX_BLOCK] (kfree_block b addr)) (\<lambda>r. case r of
       Some _ \<Rightarrow> kret ()
     | None \<Rightarrow> kseq (kprintf (''kfree: attempted to free non-heap address!'' @ nl) []) kkill)))"

fun find_block :: "mem \<Rightarrow> u64 \<Rightarrow> u64 \<Rightarrow> nat list \<Rightarrow> nat option" where
  "find_block m b addr [] = None"
| "find_block m b addr (i # is) = (if block_addr m b i = addr then Some i else find_block m b addr is)"

definition is_last_block :: "mem \<Rightarrow> u64 \<Rightarrow> nat \<Rightarrow> bool" where
  "is_last_block m b i \<longleftrightarrow> (\<forall>j \<in> set [i + 1..<KERNEL_MAX_BLOCK]. block_addr m b j = 0)"

text \<open>The tail of \<open>krealloc\<close>: a new block, a copy, the old block freed.\<close>

definition krealloc_move :: "u64 \<Rightarrow> u64 \<Rightarrow> u64 \<Rightarrow> ('a heap_scheme, u64) kern" where
  "krealloc_move addr old_size sz =
     kbind (kmalloc sz) (\<lambda>new_ptr.
     if new_ptr = 0 then kret 0
     else kseq (memcpy new_ptr addr old_size) (kseq (kfree addr) (kret new_ptr)))"

definition krealloc :: "u64 \<Rightarrow> u64 \<Rightarrow> ('a heap_scheme, u64) kern" where
  "krealloc addr sz =
     (if addr = 0 then kmalloc sz
      else if sz = 0 then kseq (kfree addr) (kret 0)
      else kbind (kget heap_base) (\<lambda>b. kseq (deref b)
          (kbind (kget (\<lambda>s. find_block (mem s) b addr [0..<KERNEL_MAX_BLOCK])) (\<lambda>blk. case blk of
             None \<Rightarrow> kseq (kprintf (''krealloc: attempted to realloc non-heap address!'' @ nl) []) kkill
           | Some i \<Rightarrow>
               kbind (kget (\<lambda>s. ucast (block_size (mem s) b i))) (\<lambda>old_size.
               if sz \<le> old_size then kret addr
               else kbind (kget (\<lambda>s. is_last_block (mem s) b i)) (\<lambda>is_last.
                    kbind (kget (\<lambda>s. (block_addr (mem s) b i + ucast (block_size (mem s) b i),
                                     heap_addr s + KERNEL_HEAP_SIZE))) (\<lambda>(current_end, heap_end).
                    if is_last \<and> sz - old_size \<le> heap_end - current_end
                    then kseq (set_block_size b i (ucast sz)) (kret addr)
                    else krealloc_move addr old_size sz)))))))"

section \<open>Block descriptors in memory\<close>

lemma block_field_disj:
  assumes "(i, p) \<noteq> (j, q)" "i < 1024" "j < 1024" "p + n \<le> q \<or> q + k \<le> p \<or> (i \<noteq> j \<and> p + n \<le> 16 \<and> q + k \<le> 16)"
    "p + n \<le> 16" "q + k \<le> 16"
  shows "disj_mem (b + of_nat (16 * i + p)) n (b + of_nat (16 * j + q)) k"
proof (rule disj_off)
  consider "i = j" | "Suc i \<le> j" | "Suc j \<le> i" by linarith
  then show "16 * i + p + n \<le> 16 * j + q \<or> 16 * j + q + k \<le> 16 * i + p"
    using assms(4-6) by cases auto
qed (use assms in auto)

lemma block_stores:
  assumes "i < 1024" "j < 1024"
  shows "block_addr (store64 m (b + of_nat (16 * i)) v) b j = (if i = j then v else block_addr m b j)"
    "block_size (store64 m (b + of_nat (16 * i)) v) b j = block_size m b j"
    "block_free (store64 m (b + of_nat (16 * i)) v) b j = block_free m b j"
    "block_addr (store32 m (b + of_nat (16 * i + 8)) w) b j = block_addr m b j"
    "block_size (store32 m (b + of_nat (16 * i + 8)) w) b j = (if i = j then w else block_size m b j)"
    "block_free (store32 m (b + of_nat (16 * i + 8)) w) b j = block_free m b j"
    "block_addr (m(b + of_nat (16 * i + 12) := c)) b j = block_addr m b j"
    "block_size (m(b + of_nat (16 * i + 12) := c)) b j = block_size m b j"
    "block_free (m(b + of_nat (16 * i + 12) := c)) b j = (if i = j then c \<noteq> 0 else block_free m b j)"
proof -
  note d = block_field_disj [OF _ assms, where b = b]
  note D = d [of 0 0 8 8] d [of 0 8 8 4] d [of 0 12 8 1] d [of 8 0 4 8] d [of 8 8 4 4] d [of 8 12 4 1]
    d [of 12 0 1 8] d [of 12 8 1 4] d [of 12 12 1 1]
  note defs = block_addr_def block_size_def block_free_def
  show "block_addr (store64 m (b + of_nat (16 * i)) v) b j = (if i = j then v else block_addr m b j)"
    "block_size (store64 m (b + of_nat (16 * i)) v) b j = block_size m b j"
    "block_free (store64 m (b + of_nat (16 * i)) v) b j = block_free m b j"
    using D(1-3) by (auto simp: defs store64_def mem_simps load_store_same(3) [unfolded store64_def])
  show "block_addr (store32 m (b + of_nat (16 * i + 8)) w) b j = block_addr m b j"
    "block_size (store32 m (b + of_nat (16 * i + 8)) w) b j = (if i = j then w else block_size m b j)"
    "block_free (store32 m (b + of_nat (16 * i + 8)) w) b j = block_free m b j"
    using D(4-6) by (auto simp: defs store32_def mem_simps load_store_same(2) [unfolded store32_def])
  show "block_addr (m(b + of_nat (16 * i + 12) := c)) b j = block_addr m b j"
    "block_size (m(b + of_nat (16 * i + 12) := c)) b j = block_size m b j"
    using D(7,8) unfolding defs fun_upd_store_bytes by (simp_all add: mem_simps)
  show "block_free (m(b + of_nat (16 * i + 12) := c)) b j = (if i = j then c \<noteq> 0 else block_free m b j)"
  proof (cases "i = j")
    case False
    then show ?thesis using D(9) unfolding defs fun_upd_store_bytes by (simp add: mem_simps)
  qed (simp add: defs)
qed

lemmas block0_stores = block_stores [where i = 0, simplified]

text \<open>Blocks are untouched by writes outside the descriptor array.\<close>

lemma disj_mem_mono:
  "disj_mem a n b k \<Longrightarrow> n' \<le> n \<Longrightarrow> disj_mem a n' b k"
  unfolding disj_mem_def by fastforce

lemma disj_mem_sub:
  assumes "disj_mem a n b k" "p + l \<le> k"
  shows "disj_mem a n (b + of_nat p) l"
  unfolding disj_mem_def
proof (intro allI impI)
  fix i assume "i < l"
  then have "p + i < k" using assms(2) by simp
  then have "n \<le> unat (b + of_nat (p + i) - a)" using assms(1) unfolding disj_mem_def by blast
  then show "n \<le> unat (b + of_nat p + of_nat i - a)" by (simp add: add.assoc)
qed

lemma blocks_outside:
  assumes "disj_mem a (length bs) b 8192" "i < 512"
  shows "block_addr (store_bytes m a bs) b i = block_addr m b i"
    "block_size (store_bytes m a bs) b i = block_size m b i"
    "block_free (store_bytes m a bs) b i = block_free m b i"
  unfolding block_addr_def block_size_def block_free_def
  using assms by (simp_all add: load_store_bytes_other disj_mem_sub del: of_nat_add of_nat_mult)

section \<open>The invariant: one block in use\<close>

definition heap_inv :: "'a heap_scheme \<Rightarrow> bool" where
  "heap_inv s \<longleftrightarrow> heap_base s \<noteq> 0 \<and> heap_addr s \<noteq> 0
     \<and> disj_mem (heap_addr s) (unat KERNEL_HEAP_SIZE) (heap_base s) 8192
     \<and> (\<forall>i. 0 < i \<longrightarrow> i < 512 \<longrightarrow> block_addr (mem s) (heap_base s) i = 0)
     \<and> (block_addr (mem s) (heap_base s) 0 = heap_addr s \<and> ucast (block_size (mem s) (heap_base s) 0) \<le> KERNEL_HEAP_SIZE
        \<or> block_addr (mem s) (heap_base s) 0 = 0 \<and> block_free (mem s) (heap_base s) 0)"

lemma heap_size_unat: "sz \<le> KERNEL_HEAP_SIZE \<Longrightarrow> unat sz \<le> unat KERNEL_HEAP_SIZE"
  by (simp add: word_le_nat_alt)

lemma heap_size_cast: "sz \<le> KERNEL_HEAP_SIZE \<Longrightarrow> ucast (ucast sz :: u32) = sz"
proof -
  assume "sz \<le> KERNEL_HEAP_SIZE"
  then have "unat sz < 2 ^ 32" by (simp add: word_le_nat_alt KERNEL_HEAP_SIZE_def)
  then show ?thesis
    by (intro word_unat_eq_iff [THEN iffD2]) (simp add: unsigned_ucast_eq unsigned_take_bit_eq take_bit_nat_eq_self)
qed

text \<open>With no block in use but block 0, the first loop looks at block 0 only.\<close>

lemma kfor_ret_None:
  "(\<And>i. i \<in> set is \<Longrightarrow> body i s = Ret None s) \<Longrightarrow> kfor_ret is body s = Ret None s"
  by (induction "is") (simp_all add: kbind_cases)

lemma kfor_ret_Cons: "kfor_ret (i # is) body s = kbind (body i) (\<lambda>r. case r of Some a \<Rightarrow> kret (Some a) | None \<Rightarrow> kfor_ret is body) s"
  by simp

lemma blocks_upt: "[0..<KERNEL_MAX_BLOCK] = 0 # [1..<512]"
  unfolding KERNEL_MAX_BLOCK_def One_nat_def by (rule upt_conv_Cons) simp

lemma kmalloc_reuse_scan:
  assumes "heap_inv s"
  shows "kfor_ret [0..<KERNEL_MAX_BLOCK] (kmalloc_reuse (heap_base s) sz) s =
    (if block_addr (mem s) (heap_base s) 0 = heap_addr s \<and> block_free (mem s) (heap_base s) 0
        \<and> sz \<le> ucast (block_size (mem s) (heap_base s) 0)
     then Ret (Some (heap_addr s)) (s\<lparr>mem := (mem s)(heap_base s + 12 := 0)\<rparr>)
     else Ret None s)"
proof -
  let ?b = "heap_base s"
  have tl: "kfor_ret [1..<512] (kmalloc_reuse ?b sz) s = Ret None s"
    by (rule kfor_ret_None) (use assms in \<open>auto simp: kmalloc_reuse_def kbind_cases heap_inv_def\<close>)
  have st: "block_addr ((mem s)(?b + 12 := 0)) ?b 0 = block_addr (mem s) ?b 0"
    by (rule block0_stores) simp
  show ?thesis
    unfolding blocks_upt kfor_ret_Cons
    using assms st tl by (auto simp: kmalloc_reuse_def kbind_cases kseq_cases set_block_free_def heap_inv_def)
qed

lemma kmalloc_scan_0:
  "heap_inv s \<Longrightarrow> kmalloc_scan (mem s) (heap_base s) 0 = Some 0"
  by (subst kmalloc_scan.simps) (auto simp: heap_inv_def)

text \<open>The state after the slow path of \<open>kmalloc\<close>, and after \<open>kfree\<close>.\<close>

definition kmalloc_fresh :: "u64 \<Rightarrow> 'a heap_scheme \<Rightarrow> 'a heap_scheme" where
  "kmalloc_fresh sz s = s\<lparr>mem := store32 ((store64 (store_bytes (mem s) (heap_addr s) (replicate (unat sz) 0))
      (heap_base s) (heap_addr s))(heap_base s + 12 := 0))
      (heap_base s + 8) (ucast sz)\<rparr>"

lemma kmalloc_fresh_simps [simp]:
  "heap_addr (kmalloc_fresh sz s) = heap_addr s" "heap_base (kmalloc_fresh sz s) = heap_base s"
  by (simp_all add: kmalloc_fresh_def)

lemma kmalloc_cases:
  assumes "heap_inv s"
  shows "kmalloc sz s =
    (if block_addr (mem s) (heap_base s) 0 = heap_addr s \<and> block_free (mem s) (heap_base s) 0
        \<and> sz \<le> ucast (block_size (mem s) (heap_base s) 0)
     then Ret (heap_addr s) (s\<lparr>mem := (mem s)(heap_base s + 12 := 0)\<rparr>)
     else Ret (heap_addr s) (kmalloc_fresh sz s))"
proof -
  have "heap_base s \<noteq> 0" using assms by (simp add: heap_inv_def)
  then show ?thesis
    using kmalloc_reuse_scan [OF assms, of sz] kmalloc_scan_0 [OF assms]
    by (auto simp: kmalloc_def kbind_cases kseq_cases memset_def memset_mem_eq set_block_addr_def
        set_block_free_def set_block_size_def kmalloc_fresh_def)
qed

lemma kmalloc_fresh_blocks:
  assumes inv: "heap_inv s" and sz: "sz \<le> KERNEL_HEAP_SIZE" and j: "j < 512"
  shows "block_addr (mem (kmalloc_fresh sz s)) (heap_base s) j = (if j = 0 then heap_addr s else block_addr (mem s) (heap_base s) j)"
    "block_size (mem (kmalloc_fresh sz s)) (heap_base s) j = (if j = 0 then ucast sz else block_size (mem s) (heap_base s) j)"
    "block_free (mem (kmalloc_fresh sz s)) (heap_base s) j = (j \<noteq> 0 \<and> block_free (mem s) (heap_base s) j)"
proof -
  have "disj_mem (heap_addr s) (unat sz) (heap_base s) 8192"
    using inv heap_size_unat [OF sz] by (auto simp: heap_inv_def intro: disj_mem_mono)
  then have out: "disj_mem (heap_addr s) (length (replicate (unat sz) (0 :: u8))) (heap_base s) 8192" by simp
  have j': "j < 1024" using j by simp
  note B = block0_stores [OF j'] blocks_outside [OF out j]
  show "block_addr (mem (kmalloc_fresh sz s)) (heap_base s) j = (if j = 0 then heap_addr s else block_addr (mem s) (heap_base s) j)"
    "block_size (mem (kmalloc_fresh sz s)) (heap_base s) j = (if j = 0 then ucast sz else block_size (mem s) (heap_base s) j)"
    "block_free (mem (kmalloc_fresh sz s)) (heap_base s) j = (j \<noteq> 0 \<and> block_free (mem s) (heap_base s) j)"
    by (auto simp: kmalloc_fresh_def B)
qed

lemma heap_inv_reuse:
  assumes "heap_inv s"
  shows "heap_inv (s\<lparr>mem := (mem s)(heap_base s + 12 := 0)\<rparr>) \<or> block_addr (mem s) (heap_base s) 0 = 0"
  using assms by (auto simp: heap_inv_def block0_stores)

lemma heap_inv_fresh:
  "heap_inv s \<Longrightarrow> sz \<le> KERNEL_HEAP_SIZE \<Longrightarrow> heap_inv (kmalloc_fresh sz s)"
  using kmalloc_fresh_blocks [of s sz]
  by (auto simp: heap_inv_def heap_size_cast kmalloc_fresh_def)

text \<open>
  C3: every allocation that fits the heap returns the start of the heap. In a state where
  at most block 0 is in use (as after \<open>kernel_heap_init\<close>) \<open>kmalloc\<close> returns
  \<open>heap_addr\<close> and leads to such a state again, so that two allocations in a row, the
  first one still live, return the same pointer, and the second one clears the memory of the
  first.
\<close>

theorem kmalloc_aliases:
  fixes s :: "'a heap_scheme"
  assumes inv: "heap_inv s" and a: "a \<le> KERNEL_HEAP_SIZE" and b: "b \<le> KERNEL_HEAP_SIZE"
  shows "\<exists>s1 s2. kmalloc a s = Ret (heap_addr s) s1 \<and> heap_inv s1
     \<and> kmalloc b s1 = Ret (heap_addr s) s2 \<and> heap_inv s2
     \<and> \<not> block_free (mem s1) (heap_base s1) 0
     \<and> s2 = kmalloc_fresh b s1"
proof -
  obtain s1 where s1: "kmalloc a s = Ret (heap_addr s) s1" "heap_inv s1" "heap_addr s1 = heap_addr s"
    "\<not> block_free (mem s1) (heap_base s1) 0"
  proof (cases "block_addr (mem s) (heap_base s) 0 = heap_addr s \<and> block_free (mem s) (heap_base s) 0
        \<and> a \<le> ucast (block_size (mem s) (heap_base s) 0)")
    case True
    then have "heap_inv (s\<lparr>mem := (mem s)(heap_base s + 12 := 0)\<rparr>)"
      using heap_inv_reuse [OF inv] inv by (auto simp: heap_inv_def)
    then show ?thesis using that [of "s\<lparr>mem := (mem s)(heap_base s + 12 := 0)\<rparr>"] True
      by (simp add: kmalloc_cases [OF inv] block0_stores)
  next
    case False
    then show ?thesis
      using that [of "kmalloc_fresh a s"] heap_inv_fresh [OF inv a] kmalloc_fresh_blocks [OF inv a, of 0]
      by (auto simp: kmalloc_cases [OF inv])
  qed
  then show ?thesis
    using kmalloc_cases [OF s1(2), of b] heap_inv_fresh [OF s1(2) b] by auto
qed

text \<open>
  \<open>kfree\<close> of the live block marks it free and clears it; the next request that is not
  larger gets it back through the first-fit loop, without clearing it again.
\<close>

definition kfree_done :: "'a heap_scheme \<Rightarrow> 'a heap_scheme" where
  "kfree_done s = s\<lparr>mem := store_bytes ((mem s)(heap_base s + 12 := 1)) (heap_addr s)
     (replicate (unat (block_size (mem s) (heap_base s) 0)) 0)\<rparr>"

lemma kfree_live:
  assumes inv: "heap_inv s" and live: "block_addr (mem s) (heap_base s) 0 = heap_addr s"
  shows "kfree (heap_addr s) s = Ret () (kfree_done s)"
proof -
  have "kfree_block (heap_base s) (heap_addr s) 0 s = Ret (Some ()) (kfree_done s)"
    using live by (simp add: kfree_block_def kbind_cases kseq_cases set_block_free_def block0_stores memset_def
        memset_mem_eq kfree_done_def unat_ucast_up)
  then show ?thesis
    using inv unfolding kfree_def blocks_upt
    by (simp add: kbind_cases kseq_cases heap_inv_def)
qed

lemma kfree_done_blocks:
  assumes inv: "heap_inv s" and live: "block_addr (mem s) (heap_base s) 0 = heap_addr s" and j: "j < 512"
  shows "block_addr (mem (kfree_done s)) (heap_base s) j = block_addr (mem s) (heap_base s) j"
    "block_size (mem (kfree_done s)) (heap_base s) j = block_size (mem s) (heap_base s) j"
    "block_free (mem (kfree_done s)) (heap_base s) j = (j = 0 \<or> block_free (mem s) (heap_base s) j)"
proof -
  let ?n = "unat (block_size (mem s) (heap_base s) 0)"
  have "ucast (block_size (mem s) (heap_base s) 0) \<le> KERNEL_HEAP_SIZE"
    using inv live by (auto simp: heap_inv_def)
  then have "?n \<le> unat KERNEL_HEAP_SIZE" by (simp add: word_le_nat_alt unat_ucast_up)
  then have "disj_mem (heap_addr s) (length (replicate ?n (0 :: u8))) (heap_base s) 8192"
    using inv by (auto simp: heap_inv_def intro: disj_mem_mono)
  note B = blocks_outside [OF this j] block0_stores [of j]
  show "block_addr (mem (kfree_done s)) (heap_base s) j = block_addr (mem s) (heap_base s) j"
    "block_size (mem (kfree_done s)) (heap_base s) j = block_size (mem s) (heap_base s) j"
    "block_free (mem (kfree_done s)) (heap_base s) j = (j = 0 \<or> block_free (mem s) (heap_base s) j)"
    using j by (auto simp: kfree_done_def B)
qed

text \<open>
  Freeing the live block and asking for no more than its size gives the same block
  back; in between it is marked free and its bytes are cleared, and the invariant holds
  throughout.
\<close>

theorem kfree_kmalloc_roundtrip:
  fixes s :: "'a heap_scheme"
  assumes inv: "heap_inv s" and live: "block_addr (mem s) (heap_base s) 0 = heap_addr s"
    and fits: "sz \<le> ucast (block_size (mem s) (heap_base s) 0)"
  shows "\<exists>s1 s2. kfree (heap_addr s) s = Ret () s1 \<and> heap_inv s1 \<and> block_free (mem s1) (heap_base s) 0
     \<and> (\<forall>x. unat (x - heap_addr s) < unat (block_size (mem s) (heap_base s) 0) \<longrightarrow> mem s1 x = 0)
     \<and> kmalloc sz s1 = Ret (heap_addr s) s2 \<and> heap_inv s2 \<and> \<not> block_free (mem s2) (heap_base s) 0
     \<and> mem s2 = (mem s1)(heap_base s + 12 := 0)"
proof -
  let ?s1 = "kfree_done s"
  note B = kfree_done_blocks [OF inv live]
  have same: "heap_base ?s1 = heap_base s" "heap_addr ?s1 = heap_addr s" by (simp_all add: kfree_done_def)
  have inv1: "heap_inv ?s1"
    using inv live B unfolding heap_inv_def same by auto
  have "kmalloc sz ?s1 = Ret (heap_addr s) (?s1\<lparr>mem := (mem ?s1)(heap_base s + 12 := 0)\<rparr>)"
    using kmalloc_cases [OF inv1, of sz] live fits B [of 0] by (simp add: same)
  moreover have "heap_inv (?s1\<lparr>mem := (mem ?s1)(heap_base s + 12 := 0)\<rparr>)"
    using heap_inv_reuse [OF inv1] live inv B(1) [of 0] by (auto simp: same heap_inv_def)
  moreover have "\<forall>x. unat (x - heap_addr s) < unat (block_size (mem s) (heap_base s) 0) \<longrightarrow> mem ?s1 x = 0"
    by (simp add: kfree_done_def store_bytes_apply)
  ultimately show ?thesis
    using kfree_live [OF inv live] inv1 B(3) [of 0]
    by (intro exI [of _ ?s1] exI [of _ "?s1\<lparr>mem := (mem ?s1)(heap_base s + 12 := 0)\<rparr>"])
      (simp add: block0_stores)
qed

text \<open>
  Growing the live block within the heap keeps it in place: \<open>krealloc\<close> returns the
  same pointer, records the new size, and leaves every byte of the heap as it was.
\<close>

theorem krealloc_in_place:
  fixes s :: "'a heap_scheme"
  assumes inv: "heap_inv s" and live: "block_addr (mem s) (heap_base s) 0 = heap_addr s"
    and sz: "0 < sz" "sz \<le> KERNEL_HEAP_SIZE"
  shows "\<exists>s'. krealloc (heap_addr s) sz s = Ret (heap_addr s) s' \<and> heap_inv s'
     \<and> block_size (mem s') (heap_base s) 0 = max (block_size (mem s) (heap_base s) 0) (ucast sz)
     \<and> (\<forall>i < unat KERNEL_HEAP_SIZE. mem s' (heap_addr s + of_nat i) = mem s (heap_addr s + of_nat i))"
proof -
  let ?b = "heap_base s" and ?old = "block_size (mem s) (heap_base s) 0"
  have old: "ucast ?old \<le> KERNEL_HEAP_SIZE" and nz: "?b \<noteq> 0" "heap_addr s \<noteq> 0"
    using inv live by (auto simp: heap_inv_def)
  have cast: "(?old < ucast sz) = (ucast ?old < sz)"
    using heap_size_cast [OF sz(2)] by (metis unat_ucast_up word_less_nat_alt)
  have fb: "find_block (mem s) ?b (heap_addr s) [0..<KERNEL_MAX_BLOCK] = Some 0"
    using live by (simp add: blocks_upt)
  show ?thesis
  proof (cases "sz \<le> ucast ?old")
    case True
    then have "krealloc (heap_addr s) sz s = Ret (heap_addr s) s"
      using nz sz(1) fb by (auto simp: krealloc_def kbind_cases kseq_cases)
    moreover have "max ?old (ucast sz) = ?old" using True cast by (auto simp: max_def)
    ultimately show ?thesis using inv by auto
  next
    case False
    let ?s = "s\<lparr>mem := store32 (mem s) (?b + 8) (ucast sz)\<rparr>"
    have last: "is_last_block (mem s) ?b 0" using inv by (simp add: is_last_block_def heap_inv_def KERNEL_MAX_BLOCK_def)
    have "sz - ucast ?old \<le> heap_addr s + KERNEL_HEAP_SIZE - (heap_addr s + ucast ?old)"
      using sz(2) old False by (simp add: word_le_nat_alt unat_sub diff_le_mono)
    then have "krealloc (heap_addr s) sz s = Ret (heap_addr s) ?s"
      using nz sz(1) fb last False live by (auto simp: krealloc_def kbind_cases kseq_cases set_block_size_def)
    moreover have "heap_inv ?s"
      using inv live sz(2) by (simp add: heap_inv_def block0_stores heap_size_cast)
    moreover have "max ?old (ucast sz) = ucast sz" using False cast by (auto simp: max_def)
    moreover have "mem ?s (heap_addr s + of_nat i) = mem s (heap_addr s + of_nat i)"
      if i: "i < unat KERNEL_HEAP_SIZE" for i
    proof -
      have "\<not> unat (heap_addr s + of_nat i - (?b + 8)) < 4"
      proof
        let ?k = "unat (heap_addr s + of_nat i - (?b + 8))"
        assume k: "?k < 4"
        have "?b + of_nat (8 + ?k) = heap_addr s + of_nat i" by (simp add: algebra_simps)
        moreover have "8 + ?k < 8192" using k by simp
        then have "unat (?b + of_nat (8 + ?k) - heap_addr s) \<ge> unat KERNEL_HEAP_SIZE"
          using inv unfolding heap_inv_def disj_mem_def by blast
        ultimately have "unat (of_nat i :: u64) \<ge> unat KERNEL_HEAP_SIZE" by simp
        then show False using i by (simp add: unat_of_nat_u64 KERNEL_HEAP_SIZE_def)
      qed
      then show ?thesis by (simp add: store32_def store_bytes_apply)
    qed
    ultimately show ?thesis by (intro exI [of _ ?s]) (simp add: block0_stores)
  qed
qed

section \<open>A concrete heap\<close>

definition heap_boot :: heap where
  "heap_boot = vmm.extend (vm_boot ((\<lambda>_. 0)(0x1000 + 12 := 1)) 0 0) (heap.fields 0x1000 0x10000)"

lemma heap_boot_simps [simp]:
  "mem heap_boot = (\<lambda>_. 0)(0x1000 + 12 := 1)" "heap_base heap_boot = 0x1000" "heap_addr heap_boot = 0x10000"
  by (simp_all add: heap_boot_def vm_boot_def boot_state_def vmm.defs heap.defs pmm.defs)

lemma heap_boot_inv: "heap_inv heap_boot"
proof -
  have z: "block_addr (\<lambda>_. 0) b i = 0" for b i unfolding block_addr_def by (rule load64_zero) simp
  have a: "block_addr (mem heap_boot) 0x1000 i = 0" if "i < 512" for i
    using block_stores(7) [of 0 i "\<lambda>_. 0" "0x1000" 1] that z by simp
  moreover have "disj_mem 0x10000 (unat KERNEL_HEAP_SIZE) 0x1000 8192"
    by (rule disj_memI) (simp_all add: KERNEL_HEAP_SIZE_def)
  ultimately show ?thesis
    using block0_stores(9) [of 0 "\<lambda>_. 0" "0x1000" 1]
    unfolding heap_inv_def by (simp del: heap_boot_simps(1)) simp
qed

theorem kmalloc_aliases_witness:
  "\<exists>s1 s2. kmalloc 0x20 heap_boot = Ret 0x10000 s1 \<and> kmalloc 0x40 s1 = Ret 0x10000 s2 \<and> heap_inv s2"
proof -
  have "0x20 \<le> KERNEL_HEAP_SIZE" "0x40 \<le> KERNEL_HEAP_SIZE" by (simp_all add: KERNEL_HEAP_SIZE_def)
  from kmalloc_aliases [OF heap_boot_inv this] show ?thesis by auto
qed

lemma heap_live:
  "heap_inv (kmalloc_fresh 0x20 heap_boot)"
  "block_addr (mem (kmalloc_fresh 0x20 heap_boot)) 0x1000 0 = 0x10000"
  "block_size (mem (kmalloc_fresh 0x20 heap_boot)) 0x1000 0 = 0x20"
proof -
  have s: "0x20 \<le> KERNEL_HEAP_SIZE" by (simp add: KERNEL_HEAP_SIZE_def)
  from heap_inv_fresh [OF heap_boot_inv s] kmalloc_fresh_blocks [OF heap_boot_inv s, of 0]
  show "heap_inv (kmalloc_fresh 0x20 heap_boot)"
    "block_addr (mem (kmalloc_fresh 0x20 heap_boot)) 0x1000 0 = 0x10000"
    "block_size (mem (kmalloc_fresh 0x20 heap_boot)) 0x1000 0 = 0x20" by simp_all
qed

theorem kfree_kmalloc_roundtrip_witness:
  "\<exists>s1 s2. kfree 0x10000 (kmalloc_fresh 0x20 heap_boot) = Ret () s1 \<and> block_free (mem s1) 0x1000 0
     \<and> kmalloc 0x18 s1 = Ret 0x10000 s2"
  using kfree_kmalloc_roundtrip [of "kmalloc_fresh 0x20 heap_boot" "0x18"] heap_live by auto

theorem krealloc_in_place_witness:
  "\<exists>s'. krealloc 0x10000 0x100 (kmalloc_fresh 0x20 heap_boot) = Ret 0x10000 s'
     \<and> block_size (mem s') 0x1000 0 = 0x100"
  using krealloc_in_place [of "kmalloc_fresh 0x20 heap_boot" "0x100"] heap_live
  by (auto simp: KERNEL_HEAP_SIZE_def)

end
