(* ===== verification/Acpi.thy ===== *)
theory Acpi
  imports Kmalloc
begin

text \<open>
  The ACPI tables: \<^verbatim>\<open>src/sys/acpi.c\<close> with the packed structures of
  \<^verbatim>\<open>src/sys/acpi.h\<close>, whose fields are read from memory at their byte offsets. The
  table search is proved to return the first table with the wanted signature; the two walks
  over the interrupt controller structures of the MADT are proved correct on every
  well-formed list of records, and to run forever on a record of length zero.
\<close>

section \<open>Structures\<close>

definition sizeof_desc_header_t :: u64 where "sizeof_desc_header_t = 36"

definition hdr_signature :: "mem \<Rightarrow> u64 \<Rightarrow> u8 list" where "hdr_signature m a = bytes_at m a 4"
definition hdr_length :: "mem \<Rightarrow> u64 \<Rightarrow> u32" where "hdr_length m a = load32 m (a + 4)"
definition hdr_revision :: "mem \<Rightarrow> u64 \<Rightarrow> u8" where "hdr_revision m a = m (a + 8)"
definition hdr_oemid :: "mem \<Rightarrow> u64 \<Rightarrow> u8 list" where "hdr_oemid m a = bytes_at m (a + 10) 6"

definition rsdp_revision :: "mem \<Rightarrow> u64 \<Rightarrow> u8" where "rsdp_revision m a = m (a + 15)"
definition rsdp_rsdt_address :: "mem \<Rightarrow> u64 \<Rightarrow> u32" where "rsdp_rsdt_address m a = load32 m (a + 16)"
definition rsdp_xsdt_address :: "mem \<Rightarrow> u64 \<Rightarrow> u64" where "rsdp_xsdt_address m a = load64 m (a + 24)"

definition xsdt_entry :: "mem \<Rightarrow> u64 \<Rightarrow> nat \<Rightarrow> u64" where
  "xsdt_entry m a i = load64 m (a + 36 + of_nat (8 * i))"

definition rsdt_entry :: "mem \<Rightarrow> u64 \<Rightarrow> nat \<Rightarrow> u64" where
  "rsdt_entry m a i = ucast (load32 m (a + 36 + of_nat (4 * i)))"

definition madt_lic_address :: "mem \<Rightarrow> u64 \<Rightarrow> u32" where "madt_lic_address m a = load32 m (a + 36)"
definition madt_ics :: "u64 \<Rightarrow> u64" where "madt_ics a = a + 44"

definition ics_type :: "mem \<Rightarrow> u64 \<Rightarrow> u8" where "ics_type m a = m a"
definition ics_length :: "mem \<Rightarrow> u64 \<Rightarrow> u8" where "ics_length m a = m (a + 1)"

definition lapic_ao_address :: "mem \<Rightarrow> u64 \<Rightarrow> u64" where "lapic_ao_address m a = load64 m (a + 4)"
definition ics_ioapic_address :: "mem \<Rightarrow> u64 \<Rightarrow> u32" where "ics_ioapic_address m a = load32 m (a + 4)"
definition iso_source :: "mem \<Rightarrow> u64 \<Rightarrow> u8" where "iso_source m a = m (a + 3)"
definition iso_gsi :: "mem \<Rightarrow> u64 \<Rightarrow> u32" where "iso_gsi m a = load32 m (a + 4)"

text \<open>The fields of the FADT the kernel reads; the generic address structure by its fields.\<close>

record gas_t =
  address_space_id :: u8
  reg_bit_width :: u8
  reg_bit_offset :: u8
  access_size :: u8
  address :: u64

definition gas_at :: "mem \<Rightarrow> u64 \<Rightarrow> gas_t" where
  "gas_at m a = \<lparr>address_space_id = m a, reg_bit_width = m (a + 1), reg_bit_offset = m (a + 2),
     access_size = m (a + 3), address = load64 m (a + 4)\<rparr>"

definition fadt_PMTimerBlock :: "mem \<Rightarrow> u64 \<Rightarrow> u32" where "fadt_PMTimerBlock m a = load32 m (a + 76)"
definition fadt_PMTimerLength :: "mem \<Rightarrow> u64 \<Rightarrow> u8" where "fadt_PMTimerLength m a = m (a + 91)"
definition fadt_X_PMTimerBlock :: "mem \<Rightarrow> u64 \<Rightarrow> gas_t" where "fadt_X_PMTimerBlock m a = gas_at m (a + 208)"

record conf_space_t =
  base_ecm :: u64
  pci_seg_group :: u16
  cs_start_pci_num :: u8
  cs_end_pci_num :: u8

definition mcfg_conf_space :: "mem \<Rightarrow> u64 \<Rightarrow> nat \<Rightarrow> conf_space_t" where
  "mcfg_conf_space m a i = (let p = a + 44 + of_nat (16 * i) in
     \<lparr>base_ecm = load64 m p, pci_seg_group = load16 m (p + 8), cs_start_pci_num = m (p + 10),
      cs_end_pci_num = m (p + 11)\<rparr>)"

section \<open>State and operations\<close>

record acpi = heap +
  rsdp_request_response :: "u64 option"
  xsdt :: u64
  rsdt :: u64
  madt :: u64

text \<open>A signature literal as the bytes the pointer argument refers to.\<close>

definition sig :: "string \<Rightarrow> u8 list" where
  "sig str = map of_char str"

definition acpi_entry_count :: "'a acpi_scheme \<Rightarrow> u64" where
  "acpi_entry_count s =
     (if xsdt s \<noteq> 0 then (ucast (hdr_length (mem s) (xsdt s)) - sizeof_desc_header_t) div 8
      else (ucast (hdr_length (mem s) (rsdt s)) - sizeof_desc_header_t) div 4)"

definition acpi_entry :: "'a acpi_scheme \<Rightarrow> nat \<Rightarrow> u64" where
  "acpi_entry s i = (if xsdt s \<noteq> 0 then xsdt_entry (mem s) (xsdt s) i else rsdt_entry (mem s) (rsdt s) i)"

definition find_acpi_table :: "u8 list \<Rightarrow> ('a acpi_scheme, u64) kern" where
  "find_acpi_table signature =
     kbind (kget (\<lambda>s. if xsdt s \<noteq> 0 then xsdt s else rsdt s)) (\<lambda>root.
     kseq (deref root)
    (kbind (kget acpi_entry_count) (\<lambda>entries.
     kbind (kfor_ret [0..<unat entries] (\<lambda>i.
       kbind (kget (\<lambda>s. acpi_entry s i)) (\<lambda>header.
       kbind (kget (\<lambda>s. hdr_signature (mem s) (header + hhdmoffset s))) (\<lambda>sg.
       kret (if sg = signature then Some header else None)))))
     (\<lambda>r. kret (case r of None \<Rightarrow> 0 | Some header \<Rightarrow> header)))))"

definition print_oemid :: "u64 \<Rightarrow> ('a acpi_scheme, unit) kern" where
  "print_oemid table = kbind (kget (\<lambda>s. hdr_oemid (mem s) table)) (\<lambda>o6.
     kprintf ''OEMID: {ccccccn}'' (map (\<lambda>b. ANum (ucast b)) o6))"

definition acpi_init :: "('a acpi_scheme, unit) kern" where
  "acpi_init = kbind (kget rsdp_request_response) (\<lambda>resp. case resp of
     None \<Rightarrow> kseq (klog LOG_ERROR ''acpi'' ''RSDP request is NULL'') kkill
   | Some rsdp \<Rightarrow>
       kseq (kprintf ''RSDP address: 0x{xn}'' [ANum rsdp])
      (kbind (kget (\<lambda>s. rsdp_revision (mem s) rsdp)) (\<lambda>rev.
       kseq (if rev \<ge> 2 then
               kseq (kmod (\<lambda>s. s\<lparr>rsdt := 0\<rparr>))
              (kseq (kmod (\<lambda>s. s\<lparr>xsdt := rsdp_xsdt_address (mem s) rsdp + hhdmoffset s\<rparr>))
              (kseq (klog LOG_INFO ''acpi'' ''Using XSDT header'')
              (kbind (kget xsdt) (\<lambda>x.
               kseq (kprintf ''XSDT address: 0x{xn}'' [ANum x]) (print_oemid x)))))
             else
               kseq (kmod (\<lambda>s. s\<lparr>xsdt := 0\<rparr>))
              (kseq (kmod (\<lambda>s. s\<lparr>rsdt := ucast (rsdp_rsdt_address (mem s) rsdp) + hhdmoffset s\<rparr>))
              (kseq (klog LOG_INFO ''acpi'' ''Using RSDT header'')
              (kbind (kget rsdt) (\<lambda>x.
               kseq (kprintf ''RSDT address: 0x{xn}'' [ANum x]) (print_oemid x))))))
      (kbind (find_acpi_table (sig ''APIC'')) (\<lambda>t.
       kseq (kmod (\<lambda>s. s\<lparr>madt := t\<rparr>))
            (kif (t = 0) (kseq (klog LOG_ERROR ''acpi_init'' ''MADT table not found'') kkill)))))))"

text \<open>The number of bytes of interrupt controller structures in the MADT.\<close>

definition ics_bytes :: "'a acpi_scheme \<Rightarrow> u64" where
  "ics_bytes s = ucast (hdr_length (mem s) (madt s)) - sizeof_desc_header_t - 8"

text \<open>One round of the loops, on the offset \<open>i\<close>.\<close>

definition find_ics_round :: "u64 \<Rightarrow> u64 \<Rightarrow> u64 \<Rightarrow> u64 \<Rightarrow> ('a acpi_scheme, u64 + u64) kern" where
  "find_ics_round type base_addr len i =
     (if i < len then
        kbind (kget (\<lambda>s. (ics_type (mem s) (base_addr + i), ics_length (mem s) (base_addr + i)))) (\<lambda>(ty, l).
        if ucast ty = type then kret (Inr (base_addr + i))
        else kret (Inl (i + ucast l)))
      else kret (Inr 0))"

definition find_ics :: "u64 \<Rightarrow> ('a acpi_scheme, u64) kern" where
  "find_ics type =
     kbind (kget madt) (\<lambda>a. kseq (deref a)
    (kbind (kget ics_bytes) (\<lambda>len.
     kloop (find_ics_round type (madt_ics a) len) 0)))"

definition find_iso_round :: "u8 \<Rightarrow> u64 \<Rightarrow> u64 \<Rightarrow> u64 \<Rightarrow> ('a acpi_scheme, u64 + u32) kern" where
  "find_iso_round legacy base_addr len i =
     (if i < len then
        kbind (kget mem) (\<lambda>m. let header = base_addr + i in
        if ics_type m header = 0x2 \<and> legacy = iso_source m header then kret (Inr (iso_gsi m header))
        else kret (Inl (i + ucast (ics_length m header))))
      else kret (Inr (ucast legacy)))"

definition find_iso :: "u8 \<Rightarrow> ('a acpi_scheme, u32) kern" where
  "find_iso legacy =
     kbind (kget madt) (\<lambda>a. kseq (deref a)
    (kbind (kget ics_bytes) (\<lambda>len.
     kloop (find_iso_round legacy (madt_ics a) len) 0)))"

section \<open>The table search\<close>

lemma kfor_ret_find:
  assumes "\<And>i. i \<in> set is \<Longrightarrow> body i s = Ret (if P i then Some (f i) else None) s"
  shows "kfor_ret is body s = Ret (map_option f (find P is)) s"
  using assms by (induction "is") (auto simp: kbind_cases)

lemma find_map_option: "find P (map f xs) = map_option f (find (\<lambda>x. P (f x)) xs)"
  by (induction xs) auto

definition acpi_tables :: "'a acpi_scheme \<Rightarrow> u64 list" where
  "acpi_tables s = map (acpi_entry s) [0..<unat (acpi_entry_count s)]"

definition acpi_lookup :: "'a acpi_scheme \<Rightarrow> u8 list \<Rightarrow> u64" where
  "acpi_lookup s sg = (case find (\<lambda>t. hdr_signature (mem s) (t + hhdmoffset s) = sg) (acpi_tables s) of
     None \<Rightarrow> 0 | Some t \<Rightarrow> t)"

lemma find_acpi_table_eq:
  assumes "xsdt s \<noteq> 0 \<or> rsdt s \<noteq> 0"
  shows "find_acpi_table sg s = Ret (acpi_lookup s sg) s"
proof -
  let ?P = "\<lambda>i. hdr_signature (mem s) (acpi_entry s i + hhdmoffset s) = sg"
  have "kfor_ret [0..<unat (acpi_entry_count s)] (\<lambda>i. kbind (kget (\<lambda>s. acpi_entry s i)) (\<lambda>header.
       kbind (kget (\<lambda>s. hdr_signature (mem s) (header + hhdmoffset s))) (\<lambda>g.
       kret (if g = sg then Some header else None)))) s
     = Ret (map_option (acpi_entry s) (find ?P [0..<unat (acpi_entry_count s)])) s"
    by (rule kfor_ret_find) (simp add: kbind_cases)
  then show ?thesis
    using assms by (auto simp: find_acpi_table_def kbind_cases kseq_cases acpi_lookup_def acpi_tables_def
        find_map_option split: option.splits)
qed

section \<open>Walks over variable-length records\<close>

text \<open>\<open>ics_path m b len i os j\<close>: the records at the offsets \<open>os\<close> lead from \<open>i\<close> to \<open>j\<close>.\<close>

fun ics_path :: "mem \<Rightarrow> u64 \<Rightarrow> u64 \<Rightarrow> u64 \<Rightarrow> u64 list \<Rightarrow> u64 \<Rightarrow> bool" where
  "ics_path m b len i [] j = (i = j)"
| "ics_path m b len i (x # xs) j =
     (x = i \<and> i < len \<and> ics_path m b len (i + ucast (ics_length m (b + i))) xs j)"

text \<open>A walk that looks at each record and stops at the first one of interest.\<close>

definition walk_body :: "(mem \<Rightarrow> u64 \<Rightarrow> 'r option) \<Rightarrow> u64 \<Rightarrow> u64 \<Rightarrow> 'r \<Rightarrow> u64 \<Rightarrow> ('a acpi_scheme, u64 + 'r) kern" where
  "walk_body visit b len d i = (\<lambda>s.
     if i < len then case visit (mem s) (b + i) of
         Some r \<Rightarrow> Ret (Inr r) s | None \<Rightarrow> Ret (Inl (i + ucast (ics_length (mem s) (b + i)))) s
     else Ret (Inr d) s)"

fun first_hit :: "('x \<Rightarrow> 'r option) \<Rightarrow> 'x list \<Rightarrow> 'r option" where
  "first_hit f [] = None"
| "first_hit f (x # xs) = (case f x of Some r \<Rightarrow> Some r | None \<Rightarrow> first_hit f xs)"

lemma walk_path:
  assumes "ics_path (mem s) b len i os j"
  shows "kloop (walk_body visit b len d) i s = (case first_hit (\<lambda>x. visit (mem s) (b + x)) os of
     Some r \<Rightarrow> Ret r s | None \<Rightarrow> kloop (walk_body visit b len d) j s)"
  using assms
proof (induction os arbitrary: i)
  case Nil
  then show ?case by simp
next
  case (Cons x os)
  then have x: "x = i" "i < len" by simp_all
  show ?case
  proof (cases "visit (mem s) (b + i)")
    case None
    then have "walk_body visit b len d i s = Ret (Inl (i + ucast (ics_length (mem s) (b + i)))) s"
      using x by (simp add: walk_body_def)
    then show ?thesis using Cons x None by (simp add: kloop_step(1))
  next
    case (Some r)
    then have "walk_body visit b len d i s = Ret (Inr r) s" using x by (simp add: walk_body_def)
    then show ?thesis using x Some by (simp add: kloop_step(2))
  qed
qed

lemma walk_end:
  "len \<le> j \<Longrightarrow> kloop (walk_body visit b len d) j s = Ret d s"
  by (rule kloop_step(2)) (simp add: walk_body_def leD)

lemma walk_stuck:
  assumes "j < len" "ics_length (mem s) (b + j) = 0" "visit (mem s) (b + j) = None"
  shows "kloop (walk_body visit b len d) j s = Diverge"
  by (rule kloop_diverge [where P = "\<lambda>x t. x = j \<and> t = s"]) (use assms in \<open>auto simp: walk_body_def\<close>)

definition ics_visit :: "u64 \<Rightarrow> mem \<Rightarrow> u64 \<Rightarrow> u64 option" where
  "ics_visit type m a = (if ucast (ics_type m a) = type then Some a else None)"

definition iso_visit :: "u8 \<Rightarrow> mem \<Rightarrow> u64 \<Rightarrow> u32 option" where
  "iso_visit legacy m a = (if ics_type m a = 0x2 \<and> legacy = iso_source m a then Some (iso_gsi m a) else None)"

lemma find_ics_round_walk: "find_ics_round type b len = walk_body (ics_visit type) b len 0"
  by (intro ext) (simp add: find_ics_round_def walk_body_def ics_visit_def kbind_cases)

lemma find_iso_round_walk: "find_iso_round legacy b len = walk_body (iso_visit legacy) b len (ucast legacy)"
  by (intro ext) (simp add: find_iso_round_def walk_body_def iso_visit_def kbind_cases Let_def)

text \<open>
  C9: on a MADT whose records, at the offsets \<open>os\<close>, fill the table, \<open>find_ics\<close>
  returns the first record of the wanted type or \<open>NULL\<close>, and \<open>find_iso\<close> returns
  the interrupt the first override of the legacy line names, or the line itself when there
  is none. Neither changes the state.
\<close>

theorem madt_walks_correct:
  fixes s :: "'a acpi_scheme"
  assumes "madt s \<noteq> 0" "ics_path (mem s) (madt_ics (madt s)) (ics_bytes s) 0 os j" "ics_bytes s \<le> j"
  shows "find_ics type s = Ret (case first_hit (\<lambda>x. ics_visit type (mem s) (madt_ics (madt s) + x)) os of
           Some r \<Rightarrow> r | None \<Rightarrow> 0) s
       \<and> find_iso legacy s = Ret (case first_hit (\<lambda>x. iso_visit legacy (mem s) (madt_ics (madt s) + x)) os of
           Some g \<Rightarrow> g | None \<Rightarrow> ucast legacy) s"
  using assms(1)
  by (simp add: find_ics_def find_iso_def kbind_cases kseq_cases find_ics_round_walk find_iso_round_walk
      walk_path [OF assms(2)] walk_end [OF assms(3)] split: option.splits)

text \<open>
  A record whose length byte is zero stops both walks from ever returning, unless a
  record of interest comes before it: the table that firmware supplies is trusted blindly.
\<close>

theorem madt_zero_length_diverges:
  fixes s :: "'a acpi_scheme"
  assumes "madt s \<noteq> 0" "ics_path (mem s) (madt_ics (madt s)) (ics_bytes s) 0 os j" "j < ics_bytes s"
    "ics_length (mem s) (madt_ics (madt s) + j) = 0"
    and "\<forall>x \<in> set (os @ [j]). ucast (ics_type (mem s) (madt_ics (madt s) + x)) \<noteq> type"
  shows "find_ics type s = Diverge"
proof -
  let ?v = "\<lambda>x. ics_visit type (mem s) (madt_ics (madt s) + x)"
  have "first_hit ?v xs = None" if "set xs \<subseteq> set os" for xs
    using that assms(5) by (induction xs) (auto simp: ics_visit_def)
  then have "first_hit ?v os = None" by blast
  moreover have "?v j = None" using assms(5) by (simp add: ics_visit_def)
  ultimately show ?thesis
    using assms(1)
    by (simp add: find_ics_def kbind_cases kseq_cases find_ics_round_walk walk_path [OF assms(2)]
        walk_stuck [OF assms(3,4)])
qed


section \<open>Initialisation\<close>

lemma print_oemid_prints: "console_ok s \<Longrightarrow> prints (print_oemid t) s"
proof -
  assume ok: "console_ok s"
  have six: "bytes_at m a 6 = [m a, m (a + 1), m (a + 2), m (a + 3), m (a + 4), m (a + 5)]" for m a
    by (simp add: bytes_at_def upt_rec)
  have "prints (kprintf ''OEMID: {ccccccn}'' (map (\<lambda>b. ANum (ucast b)) (hdr_oemid (mem s) t))) s"
    using ok by (rule prints_kprintf) (simp add: hdr_oemid_def six cstr_def render_spec)
  then show ?thesis by (simp add: print_oemid_def prints_def kbind_cases)
qed

text \<open>The state after \<open>acpi_init\<close> has chosen the root table.\<close>

definition acpi_rooted :: "u64 \<Rightarrow> 'a acpi_scheme \<Rightarrow> 'a acpi_scheme" where
  "acpi_rooted rsdp s = (if rsdp_revision (mem s) rsdp \<ge> 2
     then s\<lparr>rsdt := 0, xsdt := rsdp_xsdt_address (mem s) rsdp + hhdmoffset s\<rparr>
     else s\<lparr>xsdt := 0, rsdt := ucast (rsdp_rsdt_address (mem s) rsdp) + hhdmoffset s\<rparr>)"

lemma acpi_lookup_console [simp]:
  "acpi_lookup (s\<lparr>fb_out := out, io_trace := tr\<rparr>) sg = acpi_lookup s sg"
  by (simp add: acpi_lookup_def acpi_tables_def acpi_entry_count_def acpi_entry_def [abs_def])

lemma root_messages:
  assumes "console_ok s"
  shows "prints (kseq (klog LOG_INFO ''acpi'' msg) (kbind (kget f) (\<lambda>x.
     kseq (kprintf ''XSDT address: 0x{xn}'' [ANum x]) (print_oemid x)))) s"
    "prints (kseq (klog LOG_INFO ''acpi'' msg) (kbind (kget f) (\<lambda>x.
     kseq (kprintf ''RSDT address: 0x{xn}'' [ANum x]) (print_oemid x)))) s"
proof -
  have p: "prints (kbind (kget f) g) t = prints (g (f t)) t" for f :: "'a acpi_scheme \<Rightarrow> u64" and g t
    by (simp add: prints_def kbind_cases)
  show "prints (kseq (klog LOG_INFO ''acpi'' msg) (kbind (kget f) (\<lambda>x.
     kseq (kprintf ''XSDT address: 0x{xn}'' [ANum x]) (print_oemid x)))) s"
    "prints (kseq (klog LOG_INFO ''acpi'' msg) (kbind (kget f) (\<lambda>x.
     kseq (kprintf ''RSDT address: 0x{xn}'' [ANum x]) (print_oemid x)))) s"
    using assms by (auto intro!: prints_kseq prints_klog prints_kprintf print_oemid_prints
        simp: p cstr_def render_spec)
qed

lemma acpi_init_run:
  assumes ok: "console_ok s" and resp: "rsdp_request_response s = Some rsdp"
  shows "\<exists>out tr. acpi_init s = kbind (find_acpi_table (sig ''APIC'')) (\<lambda>t.
       kseq (kmod (\<lambda>s. s\<lparr>madt := t\<rparr>))
            (kif (t = 0) (kseq (klog LOG_ERROR ''acpi_init'' ''MADT table not found'') kkill)))
     ((acpi_rooted rsdp s)\<lparr>fb_out := out, io_trace := tr\<rparr>)"
proof -
  have "prints (kprintf ''RSDP address: 0x{xn}'' [ANum rsdp]) s"
    using ok by (rule prints_kprintf) (simp add: cstr_def render_spec)
  then obtain o1 t1 where p1: "kprintf ''RSDP address: 0x{xn}'' [ANum rsdp] s = Ret () (s\<lparr>fb_out := o1, io_trace := t1\<rparr>)"
    unfolding prints_def by blast
  let ?s1 = "s\<lparr>fb_out := o1, io_trace := t1\<rparr>"
  have ok1: "console_ok (acpi_rooted rsdp ?s1)" using ok by (simp add: acpi_rooted_def console_ok_def uart_ready_def)
  show ?thesis
  proof (cases "rsdp_revision (mem s) rsdp \<ge> 2")
    case True
    obtain o2 t2 where "kseq (klog LOG_INFO ''acpi'' ''Using XSDT header'') (kbind (kget xsdt) (\<lambda>x.
       kseq (kprintf ''XSDT address: 0x{xn}'' [ANum x]) (print_oemid x))) (acpi_rooted rsdp ?s1)
       = Ret () ((acpi_rooted rsdp ?s1)\<lparr>fb_out := o2, io_trace := t2\<rparr>)"
      using root_messages(1) [OF ok1] unfolding prints_def by blast
    then show ?thesis
      using resp p1 True
      by (intro exI [of _ o2] exI [of _ t2]) (simp add: acpi_init_def acpi_rooted_def kbind_cases kseq_cases)
  next
    case False
    obtain o2 t2 where "kseq (klog LOG_INFO ''acpi'' ''Using RSDT header'') (kbind (kget rsdt) (\<lambda>x.
       kseq (kprintf ''RSDT address: 0x{xn}'' [ANum x]) (print_oemid x))) (acpi_rooted rsdp ?s1)
       = Ret () ((acpi_rooted rsdp ?s1)\<lparr>fb_out := o2, io_trace := t2\<rparr>)"
      using root_messages(2) [OF ok1] unfolding prints_def by blast
    then show ?thesis
      using resp p1 False
      by (intro exI [of _ o2] exI [of _ t2]) (simp add: acpi_init_def acpi_rooted_def kbind_cases kseq_cases)
  qed
qed

text \<open>
  C10: with a working console and an RSDP, \<open>acpi_init\<close> roots the search at the XSDT for
  revision 2 and later and at the RSDT otherwise, and sets \<open>madt\<close> to the first table of
  the root with the signature \<open>APIC\<close>; when there is none it kills the kernel.
\<close>

theorem acpi_init_correct:
  fixes s :: "'a acpi_scheme"
  assumes ok: "console_ok s" and resp: "rsdp_request_response s = Some rsdp"
    and root: "xsdt (acpi_rooted rsdp s) \<noteq> 0 \<or> rsdt (acpi_rooted rsdp s) \<noteq> 0"
  shows "(acpi_lookup (acpi_rooted rsdp s) (sig ''APIC'') \<noteq> 0 \<longrightarrow> (\<exists>out tr. acpi_init s = Ret ()
           ((acpi_rooted rsdp s)\<lparr>madt := acpi_lookup (acpi_rooted rsdp s) (sig ''APIC''),
              fb_out := out, io_trace := tr\<rparr>)))
       \<and> (acpi_lookup (acpi_rooted rsdp s) (sig ''APIC'') = 0 \<longrightarrow>
           (\<exists>s'. acpi_init s = Killed s' \<and> kernel_killed s'))"
proof -
  obtain out tr where run: "acpi_init s = kbind (find_acpi_table (sig ''APIC'')) (\<lambda>t.
       kseq (kmod (\<lambda>s. s\<lparr>madt := t\<rparr>))
            (kif (t = 0) (kseq (klog LOG_ERROR ''acpi_init'' ''MADT table not found'') kkill)))
     ((acpi_rooted rsdp s)\<lparr>fb_out := out, io_trace := tr\<rparr>)" 
    using acpi_init_run [OF ok resp] by blast
  let ?t = "(acpi_rooted rsdp s)\<lparr>fb_out := out, io_trace := tr\<rparr>"
  have f: "find_acpi_table (sig ''APIC'') ?t = Ret (acpi_lookup (acpi_rooted rsdp s) (sig ''APIC'')) ?t"
    using find_acpi_table_eq [of ?t "sig ''APIC''"] root by simp
  have ok': "console_ok (?t\<lparr>madt := 0\<rparr>)" using ok by (simp add: acpi_rooted_def console_ok_def uart_ready_def)
  show ?thesis
  proof (intro conjI impI)
    assume "acpi_lookup (acpi_rooted rsdp s) (sig ''APIC'') \<noteq> 0"
    then show "\<exists>out tr. acpi_init s = Ret () ((acpi_rooted rsdp s)\<lparr>madt := acpi_lookup (acpi_rooted rsdp s) (sig ''APIC''),
              fb_out := out, io_trace := tr\<rparr>)"
      using run f by (intro exI [of _ out] exI [of _ tr]) (simp add: kbind_cases kseq_cases)
  next
    assume "acpi_lookup (acpi_rooted rsdp s) (sig ''APIC'') = 0"
    then show "\<exists>s'. acpi_init s = Killed s' \<and> kernel_killed s'"
      using run f klog_console [OF ok', of LOG_ERROR "''acpi_init''" "''MADT table not found''"]
      by (auto simp: kbind_cases kseq_cases kkill_def)
  qed
qed


section \<open>Concrete tables\<close>

text \<open>A MADT with an I/O APIC record and an override of line 0, and one with a record of length 0.\<close>

definition madt_bytes :: "u8 list" where
  "madt_bytes = sig ''APIC'' @ [66, 0, 0, 0] @ replicate 36 0
     @ [1, 12, 0, 0, 0, 0, 0xC0, 0xFE, 0, 0, 0, 0] @ [2, 10, 0, 0, 2, 0, 0, 0, 0, 0]"

definition bad_madt_bytes :: "u8 list" where
  "bad_madt_bytes = sig ''APIC'' @ [54, 0, 0, 0] @ replicate 36 0 @ [0, 8, 0, 0, 0, 0, 0, 0] @ [1, 0]"

definition xsdt_bytes :: "u8 list" where
  "xsdt_bytes = sig ''XSDT'' @ [44, 0, 0, 0] @ replicate 28 0 @ [0, 0x10, 0, 0, 0, 0, 0, 0]"

definition rsdp_bytes :: "u8 list" where
  "rsdp_bytes = replicate 15 0 @ [2] @ replicate 8 0 @ [0, 0x20, 0, 0, 0, 0, 0, 0]"

definition acpi_boot :: "mem \<Rightarrow> u64 \<Rightarrow> acpi" where
  "acpi_boot m t = heap.extend (heap_boot\<lparr>mem := m\<rparr>) (acpi.fields (Some 0x500) 0 0 t)"

lemma acpi_boot_simps [simp]:
  "mem (acpi_boot m t) = m" "hhdmoffset (acpi_boot m t) = 0xffff800000000000" "madt (acpi_boot m t) = t"
  "rsdp_request_response (acpi_boot m t) = Some 0x500" "console_ok (acpi_boot m t)"
  by (simp_all add: acpi_boot_def heap_boot_def vm_boot_def boot_state_def vmm.defs heap.defs pmm.defs
      acpi.defs console_ok_def)

definition madt_mem :: mem where "madt_mem = store_bytes (\<lambda>_. 0) 0x1000 madt_bytes"
definition bad_madt_mem :: mem where "bad_madt_mem = store_bytes (\<lambda>_. 0) 0x1000 bad_madt_bytes"

definition tables_mem :: mem where
  "tables_mem x = (if x < 0x1000 then store_bytes (\<lambda>_. 0) 0x500 rsdp_bytes x
     else if x < 0x2000 then madt_mem x else store_bytes (\<lambda>_. 0) 0x2000 xsdt_bytes x)"

lemma madt_mem_facts:
  "ucast (hdr_length madt_mem 0x1000) - sizeof_desc_header_t - 8 = (22 :: u64)"
  "ics_path madt_mem (madt_ics 0x1000) 22 0 [0, 12] 22"
  "first_hit (\<lambda>x. ics_visit 1 madt_mem (madt_ics 0x1000 + x)) [0, 12] = Some 0x102C"
  "first_hit (\<lambda>x. iso_visit 0 madt_mem (madt_ics 0x1000 + x)) [0, 12] = Some 2"
  by code_simp+

theorem madt_walks_correct_witness:
  "find_ics 1 (acpi_boot madt_mem 0x1000) = Ret 0x102C (acpi_boot madt_mem 0x1000)
   \<and> find_iso 0 (acpi_boot madt_mem 0x1000) = Ret 2 (acpi_boot madt_mem 0x1000)"
proof -
  have "ics_bytes (acpi_boot madt_mem 0x1000) = 22" using madt_mem_facts(1) by (simp add: ics_bytes_def)
  then show ?thesis
    using madt_walks_correct [of "acpi_boot madt_mem 0x1000" "[0, 12]" 22 1 0] madt_mem_facts
    by (simp del: ics_path.simps first_hit.simps)
qed

lemma bad_madt_mem_facts:
  "ucast (hdr_length bad_madt_mem 0x1000) - sizeof_desc_header_t - 8 = (10 :: u64)"
  "ics_path bad_madt_mem (madt_ics 0x1000) 10 0 [0] 8"
  "ics_length bad_madt_mem (madt_ics 0x1000 + 8) = 0"
  "ics_type bad_madt_mem (madt_ics 0x1000 + 0) = 0" "ics_type bad_madt_mem (madt_ics 0x1000 + 8) = 1"
  by code_simp+

theorem madt_zero_length_diverges_witness:
  "find_ics 5 (acpi_boot bad_madt_mem 0x1000) = Diverge"
proof -
  have "ics_bytes (acpi_boot bad_madt_mem 0x1000) = 10" using bad_madt_mem_facts(1) by (simp add: ics_bytes_def)
  then show ?thesis
    using bad_madt_mem_facts
    by (intro madt_zero_length_diverges [where os = "[0]" and j = 8]) simp_all
qed

lemma tables_mem_facts:
  "rsdp_revision tables_mem 0x500 = 2" "rsdp_xsdt_address tables_mem 0x500 = 0x2000"
  "hdr_length tables_mem 0x2000 = 44" "xsdt_entry tables_mem 0x2000 0 = 0x1000"
  "hdr_signature tables_mem 0x1000 = sig ''APIC''"
  by code_simp+

theorem acpi_init_correct_witness:
  "\<exists>s'. acpi_init ((acpi_boot tables_mem 0)\<lparr>hhdmoffset := 0\<rparr>) = Ret () s' \<and> madt s' = 0x1000 \<and> xsdt s' = 0x2000"
proof -
  let ?s = "(acpi_boot tables_mem 0)\<lparr>hhdmoffset := 0\<rparr>"
  let ?r = "acpi_rooted 0x500 ?s"
  have ok: "console_ok ?s" using acpi_boot_simps(5) [of tables_mem 0] by (simp add: console_ok_def uart_ready_def)
  have r: "?r = ?s\<lparr>rsdt := 0, xsdt := 0x2000\<rparr>"
    using tables_mem_facts by (simp add: acpi_rooted_def)
  have "acpi_lookup ?r (sig ''APIC'') = 0x1000"
    using tables_mem_facts
    by (simp add: r acpi_lookup_def acpi_tables_def acpi_entry_count_def acpi_entry_def sizeof_desc_header_t_def)
  then show ?thesis
    using acpi_init_correct [OF ok, of "0x500"] by (auto simp: r)
qed

end
