(* ===== verification/Timer.thy ===== *)
theory Timer
  imports Acpi
begin

text \<open>
  Timers: the ACPI power management timer of \<^verbatim>\<open>src/drivers/pmt.c\<close>, the time-stamp
  counter of \<^verbatim>\<open>src/hal/tsc.c\<close>, the choice of the calibration timer of
  \<^verbatim>\<open>src/hal/timer.c\<close> and the clock of \<^verbatim>\<open>src/sys/time.c\<close>. A busy wait
  returns exactly at the first poll that shows enough ticks, and never returns when it waits
  for more ticks than the 24 bits it keeps can show.
\<close>

section \<open>State and operations\<close>

datatype kstatus = KERNEL_STATUS_SUCCESS | KERNEL_STATUS_ERROR

datatype USABLE_TIMERS = HPET | PMT | PIT

definition PMT_TIMER_RATE :: u64 where "PMT_TIMER_RATE = 3579545"
definition X_PMT_TMR_BLOCK_OFFSET :: u32 where "X_PMT_TMR_BLOCK_OFFSET = 208"

record timers = acpi +
  fadt :: u64
  use_ext :: bool
  calibration_timer :: "USABLE_TIMERS option"

definition pmt_read_reg :: "gas_t \<Rightarrow> ('a timers_scheme, u64) kern" where
  "pmt_read_reg blk =
     (if address_space_id blk = 0x00 then mmio_read64 (address blk)
      else if address_space_id blk = 0x01 then kbind (inl (ucast (address blk))) (\<lambda>v. kret (ucast v))
      else kseq (serial_kprintf ''address id: 0x{xn}'' [ANum (ucast (address_space_id blk))])
          (kseq (klog LOG_ERROR ''pmt_read_reg'' ''X_PMTimerBlock address space id isn't supported!'')
                (kret 0)))"

definition pmt_init :: "('a timers_scheme, int) kern" where
  "pmt_init =
     kbind (find_acpi_table (sig ''FACP'')) (\<lambda>t.
     kseq (kmod (\<lambda>s. s\<lparr>fadt := t\<rparr>))
    (kseq (kif (t = 0) (kseq (klog LOG_ERROR ''pmt_init'' ''Didn't find FADT table'') kkill))
    (kseq (kmod (\<lambda>s. s\<lparr>fadt := t + hhdmoffset s\<rparr>))
    (kbind (kget (\<lambda>s. fadt_PMTimerLength (mem s) (fadt s))) (\<lambda>len.
     if len = 0 then kret (-1)
     else kbind (kget (\<lambda>s. hdr_revision (mem s) (fadt s) \<ge> 2
              \<and> address (fadt_X_PMTimerBlock (mem s) (fadt s)) \<noteq> 0
              \<and> hdr_length (mem s) (fadt s) \<ge> X_PMT_TMR_BLOCK_OFFSET)) (\<lambda>ext.
          kseq (kif ext (kseq (serial_kprintf (''pmt: Using the X_PMTimerBlock'' @ nl) [])
                              (kmod (\<lambda>s. s\<lparr>use_ext := True\<rparr>))))
               (kret 0)))))))"

text \<open>One reading of the counter, through the port or the extended block.\<close>

definition pmt_count :: "('a timers_scheme, u64) kern" where
  "pmt_count = kbind (kget use_ext) (\<lambda>ext.
     kbind (kget fadt) (\<lambda>f. kseq (deref f)
    (if \<not> ext then kbind (kget (\<lambda>s. fadt_PMTimerBlock (mem s) f)) (\<lambda>blk.
                     kbind (inl (ucast blk)) (\<lambda>v. kret (ucast v)))
     else kbind (kget (\<lambda>s. fadt_X_PMTimerBlock (mem s) f)) pmt_read_reg)))"

definition pmt_target :: "u64 \<Rightarrow> u64" where
  "pmt_target us = (us * PMT_TIMER_RATE) div 1000000"

definition pmt_delay_round :: "u64 \<Rightarrow> u64 \<Rightarrow> u64 \<Rightarrow> ('a timers_scheme, u64 + unit) kern" where
  "pmt_delay_round count target current =
     (if current < target then kbind pmt_count (\<lambda>v. kret (Inl ((v - count) AND 0xffffff)))
      else kret (Inr ()))"

definition pmt_delay :: "u64 \<Rightarrow> ('a timers_scheme, unit) kern" where
  "pmt_delay us = kbind pmt_count (\<lambda>count. kloop (pmt_delay_round count (pmt_target us)) 0)"

definition timer_init :: "('a timers_scheme, unit) kern" where
  "timer_init = kbind pmt_init (\<lambda>r.
     if r = -1 then klog LOG_INFO ''timer_init'' ''PMT Timer not found, falling back''
     else kmod (\<lambda>s. s\<lparr>calibration_timer := Some PMT\<rparr>))"

section \<open>The time-stamp counter\<close>

definition enable_tsc :: "('a machine_scheme, unit) kern" where
  "enable_tsc = kmod (\<lambda>s. s\<lparr>cr4 := cr4 s OR 0b10\<rparr>)"

definition disable_tsc :: "('a machine_scheme, unit) kern" where
  "disable_tsc = kmod (\<lambda>s. s\<lparr>cr4 := cr4 s AND 0xFFFFFFFFFFFFFFFD\<rparr>)"

definition tsc_init :: "('a timers_scheme, kstatus) kern" where
  "tsc_init =
     kbind (hw_read (CpuidEdx 0x80000007)) (\<lambda>edx.
     if (ucast edx :: u32) AND push_bit 8 1 = 0 then kret KERNEL_STATUS_ERROR
     else
       kseq (kprintf (''tsc: Invariant TSC found'' @ nl) [])
      (kbind (hw_read (CpuidEcx 0x15)) (\<lambda>ecx.
       kseq (kmod (\<lambda>s. s\<lparr>core_crystal_clock := ucast ecx\<rparr>))
      (kbind (kget core_crystal_clock) (\<lambda>clk.
       kseq (if clk \<noteq> 0 then
               kseq (kprintf (''cpuid 15h supported!'' @ nl) [])
                    (kmod (\<lambda>s. s\<lparr>core_crystal_clock := core_crystal_clock s * 1000\<rparr>))
             else
               kseq enable_tsc
              (kbind read_tsc (\<lambda>r1. let read1 = (ucast r1 :: u32) in
               kseq (pmt_delay 1000)
              (kbind read_tsc (\<lambda>r2. let read2 = (ucast r2 :: u32) in
               kseq disable_tsc
                    (kmod (\<lambda>s. s\<lparr>core_crystal_clock := read2 - read1\<rparr>)))))))
      (kbind (kget core_crystal_clock) (\<lambda>clk.
       kseq (kprintf (''Core crystal clock: {d}'' @ nl) [ANum (ucast clk)])
      (kseq enable_tsc
            (kret KERNEL_STATUS_SUCCESS)))))))))"

definition kernel_get_timestamp :: "('a timers_scheme, u64) kern" where
  "kernel_get_timestamp = kbind tsc_get_timestamp (\<lambda>tsc. kret tsc)"

section \<open>Busy waiting on the power management timer\<close>

text \<open>The states of the successive polls of port \<open>p\<close>, and the values they read.\<close>

definition pmt_port :: "'a timers_scheme \<Rightarrow> u16" where
  "pmt_port s = ucast (fadt_PMTimerBlock (mem s) (fadt s))"

fun polled :: "'a machine_scheme \<Rightarrow> io_req \<Rightarrow> nat \<Rightarrow> 'a machine_scheme" where
  "polled s r 0 = s"
| "polled s r (Suc n) = (let t = polled s r n in
     t\<lparr>io_trace := Read r (devices t (io_trace t) r) # io_trace t\<rparr>)"

definition poll_value :: "'a machine_scheme \<Rightarrow> u16 \<Rightarrow> nat \<Rightarrow> u64" where
  "poll_value s p n = ucast (ucast (devices (polled s (In32 p) n) (io_trace (polled s (In32 p) n)) (In32 p)) :: u32)"

text \<open>The ticks the code sees at the \<open>n\<close>-th poll after the first reading.\<close>

definition pmt_elapsed :: "'a machine_scheme \<Rightarrow> u16 \<Rightarrow> nat \<Rightarrow> u64" where
  "pmt_elapsed s p n = (if n = 0 then 0 else (poll_value s p n - poll_value s p 0) AND 0xffffff)"

lemma polled_fields [simp]:
  fixes s :: "'a timers_scheme"
  shows "mem (polled s r n) = mem s" "fadt (polled s r n) = fadt s" "use_ext (polled s r n) = use_ext s"
  by (induction n) (simp_all add: Let_def)

lemma pmt_count_port:
  fixes s :: "'a timers_scheme"
  assumes "fadt s \<noteq> 0" "\<not> use_ext s"
  shows "pmt_count (polled s (In32 (pmt_port s)) n)
       = Ret (poll_value s (pmt_port s) n) (polled s (In32 (pmt_port s)) (Suc n))"
  using assms by (simp add: pmt_count_def kbind_cases kseq_cases inl_def hw_read_def Let_def poll_value_def pmt_port_def)

lemma pmt_delay_polls:
  fixes s :: "'a timers_scheme"
  assumes "fadt s \<noteq> 0" "\<not> use_ext s" and lt: "\<forall>k < n. pmt_elapsed s (pmt_port s) k < target"
  shows "kloop (pmt_delay_round (poll_value s (pmt_port s) 0) target) 0 (polled s (In32 (pmt_port s)) 1)
       = kloop (pmt_delay_round (poll_value s (pmt_port s) 0) target) (pmt_elapsed s (pmt_port s) n)
           (polled s (In32 (pmt_port s)) (Suc n))"
  using lt
proof (induction n)
  case 0
  then show ?case by (simp add: pmt_elapsed_def)
next
  case (Suc n)
  let ?p = "pmt_port s"
  have "pmt_delay_round (poll_value s ?p 0) target (pmt_elapsed s ?p n) (polled s (In32 ?p) (Suc n))
      = Ret (Inl (pmt_elapsed s ?p (Suc n))) (polled s (In32 ?p) (Suc (Suc n)))"
    using Suc.prems pmt_count_port [OF assms(1,2), of "Suc n"]
    by (simp add: pmt_delay_round_def kbind_cases pmt_elapsed_def)
  then show ?case using Suc by (simp add: kloop_step(1) del: polled.simps)
qed

text \<open>
  A busy wait on the power management timer returns at the first poll that shows the
  ticks it waits for. If the \<open>n\<close>-th poll after the first reading is the first one with
  at least \<open>us * 3579545 / 1000000\<close> ticks, \<open>pmt_delay us\<close> returns after exactly
  \<open>n + 1\<close> reads of the counter and changes nothing else.
\<close>

theorem pmt_delay_returns:
  fixes s :: "'a timers_scheme"
  assumes "fadt s \<noteq> 0" "\<not> use_ext s"
    and "\<forall>k < n. pmt_elapsed s (pmt_port s) k < pmt_target us" "pmt_target us \<le> pmt_elapsed s (pmt_port s) n"
  shows "pmt_delay us s = Ret () (polled s (In32 (pmt_port s)) (Suc n))"
proof -
  let ?p = "pmt_port s"
  have "pmt_delay_round (poll_value s ?p 0) (pmt_target us) (pmt_elapsed s ?p n) (polled s (In32 ?p) (Suc n))
      = Ret (Inr ()) (polled s (In32 ?p) (Suc n))"
    using assms(4) by (simp add: pmt_delay_round_def leD)
  then show ?thesis
    using pmt_delay_polls [OF assms(1-3)] pmt_count_port [OF assms(1,2), of 0]
    by (simp add: pmt_delay_def kbind_cases kloop_step(2) del: polled.simps) (simp add: kbind_cases)
qed

lemma pmt_count_total:
  fixes s :: "'a timers_scheme"
  assumes "fadt s \<noteq> 0" "use_ext s \<longrightarrow> address_space_id (fadt_X_PMTimerBlock (mem s) (fadt s)) \<in> {0, 1}"
  shows "\<exists>v tr. pmt_count s = Ret v (s\<lparr>io_trace := tr\<rparr>)"
  using assms
  by (cases "use_ext s") (auto simp: pmt_count_def pmt_read_reg_def mmio_read64_def inl_def hw_read_def Let_def
      kbind_cases kseq_cases)

text \<open>
  A wait for more than \<open>0xffffff\<close> ticks, that is for about 4.7 seconds or longer,
  never returns, whatever the timer counts: the loop keeps only the low 24 bits of the
  difference.
\<close>

theorem pmt_delay_too_long:
  fixes s :: "'a timers_scheme"
  assumes "fadt s \<noteq> 0" "use_ext s \<longrightarrow> address_space_id (fadt_X_PMTimerBlock (mem s) (fadt s)) \<in> {0, 1}"
    and "0xffffff < pmt_target us"
  shows "pmt_delay us s = Diverge"
proof -
  let ?P = "\<lambda>(x :: u64) t. x \<le> 0xffffff \<and> (\<exists>tr. t = s\<lparr>io_trace := tr\<rparr>)"
  have cnt: "\<exists>v tr'. pmt_count (s\<lparr>io_trace := tr\<rparr>) = Ret v (s\<lparr>io_trace := tr'\<rparr>)" for tr
    using pmt_count_total [of "s\<lparr>io_trace := tr\<rparr>"] assms(1,2) by simp
  have loop: "kloop (pmt_delay_round c (pmt_target us)) 0 (s\<lparr>io_trace := tr\<rparr>) = Diverge" for c tr
  proof (rule kloop_diverge [where P = ?P])
    fix x t assume "?P x t"
    then obtain tr where x: "x \<le> 0xffffff" and t: "t = s\<lparr>io_trace := tr\<rparr>" by blast
    obtain v tr' where v: "pmt_count t = Ret v (s\<lparr>io_trace := tr'\<rparr>)" using cnt t by blast
    have "x < pmt_target us" using x assms(3) by simp
    then have "pmt_delay_round c (pmt_target us) x t = Ret (Inl ((v - c) AND 0xffffff)) (s\<lparr>io_trace := tr'\<rparr>)"
      using v by (simp add: pmt_delay_round_def kbind_cases)
    then show "\<exists>x' s'. pmt_delay_round c (pmt_target us) x t = Ret (Inl x') s' \<and> ?P x' s'"
      using word_and_le1 by blast
  qed auto
  obtain v tr where "pmt_count s = Ret v (s\<lparr>io_trace := tr\<rparr>)" using pmt_count_total [OF assms(1,2)] by blast
  then show ?thesis using loop by (simp add: pmt_delay_def kbind_cases)
qed

text \<open>A counter that advances by 4000 at every access.\<close>

definition timers_boot :: timers where
  "timers_boot = acpi.extend ((acpi_boot (\<lambda>_. 0) 0)\<lparr>devices := (\<lambda>tr _. of_nat (4000 * length tr))\<rparr>)
     (timers.fields 0x3000 False None)"

lemma timers_boot_simps [simp]:
  "fadt timers_boot = 0x3000" "use_ext timers_boot = False" "io_trace timers_boot = []"
  "devices timers_boot = (\<lambda>tr _. of_nat (4000 * length tr))"
  by (simp_all add: timers_boot_def acpi_boot_def heap_boot_def vm_boot_def boot_state_def vmm.defs heap.defs
      pmm.defs acpi.defs timers.defs)

theorem pmt_delay_returns_witness:
  "pmt_delay 1000 timers_boot = Ret () (polled timers_boot (In32 (pmt_port timers_boot)) (Suc 1))"
proof -
  have "pmt_target 1000 = 3579" by (simp add: pmt_target_def PMT_TIMER_RATE_def)
  moreover have "pmt_elapsed timers_boot p 1 = 4000" "pmt_elapsed timers_boot p 0 = 0" for p
    by (simp_all add: pmt_elapsed_def poll_value_def)
  ultimately show ?thesis
    by (intro pmt_delay_returns) simp_all
qed

theorem pmt_delay_too_long_witness:
  "pmt_delay 5000000 timers_boot = Diverge"
proof -
  have "0xffffff < pmt_target 5000000" by (simp add: pmt_target_def PMT_TIMER_RATE_def)
  then show ?thesis using pmt_delay_too_long [of timers_boot 5000000] by simp
qed

end
