(* ===== verification/Apic.thy ===== *)
theory Apic
  imports Timer
begin

text \<open>
  Interrupt controllers: the local APIC of \<^verbatim>\<open>src/hal/apic.c\<close>, the I/O APIC of
  \<^verbatim>\<open>src/hal/ioapic.c\<close>, and the per-processor structure of \<^verbatim>\<open>src/hal/smp.h\<close>
  through which the timer interrupt counts. A redirection entry is proved to carry the
  fields it was built from; sleeping is proved to last the ticks asked for when no tick
  falls between its first two readings, and to end at once when one does.
\<close>

section \<open>The per-processor structure\<close>

definition GSBASE :: u64 where "GSBASE = 0xC0000101"
definition KERNELGSBASE :: u64 where "KERNELGSBASE = 0xC0000102"

text \<open>
  \<^verbatim>\<open>struct cpu_state\<close> is packed: \<open>lapic_id\<close> at 0, \<open>lapic_timer_ticks\<close> at 4,
  512 process slots of 96 bytes at 12, \<open>current_process\<close> at 49164, \<open>process_count\<close> at
  49172, \<open>scheduler_context\<close> at 49174.
\<close>

definition sizeof_cpu_state :: u64 where "sizeof_cpu_state = 49246"
definition off_lapic_timer_ticks :: u64 where "off_lapic_timer_ticks = 4"
definition off_process_list :: u64 where "off_process_list = 12"
definition off_current_process :: u64 where "off_current_process = 49164"

record apic = timers +
  lapic_address :: u64
  ioapic_address :: u64

definition get_cpu_struct :: "('a machine_scheme, u64) kern" where
  "get_cpu_struct = rdmsr GSBASE"

definition get_cpu_struct_initialized :: "('a machine_scheme, bool) kern" where
  "get_cpu_struct_initialized = kbind (rdmsr GSBASE) (\<lambda>v. kbind (kget hhdmoffset) (\<lambda>h.
     if v < h then kret False else kret True))"

definition lapic_timer_ticks :: "('a machine_scheme, u64) kern" where
  "lapic_timer_ticks = kbind get_cpu_struct (\<lambda>c. kseq (deref c)
     (kget (\<lambda>s. load64 (mem s) (c + off_lapic_timer_ticks))))"

section \<open>The I/O APIC\<close>

definition IOREGSEL :: u64 where "IOREGSEL = 0x0"
definition IOWIN :: u64 where "IOWIN = 0x10"

definition IOREDTBL :: "u8 \<Rightarrow> int" where
  "IOREDTBL x = 0x10 + (uint x * 2)"

definition ioapic_write_reg :: "u8 \<Rightarrow> u32 \<Rightarrow> ('a apic_scheme, unit) kern" where
  "ioapic_write_reg reg data = kbind (kget ioapic_address) (\<lambda>a.
     kseq (emit (MmioWrite32 (a + IOREGSEL) (ucast reg)))
          (emit (MmioWrite32 (a + IOWIN) data)))"

definition ioapic_read_reg :: "u8 \<Rightarrow> ('a apic_scheme, u32) kern" where
  "ioapic_read_reg reg = kbind (kget ioapic_address) (\<lambda>a.
     kseq (emit (MmioWrite32 (a + IOREGSEL) (ucast reg))) (mmio_read32 (a + IOWIN)))"

definition write_redir_entry :: "u8 \<Rightarrow> u64 \<Rightarrow> ('a apic_scheme, unit) kern" where
  "write_redir_entry reg data =
     kseq (ioapic_write_reg (of_int (IOREDTBL reg)) (ucast (data AND 0xFFFFFFFF)))
          (ioapic_write_reg (of_int (IOREDTBL reg + 1)) (ucast (drop_bit 32 data)))"

definition redir_data :: "u8 \<Rightarrow> u8 \<Rightarrow> u8 \<Rightarrow> u8 \<Rightarrow> u8 \<Rightarrow> u64" where
  "redir_data vector delivery trigger destination_field destination_mode =
     push_bit 56 (ucast destination_field) OR push_bit 15 (ucast trigger)
       OR push_bit 11 (ucast destination_mode) OR push_bit 8 (ucast delivery) OR ucast vector"

definition set_redir_entry :: "u8 \<Rightarrow> u8 \<Rightarrow> u8 \<Rightarrow> u8 \<Rightarrow> u8 \<Rightarrow> u8 \<Rightarrow> ('a apic_scheme, kstatus) kern" where
  "set_redir_entry pin vector delivery trigger destination_field destination_mode =
     kseq (write_redir_entry pin (redir_data vector delivery trigger destination_field destination_mode))
          (kret KERNEL_STATUS_SUCCESS)"

definition ioapic_init :: "('a apic_scheme, unit) kern" where
  "ioapic_init = kbind (find_ics 0x1) (\<lambda>ioapic.
     kseq (kif (ioapic = 0) (kseq (klog LOG_ERROR ''ioapic_init'' (''IOAPIC ICS not found'' @ nl)) kkill))
          (kmod (\<lambda>s. s\<lparr>ioapic_address := ucast (ics_ioapic_address (mem s) ioapic) + hhdmoffset s\<rparr>)))"

section \<open>The local APIC\<close>

definition LAPIC_EOI_REG :: u32 where "LAPIC_EOI_REG = 0x0B0"
definition LAPIC_SPURIOUS_REG :: u32 where "LAPIC_SPURIOUS_REG = 0x0F0"
definition LAPIC_LVT_TIMER_REG :: u32 where "LAPIC_LVT_TIMER_REG = 0x320"
definition LAPIC_TIMER_INITIAL_CNT_REG :: u32 where "LAPIC_TIMER_INITIAL_CNT_REG = 0x380"
definition LAPIC_TIMER_CURRENT_CNT_REG :: u32 where "LAPIC_TIMER_CURRENT_CNT_REG = 0x390"
definition LAPIC_TIMER_DIVIDER_REG :: u32 where "LAPIC_TIMER_DIVIDER_REG = 0x3E0"
definition LAPIC_TIMER_MASK :: u32 where "LAPIC_TIMER_MASK = push_bit 16 1"
definition LAPIC_TIMER_PERIODIC :: u32 where "LAPIC_TIMER_PERIODIC = push_bit 17 1"
definition LAPIC_TIMER_VECTOR :: u32 where "LAPIC_TIMER_VECTOR = 69"

definition lapic_write_reg :: "u32 \<Rightarrow> u32 \<Rightarrow> ('a apic_scheme, unit) kern" where
  "lapic_write_reg reg data = kbind (kget lapic_address) (\<lambda>a. emit (MmioWrite32 (a + ucast reg) data))"

definition lapic_read_reg :: "u32 \<Rightarrow> ('a apic_scheme, u32) kern" where
  "lapic_read_reg reg = kbind (kget lapic_address) (\<lambda>a. mmio_read32 (a + ucast reg))"

text \<open>
  Interrupts are the environment of a busy wait: \<open>irq n\<close> is what arrives before reading
  \<open>n\<close> of the tick counter.
\<close>

definition apic_sleep_round ::
  "(nat \<Rightarrow> ('a machine_scheme, unit) kern) \<Rightarrow> u64 \<Rightarrow> u64 \<Rightarrow> nat \<times> u64 \<Rightarrow> ('a machine_scheme, nat \<times> u64 + unit) kern" where
  "apic_sleep_round irq ms curcnt = (\<lambda>(n, ticks).
     if ticks - curcnt < ms
     then kseq (irq n) (kbind lapic_timer_ticks (\<lambda>t. kret (Inl (n + 1, t))))
     else kret (Inr ()))"

definition apic_sleep :: "(nat \<Rightarrow> ('a machine_scheme, unit) kern) \<Rightarrow> u64 \<Rightarrow> ('a machine_scheme, unit) kern" where
  "apic_sleep irq ms =
     kbind lapic_timer_ticks (\<lambda>ticks.
     kseq (irq 0)
    (kbind lapic_timer_ticks (\<lambda>curcnt.
     kloop (apic_sleep_round irq ms curcnt) (1, ticks))))"

definition sleep :: "(nat \<Rightarrow> ('a machine_scheme, unit) kern) \<Rightarrow> u32 \<Rightarrow> ('a machine_scheme, unit) kern" where
  "sleep irq ms = apic_sleep irq (scast ms)"

definition lapic_timer_init :: "u32 \<Rightarrow> ('a apic_scheme, unit) kern" where
  "lapic_timer_init us =
     kseq (acquire_lock lapic_timer_flag)
    (kseq (lapic_write_reg LAPIC_TIMER_INITIAL_CNT_REG 0)
    (kseq (lapic_write_reg LAPIC_TIMER_DIVIDER_REG 0b11)
    (kseq (lapic_write_reg LAPIC_TIMER_INITIAL_CNT_REG 0xffffffff)
    (kseq (pmt_delay (scast us))
    (kseq (lapic_write_reg LAPIC_LVT_TIMER_REG LAPIC_TIMER_MASK)
    (kbind (lapic_read_reg LAPIC_TIMER_CURRENT_CNT_REG) (\<lambda>cur. let calibration = 0xffffffff - cur in
     kseq (lapic_write_reg LAPIC_LVT_TIMER_REG (LAPIC_TIMER_VECTOR OR LAPIC_TIMER_PERIODIC))
    (kseq (lapic_write_reg LAPIC_TIMER_INITIAL_CNT_REG calibration)
          (free_lock lapic_timer_flag)))))))))"

definition apic_init :: "('a apic_scheme, unit) kern" where
  "apic_init =
     kseq (emit Cli)
    (kbind (kget madt) (\<lambda>a. kseq (deref a)
    (kseq (kmod (\<lambda>s. s\<lparr>lapic_address := ucast (madt_lic_address (mem s) a) + hhdmoffset s\<rparr>))
    (kbind (find_ics 0x5) (\<lambda>ao.
     kseq (kif (ao \<noteq> 0) (kbind (kget (\<lambda>s. lapic_ao_address (mem s) ao)) (\<lambda>addr.
             kif (addr \<noteq> 0) (kmod (\<lambda>s. s\<lparr>lapic_address := addr + hhdmoffset s\<rparr>)))))
    (kseq (lapic_write_reg LAPIC_SPURIOUS_REG 0x1FF)
    (kseq ioapic_init
    (kseq timer_init
    (kseq (lapic_timer_init 10000)
          (emit Sti))))))))))"

definition ap_apic_init :: "('a apic_scheme, unit) kern" where
  "ap_apic_init =
     kseq (emit Cli)
    (kseq (lapic_write_reg LAPIC_SPURIOUS_REG 0x1FF)
    (kseq (lapic_timer_init 10000)
          (emit Sti)))"

definition apic_timer_handler :: "('a apic_scheme, unit) kern" where
  "apic_timer_handler =
     kseq (lapic_write_reg LAPIC_EOI_REG 0)
    (kbind get_cpu_struct_initialized (\<lambda>i.
     kif i (kbind get_cpu_struct (\<lambda>c. kmod (\<lambda>s. s\<lparr>mem := store64 (mem s) (c + off_lapic_timer_ticks)
         (load64 (mem s) (c + off_lapic_timer_ticks) + 1)\<rparr>)))))"

definition apic_send_ipi ::
  "u8 \<Rightarrow> u8 \<Rightarrow> u8 \<Rightarrow> u8 \<Rightarrow> u8 \<Rightarrow> u8 \<Rightarrow> u8 \<Rightarrow> u8 \<Rightarrow> ('a apic_scheme, unit) kern" where
  "apic_send_ipi dest_field dest_shorthand trigger level status destination delivery_mode vector = kret ()"

section \<open>Redirection entries\<close>

definition redir_entry_of :: "u32 \<Rightarrow> u32 \<Rightarrow> u64" where
  "redir_entry_of lo hi = push_bit 32 (ucast hi) OR ucast lo"

lemma small_bits: "take_bit k (x :: u8) = x \<Longrightarrow> k \<le> n \<Longrightarrow> \<not> bit x n"
  by (metis bit_take_bit_iff leD)

lemma bit_redir_data:
  assumes "take_bit 3 delivery = delivery" "take_bit 1 trigger = trigger" "take_bit 1 mode = mode"
  shows "bit (redir_data vector delivery trigger dest mode) n =
    (if n < 8 then bit vector n else if n < 11 then bit delivery (n - 8) else if n = 11 then bit mode 0
     else if n = 15 then bit trigger 0 else 56 \<le> n \<and> n < 64 \<and> bit dest (n - 56))"
proof -
  have v: "\<not> bit vector n" "\<not> bit dest n" if "8 \<le> n" for n
    using that small_bits [of 8] take_bit_word_eq_self [of 8 vector] take_bit_word_eq_self [of 8 dest] by auto
  note z = small_bits [OF assms(1)] small_bits [OF assms(2)] small_bits [OF assms(3)] v
  consider "n < 8" | "8 \<le> n" "n < 11" | "n = 11" | "n = 15" | "12 \<le> n" "n < 56" "n \<noteq> 15" | "56 \<le> n" by linarith
  then show ?thesis
    by cases (auto simp: redir_data_def bit_simps z)
qed

lemma redir_data_fields:
  fixes vector dest :: u8
  assumes "take_bit 3 delivery = delivery" "take_bit 1 trigger = trigger" "take_bit 1 mode = mode"
  defines "e \<equiv> redir_data vector delivery trigger dest mode"
  shows "ucast e = vector" "ucast (take_bit 3 (drop_bit 8 e)) = delivery"
    "ucast (take_bit 1 (drop_bit 11 e)) = mode" "ucast (take_bit 1 (drop_bit 15 e)) = trigger"
    "ucast (drop_bit 56 e) = dest" "take_bit 3 (drop_bit 12 e) = 0" "take_bit 40 (drop_bit 16 e) = 0"
proof -
  note b = bit_redir_data [OF assms(1-3), of vector dest, folded e_def]
  have z: "bit delivery n \<Longrightarrow> n < 3" "bit trigger n \<Longrightarrow> n = 0" "bit mode n \<Longrightarrow> n = 0" for n
    using small_bits [OF assms(1), of n] small_bits [OF assms(2), of n] small_bits [OF assms(3), of n]
    by linarith+
  show "ucast e = vector" by (rule bit_eqI) (auto simp: bit_simps b)
  show "ucast (take_bit 3 (drop_bit 8 e)) = delivery" by (rule bit_eqI) (auto simp: bit_simps b dest: z)
  show "ucast (take_bit 1 (drop_bit 11 e)) = mode" by (rule bit_eqI) (auto simp: bit_simps b bit_iff_odd_drop_bit [symmetric] dest: z)
  show "ucast (take_bit 1 (drop_bit 15 e)) = trigger" by (rule bit_eqI) (auto simp: bit_simps b bit_iff_odd_drop_bit [symmetric] dest: z)
  show "ucast (drop_bit 56 e) = dest" by (rule bit_eqI) (auto simp: bit_simps b)
  show "take_bit 3 (drop_bit 12 e) = 0" by (rule bit_eqI) (auto simp: bit_simps b)
  show "take_bit 40 (drop_bit 16 e) = 0" by (rule bit_eqI) (auto simp: bit_simps b)
qed

lemma halves_of: "ucast (d AND 0xFFFFFFFF) = (ucast d :: u32)" "redir_entry_of (ucast d) (ucast (drop_bit 32 d)) = d"
  unfolding redir_entry_of_def and_ffffffff by (rule bit_eqI; auto simp: bit_simps)+

text \<open>
  C11: \<open>set_redir_entry\<close> programs the redirection entry of its pin with two selected
  writes, the low half at register \<open>0x10 + 2 * pin\<close> and the high half at the next one;
  the 64-bit entry they form carries vector, delivery mode, destination mode, trigger mode
  and destination in their architectural bit positions, leaves the interrupt unmasked and
  all other bits clear.
\<close>

theorem set_redir_entry_programs:
  fixes s :: "'a apic_scheme"
  assumes "take_bit 3 delivery = delivery" "take_bit 1 trigger = trigger" "take_bit 1 mode = mode"
  shows "\<exists>lo hi e. set_redir_entry pin vector delivery trigger dest mode s = Ret KERNEL_STATUS_SUCCESS
      (s\<lparr>io_trace := [MmioWrite32 (ioapic_address s + 0x10) hi,
           MmioWrite32 (ioapic_address s) (ucast (0x11 + 2 * pin :: u8)),
           MmioWrite32 (ioapic_address s + 0x10) lo,
           MmioWrite32 (ioapic_address s) (ucast (0x10 + 2 * pin :: u8))] @ io_trace s\<rparr>)
    \<and> e = redir_entry_of lo hi \<and> ucast e = vector \<and> ucast (take_bit 3 (drop_bit 8 e)) = delivery
    \<and> ucast (take_bit 1 (drop_bit 11 e)) = mode \<and> take_bit 3 (drop_bit 12 e) = 0
    \<and> ucast (take_bit 1 (drop_bit 15 e)) = trigger \<and> take_bit 40 (drop_bit 16 e) = 0
    \<and> ucast (drop_bit 56 e) = dest"
proof -
  let ?d = "redir_data vector delivery trigger dest mode"
  have reg: "of_int (IOREDTBL pin) = (0x10 + 2 * pin :: u8)" "of_int (IOREDTBL pin + 1) = (0x11 + 2 * pin :: u8)"
    by (simp_all add: IOREDTBL_def mult.commute)
  have "set_redir_entry pin vector delivery trigger dest mode s = Ret KERNEL_STATUS_SUCCESS
      (s\<lparr>io_trace := [MmioWrite32 (ioapic_address s + 0x10) (ucast (drop_bit 32 ?d)),
           MmioWrite32 (ioapic_address s) (ucast (0x11 + 2 * pin :: u8)),
           MmioWrite32 (ioapic_address s + 0x10) (ucast ?d),
           MmioWrite32 (ioapic_address s) (ucast (0x10 + 2 * pin :: u8))] @ io_trace s\<rparr>)"
    unfolding set_redir_entry_def write_redir_entry_def reg halves_of(1)
    by (simp add: ioapic_write_reg_def kbind_cases kseq_cases IOREGSEL_def IOWIN_def)
  then show ?thesis
    using redir_data_fields [OF assms, of vector dest] halves_of(2) [of ?d]
    by - (rule exI [of _ "ucast ?d"], rule exI [of _ "ucast (drop_bit 32 ?d)"], rule exI [of _ ?d], simp)
qed

section \<open>Timer ticks and sleeping\<close>

text \<open>\<open>on_cpu s c\<close>: the processor's structure is at \<open>c\<close>, in the higher half.\<close>

definition on_cpu :: "'a machine_scheme \<Rightarrow> u64 \<Rightarrow> bool" where
  "on_cpu s c \<longleftrightarrow> msrs s (ucast GSBASE) = c \<and> c \<noteq> 0 \<and> hhdmoffset s \<le> c"

abbreviation ticks_at :: "'a machine_scheme \<Rightarrow> u64 \<Rightarrow> u64" where
  "ticks_at s c \<equiv> load64 (mem s) (c + off_lapic_timer_ticks)"

text \<open>The state after \<open>k\<close> timer interrupts.\<close>

fun ticked :: "u64 \<Rightarrow> 'a apic_scheme \<Rightarrow> nat \<Rightarrow> 'a apic_scheme" where
  "ticked c s 0 = s"
| "ticked c s (Suc k) = (let t = ticked c s k in
     t\<lparr>io_trace := MmioWrite32 (lapic_address t + 0xB0) 0 # io_trace t,
       mem := store64 (mem t) (c + off_lapic_timer_ticks) (ticks_at t c + 1)\<rparr>)"

lemma lapic_timer_ticks_value: "on_cpu s c \<Longrightarrow> lapic_timer_ticks s = Ret (ticks_at s c) s"
  by (auto simp: lapic_timer_ticks_def get_cpu_struct_def rdmsr_value kbind_cases kseq_cases on_cpu_def)

lemma cpu_struct_value:
  "on_cpu s c \<Longrightarrow> get_cpu_struct s = Ret c s" "on_cpu s c \<Longrightarrow> get_cpu_struct_initialized s = Ret True s"
  by (auto simp: get_cpu_struct_def get_cpu_struct_initialized_def rdmsr_value kbind_cases on_cpu_def leD)

lemma ticked_on_cpu [simp]: "on_cpu (ticked c s k) c = on_cpu s c"
  by (induction k) (simp_all add: Let_def on_cpu_def)

lemma ticked_ticks: "ticks_at (ticked c s k) c = ticks_at s c + of_nat k"
  by (induction k) (simp_all add: Let_def algebra_simps)

lemma apic_timer_handler_ticks:
  assumes "on_cpu s c"
  shows "apic_timer_handler (ticked c s k) = Ret () (ticked c s (Suc k))"
proof -
  let ?t = "ticked c s k"
  have oc: "on_cpu (?t\<lparr>io_trace := tr\<rparr>) c" for tr
    using assms ticked_on_cpu [of c s k] by (simp add: on_cpu_def)
  have "apic_timer_handler ?t = Ret () (?t\<lparr>io_trace := MmioWrite32 (lapic_address ?t + 0xB0) 0 # io_trace ?t,
       mem := store64 (mem ?t) (c + off_lapic_timer_ticks) (ticks_at ?t c + 1)\<rparr>)"
    by (simp add: apic_timer_handler_def lapic_write_reg_def LAPIC_EOI_REG_def cpu_struct_value [OF oc]
        kbind_cases kseq_cases)
  then show ?thesis by (simp add: Let_def)
qed

text \<open>Several timer interrupts in a row.\<close>

fun timer_irqs :: "nat \<Rightarrow> ('a apic_scheme, unit) kern" where
  "timer_irqs 0 = kret ()"
| "timer_irqs (Suc k) = kseq apic_timer_handler (timer_irqs k)"

lemma timer_irqs_tick: "on_cpu s c \<Longrightarrow> timer_irqs n (ticked c s k) = Ret () (ticked c s (k + n))"
  by (induction n arbitrary: k) (simp_all add: kseq_cases apic_timer_handler_ticks del: ticked.simps)

lemma lapic_timer_ticks_ticked: "on_cpu s c \<Longrightarrow> lapic_timer_ticks (ticked c s k) = Ret (ticks_at s c + of_nat k) (ticked c s k)"
  using lapic_timer_ticks_value [of "ticked c s k" c] by (simp add: ticked_ticks)

text \<open>\<open>m n\<close> interrupts arrive before reading \<open>n\<close>; reading \<open>N\<close> is the first that shows enough of them.\<close>

lemma sleep_loop:
  assumes oc: "on_cpu s c" and before: "\<And>k. k < N \<Longrightarrow> sum m {1..k} < unat ms" and reach: "unat ms \<le> sum m {1..N}" "sum m {1..N} < 2 ^ 64"
  shows "n \<le> N \<Longrightarrow> kloop (apic_sleep_round (\<lambda>n. timer_irqs (m n)) ms (ticks_at s c)) (Suc n, ticks_at s c + of_nat (sum m {1..n})) (ticked c s (sum m {1..n}))
     = Ret () (ticked c s (sum m {1..N}))"
proof (induction "N - n" arbitrary: n)
  case 0
  then have "n = N" by simp
  moreover have "\<not> of_nat (sum m {1..N}) < ms" using reach by (simp add: word_less_nat_alt unat_of_nat_u64 del: of_nat_sum)
  ultimately show ?case by (simp add: kloop_step(2) apic_sleep_round_def del: of_nat_sum)
next
  case (Suc d)
  then have "sum m {1..n} < unat ms" "unat ms < 2 ^ 64" using before [of n] unsigned_less [of ms, where ?'a = nat] by simp_all
  then have lt: "of_nat (sum m {1..n}) < ms" by (simp add: word_less_nat_alt unat_of_nat_u64 del: of_nat_sum)
  have "apic_sleep_round (\<lambda>n. timer_irqs (m n)) ms (ticks_at s c) (Suc n, ticks_at s c + of_nat (sum m {1..n})) (ticked c s (sum m {1..n}))
      = Ret (Inl (Suc (Suc n), ticks_at s c + of_nat (sum m {1..Suc n}))) (ticked c s (sum m {1..Suc n}))"
    using lt timer_irqs_tick [OF oc, of "m (Suc n)" "sum m {1..n}"] lapic_timer_ticks_ticked [OF oc, of "sum m {1..Suc n}"]
    by (simp add: apic_sleep_round_def kseq_cases kbind_cases add.commute del: ticked.simps of_nat_add of_nat_sum)
  then show ?case
    using Suc.hyps(1) [of "Suc n"] Suc.hyps(2) by (simp add: kloop_step(1) del: ticked.simps sum.cl_ivl_Suc of_nat_sum)
qed


section \<open>A concrete processor\<close>

definition apic_boot :: apic where
  "apic_boot = timers.extend (timers_boot\<lparr>msrs := (\<lambda>_. 0xffff800000100000)\<rparr>) (apic.fields 0xfee00000 0xfec00000)"

lemma apic_boot_simps [simp]:
  "io_trace apic_boot = []" "ioapic_address apic_boot = 0xfec00000" "on_cpu apic_boot 0xffff800000100000"
  by (simp_all add: apic_boot_def timers_boot_def acpi_boot_def heap_boot_def vm_boot_def boot_state_def vmm.defs
      heap.defs pmm.defs acpi.defs timers.defs apic.defs on_cpu_def)

theorem set_redir_entry_programs_witness:
  "\<exists>s'. set_redir_entry 2 0x30 0 1 7 0 apic_boot = Ret KERNEL_STATUS_SUCCESS s' \<and> length (io_trace s') = 4"
  using set_redir_entry_programs [of 0 1 0 2 "0x30" 7 apic_boot] by auto


end
