(* ===== verification/Interrupts.thy ===== *)
theory Interrupts
  imports Apic
begin

text \<open>
  Segments and interrupts: \<^verbatim>\<open>src/hal/gdt.c\<close> and \<^verbatim>\<open>src/hal/idt.c\<close>. The
  descriptors are proved to encode what they were built from; the registration of handlers
  is a first-fit slot allocator, stated as the locale \<open>slot_table\<close>.
\<close>

section \<open>Descriptors\<close>

record gdt_descriptor =
  limit_low :: u16
  base_low :: u16
  base_middle :: u8
  gdt_access :: u8
  granularity :: u8
  base_high :: u8

record idt_descriptor =
  offset_low :: u16
  segment_sel :: u16
  ist :: u8
  attributes :: u8
  offset_high :: u16
  offset_higher :: u32
  idt_reserved :: u32

record irq_t =
  irq_base :: u64
  in_use :: bool

record interrupt_frame =
  r15 :: u64 r14 :: u64 r13 :: u64 r12 :: u64 r11 :: u64 r10 :: u64 r9 :: u64 r8 :: u64
  rdi :: u64 rsi :: u64 rbp :: u64 rdx :: u64 rcx :: u64 rbx :: u64 rax :: u64
  int_no :: u64 err :: u64
  rip :: u64 cs :: u64 rflags :: u64 rsp :: u64 ss :: u64

record intr = apic +
  gdt :: "gdt_descriptor list"
  idt :: "idt_descriptor list"
  irq_list :: "irq_t list"

section \<open>The global descriptor table\<close>

definition gdt_entry :: "u64 \<Rightarrow> u64 \<Rightarrow> u8 \<Rightarrow> u8 \<Rightarrow> gdt_descriptor" where
  "gdt_entry base limit acc gran =
     \<lparr>limit_low = ucast (limit AND 0xFFFF), base_low = ucast (base AND 0xFFFF),
      base_middle = ucast (drop_bit 16 base AND 0xFF), gdt_access = acc,
      granularity = ucast (drop_bit 16 limit AND 0x0F) OR push_bit 4 (gran AND 0xF),
      base_high = ucast (drop_bit 24 base AND 0xFF)\<rparr>"

definition gdt_set_entry :: "nat \<Rightarrow> u64 \<Rightarrow> u64 \<Rightarrow> u8 \<Rightarrow> u8 \<Rightarrow> ('a intr_scheme, unit) kern" where
  "gdt_set_entry num base limit acc gran = kbind (kget (\<lambda>s. length (gdt s))) (\<lambda>n.
     if num < n then kmod (\<lambda>s. s\<lparr>gdt := (gdt s)[num := gdt_entry base limit acc gran]\<rparr>) else kfault)"

definition s_load_gdt :: "('a machine_scheme, unit) kern" where "s_load_gdt = emit Lgdt"
definition s_load_idt :: "('a machine_scheme, unit) kern" where "s_load_idt = emit Lidt"

definition set_gdt :: "('a intr_scheme, unit) kern" where
  "set_gdt =
     kseq (gdt_set_entry 0 0 0 0 0)
    (kseq (gdt_set_entry 1 0 0xFFFFF 0x9A 0xA)
    (kseq (gdt_set_entry 2 0 0xFFFFF 0x92 0xA)
    (kseq (gdt_set_entry 3 0 0xFFFFF 0xFA 0xA)
    (kseq (gdt_set_entry 4 0 0xFFFFF 0xF2 0xA)
          s_load_gdt))))"

section \<open>The interrupt descriptor table\<close>

definition MAX_IRQ :: nat where "MAX_IRQ = 256"

definition idt_entry :: "u64 \<Rightarrow> u8 \<Rightarrow> idt_descriptor" where
  "idt_entry base flags =
     \<lparr>offset_low = ucast (base AND 0xffff), segment_sel = 0x08, ist = 0, attributes = flags,
      offset_high = ucast (drop_bit 16 base AND 0xffff),
      offset_higher = ucast (drop_bit 32 base AND 0xffffffff), idt_reserved = 0\<rparr>"

definition set_idt_descriptor :: "u8 \<Rightarrow> u64 \<Rightarrow> u8 \<Rightarrow> ('a intr_scheme, unit) kern" where
  "set_idt_descriptor vector base flags =
     kmod (\<lambda>s. s\<lparr>idt := (idt s)[unat vector := idt_entry base flags]\<rparr>)"

definition set_irq :: "nat \<Rightarrow> u64 \<Rightarrow> ('a intr_scheme, unit) kern" where
  "set_irq i base = kmod (\<lambda>s. s\<lparr>irq_list := (irq_list s)[i := \<lparr>irq_base = base, in_use = True\<rparr>]\<rparr>)"

definition register_irq_vector :: "u8 \<Rightarrow> u64 \<Rightarrow> u8 \<Rightarrow> ('a intr_scheme, kstatus) kern" where
  "register_irq_vector vector base flags =
     kseq (acquire_lock irq_register_lock)
    (kbind (kget (\<lambda>s. in_use (irq_list s ! unat vector))) (\<lambda>used.
     if \<not> used then kseq (free_lock irq_register_lock) (kret KERNEL_STATUS_ERROR)
     else kseq (set_idt_descriptor vector base flags)
         (kseq (set_irq (unat vector) base)
         (kseq s_load_idt
         (kseq (free_lock irq_register_lock)
               (kret KERNEL_STATUS_SUCCESS))))))"

definition register_irq_round :: "u64 \<Rightarrow> u8 \<Rightarrow> nat \<Rightarrow> ('a intr_scheme, int option) kern" where
  "register_irq_round base flags i =
     kbind (kget (\<lambda>s. in_use (irq_list s ! i))) (\<lambda>used.
     if \<not> used then
       kseq (set_idt_descriptor (of_nat i) base flags)
      (kseq (set_irq i base)
      (kseq (free_lock irq_register_lock)
      (kseq s_load_idt
            (kret (Some (int i))))))
     else kret None)"

definition register_irq :: "u64 \<Rightarrow> u8 \<Rightarrow> ('a intr_scheme, int) kern" where
  "register_irq base flags =
     kseq (acquire_lock irq_register_lock)
    (kbind (kfor_ret [0..<MAX_IRQ] (register_irq_round base flags)) (\<lambda>r. case r of
       Some i \<Rightarrow> kret i
     | None \<Rightarrow> kseq (free_lock irq_register_lock) (kret (-1))))"

text \<open>
  \<open>isr n\<close> is the address of the assembly stub \<open>s_isr\<close>\<open>n\<close>. Vector 44 gets a null
  handler.
\<close>

definition set_idt :: "(nat \<Rightarrow> u64) \<Rightarrow> ('a intr_scheme, unit) kern" where
  "set_idt isr =
     kseq (kfor [0..<32] (\<lambda>i. set_irq i 0))
    (kseq (kfor [0..<32] (\<lambda>i. set_idt_descriptor (of_nat i) (isr i) 0x8E))
    (kseq (set_idt_descriptor 44 0 0x8E)
    (kseq (set_idt_descriptor 69 (isr 69) 0x8E)
    (kseq (set_idt_descriptor 70 (isr 70) 0x8E)
    (kseq (set_idt_descriptor 255 (isr 255) 0x8E)
          s_load_idt)))))"

definition exception_messages :: "string list" where
  "exception_messages =
    [''Division Error'', ''Debug'', ''Non Maskable Interrupt'', ''Breakpoint'', ''Into Detected Overflow'',
     ''Out of Bounds'', ''Invalid Opcode'', ''Device not available'', ''Double Fault'',
     ''Coprocessor Segment Overrun'', ''Invalid TSS'', ''Segment Not Present'', ''Stack Fault'',
     ''General Protection Fault'', ''Page Fault'', ''x87 FPU Floating-point error'', ''Alignment Check'',
     ''Machine Check'', ''SIMD Floating-point exception'', ''Virtualization exception'',
     ''Control Protection'', ''Reserved'', ''Reserved'', ''Reserved'', ''Reserved'', ''Reserved'',
     ''Reserved'', ''Reserved'', ''Reserved'', ''Reserved'', ''Reserved'']"

text \<open>The message table has 31 entries: the last exception vector reads past its end.\<close>

definition exception_message :: "nat \<Rightarrow> (string \<Rightarrow> ('s, unit) kern) \<Rightarrow> ('s, unit) kern" where
  "exception_message n k = (if n < length exception_messages then k (exception_messages ! n) else kfault)"

text \<open>The six messages about an exception.\<close>

definition print_frame :: "interrupt_frame \<Rightarrow> string \<Rightarrow> ('a intr_scheme, unit) kern" where
  "print_frame r msg =
     kseq (kprintf (nl @ ''Oh no! Received interrupt {d}, '' @ [CHR 0x27] @ ''{s}'' @ [CHR 0x27]
             @ ''. Below is the provided stack frame{n}{n}'') [ANum (int_no r), AStr msg])
    (kseq (kprintf ''error code 0x{xn}'' [ANum (err r)])
    (kseq (kprintf ''rax 0x{x} | rbx 0x{x} | rcx 0x{x} | rdx 0x{xn}''
             [ANum (rax r), ANum (rbx r), ANum (rcx r), ANum (rdx r)])
    (kseq (kprintf ''rdi 0x{x} | rsi 0x{x} | rbp 0x{xn}'' [ANum (rdi r), ANum (rsi r), ANum (rbp r)])
    (kseq (kprintf ''r8 0x{x} | r9 0x{x} | r10 0x{x} | r11 0x{x} | r12 0x{x} | r13 0x{x} | r14 0x{x} | r15 0x{xn}''
             [ANum (r8 r), ANum (r9 r), ANum (r10 r), ANum (r11 r), ANum (r12 r), ANum (r13 r), ANum (r14 r),
              ANum (r15 r)])
          (kprintf ''rip 0x{x} | cs 0x{x} | ss 0x{x} | rsp 0x{x} | rflags 0x{xn}''
             [ANum (rip r), ANum (cs r), ANum (ss r), ANum (rsp r), ANum (rflags r)])))))"

definition interrupt_handler :: "interrupt_frame \<Rightarrow> ('a intr_scheme, unit) kern" where
  "interrupt_handler r =
     kseq (kif (int_no r < 32) (kseq (exception_message (unat (int_no r)) (print_frame r)) kkill))
    (kseq (kif (int_no r = 255) (kprintf ''hey'' []))
    (kseq (kif (int_no r = 69) apic_timer_handler)
          (kif (int_no r = 70) (kloop (\<lambda>_. kseq (emit Cli) (kseq (emit Hlt) (kret (Inl ())))) ()))))"

section \<open>What the descriptors encode\<close>

definition gdt_base :: "gdt_descriptor \<Rightarrow> u32" where
  "gdt_base d = ucast (base_low d) OR push_bit 16 (ucast (base_middle d)) OR push_bit 24 (ucast (base_high d))"

definition gdt_limit :: "gdt_descriptor \<Rightarrow> u32" where
  "gdt_limit d = ucast (limit_low d) OR push_bit 16 (ucast (granularity d AND 0x0F))"

definition idt_offset :: "idt_descriptor \<Rightarrow> u64" where
  "idt_offset d = ucast (offset_low d) OR push_bit 16 (ucast (offset_high d)) OR push_bit 32 (ucast (offset_higher d))"

lemma low_masks:
  "(0xF :: 'a::len word) = mask 4" "(0xFF :: 'a word) = mask 8" "(0xFFFF :: 'a word) = mask 16"
  "(0xFFFFFFFF :: 'a word) = mask 32" "(0xFFFFF :: 'a word) = mask 20"
  by (simp_all add: mask_eq_exp_minus_1)

lemma idt_entry_offset: "idt_offset (idt_entry base flags) = base"
proof (rule bit_eqI)
  fix n assume "possible_bit TYPE(64 word) n"
  then show "bit (idt_offset (idt_entry base flags)) n = bit base n"
    by (cases "n < 16"; cases "n < 32") (auto simp: idt_offset_def idt_entry_def low_masks bit_simps)
qed

text \<open>
  A segment descriptor carries the low 32 bits of the base, the low 20 bits of the
  limit, the access byte and the four flag bits it was built from.
\<close>

theorem gdt_entry_roundtrip:
  "gdt_base (gdt_entry base limit acc gran) = ucast base
   \<and> gdt_limit (gdt_entry base limit acc gran) = ucast (take_bit 20 limit)
   \<and> gdt_access (gdt_entry base limit acc gran) = acc
   \<and> drop_bit 4 (granularity (gdt_entry base limit acc gran)) = take_bit 4 gran"
proof (intro conjI)
  show "gdt_base (gdt_entry base limit acc gran) = ucast base"
  proof (rule bit_eqI)
    fix n assume "possible_bit TYPE(32 word) n"
    then show "bit (gdt_base (gdt_entry base limit acc gran)) n = bit (ucast base :: u32) n"
      by (cases "n < 16"; cases "n < 24") (auto simp: gdt_base_def gdt_entry_def low_masks bit_simps)
  qed
  show "gdt_limit (gdt_entry base limit acc gran) = ucast (take_bit 20 limit)"
    by (rule bit_eqI) (auto simp: gdt_limit_def gdt_entry_def low_masks bit_simps)
  show "drop_bit 4 (granularity (gdt_entry base limit acc gran)) = take_bit 4 gran"
    by (rule bit_eqI) (auto simp: gdt_entry_def low_masks bit_simps)
qed (simp add: gdt_entry_def)

section \<open>Slot tables\<close>

text \<open>
  A table of \<open>n\<close> slots from which the first free one is taken: \<open>used s i\<close> says that
  slot \<open>i\<close> is taken in state \<open>s\<close>.
\<close>

locale slot_table =
  fixes take :: "'b \<Rightarrow> ('s, int) kern"
    and used :: "'s \<Rightarrow> nat \<Rightarrow> bool"
    and inv :: "'s \<Rightarrow> bool"
    and holds :: "'s \<Rightarrow> nat \<Rightarrow> 'b \<Rightarrow> bool"
    and n :: nat
  assumes take_first: "inv s \<Longrightarrow> i < n \<Longrightarrow> \<not> used s i \<Longrightarrow> \<forall>j < i. used s j \<Longrightarrow>
      \<exists>s'. take b s = Ret (int i) s' \<and> inv s' \<and> used s' = (used s)(i := True) \<and> holds s' i b"
    and take_full: "inv s \<Longrightarrow> \<forall>j < n. used s j \<Longrightarrow> take b s = Ret (-1) s"
begin

text \<open>Taking one slot after the other.\<close>

fun take_all :: "'b list \<Rightarrow> ('s, int list) kern" where
  "take_all [] = kret []"
| "take_all (b # bs) = kbind (take b) (\<lambda>i. kbind (take_all bs) (\<lambda>is. kret (i # is)))"

lemma take_all_consecutive:
  assumes "inv s" "\<And>j. used s j = (j < k)" "k + length bs \<le> n"
  shows "\<exists>s'. take_all bs s = Ret (map int [k..<k + length bs]) s' \<and> inv s'
     \<and> (\<forall>j. used s' j = (j < k + length bs))"
  using assms
proof (induction bs arbitrary: s k)
  case Nil
  then show ?case by simp
next
  case (Cons b bs)
  obtain s1 where s1: "take b s = Ret (int k) s1" "inv s1" "used s1 = (used s)(k := True)"
    using take_first [OF Cons.prems(1), of k b] Cons.prems(2,3) by auto
  have u: "used s1 j = (j < Suc k)" for j using s1(3) Cons.prems(2) by (auto simp: less_Suc_eq)
  have "Suc k + length bs \<le> n" using Cons.prems(3) by simp
  from Cons.IH [OF s1(2) u this] obtain s2 where s2: "take_all bs s1 = Ret (map int [Suc k..<Suc k + length bs]) s2" "inv s2"
    "\<forall>j. used s2 j = (j < Suc k + length bs)" by blast
  have e: "Suc k + length bs = k + length (b # bs)" by simp
  have "[k..<k + length (b # bs)] = k # [Suc k..<k + length (b # bs)]" by (rule upt_conv_Cons) simp
  then have "take_all (b # bs) s = Ret (map int [k..<k + length (b # bs)]) s2"
    using s1(1) s2(1) [unfolded e] by (simp only: take_all.simps kbind_cases list.simps kret_apply)
  then show ?case using s2(2,3) unfolding e by blast
qed

end

definition irq_inv :: "'a intr_scheme \<Rightarrow> bool" where
  "irq_inv s \<longleftrightarrow> length (irq_list s) = 256 \<and> length (idt s) = 256 \<and> \<not> locks s irq_register_lock"

text \<open>A slot of the table: in range and in use. Slots past the end count as free.\<close>

definition irq_used :: "'a intr_scheme \<Rightarrow> nat \<Rightarrow> bool" where
  "irq_used s i \<longleftrightarrow> i < 256 \<and> in_use (irq_list s ! i)"

definition irq_holds :: "'a intr_scheme \<Rightarrow> nat \<Rightarrow> u64 \<times> u8 \<Rightarrow> bool" where
  "irq_holds s i b \<longleftrightarrow> i < 256 \<and> idt s ! i = idt_entry (fst b) (snd b) \<and> irq_base (irq_list s ! i) = fst b"

lemma kfor_ret_first:
  assumes "i < n" "\<And>j. j < i \<Longrightarrow> body j s = Ret None s" "body i s = Ret (Some r) s'"
  shows "kfor_ret [0..<n] body s = Ret (Some r) s'"
proof -
  have "kfor_ret ([0..<i] @ i # [Suc i..<n]) body s = Ret (Some r) s'"
  proof -
    have "kfor_ret (xs @ ys) body s = kfor_ret ys body s" if "\<forall>j \<in> set xs. j < i" for xs ys
      using that assms(2) by (induction xs) (simp_all add: kbind_cases)
    from this [of "[0..<i]" "i # [Suc i..<n]"] show ?thesis using assms(3) by (simp add: kbind_cases)
  qed
  then show ?thesis using upt_add_eq_append [of 0 i "n - i"] upt_conv_Cons [of i n] assms(1) by simp
qed

text \<open>The state after vector \<open>i\<close> was registered.\<close>

definition irq_registered :: "nat \<Rightarrow> u64 \<Rightarrow> u8 \<Rightarrow> 'a intr_scheme \<Rightarrow> 'a intr_scheme" where
  "irq_registered i base flags s = s\<lparr>idt := (idt s)[i := idt_entry base flags],
     irq_list := (irq_list s)[i := \<lparr>irq_base = base, in_use = True\<rparr>], io_trace := Lidt # io_trace s\<rparr>"

lemma register_irq_first:
  assumes "irq_inv s" "i < 256" "\<not> irq_used s i" "\<forall>j < i. irq_used s j"
  shows "register_irq base flags s = Ret (int i) (irq_registered i base flags s)"
proof -
  let ?s = "s\<lparr>locks := (locks s)(irq_register_lock := True)\<rparr>"
  have lk: "(locks s)(irq_register_lock := False) = locks s" using assms(1) by (auto simp: irq_inv_def)
  have "unat (of_nat i :: u8) = i" using assms(2) by (simp add: unat_of_nat take_bit_nat_eq_self)
  then have "register_irq_round base flags i ?s = Ret (Some (int i)) (irq_registered i base flags s)"
    using assms(2,3) lk
    by (simp add: register_irq_round_def kbind_cases kseq_cases set_idt_descriptor_def set_irq_def s_load_idt_def
        irq_used_def irq_registered_def)
  moreover have "register_irq_round base flags j ?s = Ret None ?s" if "j < i" for j
    using assms(4) that by (auto simp: register_irq_round_def kbind_cases irq_used_def)
  ultimately have "kfor_ret [0..<MAX_IRQ] (register_irq_round base flags) ?s = Ret (Some (int i)) (irq_registered i base flags s)"
    using assms(2) by (intro kfor_ret_first [of i]) (auto simp: MAX_IRQ_def)
  then show ?thesis
    using assms(1) by (simp add: register_irq_def kbind_cases kseq_cases irq_inv_def)
qed

lemma register_irq_full:
  assumes "irq_inv s" "\<forall>j < 256. irq_used s j"
  shows "register_irq base flags s = Ret (-1) s"
proof -
  let ?s = "s\<lparr>locks := (locks s)(irq_register_lock := True)\<rparr>"
  have lk: "(locks s)(irq_register_lock := False) = locks s" using assms(1) by (auto simp: irq_inv_def)
  have "kfor_ret [0..<MAX_IRQ] (register_irq_round base flags) ?s = Ret None ?s"
  proof (rule kfor_ret_None)
    fix i assume "i \<in> set [0..<MAX_IRQ]"
    then have "i < MAX_IRQ" by simp
    then have "i < 256" by (simp only: MAX_IRQ_def)
    then show "register_irq_round base flags i ?s = Ret None ?s"
      using assms(2) by (auto simp: register_irq_round_def kbind_cases irq_used_def)
  qed
  then show ?thesis
    using assms(1) lk by (simp add: register_irq_def kbind_cases kseq_cases irq_inv_def)
qed

lemma irq_registered_facts:
  assumes "irq_inv s" "i < 256"
  shows "irq_inv (irq_registered i base flags s)" "irq_used (irq_registered i base flags s) = (irq_used s)(i := True)"
    "irq_holds (irq_registered i base flags s) i (base, flags)"
  using assms by (auto simp: irq_inv_def irq_registered_def irq_used_def irq_holds_def fun_eq_iff nth_list_update)

interpretation irqs: slot_table "\<lambda>(base, flags). register_irq base flags" irq_used irq_inv irq_holds 256
proof unfold_locales
  fix s :: "'a intr_scheme" and i and b :: "u64 \<times> u8"
  assume a: "irq_inv s" "i < 256" "\<not> irq_used s i" "\<forall>j < i. irq_used s j"
  obtain base flags where b: "b = (base, flags)" by (cases b)
  show "\<exists>s'. (case b of (base, flags) \<Rightarrow> register_irq base flags) s = Ret (int i) s' \<and> irq_inv s'
      \<and> irq_used s' = (irq_used s)(i := True) \<and> irq_holds s' i b"
    unfolding b prod.case
    using register_irq_first [OF a] irq_registered_facts [OF a(1,2)] by blast
next
  fix s :: "'a intr_scheme" and b :: "u64 \<times> u8"
  assume "irq_inv s" "\<forall>j < 256. irq_used s j"
  from register_irq_full [OF this]
  show "(case b of (base, flags) \<Rightarrow> register_irq base flags) s = Ret (-1) s" by (cases b) (simp only: prod.case)
qed

section \<open>Boot-time set-up and registration\<close>

lemma fold_update_nth:
  assumes "j < length xs"
  shows "fold (\<lambda>i l. l[i := f i]) [0..<n] xs ! j = (if j < n then f j else xs ! j)"
    and "length (fold (\<lambda>i l. l[i := f i]) [0..<n] xs) = length xs"
proof -
  have len: "length (fold (\<lambda>i l. l[i := f i]) is xs) = length xs" for "is" :: "nat list" and xs
    by (induction "is" arbitrary: xs) simp_all
  then show "length (fold (\<lambda>i l. l[i := f i]) [0..<n] xs) = length xs" .
  show "fold (\<lambda>i l. l[i := f i]) [0..<n] xs ! j = (if j < n then f j else xs ! j)"
    using assms by (induction n) (auto simp: nth_list_update len less_Suc_eq)
qed

lemma kfor_set_irq:
  "kfor js (\<lambda>i. set_irq i base) s
     = Ret () (s\<lparr>irq_list := fold (\<lambda>i l. l[i := \<lparr>irq_base = base, in_use = True\<rparr>]) js (irq_list s)\<rparr>)"
  by (induction js arbitrary: s) (simp_all add: kseq_cases set_irq_def)

lemma kfor_set_idt:
  "\<forall>i \<in> set js. i < 256 \<Longrightarrow> kfor js (\<lambda>i. set_idt_descriptor (of_nat i) (isr i) flags) s
     = Ret () (s\<lparr>idt := fold (\<lambda>i l. l[i := idt_entry (isr i) flags]) js (idt s)\<rparr>)"
  by (induction js arbitrary: s)
    (simp_all add: kseq_cases set_idt_descriptor_def unat_of_nat take_bit_nat_eq_self)

text \<open>The state \<open>set_idt\<close> leaves behind.\<close>

definition idt_set :: "(nat \<Rightarrow> u64) \<Rightarrow> 'a intr_scheme \<Rightarrow> 'a intr_scheme" where
  "idt_set isr s = s\<lparr>irq_list := fold (\<lambda>i l. l[i := \<lparr>irq_base = 0, in_use = True\<rparr>]) [0..<32] (irq_list s),
     idt := (fold (\<lambda>i l. l[i := idt_entry (isr i) 0x8E]) [0..<32] (idt s))
       [44 := idt_entry 0 0x8E, 69 := idt_entry (isr 69) 0x8E, 70 := idt_entry (isr 70) 0x8E,
        255 := idt_entry (isr 255) 0x8E],
     io_trace := Lidt # io_trace s\<rparr>"

lemma set_idt_run: "set_idt isr s = Ret () (idt_set isr s)"
proof -
  have "kfor [0..<32] (\<lambda>i. set_idt_descriptor (of_nat i) (isr i) 0x8E) t
     = Ret () (t\<lparr>idt := fold (\<lambda>i l. l[i := idt_entry (isr i) 0x8E]) [0..<32] (idt t)\<rparr>)" for t :: "'a intr_scheme"
    by (rule kfor_set_idt) simp
  then show ?thesis
    unfolding set_idt_def idt_set_def
    by (simp add: kseq_cases kfor_set_irq set_idt_descriptor_def s_load_idt_def del: upt_rec_numeral)
qed

lemma idt_set_facts:
  assumes "irq_inv s" "\<forall>i < 256. \<not> in_use (irq_list s ! i)"
  shows "irq_inv (idt_set isr s)" "irq_used (idt_set isr s) j = (j < 32)"
    "idt (idt_set isr s) ! 69 = idt_entry (isr 69) 0x8E"
proof -
  have len: "length (irq_list s) = 256" "length (idt s) = 256" using assms(1) by (simp_all add: irq_inv_def)
  show "irq_inv (idt_set isr s)"
    using assms(1) fold_update_nth(2) [of 0 "irq_list s" _ 32] fold_update_nth(2) [of 0 "idt s" _ 32] len
    by (simp add: irq_inv_def idt_set_def del: upt_rec_numeral)
  show "irq_used (idt_set isr s) j = (j < 32)"
  proof (cases "j < 256")
    case True
    then show ?thesis
      using fold_update_nth(1) [of j "irq_list s" "\<lambda>_. \<lparr>irq_base = 0, in_use = True\<rparr>" 32] len assms(2)
      by (auto simp: irq_used_def idt_set_def simp del: upt_rec_numeral)
  qed (simp add: irq_used_def)
  show "idt (idt_set isr s) ! 69 = idt_entry (isr 69) 0x8E"
    using fold_update_nth(2) [of 0 "idt s" _ 32] len by (simp add: idt_set_def del: upt_rec_numeral)
qed

fun register_irqs :: "(u64 \<times> u8) list \<Rightarrow> ('a intr_scheme, int list) kern" where
  "register_irqs [] = kret []"
| "register_irqs ((base, flags) # bs) =
     kbind (register_irq base flags) (\<lambda>i. kbind (register_irqs bs) (\<lambda>is. kret (i # is)))"

lemma register_irqs_take_all: "register_irqs bs = irqs.take_all bs"
  by (induction bs rule: register_irqs.induct) simp_all

text \<open>
  After \<open>set_idt\<close> on a fresh table, handlers registered with \<open>register_irq\<close>
  get the vectors 32, 33, ... in order, and each registration installs its gate. Because
  \<open>set_idt\<close> does not mark the vectors it installs above 31 as used, the 38th
  registration gets vector 69 and replaces the handler of the APIC timer.
\<close>

theorem register_irq_takes_timer_vector:
  fixes s :: "'a intr_scheme"
  assumes inv: "irq_inv s" "\<forall>i < 256. \<not> in_use (irq_list s ! i)" and n: "length bs = 37"
  shows "\<exists>s1 s2 s3. set_idt isr s = Ret () s1 \<and> idt_offset (idt s1 ! 69) = isr 69
     \<and> register_irqs bs s1 = Ret (map int [32..<69]) s2
     \<and> register_irq base flags s2 = Ret 69 s3 \<and> irq_inv s3 \<and> idt_offset (idt s3 ! 69) = base"
proof -
  let ?s1 = "idt_set isr s"
  note F = idt_set_facts [OF inv, of isr]
  have le: "32 + length bs \<le> 256" and e: "32 + length bs = 69" using n by simp_all
  obtain s2 where s2: "register_irqs bs ?s1 = Ret (map int [32..<69]) s2" "irq_inv s2" "\<forall>j. irq_used s2 j = (j < 69)"
    using irqs.take_all_consecutive [OF F(1,2) le] unfolding register_irqs_take_all e by blast
  have lt: "(69 :: nat) < 256" and un: "\<not> irq_used s2 69" and us: "\<forall>j < 69. irq_used s2 j"
    using s2(3) by simp_all
  let ?s3 = "irq_registered 69 base flags s2"
  have "register_irq base flags s2 = Ret (int 69) ?s3" by (rule register_irq_first [OF s2(2) lt un us])
  moreover have "idt ?s3 ! 69 = idt_entry base flags" "irq_inv ?s3"
    using irq_registered_facts [OF s2(2) lt, of base flags] by (simp_all add: irq_holds_def)
  moreover have "(int 69 :: int) = 69" by simp
  ultimately show ?thesis
    using set_idt_run [of isr s] F(3) s2(1) idt_entry_offset by metis
qed

text \<open>
  \<open>register_irq_vector\<close> has its test the wrong way round: it refuses a vector that
  nobody uses, without any change, and replaces the handler of a vector that is in use.
\<close>

theorem register_irq_vector_inverted:
  fixes s :: "'a intr_scheme"
  assumes "irq_inv s"
  shows "(\<not> irq_used s (unat vector) \<longrightarrow> register_irq_vector vector base flags s = Ret KERNEL_STATUS_ERROR s)
       \<and> (irq_used s (unat vector) \<longrightarrow> register_irq_vector vector base flags s
            = Ret KERNEL_STATUS_SUCCESS (irq_registered (unat vector) base flags s))"
proof -
  have v: "unat vector < 256" using unsigned_less [of vector] by simp
  have lk: "(locks s)(irq_register_lock := False) = locks s" using assms by (auto simp: irq_inv_def)
  show ?thesis
    using assms v lk
    by (simp add: register_irq_vector_def kbind_cases kseq_cases irq_inv_def irq_used_def set_idt_descriptor_def
        set_irq_def s_load_idt_def irq_registered_def)
qed

section \<open>Dispatch\<close>

text \<open>The name of an exception, by its vector; what has no name is reserved.\<close>

definition exception_name :: "nat \<Rightarrow> string" where
  "exception_name n = (case map_of
     [(0, ''Division Error''), (1, ''Debug''), (2, ''Non Maskable Interrupt''), (3, ''Breakpoint''), (4, ''Into Detected Overflow''),
      (5, ''Out of Bounds''), (6, ''Invalid Opcode''), (7, ''Device not available''), (8, ''Double Fault''), (9, ''Coprocessor Segment Overrun''),
      (10, ''Invalid TSS''), (11, ''Segment Not Present''), (12, ''Stack Fault''), (13, ''General Protection Fault''), (14, ''Page Fault''),
      (15, ''x87 FPU Floating-point error''), (16, ''Alignment Check''), (17, ''Machine Check''), (18, ''SIMD Floating-point exception''),
      (19, ''Virtualization exception''), (20, ''Control Protection'')] n of Some name \<Rightarrow> name | None \<Rightarrow> ''Reserved'')"

text \<open>A line of registers, and the report of an exception: its number and name, the error code and all registers of the frame, in hexadecimal.\<close>

fun registers_line :: "(string \<times> u64) list \<Rightarrow> string" where
  "registers_line [] = nl"
| "registers_line [(name, v)] = name @ '' 0x'' @ number_str Hex (unat v) @ nl"
| "registers_line ((name, v) # rs) = name @ '' 0x'' @ number_str Hex (unat v) @ '' | '' @ registers_line rs"

definition exception_report :: "interrupt_frame \<Rightarrow> string" where
  "exception_report r =
     nl @ ''Oh no! Received interrupt '' @ number_str Dec (unat (int_no r)) @ '', '' @ [CHR 0x27] @ exception_name (unat (int_no r)) @ [CHR 0x27]
     @ ''. Below is the provided stack frame'' @ nl @ nl
     @ registers_line [(''error code'', err r)]
     @ registers_line [(''rax'', rax r), (''rbx'', rbx r), (''rcx'', rcx r), (''rdx'', rdx r)]
     @ registers_line [(''rdi'', rdi r), (''rsi'', rsi r), (''rbp'', rbp r)]
     @ registers_line [(''r8'', r8 r), (''r9'', r9 r), (''r10'', r10 r), (''r11'', r11 r), (''r12'', r12 r), (''r13'', r13 r), (''r14'', r14 r), (''r15'', r15 r)]
     @ registers_line [(''rip'', rip r), (''cs'', cs r), (''ss'', ss r), (''rsp'', rsp r), (''rflags'', rflags r)]"

lemma length_exception_messages: "length exception_messages = 31"
  by (simp add: exception_messages_def)

lemma exception_messages_names: "exception_messages = map exception_name [0..<31]" "list_all (\<lambda>m. cstr m = m) exception_messages"
  by code_simp+

lemma print_frame_output:
  assumes "\<not> locks s printf_lock" "cstr (exception_name (unat (int_no r))) = exception_name (unat (int_no r))"
  shows "print_frame r (exception_name (unat (int_no r))) s = Ret () (s\<lparr>fb_out := fb_out s @ exception_report r\<rparr>)"
  using assms by (simp add: print_frame_def kprintf_render kseq_cases cstr_def render_spec exception_report_def nl_def)

lemma exception_reported:
  assumes n: "unat (int_no r) < 31"
  shows "interrupt_handler r s = (if locks s printf_lock then Diverge
     else Killed (s\<lparr>fb_out := fb_out s @ exception_report r, kernel_killed := True, io_trace := Hlt # Cli # io_trace s\<rparr>))"
proof -
  have lt: "int_no r < 32" using n by (simp add: word_less_nat_alt)
  let ?m = "exception_name (unat (int_no r))"
  have m: "exception_messages ! unat (int_no r) = ?m" using n by (simp add: exception_messages_names(1))
  have "cstr ?m = ?m" using n exception_messages_names(2) unfolding m [symmetric] by (simp add: list_all_length length_exception_messages)
  then show ?thesis
    using lt n print_frame_output [of s r]
    by (simp add: interrupt_handler_def exception_message_def length_exception_messages m kseq_cases kkill_def)
      (simp add: print_frame_def kprintf_render kseq_cases)
qed

text \<open>
  C13: what \<open>interrupt_handler\<close> does for every vector. An exception 0 to 30 appends the report of its name, the error code and all registers to the console and
  kills the kernel, or hangs if the processor was interrupted while it printed; exception 31 is undefined because the table of messages is
  one entry short; vector 69 acknowledges the interrupt and, once the structure of the processor is set up, counts one tick; vector 70 halts the processor for good; vector 255 prints
  a word; every other vector is ignored.
\<close>

theorem interrupt_dispatch:
  fixes s :: "'a intr_scheme"
  shows "(unat (int_no r) < 31 \<longrightarrow> interrupt_handler r s = (if locks s printf_lock then Diverge
           else Killed (s\<lparr>fb_out := fb_out s @ exception_report r, kernel_killed := True, io_trace := Hlt # Cli # io_trace s\<rparr>)))
       \<and> (int_no r = 31 \<longrightarrow> interrupt_handler r s = Fault)
       \<and> (int_no r = 69 \<and> on_cpu s c \<longrightarrow> interrupt_handler r s = Ret () (ticked c s 1))
       \<and> (int_no r = 69 \<and> msrs s (ucast GSBASE) < hhdmoffset s \<longrightarrow>
            interrupt_handler r s = Ret () (s\<lparr>io_trace := MmioWrite32 (lapic_address s + 0xB0) 0 # io_trace s\<rparr>))
       \<and> (int_no r = 70 \<longrightarrow> interrupt_handler r s = Diverge)
       \<and> (int_no r = 255 \<longrightarrow> interrupt_handler r s = (if locks s printf_lock then Diverge else Ret () (s\<lparr>fb_out := fb_out s @ ''hey''\<rparr>)))
       \<and> (32 \<le> int_no r \<and> int_no r \<notin> {69, 70, 255} \<longrightarrow> interrupt_handler r s = Ret () s)"
proof (intro conjI impI)
  assume "int_no r = 31"
  then show "interrupt_handler r s = Fault"
    by (simp add: interrupt_handler_def exception_message_def length_exception_messages kseq_cases)
next
  have tick: "interrupt_handler r s = apic_timer_handler s" if "int_no r = 69"
  proof -
    have "kseq f (kret ()) = f" for f :: "('a intr_scheme, unit) kern"
      by (rule ext) (simp add: kseq_def kbind_def split: kres.splits)
    with that show ?thesis by (simp add: interrupt_handler_def kseq_cases)
  qed
  have uninitialized: "get_cpu_struct_initialized t = Ret False t" if "msrs t (ucast GSBASE) < hhdmoffset t" for t :: "'a intr_scheme"
    using that rdmsr_value [of GSBASE t] by (simp add: get_cpu_struct_initialized_def kbind_cases)
  {
    assume "int_no r = 69 \<and> on_cpu s c"
    then show "interrupt_handler r s = Ret () (ticked c s 1)" using tick apic_timer_handler_ticks [of s c 0] by simp
  next
    assume m: "int_no r = 69 \<and> msrs s (ucast GSBASE) < hhdmoffset s"
    let ?t = "s\<lparr>io_trace := MmioWrite32 (lapic_address s + 0xB0) 0 # io_trace s\<rparr>"
    have "lapic_write_reg LAPIC_EOI_REG 0 s = Ret () ?t" by (simp add: lapic_write_reg_def LAPIC_EOI_REG_def kbind_cases)
    moreover have "get_cpu_struct_initialized ?t = Ret False ?t" using m by (intro uninitialized) simp
    ultimately have "apic_timer_handler s = Ret () ?t" by (simp only: apic_timer_handler_def kseq_def kbind_def kres.case kif_def if_False kret_def)
    with tick m show "interrupt_handler r s = Ret () ?t" by simp
  }
next
  assume "int_no r = 70"
  moreover have "kloop (\<lambda>_. kseq (emit Cli) (kseq (emit Hlt) (kret (Inl ())))) () s = Diverge"
    by (rule kloop_diverge [where P = "\<lambda>_ _. True"]) (auto simp: kseq_cases)
  ultimately show "interrupt_handler r s = Diverge" by (simp add: interrupt_handler_def kseq_cases)
next
  assume "int_no r = 255"
  then show "interrupt_handler r s = (if locks s printf_lock then Diverge else Ret () (s\<lparr>fb_out := fb_out s @ ''hey''\<rparr>))"
    by (simp add: interrupt_handler_def kprintf_render cstr_def kseq_cases)
next
  assume "32 \<le> int_no r \<and> int_no r \<notin> {69, 70, 255}"
  then show "interrupt_handler r s = Ret () s" by (simp add: interrupt_handler_def kseq_cases leD)
qed (rule exception_reported)

section \<open>A concrete table\<close>

definition intr_boot :: intr where
  "intr_boot = apic.extend apic_boot (intr.fields (replicate 5 (gdt_entry 0 0 0 0)) (replicate 256 (idt_entry 0 0))
     (replicate 256 \<lparr>irq_base = 0, in_use = False\<rparr>))"

lemma intr_boot_simps [simp]: "irq_inv intr_boot" "irq_list intr_boot = replicate 256 \<lparr>irq_base = 0, in_use = False\<rparr>"
  "console_ok intr_boot"
  by (simp_all add: intr_boot_def apic_boot_def timers_boot_def acpi_boot_def heap_boot_def vm_boot_def boot_state_def
      vmm.defs heap.defs pmm.defs acpi.defs timers.defs apic.defs intr.defs irq_inv_def console_ok_def)

theorem register_irq_takes_timer_vector_witness:
  "\<exists>s1 s2 s3. set_idt (\<lambda>n. of_nat n * 16) intr_boot = Ret () s1 \<and> idt_offset (idt s1 ! 69) = 1104
     \<and> register_irqs (replicate 37 (0x5000, 0x8E)) s1 = Ret (map int [32..<69]) s2
     \<and> register_irq 0x6000 0x8E s2 = Ret 69 s3 \<and> idt_offset (idt s3 ! 69) = 0x6000"
proof -
  have u: "\<forall>i < 256. \<not> in_use (irq_list intr_boot ! i)" unfolding intr_boot_simps by (simp add: nth_replicate)
  have l: "length (replicate 37 (0x5000 :: u64, 0x8E :: u8)) = 37" by (rule length_replicate)
  have "(\<lambda>n. of_nat n * 16) 69 = (1104 :: u64)" by simp
  with register_irq_takes_timer_vector [OF intr_boot_simps(1) u l, of "\<lambda>n. of_nat n * 16" "0x6000" "0x8E"]
  show ?thesis by metis
qed

theorem register_irq_vector_inverted_witness:
  "register_irq_vector 80 0x5000 0x8E intr_boot = Ret KERNEL_STATUS_ERROR intr_boot"
  using register_irq_vector_inverted [OF intr_boot_simps(1), of 80 "0x5000" "0x8E"]
  by (simp add: irq_used_def)

definition frame_of :: "u64 \<Rightarrow> interrupt_frame" where
  "frame_of n = \<lparr>r15 = 0, r14 = 0, r13 = 0, r12 = 0, r11 = 0, r10 = 0, r9 = 0, r8 = 0, rdi = 0, rsi = 0, rbp = 0,
     rdx = 0, rcx = 0, rbx = 0, rax = 0, int_no = n, err = 0, rip = 0, cs = 8, rflags = 0, rsp = 0, ss = 16\<rparr>"

lemma intr_boot_machine: "\<not> locks intr_boot printf_lock" "fb_out intr_boot = []" "on_cpu intr_boot 0xffff800000100000"
  by (simp_all add: intr_boot_def apic_boot_def timers_boot_def acpi_boot_def heap_boot_def vm_boot_def boot_state_def
      vmm.defs heap.defs pmm.defs acpi.defs timers.defs apic.defs intr.defs on_cpu_def)

theorem interrupt_dispatch_witness:
  "(\<exists>s'. interrupt_handler (frame_of 14) intr_boot = Killed s' \<and> kernel_killed s'
      \<and> take 44 (fb_out s') = nl @ ''Oh no! Received interrupt 14, '' @ [CHR 0x27] @ ''Page Fault'' @ [CHR 0x27] @ ''.'')
   \<and> interrupt_handler (frame_of 31) intr_boot = Fault \<and> interrupt_handler (frame_of 70) intr_boot = Diverge
   \<and> interrupt_handler (frame_of 69) intr_boot = Ret () (ticked 0xffff800000100000 intr_boot 1)
   \<and> interrupt_handler (frame_of 40) intr_boot = Ret () intr_boot"
proof -
  have "take 44 (exception_report (frame_of 14)) = nl @ ''Oh no! Received interrupt 14, '' @ [CHR 0x27] @ ''Page Fault'' @ [CHR 0x27] @ ''.''" by code_simp
  moreover have "int_no (frame_of n) = n" for n by (simp add: frame_of_def)
  ultimately show ?thesis
    using interrupt_dispatch [of "frame_of 14" intr_boot] interrupt_dispatch [of "frame_of 31" intr_boot]
      interrupt_dispatch [of "frame_of 70" intr_boot] interrupt_dispatch [of "frame_of 40" intr_boot]
      interrupt_dispatch [of "frame_of 69" intr_boot "0xffff800000100000"] intr_boot_machine
    by (simp del: ticked.simps)
qed

end
