(* ===== verification/Sched.thy ===== *)
theory Sched
  imports Interrupts
begin

text \<open>
  Processors and processes: \<^verbatim>\<open>src/hal/smp.c\<close> and \<^verbatim>\<open>src/scheduler/sched.c\<close>.
  The process table lives inside the per-processor structure that \<open>smp_init\<close> takes from
  the heap. Composing the scheduler with the heap of \<open>Kmalloc\<close> shows that starting the
  first task clears the structure that holds it.
\<close>

section \<open>State\<close>

record limine_smp_info =
  si_lapic_id :: u32
  goto_address :: u64

record sched = intr +
  smp_request_response :: "limine_smp_info list option"
  next_pid :: u32

definition PROC_MAX :: nat where "PROC_MAX = 512"
definition INITIAL_STACK_SIZE :: u64 where "INITIAL_STACK_SIZE = 0x10000"

text \<open>The enumerators of \<^verbatim>\<open>enum proc_state\<close>: the last one repeats the value of the first.\<close>

definition RUNNING :: u32 where "RUNNING = 0"
definition READY :: u32 where "READY = 1"
definition SLEEPING :: u32 where "SLEEPING = 2"
definition UNUSED :: u32 where "UNUSED = 0"

text \<open>
  A slot of \<open>process_list\<close> has 96 bytes: \<open>mem\<close> at 0, \<open>kstack\<close> at 8, \<open>state\<close> at 16,
  \<open>pid\<close> at 20, and the packed \<open>context\<close> at 22 with \<open>rsp\<close> at 30 and \<open>rip\<close> at 78.
\<close>

definition proc_field :: "u64 \<Rightarrow> nat \<Rightarrow> nat \<Rightarrow> u64" where
  "proc_field state i k = state + of_nat (12 + 96 * i + k)"

definition proc_state :: "mem \<Rightarrow> u64 \<Rightarrow> nat \<Rightarrow> u32" where
  "proc_state m state i = load32 m (proc_field state i 16)"

section \<open>Processors\<close>

definition get_cpu_count :: "('a sched_scheme, u64) kern" where
  "get_cpu_count = kbind (kget smp_request_response) (\<lambda>r. case r of
     None \<Rightarrow> kfault | Some cpus \<Rightarrow> kret (of_nat (length cpus)))"

text \<open>Setting up a processor structure: allocation, local APIC id, base registers.\<close>

definition ap_init_body :: "limine_smp_info \<Rightarrow> ('a sched_scheme, unit) kern" where
  "ap_init_body smp_info =
     kseq (acquire_lock ap_init_lock)
    (kseq s_load_gdt
    (kseq s_load_idt
    (kbind (kget kernel_page_map) (\<lambda>pm.
     kseq (vmm_set_ctx pm)
    (kseq flush_tlb
    (kbind (kmalloc sizeof_cpu_state) (\<lambda>cpu_struct.
     kseq (deref cpu_struct)
    (kseq (memset cpu_struct 0 sizeof_cpu_state)
    (kseq (mstore32 cpu_struct (si_lapic_id smp_info))
    (kseq (wrmsr KERNELGSBASE cpu_struct)
    (kseq (wrmsr GSBASE cpu_struct)
    (kseq ap_apic_init
          (free_lock ap_init_lock)))))))))))))"

definition ap_init :: "limine_smp_info \<Rightarrow> ('a sched_scheme, unit) kern" where
  "ap_init smp_info = kseq (ap_init_body smp_info) (kloop (\<lambda>_. kret (Inl ())) ())"

definition smp_init :: "u64 \<Rightarrow> ('a sched_scheme, unit) kern" where
  "smp_init ap_init_addr = kbind (kget smp_request_response) (\<lambda>r. case r of
     None \<Rightarrow> kseq (klog LOG_ERROR ''smp_init'' ''Failed to get SMP request'') kkill
   | Some cpus \<Rightarrow>
       kseq (kprintf (''smp: {d} CPUs'' @ nl) [ANum (of_nat (length cpus))])
      (kseq (kmod (\<lambda>s. s\<lparr>smp_request_response := Some (map (\<lambda>c. c\<lparr>goto_address := ap_init_addr\<rparr>) cpus)\<rparr>))
      (kbind (kmalloc sizeof_cpu_state) (\<lambda>cpu_struct.
       kseq (deref cpu_struct)
      (kseq (if cpus = [] then kfault else mstore32 cpu_struct (si_lapic_id (hd cpus)))
      (kseq (wrmsr KERNELGSBASE cpu_struct)
      (kseq (wrmsr GSBASE cpu_struct)
      (kbind (kget kernel_killed) (\<lambda>k.
       kif k kkill)))))))))"

section \<open>Processes\<close>

definition idle_task :: "('a sched_scheme, unit) kern" where
  "idle_task = kseq (kprintf (''Hello world from bruhd task!'' @ nl) []) (kloop (\<lambda>_. kret (Inl ())) ())"

definition test_task :: "('a sched_scheme, unit) kern" where
  "test_task = kprintf (''Hello world from scheduled task!'' @ nl) []"

text \<open>The body of the loop of \<open>alloc_process\<close> for slot \<open>i\<close>.\<close>

definition alloc_process_slot :: "u64 \<Rightarrow> nat \<Rightarrow> ('a sched_scheme, u64 option) kern" where
  "alloc_process_slot state i =
     kbind (kget (\<lambda>s. proc_state (mem s) state i)) (\<lambda>st.
     if st = UNUSED then
       kseq (kprintf (''hi6'' @ nl) [])
      (kseq (mstore32 (proc_field state i 16) READY)
      (kbind (kmalloc INITIAL_STACK_SIZE) (\<lambda>stack.
       kseq (mstore64 (proc_field state i 8) stack)
      (kbind (kget (\<lambda>s. load64 (mem s) (proc_field state i 8))) (\<lambda>kstack.
       kseq (kif (kstack = 0) (klog LOG_ERROR ''alloc_process'' ''Failed to alloc stack''))
      (kseq (kprintf (''hi7'' @ nl) [])
      (kbind (kget next_pid) (\<lambda>pid.
       kseq (kmod (\<lambda>s. s\<lparr>next_pid := next_pid s + 1\<rparr>))
      (kseq (mstore16 (proc_field state i 20) (ucast pid))
      (kbind (kget (\<lambda>s. load64 (mem s) (proc_field state i 8) + INITIAL_STACK_SIZE)) (\<lambda>sp.
       kseq (mstore64 (proc_field state i 78) 0)
      (kseq (mstore64 (proc_field state i 30) sp)
      (kseq (kprintf (''hi8'' @ nl) [])
      (kseq (emit Sti)
            (kret (Some (proc_field state i 0)))))))))))))))))
     else kret None)"

definition alloc_process :: "('a sched_scheme, u64) kern" where
  "alloc_process =
     kseq (emit Cli)
    (kbind get_cpu_struct (\<lambda>state.
     kseq (kprintf (''hi10'' @ nl) [])
    (kseq (deref state)
    (kbind (kfor_ret [0..<PROC_MAX] (alloc_process_slot state)) (\<lambda>r. case r of
       Some p \<Rightarrow> kret p
     | None \<Rightarrow> kseq (emit Sti) (kret 0))))))"

definition add_task :: "u64 \<Rightarrow> ('a sched_scheme, kstatus) kern" where
  "add_task entry_point =
     kbind alloc_process (\<lambda>p.
     kseq (kif (p = 0) (kseq (klog LOG_ERROR ''add_task'' ''proc == null!'') kkill))
    (kseq (mstore64 (p + 78) entry_point)
          (kret KERNEL_STATUS_SUCCESS)))"

text \<open>
  \<open>proc idle = {0, 0, 0, READY, ...}\<close>: the third member is \<open>state\<close> and the fourth is
  \<open>pid\<close>.
\<close>

definition put_idle :: "u64 \<Rightarrow> ('a sched_scheme, unit) kern" where
  "put_idle state =
     kseq (memset (proc_field state 0 0) 0 96)
    (kseq (mstore32 (proc_field state 0 16) 0)
          (mstore16 (proc_field state 0 20) (ucast READY)))"

text \<open>
  One pass over the table. \<open>switch_context new\<close> is the assembly routine that loads the
  context at \<open>new\<close>.
\<close>

definition sched_visit :: "(u64 \<Rightarrow> ('a sched_scheme, unit) kern) \<Rightarrow> u64 \<Rightarrow> nat \<Rightarrow> ('a sched_scheme, unit) kern" where
  "sched_visit switch_context state i =
     kbind (kget (\<lambda>s. proc_state (mem s) state i)) (\<lambda>st.
     kif (st = READY)
       (kbind (kget (\<lambda>s. load64 (mem s) (state + off_current_process))) (\<lambda>cur.
        kseq (deref cur)
       (kseq (mstore64 (state + off_current_process) (proc_field state i 0))
       (kseq (mstore32 (proc_field state i 16) RUNNING)
             (switch_context (proc_field state i 22)))))))"

definition scheduler_init :: "(u64 \<Rightarrow> ('a sched_scheme, unit) kern) \<Rightarrow> u64 \<Rightarrow> ('a sched_scheme, unit) kern" where
  "scheduler_init switch_context test_task_addr =
     kbind get_cpu_struct (\<lambda>state.
     kseq (deref state)
    (kbind (kget (\<lambda>s. load64 (mem s) (state + off_current_process))) (\<lambda>cur.
     kseq (kif (cur \<noteq> 0)
       (kbind (kget (\<lambda>s. load32 (mem s) state)) (\<lambda>lid.
        kseq (kprintf (''sched: scheduler on CPU {d} already initialized!'' @ nl) [ANum (ucast lid)]) kkill)))
    (kseq (kprintf (''hi1'' @ nl) [])
    (kseq (put_idle state)
    (kseq (kprintf (''hi2'' @ nl) [])
    (kseq (add_task test_task_addr)
    (kseq (kprintf (''hi5'' @ nl) [])
          (kloop (\<lambda>_. kseq (kfor [0..<PROC_MAX] (sched_visit switch_context state)) (kret (Inl ()))) ())))))))))"

definition scheduler_tick :: "('a sched_scheme, unit) kern" where
  "scheduler_tick = kseq get_cpu_struct (kret ())"

section \<open>Structures kept in the heap\<close>

lemma store_bytes_outside:
  assumes "\<And>i. i < length bs \<Longrightarrow> x \<noteq> a + of_nat i"
  shows "store_bytes m a bs x = m x"
proof -
  have "\<not> unat (x - a) < length bs"
  proof
    assume "unat (x - a) < length bs"
    from assms [OF this] show False by simp
  qed
  then show ?thesis by (simp add: store_bytes_apply)
qed

lemma disj_mem_shift:
  assumes "disj_mem a N b k" "p + n \<le> N" "N < 2 ^ 64"
  shows "disj_mem (a + of_nat p) n b k"
  unfolding disj_mem_def
proof (intro allI impI)
  fix i assume "i < k"
  then have d: "N \<le> unat (b + of_nat i - a)" using assms(1) by (simp add: disj_mem_def)
  have p: "unat (of_nat p :: u64) = p" using assms(2,3) by (simp add: unat_of_nat_u64)
  have le: "(of_nat p :: u64) \<le> b + of_nat i - a" using d p assms(2) by (simp add: word_le_nat_alt)
  have "b + of_nat i - (a + of_nat p) = (b + of_nat i - a) - of_nat p" by simp
  then have "unat (b + of_nat i - (a + of_nat p)) = unat (b + of_nat i - a) - p" using unat_sub [OF le] p by metis
  then show "n \<le> unat (b + of_nat i - (a + of_nat p))" using d assms(2) by simp
qed

text \<open>Writes inside the heap leave the block descriptors alone, and the other way round.\<close>

lemma heap_size_val: "unat KERNEL_HEAP_SIZE = 0x10000000"
  by (simp add: KERNEL_HEAP_SIZE_def)

lemma heap_write_blocks:
  assumes "heap_inv s" "p + length bs \<le> 0x10000000" "i < 512"
  shows "block_addr (store_bytes (mem s) (heap_addr s + of_nat p) bs) (heap_base s) i = block_addr (mem s) (heap_base s) i"
    "block_size (store_bytes (mem s) (heap_addr s + of_nat p) bs) (heap_base s) i = block_size (mem s) (heap_base s) i"
    "block_free (store_bytes (mem s) (heap_addr s + of_nat p) bs) (heap_base s) i = block_free (mem s) (heap_base s) i"
proof -
  have "disj_mem (heap_addr s) 0x10000000 (heap_base s) 8192" using assms(1) by (simp add: heap_inv_def heap_size_val)
  then have "disj_mem (heap_addr s + of_nat p) (length bs) (heap_base s) 8192"
    by (rule disj_mem_shift) (use assms(2) in simp_all)
  from blocks_outside [OF this assms(3)]
  show "block_addr (store_bytes (mem s) (heap_addr s + of_nat p) bs) (heap_base s) i = block_addr (mem s) (heap_base s) i"
    "block_size (store_bytes (mem s) (heap_addr s + of_nat p) bs) (heap_base s) i = block_size (mem s) (heap_base s) i"
    "block_free (store_bytes (mem s) (heap_addr s + of_nat p) bs) (heap_base s) i = block_free (mem s) (heap_base s) i"
    by simp_all
qed

lemma heap_inv_write:
  assumes "heap_inv s" "p + length bs \<le> 0x10000000"
  shows "heap_inv (s\<lparr>mem := store_bytes (mem s) (heap_addr s + of_nat p) bs\<rparr>)"
  using assms(1) heap_write_blocks [OF assms] by (simp add: heap_inv_def)

lemma heap_not_block:
  assumes "heap_inv s" "i < 0x10000000" "k < 8192"
  shows "heap_addr s + of_nat i \<noteq> heap_base s + of_nat k"
proof
  assume e: "heap_addr s + of_nat i = heap_base s + of_nat k"
  have "0x10000000 \<le> unat (heap_base s + of_nat k - heap_addr s)"
    using assms(1,3) by (simp add: heap_inv_def disj_mem_def heap_size_val)
  then have "0x10000000 \<le> unat (of_nat i :: u64)" by (simp add: e [symmetric])
  then show False using assms(2) by (simp add: unat_of_nat_u64)
qed

lemma kmalloc_fresh_clears:
  assumes inv: "heap_inv s" and i: "i < unat sz" and sz: "sz \<le> KERNEL_HEAP_SIZE"
  shows "mem (kmalloc_fresh sz s) (heap_addr s + of_nat i) = 0"
proof -
  let ?x = "heap_addr s + of_nat i" and ?b = "heap_base s"
  have i2: "i < 0x10000000" using i heap_size_unat [OF sz] by (simp add: heap_size_val)
  have ne: "?x \<noteq> ?b + of_nat k" if "k < 8192" for k using heap_not_block [OF inv i2 that] .
  have "store_bytes m (?b + of_nat p) bs ?x = m ?x" if "p + length bs \<le> 16" for m p bs
  proof (rule store_bytes_outside)
    fix j assume "j < length bs"
    then have "p + j < 8192" using that by simp
    from ne [OF this] show "?x \<noteq> ?b + of_nat p + of_nat j" by (simp add: add.assoc)
  qed
  note out = this [of 8 "word_bytes 4 (w :: u32)" for w] this [of 0 "word_bytes 8 (w :: u64)" for w]
  have "?x \<noteq> ?b + 12" using ne [of 12] by simp
  moreover have "unat (of_nat i :: u64) = i" using i2 by (simp add: unat_of_nat_u64)
  ultimately have "mem (kmalloc_fresh sz s) ?x = store_bytes (mem s) (heap_addr s) (replicate (unat sz) 0) ?x"
    using out by (simp add: kmalloc_fresh_def store32_def store64_def)
  then show ?thesis using i \<open>unat (of_nat i :: u64) = i\<close> by (simp add: store_bytes_apply)
qed

section \<open>Starting the scheduler\<close>

text \<open>
  \<open>cpu_in_heap s c\<close>: the processor structure at \<open>c\<close> is the live block of the heap, as
  \<open>smp_init\<close> leaves it.
\<close>

definition cpu_in_heap :: "'a sched_scheme \<Rightarrow> u64 \<Rightarrow> bool" where
  "cpu_in_heap s c \<longleftrightarrow> on_cpu s c \<and> c = heap_addr s \<and> aligned 12 c \<and> heap_inv s
     \<and> block_addr (mem s) (heap_base s) 0 = heap_addr s \<and> \<not> block_free (mem s) (heap_base s) 0"

lemma cpu_in_heap_console [simp]:
  "cpu_in_heap (s\<lparr>fb_out := x\<rparr>) c = cpu_in_heap s c" "cpu_in_heap (s\<lparr>io_trace := tr\<rparr>) c = cpu_in_heap s c"
  by (simp_all add: cpu_in_heap_def on_cpu_def heap_inv_def)

lemma cpu_in_heap_slot:
  assumes "cpu_in_heap s c"
  shows "proc_field c 0 0 \<noteq> 0"
proof
  assume z: "proc_field c 0 0 = 0"
  have al: "aligned 12 c" using assms unfolding cpu_in_heap_def by blast
  have "c = - 12" using z by (simp add: proc_field_def eq_neg_iff_add_eq_0)
  with al show False by (simp add: aligned_def)
qed

text \<open>No process is ready.\<close>

definition none_ready :: "mem \<Rightarrow> u64 \<Rightarrow> bool" where
  "none_ready m c \<longleftrightarrow> (\<forall>i < PROC_MAX. proc_state m c i = UNUSED)"

lemma proc_state_store:
  assumes "i < 512" "p + length bs \<le> 0x10000" "p + length bs \<le> 28 + 96 * i \<or> 32 + 96 * i \<le> p"
  shows "proc_state (store_bytes m (c + of_nat p) bs) c i = proc_state m c i"
proof -
  have "disj_mem (c + of_nat p) (length bs) (c + of_nat (12 + 96 * i + 16)) 4"
    by (rule disj_off) (use assms in auto)
  then show ?thesis unfolding proc_state_def proc_field_def by (rule load_store_bytes_other(2))
qed

lemma none_ready_store:
  assumes "none_ready m c" "p + length bs \<le> 28 \<or> 32 \<le> p \<and> p + length bs \<le> 124"
  shows "none_ready (store_bytes m (c + of_nat p) bs) c"
  unfolding none_ready_def
proof (intro allI impI)
  fix i assume i: "i < PROC_MAX"
  then have "i < 512" by (simp add: PROC_MAX_def)
  moreover have "i = 0 \<or> 124 \<le> 28 + 96 * i" by linarith
  ultimately have "proc_state (store_bytes m (c + of_nat p) bs) c i = proc_state m c i"
    using assms(2) by (intro proc_state_store) auto
  then show "proc_state (store_bytes m (c + of_nat p) bs) c i = UNUSED"
    using assms(1) i by (simp add: none_ready_def)
qed

lemma load32_zero:
  assumes "\<And>i. i < 4 \<Longrightarrow> m (a + of_nat i) = 0"
  shows "load32 m a = 0"
proof -
  have "bytes_at m a 4 = replicate 4 0" by (rule nth_equalityI) (auto simp: assms)
  then show ?thesis unfolding load32_def by (simp only: le_word_zeros)
qed

lemma none_ready_fresh:
  assumes "heap_inv s"
  shows "none_ready (mem (kmalloc_fresh INITIAL_STACK_SIZE s)) (heap_addr s)"
  unfolding none_ready_def proc_state_def UNUSED_def
proof (intro allI impI load32_zero)
  fix i j :: nat assume i: "i < PROC_MAX" and j: "j < 4"
  have sz: "INITIAL_STACK_SIZE \<le> KERNEL_HEAP_SIZE" by (simp add: INITIAL_STACK_SIZE_def KERNEL_HEAP_SIZE_def)
  have "12 + 96 * i + 16 + j < unat INITIAL_STACK_SIZE"
    using i j by (simp add: PROC_MAX_def INITIAL_STACK_SIZE_def)
  from kmalloc_fresh_clears [OF assms this sz]
  show "mem (kmalloc_fresh INITIAL_STACK_SIZE s) (proc_field (heap_addr s) i 16 + of_nat j) = 0"
    by (simp add: proc_field_def add.assoc)
qed

text \<open>A round over a table without ready processes does nothing, so the scheduler loops forever.\<close>

lemma sched_loop_idle:
  assumes "none_ready (mem s) c"
  shows "kloop (\<lambda>_. kseq (kfor [0..<PROC_MAX] (sched_visit sw c)) (kret (Inl ()))) () s = Diverge"
proof (rule kloop_diverge [where P = "\<lambda>_ t. t = s"])
  fix x :: unit and t assume t: "t = s"
  have "kfor js (sched_visit sw c) s = Ret () s" if "\<forall>i \<in> set js. i < PROC_MAX" for js
    using that assms
    by (induction js) (auto simp: sched_visit_def kbind_cases kseq_cases none_ready_def READY_def UNUSED_def)
  then have "kfor [0..<PROC_MAX] (sched_visit sw c) s = Ret () s" by simp
  then show "\<exists>x' s'. kseq (kfor [0..<PROC_MAX] (sched_visit sw c)) (kret (Inl ())) t = Ret (Inl x') s' \<and> s' = s"
    using t by (simp add: kseq_cases)
qed simp

lemma none_ready_writes:
  assumes "none_ready m c"
  shows "none_ready (store64 m (proc_field c 0 8) v) c" "none_ready (store16 m (proc_field c 0 20) w) c"
    "none_ready (store64 m (proc_field c 0 30) v) c" "none_ready (store64 m (proc_field c 0 78) v) c"
  unfolding proc_field_def store64_def store16_def
  by (rule none_ready_store [OF assms]; simp)+

text \<open>What the rest of the kernel sees of a state, apart from memory and the console.\<close>

definition cpu_frame :: "'a sched_scheme \<Rightarrow> 'a sched_scheme \<Rightarrow> bool" where
  "cpu_frame s t \<longleftrightarrow> locks t = locks s \<and> msrs t = msrs s \<and> hhdmoffset t = hhdmoffset s"

lemma alloc_slot_run:
  assumes cpu: "cpu_in_heap s c" and lk: "\<not> locks s printf_lock" and un: "proc_state (mem s) c 0 = UNUSED"
  shows "\<exists>t. alloc_process_slot c 0 s = Ret (Some (proc_field c 0 0)) t \<and> none_ready (mem t) c \<and> cpu_frame s t"
proof -
  let ?s1 = "s\<lparr>fb_out := fb_out s @ ''hi6'' @ nl, mem := store32 (mem s) (proc_field c 0 16) READY\<rparr>"
  have c: "c = heap_addr s" "c \<noteq> 0" and inv: "heap_inv s" using cpu by (auto simp: cpu_in_heap_def on_cpu_def)
  have "28 + length (word_bytes 4 READY) \<le> 0x10000000" by simp
  note W = heap_inv_write [OF inv this] heap_write_blocks [OF inv this, of 0]
  have m1: "mem ?s1 = store_bytes (mem s) (heap_addr s + of_nat 28) (word_bytes 4 READY)"
    by (simp add: store32_def proc_field_def c)
  have inv1: "heap_inv ?s1" using W(1) by (simp add: heap_inv_def store32_def proc_field_def c(1))
  have "\<not> block_free (mem ?s1) (heap_base s) 0" unfolding m1 using W(4) cpu by (simp add: cpu_in_heap_def)
  then have km: "kmalloc INITIAL_STACK_SIZE ?s1 = Ret c (kmalloc_fresh INITIAL_STACK_SIZE ?s1)"
    using kmalloc_cases [OF inv1, of INITIAL_STACK_SIZE] by (simp add: c)
  let ?s2 = "kmalloc_fresh INITIAL_STACK_SIZE ?s1"
  have lk2: "\<not> locks ?s2 printf_lock" using lk by (simp add: kmalloc_fresh_def)
  have nr: "none_ready (mem ?s2) c" using none_ready_fresh [OF inv1] by (simp add: c)
  define m where "m = mem ?s2"
  define M where "M = store64 (store64 (store16 (store64 m (proc_field c 0 8) c) (proc_field c 0 20) (ucast (next_pid s)))
      (proc_field c 0 78) 0) (proc_field c 0 30)
      (load64 (store16 (store64 m (proc_field c 0 8) c) (proc_field c 0 20) (ucast (next_pid s))) (proc_field c 0 8)
        + INITIAL_STACK_SIZE)"
  have "none_ready M c" unfolding M_def m_def by (intro none_ready_writes nr)
  moreover let ?t = "?s2\<lparr>mem := M, next_pid := next_pid s + 1,
      fb_out := fb_out s @ (''hi6'' @ nl) @ (''hi7'' @ nl) @ (''hi8'' @ nl), io_trace := Sti # io_trace s\<rparr>"
  have "alloc_process_slot c 0 s = Ret (Some (proc_field c 0 0)) ?t"
    using lk un km lk2 c(2)
    by (simp add: alloc_process_slot_def kbind_cases kseq_cases kprintf_plain nl_def m_def M_def)
      (simp add: kmalloc_fresh_def)
  ultimately show ?thesis
    by (intro exI [of _ ?t]) (simp add: cpu_frame_def kmalloc_fresh_def)
qed

lemma alloc_process_run:
  assumes cpu: "cpu_in_heap s c" and lk: "\<not> locks s printf_lock" and un: "proc_state (mem s) c 0 = UNUSED"
  shows "\<exists>t. alloc_process s = Ret (proc_field c 0 0) t \<and> none_ready (mem t) c \<and> cpu_frame s t"
proof -
  let ?s = "s\<lparr>io_trace := Cli # io_trace s, fb_out := fb_out s @ ''hi10'' @ nl\<rparr>"
  have cpu': "cpu_in_heap ?s c" using cpu by simp
  obtain t where t: "alloc_process_slot c 0 ?s = Ret (Some (proc_field c 0 0)) t" "none_ready (mem t) c" "cpu_frame ?s t"
    using alloc_slot_run [OF cpu'] lk un by auto
  have "kfor_ret [0..<PROC_MAX] (alloc_process_slot c) ?s = Ret (Some (proc_field c 0 0)) t"
    by (rule kfor_ret_first [of 0]) (use t(1) in \<open>simp_all add: PROC_MAX_def\<close>)
  moreover have "c \<noteq> 0" "get_cpu_struct (s\<lparr>io_trace := Cli # io_trace s\<rparr>) = Ret c (s\<lparr>io_trace := Cli # io_trace s\<rparr>)"
    using cpu by (auto simp: cpu_in_heap_def on_cpu_def get_cpu_struct_def rdmsr_value)
  ultimately have "alloc_process s = Ret (proc_field c 0 0) t"
    using lk by (simp add: alloc_process_def kbind_cases kseq_cases kprintf_plain nl_def)
  then show ?thesis using t(2,3) by (auto simp: cpu_frame_def)
qed

text \<open>Putting the idle entry in place keeps the structure where it is.\<close>

lemma put_idle_run:
  assumes cpu: "cpu_in_heap s c"
  shows "\<exists>m. put_idle c s = Ret () (s\<lparr>mem := m\<rparr>) \<and> cpu_in_heap (s\<lparr>mem := m\<rparr>) c \<and> proc_state m c 0 = UNUSED"
proof -
  have c: "c = heap_addr s" using cpu by (simp add: cpu_in_heap_def)
  let ?m1 = "store_bytes (mem s) (heap_addr s + of_nat 12) (replicate 96 0)"
  let ?m2 = "store_bytes ?m1 (heap_addr s + of_nat 28) (word_bytes 4 (0 :: u32))"
  let ?m3 = "store_bytes ?m2 (heap_addr s + of_nat 32) (word_bytes 2 (ucast READY :: u16))"
  have run: "put_idle c s = Ret () (s\<lparr>mem := ?m3\<rparr>)"
    by (simp add: put_idle_def kseq_cases memset_def memset_mem_eq proc_field_def store32_def store16_def c)
  have step: "cpu_in_heap (t\<lparr>mem := store_bytes (mem t) (heap_addr t + of_nat p) bs\<rparr>) c"
    if "cpu_in_heap t c" "p + length bs \<le> 0x10000000" for t p bs
    using that heap_inv_write [of t p bs] heap_write_blocks [of t p bs 0]
    by (auto simp: cpu_in_heap_def on_cpu_def)
  have "cpu_in_heap (s\<lparr>mem := ?m1\<rparr>) c" using step [OF cpu, of 12 "replicate 96 0"] by simp
  from step [OF this, of 28 "word_bytes 4 (0 :: u32)"] have "cpu_in_heap (s\<lparr>mem := ?m2\<rparr>) c" by simp
  from step [OF this, of 32 "word_bytes 2 (ucast READY :: u16)"] have "cpu_in_heap (s\<lparr>mem := ?m3\<rparr>) c" by simp
  moreover have "proc_state ?m3 c 0 = proc_state ?m2 c 0" unfolding c by (rule proc_state_store) simp_all
  moreover have "proc_state ?m2 c 0 = 0"
    using load_store_same(2) [of ?m1 "heap_addr s + of_nat 28" 0] by (simp add: proc_state_def proc_field_def c store32_def)
  ultimately show ?thesis using run by (auto simp: UNUSED_def)
qed

text \<open>
  C4: the scheduler starts nothing. On a processor whose structure is the live heap block,
  as \<open>smp_init\<close> leaves it, \<open>scheduler_init\<close> never hands the processor to a task:
  the stack that \<open>alloc_process\<close> takes from the heap is that same block, so that
  clearing it erases the process table with the mark \<open>READY\<close> just set, and the
  scheduler looks for a ready process forever.
\<close>

theorem scheduler_init_starves:
  fixes s :: "'a sched_scheme"
  assumes cpu: "cpu_in_heap s c" and lk: "\<not> locks s printf_lock"
    and cur: "load64 (mem s) (c + off_current_process) = 0"
  shows "scheduler_init sw task s = Diverge"
proof -
  have c: "c \<noteq> 0" "get_cpu_struct s = Ret c s"
    using cpu by (auto simp: cpu_in_heap_def on_cpu_def get_cpu_struct_def rdmsr_value)
  let ?s1 = "s\<lparr>fb_out := fb_out s @ ''hi1'' @ nl\<rparr>"
  have "cpu_in_heap ?s1 c" using cpu by simp
  then obtain m where m: "put_idle c ?s1 = Ret () (?s1\<lparr>mem := m\<rparr>)" "cpu_in_heap (?s1\<lparr>mem := m\<rparr>) c"
    "proc_state m c 0 = UNUSED" using put_idle_run by blast
  let ?s2 = "?s1\<lparr>mem := m, fb_out := fb_out s @ (''hi1'' @ nl) @ (''hi2'' @ nl)\<rparr>"
  have "cpu_in_heap ((?s1\<lparr>mem := m\<rparr>)\<lparr>fb_out := fb_out s @ (''hi1'' @ nl) @ (''hi2'' @ nl)\<rparr>) c"
    using m(2) by (simp only: cpu_in_heap_console)
  then have "cpu_in_heap ?s2 c" by simp
  then obtain t where t: "alloc_process ?s2 = Ret (proc_field c 0 0) t" "none_ready (mem t) c" "cpu_frame ?s2 t"
    using alloc_process_run [of ?s2 c] lk m(3) by auto
  let ?s3 = "t\<lparr>mem := store64 (mem t) (proc_field c 0 78) task\<rparr>"
    have "proc_field c 0 0 + 78 = proc_field c 0 78" by (simp add: proc_field_def)
    then have add: "add_task task ?s2 = Ret KERNEL_STATUS_SUCCESS ?s3"
      using t(1) cpu_in_heap_slot [OF cpu] by (simp add: add_task_def kbind_cases kseq_cases)
    have "none_ready (mem ?s3) c" using none_ready_writes(4) [OF t(2)] by simp
    then have "none_ready (mem (?s3\<lparr>fb_out := fb_out t @ ''hi5'' @ nl\<rparr>)) c" by simp
    note loop = sched_loop_idle [OF this, of sw]
    show ?thesis
      using c cur lk m(1) add t(3) loop
      by (simp add: scheduler_init_def kbind_cases kseq_cases kprintf_plain nl_def cpu_frame_def)
qed

section \<open>The first processor\<close>

lemma load64_fresh:
  assumes "heap_inv s" "p + 8 \<le> unat sz" "sz \<le> KERNEL_HEAP_SIZE"
  shows "load64 (mem (kmalloc_fresh sz s)) (heap_addr s + of_nat p) = 0"
proof (rule load64_zero)
  fix i :: nat assume "i < 8"
  then have "p + i < unat sz" using assms(2) by simp
  from kmalloc_fresh_clears [OF assms(1) this assms(3)]
  show "mem (kmalloc_fresh sz s) (heap_addr s + of_nat p + of_nat i) = 0" by (simp add: add.assoc)
qed

lemma cpu_size_fits: "sizeof_cpu_state \<le> KERNEL_HEAP_SIZE"
  by (simp add: sizeof_cpu_state_def KERNEL_HEAP_SIZE_def)

text \<open>A structure fresh from the heap, with the local APIC id and the base registers set.\<close>

definition cpu_fresh :: "u32 \<Rightarrow> 'a sched_scheme \<Rightarrow> 'a sched_scheme" where
  "cpu_fresh lid s = (let t = kmalloc_fresh sizeof_cpu_state s in
     t\<lparr>mem := store32 (mem t) (heap_addr s) lid,
       msrs := (msrs s)(ucast KERNELGSBASE := heap_addr s, ucast GSBASE := heap_addr s)\<rparr>)"

lemma cpu_fresh_in_heap:
  assumes inv: "heap_inv s" and h: "aligned 12 (heap_addr s)" "hhdmoffset s \<le> heap_addr s"
  shows "cpu_in_heap (cpu_fresh lid s) (heap_addr s)"
    "load64 (mem (cpu_fresh lid s)) (heap_addr s + off_current_process) = 0"
    "load32 (mem (cpu_fresh lid s)) (heap_addr s) = lid"
proof -
  let ?t = "kmalloc_fresh sizeof_cpu_state s"
  have m: "mem (cpu_fresh lid s) = store_bytes (mem ?t) (heap_addr ?t + of_nat 0) (word_bytes 4 lid)"
    by (simp add: cpu_fresh_def Let_def store32_def)
  have inv': "heap_inv ?t" by (rule heap_inv_fresh [OF inv cpu_size_fits])
  have fits: "0 + length (word_bytes 4 lid) \<le> 0x10000000" by simp
  note W = heap_inv_write [OF inv' fits] heap_write_blocks [OF inv' fits, of 0]
  note B = kmalloc_fresh_blocks [OF inv cpu_size_fits, of 0]
  have eq: "heap_inv (cpu_fresh lid s) = heap_inv (?t\<lparr>mem := store_bytes (mem ?t) (heap_addr ?t + of_nat 0) (word_bytes 4 lid)\<rparr>)"
    unfolding heap_inv_def m by (simp add: cpu_fresh_def Let_def)
  have oc: "on_cpu (cpu_fresh lid s) (heap_addr s)"
    using inv h by (simp add: on_cpu_def cpu_fresh_def Let_def heap_inv_def kmalloc_fresh_def)
  have ha: "heap_addr (cpu_fresh lid s) = heap_addr s" "heap_base (cpu_fresh lid s) = heap_base s"
    by (simp_all add: cpu_fresh_def Let_def)
  show "cpu_in_heap (cpu_fresh lid s) (heap_addr s)"
    unfolding cpu_in_heap_def ha eq using W B oc h(1) by (simp add: m)
  have "disj_mem (heap_addr s + of_nat 0) (length (word_bytes 4 lid)) (heap_addr s + of_nat 49164) 8"
    by (rule disj_off) simp_all
  moreover have "49164 + 8 \<le> unat sizeof_cpu_state" by (simp add: sizeof_cpu_state_def)
  ultimately show "load64 (mem (cpu_fresh lid s)) (heap_addr s + off_current_process) = 0"
    using load64_fresh [OF inv _ cpu_size_fits, of 49164]
    by (simp add: m load_store_bytes_other off_current_process_def)
  show "load32 (mem (cpu_fresh lid s)) (heap_addr s) = lid" by (simp add: cpu_fresh_def Let_def)
qed

text \<open>
  On a fresh heap \<open>smp_init\<close> gives every processor its entry point, and gives the
  boot processor a cleared structure at the start of the heap, with its local APIC id stored,
  no current process, and both base registers pointing to it.
\<close>

theorem smp_init_starts_bsp:
  fixes s :: "'a sched_scheme"
  assumes inv: "heap_inv s" and fresh: "block_addr (mem s) (heap_base s) 0 = 0" and con: "console_ok s"
    and resp: "smp_request_response s = Some cpus" "cpus \<noteq> []" and k: "\<not> kernel_killed s"
    and h: "aligned 12 (heap_addr s)" "hhdmoffset s \<le> heap_addr s"
  shows "\<exists>s'. smp_init ap s = Ret () s' \<and> cpu_in_heap s' (heap_addr s)
     \<and> smp_request_response s' = Some (map (\<lambda>c. c\<lparr>goto_address := ap\<rparr>) cpus)
     \<and> load32 (mem s') (heap_addr s) = si_lapic_id (hd cpus)
     \<and> load64 (mem s') (heap_addr s + off_current_process) = 0
     \<and> msrs s' (ucast GSBASE) = heap_addr s \<and> msrs s' (ucast KERNELGSBASE) = heap_addr s"
proof -
  have r: "render NORMAL [ANum n] (cstr (''smp: {d} CPUs'' @ nl)) \<noteq> None" for n by (simp add: nl_def cstr_def render_spec)
  obtain out tr where p: "kprintf (''smp: {d} CPUs'' @ nl) [ANum (of_nat (length cpus))] s = Ret () (s\<lparr>fb_out := out, io_trace := tr\<rparr>)"
    using prints_kprintf [OF con r] unfolding prints_def by blast
  let ?s = "s\<lparr>fb_out := out, io_trace := tr, smp_request_response := Some (map (\<lambda>c. c\<lparr>goto_address := ap\<rparr>) cpus)\<rparr>"
  have inv': "heap_inv ?s" using inv by (simp add: heap_inv_def)
  have km: "kmalloc sizeof_cpu_state ?s = Ret (heap_addr s) (kmalloc_fresh sizeof_cpu_state ?s)"
    using kmalloc_cases [OF inv', of sizeof_cpu_state] fresh inv by (auto simp: heap_inv_def)
  have nz: "heap_addr s \<noteq> 0" using inv by (simp add: heap_inv_def)
  have "smp_init ap s = Ret () (cpu_fresh (si_lapic_id (hd cpus)) ?s)"
    using p resp km k nz
    by (simp add: smp_init_def kbind_cases kseq_cases wrmsr_value cpu_fresh_def Let_def)
      (simp add: kmalloc_fresh_def)
  moreover have "heap_addr ?s = heap_addr s" "aligned 12 (heap_addr ?s)" "hhdmoffset ?s \<le> heap_addr ?s"
    using h by simp_all
  note cpu_fresh_in_heap [OF inv' this(2,3)]
  moreover have "KERNELGSBASE \<noteq> GSBASE" "(ucast KERNELGSBASE :: u32) \<noteq> ucast GSBASE"
    by (simp_all add: KERNELGSBASE_def GSBASE_def)
  ultimately show ?thesis
    by (intro exI [of _ "cpu_fresh (si_lapic_id (hd cpus)) ?s"])
      (simp add: cpu_fresh_def Let_def kmalloc_fresh_def)
qed

section \<open>A concrete machine\<close>

definition sched_boot :: sched where
  "sched_boot = intr.extend (intr_boot\<lparr>mem := mem heap_boot, hhdmoffset := 0\<rparr>)
     (sched.fields (Some [\<lparr>si_lapic_id = 7, goto_address = 0\<rparr>, \<lparr>si_lapic_id = 9, goto_address = 0\<rparr>]) 1)"

lemma sched_boot_simps [simp]:
  "mem sched_boot = mem heap_boot" "hhdmoffset sched_boot = 0" "heap_base sched_boot = 0x1000"
  "heap_addr sched_boot = 0x10000" "console_ok sched_boot" "\<not> kernel_killed sched_boot" "\<not> locks sched_boot printf_lock"
  "smp_request_response sched_boot = Some [\<lparr>si_lapic_id = 7, goto_address = 0\<rparr>, \<lparr>si_lapic_id = 9, goto_address = 0\<rparr>]"
  by (simp_all add: sched_boot_def intr_boot_def apic_boot_def timers_boot_def acpi_boot_def heap_boot_def vm_boot_def
      boot_state_def vmm.defs heap.defs pmm.defs acpi.defs timers.defs apic.defs intr.defs sched.defs console_ok_def)

lemma sched_boot_inv: "heap_inv sched_boot" "block_addr (mem sched_boot) 0x1000 0 = 0" "aligned 12 0x10000"
proof -
  show "heap_inv sched_boot" using heap_boot_inv unfolding heap_inv_def by (simp del: heap_boot_simps(1))
  show "block_addr (mem sched_boot) 0x1000 0 = 0" by code_simp
qed (simp add: aligned_def)

theorem smp_init_starts_bsp_witness:
  "\<exists>s'. smp_init 0xffffffff80001000 sched_boot = Ret () s' \<and> cpu_in_heap s' 0x10000
     \<and> load32 (mem s') 0x10000 = 7
     \<and> smp_request_response s' = Some [\<lparr>si_lapic_id = 7, goto_address = 0xffffffff80001000\<rparr>,
         \<lparr>si_lapic_id = 9, goto_address = 0xffffffff80001000\<rparr>]"
  using smp_init_starts_bsp [OF sched_boot_inv(1), of _ "0xffffffff80001000"] sched_boot_inv(2,3)
  by (auto simp del: heap_boot_simps(1))

theorem scheduler_init_starves_witness:
  "scheduler_init (\<lambda>_. kret ()) 0xffffffff80002000 (cpu_fresh 7 sched_boot) = Diverge"
proof -
  have "aligned 12 (heap_addr sched_boot)" "hhdmoffset sched_boot \<le> heap_addr sched_boot"
    using sched_boot_inv(3) by simp_all
  note C = cpu_fresh_in_heap [OF sched_boot_inv(1) this, of 7]
  have "\<not> locks (cpu_fresh 7 sched_boot) printf_lock" by (simp add: cpu_fresh_def Let_def kmalloc_fresh_def)
  from scheduler_init_starves [OF C(1) this C(2)] show ?thesis .
qed

end
