(* ===== verification/Pci.thy ===== *)
theory Pci
  imports Sched
begin

text \<open>
  The PCI Express bus: \<^verbatim>\<open>src/sys/pci.c\<close> and \<^verbatim>\<open>src/sys/pci.h\<close>. Configuration space is
  device memory, read through the parameter \<open>devices\<close> of the machine once
  \<open>vmm_map_page\<close> has mapped it; the table of devices is an array in the heap. The theorems
  compare address computations, describe what a probe of a device returns, and show what the
  table and its lock do.
\<close>

section \<open>Data\<close>

definition PCIE_CONF_SPACE_WIDTH :: u64 where "PCIE_CONF_SPACE_WIDTH = 4096"
definition PCI_BUS_MAX_DEVICES :: nat where "PCI_BUS_MAX_DEVICES = 32"
definition PCI_HEADER_TYPE_MULTI :: u8 where "PCI_HEADER_TYPE_MULTI = push_bit 7 1"
definition PCI_FUNCTION_MAX :: nat where "PCI_FUNCTION_MAX = 8"
definition PCI_DEVICE_BUS :: nat where "PCI_DEVICE_BUS = 8192"

text \<open>Registers of a packed \<open>pci_header_t\<close> at address \<open>a\<close>.\<close>

definition vendor_id :: "u64 \<Rightarrow> ('a machine_scheme, u16) kern" where "vendor_id a = mmio_read16 a"
definition pci_command :: "u64 \<Rightarrow> ('a machine_scheme, u16) kern" where "pci_command a = mmio_read16 (a + 4)"
definition pci_subclass :: "u64 \<Rightarrow> ('a machine_scheme, u8) kern" where "pci_subclass a = mmio_read8 (a + 10)"
definition class_code :: "u64 \<Rightarrow> ('a machine_scheme, u8) kern" where "class_code a = mmio_read8 (a + 11)"
definition header_type :: "u64 \<Rightarrow> ('a machine_scheme, u8) kern" where "header_type a = mmio_read8 (a + 14)"

text \<open>Registers that only the packed \<open>pci_header_0_t\<close> has.\<close>

definition header0_bar5 :: "u64 \<Rightarrow> ('a machine_scheme, u32) kern" where "header0_bar5 a = mmio_read32 (a + 36)"
definition header0_interrupt_pin :: "u64 \<Rightarrow> ('a machine_scheme, u8) kern" where
  "header0_interrupt_pin a = mmio_read8 (a + 61)"

definition sizeof_pci_header_0_t :: u64 where "sizeof_pci_header_0_t = 64"

record l84_pci_function_return =
  multi :: bool
  ret_func_addr :: "u64 list"

record pci_structure =
  pci_segment :: u16
  pci_bus :: u8
  pci_device :: u8
  func_addr :: "u64 list"

text \<open>An element of the array: 72 bytes, \<open>func_addr\<close> at 8.\<close>

definition pci_slot :: "u64 \<Rightarrow> nat \<Rightarrow> nat \<Rightarrow> u64" where
  "pci_slot a i k = a + of_nat (72 * i + k)"

definition slot_func :: "mem \<Rightarrow> u64 \<Rightarrow> nat \<Rightarrow> nat \<Rightarrow> u64" where
  "slot_func m a i j = load64 m (pci_slot a i (8 + 8 * j))"

definition pci_slot_at :: "mem \<Rightarrow> u64 \<Rightarrow> nat \<Rightarrow> pci_structure" where
  "pci_slot_at m a i = \<lparr>pci_segment = load16 m (pci_slot a i 0), pci_bus = m (pci_slot a i 2),
     pci_device = m (pci_slot a i 3), func_addr = map (slot_func m a i) [0..<PCI_FUNCTION_MAX]\<rparr>"

definition sizeof_pci_structure :: u64 where "sizeof_pci_structure = 72"

record pci = sched +
  mcfg :: u64
  config_space_base_addr :: u64
  start_pci_num :: u8
  end_pci_num :: u8
  pci_array :: u64

section \<open>The table of devices\<close>

text \<open>The scan of \<open>pci_add_device\<close>: the bound is tested after a used element was seen.\<close>

function pci_scan :: "mem \<Rightarrow> u64 \<Rightarrow> nat \<Rightarrow> nat option" where
  "pci_scan m a i =
     (if slot_func m a i 0 \<noteq> 0
      then if i \<ge> PCI_DEVICE_BUS then None else pci_scan m a (i + 1)
      else Some i)"
  by pat_completeness auto
termination
  by (relation "measure (\<lambda>(m, a, i). PCI_DEVICE_BUS - i)") auto

declare pci_scan.simps [simp del]

definition pci_put :: "u64 \<Rightarrow> nat \<Rightarrow> pci_structure \<Rightarrow> ('a pci_scheme, unit) kern" where
  "pci_put a i structure =
     kseq (mstore16 (pci_slot a i 0) (pci_segment structure))
    (kseq (mstore8 (pci_slot a i 2) (pci_bus structure))
    (kseq (mstore8 (pci_slot a i 3) (pci_device structure))
          (kfor [0..<PCI_FUNCTION_MAX] (\<lambda>j. kif (func_addr structure ! j \<noteq> 0)
             (mstore64 (pci_slot a i (8 + 8 * j)) (func_addr structure ! j))))))"

definition pci_add_device :: "pci_structure \<Rightarrow> ('a pci_scheme, unit) kern" where
  "pci_add_device structure =
     kseq (acquire_lock pci_array_lock)
    (kbind (kget pci_array) (\<lambda>a.
     kseq (deref a)
    (kbind (kget (\<lambda>s. pci_scan (mem s) a 0)) (\<lambda>r. case r of
       None \<Rightarrow> kseq (klog LOG_ERROR ''pci_add_device'' ''No more space in  the PCI array!'') kkill
     | Some i \<Rightarrow> kseq (pci_put a i structure) (free_lock pci_array_lock)))))"

definition same_key :: "pci_structure \<Rightarrow> pci_structure \<Rightarrow> bool" where
  "same_key x y \<longleftrightarrow> pci_segment x = pci_segment y \<and> pci_bus x = pci_bus y \<and> pci_device x = pci_device y"

definition pci_get_device :: "pci_structure \<Rightarrow> ('a pci_scheme, u64) kern" where
  "pci_get_device structure =
     kseq (acquire_lock pci_array_lock)
    (kbind (kget pci_array) (\<lambda>a.
     kseq (deref a)
    (kbind (kfor_ret [0..<PCI_DEVICE_BUS] (\<lambda>i.
       kbind (kget (\<lambda>s. same_key structure (pci_slot_at (mem s) a i))) (\<lambda>hit.
       kret (if hit then Some (pci_slot a i 0) else None)))) (\<lambda>r. case r of
       Some p \<Rightarrow> kret p
     | None \<Rightarrow> kseq (free_lock pci_array_lock) (kret 0)))))"

section \<open>Configuration space\<close>

definition get_header :: "u64 \<Rightarrow> u64 \<Rightarrow> u64 \<Rightarrow> ('a pci_scheme, u64) kern" where
  "get_header bus dev fn = kget (\<lambda>s. config_space_base_addr s + (bus * 256 + dev * 8 + fn) * PCIE_CONF_SPACE_WIDTH)"

definition map_header :: "u64 \<Rightarrow> ('a pci_scheme, unit) kern" where
  "map_header header = kbind (kget kernel_page_map) (\<lambda>pm. kbind (kget hhdmoffset) (\<lambda>h.
     vmm_map_page pm header (header - h) (PTE_BIT_PRESENT OR PTE_BIT_RW OR PTE_BIT_NX)))"

text \<open>The loop of \<open>check_device\<close> over the functions, with \<open>ret.func_addr\<close> as accumulator.\<close>

fun check_functions :: "u64 \<Rightarrow> u64 \<Rightarrow> nat list \<Rightarrow> u64 list \<Rightarrow> ('a pci_scheme, u64 list) kern" where
  "check_functions bus dev [] acc = kret acc"
| "check_functions bus dev (f # fs) acc =
     kbind (kget (\<lambda>s. config_space_base_addr s + (push_bit 20 bus OR push_bit 15 dev OR push_bit 12 (of_nat f)))) (\<lambda>func.
     kseq (map_header func)
    (kbind (vendor_id func) (\<lambda>v.
     check_functions bus dev fs (if v \<noteq> 0xffff then acc[f := func] else acc))))"

definition check_device :: "u64 \<Rightarrow> u64 \<Rightarrow> ('a pci_scheme, l84_pci_function_return) kern" where
  "check_device bus dev =
     kbind (get_header bus dev 0) (\<lambda>header.
     kseq (map_header header)
    (kbind (vendor_id header) (\<lambda>v.
     if v = 0xffff then kret \<lparr>multi = False, ret_func_addr = replicate 8 0\<rparr>
     else
       kbind (header_type header) (\<lambda>ty.
       kbind (if ty AND PCI_HEADER_TYPE_MULTI \<noteq> 0
              then kseq (header_type header) (check_functions bus dev [0..<PCI_FUNCTION_MAX] (replicate 8 0))
              else kret (replicate 8 0)) (\<lambda>addrs.
       kret \<lparr>multi = False, ret_func_addr = addrs[0 := header]\<rparr>)))))"

definition check_bus :: "u64 \<Rightarrow> ('a pci_scheme, unit) kern" where
  "check_bus bus = kfor [0..<PCI_BUS_MAX_DEVICES] (\<lambda>i. kseq (check_device bus (of_nat i)) (kret ()))"

definition enumerate_conf_space :: "('a pci_scheme, unit) kern" where
  "enumerate_conf_space = kbind (kget end_pci_num) (\<lambda>n.
     kfor [0..<unat n] (\<lambda>i. kfor [0..<32] (\<lambda>j.
       kbind (check_device (of_nat i) (of_nat j)) (\<lambda>ret.
       kif (ret_func_addr ret ! 0 \<noteq> 0)
         (pci_add_device \<lparr>pci_segment = 1, pci_bus = of_nat i, pci_device = of_nat j,
            func_addr = ret_func_addr ret\<rparr>)))))"

text \<open>One probe of \<open>pci_find_device\<close>; the class is compared before the subclass is read.\<close>

definition pci_match :: "u64 \<Rightarrow> int \<Rightarrow> nat \<Rightarrow> nat \<Rightarrow> ('a pci_scheme, u64 option) kern" where
  "pci_match cls subcls i j =
     kbind (check_device (of_nat i) (of_nat j)) (\<lambda>ret.
     if ret_func_addr ret ! 0 = 0 then kret None
     else kbind (class_code (ret_func_addr ret ! 0)) (\<lambda>c.
          if ucast c \<noteq> cls then kret None
          else if subcls = - 1 then kret (Some (ret_func_addr ret ! 0))
          else kbind (pci_subclass (ret_func_addr ret ! 0)) (\<lambda>sc.
               kret (if subcls = uint sc then Some (ret_func_addr ret ! 0) else None))))"

definition pci_find_device :: "u64 \<Rightarrow> int \<Rightarrow> ('a pci_scheme, u64) kern" where
  "pci_find_device cls subcls = kbind (kget end_pci_num) (\<lambda>n.
     kbind (kfor_ret [0..<unat n] (\<lambda>i. kfor_ret [0..<32] (pci_match cls subcls i))) (\<lambda>r.
     kret (case r of None \<Rightarrow> 0 | Some header \<Rightarrow> header)))"

section \<open>Initialisation\<close>

definition print_conf_space :: "nat \<Rightarrow> conf_space_t \<Rightarrow> ('a pci_scheme, unit) kern" where
  "print_conf_space i header =
     kseq (kprintf ''header {dn}'' [ANum (of_nat i)])
    (kseq (kprintf '' base addr: 0x{xn}'' [ANum (base_ecm header)])
    (kseq (kprintf '' PCI segment group: {dn}'' [ANum (ucast (pci_seg_group header))])
    (kseq (kprintf '' start pci bus number: 0x{xn}'' [ANum (ucast (cs_start_pci_num header))])
          (kprintf '' end pci bus number: 0x{xn}'' [ANum (ucast (cs_end_pci_num header))]))))"

definition conf_space_count :: "'a pci_scheme \<Rightarrow> u64" where
  "conf_space_count s = (ucast (hdr_length (mem s) (mcfg s)) - sizeof_desc_header_t) div 16"

definition parse_conf_space :: "('a pci_scheme, unit) kern" where
  "parse_conf_space = kbind (kget conf_space_count) (\<lambda>num.
     kbind (kget mcfg) (\<lambda>t.
     kseq (kprintf ''addr: 0x{xn}'' [ANum t])
    (kbind (kget (\<lambda>s. hdr_length (mem s) t)) (\<lambda>len.
     kseq (kprintf ''header length: {dn}'' [ANum (ucast len)])
    (kseq (kprintf ''num: {dn}'' [ANum num])
          (kfor [0..<unat num] (\<lambda>i. kbind (kget (\<lambda>s. mcfg_conf_space (mem s) t i)) (\<lambda>header.
             kseq (print_conf_space i header)
                  (kmod (\<lambda>s. s\<lparr>config_space_base_addr := base_ecm header + hhdmoffset s,
                      start_pci_num := cs_start_pci_num header, end_pci_num := cs_end_pci_num header\<rparr>))))))))))"

definition pci_init :: "('a pci_scheme, unit) kern" where
  "pci_init =
     kbind (find_acpi_table (sig ''MCFG'')) (\<lambda>t.
     kseq (kmod (\<lambda>s. s\<lparr>mcfg := t\<rparr>))
    (kseq (kif (t = 0) (kseq (klog LOG_ERROR ''pci_init'' ''Failed to find MCFG table'')
                       (kseq (kprintf ''pci: device: PCIe not supported! Halting'' []) kkill)))
    (kseq (kmod (\<lambda>s. s\<lparr>mcfg := mcfg s + hhdmoffset s\<rparr>))
    (kseq parse_conf_space
    (kbind (kget (\<lambda>s. (config_space_base_addr s - hhdmoffset s, ucast (end_pci_num s)))) (\<lambda>(phys, n).
     kseq (kernel_map_pages phys (PCIE_CONF_SPACE_WIDTH * n div PAGE_SIZE) (PTE_BIT_RW OR PTE_BIT_NX))
    (kbind (kmalloc (256 * 32 * sizeof_pci_structure)) (\<lambda>a.
     kseq (kmod (\<lambda>s. s\<lparr>pci_array := a\<rparr>))
    (kseq (kif (a = 0) (kseq (klog LOG_ERROR ''pci_init'' ''Failed to allocate memory for PCI structures!'') kkill))
          enumerate_conf_space)))))))))"

section \<open>Addresses of functions\<close>

text \<open>The configuration space of function number \<open>n\<close>, counted over all buses.\<close>

definition fn_addr :: "'a pci_scheme \<Rightarrow> nat \<Rightarrow> u64" where
  "fn_addr s n = config_space_base_addr s + of_nat n * 4096"

definition fn_index :: "nat \<Rightarrow> nat \<Rightarrow> nat \<Rightarrow> nat" where
  "fn_index b d f = b * 256 + d * 8 + f"

lemma fn_index_inv:
  assumes "d < 32" "f < 8"
  shows "fn_index b d f div 256 = b" "fn_index b d f mod 256 div 8 = d" "fn_index b d f mod 8 = f"
proof -
  have "d * 8 + f < 256" using assms by simp
  then have "fn_index b d f div 256 = b" "fn_index b d f mod 256 = d * 8 + f"
    unfolding fn_index_def by (simp_all only: add.assoc div_mult_self3 mod_mult_self3 div_less mod_less)
  then show "fn_index b d f div 256 = b" "fn_index b d f mod 256 div 8 = d" using assms(2) by simp_all
  have "fn_index b d f = (b * 32 + d) * 8 + f" by (simp add: fn_index_def)
  then show "fn_index b d f mod 8 = f" by (simp only: mod_mult_self3 mod_less assms(2))
qed

lemma unat_of_nat_lt: "n < 2 ^ 64 \<Longrightarrow> unat (of_nat n :: u64) = n"
  by (simp only: unat_of_nat_u64 mod_less)

lemma unat_offset: "unat (a :: u64) + n < 2 ^ 64 \<Longrightarrow> unat (a + of_nat n) = unat a + n"
  using unat_of_nat_lt [of n] unat_add_nowrap [of a "of_nat n"] by simp

lemma or_disjoint: "a AND b = 0 \<Longrightarrow> a OR b = a + (b :: u64)"
  by (simp add: disjunctive_add_eq_or)

lemma shifted_or:
  fixes x y :: u64
  assumes "unat y < 2 ^ k"
  shows "push_bit k x OR y = push_bit k x + y"
proof (rule or_disjoint, rule bit_eqI)
  fix n
  have "y = take_bit k y" using assms by (simp add: word_unat_eq_iff unsigned_take_bit_eq take_bit_nat_eq_self)
  then have "bit y n \<Longrightarrow> n < k" using bit_take_bit_iff [of k y n] by simp
  then show "bit (push_bit k x AND y) n = bit 0 n" by (auto simp: bit_simps)
qed

lemma ecam_address:
  assumes "b < 256" "d < 32" "f < 8"
  shows "push_bit 20 (of_nat b) OR push_bit 15 (of_nat d) OR push_bit 12 (of_nat f) = (of_nat (fn_index b d f) * 4096 :: u64)"
proof -
  have f: "push_bit 12 (of_nat f :: u64) = of_nat (f * 4096)" "push_bit 15 (of_nat d :: u64) = of_nat (d * 32768)"
    "push_bit 20 (of_nat b :: u64) = of_nat (b * 1048576)"
    by (simp_all add: push_bit_eq_mult)
  have small: "unat (of_nat n :: u64) < 2 ^ k" if "n < 2 ^ k" "k < 64" for n k
  proof -
    have "n < 2 ^ 64" using that by (meson less_le_trans less_imp_le one_le_numeral power_increasing)
    then show ?thesis using that(1) by (simp only: unat_of_nat_u64 mod_less)
  qed
  have "push_bit 15 (of_nat d :: u64) OR push_bit 12 (of_nat f) = of_nat (d * 32768 + f * 4096)"
    unfolding f(1) by (subst shifted_or) (use assms small [of "f * 4096" 15] f(2) in simp_all)
  moreover have "push_bit 20 (of_nat b :: u64) OR of_nat (d * 32768 + f * 4096) = of_nat (b * 1048576 + (d * 32768 + f * 4096))"
    by (subst shifted_or) (use assms small [of "d * 32768 + f * 4096" 20] f(3) in simp_all)
  moreover have "(of_nat (b * 1048576 + (d * 32768 + f * 4096)) :: u64) = of_nat (fn_index b d f * 4096)"
    unfolding fn_index_def by (rule arg_cong [of _ _ of_nat]) (simp add: algebra_simps)
  ultimately show ?thesis by simp
qed

text \<open>
  The two ways in which \<^verbatim>\<open>pci.c\<close> computes the address of a function agree. For every
  bus, device and function number in range, the arithmetic of \<open>get_header\<close> gives the
  address that the shifts of \<open>check_device\<close> give, and different functions are at
  different addresses.
\<close>

theorem get_header_is_ecam:
  assumes "b < 256" "d < 32" "f < 8" "b' < 256" "d' < 32" "f' < 8"
  shows "get_header (of_nat b) (of_nat d) (of_nat f) s
       = Ret (config_space_base_addr s + (push_bit 20 (of_nat b) OR push_bit 15 (of_nat d) OR push_bit 12 (of_nat f))) s
     \<and> (get_header (of_nat b) (of_nat d) (of_nat f) s = get_header (of_nat b') (of_nat d') (of_nat f') s
         \<longleftrightarrow> b = b' \<and> d = d' \<and> f = f')"
proof -
  have g: "get_header (of_nat b) (of_nat d) (of_nat f) s = Ret (fn_addr s (fn_index b d f)) s" for b d f
    by (simp add: get_header_def fn_addr_def fn_index_def PCIE_CONF_SPACE_WIDTH_def algebra_simps)
  have "unat (of_nat (fn_index b d f) * 4096 :: u64) = fn_index b d f * 4096" if "b < 256" "d < 32" "f < 8" for b d f
  proof -
    have "(of_nat (fn_index b d f) * 4096 :: u64) = of_nat (fn_index b d f * 4096)" by simp
    moreover have "fn_index b d f * 4096 < 2 ^ 64" using that by (simp add: fn_index_def)
    ultimately show ?thesis by (simp only: unat_of_nat_u64 mod_less)
  qed
  then have "fn_addr s (fn_index b d f) = fn_addr s (fn_index b' d' f') \<longleftrightarrow> fn_index b d f = fn_index b' d' f'"
    using assms by (metis fn_addr_def add_left_cancel mult_right_cancel zero_neq_numeral)
  moreover have "fn_index b d f = fn_index b' d' f' \<longleftrightarrow> b = b' \<and> d = d' \<and> f = f'"
    using assms fn_index_inv by metis
  ultimately show ?thesis using ecam_address [OF assms(1-3)] by (simp add: g) (simp add: fn_addr_def)
qed

section \<open>Probing a device\<close>

text \<open>
  The registers of a function that the kernel looks at. \<open>conf_view s view\<close>: the devices
  answer reads of configuration space from \<open>view\<close>, whatever was read before.
\<close>

record conf_fn =
  fn_vendor :: u16
  fn_type :: u8
  fn_class :: u8
  fn_subclass :: u8

text \<open>The number of functions on the buses that the kernel looks at.\<close>

definition conf_fns :: "'a pci_scheme \<Rightarrow> nat" where
  "conf_fns s = 256 * unat (end_pci_num s)"

definition conf_view :: "'a pci_scheme \<Rightarrow> (nat \<Rightarrow> conf_fn) \<Rightarrow> bool" where
  "conf_view s view \<longleftrightarrow> (\<forall>n < conf_fns s. \<forall>tr.
     ucast (devices s tr (MmioRead16 (fn_addr s n))) = fn_vendor (view n)
     \<and> ucast (devices s tr (MmioRead8 (fn_addr s n + 14))) = fn_type (view n)
     \<and> ucast (devices s tr (MmioRead8 (fn_addr s n + 11))) = fn_class (view n)
     \<and> ucast (devices s tr (MmioRead8 (fn_addr s n + 10))) = fn_subclass (view n))"

text \<open>
  \<open>conf_ready s fs\<close>: the page tables that cover configuration space are in place, and the
  page-table lock is free.
\<close>

definition conf_ready :: "'a pci_scheme \<Rightarrow> u64 list \<Rightarrow> bool" where
  "conf_ready s fs \<longleftrightarrow> vm_inv s (kernel_page_map s) fs \<and> \<not> locks s page_table_lock
     \<and> (\<forall>n < conf_fns s. fn_addr s n \<noteq> 0
         \<and> table_at (mem s) (hhdmoffset s) (kernel_page_map s) (path3 (fn_addr s n)) \<noteq> None)"

text \<open>What probing changes: page tables, the free list, the trace.\<close>

definition conf_frame :: "'a pci_scheme \<Rightarrow> 'a pci_scheme \<Rightarrow> bool" where
  "conf_frame s t \<longleftrightarrow> (\<exists>m fl c tr. t = s\<lparr>mem := m, free_list := fl, pmm_free_page_count := c, io_trace := tr\<rparr>)"

lemma conf_frame_trans: "conf_frame s t \<Longrightarrow> conf_frame t u \<Longrightarrow> conf_frame s u"
  unfolding conf_frame_def by (elim exE, simp) (intro exI, rule refl)

lemma conf_frame_trace [simp]: "conf_frame s (s\<lparr>io_trace := tr\<rparr>)"
  unfolding conf_frame_def
  by (rule exI [of _ "mem s"], rule exI [of _ "free_list s"], rule exI [of _ "pmm_free_page_count s"], rule exI [of _ tr])
    simp

lemma conf_frame_refl [simp]: "conf_frame s s"
  using conf_frame_trace [of s "io_trace s"] by simp

lemma conf_frame_fields:
  assumes "conf_frame s t"
  shows "conf_view t view = conf_view s view" "fn_addr t n = fn_addr s n" "end_pci_num t = end_pci_num s"
    "config_space_base_addr t = config_space_base_addr s" "conf_fns t = conf_fns s"
  using assms by (auto simp: conf_frame_def conf_view_def fn_addr_def conf_fns_def)

lemma conf_ready_trace [simp]: "conf_ready (s\<lparr>io_trace := tr\<rparr>) fs = conf_ready s fs"
proof -
  have "vm_inv (s\<lparr>io_trace := tr\<rparr>) r fs = vm_inv s r fs" for r
    using vm_inv_cong [of s r fs "s\<lparr>io_trace := tr\<rparr>"] vm_inv_cong [of "s\<lparr>io_trace := tr\<rparr>" r fs s] by auto
  then show ?thesis by (simp add: conf_ready_def fn_addr_def conf_fns_def)
qed

lemma map_header_ok:
  assumes ready: "conf_ready s fs" and n: "n < conf_fns s"
  shows "\<exists>s'. map_header (fn_addr s n) s = Ret () s' \<and> conf_ready s' fs \<and> conf_frame s s'"
proof -
  let ?a = "fn_addr s n" and ?r = "kernel_page_map s" and ?fl = "PTE_BIT_PRESENT OR PTE_BIT_RW OR PTE_BIT_NX"
  have vm: "vm_inv s ?r fs" and lk: "\<not> locks s page_table_lock"
    and tab: "table_at (mem s) (hhdmoffset s) ?r (path3 (fn_addr s k)) \<noteq> None" if "k < conf_fns s" for k
    using ready that n by (auto simp: conf_ready_def)
  have "bit ?fl 0" by (simp add: PTE_BIT_PRESENT_def PTE_BIT_RW_def PTE_BIT_NX_def bit_or_iff)
  then have pr: "present ((?a - hhdmoffset s) OR ?fl)"
    by (simp add: present_def PTE_BIT_PRESENT_def and_one_eq odd_iff_mod_2_eq_one [symmetric] bit_0 [symmetric] bit_or_iff)
  obtain s' where s': "vmm_map_page ?r ?a (?a - hhdmoffset s) ?fl s = Ret () s'" "vm_inv s' ?r fs" "vm_frame s s'"
    "keeps_tables ?r s s'"
    using vmm_map_page_ok [OF vm [OF n] lk [OF n] pr, of ?a] tab [OF n] by auto
  obtain m fl c where e: "s' = s\<lparr>mem := m, free_list := fl, pmm_free_page_count := c\<rparr>"
    using s'(3) unfolding vm_frame_def by blast
  have "table_at (mem s') (hhdmoffset s') ?r (path3 (fn_addr s k)) \<noteq> None" if "k < conf_fns s" for k
    using tab [OF that] s'(4) idx_path3 unfolding keeps_tables_def by (metis option.exhaust option.distinct(1))
  then have "conf_ready s' fs" using ready s'(2) by (auto simp: conf_ready_def e fn_addr_def conf_fns_def)
  moreover have "conf_frame s s'"
    unfolding conf_frame_def e
    by (rule exI [of _ m], rule exI [of _ fl], rule exI [of _ c], rule exI [of _ "io_trace s"]) simp
  ultimately show ?thesis using s'(1) by (auto simp: map_header_def kbind_cases)
qed

text \<open>Reads of configuration space.\<close>

lemma conf_reads:
  assumes "conf_view s view" "n < conf_fns s"
  shows "\<exists>tr. vendor_id (fn_addr s n) s = Ret (fn_vendor (view n)) (s\<lparr>io_trace := tr\<rparr>)"
    "\<exists>tr. header_type (fn_addr s n) s = Ret (fn_type (view n)) (s\<lparr>io_trace := tr\<rparr>)"
    "\<exists>tr. class_code (fn_addr s n) s = Ret (fn_class (view n)) (s\<lparr>io_trace := tr\<rparr>)"
    "\<exists>tr. pci_subclass (fn_addr s n) s = Ret (fn_subclass (view n)) (s\<lparr>io_trace := tr\<rparr>)"
  using assms
  by (auto simp: conf_view_def vendor_id_def header_type_def class_code_def pci_subclass_def mmio_read16_def
      mmio_read8_def kbind_cases hw_read_def Let_def)

text \<open>
  \<open>probing s fs view t\<close>: the state \<open>t\<close> is reached from \<open>s\<close> by mapping and reading
  configuration space.
\<close>

definition probing :: "'a pci_scheme \<Rightarrow> u64 list \<Rightarrow> (nat \<Rightarrow> conf_fn) \<Rightarrow> 'a pci_scheme \<Rightarrow> bool" where
  "probing s fs view t \<longleftrightarrow> conf_ready t fs \<and> conf_view t view \<and> conf_frame s t"

lemma probing_addr:
  "probing s fs view t \<Longrightarrow> fn_addr t n = fn_addr s n" "probing s fs view t \<Longrightarrow> conf_fns t = conf_fns s"
  by (simp_all add: probing_def conf_frame_fields)

lemma probing_map:
  assumes "probing s fs view t" "n < conf_fns s"
  obtains t' where "map_header (fn_addr s n) t = Ret () t'" "probing s fs view t'"
proof -
  have t: "conf_ready t fs" "conf_view t view" "conf_frame s t" using assms(1) by (auto simp: probing_def)
  obtain t' where "map_header (fn_addr t n) t = Ret () t'" "conf_ready t' fs" "conf_frame t t'"
    using map_header_ok [OF t(1)] assms(2) probing_addr(2) [OF assms(1)] by metis
  then show ?thesis
    using that [of t'] t conf_frame_trans [OF t(3)] conf_frame_fields(1) [of t t' view] probing_addr(1) [OF assms(1)]
    by (auto simp: probing_def)
qed

lemma probing_trace: "probing s fs view t \<Longrightarrow> probing s fs view (t\<lparr>io_trace := tr\<rparr>)"
  using conf_frame_trans [of s t] conf_frame_fields(1) [of t "t\<lparr>io_trace := tr\<rparr>" view] by (simp add: probing_def)

lemma probing_reads:
  assumes "probing s fs view t" "n < conf_fns s"
  shows "\<exists>t'. vendor_id (fn_addr s n) t = Ret (fn_vendor (view n)) t' \<and> probing s fs view t'"
    "\<exists>t'. header_type (fn_addr s n) t = Ret (fn_type (view n)) t' \<and> probing s fs view t'"
    "\<exists>t'. class_code (fn_addr s n) t = Ret (fn_class (view n)) t' \<and> probing s fs view t'"
    "\<exists>t'. pci_subclass (fn_addr s n) t = Ret (fn_subclass (view n)) t' \<and> probing s fs view t'"
proof -
  have v: "conf_view t view" using assms(1) by (simp add: probing_def)
  have n: "n < conf_fns t" using assms probing_addr(2) by metis
  note R = conf_reads [OF v n, unfolded probing_addr(1) [OF assms(1)]]
  show "\<exists>t'. vendor_id (fn_addr s n) t = Ret (fn_vendor (view n)) t' \<and> probing s fs view t'"
    using R(1) probing_trace [OF assms(1)] by blast
  show "\<exists>t'. header_type (fn_addr s n) t = Ret (fn_type (view n)) t' \<and> probing s fs view t'"
    using R(2) probing_trace [OF assms(1)] by blast
  show "\<exists>t'. class_code (fn_addr s n) t = Ret (fn_class (view n)) t' \<and> probing s fs view t'"
    using R(3) probing_trace [OF assms(1)] by blast
  show "\<exists>t'. pci_subclass (fn_addr s n) t = Ret (fn_subclass (view n)) t' \<and> probing s fs view t'"
    using R(4) probing_trace [OF assms(1)] by blast
qed

text \<open>The specification of a probe: which functions a device reports.\<close>

definition probe_addrs :: "'a pci_scheme \<Rightarrow> (nat \<Rightarrow> conf_fn) \<Rightarrow> nat \<Rightarrow> nat \<Rightarrow> u64 list" where
  "probe_addrs s view b d = (let k = fn_index b d 0 in
     if fn_vendor (view k) = 0xffff then replicate 8 0
     else map (\<lambda>f. if f = 0 \<or> bit (fn_type (view k)) 7 \<and> fn_vendor (view (fn_index b d f)) \<noteq> 0xffff
                   then fn_addr s (fn_index b d f) else 0) [0..<8])"

lemma index_bound:
  assumes "b < unat (end_pci_num s)" "d < 32" "f < 8"
  shows "fn_index b d f < conf_fns s" "b < 256"
proof -
  have "256 * (b + 1) \<le> 256 * unat (end_pci_num s)" using assms(1) by (intro mult_le_mono) simp_all
  then show "fn_index b d f < conf_fns s" using assms(2,3) by (simp add: fn_index_def conf_fns_def)
  have "unat (end_pci_num s) < 2 ^ LENGTH(8)" by (rule unsigned_less)
  then show "b < 256" using assms(1) by simp
qed

lemma check_functions_ok:
  assumes "probing s fs view t" "b < unat (end_pci_num s)" "d < 32" "\<forall>f \<in> set js. f < 8"
  shows "\<exists>t'. check_functions (of_nat b) (of_nat d) js acc t
     = Ret (fold (\<lambda>f acc. if fn_vendor (view (fn_index b d f)) \<noteq> 0xffff
                          then acc[f := fn_addr s (fn_index b d f)] else acc) js acc) t' \<and> probing s fs view t'"
  using assms(1,4)
proof (induction js arbitrary: acc t)
  case (Cons f js)
  have f: "f < 8" using Cons.prems(2) by simp
  have n: "fn_index b d f < conf_fns s" "b < 256" using index_bound [OF assms(2,3) f] .
  have a: "config_space_base_addr t + (push_bit 20 (of_nat b) OR push_bit 15 (of_nat d) OR push_bit 12 (of_nat f))
      = fn_addr s (fn_index b d f)"
    using ecam_address [OF n(2) assms(3) f] probing_addr(1) [OF Cons.prems(1), of "fn_index b d f"] by (simp add: fn_addr_def)
  obtain t1 where 1: "map_header (fn_addr s (fn_index b d f)) t = Ret () t1" "probing s fs view t1"
    using probing_map [OF Cons.prems(1) n(1)] by blast
  obtain t2 where 2: "vendor_id (fn_addr s (fn_index b d f)) t1 = Ret (fn_vendor (view (fn_index b d f))) t2"
    "probing s fs view t2" using probing_reads(1) [OF 1(2) n(1)] by blast
  from Cons.IH [OF 2(2)] Cons.prems(2) 1(1) 2(1)
  show ?case by (simp add: kbind_cases kseq_cases a)
qed auto

lemma fold_select:
  assumes "m \<le> length acc"
  shows "fold (\<lambda>f acc. if P f then acc[f := g f] else acc) [0..<m] acc
     = map (\<lambda>f. if P f then g f else acc ! f) [0..<m] @ drop m acc"
  using assms
proof (induction m)
  case (Suc m)
  then have "drop m acc = acc ! m # drop (Suc m) acc" by (simp add: Cons_nth_drop_Suc)
  then show ?case using Suc by (auto simp: list_update_append)
qed simp

lemma multi_bit: "ty AND PCI_HEADER_TYPE_MULTI \<noteq> 0 \<longleftrightarrow> bit ty 7"
proof -
  have "PCI_HEADER_TYPE_MULTI = 2 ^ 7" by (simp add: PCI_HEADER_TYPE_MULTI_def)
  then show ?thesis using and_exp_eq_0_iff_not_bit [of ty 7] by (simp only: not_not)
qed

lemma check_device_ok:
  assumes "probing s fs view t" and b: "b < unat (end_pci_num s)" and d: "d < 32"
  shows "\<exists>t'. check_device (of_nat b) (of_nat d) t = Ret \<lparr>multi = False, ret_func_addr = probe_addrs s view b d\<rparr> t'
     \<and> probing s fs view t'"
proof -
  let ?k = "fn_index b d 0"
  have k: "?k < conf_fns s" using index_bound(1) [OF b d, of 0] by simp
  have h: "get_header (of_nat b) (of_nat d) 0 t = Ret (fn_addr s ?k) t"
    using probing_addr(1) [OF assms(1), of ?k]
    by (simp add: get_header_def fn_addr_def fn_index_def PCIE_CONF_SPACE_WIDTH_def algebra_simps)
  obtain t1 where 1: "map_header (fn_addr s ?k) t = Ret () t1" "probing s fs view t1"
    using probing_map [OF assms(1) k] by blast
  obtain t2 where 2: "vendor_id (fn_addr s ?k) t1 = Ret (fn_vendor (view ?k)) t2" "probing s fs view t2"
    using probing_reads(1) [OF 1(2) k] by blast
  obtain t3 where 3: "header_type (fn_addr s ?k) t2 = Ret (fn_type (view ?k)) t3" "probing s fs view t3"
    using probing_reads(2) [OF 2(2) k] by blast
  obtain t4 where 4: "header_type (fn_addr s ?k) t3 = Ret (fn_type (view ?k)) t4" "probing s fs view t4"
    using probing_reads(2) [OF 3(2) k] by blast
  have "\<forall>f \<in> set [0..<8]. f < (8 :: nat)" by simp
  from check_functions_ok [OF 4(2) b d this, of "replicate 8 0"] obtain t5 where
    5: "check_functions (of_nat b) (of_nat d) [0..<8] (replicate 8 0) t4
      = Ret (map (\<lambda>f. if fn_vendor (view (fn_index b d f)) \<noteq> 0xffff then fn_addr s (fn_index b d f) else 0) [0..<8]) t5"
    "probing s fs view t5"
    using fold_select [of 8 "replicate 8 (0 :: u64)" "\<lambda>f. fn_vendor (view (fn_index b d f)) \<noteq> 0xffff"
        "\<lambda>f. fn_addr s (fn_index b d f)"] by (auto cong: map_cong)
  have multi: "(map (\<lambda>f. if fn_vendor (view (fn_index b d f)) \<noteq> 0xffff then fn_addr s (fn_index b d f) else 0) [0..<8])[0 := fn_addr s ?k]
      = probe_addrs s view b d" if "fn_vendor (view ?k) \<noteq> 0xffff" "bit (fn_type (view ?k)) 7"
    using that by (intro nth_equalityI) (auto simp: probe_addrs_def nth_list_update)
  have single: "(replicate 8 0)[0 := fn_addr s ?k] = probe_addrs s view b d"
    if "fn_vendor (view ?k) \<noteq> 0xffff" "\<not> bit (fn_type (view ?k)) 7"
    using that by (intro nth_equalityI) (auto simp: probe_addrs_def nth_list_update)
  consider "fn_vendor (view ?k) = 0xffff" | "fn_vendor (view ?k) \<noteq> 0xffff" "bit (fn_type (view ?k)) 7"
    | "fn_vendor (view ?k) \<noteq> 0xffff" "\<not> bit (fn_type (view ?k)) 7" by blast
  then show ?thesis
  proof cases
    case 1
    then show ?thesis using h \<open>map_header _ t = _\<close> 2
      by (auto simp: check_device_def kbind_cases kseq_cases probe_addrs_def Let_def)
  next
    case 2
    then show ?thesis
      using h \<open>map_header _ t = _\<close> \<open>vendor_id _ t1 = _\<close> 3 4 5 multi
      by (auto simp: check_device_def kbind_cases kseq_cases multi_bit PCI_FUNCTION_MAX_def)
  next
    case 3
    then show ?thesis
      using h \<open>map_header _ t = _\<close> \<open>vendor_id _ t1 = _\<close> \<open>header_type _ t2 = _\<close> \<open>probing s fs view t3\<close> single
      by (auto simp: check_device_def kbind_cases kseq_cases multi_bit)
  qed
qed

text \<open>
  C16: a probe reports what configuration space holds. With the tables for configuration space
  in place, \<open>check_device\<close> returns; a device whose first function has vendor
  \<open>0xffff\<close> is reported as absent, otherwise the first function is reported, and of a
  multi-function device exactly the functions that exist, each with its address; the member
  \<open>multi\<close> is false in every case. Nothing but page tables and the trace changes.
\<close>

theorem check_device_correct:
  fixes s :: "'a pci_scheme"
  assumes "conf_ready s fs" "conf_view s view" "b < unat (end_pci_num s)" "d < 32"
  shows "\<exists>s'. check_device (of_nat b) (of_nat d) s = Ret \<lparr>multi = False, ret_func_addr = probe_addrs s view b d\<rparr> s'
     \<and> conf_ready s' fs \<and> conf_frame s s'"
  using check_device_ok [of s fs view s b d] assms by (auto simp: probing_def)

text \<open>A search matches the first function of the first device with the wanted class.\<close>

definition pci_wanted :: "(nat \<Rightarrow> conf_fn) \<Rightarrow> u64 \<Rightarrow> int \<Rightarrow> nat \<times> nat \<Rightarrow> bool" where
  "pci_wanted view cls subcls = (\<lambda>(b, d). let c = view (fn_index b d 0) in
     fn_vendor c \<noteq> 0xffff \<and> ucast (fn_class c) = cls \<and> (subcls = - 1 \<or> subcls = uint (fn_subclass c)))"

lemma pci_match_ok:
  assumes pr: "probing s fs view t" and b: "b < unat (end_pci_num s)" and d: "d < 32"
  shows "\<exists>t'. pci_match cls subcls b d t
     = Ret (if pci_wanted view cls subcls (b, d) then Some (fn_addr s (fn_index b d 0)) else None) t' \<and> probing s fs view t'"
proof -
  let ?k = "fn_index b d 0"
  have k: "?k < conf_fns s" using index_bound(1) [OF b d, of 0] by simp
  obtain t1 where 1: "check_device (of_nat b) (of_nat d) t = Ret \<lparr>multi = False, ret_func_addr = probe_addrs s view b d\<rparr> t1"
    "probing s fs view t1" using check_device_ok [OF assms] by blast
  obtain t2 where 2: "class_code (fn_addr s ?k) t1 = Ret (fn_class (view ?k)) t2" "probing s fs view t2"
    using probing_reads(3) [OF 1(2) k] by blast
  obtain t3 where 3: "pci_subclass (fn_addr s ?k) t2 = Ret (fn_subclass (view ?k)) t3" "probing s fs view t3"
    using probing_reads(4) [OF 2(2) k] by blast
  have nz: "fn_addr s ?k \<noteq> 0" using pr k probing_addr [OF pr] by (auto simp: probing_def conf_ready_def)
  have z: "probe_addrs s view b d ! 0 = (if fn_vendor (view ?k) = 0xffff then 0 else fn_addr s ?k)"
    by (simp add: probe_addrs_def Let_def upt_rec)
  show ?thesis
    using 1 2 3 nz by (auto simp: pci_match_def kbind_cases z pci_wanted_def Let_def)
qed

lemma kfor_ret_probe:
  assumes "\<And>i t. i \<in> set js \<Longrightarrow> Q t \<Longrightarrow> \<exists>t'. body i t = Ret (r i) t' \<and> Q t'" "Q t"
  shows "\<exists>t'. kfor_ret js body t = Ret (Option.bind (find (\<lambda>i. r i \<noteq> None) js) r) t' \<and> Q t'"
  using assms
proof (induction js arbitrary: t)
  case (Cons i js)
  obtain t1 where t1: "body i t = Ret (r i) t1" "Q t1" using Cons.prems by fastforce
  show ?case
  proof (cases "r i")
    case None
    have "\<exists>t'. kfor_ret js body t1 = Ret (Option.bind (find (\<lambda>i. r i \<noteq> None) js) r) t' \<and> Q t'"
      by (rule Cons.IH) (use Cons.prems(1) t1(2) in auto)
    then show ?thesis using t1(1) None by (auto simp: kbind_cases)
  qed (use t1 in \<open>auto simp: kbind_cases\<close>)
qed auto

lemma find_guard:
  "Option.bind (find (\<lambda>x. (if P x then Some (g x) else None) \<noteq> None) xs) (\<lambda>x. if P x then Some (g x) else None)
     = map_option g (find P xs)"
  by (induction xs) auto

lemma find_product:
  "find P (List.product xs ys) = Option.bind (find (\<lambda>x. find (\<lambda>y. P (x, y)) ys \<noteq> None) xs)
     (\<lambda>x. map_option (Pair x) (find (\<lambda>y. P (x, y)) ys))"
proof (induction xs)
  case (Cons x xs)
  have app: "find P (as @ bs) = (case find P as of None \<Rightarrow> find P bs | Some z \<Rightarrow> Some z)" for as bs
    by (induction as) auto
  have "find P (map (Pair x) ys) = map_option (Pair x) (find (\<lambda>y. P (x, y)) ys)" by (rule find_map_option)
  then show ?case using Cons by (auto simp: app split: option.splits)
qed simp

text \<open>
  C17: \<open>pci_find_device\<close> returns the header of the first matching device. The buses below
  \<open>end_pci_num\<close> (which is itself left out) are searched in order, each with its 32
  devices; the result is the address of function 0 of the first device of the wanted class
  (and subclass, unless that is -1), and null if there is none.
\<close>

theorem pci_find_device_correct:
  fixes s :: "'a pci_scheme"
  assumes "conf_ready s fs" "conf_view s view"
  shows "\<exists>s'. pci_find_device cls subcls s
       = Ret (case find (pci_wanted view cls subcls) (List.product [0..<unat (end_pci_num s)] [0..<32]) of
                None \<Rightarrow> 0 | Some (b, d) \<Rightarrow> fn_addr s (fn_index b d 0)) s'
     \<and> conf_ready s' fs \<and> conf_frame s s'"
proof -
  let ?W = "pci_wanted view cls subcls" and ?n = "unat (end_pci_num s)" and ?Q = "probing s fs view"
  let ?r = "\<lambda>b d. if ?W (b, d) then Some (fn_addr s (fn_index b d 0)) else None"
  let ?R = "\<lambda>b. Option.bind (find (\<lambda>d. ?r b d \<noteq> None) [0..<32]) (?r b)"
  have inner: "\<exists>t'. kfor_ret [0..<32] (pci_match cls subcls b) t = Ret (?R b) t' \<and> ?Q t'" if "b < ?n" "?Q t" for b t
  proof (rule kfor_ret_probe)
    fix d t assume "d \<in> set [0..<32]" "?Q t"
    then show "\<exists>t'. pci_match cls subcls b d t = Ret (?r b d) t' \<and> ?Q t'" using that(1) by (intro pci_match_ok) simp_all
  qed (rule that(2))
  have "?Q s" using assms by (simp add: probing_def)
  then obtain t' where t': "kfor_ret [0..<?n] (\<lambda>b. kfor_ret [0..<32] (pci_match cls subcls b)) s
      = Ret (Option.bind (find (\<lambda>b. ?R b \<noteq> None) [0..<?n]) ?R) t'" "?Q t'"
    using kfor_ret_probe [where Q = ?Q and body = "\<lambda>b. kfor_ret [0..<32] (pci_match cls subcls b)" and r = ?R
        and t = s and js = "[0..<?n]"] inner by fastforce
  have R: "?R b = map_option (\<lambda>d. fn_addr s (fn_index b d 0)) (find (\<lambda>d. ?W (b, d)) [0..<32])" for b
    by (rule find_guard)
  have "Option.bind (find (\<lambda>b. ?R b \<noteq> None) [0..<?n]) ?R
      = map_option (\<lambda>(b, d). fn_addr s (fn_index b d 0)) (find ?W (List.product [0..<?n] [0..<32]))"
    unfolding find_product R
    by (cases "find (\<lambda>b. find (\<lambda>d. ?W (b, d)) [0..<32] \<noteq> None) [0..<?n]") (simp_all add: option.map_comp o_def)
  with t'(1) have "kfor_ret [0..<?n] (\<lambda>b. kfor_ret [0..<32] (pci_match cls subcls b)) s
      = Ret (map_option (\<lambda>(b, d). fn_addr s (fn_index b d 0)) (find ?W (List.product [0..<?n] [0..<32]))) t'" by (simp only:)
  then show ?thesis using t'(2)
    by (simp add: pci_find_device_def kbind_cases probing_def split: option.splits)
qed

section \<open>The table as a list\<close>

text \<open>
  \<open>pci_table m a xs\<close>: the elements in use are the first ones and hold \<open>xs\<close>; the
  function addresses of all others, up to and including the one behind the array, are zero.
\<close>

definition pci_table :: "mem \<Rightarrow> u64 \<Rightarrow> pci_structure list \<Rightarrow> bool" where
  "pci_table m a xs \<longleftrightarrow>
     (\<forall>i < length xs. pci_slot_at m a i = xs ! i \<and> func_addr (xs ! i) ! 0 \<noteq> 0)
     \<and> (\<forall>i j. length xs \<le> i \<longrightarrow> i \<le> PCI_DEVICE_BUS \<longrightarrow> j < PCI_FUNCTION_MAX \<longrightarrow> slot_func m a i j = 0)"

lemma slot_func_0: "func_addr (pci_slot_at m a i) ! 0 = slot_func m a i 0"
  by (simp add: pci_slot_at_def PCI_FUNCTION_MAX_def upt_rec)

lemma pci_scan_skip:
  "i \<le> n \<Longrightarrow> n \<le> PCI_DEVICE_BUS \<Longrightarrow> (\<And>k. i \<le> k \<Longrightarrow> k < n \<Longrightarrow> slot_func m a k 0 \<noteq> 0) \<Longrightarrow> slot_func m a n 0 = 0
   \<Longrightarrow> pci_scan m a i = Some n"
proof (induction "n - i" arbitrary: i)
  case 0
  then show ?case by (simp add: pci_scan.simps)
next
  case (Suc d)
  then have "slot_func m a i 0 \<noteq> 0" "i < PCI_DEVICE_BUS" by simp_all
  moreover have "pci_scan m a (i + 1) = Some n" using Suc by simp
  ultimately show ?case by (simp add: pci_scan.simps [of m a i])
qed

lemma pci_scan_table:
  assumes "pci_table m a xs" "length xs \<le> PCI_DEVICE_BUS"
  shows "pci_scan m a 0 = Some (length xs)"
proof (rule pci_scan_skip)
  fix k assume "k < length xs"
  then show "slot_func m a k 0 \<noteq> 0" using assms(1) slot_func_0 unfolding pci_table_def by metis
qed (use assms in \<open>auto simp: pci_table_def PCI_FUNCTION_MAX_def\<close>)

text \<open>A write into one element leaves the others alone.\<close>

lemma slot_disj:
  assumes "i \<le> 8192" "k \<le> 8192" "p + n \<le> 72" "q + l \<le> 72" "i \<noteq> k \<or> p + n \<le> q \<or> q + l \<le> p"
  shows "disj_mem (pci_slot a i p) n (pci_slot a k q) l"
  unfolding pci_slot_def
proof (rule disj_off)
  consider "i = k" | "Suc i \<le> k" | "Suc k \<le> i" by linarith
  then show "72 * i + p + n \<le> 72 * k + q \<or> 72 * k + q + l \<le> 72 * i + p"
    using assms(3-5) by cases auto
qed (use assms in auto)

lemma slot_store_other:
  assumes "i \<le> 8192" "k \<le> 8192" "i \<noteq> k" "p + length bs \<le> 72"
  shows "pci_slot_at (store_bytes m (pci_slot a i p) bs) a k = pci_slot_at m a k"
    "j < 8 \<Longrightarrow> slot_func (store_bytes m (pci_slot a i p) bs) a k j = slot_func m a k j"
proof -
  have f: "slot_func (store_bytes m (pci_slot a i p) bs) a k j = slot_func m a k j" if "j < 8" for j
    unfolding slot_func_def by (rule load_store_bytes_other, rule slot_disj) (use assms that in auto)
  moreover have "load16 (store_bytes m (pci_slot a i p) bs) (pci_slot a k 0) = load16 m (pci_slot a k 0)"
    by (rule load_store_bytes_other, rule slot_disj) (use assms in auto)
  moreover have "store_bytes m (pci_slot a i p) bs (pci_slot a k q) = m (pci_slot a k q)" if "q < 72" for q
    by (rule load_store_bytes_other, rule slot_disj) (use assms that in auto)
  ultimately show "pci_slot_at (store_bytes m (pci_slot a i p) bs) a k = pci_slot_at m a k"
    by (simp add: pci_slot_at_def PCI_FUNCTION_MAX_def cong: map_cong)
  show "j < 8 \<Longrightarrow> slot_func (store_bytes m (pci_slot a i p) bs) a k j = slot_func m a k j" by (rule f)
qed

text \<open>What \<open>pci_put\<close> does to memory.\<close>

definition put_header :: "mem \<Rightarrow> u64 \<Rightarrow> nat \<Rightarrow> pci_structure \<Rightarrow> mem" where
  "put_header m a i x = store_bytes (store_bytes (store_bytes m (pci_slot a i 0) (word_bytes 2 (pci_segment x)))
     (pci_slot a i 2) [pci_bus x]) (pci_slot a i 3) [pci_device x]"

fun put_funcs :: "mem \<Rightarrow> u64 \<Rightarrow> nat \<Rightarrow> u64 list \<Rightarrow> nat list \<Rightarrow> mem" where
  "put_funcs m a i fa [] = m"
| "put_funcs m a i fa (j # js) = put_funcs (if fa ! j \<noteq> 0
     then store_bytes m (pci_slot a i (8 + 8 * j)) (word_bytes 8 (fa ! j)) else m) a i fa js"

lemma pci_put_run:
  "pci_put a i x s = Ret () (s\<lparr>mem := put_funcs (put_header (mem s) a i x) a i (func_addr x) [0..<PCI_FUNCTION_MAX]\<rparr>)"
proof -
  have "kfor js (\<lambda>j. kif (func_addr x ! j \<noteq> 0) (mstore64 (pci_slot a i (8 + 8 * j)) (func_addr x ! j))) t
      = Ret () (t\<lparr>mem := put_funcs (mem t) a i (func_addr x) js\<rparr>)" for js and t :: "'a pci_scheme"
    by (induction js arbitrary: t) (auto simp: kseq_cases store64_def)
  then show ?thesis by (simp add: pci_put_def kseq_cases put_header_def store16_def fun_upd_store_bytes)
qed

lemma put_funcs_other:
  assumes "\<And>m p bs. p + length bs \<le> 72 \<Longrightarrow> 8 \<le> p \<Longrightarrow> P (store_bytes m (pci_slot a i p) bs) = P m" "\<forall>j \<in> set js. j < 8"
  shows "P (put_funcs m a i fa js) = P m"
  using assms(2) by (induction js arbitrary: m) (auto simp: assms(1))

lemma put_other_slot:
  assumes "i \<le> 8192" "k \<le> 8192" "i \<noteq> k"
  shows "pci_slot_at (put_funcs (put_header m a i x) a i fa [0..<PCI_FUNCTION_MAX]) a k = pci_slot_at m a k"
    "j < 8 \<Longrightarrow> slot_func (put_funcs (put_header m a i x) a i fa [0..<PCI_FUNCTION_MAX]) a k j = slot_func m a k j"
proof -
  have js: "\<forall>j \<in> set [0..<PCI_FUNCTION_MAX]. j < 8" by (simp add: PCI_FUNCTION_MAX_def)
  note O = slot_store_other [OF assms]
  show "pci_slot_at (put_funcs (put_header m a i x) a i fa [0..<PCI_FUNCTION_MAX]) a k = pci_slot_at m a k"
    using put_funcs_other [where P = "\<lambda>m. pci_slot_at m a k", OF O(1) js] by (simp add: put_header_def O(1))
  show "j < 8 \<Longrightarrow> slot_func (put_funcs (put_header m a i x) a i fa [0..<PCI_FUNCTION_MAX]) a k j = slot_func m a k j"
    using put_funcs_other [where P = "\<lambda>m. slot_func m a k j", OF O(2) js] by (simp add: put_header_def O(2))
qed

lemma put_funcs_slot:
  assumes "i \<le> 8192" "n \<le> 8" "j < 8"
  shows "slot_func (put_funcs m a i fa [0..<n]) a i j = (if j < n \<and> fa ! j \<noteq> 0 then fa ! j else slot_func m a i j)"
  using assms(2)
proof (induction n)
  case (Suc n)
  have snoc: "put_funcs m a i fa (js @ [k]) = (let m' = put_funcs m a i fa js in if fa ! k \<noteq> 0
     then store_bytes m' (pci_slot a i (8 + 8 * k)) (word_bytes 8 (fa ! k)) else m')" for js k
    by (induction js arbitrary: m) auto
  have "slot_func (store_bytes m' (pci_slot a i (8 + 8 * n)) (word_bytes 8 (fa ! n))) a i j
     = (if j = n then fa ! n else slot_func m' a i j)" for m'
  proof (cases "j = n")
    case False
    then show ?thesis unfolding slot_func_def
      by (simp, intro load_store_bytes_other slot_disj) (use assms Suc.prems in auto)
  qed (simp add: slot_func_def store64_def [symmetric])
  then show ?case using Suc by (auto simp: snoc Let_def less_Suc_eq)
qed simp

lemma put_own_slot:
  assumes i: "i \<le> 8192" and fa: "length (func_addr x) = 8" and z: "\<And>j. j < 8 \<Longrightarrow> slot_func m a i j = 0"
  shows "pci_slot_at (put_funcs (put_header m a i x) a i (func_addr x) [0..<PCI_FUNCTION_MAX]) a i = x"
proof -
  let ?h = "put_header m a i x" and ?m = "put_funcs (put_header m a i x) a i (func_addr x) [0..<PCI_FUNCTION_MAX]"
  have js: "\<forall>j \<in> set [0..<PCI_FUNCTION_MAX]. j < 8" by (simp add: PCI_FUNCTION_MAX_def)
  have d: "disj_mem (pci_slot a i p) n (pci_slot a i q) l" if "p + n \<le> 72" "q + l \<le> 72" "p + n \<le> q \<or> q + l \<le> p" for p n q l
    using slot_disj [OF i i] that by blast
  have one: "store_bytes m' (pci_slot a i q) [v] (pci_slot a i q) = v" for m' q v
    by (simp add: fun_upd_store_bytes [symmetric])
  have "load16 ?m (pci_slot a i 0) = load16 ?h (pci_slot a i 0)"
    by (rule put_funcs_other [OF _ js]) (intro load_store_bytes_other d, auto)
  moreover have "?m (pci_slot a i 2) = ?h (pci_slot a i 2)" "?m (pci_slot a i 3) = ?h (pci_slot a i 3)"
    by (rule put_funcs_other [OF _ js]; intro load_store_bytes_other d; auto)+
  moreover have "load16 ?h (pci_slot a i 0) = pci_segment x"
    by (simp add: put_header_def load_store_bytes_other d store16_def [symmetric])
  moreover have "?h (pci_slot a i 2) = pci_bus x" "?h (pci_slot a i 3) = pci_device x"
    by (simp_all add: put_header_def load_store_bytes_other d one)
  moreover have "slot_func ?h a i j = 0" if "j < 8" for j
  proof -
    have "slot_func (store_bytes m' (pci_slot a i p) bs) a i j = slot_func m' a i j" if "p + length bs \<le> 8" for m' p bs
      unfolding slot_func_def by (intro load_store_bytes_other d) (use that \<open>j < 8\<close> in auto)
    then show ?thesis using z that by (simp add: put_header_def)
  qed
  then have "slot_func ?m a i j = func_addr x ! j" if "j < 8" for j
    using put_funcs_slot [OF i, of 8 j ?h a "func_addr x"] that by (simp add: PCI_FUNCTION_MAX_def)
  then have "map (slot_func ?m a i) [0..<PCI_FUNCTION_MAX] = func_addr x"
    using fa by (intro nth_equalityI) (simp_all add: PCI_FUNCTION_MAX_def)
  ultimately show ?thesis by (simp add: pci_slot_at_def)
qed

lemma pci_table_append:
  assumes t: "pci_table m a xs" and n: "length xs \<le> PCI_DEVICE_BUS"
    and x: "length (func_addr x) = 8" "func_addr x ! 0 \<noteq> 0"
  shows "pci_table (put_funcs (put_header m a (length xs) x) a (length xs) (func_addr x) [0..<PCI_FUNCTION_MAX]) a (xs @ [x])"
proof -
  let ?m = "put_funcs (put_header m a (length xs) x) a (length xs) (func_addr x) [0..<PCI_FUNCTION_MAX]"
  have n': "length xs \<le> 8192" using n by (simp add: PCI_DEVICE_BUS_def)
  have z: "slot_func m a i j = 0" if "length xs \<le> i" "i \<le> 8192" "j < 8" for i j
    using t that by (simp add: pci_table_def PCI_DEVICE_BUS_def PCI_FUNCTION_MAX_def)
  have own: "pci_slot_at ?m a (length xs) = x" using put_own_slot [OF n' x(1) z] n' by simp
  have "pci_slot_at ?m a i = (xs @ [x]) ! i \<and> func_addr ((xs @ [x]) ! i) ! 0 \<noteq> 0" if "i < length (xs @ [x])" for i
  proof (cases "i = length xs")
    case False
    then have "i < length xs" using that by simp
    then show ?thesis using put_other_slot(1) [OF n', of i m a x "func_addr x"] t n' by (simp add: pci_table_def nth_append)
  qed (use own x in simp)
  moreover have "slot_func ?m a i j = 0" if "length (xs @ [x]) \<le> i" "i \<le> 8192" "j < 8" for i j
    using put_other_slot(2) [OF n', of i j m a x "func_addr x"] z [of i j] that by simp
  ultimately show ?thesis by (simp add: pci_table_def PCI_DEVICE_BUS_def PCI_FUNCTION_MAX_def)
qed

text \<open>
  Adding a device appends it to the table. Up to 8192 devices are stored in order, each
  with its segment, bus, device and function addresses, and the lock is free again; the 8193rd
  is still stored, in the element behind the array; only with 8193 devices stored does the
  bound of the scan take effect and halt the kernel.
\<close>

theorem pci_add_device_appends:
  fixes s :: "'a pci_scheme"
  assumes t: "pci_table (mem s) (pci_array s) xs" and a: "pci_array s \<noteq> 0" and lk: "\<not> locks s pci_array_lock"
    and x: "length (func_addr x) = 8" "func_addr x ! 0 \<noteq> 0"
  shows "(length xs \<le> 8192 \<longrightarrow> (\<exists>s'. pci_add_device x s = Ret () s' \<and> locks s' = locks s
        \<and> pci_table (mem s') (pci_array s) (xs @ [x])))
     \<and> (length xs = 8193 \<and> console_ok s \<longrightarrow> (\<exists>s'. pci_add_device x s = Killed s' \<and> kernel_killed s'))"
proof (intro conjI impI)
  assume n: "length xs \<le> 8192"
  then have n': "length xs \<le> PCI_DEVICE_BUS" by (simp add: PCI_DEVICE_BUS_def)
  let ?m = "put_funcs (put_header (mem s) (pci_array s) (length xs) x) (pci_array s) (length xs) (func_addr x) [0..<PCI_FUNCTION_MAX]"
  have "pci_add_device x s = Ret () (s\<lparr>mem := ?m\<rparr>)"
    using a lk pci_scan_table [OF t n'] by (simp add: pci_add_device_def kbind_cases kseq_cases pci_put_run)
  then show "\<exists>s'. pci_add_device x s = Ret () s' \<and> locks s' = locks s \<and> pci_table (mem s') (pci_array s) (xs @ [x])"
    using pci_table_append [OF t n' x] by auto
next
  assume n: "length xs = 8193 \<and> console_ok s"
  have used: "slot_func (mem s) (pci_array s) k 0 \<noteq> 0" if "k \<le> 8192" for k
  proof -
    have "k < length xs" using n that by simp
    then have "pci_slot_at (mem s) (pci_array s) k = xs ! k" "func_addr (xs ! k) ! 0 \<noteq> 0"
      using t by (simp_all add: pci_table_def)
    then show ?thesis using slot_func_0 [of "mem s" "pci_array s" k] by simp
  qed
  have "pci_scan (mem s) (pci_array s) i = None" if "i \<le> 8192" for i
    using that
  proof (induction "8192 - i" arbitrary: i)
    case 0
    then show ?case using used [of i] by (simp add: pci_scan.simps PCI_DEVICE_BUS_def)
  next
    case (Suc d)
    then show ?case using used [of i] by (simp add: pci_scan.simps [of _ _ i] PCI_DEVICE_BUS_def)
  qed
  then have none: "pci_scan (mem s) (pci_array s) 0 = None" by simp
  let ?s = "s\<lparr>locks := (locks s)(pci_array_lock := True)\<rparr>"
  have "console_ok ?s" using n by (simp add: console_ok_def uart_ready_def)
  then obtain out tr where "klog LOG_ERROR ''pci_add_device'' ''No more space in  the PCI array!'' ?s
      = Ret () (?s\<lparr>fb_out := out, io_trace := tr\<rparr>)" using klog_console by blast
  then show "\<exists>s'. pci_add_device x s = Killed s' \<and> kernel_killed s'"
    using none a lk by (simp add: pci_add_device_def kbind_cases kseq_cases kkill_def)
qed

text \<open>
  Looking a device up leaves the table locked. \<open>pci_get_device\<close> finds the first
  element with the segment, bus and device asked for, but returns before the lock is
  released: the next look-up and the next addition never return.
\<close>

theorem pci_get_device_deadlock:
  fixes s :: "'a pci_scheme"
  assumes t: "pci_table (mem s) (pci_array s) (ys @ x # zs)" and a: "pci_array s \<noteq> 0"
    and lk: "\<not> locks s pci_array_lock" and n: "length ys < 8192"
    and key: "same_key k x" "\<forall>y \<in> set ys. \<not> same_key k y"
  shows "\<exists>s'. pci_get_device k s = Ret (pci_slot (pci_array s) (length ys) 0) s' \<and> mem s' = mem s
     \<and> pci_slot_at (mem s') (pci_array s) (length ys) = x
     \<and> pci_get_device k' s' = Diverge \<and> pci_add_device x' s' = Diverge"
proof -
  let ?s = "s\<lparr>locks := (locks s)(pci_array_lock := True)\<rparr>"
  let ?P = "\<lambda>i. same_key k (pci_slot_at (mem s) (pci_array s) i)"
  have at: "pci_slot_at (mem s) (pci_array s) i = (ys @ x # zs) ! i" if "i \<le> length ys" for i
    using t that by (simp add: pci_table_def)
  have P: "?P (length ys)" "\<And>i. i < length ys \<Longrightarrow> \<not> ?P i" using at key by (auto simp: nth_append)
  have "find ?P [0..<PCI_DEVICE_BUS] = Some (length ys)"
    using P n by (subst find_Some_iff) (auto simp: PCI_DEVICE_BUS_def intro!: exI [of _ "length ys"])
  moreover have "kfor_ret [0..<PCI_DEVICE_BUS] (\<lambda>i. kbind (kget (\<lambda>t. same_key k (pci_slot_at (mem t) (pci_array s) i)))
      (\<lambda>hit. kret (if hit then Some (pci_slot (pci_array s) i 0) else None))) ?s
    = Ret (map_option (\<lambda>i. pci_slot (pci_array s) i 0) (find ?P [0..<PCI_DEVICE_BUS])) ?s"
    by (rule kfor_ret_find) (simp add: kbind_cases)
  ultimately have "pci_get_device k s = Ret (pci_slot (pci_array s) (length ys) 0) ?s"
    using a lk by (simp add: pci_get_device_def kbind_cases kseq_cases)
  moreover have "pci_get_device k' ?s = Diverge" "pci_add_device x' ?s = Diverge"
    by (simp_all add: pci_get_device_def pci_add_device_def kseq_cases)
  ultimately show ?thesis using at [of "length ys"] by (intro exI [of _ ?s]) simp
qed

section \<open>A concrete bus\<close>

text \<open>One bus; device 3 is a storage controller with functions 0 and 2.\<close>

definition ex_view :: "nat \<Rightarrow> conf_fn" where
  "ex_view n = (if n = 24 then \<lparr>fn_vendor = 0x8086, fn_type = 0x80, fn_class = 1, fn_subclass = 6\<rparr>
     else if n = 26 then \<lparr>fn_vendor = 0x8086, fn_type = 0x80, fn_class = 12, fn_subclass = 3\<rparr>
     else \<lparr>fn_vendor = 0xffff, fn_type = 0xff, fn_class = 0xff, fn_subclass = 0xff\<rparr>)"

definition ex_device :: "nat \<Rightarrow> io_req \<Rightarrow> u64" where
  "ex_device base r = (case r of
     MmioRead16 a \<Rightarrow> ucast (fn_vendor (ex_view ((unat a - base) div 4096)))
   | MmioRead8 a \<Rightarrow> (let c = ex_view ((unat a - base) div 4096); k = (unat a - base) mod 4096 in
       if k = 14 then ucast (fn_type c) else if k = 11 then ucast (fn_class c) else ucast (fn_subclass c))
   | _ \<Rightarrow> 0)"

definition pci_boot :: "mem \<Rightarrow> u64 \<Rightarrow> pci" where
  "pci_boot m arr = sched.extend (sched_boot\<lparr>mem := m, hhdmoffset := ex_h, kernel_page_map := ex_root,
      free_list := ex_h + 0x8000, pmm_free_page_count := 2,
      devices := (\<lambda>_. ex_device (unat (ex_h + 0x100000)))\<rparr>)
     (pci.fields 0 (ex_h + 0x100000) 0 1 arr)"

lemma pci_boot_simps [simp]:
  "mem (pci_boot m arr) = m" "hhdmoffset (pci_boot m arr) = ex_h" "kernel_page_map (pci_boot m arr) = ex_root"
  "locks (pci_boot m arr) = (\<lambda>_. False)" "free_list (pci_boot m arr) = ex_h + 0x8000"
  "pmm_free_page_count (pci_boot m arr) = 2" "end_pci_num (pci_boot m arr) = 1" "pci_array (pci_boot m arr) = arr"
  "config_space_base_addr (pci_boot m arr) = ex_h + 0x100000" "console_ok (pci_boot m arr)"
  "devices (pci_boot m arr) = (\<lambda>_. ex_device (unat (ex_h + 0x100000)))"
  by (simp_all add: pci_boot_def sched_boot_def intr_boot_def apic_boot_def timers_boot_def acpi_boot_def heap_boot_def
      vm_boot_def boot_state_def vmm.defs heap.defs pmm.defs acpi.defs timers.defs apic.defs intr.defs sched.defs pci.defs
      console_ok_def)

lemma path3_low:
  assumes "unat w < 2 ^ 21"
  shows "path3 (ex_h + w) = [256, 0, 0]"
proof -
  have "ex_h = push_bit 21 0x7ffffc000000" by simp
  then have e: "ex_h + w = push_bit 21 0x7ffffc000000 OR w" using shifted_or [OF assms] by metis
  have "drop_bit k w = 0" if "21 \<le> k" for k
  proof -
    have "unat w < 2 ^ k" using assms that by (meson less_le_trans one_le_numeral power_increasing)
    then have "drop_bit k (unat w) = 0" by (simp add: drop_bit_eq_div)
    then show ?thesis by (simp add: word_unat_eq_iff unat_drop_bit_eq)
  qed
  then show ?thesis by (simp add: path3_def pml4_offset_def pdp_offset_def pd_offset_def e)
qed

lemma pci_boot_ready: "conf_ready (pci_boot direct_tables arr) [0x8000, 0x7000]"
proof -
  let ?s = "pci_boot direct_tables arr"
  have "pmm_free_page_count direct_state = 2"
    by (simp add: direct_state_def vm_boot_def boot_state_def pmm.defs vmm.defs)
  then have vm: "vm_inv ?s ex_root [0x8000, 0x7000]"
    by (intro vm_inv_cong [OF direct_state_vm_inv]) simp_all
  have "fn_addr ?s n \<noteq> 0 \<and> path3 (fn_addr ?s n) = [256, 0, 0]" if n: "n < 256" for n
  proof -
    have "fn_addr ?s n = ex_h + of_nat (0x100000 + n * 4096)" by (simp add: fn_addr_def)
    moreover have "unat (of_nat (0x100000 + n * 4096) :: u64) = 0x100000 + n * 4096"
      using n by (intro unat_of_nat_lt) simp
    ultimately have "path3 (fn_addr ?s n) = [256, 0, 0]"
      using n path3_low [of "of_nat (0x100000 + n * 4096)"] by simp
    moreover have "unat (ex_h + of_nat (0x100000 + n * 4096)) = unat ex_h + (0x100000 + n * 4096)"
      using n by (intro unat_offset) simp
    ultimately show ?thesis using \<open>fn_addr ?s n = ex_h + of_nat (0x100000 + n * 4096)\<close>
      by (metis add_is_0 unat_0 zero_neq_numeral)
  qed
  then show ?thesis using vm direct_tables_pt(2) by (simp add: conf_ready_def conf_fns_def)
qed

lemma pci_boot_view: "conf_view (pci_boot m arr) ex_view"
proof -
  have "unat (fn_addr (pci_boot m arr) n + of_nat k) = unat (ex_h + 0x100000) + (n * 4096 + k)" if "n < 256" "k < 16" for n k
  proof -
    have "fn_addr (pci_boot m arr) n + of_nat k = (ex_h + 0x100000) + of_nat (n * 4096 + k)" by (simp add: fn_addr_def)
    moreover have "unat ((ex_h + 0x100000) + of_nat (n * 4096 + k)) = unat (ex_h + 0x100000) + (n * 4096 + k)"
      using that by (intro unat_offset) simp
    ultimately show ?thesis by (simp only:)
  qed
  note A = this [of _ 0] this [of _ 14] this [of _ 11] this [of _ 10]
  have "ucast (ucast x :: u64) = x" "ucast (ucast y :: u64) = y" for x :: u16 and y :: u8
    by (rule bit_word_eqI, simp add: bit_simps)+
  with A show ?thesis by (auto simp: conf_view_def conf_fns_def ex_device_def Let_def)
qed

theorem get_header_is_ecam_witness:
  "get_header 3 31 7 (pci_boot (\<lambda>_. 0) 0) = Ret (ex_h + 0x100000 + 0x3ff000) (pci_boot (\<lambda>_. 0) 0)"
  using get_header_is_ecam [of 3 31 7 0 0 0 "pci_boot (\<lambda>_. 0) 0"] by simp

theorem check_device_correct_witness:
  "\<exists>s'. check_device 0 3 (pci_boot direct_tables 0) = Ret \<lparr>multi = False,
       ret_func_addr = [ex_h + 0x118000, 0, ex_h + 0x11a000, 0, 0, 0, 0, 0]\<rparr> s'"
proof -
  have "probe_addrs (pci_boot direct_tables 0) ex_view 0 3 = [ex_h + 0x118000, 0, ex_h + 0x11a000, 0, 0, 0, 0, 0]"
    by (simp add: probe_addrs_def ex_view_def fn_index_def fn_addr_def upt_rec)
  then show ?thesis
    using check_device_correct [OF pci_boot_ready pci_boot_view, of 0 0 3] by auto
qed

theorem pci_find_device_correct_witness:
  "\<exists>s'. pci_find_device 1 6 (pci_boot direct_tables 0) = Ret (ex_h + 0x118000) s'"
proof -
  have w: "find (pci_wanted ex_view 1 6) (List.product [0..<1] [0..<32]) = Some (0, 3)" by code_simp
  show ?thesis
    using pci_find_device_correct [OF pci_boot_ready pci_boot_view, where cls = 1 and subcls = 6] w by (simp del: upt_conv_Cons product.simps add: fn_index_def fn_addr_def) blast
qed

definition ex_structure :: pci_structure where
  "ex_structure = \<lparr>pci_segment = 1, pci_bus = 0, pci_device = 3, func_addr = [0x118000, 0, 0x11a000, 0, 0, 0, 0, 0]\<rparr>"

lemma ex_structure_simps [simp]: "length (func_addr ex_structure) = 8" "func_addr ex_structure ! 0 = 0x118000"
  by (simp_all add: ex_structure_def)

lemma pci_table_empty: "pci_table (\<lambda>_. 0) a []"
  by (simp add: pci_table_def slot_func_def load64_zero)

theorem pci_add_device_appends_witness:
  "\<exists>s'. pci_add_device ex_structure (pci_boot (\<lambda>_. 0) 0x10000) = Ret () s' \<and> pci_table (mem s') 0x10000 [ex_structure]"
  using pci_add_device_appends [of "pci_boot (\<lambda>_. 0) 0x10000" "[]" ex_structure] pci_table_empty by auto

theorem pci_get_device_deadlock_witness:
  "\<exists>m s'. pci_table m 0x10000 [ex_structure] \<and> pci_get_device ex_structure (pci_boot m 0x10000) = Ret 0x10000 s'
     \<and> pci_get_device ex_structure s' = Diverge \<and> pci_add_device ex_structure s' = Diverge"
proof -
  let ?m = "put_funcs (put_header (\<lambda>_. 0) 0x10000 0 ex_structure) 0x10000 0 (func_addr ex_structure) [0..<PCI_FUNCTION_MAX]"
  have t: "pci_table ?m 0x10000 [ex_structure]"
    using pci_table_append [OF pci_table_empty, of ex_structure "0x10000"] by simp
  moreover have "same_key ex_structure ex_structure" by (simp add: same_key_def)
  ultimately show ?thesis
    using pci_get_device_deadlock [of "pci_boot ?m 0x10000" "[]" ex_structure "[]" ex_structure ex_structure ex_structure]
    by (auto simp: pci_slot_def)
qed

end
