(* ===== verification/Ahci.thy ===== *)
theory Ahci
  imports Pci
begin

text \<open>
  The AHCI driver (\<^verbatim>\<open>src/drivers/ahci.c\<close>) and the ELF loader stub (\<^verbatim>\<open>src/elf/elf.c\<close>).
\<close>

section \<open>AHCI\<close>

definition AHCI_MSE :: u16 where "AHCI_MSE = 0x02"
definition AHCI_BME :: u16 where "AHCI_BME = 0x03"
definition AHCI_INT_ENABLED :: u16 where "AHCI_INT_ENABLED = push_bit 10 1"
definition AHCI_CLASS_ID :: u64 where "AHCI_CLASS_ID = 0x01"
definition AHCI_SUBCLASS_ID :: int where "AHCI_SUBCLASS_ID = 0x06"
definition AHCI_GHC_REG :: u16 where "AHCI_GHC_REG = 0x04"
definition AHCI_BOHC_REG :: u16 where "AHCI_BOHC_REG = 0x28"

record ahci = pci +
  ahci_base_address :: u64

definition ahci_read_reg :: "u16 \<Rightarrow> ('a ahci_scheme, u32) kern" where
  "ahci_read_reg reg = kbind (kget ahci_base_address) (\<lambda>b. mmio_read32 (b + ucast reg))"

definition ahci_write_reg :: "u16 \<Rightarrow> u32 \<Rightarrow> ('a ahci_scheme, unit) kern" where
  "ahci_write_reg reg data = kbind (kget ahci_base_address) (\<lambda>b. emit (MmioWrite32 (b + ucast reg) data))"

text \<open>The handoff from the firmware and the reset: the wait is the loop of the source.\<close>

definition ahci_wait_round :: "(nat \<Rightarrow> ('a ahci_scheme, unit) kern) \<Rightarrow> u32 \<Rightarrow> ('a ahci_scheme, u32 + unit) kern" where
  "ahci_wait_round irq bohc =
     (if bohc AND 0b01 \<noteq> 1 \<and> bohc AND 0b1 \<noteq> 0
      then kseq (apic_sleep irq 200) (kbind (ahci_read_reg AHCI_BOHC_REG) (\<lambda>b. kret (Inl b)))
      else kret (Inr ()))"

definition ahci_handoff :: "(nat \<Rightarrow> ('a ahci_scheme, unit) kern) \<Rightarrow> ('a ahci_scheme, unit) kern" where
  "ahci_handoff irq =
     kbind (ahci_read_reg AHCI_BOHC_REG) (\<lambda>v.
     kseq (ahci_write_reg AHCI_BOHC_REG (v OR 0x2))
    (kbind (ahci_read_reg AHCI_BOHC_REG) (\<lambda>bohc.
     kseq (kloop (ahci_wait_round irq) bohc)
          (ahci_write_reg AHCI_GHC_REG 1))))"

definition ahci_init :: "(nat \<Rightarrow> ('a ahci_scheme, unit) kern) \<Rightarrow> ('a ahci_scheme, unit) kern" where
  "ahci_init irq =
     kbind (pci_find_device AHCI_CLASS_ID AHCI_SUBCLASS_ID) (\<lambda>header.
     kseq (kif (header = 0) (kseq (klog LOG_ERROR ''ahci_init'' ''AHCI controller not found!'') kkill))
    (kseq (kprintf ''size of header: 0x{xn}'' [ANum sizeof_pci_header_0_t])
    (kbind (header0_bar5 header) (\<lambda>bar5.
     kseq (kmod (\<lambda>s. s\<lparr>ahci_base_address := ucast (bar5 AND 0xfffff000)\<rparr>))
    (kbind (kget ahci_base_address) (\<lambda>base.
     kseq (kprintf (''ahci: 0x{x}'' @ nl) [ANum base])
    (kbind (pci_command header) (\<lambda>cmd.
     kseq (emit (MmioWrite16 (header + 4) (cmd OR (AHCI_MSE OR AHCI_BME OR AHCI_INT_ENABLED))))
    (kseq (kernel_map_pages base 1 (PTE_BIT_RW OR PTE_BIT_NX OR PTE_BIT_UNCACHABLE))
    (kseq (kmod (\<lambda>s. s\<lparr>ahci_base_address := ahci_base_address s + hhdmoffset s\<rparr>))
    (kseq (kprintf (''ahci: Performing BIOS/OS handoff'' @ nl) [])
    (kseq (ahci_handoff irq)
    (kbind (header0_interrupt_pin header) (\<lambda>pin.
           kprintf (''ahci: Requesting pin {d}'' @ nl) [ANum (ucast pin)]))))))))))))))"

text \<open>
  The driver does not wait for the firmware. Whatever the controller answers, the
  condition of the wait is false, so the handoff is exactly four register accesses: the
  ownership register is read, written back with the ownership bit, read once more, and the
  controller is reset at once.
\<close>

theorem ahci_handoff_no_wait:
  "ahci_handoff irq s =
     (let r = ahci_base_address s + 0x28;
          v = devices s (io_trace s) (MmioRead32 r);
          tr = MmioWrite32 r (ucast v OR 2) # Read (MmioRead32 r) v # io_trace s
      in Ret () (s\<lparr>io_trace := MmioWrite32 (ahci_base_address s + 4) 1
                     # Read (MmioRead32 r) (devices s tr (MmioRead32 r)) # tr\<rparr>))"
proof -
  have "ahci_wait_round irq b t = Ret (Inr ()) t" for b and t :: "'a ahci_scheme"
    by (auto simp: ahci_wait_round_def and_one_eq mod_2_eq_odd)
  then have "kloop (ahci_wait_round irq) b t = Ret () t" for b and t :: "'a ahci_scheme"
    by (simp add: kloop_unfold)
  then show ?thesis
    by (simp add: ahci_handoff_def ahci_read_reg_def ahci_write_reg_def mmio_read32_def hw_read_def kbind_cases
        kseq_cases Let_def AHCI_BOHC_REG_def AHCI_GHC_REG_def)
qed

section \<open>ELF\<close>

definition ELFMAG0 :: u8 where "ELFMAG0 = 0x7F"
definition ELFMAG1 :: u8 where "ELFMAG1 = of_char CHR ''E''"
definition ELFMAG2 :: u8 where "ELFMAG2 = of_char CHR ''L''"
definition ELFMAG3 :: u8 where "ELFMAG3 = of_char CHR ''F''"

text \<open>\<open>e_ident\<close> is at the start of the packed \<open>elf64_ehdr\<close>.\<close>

definition e_ident :: "mem \<Rightarrow> u64 \<Rightarrow> nat \<Rightarrow> u8" where
  "e_ident m ehdr i = m (ehdr + of_nat i)"

definition check_elf :: "mem \<Rightarrow> u64 \<Rightarrow> kstatus" where
  "check_elf m ehdr =
     (if ehdr = 0 then KERNEL_STATUS_ERROR
      else if e_ident m ehdr 0 = ELFMAG0 \<and> e_ident m ehdr 1 = ELFMAG1
            \<and> e_ident m ehdr 2 = ELFMAG2 \<and> e_ident m ehdr 3 = ELFMAG3
      then KERNEL_STATUS_SUCCESS else KERNEL_STATUS_ERROR)"

text \<open>The numbers of the enumeration \<open>kstatus\<close>, as the condition \<open>!check_elf(ehdr)\<close> sees them.\<close>

fun kstatus_val :: "kstatus \<Rightarrow> int" where
  "kstatus_val KERNEL_STATUS_SUCCESS = 0"
| "kstatus_val KERNEL_STATUS_ERROR = 1"

text \<open>\<open>None\<close>: control reaches the end of the function without a return value.\<close>

definition kernel_load_elf64 :: "mem \<Rightarrow> u64 \<Rightarrow> kstatus option" where
  "kernel_load_elf64 m ehdr = (if kstatus_val (check_elf m ehdr) = 0 then Some KERNEL_STATUS_ERROR else None)"

text \<open>
  The loader refuses ELF files and nothing else. \<open>kernel_load_elf64\<close> reports an
  error exactly for a header that starts with the ELF magic; for every other header, and for
  a null pointer, it ends without a return value.
\<close>

theorem kernel_load_elf64_inverted:
  "kernel_load_elf64 m ehdr =
     (if ehdr \<noteq> 0 \<and> bytes_at m ehdr 4 = [0x7F, 0x45, 0x4C, 0x46] then Some KERNEL_STATUS_ERROR else None)"
proof -
  have "bytes_at m ehdr 4 = [m ehdr, m (ehdr + 1), m (ehdr + 2), m (ehdr + 3)]"
    by (simp add: bytes_at_def upt_rec)
  then show ?thesis
    by (simp add: kernel_load_elf64_def check_elf_def e_ident_def ELFMAG0_def ELFMAG1_def ELFMAG2_def ELFMAG3_def)
qed

end
