(* ===== verification/UacpiKernel.thy ===== *)
theory UacpiKernel
  imports Ahci
begin

text \<open>
  The services that the kernel gives to uACPI: \<^verbatim>\<open>src/uacpi_kernel_api.c\<close>, with the status
  codes of \<^verbatim>\<open>src/include/uacpi/status.h\<close>. A status is the number of its enumerator, because
  one of the functions returns an address as a status.
\<close>

section \<open>Status codes\<close>

type_synonym uacpi_status = u32

definition UACPI_STATUS_OK :: uacpi_status where "UACPI_STATUS_OK = 0"
definition UACPI_STATUS_MAPPING_FAILED :: uacpi_status where "UACPI_STATUS_MAPPING_FAILED = 1"
definition UACPI_STATUS_OUT_OF_MEMORY :: uacpi_status where "UACPI_STATUS_OUT_OF_MEMORY = 2"
definition UACPI_STATUS_BAD_CHECKSUM :: uacpi_status where "UACPI_STATUS_BAD_CHECKSUM = 3"
definition UACPI_STATUS_INVALID_SIGNATURE :: uacpi_status where "UACPI_STATUS_INVALID_SIGNATURE = 4"
definition UACPI_STATUS_INVALID_TABLE_LENGTH :: uacpi_status where "UACPI_STATUS_INVALID_TABLE_LENGTH = 5"
definition UACPI_STATUS_NOT_FOUND :: uacpi_status where "UACPI_STATUS_NOT_FOUND = 6"
definition UACPI_STATUS_INVALID_ARGUMENT :: uacpi_status where "UACPI_STATUS_INVALID_ARGUMENT = 7"
definition UACPI_STATUS_UNIMPLEMENTED :: uacpi_status where "UACPI_STATUS_UNIMPLEMENTED = 8"
definition UACPI_STATUS_ALREADY_EXISTS :: uacpi_status where "UACPI_STATUS_ALREADY_EXISTS = 9"
definition UACPI_STATUS_INTERNAL_ERROR :: uacpi_status where "UACPI_STATUS_INTERNAL_ERROR = 10"

section \<open>PCI and port access\<close>

record uacpi_pci_address =
  pa_segment :: u16
  pa_bus :: u8
  pa_device :: u8
  pa_function :: u8

text \<open>The parameter \<open>out_rsdp_address\<close> is assigned, not what it points to.\<close>

definition uacpi_kernel_get_rsdp :: "u64 \<Rightarrow> ('a ahci_scheme, uacpi_status) kern" where
  "uacpi_kernel_get_rsdp out_rsdp_address = kbind (kget rsdp_request_response) (\<lambda>r. case r of
     None \<Rightarrow> kfault | Some _ \<Rightarrow> kret UACPI_STATUS_OK)"

text \<open>An index beyond the eight function addresses is an access out of bounds.\<close>

definition uacpi_kernel_pci_device_open :: "uacpi_pci_address \<Rightarrow> u64 \<Rightarrow> ('a ahci_scheme, uacpi_status) kern" where
  "uacpi_kernel_pci_device_open addr out_handle =
     (if pa_segment addr \<noteq> 0
      then kseq (klog LOG_ERROR ''uacpi_kernel_pci_device_open'' ''Multiple segments not implemented!'')
                (kret UACPI_STATUS_UNIMPLEMENTED)
      else kbind (check_device (ucast (pa_bus addr)) (ucast (pa_device addr))) (\<lambda>ret.
           if unat (pa_function addr) < 8 then kret (ucast (ret_func_addr ret ! unat (pa_function addr))) else kfault))"

definition uacpi_kernel_pci_device_close :: "u64 \<Rightarrow> ('a ahci_scheme, unit) kern" where
  "uacpi_kernel_pci_device_close handle = kret ()"

definition uacpi_kernel_pci_read :: "u64 \<Rightarrow> u64 \<Rightarrow> u8 \<Rightarrow> u64 \<Rightarrow> ('a ahci_scheme, uacpi_status) kern" where
  "uacpi_kernel_pci_read dev offset byte_width value =
     (if byte_width = 1 then kbind (mmio_read8 (dev + offset)) (\<lambda>v. kseq (mstore64 value (ucast v)) (kret UACPI_STATUS_OK))
      else if byte_width = 2 then kbind (mmio_read16 (dev + offset)) (\<lambda>v. kseq (mstore64 value (ucast v)) (kret UACPI_STATUS_OK))
      else if byte_width = 4 then kbind (mmio_read32 (dev + offset)) (\<lambda>v. kseq (mstore64 value (ucast v)) (kret UACPI_STATUS_OK))
      else kret UACPI_STATUS_INTERNAL_ERROR)"

definition uacpi_kernel_pci_write :: "u64 \<Rightarrow> u64 \<Rightarrow> u8 \<Rightarrow> u64 \<Rightarrow> ('a ahci_scheme, uacpi_status) kern" where
  "uacpi_kernel_pci_write dev offset byte_width value =
     (if byte_width = 1 then kseq (emit (MmioWrite8 (dev + offset) (ucast value))) (kret UACPI_STATUS_OK)
      else if byte_width = 2 then kseq (emit (MmioWrite16 (dev + offset) (ucast value))) (kret UACPI_STATUS_OK)
      else if byte_width = 4 then kseq (emit (MmioWrite32 (dev + offset) (ucast value))) (kret UACPI_STATUS_OK)
      else kret UACPI_STATUS_INTERNAL_ERROR)"

definition uacpi_kernel_io_map :: "u64 \<Rightarrow> u64 \<Rightarrow> u64 \<Rightarrow> ('a ahci_scheme, uacpi_status) kern" where
  "uacpi_kernel_io_map base len out_handle = kret UACPI_STATUS_UNIMPLEMENTED"

definition uacpi_kernel_io_unmap :: "u64 \<Rightarrow> ('a ahci_scheme, unit) kern" where
  "uacpi_kernel_io_unmap handle = kret ()"

definition uacpi_kernel_io_read :: "u64 \<Rightarrow> u64 \<Rightarrow> u8 \<Rightarrow> u64 \<Rightarrow> ('a ahci_scheme, uacpi_status) kern" where
  "uacpi_kernel_io_read handle offset byte_width value =
     (if byte_width = 1 then kbind (inb (ucast offset)) (\<lambda>v. kseq (mstore64 value (ucast v)) (kret UACPI_STATUS_OK))
      else if byte_width = 2 then kbind (inw (ucast offset)) (\<lambda>v. kseq (mstore64 value (ucast v)) (kret UACPI_STATUS_OK))
      else if byte_width = 4 then kbind (inl (ucast offset)) (\<lambda>v. kseq (mstore64 value (ucast v)) (kret UACPI_STATUS_OK))
      else kret UACPI_STATUS_INTERNAL_ERROR)"

definition uacpi_kernel_io_write :: "u64 \<Rightarrow> u64 \<Rightarrow> u8 \<Rightarrow> u64 \<Rightarrow> ('a ahci_scheme, uacpi_status) kern" where
  "uacpi_kernel_io_write handle offset byte_width value =
     (if byte_width = 1 then kseq (outb (ucast offset) (ucast value)) (kret UACPI_STATUS_OK)
      else if byte_width = 2 then kseq (outw (ucast offset) (ucast value)) (kret UACPI_STATUS_OK)
      else if byte_width = 4 then kseq (outl (ucast offset) (ucast value)) (kret UACPI_STATUS_OK)
      else kret UACPI_STATUS_INTERNAL_ERROR)"

section \<open>Memory and log\<close>

text \<open>The length counts bytes for uACPI and pages for \<open>kernel_map_pages\<close>.\<close>

definition uacpi_kernel_map :: "u64 \<Rightarrow> u64 \<Rightarrow> ('a ahci_scheme, u64) kern" where
  "uacpi_kernel_map addr len = kseq (kernel_map_pages addr len PTE_BIT_RW) (kret addr)"

definition uacpi_kernel_unmap :: "u64 \<Rightarrow> u64 \<Rightarrow> ('a ahci_scheme, unit) kern" where
  "uacpi_kernel_unmap addr len = kernel_unmap_pages addr len"

definition uacpi_kernel_alloc :: "u64 \<Rightarrow> ('a ahci_scheme, u64) kern" where
  "uacpi_kernel_alloc sz = kbind (kmalloc sz) (\<lambda>ret.
     kseq (kif (ret = 0) (kseq (klog LOG_ERROR ''uacpi_kernel_alloc'' ''OOM'') kkill)) (kret ret))"

definition uacpi_kernel_free :: "u64 \<Rightarrow> ('a ahci_scheme, unit) kern" where
  "uacpi_kernel_free addr = (if addr = 0 then kret () else kfree addr)"

definition UACPI_LOG_ERROR :: u32 where "UACPI_LOG_ERROR = 1"
definition UACPI_LOG_WARN :: u32 where "UACPI_LOG_WARN = 2"
definition UACPI_LOG_INFO :: u32 where "UACPI_LOG_INFO = 3"

text \<open>The cases of the switch fall through.\<close>

definition uacpi_kernel_log :: "u32 \<Rightarrow> string \<Rightarrow> ('a ahci_scheme, unit) kern" where
  "uacpi_kernel_log level str =
     kseq (kif (level = UACPI_LOG_ERROR) (kprintf (''uacpi: error: %s'' @ nl) [AStr str]))
    (kseq (kif (level = UACPI_LOG_ERROR \<or> level = UACPI_LOG_WARN) (kprintf (''uacpi: warn: %s'' @ nl) [AStr str]))
          (kif (level = UACPI_LOG_ERROR \<or> level = UACPI_LOG_WARN \<or> level = UACPI_LOG_INFO)
             (kprintf (''uacpi: info: %s'' @ nl) [AStr str])))"

section \<open>Properties\<close>

text \<open>
  The status of opening a PCI device is the opposite of what it means. On segment 0
  \<open>uacpi_kernel_pci_device_open\<close> returns the low half of the function's address as the
  status, and stores no handle: an absent function gives \<open>UACPI_STATUS_OK\<close>, and a present
  one gives another value unless the low half of its address is zero.
\<close>

theorem uacpi_pci_open_inverted:
  fixes s :: "'a ahci_scheme"
  assumes "conf_ready s fs" "conf_view s view" "unat (pa_bus addr) < unat (end_pci_num s)"
    "unat (pa_device addr) < 32" "unat (pa_function addr) < 8" "pa_segment addr = 0"
  shows "\<exists>s'. uacpi_kernel_pci_device_open addr out s
       = Ret (ucast (probe_addrs s view (unat (pa_bus addr)) (unat (pa_device addr)) ! unat (pa_function addr))) s'
     \<and> conf_frame s s'
     \<and> (probe_addrs s view (unat (pa_bus addr)) (unat (pa_device addr)) ! unat (pa_function addr) = 0 \<longrightarrow>
          uacpi_kernel_pci_device_open addr out s = Ret UACPI_STATUS_OK s')"
proof -
  have "probing s fs view s" using assms(1,2) by (simp add: probing_def)
  from check_device_ok [OF this assms(3,4)] obtain s' where
    "check_device (of_nat (unat (pa_bus addr))) (of_nat (unat (pa_device addr))) s
       = Ret \<lparr>multi = False, ret_func_addr = probe_addrs s view (unat (pa_bus addr)) (unat (pa_device addr))\<rparr> s'"
    "probing s fs view s'" by blast
  then show ?thesis
    using assms(5,6) by (auto simp: uacpi_kernel_pci_device_open_def kbind_cases probing_def UACPI_STATUS_OK_def)
qed

definition ahci_boot :: ahci where
  "ahci_boot = pci.extend (pci_boot direct_tables 0) (ahci.fields 0)"

lemma ahci_boot_simps [simp]:
  "fn_addr ahci_boot n = fn_addr (pci_boot direct_tables 0) n" "mem ahci_boot = direct_tables"
  "hhdmoffset ahci_boot = ex_h" "kernel_page_map ahci_boot = ex_root" "locks ahci_boot = (\<lambda>_. False)"
  "free_list ahci_boot = ex_h + 0x8000" "pmm_free_page_count ahci_boot = 2" "end_pci_num ahci_boot = 1"
  "devices ahci_boot = devices (pci_boot direct_tables 0)" "config_space_base_addr ahci_boot = ex_h + 0x100000"
  by (simp_all add: ahci_boot_def fn_addr_def pci.defs ahci.defs)

lemma ahci_boot_ready: "conf_ready ahci_boot [0x8000, 0x7000]" "conf_view ahci_boot ex_view"
proof -
  have "vm_inv ahci_boot ex_root [0x8000, 0x7000]"
    by (rule vm_inv_cong [of "pci_boot direct_tables 0"])
      (use pci_boot_ready [of 0] in \<open>simp_all add: conf_ready_def\<close>)
  then show "conf_ready ahci_boot [0x8000, 0x7000]" "conf_view ahci_boot ex_view"
    using pci_boot_ready [of 0] pci_boot_view [of direct_tables 0]
    by (simp_all add: conf_ready_def conf_view_def conf_fns_def)
qed

theorem uacpi_pci_open_inverted_witness:
  "(\<exists>s'. uacpi_kernel_pci_device_open \<lparr>pa_segment = 0, pa_bus = 0, pa_device = 3, pa_function = 0\<rparr> 0 ahci_boot = Ret 0x118000 s')
   \<and> (\<exists>s'. uacpi_kernel_pci_device_open \<lparr>pa_segment = 0, pa_bus = 0, pa_device = 4, pa_function = 0\<rparr> 0 ahci_boot
        = Ret UACPI_STATUS_OK s')"
proof -
  have "probe_addrs ahci_boot ex_view 0 3 ! 0 = 0xffff800000118000" "probe_addrs ahci_boot ex_view 0 4 ! 0 = 0"
    by (simp_all add: probe_addrs_def ex_view_def fn_index_def fn_addr_def upt_rec)
  then show ?thesis
    using uacpi_pci_open_inverted [OF ahci_boot_ready, of "\<lparr>pa_segment = 0, pa_bus = 0, pa_device = 3, pa_function = 0\<rparr>" 0]
      uacpi_pci_open_inverted [OF ahci_boot_ready, of "\<lparr>pa_segment = 0, pa_bus = 0, pa_device = 4, pa_function = 0\<rparr>" 0]
    by auto
qed

text \<open>
  Messages of uACPI are lost. For every level \<open>uacpi_kernel_log\<close> prints fixed text,
  in which the characters \<open>%s\<close> stand where the message should be, and an error is printed
  as an error, a warning and an information.
\<close>

theorem uacpi_kernel_log_fixed:
  fixes s :: "'a ahci_scheme"
  assumes "\<not> locks s printf_lock"
  shows "uacpi_kernel_log level str s = Ret () (s\<lparr>fb_out := fb_out s
     @ (if level = 1 then ''uacpi: error: %s'' @ nl else [])
     @ (if level = 1 \<or> level = 2 then ''uacpi: warn: %s'' @ nl else [])
     @ (if level = 1 \<or> level = 2 \<or> level = 3 then ''uacpi: info: %s'' @ nl else [])\<rparr>)"
  using assms
  by (simp add: uacpi_kernel_log_def kseq_cases kprintf_plain nl_def UACPI_LOG_ERROR_def UACPI_LOG_WARN_def
      UACPI_LOG_INFO_def)

theorem uacpi_kernel_log_fixed_witness:
  "\<exists>s'. uacpi_kernel_log 3 ''bad table'' ahci_boot = Ret () s' \<and> fb_out s' = fb_out ahci_boot @ ''uacpi: info: %s'' @ nl"
  using uacpi_kernel_log_fixed [of ahci_boot 3 "''bad table''"] by simp

end
