(* ===== verification/Boot.thy ===== *)
theory Boot
  imports UacpiKernel
begin

text \<open>
  Start-up: \<open>vmm_init\<close> of \<^verbatim>\<open>src/mm/vmm.c\<close>, which builds the kernel's page map, and
  \<open>_start\<close> of \<^verbatim>\<open>src/main.c\<close>, which runs the initialisation of every component in order.
\<close>

section \<open>State\<close>

record limine_kernel_address_response =
  virtual_base :: u64
  physical_base :: u64

text \<open>The symbols of the linker script that delimit the sections of the kernel.\<close>

record link_symbols =
  text_start_addr :: u64
  text_end_addr :: u64
  rodata_start_addr :: u64
  rodata_end_addr :: u64
  data_start_addr :: u64
  data_end_addr :: u64

text \<open>
  The framebuffer response is present or not, and so is its first framebuffer.
\<close>

record boot = ahci +
  kernel_addr_response :: "limine_kernel_address_response option"
  hhdm_request_response :: "u64 option"
  framebuffer_response :: "unit option option"
  text_start :: u64
  text_end :: u64
  rodata_start :: u64
  rodata_end :: u64
  data_start :: u64
  data_end :: u64
  kernel_start :: u64
  kernel_end :: u64

section \<open>The kernel's page map\<close>

text \<open>One region of the memory map, at its place in the direct map.\<close>

definition map_region :: "u64 \<Rightarrow> u64 \<Rightarrow> u64 \<Rightarrow> ('a boot_scheme, unit) kern" where
  "map_region base len flags = kfor_step 0 len PAGE_SIZE (\<lambda>j.
     kbind (kget kernel_page_map) (\<lambda>pm. kbind (kget hhdmoffset) (\<lambda>h.
     vmm_map_page pm (base + j + h) (base + j) flags)))"

definition map_memmap_entry :: "memmap_entry \<Rightarrow> ('a boot_scheme, unit) kern" where
  "map_memmap_entry e =
     kseq (kif (me_type e = LIMINE_MEMMAP_USABLE) (map_region (me_base e) (me_length e) (PTE_BIT_PRESENT OR PTE_BIT_RW)))
    (kseq (kif (me_type e = LIMINE_MEMMAP_FRAMEBUFFER)
             (map_region (me_base e) (me_length e) (PTE_BIT_PRESENT OR PTE_BIT_RW OR PTE_BIT_NX)))
    (kseq (kif (me_type e = LIMINE_MEMMAP_BOOTLOADER_RECLAIMABLE)
             (map_region (me_base e) (me_length e) (PTE_BIT_PRESENT OR PTE_BIT_RW)))
          (kif (me_type e = LIMINE_MEMMAP_ACPI_RECLAIMABLE)
             (map_region (me_base e) (me_length e) (PTE_BIT_PRESENT OR PTE_BIT_RW)))))"

text \<open>One section of the kernel. Without an answer to the address request the response is null.\<close>

definition map_section :: "u64 \<Rightarrow> u64 \<Rightarrow> u64 \<Rightarrow> ('a boot_scheme, unit) kern" where
  "map_section start stop flags = kfor_step start stop PAGE_SIZE (\<lambda>addr.
     kbind (kget kernel_addr_response) (\<lambda>r. case r of
       None \<Rightarrow> kfault
     | Some ka \<Rightarrow> kbind (kget kernel_page_map) (\<lambda>pm.
         vmm_map_page pm addr (addr - virtual_base ka + physical_base ka) flags)))"

text \<open>The root table of ACPI, page by page; the bound is read again in every round.\<close>

definition map_acpi_round :: "u64 \<Rightarrow> u64 \<Rightarrow> ('a boot_scheme, u64 + unit) kern" where
  "map_acpi_round t i = kbind (kget (\<lambda>s. hdr_length (mem s) t)) (\<lambda>len.
     if i < ucast (len div 4096 + 1) then
       kseq (kprintf ''mapping 0x{xn}'' [ANum (t + i * PAGE_SIZE)])
      (kbind (kget kernel_page_map) (\<lambda>pm. kbind (kget hhdmoffset) (\<lambda>h.
       kseq (vmm_map_page pm (t + i * PAGE_SIZE) ((t - h) + i * PAGE_SIZE) (PTE_BIT_PRESENT OR PTE_BIT_RW OR PTE_BIT_NX))
            (kret (Inl (i + 1))))))
     else kret (Inr ()))"

definition map_acpi_table :: "u64 \<Rightarrow> ('a boot_scheme, unit) kern" where
  "map_acpi_table t = kseq (deref t) (kloop (map_acpi_round t) 0)"

definition set_sections :: "link_symbols \<Rightarrow> ('a boot_scheme, unit) kern" where
  "set_sections ls = kmod (\<lambda>s. s\<lparr>
     text_start := ALIGN_DOWN (text_start_addr ls) PAGE_SIZE, rodata_start := ALIGN_DOWN (rodata_start_addr ls) PAGE_SIZE,
     data_start := ALIGN_DOWN (data_start_addr ls) PAGE_SIZE, text_end := ALIGN_UP (text_end_addr ls) PAGE_SIZE,
     rodata_end := ALIGN_UP (rodata_end_addr ls) PAGE_SIZE, data_end := ALIGN_UP (data_end_addr ls) PAGE_SIZE\<rparr>)"

definition map_kernel :: "('a boot_scheme, unit) kern" where
  "map_kernel =
     kbind (kget (\<lambda>s. (text_start s, text_end s))) (\<lambda>(a, b).
     kseq (map_section a b PTE_BIT_PRESENT)
    (kseq (kmod (\<lambda>s. s\<lparr>kernel_start := text_start s\<rparr>))
    (kseq (kprintf ''vmm: text_start: 0x{xn}vmm: text_end: 0x{xn}'' [ANum a, ANum b])
    (kbind (kget (\<lambda>s. (rodata_start s, rodata_end s))) (\<lambda>(c, d).
     kseq (map_section c d (PTE_BIT_PRESENT OR PTE_BIT_NX))
    (kseq (kprintf ''vmm: rodata_start: 0x{xn}vmm: rodata_end: 0x{xn}'' [ANum c, ANum d])
    (kbind (kget (\<lambda>s. (data_start s, data_end s))) (\<lambda>(e, f).
     kseq (map_section e f (PTE_BIT_PRESENT OR PTE_BIT_RW OR PTE_BIT_NX))
    (kseq (kprintf ''vmm: data_start: 0x{xn}vmm: data_end: 0x{xn}'' [ANum e, ANum f])
          (kmod (\<lambda>s. s\<lparr>kernel_end := data_end s\<rparr>)))))))))))"

definition vmm_init :: "link_symbols \<Rightarrow> ('a boot_scheme, unit) kern" where
  "vmm_init ls =
     kbind (kget kernel_addr_response) (\<lambda>r.
     kseq (kif (r = None) (klog LOG_ERROR ''vmm_init'' ''Kernel address not recieved''))
    (kbind pmm_alloc (\<lambda>page.
     kseq (kmod (\<lambda>s. s\<lparr>kernel_page_map := page + hhdmoffset s\<rparr>))
    (kbind (kget kernel_page_map) (\<lambda>pm.
     kseq (kif (pm = 0) (klog LOG_ERROR ''vmm_init'' ''Allocating block for page map failed''))
    (kseq (memset pm 0 PAGE_SIZE)
    (kseq (set_sections ls)
    (kbind (kget memmap_response) (\<lambda>entries.
     kseq (kfor entries map_memmap_entry)
    (kseq map_kernel
    (kbind (kget (\<lambda>s. (lapic_address s, hhdmoffset s))) (\<lambda>(la, h).
     kseq (vmm_map_page pm la (la - h) (PTE_BIT_PRESENT OR PTE_BIT_RW OR PTE_BIT_NX))
    (kbind (kget (\<lambda>s. (xsdt s, rsdt s))) (\<lambda>(x, t).
     kseq (if x = 0 \<and> t \<noteq> 0 then map_acpi_table t else map_acpi_table x)
    (kseq (vmm_set_ctx pm)
          flush_tlb)))))))))))))))"

section \<open>Boot sequence\<close>

definition done_msg :: "string \<Rightarrow> ('a boot_scheme, unit) kern" where
  "done_msg part = klog LOG_SUCCESS part ''Done!''"

definition death :: "('a boot_scheme, unit) kern" where
  "death = kloop (\<lambda>_. kret (Inl ())) ()"

text \<open>
  Parameters: the terminal's initialisation, the addresses of the assembly stubs, of
  \<open>ap_init\<close> and of \<open>test_task\<close>, the linker symbols and the context switch.
\<close>

record 's boot_env =
  flanterm_fb_init :: "('s, unit) kern"
  isr_stubs :: "nat \<Rightarrow> u64"
  env_symbols :: link_symbols
  ap_init_addr :: u64
  test_task_addr :: u64
  env_switch_context :: "u64 \<Rightarrow> ('s, unit) kern"

definition start_devices :: "('a boot_scheme) boot_env \<Rightarrow> ('a boot_scheme, unit) kern" where
  "start_devices env =
     kseq (kprintf ''Welcome to SFB/25{n}'' [])
    (kseq (klog LOG_INFO ''serial'' ''Initalizing serial controller'') (kseq serial_init (kseq (done_msg ''serial'')
    (kseq (klog LOG_INFO ''gdt'' ''Setting up the GDT'') (kseq set_gdt (kseq (done_msg ''gdt'')
    (kseq (klog LOG_INFO ''idt'' ''Setting up the IDT'') (kseq (set_idt (isr_stubs env)) (kseq (done_msg ''idt'')
    (kseq (klog LOG_INFO ''acpi'' ''Reading ACPI tables'') (kseq acpi_init (kseq (done_msg ''acpi'')
    (kseq (klog LOG_INFO ''apic'' ''Initalizing APIC'') (kseq apic_init (kseq (done_msg ''apic'')
    (kseq tsc_init (kret ())))))))))))))))))"

definition start_memory :: "('a boot_scheme) boot_env \<Rightarrow> ('a boot_scheme, unit) kern" where
  "start_memory env =
     kseq (klog LOG_INFO ''pmm'' ''Setting up the PMM'') (kseq pmm_init (kseq (done_msg ''pmm'')
    (kseq (klog LOG_INFO ''vmm'' ''Setting up the page tables'') (kseq (vmm_init (env_symbols env)) (kseq (done_msg ''vmm'')
     kernel_heap_init)))))"

definition start_tasks :: "('a boot_scheme) boot_env \<Rightarrow> ('a boot_scheme, unit) kern" where
  "start_tasks env =
     kseq (klog LOG_INFO ''smp'' ''Starting APs'') (kseq (smp_init (ap_init_addr env)) (kseq (done_msg ''smp'')
    (kseq (klog LOG_INFO ''pci'' ''Getting le pci'') (kseq pci_init (kseq (done_msg ''pci'')
    (kseq (scheduler_init (env_switch_context env) (test_task_addr env))
     death))))))"

definition start :: "('a boot_scheme) boot_env \<Rightarrow> ('a boot_scheme, unit) kern" where
  "start env =
     kbind (kget hhdm_request_response) (\<lambda>hr. case hr of
       None \<Rightarrow> death
     | Some offset \<Rightarrow>
         kseq (kmod (\<lambda>s. s\<lparr>hhdmoffset := offset\<rparr>))
        (kbind (kget framebuffer_response) (\<lambda>fr. case fr of
           None \<Rightarrow> death
         | Some None \<Rightarrow> death
         | Some (Some _) \<Rightarrow>
             kseq (flanterm_fb_init env)
            (kseq (start_devices env)
            (kseq (start_memory env)
                  (start_tasks env))))))"

section \<open>Mapping the sections\<close>

text \<open>Pages from \<open>a\<close> on, without wrap-around.\<close>

definition page_at :: "u64 \<Rightarrow> nat \<Rightarrow> u64" where
  "page_at a k = a + of_nat (4096 * k)"

lemma page_at_Suc: "page_at a (Suc k) = page_at (a + PAGE_SIZE) k"
  by (simp add: page_at_def PAGE_SIZE_def)

lemma page_at_facts:
  assumes "higher_half a" "aligned 12 a" "unat a + 4096 * k < 2 ^ 64"
  shows "unat (page_at a k) = unat a + 4096 * k" "higher_half (page_at a k)" "aligned 12 (page_at a k)"
proof -
  show u: "unat (page_at a k) = unat a + 4096 * k" unfolding page_at_def by (rule unat_offset [OF assms(3)])
  have hh: "higher_half x \<longleftrightarrow> unat x div 2 ^ 48 = 0xffff" for x
  proof -
    have "drop_bit 48 x = 0xffff \<longleftrightarrow> unat (drop_bit 48 x) = unat (0xffff :: u64)" by (rule word_unat_eq_iff)
    also have "unat (drop_bit 48 x) = unat x div 2 ^ 48" using unat_drop_bit_eq [of 48 x] drop_bit_eq_div [of 48 "unat x"] by simp
    finally show ?thesis by (simp add: higher_half_def)
  qed
  have "0xffff \<le> unat (page_at a k) div 2 ^ 48"
    using assms(1) unfolding hh u by (metis div_le_mono le_add1)
  moreover have "unat (page_at a k) div 2 ^ 48 < 2 ^ 16"
    using assms(3) u by (intro less_mult_imp_div_less) (simp add: algebra_simps)
  ultimately show "higher_half (page_at a k)" by (simp add: hh)
  have "2 ^ 12 dvd unat a" using assms(2) by (simp only: aligned_dvd)
  moreover have "(2 ^ 12 :: nat) dvd 4096 * k" by simp
  ultimately show "aligned 12 (page_at a k)" unfolding aligned_dvd u by (rule dvd_add)
qed

text \<open>
  \<open>section_mapped root ka fl a n s s'\<close>: the \<open>n\<close> pages from \<open>a\<close> on are mapped to the
  kernel's physical pages, and no other page has changed its translation.
\<close>

definition section_mapped ::
  "u64 \<Rightarrow> limine_kernel_address_response \<Rightarrow> u64 \<Rightarrow> u64 \<Rightarrow> nat \<Rightarrow> 'a boot_scheme \<Rightarrow> 'a boot_scheme \<Rightarrow> bool" where
  "section_mapped root ka fl a n s s' \<longleftrightarrow>
     (\<forall>k < n. translate (mem s') (hhdmoffset s) root (page_at a k)
        = Some ((page_at a k - virtual_base ka + physical_base ka) OR fl))
   \<and> (\<forall>w. (\<forall>k < n. \<not> same_page (page_at a k) w) \<longrightarrow>
        translate (mem s') (hhdmoffset s) root w = translate (mem s) (hhdmoffset s) root w)"

lemma section_mapped_Suc:
  assumes "mapped_only root a (Some ((a - virtual_base ka + physical_base ka) OR fl)) s t"
    "section_mapped root ka fl (a + PAGE_SIZE) n t u" "hhdmoffset t = hhdmoffset s"
    "\<And>k. k < n \<Longrightarrow> \<not> same_page (page_at a (Suc k)) a"
  shows "section_mapped root ka fl a (Suc n) s u"
proof -
  have a0: "page_at a 0 = a" by (simp add: page_at_def)
  have "translate (mem u) (hhdmoffset s) root (page_at a k) = Some ((page_at a k - virtual_base ka + physical_base ka) OR fl)"
    if "k < Suc n" for k
    using assms that by (cases k) (auto simp: section_mapped_def mapped_only_def a0 page_at_Suc)
  moreover have "translate (mem u) (hhdmoffset s) root w = translate (mem s) (hhdmoffset s) root w"
    if w: "\<forall>k < Suc n. \<not> same_page (page_at a k) w" for w
  proof -
    have "\<forall>k < n. \<not> same_page (page_at (a + PAGE_SIZE) k) w" using w page_at_Suc [of a] by auto
    moreover have "\<not> same_page a w" using w a0 by force
    ultimately show ?thesis using assms(1-3) by (simp add: section_mapped_def mapped_only_def)
  qed
  ultimately show ?thesis by (simp add: section_mapped_def)
qed

definition section_round :: "u64 \<Rightarrow> u64 \<Rightarrow> u64 \<Rightarrow> ('a boot_scheme, u64 + unit) kern" where
  "section_round stop flags addr = (if addr < stop then kseq
     (kbind (kget kernel_addr_response) (\<lambda>r. case r of
       None \<Rightarrow> kfault
     | Some ka \<Rightarrow> kbind (kget kernel_page_map) (\<lambda>pm.
         vmm_map_page pm addr (addr - virtual_base ka + physical_base ka) flags)))
     (kret (Inl (addr + PAGE_SIZE))) else kret (Inr ()))"

lemma map_section_loop:
  fixes s :: "'a boot_scheme"
  assumes "vm_inv s root fs" "\<not> locks s page_table_lock" "kernel_page_map s = root"
    "kernel_addr_response s = Some ka" "3 * n \<le> length fs" "\<And>p. present (p OR fl)"
    "higher_half a" "aligned 12 a" "unat a + 4096 * n < 2 ^ 64"
  shows "\<exists>s' fs'. kloop (section_round (page_at a n) fl) a s = Ret () s' \<and> vm_inv s' root fs' \<and> vm_frame s s'
     \<and> section_mapped root ka fl a n s s'"
  using assms
proof (induction n arbitrary: a s fs)
  case 0
  then show ?case
    by (intro exI [of _ s] exI [of _ fs])
      (simp add: kloop_unfold section_round_def page_at_def section_mapped_def)
next
  case (Suc n)
  let ?p = "a - virtual_base ka + physical_base ka"
  have "3 \<le> length fs" using Suc.prems(5) by simp
  then obtain t used fs' where t: "vmm_map_page root a ?p fl s = Ret () t" "fs = used @ fs'" "length used \<le> 3"
    "vm_inv t root fs'" "vm_frame s t" "mapped_only root a (Some (?p OR fl)) s t"
    using vmm_map_page_ok [OF Suc.prems(1,2) Suc.prems(6), where v = a and p = ?p] by blast
  obtain m fl' c where e: "t = s\<lparr>mem := m, free_list := fl', pmm_free_page_count := c\<rparr>"
    using t(5) unfolding vm_frame_def by blast
  have a1: "unat (a + PAGE_SIZE) = unat a + 4096" "higher_half (a + PAGE_SIZE)" "aligned 12 (a + PAGE_SIZE)"
    using page_at_facts [OF Suc.prems(7,8), of 1] Suc.prems(9) by (simp_all add: page_at_def PAGE_SIZE_def)
  have stop: "page_at a (Suc n) = page_at (a + PAGE_SIZE) n" by (rule page_at_Suc)
  have "\<exists>s' fs'. kloop (section_round (page_at (a + PAGE_SIZE) n) fl) (a + PAGE_SIZE) t = Ret () s' \<and> vm_inv s' root fs'
      \<and> vm_frame t s' \<and> section_mapped root ka fl (a + PAGE_SIZE) n t s'"
    by (rule Suc.IH [OF t(4)]) (use Suc.prems t(2,3) a1 in \<open>simp_all add: e\<close>)
  then obtain u fs'' where u: "kloop (section_round (page_at a (Suc n)) fl) (a + PAGE_SIZE) t = Ret () u" "vm_inv u root fs''"
    "vm_frame t u" "section_mapped root ka fl (a + PAGE_SIZE) n t u" unfolding stop by blast
  have lt: "a < page_at a (Suc n)"
    using page_at_facts(1) [OF Suc.prems(7,8,9)] by (simp add: word_less_nat_alt)
  have round: "section_round (page_at a (Suc n)) fl a s = Ret (Inl (a + PAGE_SIZE)) t"
    using lt t(1) Suc.prems(3,4) by (simp add: section_round_def kbind_cases kseq_cases)
  have loop: "kloop (section_round (page_at a (Suc n)) fl) a s = Ret () u"
    using kloop_step(1) [of "section_round (page_at a (Suc n)) fl", OF round] u(1) by simp
  have "\<not> same_page (page_at a (Suc k)) a" if k: "k < n" for k
  proof
    assume sp: "same_page (page_at a (Suc k)) a"
    have b: "unat a + 4096 * Suc k < 2 ^ 64" using Suc.prems(9) k by (simp add: algebra_simps)
    note P = page_at_facts [OF Suc.prems(7,8) b]
    have "page_at a (Suc k) = a" by (rule same_page_eq [OF sp P(3) Suc.prems(8) P(2) Suc.prems(7)])
    then show False using P(1) by simp
  qed
  then have "section_mapped root ka fl a (Suc n) s u"
    by (intro section_mapped_Suc [OF t(6) u(4)]) (simp_all add: e)
  then show ?case using loop u(2) vm_frame_trans [OF t(5) u(3)] by blast
qed

text \<open>
  A section of the kernel is mapped completely and exactly. If the bootloader gave the
  kernel's addresses and there are enough free pages for the tables, the loop of
  \<open>vmm_init\<close> over a section of \<open>n\<close> pages in the higher half ends with every page mapped
  to its physical page with the flags given, every other translation unchanged, and the
  page-table invariant intact.
\<close>

theorem map_section_maps:
  fixes s :: "'a boot_scheme"
  assumes "vm_inv s root fs" "\<not> locks s page_table_lock" "kernel_page_map s = root"
    "kernel_addr_response s = Some ka" "3 * n \<le> length fs"
    "higher_half a" "aligned 12 a" "unat a + 4096 * n < 2 ^ 64"
  shows "\<exists>s' fs'. map_section a (a + of_nat (4096 * n)) (PTE_BIT_PRESENT OR fl) s = Ret () s'
     \<and> vm_inv s' root fs' \<and> vm_frame s s'
     \<and> (\<forall>k < n. translate (mem s') (hhdmoffset s) root (a + of_nat (4096 * k))
          = Some ((a + of_nat (4096 * k) - virtual_base ka + physical_base ka) OR (PTE_BIT_PRESENT OR fl)))
     \<and> (\<forall>w. (\<forall>k < n. \<not> same_page (a + of_nat (4096 * k)) w) \<longrightarrow>
          translate (mem s') (hhdmoffset s) root w = translate (mem s) (hhdmoffset s) root w)"
proof -
  have "present (p OR (PTE_BIT_PRESENT OR fl))" for p
  proof -
    have "(p OR (PTE_BIT_PRESENT OR fl)) AND 1 = 1" by (rule bit_eqI) (auto simp: bit_simps PTE_BIT_PRESENT_def bit_1_iff)
    then show ?thesis by (simp add: present_def PTE_BIT_PRESENT_def)
  qed
  from map_section_loop [OF assms(1-5) this assms(6-8)]
  have "\<exists>s' fs'. kloop (section_round (page_at a n) (PTE_BIT_PRESENT OR fl)) a s = Ret () s' \<and> vm_inv s' root fs' \<and> vm_frame s s'
     \<and> section_mapped root ka (PTE_BIT_PRESENT OR fl) a n s s'" .
  then show ?thesis
    unfolding section_mapped_def page_at_def map_section_def kfor_step_def section_round_def [abs_def] by blast
qed

text \<open>
  The entry point never returns. Whatever the bootloader, the devices and the assembly
  routines do, \<open>_start\<close> does not return to its caller: it halts, faults or runs forever.
\<close>

theorem start_never_returns: "start env s \<noteq> Ret () s'"
proof -
  have d: "death t = Diverge" for t :: "'a boot_scheme"
    unfolding death_def by (rule kloop_diverge [where P = "\<lambda>_ t'. t' = t"]) auto
  have "kseq f g t \<noteq> Ret () t'" if "\<And>u. g u \<noteq> Ret () t'" for f :: "('a boot_scheme, unit) kern" and g t t'
    using that by (cases "f t") (simp_all add: kseq_cases)
  note never = this
  have "start_tasks env t \<noteq> Ret () t'" for t t'
    unfolding start_tasks_def by (intro never) (simp add: d)
  then have "kseq (flanterm_fb_init env) (kseq (start_devices env) (kseq (start_memory env) (start_tasks env))) t \<noteq> Ret () t'"
    for t t' by (intro never)
  then show ?thesis
    by (auto simp: start_def kbind_cases d intro!: never split: option.splits)
qed

section \<open>A concrete start\<close>

definition ex_boot :: boot where
  "ex_boot = ahci.extend (ahci_boot\<lparr>mem := three_free, free_list := ex_h + 0x4000, pmm_free_page_count := 3\<rparr>)
     (boot.fields (Some \<lparr>virtual_base = 0xffffffff80000000, physical_base = 0x200000\<rparr>) (Some ex_h) (Some (Some ()))
        0 0 0 0 0 0 0 0)"

lemma ex_boot_simps [simp]:
  "mem ex_boot = three_free" "hhdmoffset ex_boot = ex_h" "kernel_page_map ex_boot = ex_root" "locks ex_boot = (\<lambda>_. False)"
  "kernel_addr_response ex_boot = Some \<lparr>virtual_base = 0xffffffff80000000, physical_base = 0x200000\<rparr>"
  "free_list ex_boot = ex_h + 0x4000" "pmm_free_page_count ex_boot = 3"
  by (simp_all add: ex_boot_def ahci.defs boot.defs)

theorem map_section_maps_witness:
  "\<exists>s'. map_section 0xffffffff80003000 0xffffffff80004000 (PTE_BIT_PRESENT OR PTE_BIT_NX) ex_boot = Ret () s'
     \<and> translate (mem s') ex_h ex_root 0xffffffff80003000 = Some 0x4000000000203001"
proof -
  have "vm_inv ex_boot ex_root [0x4000, 0x3000, 0x2000]"
    by (rule vm_inv_cong [OF three_free_vm_inv]) (simp_all add: vm_boot_def boot_state_def pmm.defs vmm.defs)
  moreover have "higher_half 0xffffffff80003000" "aligned 12 0xffffffff80003000"
    by (simp_all add: higher_half_def aligned_def)
  ultimately show ?thesis
    using map_section_maps [of ex_boot ex_root "[0x4000, 0x3000, 0x2000]" _ 1 "0xffffffff80003000" PTE_BIT_NX]
    by (auto simp: PTE_BIT_PRESENT_def PTE_BIT_NX_def)
qed

end
