(* ===== verification/UacpiArray.thy ===== *)
theory UacpiArray
  imports Prelude
begin

text \<open>
  The growable arrays of \<^verbatim>\<open>src/include/uacpi/internal/dynamic_array.h\<close>: a fixed part inside the structure, followed by
  a part on the heap that grows by half of its capacity. The macro is instantiated with a name and a type; here the
  element type is a type variable and the fixed part a list whose length is the inline capacity. Sizes are natural
  numbers.
\<close>

section \<open>Operations\<close>

record 'a dyn_array =
  inline_storage :: "'a list"
  dynamic_storage :: "'a list option"
  dynamic_capacity :: nat
  size_including_inline :: nat

text \<open>A pointer to an element.\<close>

datatype da_slot = Inline nat | Dynamic nat

definition da_inline_capacity :: "'a dyn_array \<Rightarrow> nat" where
  "da_inline_capacity arr = length (inline_storage arr)"

definition da_capacity :: "'a dyn_array \<Rightarrow> nat" where
  "da_capacity arr = da_inline_capacity arr + dynamic_capacity arr"

definition da_at :: "'a dyn_array \<Rightarrow> nat \<Rightarrow> da_slot option" where
  "da_at arr idx =
     (if idx \<ge> size_including_inline arr then None
      else if idx < da_inline_capacity arr then Some (Inline idx)
      else Some (Dynamic (idx - da_inline_capacity arr)))"

text \<open>Access through a pointer; \<open>None\<close> when it does not point to an element of the storage.\<close>

fun da_read :: "'a dyn_array \<Rightarrow> da_slot \<Rightarrow> 'a option" where
  "da_read arr (Inline i) = (if i < length (inline_storage arr) then Some (inline_storage arr ! i) else None)"
| "da_read arr (Dynamic i) = (case dynamic_storage arr of None \<Rightarrow> None
     | Some d \<Rightarrow> if i < length d then Some (d ! i) else None)"

fun da_write :: "'a dyn_array \<Rightarrow> da_slot \<Rightarrow> 'a \<Rightarrow> 'a dyn_array option" where
  "da_write arr (Inline i) v = (if i < length (inline_storage arr)
     then Some (arr\<lparr>inline_storage := (inline_storage arr)[i := v]\<rparr>) else None)"
| "da_write arr (Dynamic i) v = (case dynamic_storage arr of None \<Rightarrow> None
     | Some d \<Rightarrow> if i < length d then Some (arr\<lparr>dynamic_storage := Some (d[i := v])\<rparr>) else None)"

text \<open>
  The capacity after growing. \<open>new_buf\<close> is the answer of the allocator for a request of that many elements: the
  contents of the new buffer, or nothing.
\<close>

definition da_new_capacity :: "'a dyn_array \<Rightarrow> nat" where
  "da_new_capacity arr =
     (if dynamic_capacity arr = 0 then da_inline_capacity arr
      else let half = dynamic_capacity arr div 2 in (if half = 0 then half + 1 else half) + dynamic_capacity arr)"

definition da_alloc :: "(nat \<Rightarrow> 'a list option) \<Rightarrow> 'a dyn_array \<Rightarrow> da_slot option \<times> 'a dyn_array" where
  "da_alloc new_buf arr = (let inline_cap = da_inline_capacity arr in
     if size_including_inline arr \<ge> inline_cap then
       (let dynamic_size = size_including_inline arr - inline_cap;
            ret = (\<lambda>arr. (Some (Dynamic dynamic_size), arr\<lparr>size_including_inline := size_including_inline arr + 1\<rparr>)) in
        if dynamic_size = dynamic_capacity arr then
          (case new_buf (da_new_capacity arr) of
             None \<Rightarrow> (None, arr)
           | Some buf \<Rightarrow> ret (arr\<lparr>dynamic_capacity := da_new_capacity arr,
               dynamic_storage := Some (case dynamic_storage arr of None \<Rightarrow> buf
                 | Some d \<Rightarrow> take dynamic_size d @ drop dynamic_size buf)\<rparr>))
        else ret arr)
     else (Some (Inline (size_including_inline arr)), arr\<lparr>size_including_inline := size_including_inline arr + 1\<rparr>))"

definition da_calloc :: "'a \<Rightarrow> (nat \<Rightarrow> 'a list option) \<Rightarrow> 'a dyn_array \<Rightarrow> da_slot option \<times> 'a dyn_array" where
  "da_calloc zero new_buf arr = (case da_alloc new_buf arr of
     (None, arr') \<Rightarrow> (None, arr')
   | (Some p, arr') \<Rightarrow> (case da_write arr' p zero of None \<Rightarrow> (None, arr') | Some arr'' \<Rightarrow> (Some p, arr'')))"

definition da_pop :: "'a dyn_array \<Rightarrow> 'a dyn_array" where
  "da_pop arr = (if size_including_inline arr = 0 then arr
     else arr\<lparr>size_including_inline := size_including_inline arr - 1\<rparr>)"

definition da_size :: "'a dyn_array \<Rightarrow> nat" where
  "da_size arr = size_including_inline arr"

text \<open>For an empty array the index wraps round and is out of range.\<close>

definition da_last :: "'a dyn_array \<Rightarrow> da_slot option" where
  "da_last arr = da_at arr (if size_including_inline arr = 0 then 2 ^ 64 - 1 else size_including_inline arr - 1)"

definition da_clear :: "'a dyn_array \<Rightarrow> 'a dyn_array" where
  "da_clear arr = arr\<lparr>size_including_inline := 0, dynamic_capacity := 0, dynamic_storage := None\<rparr>"

section \<open>The array as a list\<close>

definition da_inv :: "'a dyn_array \<Rightarrow> bool" where
  "da_inv arr \<longleftrightarrow> 0 < da_inline_capacity arr \<and> size_including_inline arr \<le> da_capacity arr
     \<and> (case dynamic_storage arr of None \<Rightarrow> dynamic_capacity arr = 0 | Some d \<Rightarrow> length d = dynamic_capacity arr)"

definition da_list :: "'a dyn_array \<Rightarrow> 'a list" where
  "da_list arr = take (size_including_inline arr)
     (inline_storage arr @ (case dynamic_storage arr of None \<Rightarrow> [] | Some d \<Rightarrow> d))"

text \<open>The index of the element that a pointer points to.\<close>

fun da_index :: "'a dyn_array \<Rightarrow> da_slot \<Rightarrow> nat" where
  "da_index arr (Inline i) = i"
| "da_index arr (Dynamic i) = da_inline_capacity arr + i"

text \<open>An allocator that returns buffers of the size asked for.\<close>

definition alloc_sized :: "(nat \<Rightarrow> 'a list option) \<Rightarrow> bool" where
  "alloc_sized new_buf \<longleftrightarrow> (\<forall>n buf. new_buf n = Some buf \<longrightarrow> length buf = n)"

lemmas da_defs = da_inv_def da_capacity_def da_inline_capacity_def

lemma da_inv_length: "da_inv arr \<Longrightarrow> length (da_list arr) = da_size arr"
  by (auto simp: da_list_def da_size_def da_defs split: option.splits)

lemma da_at_read:
  assumes "da_inv arr"
  shows "da_at arr idx = None \<longleftrightarrow> da_size arr \<le> idx"
    "da_at arr idx = Some p \<Longrightarrow> da_read arr p = Some (da_list arr ! idx) \<and> da_index arr p = idx \<and> idx < da_size arr"
  using assms by (auto simp: da_at_def da_size_def da_list_def da_defs nth_append split: if_splits option.splits)

lemma da_write_at:
  assumes "da_inv arr" "da_at arr idx = Some p"
  shows "\<exists>arr'. da_write arr p v = Some arr' \<and> da_inv arr' \<and> da_list arr' = (da_list arr)[idx := v] \<and> da_size arr' = da_size arr
     \<and> da_inline_capacity arr' = da_inline_capacity arr \<and> da_capacity arr' = da_capacity arr \<and> (\<forall>i. da_at arr' i = da_at arr i)"
proof (cases "idx < da_inline_capacity arr")
  case True
  let ?arr = "arr\<lparr>inline_storage := (inline_storage arr)[idx := v]\<rparr>"
  have "da_write arr p v = Some ?arr" "da_list ?arr = (da_list arr)[idx := v]" "da_inv ?arr"
    using assms True
    by (auto simp: da_at_def da_list_def da_defs take_update_swap list_update_append split: if_splits option.splits)
  moreover have "da_at ?arr i = da_at arr i" for i by (simp add: da_at_def da_inline_capacity_def)
  ultimately show ?thesis by (intro exI [of _ ?arr]) (simp add: da_size_def da_capacity_def da_inline_capacity_def)
next
  case False
  then obtain d where d: "dynamic_storage arr = Some d" "length d = dynamic_capacity arr" "p = Dynamic (idx - da_inline_capacity arr)"
    "idx < size_including_inline arr" "idx - da_inline_capacity arr < length d"
    using assms by (auto simp: da_at_def da_defs split: if_splits option.splits)
  let ?arr = "arr\<lparr>dynamic_storage := Some (d[idx - da_inline_capacity arr := v])\<rparr>"
  have "da_write arr p v = Some ?arr" "da_inv ?arr" using assms d by (auto simp: da_defs)
  moreover have "da_list ?arr = (da_list arr)[idx := v]"
    using False d by (simp add: da_list_def da_inline_capacity_def take_update_swap list_update_append)
  moreover have "da_at ?arr i = da_at arr i" for i by (simp add: da_at_def da_inline_capacity_def)
  ultimately show ?thesis by (intro exI [of _ ?arr]) (simp add: da_size_def da_capacity_def da_inline_capacity_def)
qed

lemma da_alloc_grows:
  assumes "da_inv arr" "alloc_sized new_buf"
  shows "case da_alloc new_buf arr of
     (None, arr') \<Rightarrow> arr' = arr \<and> da_size arr = da_capacity arr \<and> new_buf (da_new_capacity arr) = None
   | (Some p, arr') \<Rightarrow> da_inv arr' \<and> da_size arr' = da_size arr + 1 \<and> da_at arr' (da_size arr) = Some p
       \<and> take (da_size arr) (da_list arr') = da_list arr \<and> da_inline_capacity arr' = da_inline_capacity arr
       \<and> (da_size arr < da_capacity arr \<longrightarrow> da_capacity arr' = da_capacity arr)"
proof -
  let ?n = "size_including_inline arr" and ?c = "da_inline_capacity arr"
  consider (inl) "?n < ?c" | (room) "?c \<le> ?n" "?n - ?c \<noteq> dynamic_capacity arr" | (grow) "?c \<le> ?n" "?n - ?c = dynamic_capacity arr"
    by linarith
  then show ?thesis
  proof cases
    case inl
    then show ?thesis using assms(1)
      by (auto simp: da_alloc_def Let_def da_defs da_size_def da_at_def da_list_def split: option.splits)
  next
    case room
    then show ?thesis using assms(1)
      by (auto simp: da_alloc_def Let_def da_defs da_size_def da_at_def da_list_def split: option.splits)
  next
    case grow
    have new: "dynamic_capacity arr < da_new_capacity arr"
      using assms(1) by (auto simp: da_new_capacity_def da_inv_def Let_def)
    show ?thesis
    proof (cases "new_buf (da_new_capacity arr)")
      case None
      then show ?thesis using grow assms(1) by (auto simp: da_alloc_def Let_def da_size_def da_capacity_def)
    next
      case (Some buf)
      then have "length buf = da_new_capacity arr" using assms(2) by (simp add: alloc_sized_def)
      then show ?thesis using grow new Some assms(1)
        by (auto simp: da_alloc_def Let_def da_defs da_size_def da_at_def da_list_def split: option.splits)
    qed
  qed
qed

lemma da_push:
  assumes "da_inv arr" "alloc_sized new_buf" "da_alloc new_buf arr = (Some p, arr')"
  shows "\<exists>arr''. da_write arr' p v = Some arr'' \<and> da_inv arr'' \<and> da_list arr'' = da_list arr @ [v]
     \<and> da_size arr'' = da_size arr + 1 \<and> da_at arr'' (da_size arr) = Some p \<and> da_inline_capacity arr'' = da_inline_capacity arr"
proof -
  have g: "da_inv arr'" "da_size arr' = da_size arr + 1" "da_at arr' (da_size arr) = Some p"
      "take (da_size arr) (da_list arr') = da_list arr" "da_inline_capacity arr' = da_inline_capacity arr"
    using da_alloc_grows [OF assms(1,2)] assms(3) by auto
  obtain arr'' where w: "da_write arr' p v = Some arr''" "da_inv arr''" "da_list arr'' = (da_list arr')[da_size arr := v]"
      "da_size arr'' = da_size arr'" "da_inline_capacity arr'' = da_inline_capacity arr'" "\<forall>i. da_at arr'' i = da_at arr' i"
    using da_write_at [OF g(1,3)] by blast
  have "da_list arr'' = da_list arr @ [v]"
  proof (rule nth_equalityI)
    have "length (da_list arr') = Suc (da_size arr)" "length (da_list arr) = da_size arr"
      using da_inv_length [OF g(1)] g(2) da_inv_length [OF assms(1)] by simp_all
    then show "length (da_list arr'') = length (da_list arr @ [v])" by (simp add: w(3))
    fix i assume "i < length (da_list arr'')"
    then show "da_list arr'' ! i = (da_list arr @ [v]) ! i"
      using g(4) \<open>length (da_list arr') = Suc (da_size arr)\<close> \<open>length (da_list arr) = da_size arr\<close>
      by (auto simp: w(3) nth_append nth_list_update g(4) [symmetric] less_Suc_eq)
  qed
  then show ?thesis using w g by auto
qed

text \<open>
  C40: a growable array is a list. Allocating an element and writing it appends it, keeping all elements in
  place when the heap part is reallocated, or fails without a change when the array is full and the
  allocator has no memory; an index gives the element of the list at that position and no pointer beyond its end; removing the last
  element and clearing are the operations on lists. The bounds of the storage hold throughout.
\<close>

theorem dyn_array_refines_list:
  assumes "da_inv arr" "alloc_sized new_buf"
  shows "(case da_alloc new_buf arr of
       (None, arr') \<Rightarrow> arr' = arr \<and> length (da_list arr) = da_capacity arr
     | (Some p, arr') \<Rightarrow> \<exists>arr''. da_write arr' p v = Some arr'' \<and> da_inv arr'' \<and> da_list arr'' = da_list arr @ [v])
   \<and> (case da_at arr idx of None \<Rightarrow> length (da_list arr) \<le> idx | Some p \<Rightarrow> idx < length (da_list arr) \<and> da_read arr p = Some (da_list arr ! idx))
   \<and> da_inv (da_pop arr) \<and> da_list (da_pop arr) = butlast (da_list arr)
   \<and> da_inv (da_clear arr) \<and> da_list (da_clear arr) = []
   \<and> (length (da_list arr) < 2 ^ 64 \<longrightarrow>
        (case da_last arr of None \<Rightarrow> da_list arr = [] | Some p \<Rightarrow> da_list arr \<noteq> [] \<and> da_read arr p = Some (last (da_list arr))))"
proof -
  have len: "length (da_list arr) = da_size arr" using da_inv_length assms(1) .
  have 1: "case da_alloc new_buf arr of (None, arr') \<Rightarrow> arr' = arr \<and> length (da_list arr) = da_capacity arr
     | (Some p, arr') \<Rightarrow> \<exists>arr''. da_write arr' p v = Some arr'' \<and> da_inv arr'' \<and> da_list arr'' = da_list arr @ [v]"
  proof (cases "da_alloc new_buf arr")
    case (Pair q arr')
    then show ?thesis using da_alloc_grows [OF assms] da_push [OF assms, of _ arr' v] len
      by (cases q) (simp, fastforce)
  qed
  have 2: "case da_at arr idx of None \<Rightarrow> length (da_list arr) \<le> idx
      | Some p \<Rightarrow> idx < length (da_list arr) \<and> da_read arr p = Some (da_list arr ! idx)" for idx
    using da_at_read [OF assms(1)] len by (auto split: option.split)
  have 3: "da_inv (da_pop arr)" using assms(1) by (auto simp: da_pop_def da_defs split: option.splits)
  have "da_list (da_pop arr) = butlast (da_list arr)"
  proof -
    define xs where "xs = inline_storage arr @ (case dynamic_storage arr of None \<Rightarrow> [] | Some d \<Rightarrow> d)"
    have "size_including_inline arr \<le> length xs" using assms(1) by (auto simp: xs_def da_defs split: option.splits)
    then have "butlast (take (size_including_inline arr) xs) = take (size_including_inline arr - 1) xs"
      by (rule butlast_take)
    then show ?thesis by (simp add: da_pop_def da_list_def xs_def)
  qed
  note 3 = 3 this
  have 4: "da_inv (da_clear arr)" "da_list (da_clear arr) = []"
    using assms(1) by (auto simp: da_clear_def da_list_def da_defs)
  have 5: "case da_last arr of None \<Rightarrow> da_list arr = [] | Some p \<Rightarrow> da_list arr \<noteq> [] \<and> da_read arr p = Some (last (da_list arr))"
    if "length (da_list arr) < 2 ^ 64"
  proof (cases "da_list arr = []")
    case True
    then show ?thesis using 2 [of "2 ^ 64 - 1"] len by (auto simp: da_last_def da_size_def split: option.splits)
  next
    case False
    then have "0 < size_including_inline arr" using len by (cases "da_list arr") (auto simp: da_size_def)
    then show ?thesis using 2 [of "da_size arr - 1"] len False
      by (auto simp: da_last_def da_size_def last_conv_nth split: option.splits)
  qed
  show ?thesis using 1 2 3 4 5 by blast
qed

text \<open>An array of two inline elements that is full grows on the heap.\<close>

theorem dyn_array_refines_list_witness:
  "\<exists>arr'. da_write (snd (da_alloc (\<lambda>n. Some (replicate n 0))
        \<lparr>inline_storage = [1, 2 :: nat], dynamic_storage = None, dynamic_capacity = 0, size_including_inline = 2\<rparr>)) (Dynamic 0) 3 = Some arr'
     \<and> da_list arr' = [1, 2, 3]"
proof -
  let ?a = "\<lparr>inline_storage = [1, 2 :: nat], dynamic_storage = None, dynamic_capacity = 0, size_including_inline = 2\<rparr>"
  have "da_inv ?a" "da_list ?a = [1, 2]" by (simp_all add: da_defs da_list_def)
  moreover have "fst (da_alloc (\<lambda>n. Some (replicate n 0)) ?a) = Some (Dynamic 0)" by code_simp
  moreover have "alloc_sized (\<lambda>n. Some (replicate n (0 :: nat)))" by (simp add: alloc_sized_def)
  ultimately show ?thesis using dyn_array_refines_list [of ?a "\<lambda>n. Some (replicate n 0)" 3 0]
    by (auto split: prod.splits option.splits)
qed

end
