(* ===== verification/UacpiOsi.thy ===== *)
theory UacpiOsi
  imports UacpiKernel
begin

text \<open>
  Two self-contained parts of uACPI: reference counts (\<^verbatim>\<open>src/uacpi/shareable.c\<close>) and the
  interfaces reported to firmware through \<open>_OSI\<close> (\<^verbatim>\<open>src/uacpi/osi.c\<close>), with
  \<open>uacpi_strcmp\<close> of \<^verbatim>\<open>src/uacpi/stdlib.c\<close> and the mutex wrappers of
  \<^verbatim>\<open>src/include/uacpi/internal/mutex.h\<close>. The operations of the host that these parts call
  (creating and acquiring a mutex, allocating) are the parameter \<open>osi_host\<close>.
\<close>

section \<open>Reference counts\<close>

definition BUGGED_REFCOUNT :: u32 where "BUGGED_REFCOUNT = 0xFFFFFFFF"

record uacpi_shareable =
  reference_count :: u32

definition uacpi_shareable_init :: "uacpi_shareable \<Rightarrow> uacpi_shareable" where
  "uacpi_shareable_init sh = sh\<lparr>reference_count := 1\<rparr>"

definition uacpi_make_shareable_bugged :: "uacpi_shareable \<Rightarrow> uacpi_shareable" where
  "uacpi_make_shareable_bugged sh = sh\<lparr>reference_count := BUGGED_REFCOUNT\<rparr>"

definition uacpi_bugged_shareable :: "uacpi_shareable \<Rightarrow> bool \<times> uacpi_shareable" where
  "uacpi_bugged_shareable sh =
     (let sh' = (if reference_count sh = 0 then uacpi_make_shareable_bugged sh else sh)
      in (reference_count sh' = BUGGED_REFCOUNT, sh'))"

definition uacpi_shareable_ref :: "uacpi_shareable \<Rightarrow> u32 \<times> uacpi_shareable" where
  "uacpi_shareable_ref sh = (case uacpi_bugged_shareable sh of (bugged, sh') \<Rightarrow>
     if bugged then (BUGGED_REFCOUNT, sh')
     else let n = reference_count sh' + 1 in (n - 1, sh'\<lparr>reference_count := n\<rparr>))"

definition uacpi_shareable_unref :: "uacpi_shareable \<Rightarrow> u32 \<times> uacpi_shareable" where
  "uacpi_shareable_unref sh = (case uacpi_bugged_shareable sh of (bugged, sh') \<Rightarrow>
     if bugged then (BUGGED_REFCOUNT, sh')
     else let n = reference_count sh' - 1 in (n + 1, sh'\<lparr>reference_count := n\<rparr>))"

text \<open>The handle may be null; the flag of the result says whether \<open>do_free\<close> was called.\<close>

definition uacpi_shareable_unref_and_delete_if_last :: "uacpi_shareable option \<Rightarrow> bool \<times> uacpi_shareable option" where
  "uacpi_shareable_unref_and_delete_if_last handle = (case handle of
     None \<Rightarrow> (False, None)
   | Some sh \<Rightarrow> (case uacpi_bugged_shareable sh of (bugged, sh') \<Rightarrow>
       if bugged then (False, Some sh')
       else case uacpi_shareable_unref sh' of (old, sh'') \<Rightarrow> (old = 1, Some sh'')))"

definition uacpi_shareable_refcount :: "uacpi_shareable \<Rightarrow> u32" where
  "uacpi_shareable_refcount sh = reference_count sh"

text \<open>A sequence of operations on one object, with the number of times it was freed.\<close>

datatype share_op = Ref | Unref

fun share_run :: "share_op list \<Rightarrow> uacpi_shareable \<Rightarrow> nat \<times> uacpi_shareable" where
  "share_run [] sh = (0, sh)"
| "share_run (Ref # ops) sh = share_run ops (snd (uacpi_shareable_ref sh))"
| "share_run (Unref # ops) sh = (case uacpi_shareable_unref_and_delete_if_last (Some sh) of
     (freed, Some sh') \<Rightarrow> (case share_run ops sh' of (n, t) \<Rightarrow> (n + of_bool freed, t))
   | (freed, None) \<Rightarrow> (of_bool freed, sh))"

section \<open>Strings\<close>

fun uacpi_strcmp :: "string \<Rightarrow> string \<Rightarrow> int" where
  "uacpi_strcmp [] [] = 0"
| "uacpi_strcmp [] (d # ds) = - int (of_char d)"
| "uacpi_strcmp (c # xs) [] = int (of_char c)"
| "uacpi_strcmp (c # xs) (d # ds) =
     (if c = CHR 0x00 \<or> d = CHR 0x00 \<or> c \<noteq> d then int (of_char c) - int (of_char d) else uacpi_strcmp xs ds)"

definition nul_free :: "string \<Rightarrow> bool" where
  "nul_free str \<longleftrightarrow> CHR 0x00 \<notin> set str"

section \<open>Interfaces\<close>

record registered_interface =
  ri_name :: string
  ri_weight :: u8
  ri_kind :: u8
  ri_host_type :: u8
  ri_disabled :: bool
  ri_dynamic :: bool

definition UACPI_INTERFACE_KIND_VENDOR :: u8 where "UACPI_INTERFACE_KIND_VENDOR = 1"
definition UACPI_INTERFACE_KIND_FEATURE :: u8 where "UACPI_INTERFACE_KIND_FEATURE = 2"

definition WINDOWS :: "string \<Rightarrow> u8 \<Rightarrow> registered_interface" where
  "WINDOWS str weight = \<lparr>ri_name = ''Windows '' @ str, ri_weight = weight, ri_kind = UACPI_INTERFACE_KIND_VENDOR,
     ri_host_type = 0, ri_disabled = False, ri_dynamic = False\<rparr>"

definition HOST_FEATURE :: "string \<Rightarrow> u8 \<Rightarrow> registered_interface" where
  "HOST_FEATURE str type = \<lparr>ri_name = str, ri_weight = 0, ri_kind = UACPI_INTERFACE_KIND_FEATURE,
     ri_host_type = type, ri_disabled = True, ri_dynamic = False\<rparr>"

text \<open>The weights and host types are the enumerators of \<^verbatim>\<open>osi.h\<close>, counted from 1.\<close>

definition predefined_interfaces :: "registered_interface list" where
  "predefined_interfaces =
     [WINDOWS ''2000'' 1, WINDOWS ''2001'' 2, WINDOWS ''2001 SP1'' 3, WINDOWS ''2001.1'' 4, WINDOWS ''2001 SP2'' 5,
      WINDOWS ''2001.1 SP1'' 6, WINDOWS ''2006'' 7, WINDOWS ''2006.1'' 8, WINDOWS ''2006 SP1'' 9, WINDOWS ''2006 SP2'' 10,
      WINDOWS ''2009'' 11, WINDOWS ''2012'' 12, WINDOWS ''2013'' 13, WINDOWS ''2015'' 14, WINDOWS ''2016'' 15,
      WINDOWS ''2017'' 16, WINDOWS ''2017.2'' 17, WINDOWS ''2018'' 18, WINDOWS ''2018.2'' 19, WINDOWS ''2019'' 20,
      WINDOWS ''2020'' 21, WINDOWS ''2021'' 22, WINDOWS ''2022'' 23,
      HOST_FEATURE ''Module Device'' 1, HOST_FEATURE ''Processor Device'' 2, HOST_FEATURE ''3.0 Thermal Model'' 3,
      HOST_FEATURE ''3.0 _SCP Extensions'' 4, HOST_FEATURE ''Processor Aggregator Device'' 5,
      \<lparr>ri_name = ''Extended Address Space Descriptor'', ri_weight = 0, ri_kind = 0, ri_host_type = 0,
       ri_disabled = False, ri_dynamic = False\<rparr>]"

text \<open>
  The static state. The linked list is a list; an empty one is the null pointer. The array
  \<open>predefined_interfaces\<close> keeps its contents while it is not linked in the member
  \<open>predefined\<close>. \<open>mutex_held\<close> records whether the interface mutex is held.
\<close>

record osi =
  interface_mutex :: bool
  mutex_held :: bool
  predefined :: "registered_interface list"
  registered_interfaces :: "registered_interface list"
  interface_handler :: "(string \<Rightarrow> bool \<Rightarrow> bool) option"
  latest_queried_interface :: u32
  init_level :: nat

record osi_host =
  create_mutex_ok :: bool
  acquire_mutex :: uacpi_status
  alloc_interface_ok :: bool
  alloc_name_ok :: bool

definition UACPI_STATUS_INIT_LEVEL_MISMATCH :: uacpi_status where "UACPI_STATUS_INIT_LEVEL_MISMATCH = 12"
definition UACPI_INIT_LEVEL_SUBSYSTEM_INITIALIZED :: nat where "UACPI_INIT_LEVEL_SUBSYSTEM_INITIALIZED = 1"

definition uacpi_acquire_native_mutex :: "osi_host \<Rightarrow> osi \<Rightarrow> uacpi_status \<times> osi" where
  "uacpi_acquire_native_mutex host s =
     (if \<not> interface_mutex s then (UACPI_STATUS_INVALID_ARGUMENT, s)
      else (acquire_mutex host, s\<lparr>mutex_held := acquire_mutex host = UACPI_STATUS_OK\<rparr>))"

definition uacpi_release_native_mutex :: "osi \<Rightarrow> osi" where
  "uacpi_release_native_mutex s = (if \<not> interface_mutex s then s else s\<lparr>mutex_held := False\<rparr>)"

text \<open>
  The frame that the operations share: acquire the mutex or return the error, run, release.
  \<open>ensure_init\<close> is the check of the initialisation level before it.
\<close>

definition osi_locked :: "osi_host \<Rightarrow> (osi \<Rightarrow> uacpi_status \<times> osi) \<Rightarrow> osi \<Rightarrow> uacpi_status \<times> osi" where
  "osi_locked host f s = (case uacpi_acquire_native_mutex host s of (ret, s1) \<Rightarrow>
     if ret \<noteq> UACPI_STATUS_OK then (ret, s1)
     else case f s1 of (r, s2) \<Rightarrow> (r, uacpi_release_native_mutex s2))"

definition ensure_init :: "(osi \<Rightarrow> uacpi_status \<times> osi) \<Rightarrow> osi \<Rightarrow> uacpi_status \<times> osi" where
  "ensure_init f s =
     (if init_level s < UACPI_INIT_LEVEL_SUBSYSTEM_INITIALIZED then (UACPI_STATUS_INIT_LEVEL_MISMATCH, s) else f s)"

section \<open>Operations\<close>

text \<open>
  The array \<open>predefined_interfaces\<close> as it is in memory: its elements that are linked, then
  the others. When no mutex can be created the links stay what they were: none before the
  first initialisation, all of them after it.
\<close>

definition predefined_array :: "osi \<Rightarrow> registered_interface list" where
  "predefined_array s = (let linked = filter (\<lambda>i. \<not> ri_dynamic i) (registered_interfaces s)
     in linked @ drop (length linked) (predefined s))"

definition uacpi_initialize_interfaces :: "osi_host \<Rightarrow> osi \<Rightarrow> uacpi_status \<times> osi" where
  "uacpi_initialize_interfaces host s = (let arr = predefined_array s in
     if \<not> create_mutex_ok host
     then (UACPI_STATUS_OUT_OF_MEMORY, s\<lparr>predefined := arr, interface_mutex := False, mutex_held := False, registered_interfaces :=
             if length (filter (\<lambda>i. \<not> ri_dynamic i) (registered_interfaces s)) > 1 then arr else take 1 arr\<rparr>)
     else (UACPI_STATUS_OK, s\<lparr>predefined := arr, interface_mutex := True, mutex_held := False, registered_interfaces := arr\<rparr>))"

definition reset_interface :: "registered_interface \<Rightarrow> registered_interface" where
  "reset_interface i = i\<lparr>ri_disabled := ri_kind i = UACPI_INTERFACE_KIND_FEATURE\<rparr>"

text \<open>Static interfaces that were linked go back to their defaults; the dynamic ones are freed.\<close>

definition uacpi_deinitialize_interfaces :: "osi \<Rightarrow> osi" where
  "uacpi_deinitialize_interfaces s =
     (let linked = filter (\<lambda>i. \<not> ri_dynamic i) (registered_interfaces s) in
      s\<lparr>predefined := map reset_interface linked @ drop (length linked) (predefined s),
        interface_mutex := False, mutex_held := False, interface_handler := None,
        latest_queried_interface := 0, registered_interfaces := []\<rparr>)"

definition uacpi_latest_queried_vendor_interface :: "osi \<Rightarrow> u32" where
  "uacpi_latest_queried_vendor_interface s = latest_queried_interface s"

definition find_interface_unlocked :: "string \<Rightarrow> osi \<Rightarrow> registered_interface option" where
  "find_interface_unlocked name s = find (\<lambda>i. uacpi_strcmp (ri_name i) name = 0) (registered_interfaces s)"

definition find_host_interface_unlocked :: "u8 \<Rightarrow> osi \<Rightarrow> registered_interface option" where
  "find_host_interface_unlocked type s = find (\<lambda>i. ri_host_type i = type) (registered_interfaces s)"

text \<open>Assigning through the pointer that a search returned.\<close>

fun update_first :: "('a \<Rightarrow> bool) \<Rightarrow> ('a \<Rightarrow> 'a) \<Rightarrow> 'a list \<Rightarrow> 'a list" where
  "update_first P f [] = []"
| "update_first P f (x # xs) = (if P x then f x # xs else x # update_first P f xs)"

definition install_interface_body :: "osi_host \<Rightarrow> string \<Rightarrow> u8 \<Rightarrow> osi \<Rightarrow> uacpi_status \<times> osi" where
  "install_interface_body host name kind s = (case find_interface_unlocked name s of
     Some i \<Rightarrow> (UACPI_STATUS_ALREADY_EXISTS,
        if ri_disabled i
        then s\<lparr>registered_interfaces := update_first (\<lambda>i. uacpi_strcmp (ri_name i) name = 0)
                 (\<lambda>i. i\<lparr>ri_disabled := False\<rparr>) (registered_interfaces s)\<rparr>
        else s)
   | None \<Rightarrow>
       if \<not> alloc_interface_ok host then (UACPI_STATUS_OUT_OF_MEMORY, s)
       else if \<not> alloc_name_ok host then (UACPI_STATUS_OUT_OF_MEMORY, s)
       else (UACPI_STATUS_OK, s\<lparr>registered_interfaces := \<lparr>ri_name = name, ri_weight = 0, ri_kind = kind, ri_host_type = 0,
               ri_disabled = False, ri_dynamic = True\<rparr> # registered_interfaces s\<rparr>))"

definition uacpi_install_interface :: "osi_host \<Rightarrow> string \<Rightarrow> u8 \<Rightarrow> osi \<Rightarrow> uacpi_status \<times> osi" where
  "uacpi_install_interface host name kind = ensure_init (osi_locked host (install_interface_body host name kind))"

fun uninstall_walk :: "string \<Rightarrow> registered_interface list \<Rightarrow> uacpi_status \<times> registered_interface list" where
  "uninstall_walk name [] = (UACPI_STATUS_NOT_FOUND, [])"
| "uninstall_walk name (cur # rest) =
     (if uacpi_strcmp (ri_name cur) name \<noteq> 0
      then (case uninstall_walk name rest of (ret, rest') \<Rightarrow> (ret, cur # rest'))
      else if ri_dynamic cur then (UACPI_STATUS_OK, rest)
      else if \<not> ri_disabled cur then (UACPI_STATUS_OK, cur\<lparr>ri_disabled := True\<rparr> # rest)
      else (UACPI_STATUS_NOT_FOUND, cur # rest))"

definition uacpi_uninstall_interface :: "osi_host \<Rightarrow> string \<Rightarrow> osi \<Rightarrow> uacpi_status \<times> osi" where
  "uacpi_uninstall_interface host name = ensure_init (osi_locked host (\<lambda>s.
     case uninstall_walk name (registered_interfaces s) of (ret, l) \<Rightarrow> (ret, s\<lparr>registered_interfaces := l\<rparr>)))"

definition configure_host_interface :: "osi_host \<Rightarrow> u8 \<Rightarrow> bool \<Rightarrow> osi \<Rightarrow> uacpi_status \<times> osi" where
  "configure_host_interface host type enabled = ensure_init (osi_locked host (\<lambda>s.
     case find_host_interface_unlocked type s of
       None \<Rightarrow> (UACPI_STATUS_NOT_FOUND, s)
     | Some _ \<Rightarrow> (UACPI_STATUS_OK, s\<lparr>registered_interfaces := update_first (\<lambda>i. ri_host_type i = type)
          (\<lambda>i. i\<lparr>ri_disabled := \<not> enabled\<rparr>) (registered_interfaces s)\<rparr>)))"

definition uacpi_enable_host_interface :: "osi_host \<Rightarrow> u8 \<Rightarrow> osi \<Rightarrow> uacpi_status \<times> osi" where
  "uacpi_enable_host_interface host type = configure_host_interface host type True"

definition uacpi_disable_host_interface :: "osi_host \<Rightarrow> u8 \<Rightarrow> osi \<Rightarrow> uacpi_status \<times> osi" where
  "uacpi_disable_host_interface host type = configure_host_interface host type False"

definition uacpi_set_interface_query_handler ::
  "osi_host \<Rightarrow> (string \<Rightarrow> bool \<Rightarrow> bool) option \<Rightarrow> osi \<Rightarrow> uacpi_status \<times> osi" where
  "uacpi_set_interface_query_handler host handler = ensure_init (osi_locked host (\<lambda>s.
     case (interface_handler s, handler) of
       (Some _, Some _) \<Rightarrow> (UACPI_STATUS_ALREADY_EXISTS, s)
     | _ \<Rightarrow> (UACPI_STATUS_OK, s\<lparr>interface_handler := handler\<rparr>)))"

definition uacpi_bulk_configure_interfaces :: "osi_host \<Rightarrow> bool \<Rightarrow> u8 \<Rightarrow> osi \<Rightarrow> uacpi_status \<times> osi" where
  "uacpi_bulk_configure_interfaces host disable kind = ensure_init (osi_locked host (\<lambda>s.
     (UACPI_STATUS_OK, s\<lparr>registered_interfaces :=
        map (\<lambda>i. if kind AND ri_kind i \<noteq> 0 then i\<lparr>ri_disabled := disable\<rparr> else i) (registered_interfaces s)\<rparr>)))"

text \<open>The answer is an output parameter: it is not written when the mutex cannot be acquired.\<close>

definition handle_osi_body :: "string \<Rightarrow> osi \<Rightarrow> bool \<times> osi" where
  "handle_osi_body str s = (case find_interface_unlocked str s of
     None \<Rightarrow> (False, s)
   | Some i \<Rightarrow>
       let s1 = (if ucast (ri_weight i) > latest_queried_interface s
                 then s\<lparr>latest_queried_interface := ucast (ri_weight i)\<rparr> else s);
           supported = \<not> ri_disabled i
       in ((case interface_handler s of None \<Rightarrow> supported | Some h \<Rightarrow> h str supported), s1))"

definition uacpi_handle_osi :: "osi_host \<Rightarrow> string \<Rightarrow> osi \<Rightarrow> uacpi_status \<times> bool option \<times> osi" where
  "uacpi_handle_osi host str s = (case uacpi_acquire_native_mutex host s of (ret, s1) \<Rightarrow>
     if ret \<noteq> UACPI_STATUS_OK then (ret, None, s1)
     else case handle_osi_body str s1 of (b, s2) \<Rightarrow> (UACPI_STATUS_OK, Some b, uacpi_release_native_mutex s2))"

section \<open>Reference counts: the last release frees\<close>

text \<open>\<open>balanced n ops\<close>: from \<open>n\<close> references the count never reaches zero before the end.\<close>

fun balanced :: "nat \<Rightarrow> share_op list \<Rightarrow> bool" where
  "balanced n [] = (0 < n)"
| "balanced n (Ref # ops) = (0 < n \<and> balanced (n + 1) ops)"
| "balanced n (Unref # ops) = (0 < n \<and> balanced (n - 1) ops)"

definition refs_after :: "nat \<Rightarrow> share_op list \<Rightarrow> nat" where
  "refs_after n ops = n + length (filter (\<lambda>x. x = Ref) ops) - length (filter (\<lambda>x. x = Unref) ops)"

lemma share_step:
  assumes "0 < n" "n + 1 < 2 ^ 32 - 1"
  shows "snd (uacpi_shareable_ref \<lparr>reference_count = of_nat n\<rparr>) = \<lparr>reference_count = of_nat (n + 1)\<rparr>"
    "uacpi_shareable_unref_and_delete_if_last (Some \<lparr>reference_count = of_nat n\<rparr>)
       = (n = 1, Some \<lparr>reference_count = of_nat (n - 1)\<rparr>)"
proof -
  have u: "unat (of_nat n :: u32) = n" using assms by (simp add: unat_of_nat take_bit_nat_eq_self)
  have b: "(of_nat n :: u32) \<noteq> 0" "(of_nat n :: u32) \<noteq> BUGGED_REFCOUNT"
    using u assms by (auto simp: BUGGED_REFCOUNT_def word_unat_eq_iff)
  then have bug: "uacpi_bugged_shareable \<lparr>reference_count = of_nat n\<rparr> = (False, \<lparr>reference_count = of_nat n\<rparr>)"
    by (simp add: uacpi_bugged_shareable_def Let_def)
  show "snd (uacpi_shareable_ref \<lparr>reference_count = of_nat n\<rparr>) = \<lparr>reference_count = of_nat (n + 1)\<rparr>"
    by (simp add: uacpi_shareable_ref_def bug)
  have "(of_nat n :: u32) = 1 \<longleftrightarrow> n = 1" using u by (auto simp: word_unat_eq_iff)
  moreover have "(of_nat n :: u32) - 1 = of_nat (n - 1)" using assms(1) by (simp add: of_nat_diff)
  ultimately show "uacpi_shareable_unref_and_delete_if_last (Some \<lparr>reference_count = of_nat n\<rparr>)
       = (n = 1, Some \<lparr>reference_count = of_nat (n - 1)\<rparr>)"
    by (simp add: uacpi_shareable_unref_and_delete_if_last_def uacpi_shareable_unref_def bug Let_def)
qed

lemma balanced_pos: "balanced n ops \<Longrightarrow> 0 < n"
  by (cases "(n, ops)" rule: balanced.cases) auto

lemma share_run_balanced:
  assumes "balanced n ops" "n + length ops < 2 ^ 32 - 1"
  shows "share_run ops \<lparr>reference_count = of_nat n\<rparr> = (0, \<lparr>reference_count = of_nat (refs_after n ops)\<rparr>)
     \<and> 0 < refs_after n ops \<and> refs_after n ops \<le> n + length ops"
  using assms
proof (induction n ops rule: balanced.induct)
  case (2 n ops)
  have r: "refs_after n (Ref # ops) = refs_after (n + 1) ops" by (simp add: refs_after_def)
  have "n + 1 < 2 ^ 32 - 1" using 2(3) by simp
  then show ?case using 2 share_step(1) [of n] by (simp add: r)
next
  case (3 n ops)
  have n: "0 < n" "n + 1 < 2 ^ 32 - 1" using 3(2,3) by simp_all
  then have r: "refs_after n (Unref # ops) = refs_after (n - 1) ops" by (simp add: refs_after_def)
  have p: "0 < n - 1" using 3(2) balanced_pos [of "n - 1" ops] by simp
  have bal: "balanced (n - 1) ops" and len: "n - 1 + length ops < 2 ^ 32 - 1" using 3(2,3) by simp_all
  have ih: "share_run ops \<lparr>reference_count = of_nat (n - 1)\<rparr> = (0, \<lparr>reference_count = of_nat (refs_after (n - 1) ops)\<rparr>)"
    and b: "0 < refs_after (n - 1) ops" "refs_after (n - 1) ops \<le> n - 1 + length ops"
    using 3(1) [OF bal len] by simp_all
  show ?case using p b ih share_step(2) [OF n] by (simp add: r)
qed (simp add: refs_after_def)

text \<open>
  An object is freed exactly once, by its last release. Start from the one reference
  of \<open>uacpi_shareable_init\<close>, take and release references in any order without dropping to
  zero: nothing is freed, and the count is the number of references left. Releasing these
  frees the object exactly once, and releasing or taking one more reports the broken count
  and frees nothing.
\<close>

theorem shareable_freed_once:
  assumes "balanced 1 ops" "length ops + 2 < 2 ^ 32 - 1"
  shows "share_run ops (uacpi_shareable_init sh) = (0, \<lparr>reference_count = of_nat (refs_after 1 ops)\<rparr>)
     \<and> fst (share_run (ops @ replicate (refs_after 1 ops) Unref) (uacpi_shareable_init sh)) = 1
     \<and> fst (share_run (ops @ replicate (refs_after 1 ops) Unref @ extra) (uacpi_shareable_init sh)) = 1"
proof -
  have init: "uacpi_shareable_init sh = \<lparr>reference_count = of_nat 1\<rparr>" by (simp add: uacpi_shareable_init_def)
  note R = share_run_balanced [OF assms(1)]
  have run: "share_run ops (uacpi_shareable_init sh) = (0, \<lparr>reference_count = of_nat (refs_after 1 ops)\<rparr>)"
    and pos: "0 < refs_after 1 ops" "refs_after 1 ops \<le> 1 + length ops"
    using R assms(2) by (auto simp: init)
  have app: "share_run (xs @ ys) t = (case share_run xs t of (k, t') \<Rightarrow> case share_run ys t' of (l, t'') \<Rightarrow> (k + l, t''))" for xs ys t
    by (induction xs t rule: share_run.induct) (auto split: prod.splits option.splits
        simp: uacpi_shareable_unref_and_delete_if_last_def)
  have bug: "uacpi_bugged_shareable \<lparr>reference_count = 0\<rparr> = (True, \<lparr>reference_count = BUGGED_REFCOUNT\<rparr>)"
    "uacpi_bugged_shareable \<lparr>reference_count = BUGGED_REFCOUNT\<rparr> = (True, \<lparr>reference_count = BUGGED_REFCOUNT\<rparr>)"
    by (simp_all add: uacpi_bugged_shareable_def uacpi_make_shareable_bugged_def BUGGED_REFCOUNT_def)
  have dead: "fst (share_run xs \<lparr>reference_count = BUGGED_REFCOUNT\<rparr>) = 0" for xs
    by (induction xs rule: list.induct, simp, rename_tac x xs, case_tac x)
      (auto simp: uacpi_shareable_ref_def uacpi_shareable_unref_and_delete_if_last_def bug split: prod.splits)
  then have dead0: "fst (share_run xs \<lparr>reference_count = 0\<rparr>) = 0" for xs
    by (cases xs rule: list.exhaust, simp, rename_tac y ys, case_tac y)
      (auto simp: uacpi_shareable_ref_def uacpi_shareable_unref_and_delete_if_last_def bug split: prod.splits)
  have drop: "share_run (replicate n Unref) \<lparr>reference_count = of_nat n\<rparr> = (1, \<lparr>reference_count = 0\<rparr>)"
    if "0 < n" "n + 1 < 2 ^ 32 - 1" for n
    using that
  proof (induction n)
    case (Suc n)
    then show ?case using share_step(2) [of "Suc n"] by (cases n) auto
  qed simp
  have "refs_after 1 ops + 1 < 2 ^ 32 - 1" using pos(2) assms(2) by simp
  note D = drop [OF pos(1) this]
  show ?thesis
    using run D dead0 [of extra] by (auto simp: app split: prod.splits)
qed

theorem shareable_freed_once_witness:
  "fst (share_run [Ref, Unref, Ref, Unref, Unref, Unref] (uacpi_shareable_init \<lparr>reference_count = 7\<rparr>)) = 1"
proof -
  have "balanced 1 [Ref, Unref, Ref, Unref]" "refs_after 1 [Ref, Unref, Ref, Unref] = 1"
    by (simp_all add: refs_after_def)
  then show ?thesis
    using shareable_freed_once [of "[Ref, Unref, Ref, Unref]" "\<lparr>reference_count = 7\<rparr>" "[Unref]"] by simp
qed

section \<open>Names\<close>

lemma of_char_0: "of_char c = (0 :: nat) \<longleftrightarrow> c = CHR 0x00"
proof
  assume "of_char c = (0 :: nat)"
  then have "char_of (of_char c :: nat) = (char_of (0 :: nat) :: char)" by simp
  moreover have "char_of (0 :: nat) = CHR 0x00" by code_simp
  ultimately show "c = CHR 0x00" by simp
qed simp

lemma strcmp_eq:
  "nul_free a \<Longrightarrow> nul_free b \<Longrightarrow> uacpi_strcmp a b = 0 \<longleftrightarrow> a = b"
proof (induction a b rule: uacpi_strcmp.induct)
  case (4 c xs d ds)
  have "int (of_char c) - int (of_char d) = 0 \<longleftrightarrow> c = d" by (simp add: of_char_eq_iff)
  then show ?case using 4 by (auto simp: nul_free_def)
qed (auto simp: nul_free_def of_char_0)

text \<open>
  The invariant: the mutex is free; every name is a C string and occurs once; the static
  interfaces are the predefined array, linked from its start and in its order.
\<close>

definition static_names :: "registered_interface list \<Rightarrow> string list" where
  "static_names l = map ri_name (filter (\<lambda>i. \<not> ri_dynamic i) l)"

definition osi_lists :: "osi \<Rightarrow> bool" where
  "osi_lists s \<longleftrightarrow>
     list_all nul_free (map ri_name (registered_interfaces s)) \<and> distinct (map ri_name (registered_interfaces s))
     \<and> map ri_name (predefined s) = map ri_name predefined_interfaces \<and> list_all (\<lambda>i. \<not> ri_dynamic i) (predefined s)
     \<and> (\<exists>n. static_names (registered_interfaces s) = take n (map ri_name predefined_interfaces))
     \<and> (interface_mutex s \<longrightarrow> static_names (registered_interfaces s) = map ri_name predefined_interfaces)"

definition osi_inv :: "osi \<Rightarrow> bool" where
  "osi_inv s \<longleftrightarrow> \<not> mutex_held s \<and> osi_lists s"

lemma predefined_names:
  "distinct (map ri_name predefined_interfaces)" "list_all nul_free (map ri_name predefined_interfaces)"
  by code_simp+

lemma update_first_names:
  "(\<And>x. ri_name (f x) = ri_name x) \<Longrightarrow> map ri_name (update_first P f l) = map ri_name l"
  "(\<And>x. ri_name (f x) = ri_name x) \<Longrightarrow> (\<And>x. ri_dynamic (f x) = ri_dynamic x) \<Longrightarrow>
     static_names (update_first P f l) = static_names l"
  by (induction l) (auto simp: static_names_def)

text \<open>An operation between acquire and release may change the list; it must keep \<open>osi_lists\<close> and the mutex.\<close>

definition keeps_osi :: "(osi \<Rightarrow> uacpi_status \<times> osi) \<Rightarrow> bool" where
  "keeps_osi f \<longleftrightarrow> (\<forall>s. osi_lists s \<longrightarrow> osi_lists (snd (f s)) \<and> interface_mutex (snd (f s)) = interface_mutex s)"

lemma osi_lists_held [simp]: "osi_lists (s\<lparr>mutex_held := b\<rparr>) = osi_lists s"
  by (simp add: osi_lists_def)

lemma release_inv:
  "osi_lists s \<Longrightarrow> interface_mutex s \<Longrightarrow> osi_inv (uacpi_release_native_mutex s)"
  by (simp add: osi_inv_def uacpi_release_native_mutex_def)

lemma osi_locked_inv:
  assumes "keeps_osi f" "osi_inv s"
  shows "osi_inv (snd (ensure_init (osi_locked host f) s))"
proof -
  obtain r s1 where f: "f (s\<lparr>mutex_held := True\<rparr>) = (r, s1)" by (cases "f (s\<lparr>mutex_held := True\<rparr>)")
  have "osi_lists s1 \<and> interface_mutex s1 = interface_mutex s"
    using assms f unfolding keeps_osi_def osi_inv_def by (metis osi_lists_held snd_conv osi.select_convs(1)
      osi.simps(11) osi.surjective osi.update_convs(2))
  then show ?thesis
    using assms(2) f release_inv [of s1]
    by (auto simp: ensure_init_def osi_locked_def uacpi_acquire_native_mutex_def osi_inv_def
      UACPI_STATUS_OK_def UACPI_STATUS_INVALID_ARGUMENT_def)
qed

lemma osi_lists_names:
  assumes "osi_lists s" "map ri_name l = map ri_name (registered_interfaces s)"
    "static_names l = static_names (registered_interfaces s)"
  shows "osi_lists (s\<lparr>registered_interfaces := l\<rparr>)"
  using assms by (simp add: osi_lists_def)

lemma keeps_install: "nul_free name \<Longrightarrow> keeps_osi (install_interface_body host name kind)"
proof (unfold keeps_osi_def, intro allI impI)
  fix s assume n: "nul_free name" and s: "osi_lists s"
  show "osi_lists (snd (install_interface_body host name kind s))
      \<and> interface_mutex (snd (install_interface_body host name kind s)) = interface_mutex s"
  proof (cases "find_interface_unlocked name s")
    case None
    have "ri_name i \<noteq> name" if "i \<in> set (registered_interfaces s)" for i
    proof -
      have "nul_free (ri_name i)" using s that by (auto simp: osi_lists_def list_all_iff)
      moreover have "uacpi_strcmp (ri_name i) name \<noteq> 0"
        using None that by (auto simp: find_interface_unlocked_def find_None_iff)
      ultimately show ?thesis using strcmp_eq n by blast
    qed
    then have "name \<notin> ri_name ` set (registered_interfaces s)" by auto
    then show ?thesis using s n None by (auto simp: install_interface_body_def osi_lists_def static_names_def)
  next
    case (Some i)
    then show ?thesis using s by (auto simp: install_interface_body_def osi_lists_names update_first_names)
  qed
qed

text \<open>Uninstalling removes a dynamic interface or disables a static one.\<close>

lemma uninstall_walk_cases:
  assumes "uninstall_walk name l = (ret, l')"
  shows "(\<exists>xs i ys. l = xs @ i # ys \<and> ri_dynamic i \<and> l' = xs @ ys)
     \<or> (map ri_name l' = map ri_name l \<and> static_names l' = static_names l)"
  using assms
proof (induction l arbitrary: ret l')
  case (Cons cur rest)
  show ?case
  proof (cases "uacpi_strcmp (ri_name cur) name = 0")
    case False
    then obtain rest' where w: "uninstall_walk name rest = (ret, rest')" "l' = cur # rest'"
      using Cons(2) by (auto split: prod.splits)
    show ?thesis
    proof (cases "\<exists>xs i ys. rest = xs @ i # ys \<and> ri_dynamic i \<and> rest' = xs @ ys")
      case True
      then obtain xs i ys where "rest = xs @ i # ys" "ri_dynamic i" "rest' = xs @ ys" by blast
      then have "cur # rest = (cur # xs) @ i # ys \<and> ri_dynamic i \<and> l' = (cur # xs) @ ys" using w by simp
      then show ?thesis by blast
    qed (use Cons(1) [OF w(1)] w(2) in \<open>auto simp: static_names_def\<close>)
  next
    case True
    show ?thesis
    proof (cases "ri_dynamic cur")
      case dyn: True
      then have "cur # rest = [] @ cur # rest \<and> ri_dynamic cur \<and> l' = [] @ rest" using True Cons(2) by simp
      then show ?thesis by blast
    qed (use True Cons(2) in \<open>auto simp: static_names_def split: if_splits\<close>)
  qed
qed simp

lemma keeps_uninstall:
  "keeps_osi (\<lambda>s. case uninstall_walk name (registered_interfaces s) of (ret, l) \<Rightarrow> (ret, s\<lparr>registered_interfaces := l\<rparr>))"
proof (unfold keeps_osi_def, intro allI impI)
  fix s assume s: "osi_lists s"
  obtain ret l where w: "uninstall_walk name (registered_interfaces s) = (ret, l)" by fastforce
  have st: "static_names l = static_names (registered_interfaces s)"
    and d: "distinct (map ri_name l)" and nf: "list_all nul_free (map ri_name l)"
    using uninstall_walk_cases [OF w] s by (auto simp: osi_lists_def static_names_def)
  have "osi_lists (s\<lparr>registered_interfaces := l\<rparr>)"
    using s d nf by (simp add: osi_lists_def st)
  then show "osi_lists (snd (case uninstall_walk name (registered_interfaces s) of (ret, l) \<Rightarrow> (ret, s\<lparr>registered_interfaces := l\<rparr>)))
      \<and> interface_mutex (snd (case uninstall_walk name (registered_interfaces s) of (ret, l) \<Rightarrow> (ret, s\<lparr>registered_interfaces := l\<rparr>)))
          = interface_mutex s" by (simp add: w)
qed

lemma keeps_host:
  "keeps_osi (\<lambda>s. case find_host_interface_unlocked type s of
       None \<Rightarrow> (UACPI_STATUS_NOT_FOUND, s)
     | Some _ \<Rightarrow> (UACPI_STATUS_OK, s\<lparr>registered_interfaces := update_first (\<lambda>i. ri_host_type i = type)
          (\<lambda>i. i\<lparr>ri_disabled := \<not> enabled\<rparr>) (registered_interfaces s)\<rparr>))"
  by (auto simp: keeps_osi_def osi_lists_names update_first_names split: option.splits)

lemma keeps_handler:
  "keeps_osi (\<lambda>s. case (interface_handler s, handler) of
       (Some _, Some _) \<Rightarrow> (UACPI_STATUS_ALREADY_EXISTS, s)
     | _ \<Rightarrow> (UACPI_STATUS_OK, s\<lparr>interface_handler := handler\<rparr>))"
  by (auto simp: keeps_osi_def osi_lists_def split: option.splits)

lemma keeps_bulk:
  "keeps_osi (\<lambda>s. (UACPI_STATUS_OK, s\<lparr>registered_interfaces :=
        map (\<lambda>i. if kind AND ri_kind i \<noteq> 0 then i\<lparr>ri_disabled := disable\<rparr> else i) (registered_interfaces s)\<rparr>))"
proof -
  have "map ri_name (map (\<lambda>i. if kind AND ri_kind i \<noteq> 0 then i\<lparr>ri_disabled := disable\<rparr> else i) l) = map ri_name l"
    "static_names (map (\<lambda>i. if kind AND ri_kind i \<noteq> 0 then i\<lparr>ri_disabled := disable\<rparr> else i) l) = static_names l" for l
    by (induction l) (auto simp: static_names_def)
  then show ?thesis by (simp add: keeps_osi_def osi_lists_names)
qed

lemmas keeps_all = keeps_install keeps_uninstall keeps_host keeps_handler keeps_bulk

lemma predefined_array_ok:
  assumes "osi_lists s"
  shows "map ri_name (predefined_array s) = map ri_name predefined_interfaces"
    "list_all (\<lambda>i. \<not> ri_dynamic i) (predefined_array s)"
    "map ri_name (map reset_interface xs) = map ri_name xs"
proof -
  obtain n where n: "map ri_name (filter (\<lambda>i. \<not> ri_dynamic i) (registered_interfaces s)) = take n (map ri_name predefined_interfaces)"
    using assms by (auto simp: osi_lists_def static_names_def)
  then have len: "length (filter (\<lambda>i. \<not> ri_dynamic i) (registered_interfaces s)) = min n (length predefined_interfaces)"
    by (metis length_map length_take min.commute)
  have p: "map ri_name (predefined s) = map ri_name predefined_interfaces" using assms by (simp add: osi_lists_def)
  have "map ri_name (drop m (predefined s)) = drop m (map ri_name predefined_interfaces)" for m
    using p by (metis drop_map)
  then show "map ri_name (predefined_array s) = map ri_name predefined_interfaces"
    using n len by (simp add: predefined_array_def Let_def min_def)
  show "list_all (\<lambda>i. \<not> ri_dynamic i) (predefined_array s)"
    using assms by (auto simp: predefined_array_def Let_def osi_lists_def list_all_iff dest: in_set_dropD)
  show "map ri_name (map reset_interface xs) = map ri_name xs"
    by (simp add: reset_interface_def)
qed

lemma static_names_all: "list_all (\<lambda>i. \<not> ri_dynamic i) l \<Longrightarrow> static_names l = map ri_name l"
  by (induction l) (auto simp: static_names_def)

lemma list_all_take: "list_all P l \<Longrightarrow> list_all P (take n l)"
  by (auto simp: list_all_iff dest: in_set_takeD)

lemma initialize_inv: "osi_inv s \<Longrightarrow> osi_inv (snd (uacpi_initialize_interfaces host s))"
proof -
  assume "osi_inv s"
  then have a: "map ri_name (predefined_array s) = map ri_name predefined_interfaces"
    "list_all (\<lambda>i. \<not> ri_dynamic i) (predefined_array s)"
    by (simp_all add: osi_inv_def predefined_array_ok)
  have t: "map ri_name (take m (predefined_array s)) = take m (map ri_name predefined_interfaces)"
    "static_names (take m (predefined_array s)) = take m (map ri_name predefined_interfaces)" for m
    using a static_names_all list_all_take by (metis take_map)+
  have d: "distinct (take m (map ri_name predefined_interfaces))"
    "list_all nul_free (take m (map ri_name predefined_interfaces))" for m
    using predefined_names list_all_take distinct_take by blast+
  have whole: "\<exists>n. map ri_name predefined_interfaces = take n (map ri_name predefined_interfaces)"
    by (metis take_all_iff order_refl)
  have "osi_lists (s\<lparr>predefined := predefined_array s, interface_mutex := b, mutex_held := False,
          registered_interfaces := predefined_array s\<rparr>)" for b
    using a predefined_names whole by (simp add: osi_lists_def static_names_all)
  moreover define l where "l = take 1 (predefined_array s)"
  have "list_all nul_free (map ri_name l)" "distinct (map ri_name l)"
    "\<exists>n. static_names l = take n (map ri_name predefined_interfaces)"
    using t d unfolding l_def by metis+
  then have "osi_lists (s\<lparr>predefined := predefined_array s, interface_mutex := False, mutex_held := False,
          registered_interfaces := l\<rparr>)"
    using a by (simp add: osi_lists_def)
  ultimately show ?thesis by (simp add: osi_inv_def uacpi_initialize_interfaces_def Let_def l_def)
qed

lemma deinitialize_inv: "osi_inv s \<Longrightarrow> osi_inv (uacpi_deinitialize_interfaces s)"
proof -
  assume "osi_inv s"
  then have a: "map ri_name (predefined_array s) = map ri_name predefined_interfaces"
    "list_all (\<lambda>i. \<not> ri_dynamic i) (predefined_array s)"
    by (simp_all add: osi_inv_def predefined_array_ok)
  define linked where "linked = filter (\<lambda>i. \<not> ri_dynamic i) (registered_interfaces s)"
  define arr where "arr = map reset_interface linked @ drop (length linked) (predefined s)"
  have pa: "predefined_array s = linked @ drop (length linked) (predefined s)"
    by (simp add: predefined_array_def linked_def Let_def)
  have names: "map ri_name arr = map ri_name predefined_interfaces"
    using a(1) by (simp add: arr_def pa reset_interface_def comp_def)
  have "list_all (\<lambda>i. \<not> ri_dynamic i) (map reset_interface linked)"
    using a(2) by (simp add: pa list_all_iff reset_interface_def)
  then have dyn: "list_all (\<lambda>i. \<not> ri_dynamic i) arr" using a(2) by (simp add: arr_def pa)
  have "uacpi_deinitialize_interfaces s = s\<lparr>predefined := arr, interface_mutex := False, mutex_held := False,
      interface_handler := None, latest_queried_interface := 0, registered_interfaces := []\<rparr>"
    by (simp add: uacpi_deinitialize_interfaces_def arr_def linked_def Let_def)
  then show ?thesis
    using names dyn by (simp add: osi_inv_def osi_lists_def static_names_def exI [of _ 0])
qed

lemma handle_osi_inv: "osi_inv s \<Longrightarrow> osi_inv (snd (snd (uacpi_handle_osi host name s)))"
proof -
  assume s: "osi_inv s"
  define s1 where "s1 = snd (uacpi_acquire_native_mutex host s)"
  have s1: "osi_lists s1" "interface_mutex s1 = interface_mutex s"
    using s by (simp_all add: s1_def uacpi_acquire_native_mutex_def osi_inv_def)
  have "osi_lists (snd (handle_osi_body name s1)) \<and> interface_mutex (snd (handle_osi_body name s1)) = interface_mutex s"
    using s1 by (auto simp: handle_osi_body_def osi_lists_def Let_def split: option.splits)
  then show ?thesis
    using s release_inv [of "snd (handle_osi_body name s1)"] unfolding s1_def
    by (auto simp: uacpi_handle_osi_def uacpi_acquire_native_mutex_def osi_inv_def
        UACPI_STATUS_OK_def UACPI_STATUS_INVALID_ARGUMENT_def split: prod.splits if_splits)
qed

section \<open>The life of the interface list\<close>

definition osi_start :: osi where
  "osi_start = \<lparr>interface_mutex = False, mutex_held = False, predefined = predefined_interfaces,
     registered_interfaces = [], interface_handler = None, latest_queried_interface = 0, init_level = 0\<rparr>"

text \<open>Any operation, with any arguments and any answers of the host; names are C strings.\<close>

inductive osi_step :: "osi \<Rightarrow> osi \<Rightarrow> bool" where
  step_level: "osi_step s (s\<lparr>init_level := n\<rparr>)"
| step_init: "osi_step s (snd (uacpi_initialize_interfaces host s))"
| step_deinit: "osi_step s (uacpi_deinitialize_interfaces s)"
| step_install: "nul_free name \<Longrightarrow> osi_step s (snd (uacpi_install_interface host name kind s))"
| step_uninstall: "osi_step s (snd (uacpi_uninstall_interface host name s))"
| step_enable: "osi_step s (snd (uacpi_enable_host_interface host type s))"
| step_disable: "osi_step s (snd (uacpi_disable_host_interface host type s))"
| step_handler: "osi_step s (snd (uacpi_set_interface_query_handler host handler s))"
| step_bulk: "osi_step s (snd (uacpi_bulk_configure_interfaces host disable kind s))"
| step_query: "osi_step s (snd (snd (uacpi_handle_osi host name s)))"

inductive osi_reachable :: "osi \<Rightarrow> bool" where
  reach_start: "osi_reachable osi_start"
| reach_step: "osi_reachable s \<Longrightarrow> osi_step s s' \<Longrightarrow> osi_reachable s'"

lemma osi_step_inv: "osi_step s s' \<Longrightarrow> osi_inv s \<Longrightarrow> osi_inv s'"
proof (induction rule: osi_step.induct)
  case (step_level s n)
  then show ?case by (simp add: osi_inv_def osi_lists_def)
next
  case (step_handler s host handler)
  then show ?case unfolding uacpi_set_interface_query_handler_def by (rule osi_locked_inv [OF keeps_handler])
next
  case (step_install name s host kind)
  then show ?case using osi_locked_inv [OF keeps_install] by (simp add: uacpi_install_interface_def)
qed (simp_all add: osi_locked_inv keeps_all initialize_inv deinitialize_inv handle_osi_inv
      uacpi_uninstall_interface_def uacpi_enable_host_interface_def uacpi_disable_host_interface_def
      configure_host_interface_def uacpi_bulk_configure_interfaces_def)

lemma osi_start_inv: "osi_inv osi_start"
proof -
  have "list_all (\<lambda>i. \<not> ri_dynamic i) predefined_interfaces" by code_simp
  then show ?thesis by (auto simp: osi_inv_def osi_lists_def osi_start_def static_names_def intro: exI [of _ 0])
qed

text \<open>
  C20: whatever the operations called on the interface list, in whatever order and whatever the
  host answers, the interface mutex is never left held, every name is a C string and occurs once,
  and the static interfaces are those of the predefined array in its order: all of them while the
  list is initialised, an initial part of them otherwise.
\<close>

theorem osi_reachable_inv:
  assumes "osi_reachable s"
  shows "\<not> mutex_held s \<and> distinct (map ri_name (registered_interfaces s))
     \<and> list_all nul_free (map ri_name (registered_interfaces s))
     \<and> prefix (static_names (registered_interfaces s)) (map ri_name predefined_interfaces)
     \<and> (interface_mutex s \<longrightarrow> static_names (registered_interfaces s) = map ri_name predefined_interfaces)"
proof -
  have "osi_inv s" using assms by induction (auto simp: osi_start_inv osi_step_inv)
  then show ?thesis by (auto simp: osi_inv_def osi_lists_def take_is_prefix)
qed

definition good_host :: osi_host where
  "good_host = \<lparr>create_mutex_ok = True, acquire_mutex = UACPI_STATUS_OK, alloc_interface_ok = True, alloc_name_ok = True\<rparr>"

theorem osi_reachable_inv_witness:
  "\<not> mutex_held (snd (uacpi_initialize_interfaces good_host osi_start))
     \<and> length (static_names (registered_interfaces (snd (uacpi_initialize_interfaces good_host osi_start)))) = 29"
proof -
  let ?s = "snd (uacpi_initialize_interfaces good_host osi_start)"
  have "osi_reachable ?s" by (rule reach_step [OF reach_start step_init])
  moreover have "interface_mutex ?s" "length predefined_interfaces = 29" by code_simp+
  ultimately show ?thesis using osi_reachable_inv [of ?s] by simp
qed

text \<open>Running a query or an operation with a mutex that can be acquired.\<close>

lemma acquired:
  assumes "interface_mutex s" "acquire_mutex host = UACPI_STATUS_OK" "1 \<le> init_level s"
  shows "ensure_init (osi_locked host f) s
     = (case f (s\<lparr>mutex_held := True\<rparr>) of (r, s2) \<Rightarrow> (r, uacpi_release_native_mutex s2))"
    "uacpi_handle_osi host name s
     = (case handle_osi_body name (s\<lparr>mutex_held := True\<rparr>) of (b, s2) \<Rightarrow>
          (UACPI_STATUS_OK, Some b, uacpi_release_native_mutex s2))"
  using assms by (auto simp: ensure_init_def osi_locked_def uacpi_acquire_native_mutex_def uacpi_handle_osi_def
      UACPI_INIT_LEVEL_SUBSYSTEM_INITIALIZED_def split: prod.splits)

text \<open>
  Installing, querying and uninstalling. When a new name is installed, the call succeeds, a
  query of the name finds it supported, and the answers for all other names are as before;
  installing the name once more is refused; uninstalling it succeeds and brings back exactly the
  state before, in which a query says unsupported and uninstalling finds nothing.
\<close>

theorem osi_install_roundtrip:
  assumes "osi_reachable s" "interface_mutex s" "1 \<le> init_level s" "interface_handler s = None"
    and "acquire_mutex host = UACPI_STATUS_OK" "alloc_interface_ok host" "alloc_name_ok host"
    and "nul_free name" "name \<notin> set (map ri_name (registered_interfaces s))"
  shows "\<exists>s'. uacpi_install_interface host name kind s = (UACPI_STATUS_OK, s')
     \<and> uacpi_handle_osi host name s' = (UACPI_STATUS_OK, Some True, s')
     \<and> (\<forall>other. nul_free other \<and> other \<noteq> name \<longrightarrow>
          fst (snd (uacpi_handle_osi host other s')) = fst (snd (uacpi_handle_osi host other s)))
     \<and> uacpi_install_interface host name kind s' = (UACPI_STATUS_ALREADY_EXISTS, s')
     \<and> uacpi_uninstall_interface host name s' = (UACPI_STATUS_OK, s)
     \<and> uacpi_handle_osi host name s = (UACPI_STATUS_OK, Some False, s)
     \<and> uacpi_uninstall_interface host name s = (UACPI_STATUS_NOT_FOUND, s)"
proof -
  have inv: "osi_inv s" using assms(1) by induction (auto simp: osi_start_inv osi_step_inv)
  then have h: "\<not> mutex_held s" by (simp add: osi_inv_def)
  then have rel: "uacpi_release_native_mutex (s\<lparr>mutex_held := True\<rparr>) = s" using assms(2)
    by (simp add: uacpi_release_native_mutex_def)
  define i where "i = \<lparr>ri_name = name, ri_weight = 0, ri_kind = kind, ri_host_type = 0, ri_disabled = False, ri_dynamic = True\<rparr>"
  define s' where "s' = s\<lparr>registered_interfaces := i # registered_interfaces s\<rparr>"
  have s': "interface_mutex s'" "1 \<le> init_level s'" "interface_handler s' = None" "latest_queried_interface s' = latest_queried_interface s"
    using assms by (simp_all add: s'_def)
  have rel': "uacpi_release_native_mutex (s'\<lparr>mutex_held := True\<rparr>) = s'" using assms(2) h
    by (simp add: uacpi_release_native_mutex_def s'_def)
  have self: "uacpi_strcmp name name = 0" using strcmp_eq assms(8) by blast
  have fresh: "uacpi_strcmp (ri_name j) name \<noteq> 0" if "j \<in> set (registered_interfaces s)" for j
    using strcmp_eq [of "ri_name j" name] that assms(8,9) inv by (auto simp: osi_inv_def osi_lists_def list_all_iff)
  then have none: "find_interface_unlocked name (s\<lparr>mutex_held := b\<rparr>) = None" for b
    by (simp add: find_interface_unlocked_def find_None_iff)
  have some: "find_interface_unlocked name (s'\<lparr>mutex_held := b\<rparr>) = Some i" for b
    by (simp add: find_interface_unlocked_def s'_def i_def self)
  note acq = acquired [OF assms(2,5,3)] and acq' = acquired [OF s'(1) assms(5) s'(2)]
  have walk: "uninstall_walk name l = (UACPI_STATUS_NOT_FOUND, l)"
    if "\<forall>j \<in> set l. uacpi_strcmp (ri_name j) name \<noteq> 0" for l
    using that by (induction l) auto
  show ?thesis
  proof (intro exI conjI allI impI)
    have upd: "s\<lparr>mutex_held := True, registered_interfaces := i # registered_interfaces s\<rparr> = s'\<lparr>mutex_held := True\<rparr>"
      by (simp add: s'_def)
    show "uacpi_install_interface host name kind s = (UACPI_STATUS_OK, s')"
      unfolding uacpi_install_interface_def acq(1)
      using none [of True] assms(6,7) rel' upd by (simp add: install_interface_body_def i_def)
    show "uacpi_handle_osi host name s' = (UACPI_STATUS_OK, Some True, s')"
      unfolding acq'(2) using some [of True] s' rel' by (simp add: handle_osi_body_def i_def Let_def)
    show "uacpi_install_interface host name kind s' = (UACPI_STATUS_ALREADY_EXISTS, s')"
      unfolding uacpi_install_interface_def acq'(1) using some [of True] rel' by (simp add: install_interface_body_def i_def)
    show "uacpi_uninstall_interface host name s' = (UACPI_STATUS_OK, s)"
      unfolding uacpi_uninstall_interface_def acq'(1) using rel self by (simp add: s'_def i_def)
    show "uacpi_handle_osi host name s = (UACPI_STATUS_OK, Some False, s)"
      unfolding acq(2) using none [of True] rel by (simp add: handle_osi_body_def)
    show "uacpi_uninstall_interface host name s = (UACPI_STATUS_NOT_FOUND, s)"
      unfolding uacpi_uninstall_interface_def acq(1) using rel walk fresh by simp
    fix other assume o: "nul_free other \<and> other \<noteq> name"
    then have "uacpi_strcmp name other \<noteq> 0" using strcmp_eq assms(8) by blast
    then have "find_interface_unlocked other (s'\<lparr>mutex_held := True\<rparr>) = find_interface_unlocked other (s\<lparr>mutex_held := True\<rparr>)"
      by (simp add: find_interface_unlocked_def s'_def i_def)
    then show "fst (snd (uacpi_handle_osi host other s')) = fst (snd (uacpi_handle_osi host other s))"
      unfolding acq(2) acq'(2) using s'(3) assms(4) by (simp add: handle_osi_body_def Let_def split: option.splits prod.splits)
  qed
qed

theorem osi_install_roundtrip_witness:
  "\<exists>s s'. uacpi_install_interface good_host ''Linux'' 1 s = (UACPI_STATUS_OK, s')
     \<and> uacpi_handle_osi good_host ''Linux'' s' = (UACPI_STATUS_OK, Some True, s')
     \<and> uacpi_uninstall_interface good_host ''Linux'' s' = (UACPI_STATUS_OK, s)"
proof -
  let ?s = "(snd (uacpi_initialize_interfaces good_host osi_start))\<lparr>init_level := 1\<rparr>"
  have "osi_reachable ?s" by (rule reach_step [OF reach_step [OF reach_start step_init] step_level])
  moreover have "interface_mutex ?s" "1 \<le> init_level ?s" "acquire_mutex good_host = UACPI_STATUS_OK"
      "alloc_interface_ok good_host" "alloc_name_ok good_host"
      "nul_free ''Linux''" "''Linux'' \<notin> set (map ri_name (registered_interfaces ?s))" by code_simp+
  moreover have "interface_handler ?s = None"
    by (simp add: uacpi_initialize_interfaces_def good_host_def osi_start_def Let_def)
  ultimately show ?thesis using osi_install_roundtrip [of ?s good_host "''Linux''" 1] by blast
qed

end
