(* ===== verification/UacpiBits.thy ===== *)
theory UacpiBits
  imports UacpiOsi
begin

text \<open>
  Bit-granular access to buffers, the first part of \<^verbatim>\<open>src/uacpi/io.c\<close>: copying of bit spans and buffer fields. A
  buffer is the list of its bytes; a function that reads or writes one has the result \<open>None\<close> when the C code
  would access it outside its bounds. Bit \<open>n\<close> of a buffer is bit \<open>n mod 8\<close> of byte \<open>n div 8\<close>.
\<close>

section \<open>Bit spans\<close>

definition uacpi_round_up_bits_to_bytes :: "nat \<Rightarrow> nat" where
  "uacpi_round_up_bits_to_bytes bit_length = (bit_length + 7) div 8"

definition cut_misaligned_tail :: "u8 list \<Rightarrow> nat \<Rightarrow> nat \<Rightarrow> u8 list option" where
  "cut_misaligned_tail data off bit_length = (let remainder = bit_length mod 8 in
     if remainder = 0 then Some data
     else if off < length data then Some (data[off := data ! off AND (push_bit remainder 1 - 1)]) else None)"

record bit_span =
  bs_index :: nat
  bs_length :: nat

definition bit_span_offset :: "bit_span \<Rightarrow> nat \<Rightarrow> bit_span" where
  "bit_span_offset span bits = (let delta = min (bs_length span) bits in
     \<lparr>bs_index = bs_index span + delta, bs_length = bs_length span - delta\<rparr>)"

text \<open>
  One round of the loop of \<open>bit_copy\<close>: fetching up to eight bits of the source at byte \<open>p\<close> and shift \<open>k\<close>
  with \<open>n\<close> bits left, and storing them in the destination.
\<close>

definition fetch_bits :: "u8 list \<Rightarrow> nat \<Rightarrow> nat \<Rightarrow> nat \<Rightarrow> u8 option" where
  "fetch_bits src p n k =
     (if n = 0 then Some 0
      else if p \<ge> length src then None
      else let bits = drop_bit k (src ! p) in
        case (if k \<noteq> 0 \<and> n > 8 - k
              then (if p + 1 < length src then Some (bits OR push_bit (8 - k) (src ! (p + 1))) else None)
              else Some bits) of
          None \<Rightarrow> None
        | Some bits \<Rightarrow> Some (if n < 8 then bits AND (push_bit n 1 - 1) else bits))"

definition put_bits :: "u8 list \<Rightarrow> nat \<Rightarrow> nat \<Rightarrow> nat \<Rightarrow> u8 \<Rightarrow> u8 list option" where
  "put_bits dst p n k bits =
     (if p \<ge> length dst then None
      else let dst_mask = push_bit k (if n < 8 then push_bit n 1 - 1 else 0xFF) :: u16;
               dst1 = dst[p := ucast ((ucast (dst ! p) AND NOT dst_mask) OR (push_bit k (ucast bits) AND dst_mask))] in
        if k \<noteq> 0 \<and> n > 8 - k then
          (if p + 1 < length dst then
             let dst_mask = drop_bit 8 dst_mask;
                 dst2 = dst1[p + 1 := ucast (ucast (dst1 ! (p + 1)) AND NOT dst_mask)]
             in Some (dst2[p + 1 := ucast (ucast (dst2 ! (p + 1)) OR (drop_bit (8 - k) (ucast bits) AND dst_mask))])
           else None)
        else Some dst1)"

function bit_copy_loop :: "u8 list \<Rightarrow> nat \<Rightarrow> nat \<Rightarrow> nat \<Rightarrow> u8 list \<Rightarrow> nat \<Rightarrow> nat \<Rightarrow> nat \<Rightarrow> u8 list option" where
  "bit_copy_loop dst dst_ptr dst_count dst_shift src src_ptr src_count src_shift =
     (if dst_count = 0 then Some dst
      else case fetch_bits src src_ptr src_count src_shift of None \<Rightarrow> None | Some bits \<Rightarrow>
        case put_bits dst dst_ptr dst_count dst_shift bits of None \<Rightarrow> None | Some dst' \<Rightarrow>
          bit_copy_loop dst' (dst_ptr + 1) (if dst_count > 8 then dst_count - 8 else 0) dst_shift
            src (if src_count < 8 then src_ptr else src_ptr + 1) (if src_count < 8 then 0 else src_count - 8) src_shift)"
  by pat_completeness auto
termination by (relation "measure (\<lambda>(_, _, n, _). n)") auto

declare bit_copy_loop.simps [simp del]

definition bit_copy :: "u8 list \<Rightarrow> bit_span \<Rightarrow> u8 list \<Rightarrow> bit_span \<Rightarrow> u8 list option" where
  "bit_copy dst_data dst src_data src =
     bit_copy_loop dst_data (bs_index dst div 8) (bs_length dst) (bs_index dst mod 8)
       src_data (bs_index src div 8) (bs_length src) (bs_index src mod 8)"

section \<open>Correctness of the copy\<close>

definition buf_bit :: "u8 list \<Rightarrow> nat \<Rightarrow> bool" where
  "buf_bit b n \<longleftrightarrow> bit (b ! (n div 8)) (n mod 8)"

lemma bit_u8_ge: "8 \<le> n \<Longrightarrow> \<not> bit (x :: u8) n"
  by (auto dest: bit_imp_le_length)

lemma bit_low_mask: "bit (push_bit n 1 - 1 :: 'a::len word) i \<longleftrightarrow> i < n \<and> i < LENGTH('a)"
proof -
  have "push_bit n 1 - 1 = (mask n :: 'a word)" by (simp add: mask_eq_exp_minus_1)
  then show ?thesis by (auto simp: bit_mask_iff)
qed

lemma bit_byte_mask: "bit (if n < 8 then push_bit n 1 - 1 else 0xFF :: u16) i \<longleftrightarrow> i < n \<and> i < 8"
proof -
  have ff: "(0xFF :: u16) = mask 8" by (simp add: mask_eq_exp_minus_1)
  show ?thesis unfolding ff by (auto simp: bit_low_mask bit_mask_iff simp del: push_bit_of_1)
qed

lemma byte_pos:
  fixes p k i :: nat
  assumes "k < 8" "i < 8"
  shows "(8 * p + k + i) div 8 = (if k + i < 8 then p else p + 1)"
    "(8 * p + k + i) mod 8 = (if k + i < 8 then k + i else k + i - 8)"
proof -
  have e: "8 * p + k + i = (k + i) + p * 8" by simp
  have d: "(k + i) div 8 = (if k + i < 8 then 0 else 1)" using assms by (auto intro!: div_nat_eqI)
  have m: "(k + i) mod 8 = (if k + i < 8 then k + i else k + i - 8)"
    using d minus_div_mult_eq_mod [of "k + i" 8] by (auto split: if_splits)
  show "(8 * p + k + i) div 8 = (if k + i < 8 then p else p + 1)" unfolding e div_mult_self1 [OF numeral_neq_zero] d by simp
  show "(8 * p + k + i) mod 8 = (if k + i < 8 then k + i else k + i - 8)" unfolding e mod_mult_self1 m ..
qed

lemma buf_bit_update [simp]:
  "p < length b \<Longrightarrow> buf_bit (b[p := x]) m = (if m div 8 = p then bit x (m mod 8) else buf_bit b m)"
  by (simp add: buf_bit_def nth_list_update)

lemma fetch_bits_correct:
  assumes "k < 8" "8 * p + k + n \<le> 8 * length src"
  shows "\<exists>b. fetch_bits src p n k = Some b \<and> (\<forall>i. bit b i \<longleftrightarrow> i < 8 \<and> i < n \<and> buf_bit src (8 * p + k + i))"
proof (cases "n = 0")
  case False
  then have p: "p < length src" using assms by arith
  have p1: "p + 1 < length src" if "n > 8 - k" using that assms by arith
  have bb: "buf_bit src (8 * p + k + i) = (if k + i < 8 then bit (src ! p) (k + i) else bit (src ! (p + 1)) (k + i - 8))"
    if "i < 8" for i using byte_pos [OF assms(1) that] by (simp add: buf_bit_def)
  define bits where "bits = (if k \<noteq> 0 \<and> n > 8 - k then drop_bit k (src ! p) OR push_bit (8 - k) (src ! (p + 1)) else drop_bit k (src ! p))"
  have "fetch_bits src p n k = Some (if n < 8 then bits AND (push_bit n 1 - 1) else bits)"
    using False p p1 by (auto simp: fetch_bits_def bits_def Let_def)
  moreover have "bit (if n < 8 then bits AND (push_bit n 1 - 1) else bits) i
      \<longleftrightarrow> i < 8 \<and> i < n \<and> buf_bit src (8 * p + k + i)" for i
  proof (cases "i < 8")
    case True
    have "bit bits i \<longleftrightarrow> buf_bit src (8 * p + k + i)" if "i < n"
      using that True assms(1) bit_u8_ge [of "k + i" "src ! p"] unfolding bb [OF True] bits_def
      by (auto simp: bit_simps algebra_simps)
    then show ?thesis using True by (auto simp: bit_low_mask bit_simps simp del: push_bit_of_1)
  qed (simp add: bit_u8_ge)
  ultimately show ?thesis by blast
qed (simp add: fetch_bits_def)

lemma put_bits_correct:
  assumes "k < 8" "0 < n" "8 * p + k + n \<le> 8 * length dst"
  shows "\<exists>d. put_bits dst p n k b = Some d \<and> length d = length dst
     \<and> (\<forall>m. buf_bit d m \<longleftrightarrow> (if 8 * p + k \<le> m \<and> m < 8 * p + k + min n 8 then bit b (m - (8 * p + k)) else buf_bit dst m))"
proof -
  have p: "p < length dst" using assms by arith
  have p1: "p + 1 < length dst" if "n > 8 - k" using that assms by arith
  define msk where "msk = push_bit k (if n < 8 then push_bit n 1 - 1 else 0xFF :: u16)"
  have msk: "bit msk i \<longleftrightarrow> k \<le> i \<and> i - k < n \<and> i - k < 8" if "i < 16" for i
    unfolding msk_def using that by (auto simp: bit_push_bit_iff bit_byte_mask simp del: push_bit_of_1)
  define x where "x = (ucast ((ucast (dst ! p) AND NOT msk) OR (push_bit k (ucast b) AND msk)) :: u8)"
  define y where "y = (ucast (ucast (dst ! (p + 1)) AND NOT (drop_bit 8 msk)) :: u8)"
  define z where "z = (ucast (ucast y OR (drop_bit (8 - k) (ucast b) AND drop_bit 8 msk)) :: u8)"
  have x: "bit x j \<longleftrightarrow> (if k \<le> j \<and> j - k < n then bit b (j - k) else bit (dst ! p) j)" if "j < 8" for j
    using that msk [of j] unfolding x_def by (auto simp: bit_simps)
  have z: "bit z j \<longleftrightarrow> (if 8 + j - k < n \<and> 8 + j - k < 8 then bit b (8 + j - k) else bit (dst ! (p + 1)) j)" if "j < 8" for j
    using that assms(1) msk [of "8 + j"] unfolding z_def y_def by (auto simp: bit_simps)
  define d where "d = (if k \<noteq> 0 \<and> n > 8 - k then dst[p := x, p + 1 := z] else dst[p := x])"
  have "put_bits dst p n k b = Some d"
    unfolding put_bits_def d_def x_def z_def y_def using p p1
    by (auto simp: Let_def msk_def [symmetric] simp del: push_bit_of_1)
  moreover have "length d = length dst" by (simp add: d_def)
  moreover have "buf_bit d m \<longleftrightarrow> (if 8 * p + k \<le> m \<and> m < 8 * p + k + min n 8 then bit b (m - (8 * p + k)) else buf_bit dst m)" for m
  proof -
    define q j where "q = m div 8" and "j = m mod 8"
    have m: "m = 8 * q + j" "j < 8" by (simp_all add: q_def j_def)
    have dm: "buf_bit d m \<longleftrightarrow> (if q = p then bit x j else if q = p + 1 \<and> k \<noteq> 0 \<and> n > 8 - k then bit z j else buf_bit dst m)"
      using p p1 by (simp add: d_def q_def j_def)
    have dp: "buf_bit dst m \<longleftrightarrow> bit (dst ! q) j" by (simp add: buf_bit_def q_def j_def)
    consider "q = p" | "q = p + 1" | "q < p" | "q > p + 1" by linarith
    then show ?thesis
    proof cases
      case 1
      then show ?thesis unfolding dm using x [OF m(2)] m dp by auto
    next
      case 2
      then show ?thesis unfolding dm using z [OF m(2)] m dp assms(1) by (auto simp: add.commute)
    next
      case 3
      then have "m < 8 * p" using m by linarith
      then show ?thesis unfolding dm using 3 by simp
    next
      case 4
      then have "\<not> m < 8 * p + k + min n 8" using m assms(1) by linarith
      then show ?thesis unfolding dm using 4 by simp
    qed
  qed
  ultimately show ?thesis by blast
qed

lemma bit_copy_loop_correct:
  assumes "dk < 8" "sk < 8" "8 * dp + dk + dn \<le> 8 * length dst" "8 * sp + sk + sn \<le> 8 * length src"
  shows "\<exists>r. bit_copy_loop dst dp dn dk src sp sn sk = Some r \<and> length r = length dst
     \<and> (\<forall>m. buf_bit r m \<longleftrightarrow> (if 8 * dp + dk \<le> m \<and> m < 8 * dp + dk + dn
          then m - (8 * dp + dk) < sn \<and> buf_bit src (8 * sp + sk + (m - (8 * dp + dk))) else buf_bit dst m))"
  using assms
proof (induction dst dp dn dk src sp sn sk rule: bit_copy_loop.induct)
  case (1 dst dp dn dk src sp sn sk)
  show ?case
  proof (cases "dn = 0")
    case True
    then show ?thesis by (auto simp: bit_copy_loop.simps)
  next
    case False
    obtain b where b: "fetch_bits src sp sn sk = Some b" "\<And>i. bit b i \<longleftrightarrow> i < 8 \<and> i < sn \<and> buf_bit src (8 * sp + sk + i)"
      using fetch_bits_correct [OF "1.prems"(2,4)] by blast
    obtain d where d: "put_bits dst dp dn dk b = Some d" "length d = length dst"
      "\<And>m. buf_bit d m \<longleftrightarrow> (if 8 * dp + dk \<le> m \<and> m < 8 * dp + dk + min dn 8 then bit b (m - (8 * dp + dk)) else buf_bit dst m)"
      using put_bits_correct [OF "1.prems"(1) _ "1.prems"(3)] False by blast
    let ?sp = "if sn < 8 then sp else sp + 1" and ?sn = "if sn < 8 then 0 else sn - 8"
    let ?dn = "if dn > 8 then dn - 8 else 0"
    have bd: "8 * ?sp + sk + ?sn \<le> 8 * length src" "?dn \<noteq> 0 \<Longrightarrow> 8 * (dp + 1) + dk + ?dn \<le> 8 * length d"
      using "1.prems" d(2) by auto
    show ?thesis
    proof (cases "dn > 8")
      case True
      then obtain r where r: "bit_copy_loop d (dp + 1) (dn - 8) dk src ?sp ?sn sk = Some r" "length r = length d"
        "\<And>m. buf_bit r m \<longleftrightarrow> (if 8 * (dp + 1) + dk \<le> m \<and> m < 8 * (dp + 1) + dk + (dn - 8)
          then m - (8 * (dp + 1) + dk) < ?sn \<and> buf_bit src (8 * ?sp + sk + (m - (8 * (dp + 1) + dk))) else buf_bit d m)"
        using "1.IH" [OF False b(1) d(1)] "1.prems"(1,2) bd by auto
      have "buf_bit r m \<longleftrightarrow> (if 8 * dp + dk \<le> m \<and> m < 8 * dp + dk + dn
          then m - (8 * dp + dk) < sn \<and> buf_bit src (8 * sp + sk + (m - (8 * dp + dk))) else buf_bit dst m)" for m
      proof (cases "8 * (dp + 1) + dk \<le> m")
        case le: True
        show ?thesis
        proof (cases "m < 8 * dp + dk + dn")
          case True
          have "8 * sp + 8 + sk + (m - (8 * (dp + 1) + dk)) = 8 * sp + sk + (m - (8 * dp + dk))" using le by simp
          then show ?thesis unfolding r(3) using le True \<open>dn > 8\<close> by (auto simp: add.assoc)
        next
          case False
          then show ?thesis unfolding r(3) d(3) using le \<open>dn > 8\<close> by auto
        qed
      next
        case False
        then show ?thesis unfolding r(3) d(3) b(2) using \<open>dn > 8\<close> by auto
      qed
      then show ?thesis using r(1,2) d(2) b(1) d(1) True False
        by (subst bit_copy_loop.simps) auto
    next
      case small: False
      then have "bit_copy_loop dst dp dn dk src sp sn sk = Some d"
        using b(1) d(1) False by (subst bit_copy_loop.simps) (simp add: bit_copy_loop.simps)
      moreover have "buf_bit d m \<longleftrightarrow> (if 8 * dp + dk \<le> m \<and> m < 8 * dp + dk + dn
          then m - (8 * dp + dk) < sn \<and> buf_bit src (8 * sp + sk + (m - (8 * dp + dk))) else buf_bit dst m)" for m
        unfolding d(3) b(2) using small by auto
      ultimately show ?thesis using d(2) by blast
    qed
  qed
qed

lemma bit_copy_bits:
  assumes "di + dn \<le> 8 * length dd" "si + sn \<le> 8 * length sd"
  shows "\<exists>r. bit_copy dd \<lparr>bs_index = di, bs_length = dn\<rparr> sd \<lparr>bs_index = si, bs_length = sn\<rparr> = Some r \<and> length r = length dd
     \<and> (\<forall>m. buf_bit r m \<longleftrightarrow> (if di \<le> m \<and> m < di + dn then m - di < sn \<and> buf_bit sd (si + (m - di)) else buf_bit dd m))"
  using bit_copy_loop_correct [of "di mod 8" "si mod 8" "di div 8" dn dd "si div 8" sn sd, unfolded mult_div_mod_eq] assms
  unfolding bit_copy_def by simp

section \<open>Buffer fields\<close>

text \<open>
  The copying functions of the library on byte buffers, from offset \<open>soff\<close> of the source to offset
  \<open>doff\<close> of the destination.
\<close>

definition buf_copy :: "u8 list \<Rightarrow> nat \<Rightarrow> u8 list \<Rightarrow> nat \<Rightarrow> nat \<Rightarrow> u8 list option" where
  "buf_copy dst doff src soff count =
     (if soff + count \<le> length src \<and> doff + count \<le> length dst
      then Some (take doff dst @ take count (drop soff src) @ drop (doff + count) dst) else None)"

definition buf_zero :: "u8 list \<Rightarrow> nat \<Rightarrow> nat \<Rightarrow> u8 list option" where
  "buf_zero dst doff count =
     (if doff + count \<le> length dst then Some (take doff dst @ replicate count 0 @ drop (doff + count) dst) else None)"

definition buf_copy_zerout :: "u8 list \<Rightarrow> nat \<Rightarrow> u8 list \<Rightarrow> nat \<Rightarrow> nat \<Rightarrow> u8 list option" where
  "buf_copy_zerout dst doff src dst_size src_size = (let bytes_to_copy = min src_size dst_size in
     case (if bytes_to_copy \<noteq> 0 then buf_copy dst doff src 0 bytes_to_copy else Some dst) of None \<Rightarrow> None
     | Some d \<Rightarrow> if dst_size > bytes_to_copy then buf_zero d (doff + bytes_to_copy) (dst_size - bytes_to_copy) else Some d)"

text \<open>A buffer field without its backing buffer, whose contents are a parameter of the operations.\<close>

record buffer_field =
  bf_bit_index :: nat
  bf_bit_length :: nat

definition do_misaligned_buffer_read :: "buffer_field \<Rightarrow> u8 list \<Rightarrow> u8 list \<Rightarrow> u8 list option" where
  "do_misaligned_buffer_read field data dst =
     bit_copy dst \<lparr>bs_index = 0, bs_length = uacpi_round_up_bits_to_bytes (bf_bit_length field) * 8\<rparr>
       data \<lparr>bs_index = bf_bit_index field, bs_length = bf_bit_length field\<rparr>"

definition uacpi_read_buffer_field :: "buffer_field \<Rightarrow> u8 list \<Rightarrow> u8 list \<Rightarrow> u8 list option" where
  "uacpi_read_buffer_field field data dst =
     (if bf_bit_index field mod 8 = 0 then
        (let count = uacpi_round_up_bits_to_bytes (bf_bit_length field) in
         case buf_copy dst 0 data (bf_bit_index field div 8) count of None \<Rightarrow> None
         | Some d \<Rightarrow> cut_misaligned_tail d (count - 1) (bf_bit_length field))
      else do_misaligned_buffer_read field data dst)"

definition do_write_misaligned_buffer_field :: "buffer_field \<Rightarrow> u8 list \<Rightarrow> u8 list \<Rightarrow> nat \<Rightarrow> u8 list option" where
  "do_write_misaligned_buffer_field field data src sz =
     bit_copy data \<lparr>bs_index = bf_bit_index field, bs_length = bf_bit_length field\<rparr> src \<lparr>bs_index = 0, bs_length = sz * 8\<rparr>"

text \<open>For an empty field at the start of the buffer, the last byte would be the one before the buffer.\<close>

definition uacpi_write_buffer_field :: "buffer_field \<Rightarrow> u8 list \<Rightarrow> u8 list \<Rightarrow> nat \<Rightarrow> u8 list option" where
  "uacpi_write_buffer_field field data src sz =
     (if bf_bit_index field mod 8 = 0 then
        (let dst = bf_bit_index field div 8;
             count = uacpi_round_up_bits_to_bytes (bf_bit_length field);
             lst = dst + count - 1;
             tail_shift = bf_bit_length field mod 8 in
         if dst + count = 0 \<or> lst \<ge> length data then None
         else let last_byte = data ! lst in
           case buf_copy_zerout data dst src count sz of None \<Rightarrow> None
           | Some d \<Rightarrow>
               if tail_shift \<noteq> 0 then
                 (let last_shift = 8 - tail_shift;
                      d1 = d[lst := push_bit last_shift (d ! lst)];
                      d2 = d1[lst := drop_bit last_shift (d1 ! lst)]
                  in Some (d2[lst := d2 ! lst OR push_bit tail_shift (drop_bit tail_shift last_byte)]))
               else Some d)
      else do_write_misaligned_buffer_field field data src sz)"

lemma buf_bit_splice:
  assumes "off + length xs \<le> length d"
  shows "buf_bit (take off d @ xs @ drop (off + length xs) d) m
     \<longleftrightarrow> (if 8 * off \<le> m \<and> m < 8 * (off + length xs) then buf_bit xs (m - 8 * off) else buf_bit d m)"
proof -
  define q where "q = m div 8"
  have iff: "8 * off \<le> m \<longleftrightarrow> off \<le> q" "m < 8 * (off + length xs) \<longleftrightarrow> q < off + length xs"
    unfolding q_def by (linarith, simp add: div_less_iff_less_mult mult.commute)
  have "(m - 8 * off) div 8 = q - off" "(m - 8 * off) mod 8 = m mod 8" if "off \<le> q"
  proof -
    have "m = (m - 8 * off) + off * 8" using that iff(1) by simp
    then show "(m - 8 * off) div 8 = q - off" "(m - 8 * off) mod 8 = m mod 8"
      using div_mult_self1 [of 8 "m - 8 * off" off] mod_mult_self1 [of "m - 8 * off" off 8] by (simp_all add: q_def)
  qed
  then show ?thesis using assms unfolding buf_bit_def iff q_def [symmetric]
    by (auto simp: nth_append)
qed

lemma buf_copy_bits:
  assumes "soff + count \<le> length src" "doff + count \<le> length dst"
  shows "\<exists>r. buf_copy dst doff src soff count = Some r \<and> length r = length dst
     \<and> (\<forall>m. buf_bit r m \<longleftrightarrow> (if 8 * doff \<le> m \<and> m < 8 * (doff + count)
           then buf_bit src (8 * soff + (m - 8 * doff)) else buf_bit dst m))"
proof -
  let ?xs = "take count (drop soff src)"
  have l: "length ?xs = count" using assms(1) by simp
  have "buf_bit ?xs n \<longleftrightarrow> buf_bit src (8 * soff + n)" if "n < 8 * count" for n
    using that assms(1) by (simp add: buf_bit_def nth_append less_mult_imp_div_less mult.commute)
  then show ?thesis using assms buf_bit_splice [of doff ?xs dst] l by (auto simp: buf_copy_def)
qed

lemma buf_zero_bits:
  assumes "doff + count \<le> length dst"
  shows "\<exists>r. buf_zero dst doff count = Some r \<and> length r = length dst
     \<and> (\<forall>m. buf_bit r m \<longleftrightarrow> \<not> (8 * doff \<le> m \<and> m < 8 * (doff + count)) \<and> buf_bit dst m)"
proof -
  have "\<not> buf_bit (replicate count 0) n" if "n < 8 * count" for n
    using that by (simp add: buf_bit_def less_mult_imp_div_less mult.commute)
  then show ?thesis using assms buf_bit_splice [of doff "replicate count 0" dst] by (auto simp: buf_zero_def)
qed

lemma buf_copy_zerout_bits:
  assumes "sz \<le> length src" "doff + count \<le> length dst"
  shows "\<exists>r. buf_copy_zerout dst doff src count sz = Some r \<and> length r = length dst
     \<and> (\<forall>m. buf_bit r m \<longleftrightarrow> (if 8 * doff \<le> m \<and> m < 8 * (doff + count)
           then m - 8 * doff < 8 * sz \<and> buf_bit src (m - 8 * doff) else buf_bit dst m))"
proof -
  let ?n = "min sz count"
  have n: "0 + ?n \<le> length src" "doff + ?n \<le> length dst" using assms by auto
  obtain d where d: "(if ?n \<noteq> 0 then buf_copy dst doff src 0 ?n else Some dst) = Some d" "length d = length dst"
    "\<And>m. buf_bit d m \<longleftrightarrow> (if 8 * doff \<le> m \<and> m < 8 * (doff + ?n) then buf_bit src (m - 8 * doff) else buf_bit dst m)"
  proof (cases "?n = 0")
    case True
    have "buf_bit dst m = (if 8 * doff \<le> m \<and> m < 8 * (doff + ?n) then buf_bit src (m - 8 * doff) else buf_bit dst m)" for m
      using True by auto
    then show ?thesis using that True by simp
  qed (use that buf_copy_bits [OF n] in auto)
  show ?thesis
  proof (cases "count > ?n")
    case True
    have "doff + ?n + (count - ?n) \<le> length d" using assms(2) d(2) True by simp
    from buf_zero_bits [OF this] obtain r where r:
      "buf_zero d (doff + ?n) (count - ?n) = Some r" "length r = length d"
      "\<And>m. buf_bit r m \<longleftrightarrow> \<not> (8 * (doff + ?n) \<le> m \<and> m < 8 * (doff + ?n + (count - ?n))) \<and> buf_bit d m" by blast
    have n: "?n = sz" "doff + sz + (count - sz) = doff + count" using True by auto
    have "buf_bit r m \<longleftrightarrow> (if 8 * doff \<le> m \<and> m < 8 * (doff + count)
           then m - 8 * doff < 8 * sz \<and> buf_bit src (m - 8 * doff) else buf_bit dst m)" for m
    proof (cases "8 * doff \<le> m")
      case le: True
      then obtain j where j: "m = 8 * doff + j" using le_Suc_ex by blast
      show ?thesis using True unfolding r(3) d(3) n j distrib_left by (simp add: not_less)
    qed (simp add: r(3) d(3))
    moreover have "buf_copy_zerout dst doff src count sz = Some r"
      unfolding buf_copy_zerout_def Let_def d(1) option.case using r(1) True by (auto simp: min_def)
    ultimately show ?thesis using r(2) d(2) by simp
  next
    case False
    then have n: "?n = count" and sz: "count \<le> sz" by auto
    have "buf_bit d m \<longleftrightarrow> (if 8 * doff \<le> m \<and> m < 8 * (doff + count)
           then m - 8 * doff < 8 * sz \<and> buf_bit src (m - 8 * doff) else buf_bit dst m)" for m
      using sz unfolding d(3) n by auto
    moreover have "buf_copy_zerout dst doff src count sz = Some d"
      unfolding buf_copy_zerout_def Let_def d(1) option.case using False by simp
    ultimately show ?thesis using d(2) by simp
  qed
qed

lemma round_up_bounds: "n \<le> 8 * uacpi_round_up_bits_to_bytes n" "n mod 8 = 0 \<Longrightarrow> 8 * uacpi_round_up_bits_to_bytes n = n"
    "n mod 8 \<noteq> 0 \<Longrightarrow> 8 * uacpi_round_up_bits_to_bytes n = 8 * (n div 8) + 8" "0 < n \<Longrightarrow> 0 < uacpi_round_up_bits_to_bytes n"
proof -
  define q r where "q = n div 8" and "r = n mod 8"
  have n: "n = 8 * q + r" "r < 8" by (simp_all add: q_def r_def)
  have "uacpi_round_up_bits_to_bytes n = (if r = 0 then q else q + 1)"
    unfolding uacpi_round_up_bits_to_bytes_def by (rule div_nat_eqI) (use n in auto)
  then show "n \<le> 8 * uacpi_round_up_bits_to_bytes n" "n mod 8 = 0 \<Longrightarrow> 8 * uacpi_round_up_bits_to_bytes n = n"
    "n mod 8 \<noteq> 0 \<Longrightarrow> 8 * uacpi_round_up_bits_to_bytes n = 8 * (n div 8) + 8" "0 < n \<Longrightarrow> 0 < uacpi_round_up_bits_to_bytes n"
    unfolding q_def [symmetric] r_def [symmetric] using n by auto
qed

text \<open>The last byte of a field of \<open>n\<close> bits, seen from its start.\<close>

lemma tail_bits:
  assumes "n mod 8 \<noteq> 0" "(m :: nat) div 8 = n div 8"
  shows "m mod 8 < n mod 8 \<longleftrightarrow> m < n" "m < 8 * (n div 8 + 1)"
proof -
  define a b c d where "a = m div 8" and "b = m mod 8" and "c = n div 8" and "d = n mod 8"
  have "m = 8 * a + b" "n = 8 * c + d" "b < 8" by (simp_all add: a_def b_def c_def d_def)
  moreover have "a = c" using assms(2) by (simp add: a_def c_def)
  ultimately show "m mod 8 < n mod 8 \<longleftrightarrow> m < n" "m < 8 * (n div 8 + 1)"
    unfolding b_def [symmetric] d_def [symmetric] c_def [symmetric] by auto
qed

lemma other_byte_bits:
  assumes "(m :: nat) div 8 \<noteq> n div 8"
  shows "m < 8 * (n div 8 + 1) \<longleftrightarrow> m < n"
proof -
  define a b c d where "a = m div 8" and "b = m mod 8" and "c = n div 8" and "d = n mod 8"
  have "m = 8 * a + b" "n = 8 * c + d" "b < 8" "d < 8" "a \<noteq> c" using assms by (simp_all add: a_def b_def c_def d_def)
  then show ?thesis unfolding c_def [symmetric] by (cases "a < c") auto
qed

lemma cut_misaligned_tail_bits:
  assumes "uacpi_round_up_bits_to_bytes n \<le> length d" "0 < n"
  shows "\<exists>r. cut_misaligned_tail d (uacpi_round_up_bits_to_bytes n - 1) n = Some r \<and> length r = length d
     \<and> (\<forall>m. buf_bit r m \<longleftrightarrow> (if m < 8 * uacpi_round_up_bits_to_bytes n then m < n \<and> buf_bit d m else buf_bit d m))"
proof (cases "n mod 8 = 0")
  case True
  then show ?thesis using round_up_bounds(2) [of n] by (auto simp: cut_misaligned_tail_def)
next
  case False
  let ?c = "uacpi_round_up_bits_to_bytes n"
  have c: "?c = n div 8 + 1" using round_up_bounds(3) [OF False] by simp
  have "buf_bit (d[n div 8 := d ! (n div 8) AND (push_bit (n mod 8) 1 - 1)]) m
      \<longleftrightarrow> (if m < 8 * ?c then m < n \<and> buf_bit d m else buf_bit d m)" for m
  proof (cases "m div 8 = n div 8")
    case True
    show ?thesis using True tail_bits [OF False True] assms(1) c
      by (auto simp: buf_bit_def bit_and_iff bit_low_mask simp del: push_bit_of_1)
  next
    case ne: False
    have "m < 8 * ?c \<longleftrightarrow> m < n" unfolding c by (rule other_byte_bits [OF ne])
    then show ?thesis using ne assms(1) c by simp
  qed
  then show ?thesis using False assms(1) c by (simp add: cut_misaligned_tail_def Let_def)
qed

lemma uacpi_read_buffer_field_bits:
  assumes "0 < bf_bit_length f" "bf_bit_index f + bf_bit_length f \<le> 8 * length data"
    "uacpi_round_up_bits_to_bytes (bf_bit_length f) \<le> length dst"
  shows "\<exists>r. uacpi_read_buffer_field f data dst = Some r \<and> length r = length dst
     \<and> (\<forall>m. buf_bit r m \<longleftrightarrow> (if m < 8 * uacpi_round_up_bits_to_bytes (bf_bit_length f)
           then m < bf_bit_length f \<and> buf_bit data (bf_bit_index f + m) else buf_bit dst m))"
proof (cases "bf_bit_index f mod 8 = 0")
  case True
  let ?c = "uacpi_round_up_bits_to_bytes (bf_bit_length f)" and ?i = "bf_bit_index f div 8"
  have i: "bf_bit_index f = 8 * ?i" using True by presburger
  have "?i + ?c \<le> length data" using assms(2) i unfolding uacpi_round_up_bits_to_bytes_def by linarith
  from buf_copy_bits [OF this, of 0 dst] assms(3) obtain d where d: "buf_copy dst 0 data ?i ?c = Some d" "length d = length dst"
    "\<And>m. buf_bit d m \<longleftrightarrow> (if m < 8 * ?c then buf_bit data (8 * ?i + m) else buf_bit dst m)" by auto
  from cut_misaligned_tail_bits [of "bf_bit_length f" d] assms(1,3) d(2) obtain r where
    "cut_misaligned_tail d (?c - 1) (bf_bit_length f) = Some r" "length r = length d"
    "\<And>m. buf_bit r m \<longleftrightarrow> (if m < 8 * ?c then m < bf_bit_length f \<and> buf_bit d m else buf_bit d m)" by auto
  then show ?thesis using d True i by (auto simp: uacpi_read_buffer_field_def Let_def)
next
  case False
  then show ?thesis
    using bit_copy_bits [of 0 "uacpi_round_up_bits_to_bytes (bf_bit_length f) * 8" dst "bf_bit_index f" "bf_bit_length f" data] assms
    by (simp add: uacpi_read_buffer_field_def do_misaligned_buffer_read_def mult.commute cong: if_cong)
qed

lemma uacpi_write_buffer_field_bits:
  assumes "0 < bf_bit_length f" "bf_bit_index f + bf_bit_length f \<le> 8 * length data" "sz \<le> length src"
  shows "\<exists>r. uacpi_write_buffer_field f data src sz = Some r \<and> length r = length data
     \<and> (\<forall>m. buf_bit r m \<longleftrightarrow> (if bf_bit_index f \<le> m \<and> m < bf_bit_index f + bf_bit_length f
           then m - bf_bit_index f < 8 * sz \<and> buf_bit src (m - bf_bit_index f) else buf_bit data m))"
proof (cases "bf_bit_index f mod 8 = 0")
  case False
  then show ?thesis
    using bit_copy_bits [of "bf_bit_index f" "bf_bit_length f" data 0 "sz * 8" src] assms
    by (simp add: uacpi_write_buffer_field_def do_write_misaligned_buffer_field_def mult.commute cong: if_cong)
next
  case True
  let ?n = "bf_bit_length f"
  let ?c = "uacpi_round_up_bits_to_bytes ?n" and ?i = "bf_bit_index f div 8"
  have i: "bf_bit_index f = 8 * ?i" using True by presburger
  have ic: "?i + ?c \<le> length data" using assms(2) i unfolding uacpi_round_up_bits_to_bytes_def by linarith
  have c: "0 < ?c" using assms(1) by (rule round_up_bounds(4))
  from buf_copy_zerout_bits [OF assms(3) ic] obtain d where d: "buf_copy_zerout data ?i src ?c sz = Some d" "length d = length data"
    "\<And>m. buf_bit d m \<longleftrightarrow> (if 8 * ?i \<le> m \<and> m < 8 * (?i + ?c) then m - 8 * ?i < 8 * sz \<and> buf_bit src (m - 8 * ?i) else buf_bit data m)" by blast
  show ?thesis
  proof (cases "?n mod 8 = 0")
    case t: True
    then have "uacpi_write_buffer_field f data src sz = Some d" using d True c ic
      by (simp add: uacpi_write_buffer_field_def Let_def)
    then show ?thesis using d(2,3) i round_up_bounds(2) [OF t] by (simp add: algebra_simps)
  next
    case t: False
    let ?l = "?i + ?c - 1" and ?t = "?n mod 8"
    define x where "x = drop_bit (8 - ?t) (push_bit (8 - ?t) (d ! ?l)) OR push_bit ?t (drop_bit ?t (data ! ?l))"
    have l: "?l = ?i + ?n div 8" using round_up_bounds(3) [OF t] by simp
    have fl: "(bf_bit_index f + ?n) div 8 = ?l" "(bf_bit_index f + ?n) mod 8 = ?t"
      using True l div_mult_self1 [of 8 ?n ?i] i by (simp_all add: mod_add_left_eq [symmetric] div_plus_div_distrib_dvd_left mod_eq_0_iff_dvd)
    have ic8: "8 * (?i + ?c) = 8 * (?l + 1)" using c by simp
    have x: "bit x j \<longleftrightarrow> (if j < ?t then bit (d ! ?l) j else bit (data ! ?l) j)" if "j < 8" for j
      using that t unfolding x_def by (auto simp: bit_simps)
    have "uacpi_write_buffer_field f data src sz = Some (d[?l := x])" using d True c ic t
      by (simp add: uacpi_write_buffer_field_def Let_def x_def)
    moreover have "buf_bit (d[?l := x]) m \<longleftrightarrow> (if bf_bit_index f \<le> m \<and> m < bf_bit_index f + ?n
           then m - bf_bit_index f < 8 * sz \<and> buf_bit src (m - bf_bit_index f) else buf_bit data m)" for m
    proof (cases "m div 8 = ?l")
      case True
      have "m mod 8 < ?t \<longleftrightarrow> m < bf_bit_index f + ?n" "m < 8 * (?i + ?c)"
        using tail_bits [of "bf_bit_index f + ?n" m] True t fl ic8 by simp_all
      moreover have "bf_bit_index f \<le> m" using True l i div_mult_mod_eq [of m 8] by linarith
      ultimately show ?thesis using True x [of "m mod 8"] d(2) ic c d(3) [of m] i by (auto simp: buf_bit_def)
    next
      case ne: False
      have "m < 8 * (?i + ?c) \<longleftrightarrow> m < bf_bit_index f + ?n"
        using other_byte_bits [of m "bf_bit_index f + ?n"] ne fl ic8 by simp
      then show ?thesis using ne d(2) ic c d(3) [of m] i by auto
    qed
    ultimately show ?thesis using d(2) by simp
  qed
qed

text \<open>
  C28: buffer fields behave like slices of the bits of their buffer. For every non-empty field that
  lies inside its buffer, whatever its alignment, writing the field stores the bits of the source in it,
  padded with zeroes when the source is shorter than the field, and changes no other bit of the buffer; reading it
  back gives these bits, with zeroes up to the next byte and the rest of the destination left alone. No
  access is out of bounds.
\<close>

theorem buffer_field_roundtrip:
  assumes "0 < bf_bit_length f" "bf_bit_index f + bf_bit_length f \<le> 8 * length data" "sz \<le> length src"
    "uacpi_round_up_bits_to_bytes (bf_bit_length f) \<le> length dst"
  shows "\<exists>data' r. uacpi_write_buffer_field f data src sz = Some data' \<and> length data' = length data
     \<and> (\<forall>m. buf_bit data' m \<longleftrightarrow> (if bf_bit_index f \<le> m \<and> m < bf_bit_index f + bf_bit_length f
           then m - bf_bit_index f < 8 * sz \<and> buf_bit src (m - bf_bit_index f) else buf_bit data m))
     \<and> uacpi_read_buffer_field f data' dst = Some r \<and> length r = length dst
     \<and> (\<forall>m. buf_bit r m \<longleftrightarrow> (if m < 8 * uacpi_round_up_bits_to_bytes (bf_bit_length f)
           then m < bf_bit_length f \<and> m < 8 * sz \<and> buf_bit src m else buf_bit dst m))"
proof -
  obtain data' where w: "uacpi_write_buffer_field f data src sz = Some data'" "length data' = length data"
    "\<And>m. buf_bit data' m \<longleftrightarrow> (if bf_bit_index f \<le> m \<and> m < bf_bit_index f + bf_bit_length f
           then m - bf_bit_index f < 8 * sz \<and> buf_bit src (m - bf_bit_index f) else buf_bit data m)"
    using uacpi_write_buffer_field_bits [OF assms(1-3)] by blast
  obtain r where r: "uacpi_read_buffer_field f data' dst = Some r" "length r = length dst"
    "\<And>m. buf_bit r m \<longleftrightarrow> (if m < 8 * uacpi_round_up_bits_to_bytes (bf_bit_length f)
           then m < bf_bit_length f \<and> buf_bit data' (bf_bit_index f + m) else buf_bit dst m)"
    using uacpi_read_buffer_field_bits [OF assms(1) _ assms(4), of data'] assms(2) w(2) by auto
  show ?thesis using w r by (intro exI [of _ data'] exI [of _ r]) auto
qed

text \<open>A field of eleven bits that starts at bit three, written from two bytes.\<close>

theorem buffer_field_roundtrip_witness:
  "uacpi_write_buffer_field \<lparr>bf_bit_index = 3, bf_bit_length = 11\<rparr> [0xFF, 0xFF] [0xA5, 0x02] 2 = Some [0x2F, 0xD5]
   \<and> (\<exists>r. uacpi_read_buffer_field \<lparr>bf_bit_index = 3, bf_bit_length = 11\<rparr> [0x2F, 0xD5] [0, 0] = Some r \<and> length r = 2
        \<and> (\<forall>m < 11. buf_bit r m = buf_bit [0xA5, 0x02] m))"
proof -
  have w: "uacpi_write_buffer_field \<lparr>bf_bit_index = 3, bf_bit_length = 11\<rparr> [0xFF, 0xFF] [0xA5, 0x02] 2 = Some [0x2F, 0xD5]"
    by code_simp
  with buffer_field_roundtrip [of "\<lparr>bf_bit_index = 3, bf_bit_length = 11\<rparr>" "[0xFF, 0xFF]" 2 "[0xA5, 0x02]" "[0, 0]"]
  show ?thesis by (auto simp: uacpi_round_up_bits_to_bytes_def)
qed

end
