(* ===== verification/UacpiIo.thy ===== *)
theory UacpiIo
  imports UacpiBits
begin

text \<open>
  Field units of operation regions, the second part of \<^verbatim>\<open>src/uacpi/io.c\<close>: a field is read and written in
  accesses of the width of its unit, directly, through a bank register or through a pair of index and data
  registers. Variables that the code leaves uninitialised before a read are taken as zero.
\<close>

section \<open>Field units\<close>

datatype region_op = OpRead | OpWrite | OpOther

datatype update_rule = PRESERVE | WRITE_AS_ONES | WRITE_AS_ZEROES | InvalidRule

text \<open>
  \<open>uacpi_field_unit\<close> with the union of its kinds; \<open>'r\<close> are the nodes of operation regions. An index
  field and a bank field refer to field units that exist before them, so the type is recursive.
\<close>

record field_layout =
  fu_byte_offset :: u32
  fu_bit_length :: u32
  fu_bit_offset_within_first_byte :: u8
  fu_access_width_bytes :: u8
  fu_update_rule :: update_rule
  fu_lock_rule :: bool

datatype 'r field_unit =
    NormalField field_layout 'r
  | IndexField field_layout "'r field_unit" "'r field_unit"
  | BankField field_layout 'r "'r field_unit" u64
  | InvalidField field_layout

fun layout :: "'r field_unit \<Rightarrow> field_layout" where
  "layout (NormalField l _) = l"
| "layout (IndexField l _ _) = l"
| "layout (BankField l _ _ _) = l"
| "layout (InvalidField l) = l"

text \<open>
  The environment: acquiring and releasing the AML mutex of the global lock, and access to an operation region
  (\<open>uacpi_dispatch_opregion_io\<close>) at an offset and a width in bytes, which takes and returns the contents of
  \<open>in_out\<close>.
\<close>

record ('r, 'w) field_env =
  fe_acquire :: "'w \<Rightarrow> uacpi_status \<times> 'w"
  fe_release :: "'w \<Rightarrow> 'w"
  fe_dispatch :: "'r \<Rightarrow> u32 \<Rightarrow> u8 \<Rightarrow> region_op \<Rightarrow> u64 \<Rightarrow> 'w \<Rightarrow> uacpi_status \<times> u64 \<times> 'w"

text \<open>An accessor is \<open>access_field_unit\<close> of one field: \<open>None\<close> when it accesses a buffer out of bounds or does not return.\<close>

type_synonym 'w accessor = "u32 \<Rightarrow> region_op \<Rightarrow> u64 \<Rightarrow> 'w \<Rightarrow> (uacpi_status \<times> u64 \<times> 'w) option"

definition u64_bytes :: "u64 \<Rightarrow> u8 list" where "u64_bytes v = word_bytes 8 v"

definition align_up32 :: "u32 \<Rightarrow> u32 \<Rightarrow> u32" where
  "align_up32 x v = (x + (v - 1)) AND NOT (v - 1)"

text \<open>The difference of a width and a span index, in 64 bits.\<close>

definition span_room :: "u8 \<Rightarrow> nat \<Rightarrow> nat" where
  "span_room width idx = (2 ^ 64 + unat width - idx) mod 2 ^ 64"

text \<open>The loops carry the unit's access width in bits, the position and what is left to do.\<close>

fun read_loop :: "'w accessor \<Rightarrow> field_layout \<Rightarrow> u8 \<Rightarrow> nat \<Rightarrow> u32 \<Rightarrow> nat \<Rightarrow> nat \<Rightarrow> bit_span \<Rightarrow> u8 list \<Rightarrow> 'w
    \<Rightarrow> (uacpi_status \<times> u8 list \<times> 'w) option" where
  "read_loop acc l width 0 byte_offset bits_left src_index dst_span dst w = Some (UACPI_STATUS_OK, dst, w)"
| "read_loop acc l width (Suc reads_to_do) byte_offset bits_left src_index dst_span dst w =
     (let src_length = min bits_left (span_room width src_index) in
      case acc byte_offset OpRead 0 w of None \<Rightarrow> None
      | Some (ret, out, w1) \<Rightarrow>
          if ret \<noteq> UACPI_STATUS_OK then Some (ret, dst, w1)
          else case bit_copy dst dst_span (u64_bytes out) \<lparr>bs_index = src_index, bs_length = src_length\<rparr> of None \<Rightarrow> None
          | Some dst' \<Rightarrow> read_loop acc l width reads_to_do (byte_offset + ucast (fu_access_width_bytes l))
              (bits_left - src_length) 0 (bit_span_offset dst_span src_length) dst' w1)"

definition do_read_misaligned_field_unit :: "'w accessor \<Rightarrow> field_layout \<Rightarrow> u8 list \<Rightarrow> nat \<Rightarrow> 'w
    \<Rightarrow> (uacpi_status \<times> u8 list \<times> 'w) option" where
  "do_read_misaligned_field_unit acc l dst sz w =
     (let width = fu_access_width_bytes l * 8;
          bits = align_up32 (ucast (fu_bit_offset_within_first_byte l) + fu_bit_length l) (ucast width) in
      if width = 0 then None
      else read_loop acc l width (unat bits div unat width) (fu_byte_offset l) (unat (fu_bit_length l))
             (unat (fu_bit_offset_within_first_byte l)) \<lparr>bs_index = 0, bs_length = sz * 8\<rparr> dst w)"

definition read_field_with :: "'w accessor \<Rightarrow> field_layout \<Rightarrow> u8 list \<Rightarrow> nat \<Rightarrow> 'w
    \<Rightarrow> (uacpi_status \<times> u8 list \<times> 'w) option" where
  "read_field_with acc l dst sz w =
     (let field_byte_length = uacpi_round_up_bits_to_bytes (unat (fu_bit_length l)) in
      if fu_bit_offset_within_first_byte l = 0 \<and> field_byte_length \<le> unat (fu_access_width_bytes l) then
        (case acc (fu_byte_offset l) OpRead 0 w of None \<Rightarrow> None
         | Some (ret, out, w1) \<Rightarrow>
             if ret \<noteq> UACPI_STATUS_OK then Some (ret, dst, w1)
             else case buf_copy_zerout dst 0 (u64_bytes out) sz field_byte_length of None \<Rightarrow> None
             | Some d \<Rightarrow>
                 (case (if sz \<ge> field_byte_length then cut_misaligned_tail d (field_byte_length - 1) (unat (fu_bit_length l)) else Some d) of
                    None \<Rightarrow> None | Some d' \<Rightarrow> Some (UACPI_STATUS_OK, d', w1)))
      else do_read_misaligned_field_unit acc l dst sz w)"

text \<open>The initial contents of the access: what is there, ones or zeroes when only a part of it belongs to the field.\<close>

definition write_base :: "'w accessor \<Rightarrow> field_layout \<Rightarrow> u32 \<Rightarrow> bool \<Rightarrow> 'w \<Rightarrow> (uacpi_status \<times> u64 \<times> 'w) option" where
  "write_base acc l byte_offset partly w =
     (if partly then
        (case fu_update_rule l of
           PRESERVE \<Rightarrow> acc byte_offset OpRead 0 w
         | WRITE_AS_ONES \<Rightarrow> Some (UACPI_STATUS_OK, NOT 0, w)
         | WRITE_AS_ZEROES \<Rightarrow> Some (UACPI_STATUS_OK, 0, w)
         | InvalidRule \<Rightarrow> Some (UACPI_STATUS_INVALID_ARGUMENT, 0, w))
      else Some (UACPI_STATUS_OK, 0, w))"

partial_function (option) write_loop :: "'w accessor \<Rightarrow> field_layout \<Rightarrow> u8 \<Rightarrow> u32 \<Rightarrow> nat \<Rightarrow> nat \<Rightarrow> u8 list \<Rightarrow> bit_span \<Rightarrow> 'w
    \<Rightarrow> (uacpi_status \<times> 'w) option" where
  "write_loop acc l width byte_offset bits_left dst_index src src_span w =
     (if bits_left = 0 then Some (UACPI_STATUS_OK, w)
      else let dst_length = min (span_room width dst_index) bits_left in
        Option.bind
          (write_base acc l byte_offset (dst_index \<noteq> 0 \<or> dst_length < unat width) w) (\<lambda>(ret, v, w1).
        if ret \<noteq> UACPI_STATUS_OK then Some (ret, w1)
        else Option.bind (bit_copy (u64_bytes v) \<lparr>bs_index = dst_index, bs_length = dst_length\<rparr> src src_span) (\<lambda>d.
          Option.bind (acc byte_offset OpWrite (le_word d) w1) (\<lambda>(ret, _, w2).
          if ret \<noteq> UACPI_STATUS_OK then Some (ret, w2)
          else write_loop acc l width (byte_offset + ucast (fu_access_width_bytes l)) (bits_left - dst_length) 0
                 src (bit_span_offset src_span dst_length) w2))))"

definition write_field_with :: "'w accessor \<Rightarrow> field_layout \<Rightarrow> u8 list \<Rightarrow> nat \<Rightarrow> 'w \<Rightarrow> (uacpi_status \<times> 'w) option" where
  "write_field_with acc l src sz w =
     write_loop acc l (fu_access_width_bytes l * 8) (fu_byte_offset l) (unat (fu_bit_length l))
       (unat (fu_bit_offset_within_first_byte l)) src \<lparr>bs_index = 0, bs_length = sz * 8\<rparr> w"

definition with_lock :: "('r, 'w) field_env \<Rightarrow> field_layout \<Rightarrow> u64 \<Rightarrow> ('w \<Rightarrow> (uacpi_status \<times> u64 \<times> 'w) option) \<Rightarrow> 'w
    \<Rightarrow> (uacpi_status \<times> u64 \<times> 'w) option" where
  "with_lock env l in_out body w =
     (if fu_lock_rule l then
        (case fe_acquire env w of (ret, w1) \<Rightarrow>
           if ret \<noteq> UACPI_STATUS_OK then Some (ret, in_out, w1)
           else map_option (\<lambda>(ret, v, w2). (ret, v, fe_release env w2)) (body w1))
      else body w)"

fun access_field_unit :: "('r, 'w) field_env \<Rightarrow> 'r field_unit \<Rightarrow> 'w accessor" where
  "access_field_unit env (NormalField l region) = (\<lambda>offset op in_out.
     with_lock env l in_out (\<lambda>w. Some (fe_dispatch env region offset (fu_access_width_bytes l) op in_out w)))"
| "access_field_unit env (BankField l region sel bank_value) = (\<lambda>offset op in_out.
     with_lock env l in_out (\<lambda>w.
       case write_field_with (access_field_unit env sel) (layout sel) (u64_bytes bank_value) 8 w of None \<Rightarrow> None
       | Some (ret, w1) \<Rightarrow>
           if ret \<noteq> UACPI_STATUS_OK then Some (ret, in_out, w1)
           else Some (fe_dispatch env region offset (fu_access_width_bytes l) op in_out w1)))"
| "access_field_unit env (IndexField l index data) = (\<lambda>offset op in_out.
     with_lock env l in_out (\<lambda>w.
       case write_field_with (access_field_unit env index) (layout index) (word_bytes 4 offset) 4 w of None \<Rightarrow> None
       | Some (ret, w1) \<Rightarrow>
           if ret \<noteq> UACPI_STATUS_OK then Some (ret, in_out, w1)
           else case op of
             OpRead \<Rightarrow> (case read_field_with (access_field_unit env data) (layout data) (u64_bytes in_out) (unat (fu_access_width_bytes l)) w1 of
                 None \<Rightarrow> None | Some (ret, out, w2) \<Rightarrow> Some (ret, le_word out, w2))
           | OpWrite \<Rightarrow> (case write_field_with (access_field_unit env data) (layout data) (u64_bytes in_out) (unat (fu_access_width_bytes l)) w1 of
                 None \<Rightarrow> None | Some (ret, w2) \<Rightarrow> Some (ret, in_out, w2))
           | OpOther \<Rightarrow> Some (UACPI_STATUS_INVALID_ARGUMENT, in_out, w1)))"
| "access_field_unit env (InvalidField l) = (\<lambda>offset op in_out.
     with_lock env l in_out (\<lambda>w. Some (UACPI_STATUS_INVALID_ARGUMENT, in_out, w)))"

definition uacpi_read_field_unit :: "('r, 'w) field_env \<Rightarrow> 'r field_unit \<Rightarrow> u8 list \<Rightarrow> nat \<Rightarrow> 'w
    \<Rightarrow> (uacpi_status \<times> u8 list \<times> 'w) option" where
  "uacpi_read_field_unit env f = read_field_with (access_field_unit env f) (layout f)"

definition uacpi_write_field_unit :: "('r, 'w) field_env \<Rightarrow> 'r field_unit \<Rightarrow> u8 list \<Rightarrow> nat \<Rightarrow> 'w \<Rightarrow> (uacpi_status \<times> 'w) option" where
  "uacpi_write_field_unit env f = write_field_with (access_field_unit env f) (layout f)"

section \<open>Access to storage\<close>

lemma le_word_bit: "i < 8 * length bs \<Longrightarrow> i < LENGTH('a::len) \<Longrightarrow> bit (le_word bs :: 'a word) i = buf_bit bs i"
proof (induction bs arbitrary: i)
  case (Cons b bs)
  show ?case
  proof (cases "i < 8")
    case True
    then show ?thesis using Cons.prems by (simp add: buf_bit_def bit_simps)
  next
    case False
    then have "bit (le_word bs :: 'a word) (i - 8) = buf_bit bs (i - 8)" using Cons by simp
    moreover have "i div 8 = Suc ((i - 8) div 8)" "i mod 8 = (i - 8) mod 8"
      using False by (simp_all add: le_div_geq le_mod_geq)
    ultimately show ?thesis using False Cons.prems bit_u8_ge [of i b] by (simp add: buf_bit_def bit_simps)
  qed
qed simp

lemma length_u64_bytes [simp]: "length (u64_bytes v) = 8"
  by (simp add: u64_bytes_def)

lemma u64_bytes_bit: "i < 64 \<Longrightarrow> buf_bit (u64_bytes v) i = bit v i"
  using le_word_bit [where 'a = 64, of i "u64_bytes v"] le_word_word_bytes [of 8 v]
  by (simp add: u64_bytes_def)

text \<open>The number of accesses of \<open>width\<close> bytes that cover \<open>n\<close> bits from bit \<open>idx\<close> on.\<close>

definition windows :: "nat \<Rightarrow> nat \<Rightarrow> nat \<Rightarrow> nat" where
  "windows width idx n = (idx + n + 8 * width - 1) div (8 * width)"

lemma windows_first:
  assumes "0 < n" "0 < width"
  shows "0 < windows width idx n" "idx + n \<le> 8 * width \<Longrightarrow> windows width idx n = 1"
    "idx < 8 * width \<Longrightarrow> 8 * width < idx + n \<Longrightarrow> windows width idx n = Suc (windows width 0 (n - (8 * width - idx)))"
proof -
  show "0 < windows width idx n" using assms by (simp add: windows_def div_greater_zero_iff)
  show "windows width idx n = 1" if "idx + n \<le> 8 * width"
    unfolding windows_def using that assms by (intro div_nat_eqI) auto
  show "windows width idx n = Suc (windows width 0 (n - (8 * width - idx)))" if "idx < 8 * width" "8 * width < idx + n"
  proof -
    have e: "idx + n + 8 * width - 1 = (0 + (n - (8 * width - idx)) + 8 * width - 1) + 8 * width" using that by simp
    show ?thesis unfolding windows_def e using assms(2) by (subst div_add_self2) simp_all
  qed
qed

text \<open>What a write puts in the bits of an access that are outside the field.\<close>

fun fill :: "update_rule \<Rightarrow> bool \<Rightarrow> bool" where
  "fill WRITE_AS_ONES old = True"
| "fill WRITE_AS_ZEROES old = False"
| "fill _ old = old"

definition layout_ok :: "field_layout \<Rightarrow> bool" where
  "layout_ok l \<longleftrightarrow> fu_access_width_bytes l \<in> {1, 2, 4, 8} \<and> fu_update_rule l \<noteq> InvalidRule
     \<and> unat (fu_bit_offset_within_first_byte l) < 8 * unat (fu_access_width_bytes l)"

definition field_start :: "field_layout \<Rightarrow> nat" where
  "field_start l = 8 * unat (fu_byte_offset l) + unat (fu_bit_offset_within_first_byte l)"

definition field_end :: "field_layout \<Rightarrow> nat" where
  "field_end l = unat (fu_byte_offset l) + unat (fu_access_width_bytes l)
     * windows (unat (fu_access_width_bytes l)) (unat (fu_bit_offset_within_first_byte l)) (unat (fu_bit_length l))"

lemma unat_width_bits: "width \<le> 8 \<Longrightarrow> unat (of_nat (8 * width) :: u8) = 8 * width"
  by (simp add: unat_of_nat del: of_nat_mult)

lemma ucast_width: "width \<le> 8 \<Longrightarrow> ucast (of_nat width :: u8) = (of_nat width :: u32)"
  by (simp add: unsigned_of_nat take_bit_nat_eq_self)

lemma span_room_eq:
  assumes "width \<le> 8" "idx < 8 * width"
  shows "span_room (of_nat (8 * width)) idx = 8 * width - idx"
proof -
  have "2 ^ 64 + 8 * width - idx = (8 * width - idx) + 2 ^ 64" "8 * width - idx < 2 ^ 64" using assms by simp_all
  then show ?thesis unfolding span_room_def unat_width_bits [OF assms(1)] by (simp only: mod_add_self2 mod_less)
qed

text \<open>
  What a field unit needs of the accessor: in states that satisfy \<open>inv\<close>, the accessor reads and writes whole
  units of an array of bits, the \<open>view\<close> of the state, that has \<open>limit\<close> bytes.
\<close>

locale field_storage =
  fixes acc :: "'w accessor" and width :: nat and view :: "'w \<Rightarrow> nat \<Rightarrow> bool" and inv :: "'w \<Rightarrow> bool" and limit :: nat
  assumes acc_read: "inv w \<Longrightarrow> unat off + width \<le> limit \<Longrightarrow>
      \<exists>out w'. acc off OpRead v w = Some (UACPI_STATUS_OK, out, w') \<and> inv w' \<and> view w' = view w
        \<and> (\<forall>i < 8 * width. bit out i = view w (8 * unat off + i))"
    and acc_write: "inv w \<Longrightarrow> unat off + width \<le> limit \<Longrightarrow>
      \<exists>out w'. acc off OpWrite v w = Some (UACPI_STATUS_OK, out, w') \<and> inv w'
        \<and> (\<forall>m. view w' m = (if 8 * unat off \<le> m \<and> m < 8 * (unat off + width) then bit v (m - 8 * unat off) else view w m))"
    and limit_le: "limit \<le> 2 ^ 32"
begin

lemma write_round:
  assumes "inv w" "unat off + width \<le> limit" "width \<le> 8" "idx + dl \<le> 8 * width" "si + sn \<le> 8 * length src"
    "fu_update_rule l \<noteq> InvalidRule"
  shows "\<exists>v w1 d out w2. write_base acc l off (idx \<noteq> 0 \<or> dl < 8 * width) w = Some (UACPI_STATUS_OK, v, w1)
     \<and> bit_copy (u64_bytes v) \<lparr>bs_index = idx, bs_length = dl\<rparr> src \<lparr>bs_index = si, bs_length = sn\<rparr> = Some d
     \<and> acc off OpWrite (le_word d) w1 = Some (UACPI_STATUS_OK, out, w2) \<and> inv w2
     \<and> (\<forall>m. view w2 m = (if 8 * unat off + idx \<le> m \<and> m < 8 * unat off + idx + dl
          then m - (8 * unat off + idx) < sn \<and> buf_bit src (si + (m - (8 * unat off + idx)))
          else if 8 * unat off \<le> m \<and> m < 8 * (unat off + width) then fill (fu_update_rule l) (view w m) else view w m))"
proof -
  obtain v w1 where pre: "write_base acc l off (idx \<noteq> 0 \<or> dl < 8 * width) w = Some (UACPI_STATUS_OK, v, w1)" "inv w1" "view w1 = view w"
      "idx \<noteq> 0 \<or> dl < 8 * width \<Longrightarrow> \<forall>i < 8 * width. bit v i = fill (fu_update_rule l) (view w (8 * unat off + i))"
    using acc_read [OF assms(1,2), of 0] assms(1,3,6)
    by (cases "fu_update_rule l"; cases "idx \<noteq> 0 \<or> dl < 8 * width") (auto simp: write_base_def bit_simps)
  obtain d where d: "bit_copy (u64_bytes v) \<lparr>bs_index = idx, bs_length = dl\<rparr> src \<lparr>bs_index = si, bs_length = sn\<rparr> = Some d" "length d = 8"
      "\<And>m. buf_bit d m \<longleftrightarrow> (if idx \<le> m \<and> m < idx + dl then m - idx < sn \<and> buf_bit src (si + (m - idx)) else buf_bit (u64_bytes v) m)"
    using bit_copy_bits [of idx dl "u64_bytes v" si sn src] assms(3,4,5) by auto
  obtain out w2 where w2: "acc off OpWrite (le_word d) w1 = Some (UACPI_STATUS_OK, out, w2)" "inv w2"
      "\<And>m. view w2 m = (if 8 * unat off \<le> m \<and> m < 8 * (unat off + width) then bit (le_word d :: u64) (m - 8 * unat off) else view w1 m)"
    using acc_write [OF pre(2) assms(2), of "le_word d"] by blast
  have "view w2 m = (if 8 * unat off + idx \<le> m \<and> m < 8 * unat off + idx + dl
          then m - (8 * unat off + idx) < sn \<and> buf_bit src (si + (m - (8 * unat off + idx)))
          else if 8 * unat off \<le> m \<and> m < 8 * (unat off + width) then fill (fu_update_rule l) (view w m) else view w m)" for m
  proof (cases "8 * unat off \<le> m \<and> m < 8 * (unat off + width)")
    case True
    then obtain i where i: "m = 8 * unat off + i" "i < 8 * width" by (metis add.commute le_Suc_ex add_less_cancel_left distrib_left)
    have "bit (le_word d :: u64) i = buf_bit d i" using i(2) assms(3) d(2) by (simp add: le_word_bit)
    moreover have "buf_bit (u64_bytes v) i = bit v i" using i(2) assms(3) by (simp add: u64_bytes_bit)
    moreover have "bit v i = fill (fu_update_rule l) (view w m)" if "\<not> (idx \<le> i \<and> i < idx + dl)"
      using that pre(4) i by auto
    ultimately show ?thesis unfolding w2(3) using True i d(3) [of i] by auto
  next
    case False
    then show ?thesis unfolding w2(3) pre(3) using assms(4) by auto
  qed
  then show ?thesis using pre(1) d(1) w2(1,2) by blast
qed

lemma write_loop_bits:
  assumes "inv w" "0 < width" "width \<le> 8" "fu_access_width_bytes l = of_nat width" "fu_update_rule l \<noteq> InvalidRule"
    "idx < 8 * width" "si + sn \<le> 8 * length src" "unat off + width * windows width idx n \<le> limit" "0 < n"
  shows "\<exists>w'. write_loop acc l (of_nat (8 * width)) off n idx src \<lparr>bs_index = si, bs_length = sn\<rparr> w = Some (UACPI_STATUS_OK, w') \<and> inv w'
     \<and> (\<forall>m. view w' m = (if 8 * unat off + idx \<le> m \<and> m < 8 * unat off + idx + n
          then m - (8 * unat off + idx) < sn \<and> buf_bit src (si + (m - (8 * unat off + idx)))
          else if 8 * unat off \<le> m \<and> m < 8 * (unat off + width * windows width idx n)
          then fill (fu_update_rule l) (view w m) else view w m))"
  using assms
proof (induction n arbitrary: w off idx si sn rule: less_induct)
  case (less n)
  define dl where "dl = min (8 * width - idx) n"
  note uw = unat_width_bits [OF less.prems(3)] and room = span_room_eq [OF less.prems(3,6)]
  have dlb: "idx + dl \<le> 8 * width" using less.prems(6) by (simp add: dl_def)
  have win: "0 < windows width idx n" using windows_first(1) less.prems by blast
  have "width \<le> width * windows width idx n" using win by simp
  then have lim: "unat off + width \<le> limit" using less.prems(8) by linarith
  obtain v w1 d out w2 where rnd: "write_base acc l off (idx \<noteq> 0 \<or> dl < 8 * width) w = Some (UACPI_STATUS_OK, v, w1)"
     "bit_copy (u64_bytes v) \<lparr>bs_index = idx, bs_length = dl\<rparr> src \<lparr>bs_index = si, bs_length = sn\<rparr> = Some d"
     "acc off OpWrite (le_word d) w1 = Some (UACPI_STATUS_OK, out, w2)" "inv w2"
     "\<And>m. view w2 m = (if 8 * unat off + idx \<le> m \<and> m < 8 * unat off + idx + dl
          then m - (8 * unat off + idx) < sn \<and> buf_bit src (si + (m - (8 * unat off + idx)))
          else if 8 * unat off \<le> m \<and> m < 8 * (unat off + width) then fill (fu_update_rule l) (view w m) else view w m)"
    using write_round [OF less.prems(1) lim less.prems(3) dlb less.prems(7,5)] by blast
  have step: "write_loop acc l (of_nat (8 * width)) off n idx src \<lparr>bs_index = si, bs_length = sn\<rparr> w
      = write_loop acc l (of_nat (8 * width)) (off + of_nat width) (n - dl) 0 src
          \<lparr>bs_index = si + min sn dl, bs_length = sn - min sn dl\<rparr> w2"
    using rnd(1-3) less.prems(9) unfolding write_loop.simps [of acc l _ off n] room uw dl_def [symmetric] Let_def
    by (simp add: bit_span_offset_def Let_def less.prems(4) ucast_width [OF less.prems(3)])
  show ?case
  proof (cases "idx + n \<le> 8 * width")
    case True
    then have n: "n - dl = 0" "dl = n" "windows width idx n = 1"
      using windows_first(2) [OF less.prems(9,2)] by (auto simp: dl_def)
    then show ?thesis using step rnd(4,5) by (simp add: write_loop.simps)
  next
    case False
    then have dl: "dl = 8 * width - idx" "0 < n - dl" "n - dl < n" using less.prems(6) by (auto simp: dl_def)
    have c: "windows width idx n = Suc (windows width 0 (n - dl))"
      using windows_first(3) [OF less.prems(9,2,6)] False by (simp add: dl)
    have c0: "0 < windows width 0 (n - dl)" using windows_first(1) [OF dl(2) less.prems(2)] .
    have le: "unat off + width + width * windows width 0 (n - dl) \<le> limit" using less.prems(8) c by simp
    moreover have "width \<le> width * windows width 0 (n - dl)" using c0 by simp
    ultimately have "unat off + width < 2 ^ 32" using limit_le less.prems(2) by linarith
    then have off: "unat (off + of_nat width) = unat off + width"
      by (simp add: unat_word_ariths unat_of_nat)
    obtain w' where w': "write_loop acc l (of_nat (8 * width)) (off + of_nat width) (n - dl) 0 src
          \<lparr>bs_index = si + min sn dl, bs_length = sn - min sn dl\<rparr> w2 = Some (UACPI_STATUS_OK, w')" "inv w'"
       "\<And>m. view w' m = (if 8 * (unat off + width) \<le> m \<and> m < 8 * (unat off + width) + (n - dl)
          then m - 8 * (unat off + width) < sn - min sn dl \<and> buf_bit src (si + min sn dl + (m - 8 * (unat off + width)))
          else if 8 * (unat off + width) \<le> m \<and> m < 8 * (unat off + width + width * windows width 0 (n - dl))
          then fill (fu_update_rule l) (view w2 m) else view w2 m)"
      using less.IH [OF dl(3) rnd(4) less.prems(2-5), of 0 "si + min sn dl" "sn - min sn dl" "off + of_nat width"]
        less.prems(2,7) dl(2) le off by auto
    have "view w' m = (if 8 * unat off + idx \<le> m \<and> m < 8 * unat off + idx + n
          then m - (8 * unat off + idx) < sn \<and> buf_bit src (si + (m - (8 * unat off + idx)))
          else if 8 * unat off \<le> m \<and> m < 8 * (unat off + width * windows width idx n)
          then fill (fu_update_rule l) (view w m) else view w m)" for m
    proof (cases "8 * (unat off + width) \<le> m")
      case True
      then obtain j where j: "m = 8 * (unat off + width) + j" using le_Suc_ex by blast
      have B: "8 * unat off + idx + dl = 8 * (unat off + width)" using dl(1) less.prems(6) by simp
      have v2: "view w2 m = view w m" unfolding rnd(5) using True B by auto
      have e: "m - (8 * unat off + idx) = dl + j" "m - 8 * (unat off + width) = j" "8 * unat off + idx \<le> m" "8 * unat off \<le> m"
        using j B by simp_all
      have n: "m < 8 * unat off + idx + n \<longleftrightarrow> j < n - dl" "m < 8 * (unat off + width) + (n - dl) \<longleftrightarrow> j < n - dl"
        using j B dl(2) by linarith+
      have E: "8 * (unat off + width * windows width idx n) = 8 * (unat off + width + width * windows width 0 (n - dl))"
        using c by simp
      have "j < sn - min sn dl \<and> buf_bit src (si + min sn dl + j) \<longleftrightarrow> dl + j < sn \<and> buf_bit src (si + (dl + j))"
        by (cases "sn \<le> dl") (auto simp: add.assoc)
      then show ?thesis unfolding w'(3) v2 e n E using True e(3,4) by simp
    next
      case False
      have "8 * unat off + idx + dl = 8 * (unat off + width)" using dl(1) less.prems(6) by simp
      then have m: "m < 8 * unat off + idx + dl" "m < 8 * unat off + idx + n" using False dl(2) by linarith+
      have E: "m < 8 * (unat off + width * windows width idx n)" "m < 8 * (unat off + width)" using False c by simp_all
      show ?thesis unfolding w'(3) rnd(5) using False m E by (cases "8 * unat off + idx \<le> m") simp_all
    qed
    then show ?thesis using step w'(1,2) by auto
  qed
qed

lemma read_loop_bits:
  assumes "inv w" "0 < width" "width \<le> 8" "fu_access_width_bytes l = of_nat width"
    "idx < 8 * width" "di + dn \<le> 8 * length dst" "unat off + width * windows width idx n \<le> limit" "0 < n"
  shows "\<exists>r w'. read_loop acc l (of_nat (8 * width)) (windows width idx n) off n idx \<lparr>bs_index = di, bs_length = dn\<rparr> dst w
       = Some (UACPI_STATUS_OK, r, w') \<and> inv w' \<and> view w' = view w \<and> length r = length dst
     \<and> (\<forall>m. buf_bit r m = (if di \<le> m \<and> m < di + dn
          then m - di < n \<and> view w (8 * unat off + idx + (m - di)) else buf_bit dst m))"
  using assms
proof (induction n arbitrary: w off idx di dn dst rule: less_induct)
  case (less n)
  define dl where "dl = min n (8 * width - idx)"
  note uw = unat_width_bits [OF less.prems(3)] and room = span_room_eq [OF less.prems(3,5)]
  have dlb: "idx + dl \<le> 8 * width" using less.prems(5) by (simp add: dl_def)
  have win: "0 < windows width idx n" using windows_first(1) less.prems by blast
  have "width \<le> width * windows width idx n" using win by simp
  then have lim: "unat off + width \<le> limit" using less.prems(7) by linarith
  obtain out w1 where out: "acc off OpRead 0 w = Some (UACPI_STATUS_OK, out, w1)" "inv w1" "view w1 = view w"
      "\<And>i. i < 8 * width \<Longrightarrow> bit out i = view w (8 * unat off + i)"
    using acc_read [OF less.prems(1) lim, of 0] by blast
  have "idx + dl \<le> 8 * length (u64_bytes out)" using dlb less.prems(3) by simp
  from bit_copy_bits [OF less.prems(6) this] obtain d where d:
    "bit_copy dst \<lparr>bs_index = di, bs_length = dn\<rparr> (u64_bytes out) \<lparr>bs_index = idx, bs_length = dl\<rparr> = Some d" "length d = length dst"
    "\<And>m. buf_bit d m \<longleftrightarrow> (if di \<le> m \<and> m < di + dn then m - di < dl \<and> buf_bit (u64_bytes out) (idx + (m - di)) else buf_bit dst m)"
    by blast
  have ob: "buf_bit (u64_bytes out) (idx + i) = view w (8 * unat off + idx + i)" if "i < dl" for i
    using that dlb less.prems(3) out(4) [of "idx + i"] by (simp add: u64_bytes_bit add.assoc)
  have step: "read_loop acc l (of_nat (8 * width)) (windows width idx n) off n idx \<lparr>bs_index = di, bs_length = dn\<rparr> dst w
      = read_loop acc l (of_nat (8 * width)) (windows width idx n - 1) (off + of_nat width) (n - dl) 0
          \<lparr>bs_index = di + min dn dl, bs_length = dn - min dn dl\<rparr> d w1"
    using out(1) d(1) win unfolding dl_def
    by (cases "windows width idx n") (simp_all add: bit_span_offset_def Let_def less.prems(4) room ucast_width [OF less.prems(3)] del: of_nat_mult)
  show ?case
  proof (cases "idx + n \<le> 8 * width")
    case True
    then have n: "windows width idx n - 1 = 0" "dl = n"
      using windows_first(2) [OF less.prems(8,2)] by (auto simp: dl_def)
    have "buf_bit d m = (if di \<le> m \<and> m < di + dn
          then m - di < n \<and> view w (8 * unat off + idx + (m - di)) else buf_bit dst m)" for m
      unfolding d(3) using ob [of "m - di"] n(2) by auto
    then show ?thesis using step n(1) out(2,3) d(2) by simp
  next
    case False
    then have dl: "dl = 8 * width - idx" "0 < n - dl" "n - dl < n" using less.prems(5) by (auto simp: dl_def)
    have c: "windows width idx n = Suc (windows width 0 (n - dl))"
      using windows_first(3) [OF less.prems(8,2,5)] False by (simp add: dl)
    have c0: "0 < windows width 0 (n - dl)" using windows_first(1) [OF dl(2) less.prems(2)] .
    have le: "unat off + width + width * windows width 0 (n - dl) \<le> limit" using less.prems(7) c by simp
    moreover have "width \<le> width * windows width 0 (n - dl)" using c0 by simp
    ultimately have "unat off + width < 2 ^ 32" using limit_le less.prems(2) by linarith
    then have off: "unat (off + of_nat width) = unat off + width"
      by (simp add: unat_word_ariths unat_of_nat)
    obtain r w' where r: "read_loop acc l (of_nat (8 * width)) (windows width 0 (n - dl)) (off + of_nat width) (n - dl) 0
          \<lparr>bs_index = di + min dn dl, bs_length = dn - min dn dl\<rparr> d w1 = Some (UACPI_STATUS_OK, r, w')" "inv w'" "view w' = view w"
       "length r = length d"
       "\<And>m. buf_bit r m = (if di + min dn dl \<le> m \<and> m < di + min dn dl + (dn - min dn dl)
          then m - (di + min dn dl) < n - dl \<and> view w (8 * (unat off + width) + (m - (di + min dn dl))) else buf_bit d m)"
      using less.IH [OF dl(3) out(2) less.prems(2-4), of 0 "di + min dn dl" "dn - min dn dl" d "off + of_nat width"]
        less.prems(2,6) dl(2) le off out(3) d(2) by auto
    have B: "8 * (unat off + width) = 8 * unat off + idx + dl" using dl(1) less.prems(5) by simp
    have "buf_bit r m = (if di \<le> m \<and> m < di + dn
          then m - di < n \<and> view w (8 * unat off + idx + (m - di)) else buf_bit dst m)" for m
    proof (cases "di + dl \<le> m \<and> m < di + dn")
      case True
      then obtain j where j: "m = di + dl + j" using le_Suc_ex by blast
      have "min dn dl = dl" using True by simp
      then show ?thesis unfolding r(5) B using True j by (auto simp: add.assoc)
    next
      case False
      then have "\<not> (di + min dn dl \<le> m \<and> m < di + min dn dl + (dn - min dn dl))" by auto
      then show ?thesis unfolding r(5) d(3) using ob [of "m - di"] False dl(2) by auto
    qed
    then show ?thesis using step c r(1-4) d(2) by auto
  qed
qed

end

lemma align_up32_div:
  assumes "width \<in> {1, 2, 4, 8 :: u8}" "unat x + 63 < 2 ^ 32"
  shows "unat (align_up32 x (ucast (width * 8))) div unat (width * 8) = (unat x + 8 * unat width - 1) div (8 * unat width)"
proof -
  have "unat (align_up32 x (2 ^ k)) div 2 ^ k = (unat x + 2 ^ k - 1) div 2 ^ k" if "k \<le> 6" for k
  proof -
    have k: "(2 :: nat) ^ k \<le> 2 ^ 6" using that by (intro power_increasing) simp_all
    have "drop_bit k (align_up32 x (2 ^ k)) = drop_bit k (x + mask k)"
      unfolding align_up32_def mask_eq_exp_minus_1 [symmetric]
      by (rule bit_eqI) (auto simp: bit_simps dest: bit_imp_le_length)
    then have "unat (align_up32 x (2 ^ k)) div 2 ^ k = unat (x + mask k) div 2 ^ k"
      by (metis unat_drop_bit_eq drop_bit_nat_def)
    moreover have "(mask k :: u32) = of_nat (2 ^ k - 1)" by (simp add: mask_eq_exp_minus_1)
    then have "unat (mask k :: u32) = 2 ^ k - 1" using k by (simp add: unat_of_nat del: of_nat_diff)
    then have "unat (x + mask k) = unat x + 2 ^ k - 1"
      using assms(2) k by (simp add: unat_word_ariths)
    ultimately show ?thesis by simp
  qed
  from this [of 3] this [of 4] this [of 5] this [of 6] show ?thesis
    using assms(1) by auto
qed

definition field_small :: "field_layout \<Rightarrow> bool" where
  "field_small l \<longleftrightarrow> 0 < fu_bit_length l \<and> unat (fu_bit_offset_within_first_byte l) + unat (fu_bit_length l) + 63 < 2 ^ 32"

lemma width_cases:
  assumes "layout_ok l"
  obtains "unat (fu_access_width_bytes l) \<in> {1, 2, 4, 8}" "0 < unat (fu_access_width_bytes l)" "unat (fu_access_width_bytes l) \<le> 8"
    "fu_access_width_bytes l * 8 = of_nat (8 * unat (fu_access_width_bytes l))" "fu_access_width_bytes l * 8 \<noteq> 0"
  using assms that by (auto simp: layout_ok_def)

lemma reads_to_do_eq:
  assumes "layout_ok l" "field_small l"
  shows "unat (align_up32 (ucast (fu_bit_offset_within_first_byte l) + fu_bit_length l) (ucast (fu_access_width_bytes l * 8)))
      div unat (fu_access_width_bytes l * 8)
    = windows (unat (fu_access_width_bytes l)) (unat (fu_bit_offset_within_first_byte l)) (unat (fu_bit_length l))"
proof -
  let ?x = "ucast (fu_bit_offset_within_first_byte l) + fu_bit_length l"
  have x: "unat ?x = unat (fu_bit_offset_within_first_byte l) + unat (fu_bit_length l)"
    using assms(2) by (simp add: field_small_def unat_word_ariths unsigned_ucast_eq take_bit_nat_eq_self unsigned_less)
  then show ?thesis using align_up32_div [of "fu_access_width_bytes l" ?x] assms
    by (simp add: layout_ok_def field_small_def windows_def)
qed

context field_storage
begin

lemma write_field_bits:
  assumes "inv w" "layout_ok l" "0 < fu_bit_length l" "width = unat (fu_access_width_bytes l)" "field_end l \<le> limit" "sz \<le> length src"
  shows "\<exists>w'. write_field_with acc l src sz w = Some (UACPI_STATUS_OK, w') \<and> inv w'
     \<and> (\<forall>m. view w' m = (if field_start l \<le> m \<and> m < field_start l + unat (fu_bit_length l)
          then m - field_start l < 8 * sz \<and> buf_bit src (m - field_start l)
          else if 8 * unat (fu_byte_offset l) \<le> m \<and> m < 8 * field_end l then fill (fu_update_rule l) (view w m) else view w m))"
proof -
  obtain u: "0 < width" "width \<le> 8" "fu_access_width_bytes l * 8 = of_nat (8 * width)"
    using width_cases [OF assms(2)] assms(4) by metis
  have "0 < unat (fu_bit_length l)" using assms(3) by (simp add: word_less_nat_alt)
  then show ?thesis
    using write_loop_bits [OF assms(1) u(1,2), of l "unat (fu_bit_offset_within_first_byte l)" 0 "sz * 8" src "fu_byte_offset l"
        "unat (fu_bit_length l)"] assms
    by (simp add: write_field_with_def u(3) layout_ok_def field_end_def field_start_def mult.commute cong: if_cong del: of_nat_mult)
qed

lemma read_field_bits:
  assumes "inv w" "layout_ok l" "field_small l" "width = unat (fu_access_width_bytes l)" "field_end l \<le> limit" "sz \<le> length dst"
  shows "\<exists>r w'. read_field_with acc l dst sz w = Some (UACPI_STATUS_OK, r, w') \<and> inv w' \<and> view w' = view w \<and> length r = length dst
     \<and> (\<forall>m. buf_bit r m = (if m < 8 * sz then m < unat (fu_bit_length l) \<and> view w (field_start l + m) else buf_bit dst m))"
proof -
  let ?n = "unat (fu_bit_length l)" and ?off = "fu_byte_offset l"
  let ?b = "uacpi_round_up_bits_to_bytes ?n"
  obtain u: "0 < width" "width \<le> 8" "fu_access_width_bytes l * 8 = of_nat (8 * width)" "fu_access_width_bytes l * 8 \<noteq> 0"
    using width_cases [OF assms(2)] assms(4) by metis
  have n: "0 < ?n" using assms(3) by (simp add: field_small_def word_less_nat_alt)
  show ?thesis
  proof (cases "fu_bit_offset_within_first_byte l = 0 \<and> ?b \<le> unat (fu_access_width_bytes l)")
    case True
    have "width \<le> width * windows width (unat (fu_bit_offset_within_first_byte l)) ?n"
      using windows_first(1) [OF n u(1), of "unat (fu_bit_offset_within_first_byte l)"] by (simp add: Suc_le_eq)
    then have lim: "unat ?off + width \<le> limit" 
      using assms(5) [unfolded field_end_def assms(4) [symmetric]] by linarith
    obtain out w1 where out: "acc ?off OpRead 0 w = Some (UACPI_STATUS_OK, out, w1)" "inv w1" "view w1 = view w"
      "\<And>i. i < 8 * width \<Longrightarrow> bit out i = view w (8 * unat ?off + i)"
      using acc_read [OF assms(1) lim, of 0] by blast
    have "?b \<le> length (u64_bytes out)" "0 + sz \<le> length dst" using True assms(4,6) u(2) by simp_all
    from buf_copy_zerout_bits [OF this] obtain d where d: "buf_copy_zerout dst 0 (u64_bytes out) sz ?b = Some d" "length d = length dst"
      "\<And>m. buf_bit d m \<longleftrightarrow> (if m < 8 * sz then m < 8 * ?b \<and> buf_bit (u64_bytes out) m else buf_bit dst m)" by auto
    have ob: "buf_bit (u64_bytes out) m = view w (field_start l + m)" if "m < 8 * ?b" for m
      using that True assms(4) u(2) out(4) [of m] by (simp add: u64_bytes_bit field_start_def)
    obtain r where r: "(if ?b \<le> sz then cut_misaligned_tail d (?b - 1) ?n else Some d) = Some r" "length r = length dst"
      "\<And>m. buf_bit r m \<longleftrightarrow> (if m < 8 * sz then m < ?n \<and> view w (field_start l + m) else buf_bit dst m)"
    proof (cases "?b \<le> sz")
      case True
      then have "?b \<le> length d" using assms(6) d(2) by simp
      from cut_misaligned_tail_bits [OF this n] obtain r where r: "cut_misaligned_tail d (?b - 1) ?n = Some r" "length r = length d"
        "\<And>m. buf_bit r m \<longleftrightarrow> (if m < 8 * ?b then m < ?n \<and> buf_bit d m else buf_bit d m)" by blast
      have "buf_bit r m \<longleftrightarrow> (if m < 8 * sz then m < ?n \<and> view w (field_start l + m) else buf_bit dst m)" for m
        unfolding r(3) d(3) using ob [of m] True round_up_bounds(1) [of ?n] by auto
      then show ?thesis using that r(1,2) d(2) True by simp
    next
      case False
      have "8 * ?b < ?n + 8" using round_up_bounds(2,3) [of ?n] n mult_div_mod_eq [of 8 ?n] by (cases "?n mod 8 = 0") linarith+
      then have "buf_bit d m \<longleftrightarrow> (if m < 8 * sz then m < ?n \<and> view w (field_start l + m) else buf_bit dst m)" for m
        unfolding d(3) using ob [of m] False by auto
      then show ?thesis using that False d(2) by simp
    qed
    then show ?thesis using True out(1-3) d(1) by (simp add: read_field_with_def Let_def)
  next
    case False
    have eq: "read_field_with acc l dst sz w = read_loop acc l (of_nat (8 * width))
        (windows width (unat (fu_bit_offset_within_first_byte l)) ?n) ?off ?n (unat (fu_bit_offset_within_first_byte l))
        \<lparr>bs_index = 0, bs_length = sz * 8\<rparr> dst w"
      unfolding read_field_with_def do_read_misaligned_field_unit_def Let_def if_not_P [OF False] if_not_P [OF u(4)]
        reads_to_do_eq [OF assms(2,3)] by (simp only: u(3) assms(4))
    show ?thesis unfolding eq
      using read_loop_bits [OF assms(1) u(1,2), of l "unat (fu_bit_offset_within_first_byte l)" 0 "sz * 8" dst ?off ?n] assms n
      by (simp add: layout_ok_def field_end_def field_start_def mult.commute cong: if_cong del: of_nat_mult)
  qed
qed

end

section \<open>Regions that hold their contents\<close>

text \<open>
  Operation regions backed by bytes, little-endian, and a global lock that counts its nesting: the
  hardware on which the correctness of field units is stated.
\<close>

record 'r region_store =
  cells :: "'r \<Rightarrow> nat \<Rightarrow> u8"
  lock_depth :: nat

definition store_dispatch :: "'r \<Rightarrow> u32 \<Rightarrow> u8 \<Rightarrow> region_op \<Rightarrow> u64 \<Rightarrow> 'r region_store \<Rightarrow> uacpi_status \<times> u64 \<times> 'r region_store" where
  "store_dispatch r off width op v w = (case op of
     OpRead \<Rightarrow> (UACPI_STATUS_OK, le_word (map (\<lambda>i. cells w r (unat off + i)) [0..<unat width]), w)
   | OpWrite \<Rightarrow> (UACPI_STATUS_OK, v, w\<lparr>cells := (cells w)(r := (\<lambda>a. if unat off \<le> a \<and> a < unat off + unat width
                                                              then u64_bytes v ! (a - unat off) else cells w r a))\<rparr>)
   | OpOther \<Rightarrow> (UACPI_STATUS_INVALID_ARGUMENT, v, w))"

definition store_env :: "('r, 'r region_store) field_env" where
  "store_env = \<lparr>fe_acquire = (\<lambda>w. (UACPI_STATUS_OK, w\<lparr>lock_depth := lock_depth w + 1\<rparr>)),
     fe_release = (\<lambda>w. w\<lparr>lock_depth := lock_depth w - 1\<rparr>), fe_dispatch = store_dispatch\<rparr>"

definition cell_bit :: "'r \<Rightarrow> 'r region_store \<Rightarrow> nat \<Rightarrow> bool" where
  "cell_bit r w n \<longleftrightarrow> bit (cells w r (n div 8)) (n mod 8)"

text \<open>States that agree with \<open>w0\<close> but for the contents of region \<open>r\<close>.\<close>

definition same_but :: "'r \<Rightarrow> 'r region_store \<Rightarrow> 'r region_store \<Rightarrow> bool" where
  "same_but r w0 w \<longleftrightarrow> lock_depth w = lock_depth w0 \<and> (\<forall>r'. r' \<noteq> r \<longrightarrow> cells w r' = cells w0 r')"

lemma byte_index: "8 * a + i < 8 * (a + n) \<Longrightarrow> (8 * a + i) div 8 = a + i div 8 \<and> (8 * a + i) mod 8 = i mod 8 \<and> i div 8 < n"
  for a i n :: nat
  by (auto simp: less_mult_imp_div_less mult.commute)

lemma store_read_bits:
  assumes "i < 8 * unat width" "unat width \<le> 8"
  shows "bit (le_word (map (\<lambda>i. cells w r (unat off + i)) [0..<unat width]) :: u64) i = cell_bit r w (8 * unat off + i)"
  using assms byte_index [of "unat off" i "unat width"]
  by (subst le_word_bit) (auto simp: buf_bit_def cell_bit_def)

lemma store_write_bits:
  assumes "unat width \<le> 8" "w' = snd (snd (store_dispatch r off width OpWrite v w))"
  shows "cell_bit r w' m = (if 8 * unat off \<le> m \<and> m < 8 * (unat off + unat width) then bit v (m - 8 * unat off) else cell_bit r w m)"
proof (cases "8 * unat off \<le> m \<and> m < 8 * (unat off + unat width)")
  case True
  then obtain i where i: "m = 8 * unat off + i" using le_Suc_ex by blast
  have "i < 64" using True i assms(1) by simp
  then show ?thesis using True i byte_index [of "unat off" i "unat width"] assms
    by (simp add: store_dispatch_def cell_bit_def buf_bit_def [symmetric] u64_bytes_bit)
next
  case False
  then have "\<not> (unat off \<le> m div 8 \<and> m div 8 < unat off + unat width)"
    by (auto simp: less_eq_div_iff_mult_less_eq div_less_iff_less_mult mult.commute)
  then show ?thesis using False assms(2) by (auto simp: store_dispatch_def cell_bit_def)
qed

lemma store_env_simps [simp]:
  "fe_acquire store_env w = (UACPI_STATUS_OK, w\<lparr>lock_depth := lock_depth w + 1\<rparr>)"
  "fe_release store_env w = w\<lparr>lock_depth := lock_depth w - 1\<rparr>" "fe_dispatch store_env = store_dispatch"
  by (simp_all add: store_env_def)

text \<open>Taking and releasing the lock around an access has no effect on the rest of the store.\<close>

lemma with_lock_store:
  "with_lock store_env l v (\<lambda>w. Some (store_dispatch r off width op v w)) w = Some (store_dispatch r off width op v w)"
  by (cases op) (simp_all add: with_lock_def store_dispatch_def cong: if_cong)

lemma normal_access: "access_field_unit store_env (NormalField l r) off op v w
    = Some (store_dispatch r off (fu_access_width_bytes l) op v w)"
  by (simp add: with_lock_store)

interpretation normal: field_storage "access_field_unit store_env (NormalField l r)" "unat (fu_access_width_bytes l)"
    "cell_bit r" "\<lambda>w. same_but r w0 w \<and> layout_ok l" "2 ^ 32" for l :: field_layout and r :: 'r and w0 :: "'r region_store"
proof
  fix w off v
  assume inv: "same_but r w0 w \<and> layout_ok l" and "unat (off :: u32) + unat (fu_access_width_bytes l) \<le> 2 ^ 32"
  then have u: "unat (fu_access_width_bytes l) \<le> 8" using width_cases by blast
  show "\<exists>out w'. access_field_unit store_env (NormalField l r) off OpRead v w = Some (UACPI_STATUS_OK, out, w')
      \<and> (same_but r w0 w' \<and> layout_ok l) \<and> cell_bit r w' = cell_bit r w
      \<and> (\<forall>i < 8 * unat (fu_access_width_bytes l). bit out i = cell_bit r w (8 * unat off + i))"
    using inv u unfolding normal_access by (simp add: store_dispatch_def store_read_bits)
  let ?w = "snd (snd (store_dispatch r off (fu_access_width_bytes l) OpWrite v w))"
  have "same_but r w0 ?w" using inv by (simp add: same_but_def store_dispatch_def)
  moreover have "access_field_unit store_env (NormalField l r) off OpWrite v w = Some (UACPI_STATUS_OK, v, ?w)"
    unfolding normal_access by (simp add: store_dispatch_def)
  ultimately show "\<exists>out w'. access_field_unit store_env (NormalField l r) off OpWrite v w = Some (UACPI_STATUS_OK, out, w')
      \<and> (same_but r w0 w' \<and> layout_ok l)
      \<and> (\<forall>m. cell_bit r w' m = (if 8 * unat off \<le> m \<and> m < 8 * (unat off + unat (fu_access_width_bytes l))
             then bit v (m - 8 * unat off) else cell_bit r w m))"
    using inv store_write_bits [OF u refl, of r off v w] by (intro exI [of _ v] exI [of _ ?w]) simp
qed simp

text \<open>
  C29: a field unit of a region that holds its contents behaves like a slice of its bits. For
  every access width and every position, also across several accesses, writing a field stores the bits of the source,
  padded with zeroes; the other bits of the units it touches are kept, set or cleared as the update rule
  says, and nothing else changes: no other region, and the nesting of the global lock is as before. Reading
  gives the bits of the field, cut or padded to the size of the destination, and changes nothing. No access to a
  buffer is out of bounds.
\<close>

theorem field_unit_bits:
  fixes w :: "'r region_store"
  assumes "layout_ok l" "field_small l" "field_end l \<le> 2 ^ 32" "sz \<le> length src" "dsz \<le> length dst"
  shows "(\<exists>w'. uacpi_write_field_unit store_env (NormalField l r) src sz w = Some (UACPI_STATUS_OK, w') \<and> same_but r w w'
     \<and> (\<forall>m. cell_bit r w' m = (if field_start l \<le> m \<and> m < field_start l + unat (fu_bit_length l)
          then m - field_start l < 8 * sz \<and> buf_bit src (m - field_start l)
          else if 8 * unat (fu_byte_offset l) \<le> m \<and> m < 8 * field_end l then fill (fu_update_rule l) (cell_bit r w m)
          else cell_bit r w m)))
     \<and> (\<exists>d w'. uacpi_read_field_unit store_env (NormalField l r) dst dsz w = Some (UACPI_STATUS_OK, d, w') \<and> same_but r w w'
     \<and> cell_bit r w' = cell_bit r w \<and> length d = length dst
     \<and> (\<forall>m. buf_bit d m = (if m < 8 * dsz then m < unat (fu_bit_length l) \<and> cell_bit r w (field_start l + m) else buf_bit dst m)))"
proof -
  have inv: "same_but r w w \<and> layout_ok l" using assms(1) by (simp add: same_but_def)
  have n: "0 < fu_bit_length l" using assms(2) by (simp add: field_small_def)
  show ?thesis
    using normal.write_field_bits [OF inv assms(1) n refl assms(3,4)] normal.read_field_bits [OF inv assms(1,2) refl assms(3,5)]
    unfolding uacpi_write_field_unit_def uacpi_read_field_unit_def layout.simps by blast
qed

text \<open>
  A field of twenty bits at bit five of a region that is accessed in two-byte units: three bytes are written,
  across two accesses.
\<close>

definition demo_layout :: field_layout where
  "demo_layout = \<lparr>fu_byte_offset = 2, fu_bit_length = 20, fu_bit_offset_within_first_byte = 5, fu_access_width_bytes = 2,
     fu_update_rule = WRITE_AS_ONES, fu_lock_rule = True\<rparr>"

theorem field_unit_bits_witness:
  "(\<exists>w'. uacpi_write_field_unit store_env (NormalField demo_layout ()) [0xAB, 0xCD, 0x0E] 3 \<lparr>cells = (\<lambda>_ _. 0), lock_depth = 0\<rparr>
       = Some (UACPI_STATUS_OK, w') \<and> lock_depth w' = 0 \<and> cell_bit () w' 21 \<and> cell_bit () w' 16 \<and> \<not> cell_bit () w' 48)
   \<and> field_end demo_layout = 6"
proof -
  have e: "field_end demo_layout = 6" by (simp add: demo_layout_def field_end_def windows_def)
  have "layout_ok demo_layout" "field_small demo_layout"
    by (simp_all add: demo_layout_def layout_ok_def field_small_def)
  then obtain w' where w: "uacpi_write_field_unit store_env (NormalField demo_layout ()) [0xAB, 0xCD, 0x0E] 3
        \<lparr>cells = (\<lambda>_ _. 0), lock_depth = 0\<rparr> = Some (UACPI_STATUS_OK, w')"
      "same_but () \<lparr>cells = (\<lambda>_ _. 0), lock_depth = 0\<rparr> w'"
      "\<forall>m. cell_bit () w' m = (if field_start demo_layout \<le> m \<and> m < field_start demo_layout + unat (fu_bit_length demo_layout)
          then m - field_start demo_layout < 8 * 3 \<and> buf_bit [0xAB, 0xCD, 0x0E] (m - field_start demo_layout)
          else if 8 * unat (fu_byte_offset demo_layout) \<le> m \<and> m < 8 * field_end demo_layout
          then fill (fu_update_rule demo_layout) (cell_bit () \<lparr>cells = (\<lambda>_ _. 0), lock_depth = 0\<rparr> m)
          else cell_bit () \<lparr>cells = (\<lambda>_ _. 0), lock_depth = 0\<rparr> m)"
    using field_unit_bits [of demo_layout 3 "[0xAB, 0xCD, 0x0E]" 0 "[]" "()" "\<lparr>cells = (\<lambda>_ _. 0), lock_depth = 0\<rparr>"] e by auto
  have l: "field_start demo_layout = 21" "unat (fu_bit_length demo_layout) = 20" "unat (fu_byte_offset demo_layout) = 2"
    "fu_update_rule demo_layout = WRITE_AS_ONES" by (simp_all add: demo_layout_def field_start_def)
  have "cell_bit () w' 21" "cell_bit () w' 16" "\<not> cell_bit () w' 48"
    using spec [OF w(3), of 21] spec [OF w(3), of 16] spec [OF w(3), of 48] unfolding l e
    by (simp_all add: buf_bit_def cell_bit_def bit_0)
  then show ?thesis using w(1,2) e by (auto simp: same_but_def)
qed

end
