(* ===== verification/UacpiRegisters.thy ===== *)
theory UacpiRegisters
  imports UacpiOsi
begin

text \<open>
  The fixed registers of ACPI, \<^verbatim>\<open>src/uacpi/registers.c\<close>: the tables of registers and fields
  and reading and writing them. A register is made of up to two blocks. Access to a block
  (\<open>uacpi_gas_read\<close>, \<open>uacpi_system_io_read\<close> and their writing counterparts) is a parameter: a
  reading function on the state of the hardware and a writing function that changes it, each with a
  status. The addresses of the blocks decide whether a block exists.
\<close>

section \<open>Registers\<close>

datatype register_kind = REGISTER_KIND_GAS | REGISTER_KIND_IO

datatype register_access_kind =
  REGISTER_ACCESS_KIND_PRESERVE | REGISTER_ACCESS_KIND_WRITE_TO_CLEAR | REGISTER_ACCESS_KIND_NORMAL

text \<open>The values of the enumerators, as C compares them.\<close>

fun kind_value :: "register_kind \<Rightarrow> nat" where
  "kind_value REGISTER_KIND_GAS = 0"
| "kind_value REGISTER_KIND_IO = 1"

fun access_kind_value :: "register_access_kind \<Rightarrow> nat" where
  "access_kind_value REGISTER_ACCESS_KIND_PRESERVE = 0"
| "access_kind_value REGISTER_ACCESS_KIND_WRITE_TO_CLEAR = 1"
| "access_kind_value REGISTER_ACCESS_KIND_NORMAL = 2"

text \<open>The blocks that the accessors of the table point to.\<close>

datatype block = Pm1aStatus | Pm1bStatus | Pm1aEnable | Pm1bEnable | Pm1aCnt | Pm1bCnt | PmTmr | Pm2Cnt
  | SleepControl | SleepStatus | ResetReg | SmiCmd

record register_spec =
  rs_kind :: register_kind
  rs_access_kind :: register_access_kind
  rs_access_width :: u8
  rs_accessor0 :: block
  rs_accessor1 :: "block option"
  rs_write_only_mask :: u64
  rs_preserve_mask :: u64

definition ACPI_PM1_STS_IGN0_MASK :: u64 where "ACPI_PM1_STS_IGN0_MASK = 0x800"
definition ACPI_PM1_CNT_SLP_EN_MASK :: u64 where "ACPI_PM1_CNT_SLP_EN_MASK = 0x2000"
definition ACPI_PM1_CNT_GBL_RLS_MASK :: u64 where "ACPI_PM1_CNT_GBL_RLS_MASK = 0x4"
definition ACPI_PM1_CNT_PRESERVE_MASK :: u64 where
  "ACPI_PM1_CNT_PRESERVE_MASK = 0x8 OR 0x10 OR 0x20 OR 0x40 OR 0x80 OR 0x100 OR 0x200 OR 0x4000 OR 0x8000"
definition ACPI_PM2_CNT_PRESERVE_MASK :: u64 where "ACPI_PM2_CNT_PRESERVE_MASK = NOT 0x1"
definition ACPI_SLP_CNT_SLP_EN_MASK :: u64 where "ACPI_SLP_CNT_SLP_EN_MASK = 0x20"
definition ACPI_SLP_CNT_PRESERVE_MASK :: u64 where "ACPI_SLP_CNT_PRESERVE_MASK = 0x1 OR 0x2 OR 0x40 OR 0x80"
definition ACPI_SLP_STS_PRESERVE_MASK :: u64 where "ACPI_SLP_STS_PRESERVE_MASK = NOT 0x80"

lemmas register_masks = ACPI_PM1_STS_IGN0_MASK_def ACPI_PM1_CNT_SLP_EN_MASK_def ACPI_PM1_CNT_GBL_RLS_MASK_def
  ACPI_PM1_CNT_PRESERVE_MASK_def ACPI_PM2_CNT_PRESERVE_MASK_def ACPI_SLP_CNT_SLP_EN_MASK_def
  ACPI_SLP_CNT_PRESERVE_MASK_def ACPI_SLP_STS_PRESERVE_MASK_def

text \<open>Members that an initialiser of the table leaves out are zero.\<close>

definition gas_register :: "register_access_kind \<Rightarrow> block \<Rightarrow> block option \<Rightarrow> u64 \<Rightarrow> u64 \<Rightarrow> register_spec" where
  "gas_register access_kind a b write_only preserve = \<lparr>rs_kind = REGISTER_KIND_GAS, rs_access_kind = access_kind,
     rs_access_width = 0, rs_accessor0 = a, rs_accessor1 = b, rs_write_only_mask = write_only, rs_preserve_mask = preserve\<rparr>"

definition registers :: "register_spec list" where
  "registers =
    [gas_register REGISTER_ACCESS_KIND_WRITE_TO_CLEAR Pm1aStatus (Some Pm1bStatus) 0 ACPI_PM1_STS_IGN0_MASK,
     gas_register REGISTER_ACCESS_KIND_PRESERVE Pm1aEnable (Some Pm1bEnable) 0 0,
     gas_register REGISTER_ACCESS_KIND_PRESERVE Pm1aCnt (Some Pm1bCnt)
       (ACPI_PM1_CNT_SLP_EN_MASK OR ACPI_PM1_CNT_GBL_RLS_MASK) ACPI_PM1_CNT_PRESERVE_MASK,
     gas_register REGISTER_ACCESS_KIND_PRESERVE PmTmr None 0 0,
     gas_register REGISTER_ACCESS_KIND_PRESERVE Pm2Cnt None 0 ACPI_PM2_CNT_PRESERVE_MASK,
     gas_register REGISTER_ACCESS_KIND_PRESERVE SleepControl None ACPI_SLP_CNT_SLP_EN_MASK ACPI_SLP_CNT_PRESERVE_MASK,
     gas_register REGISTER_ACCESS_KIND_WRITE_TO_CLEAR SleepStatus None 0 ACPI_SLP_STS_PRESERVE_MASK,
     gas_register REGISTER_ACCESS_KIND_NORMAL ResetReg None 0 0,
     \<lparr>rs_kind = REGISTER_KIND_IO, rs_access_kind = REGISTER_ACCESS_KIND_NORMAL, rs_access_width = 1,
      rs_accessor0 = SmiCmd, rs_accessor1 = None, rs_write_only_mask = 0, rs_preserve_mask = 0\<rparr>]"

definition UACPI_REGISTER_PM1_STS :: nat where "UACPI_REGISTER_PM1_STS = 0"
definition UACPI_REGISTER_PM1_EN :: nat where "UACPI_REGISTER_PM1_EN = 1"
definition UACPI_REGISTER_PM1_CNT :: nat where "UACPI_REGISTER_PM1_CNT = 2"
definition UACPI_REGISTER_PM2_CNT :: nat where "UACPI_REGISTER_PM2_CNT = 4"
definition UACPI_REGISTER_SLP_CNT :: nat where "UACPI_REGISTER_SLP_CNT = 5"
definition UACPI_REGISTER_SLP_STS :: nat where "UACPI_REGISTER_SLP_STS = 6"
definition UACPI_REGISTER_MAX :: nat where "UACPI_REGISTER_MAX = 8"

lemmas register_indices = UACPI_REGISTER_PM1_STS_def UACPI_REGISTER_PM1_EN_def UACPI_REGISTER_PM1_CNT_def
  UACPI_REGISTER_PM2_CNT_def UACPI_REGISTER_SLP_CNT_def UACPI_REGISTER_SLP_STS_def UACPI_REGISTER_MAX_def

text \<open>The index is an eight-bit parameter: an enumerator is truncated when it is passed.\<close>

definition get_reg :: "nat \<Rightarrow> register_spec option" where
  "get_reg idx = (if idx mod 256 > UACPI_REGISTER_MAX then None else Some (registers ! (idx mod 256)))"

section \<open>Access\<close>

text \<open>
  The hardware: whether a block has an address, reading it and writing it. Reading gives a status and a
  value; both may change the state.
\<close>

record 'h reg_hw =
  block_present :: "block \<Rightarrow> bool"
  block_read :: "block \<Rightarrow> 'h \<Rightarrow> uacpi_status \<times> u64 \<times> 'h"
  block_write :: "block \<Rightarrow> u64 \<Rightarrow> 'h \<Rightarrow> uacpi_status \<times> 'h"

text \<open>A block without an address reads as success and leaves the variable of the caller as it was, \<open>old\<close>.\<close>

definition read_block :: "'h reg_hw \<Rightarrow> register_kind \<Rightarrow> block \<Rightarrow> u64 \<Rightarrow> 'h \<Rightarrow> uacpi_status \<times> u64 \<times> 'h" where
  "read_block hw kind b old h =
     (if kind = REGISTER_KIND_GAS \<and> \<not> block_present hw b then (UACPI_STATUS_OK, old, h) else block_read hw b h)"

definition write_block :: "'h reg_hw \<Rightarrow> register_kind \<Rightarrow> block \<Rightarrow> u64 \<Rightarrow> 'h \<Rightarrow> uacpi_status \<times> 'h" where
  "write_block hw kind b in_value h =
     (if kind = REGISTER_KIND_GAS \<and> \<not> block_present hw b then (UACPI_STATUS_OK, h) else block_write hw b in_value h)"

text \<open>\<open>junk\<close> is the content of the uninitialised variable \<open>value0\<close>.\<close>

definition do_read_register :: "'h reg_hw \<Rightarrow> u64 \<Rightarrow> register_spec \<Rightarrow> 'h \<Rightarrow> uacpi_status \<times> u64 \<times> 'h" where
  "do_read_register hw junk reg h =
     (case read_block hw (rs_kind reg) (rs_accessor0 reg) junk h of (ret, value0, h1) \<Rightarrow>
        if ret \<noteq> UACPI_STATUS_OK then (ret, 0, h1)
        else case (case rs_accessor1 reg of
                     None \<Rightarrow> (UACPI_STATUS_OK, 0, h1)
                   | Some b \<Rightarrow> read_block hw (rs_kind reg) b 0 h1) of (ret, value1, h2) \<Rightarrow>
          if ret \<noteq> UACPI_STATUS_OK then (ret, 0, h2)
          else let out = value0 OR value1
               in (UACPI_STATUS_OK, if rs_write_only_mask reg \<noteq> 0 then out AND NOT (rs_write_only_mask reg) else out, h2))"

definition uacpi_read_register :: "'h reg_hw \<Rightarrow> u64 \<Rightarrow> nat \<Rightarrow> 'h \<Rightarrow> uacpi_status \<times> u64 \<times> 'h" where
  "uacpi_read_register hw junk reg_enum h = (case get_reg reg_enum of
     None \<Rightarrow> (UACPI_STATUS_INVALID_ARGUMENT, 0, h) | Some reg \<Rightarrow> do_read_register hw junk reg h)"

definition write_blocks :: "'h reg_hw \<Rightarrow> register_spec \<Rightarrow> u64 \<Rightarrow> u64 \<Rightarrow> 'h \<Rightarrow> uacpi_status \<times> 'h" where
  "write_blocks hw reg value0 value1 h =
     (case write_block hw (rs_kind reg) (rs_accessor0 reg) value0 h of (ret, h1) \<Rightarrow>
        if ret \<noteq> UACPI_STATUS_OK then (ret, h1)
        else case rs_accessor1 reg of None \<Rightarrow> (ret, h1) | Some b \<Rightarrow> write_block hw (rs_kind reg) b value1 h1)"

definition do_write_register :: "'h reg_hw \<Rightarrow> u64 \<Rightarrow> register_spec \<Rightarrow> u64 \<Rightarrow> 'h \<Rightarrow> uacpi_status \<times> 'h" where
  "do_write_register hw junk reg in_value h =
     (if rs_preserve_mask reg = 0 then write_blocks hw reg in_value in_value h
      else let masked = in_value AND NOT (rs_preserve_mask reg) in
        if rs_access_kind reg = REGISTER_ACCESS_KIND_PRESERVE then
          (case do_read_register hw junk reg h of (ret, data, h1) \<Rightarrow>
             if ret \<noteq> UACPI_STATUS_OK then (ret, h1)
             else let v = masked OR (data AND rs_preserve_mask reg) in write_blocks hw reg v v h1)
        else write_blocks hw reg masked masked h)"

definition uacpi_write_register :: "'h reg_hw \<Rightarrow> u64 \<Rightarrow> nat \<Rightarrow> u64 \<Rightarrow> 'h \<Rightarrow> uacpi_status \<times> 'h" where
  "uacpi_write_register hw junk reg_enum in_value h = (case get_reg reg_enum of
     None \<Rightarrow> (UACPI_STATUS_INVALID_ARGUMENT, h) | Some reg \<Rightarrow> do_write_register hw junk reg in_value h)"

definition uacpi_write_registers :: "'h reg_hw \<Rightarrow> nat \<Rightarrow> u64 \<Rightarrow> u64 \<Rightarrow> 'h \<Rightarrow> uacpi_status \<times> 'h" where
  "uacpi_write_registers hw reg_enum in_value0 in_value1 h = (case get_reg reg_enum of
     None \<Rightarrow> (UACPI_STATUS_INVALID_ARGUMENT, h) | Some reg \<Rightarrow> write_blocks hw reg in_value0 in_value1 h)"

section \<open>Fields\<close>

record register_field =
  rf_reg :: nat
  rf_offset :: nat
  rf_mask :: u64

definition bit_field :: "nat \<Rightarrow> nat \<Rightarrow> register_field" where
  "bit_field reg idx = \<lparr>rf_reg = reg, rf_offset = idx, rf_mask = push_bit idx 1\<rparr>"

text \<open>The sleep type has three bits (\<open>ACPI_SLP_TYP_MAX\<close> is 7). The order is that of the enumerators.\<close>

definition fields :: "register_field list" where
  "fields =
    [bit_field UACPI_REGISTER_PM1_STS 0, bit_field UACPI_REGISTER_PM1_STS 4, bit_field UACPI_REGISTER_PM1_STS 5,
     bit_field UACPI_REGISTER_PM1_STS 8, bit_field UACPI_REGISTER_PM1_STS 9, bit_field UACPI_REGISTER_PM1_STS 10,
     bit_field UACPI_REGISTER_PM1_STS 14, bit_field UACPI_REGISTER_SLP_STS 7, bit_field UACPI_REGISTER_PM1_STS 15,
     bit_field UACPI_REGISTER_PM1_EN 0, bit_field UACPI_REGISTER_PM1_EN 5, bit_field UACPI_REGISTER_PM1_EN 8,
     bit_field UACPI_REGISTER_PM1_EN 9, bit_field UACPI_REGISTER_PM1_EN 10, bit_field UACPI_REGISTER_PM1_EN 14,
     bit_field UACPI_REGISTER_PM1_CNT 0, bit_field UACPI_REGISTER_PM1_CNT 1, bit_field UACPI_REGISTER_PM1_CNT 2,
     \<lparr>rf_reg = UACPI_REGISTER_PM1_CNT, rf_offset = 10, rf_mask = push_bit 10 7\<rparr>,
     \<lparr>rf_reg = UACPI_REGISTER_SLP_CNT, rf_offset = 2, rf_mask = push_bit 2 7\<rparr>,
     bit_field UACPI_REGISTER_PM1_CNT 13, bit_field UACPI_REGISTER_SLP_CNT 5, bit_field UACPI_REGISTER_PM2_CNT 0]"

definition UACPI_REGISTER_FIELD_MAX :: nat where "UACPI_REGISTER_FIELD_MAX = 22"

definition uacpi_read_register_field :: "'h reg_hw \<Rightarrow> u64 \<Rightarrow> nat \<Rightarrow> 'h \<Rightarrow> uacpi_status \<times> u64 \<times> 'h" where
  "uacpi_read_register_field hw junk field_enum h = (let field_idx = field_enum mod 256 in
      if field_idx > UACPI_REGISTER_FIELD_MAX then (UACPI_STATUS_INVALID_ARGUMENT, 0, h)
      else let field = fields ! field_idx; reg = registers ! rf_reg field in
        case do_read_register hw junk reg h of (ret, v, h1) \<Rightarrow>
          if ret \<noteq> UACPI_STATUS_OK then (ret, v, h1)
          else (UACPI_STATUS_OK, drop_bit (rf_offset field) (v AND rf_mask field), h1))"

text \<open>
  The comparison below is the one of the code: the kind of the register, not its access kind, with
  the enumerator of an access kind. The spinlock around the accesses has no effect on one thread.
\<close>

definition uacpi_write_register_field :: "'h reg_hw \<Rightarrow> u64 \<Rightarrow> nat \<Rightarrow> u64 \<Rightarrow> 'h \<Rightarrow> uacpi_status \<times> 'h" where
  "uacpi_write_register_field hw junk field_enum in_value h = (let field_idx = field_enum mod 256 in
      if field_idx > UACPI_REGISTER_FIELD_MAX then (UACPI_STATUS_INVALID_ARGUMENT, h)
      else let field = fields ! field_idx; reg = registers ! rf_reg field;
               v = push_bit (rf_offset field) in_value AND rf_mask field in
        if kind_value (rs_kind reg) = access_kind_value REGISTER_ACCESS_KIND_WRITE_TO_CLEAR then
          if v = 0 then (UACPI_STATUS_OK, h) else do_write_register hw junk reg v h
        else case do_read_register hw junk reg h of (ret, data, h1) \<Rightarrow>
          if ret \<noteq> UACPI_STATUS_OK then (ret, h1)
          else do_write_register hw junk reg ((data AND NOT (rf_mask field)) OR v) h1)"

text \<open>The lock that serialises writes: whether it exists.\<close>

definition uacpi_ininitialize_registers :: "bool \<Rightarrow> uacpi_status \<times> bool" where
  "uacpi_ininitialize_registers created = (if \<not> created then (UACPI_STATUS_OUT_OF_MEMORY, False) else (UACPI_STATUS_OK, True))"

definition uacpi_deininitialize_registers :: "bool \<Rightarrow> bool" where
  "uacpi_deininitialize_registers reg_lock = (if reg_lock then False else reg_lock)"

section \<open>Two kinds of hardware\<close>

text \<open>
  Storage: a write replaces the contents. Status registers, as the ACPI specification describes them: a
  write clears the bits that are written as one. \<open>avail\<close> tells which blocks exist.
\<close>

definition storage_hw :: "(block \<Rightarrow> bool) \<Rightarrow> (block \<Rightarrow> u64) reg_hw" where
  "storage_hw avail = \<lparr>block_present = avail, block_read = (\<lambda>b h. (UACPI_STATUS_OK, h b, h)),
     block_write = (\<lambda>b v h. (UACPI_STATUS_OK, h(b := v)))\<rparr>"

definition status_hw :: "(block \<Rightarrow> bool) \<Rightarrow> (block \<Rightarrow> u64) reg_hw" where
  "status_hw avail = \<lparr>block_present = avail, block_read = (\<lambda>b h. (UACPI_STATUS_OK, h b, h)),
     block_write = (\<lambda>b v h. (UACPI_STATUS_OK, h(b := h b AND NOT v)))\<rparr>"

definition status_fields :: "nat list" where "status_fields = [0, 1, 2, 3, 4, 5, 6, 8]"

lemma status_field: "i \<in> set status_fields \<Longrightarrow>
    fields ! i = bit_field UACPI_REGISTER_PM1_STS (rf_offset (fields ! i)) \<and> rf_offset (fields ! i) < 16
    \<and> rf_offset (fields ! i) \<noteq> 11 \<and> i \<le> UACPI_REGISTER_FIELD_MAX"
  by (auto simp: status_fields_def fields_def bit_field_def UACPI_REGISTER_FIELD_MAX_def)

text \<open>
  C27: acknowledging one event discards all the others. A status field is written to clear its
  event. Because the test for registers of this type looks at the wrong member, the field is written
  like any other one: the register is read, and everything that was read is written back. On
  hardware where writing a one clears the bit, this clears every pending bit of both status blocks but the
  reserved bit 11; writing a zero, which should do nothing, clears all events but the field's own.
\<close>

theorem status_write_clears_others:
  assumes "i \<in> set status_fields" "avail Pm1aStatus" "avail Pm1bStatus"
  shows "\<exists>h'. uacpi_write_register_field (status_hw avail) junk i in_value h = (UACPI_STATUS_OK, h')
     \<and> (\<forall>b \<in> {Pm1aStatus, Pm1bStatus}. \<forall>n.
          bit (h' b) n \<longleftrightarrow> bit (h b) n \<and> (n = 11 \<or> n = rf_offset (fields ! i) \<and> \<not> bit in_value 0))"
proof -
  define k where "k = rf_offset (fields ! i)"
  have f: "fields ! i = bit_field 0 k" "k < 16" "k \<noteq> 11" "\<not> UACPI_REGISTER_FIELD_MAX < i" "i mod 256 = i"
    using status_field [OF assms(1)] by (auto simp: k_def UACPI_REGISTER_PM1_STS_def UACPI_REGISTER_FIELD_MAX_def)
  define reg where "reg = gas_register REGISTER_ACCESS_KIND_WRITE_TO_CLEAR Pm1aStatus (Some Pm1bStatus) 0 ACPI_PM1_STS_IGN0_MASK"
  have reg: "registers ! 0 = reg" by (simp add: registers_def reg_def)
  define pending where "pending = h Pm1aStatus OR h Pm1bStatus"
  define v where "v = ((pending AND NOT (push_bit k 1)) OR (push_bit k in_value AND push_bit k 1)) AND NOT ACPI_PM1_STS_IGN0_MASK"
  have rd: "do_read_register (status_hw avail) junk reg h = (UACPI_STATUS_OK, pending, h)"
    using assms(2,3) by (simp add: do_read_register_def read_block_def reg_def gas_register_def status_hw_def pending_def Let_def)
  have wr: "do_write_register (status_hw avail) junk reg x h
      = (UACPI_STATUS_OK, h(Pm1aStatus := h Pm1aStatus AND NOT (x AND NOT ACPI_PM1_STS_IGN0_MASK),
                            Pm1bStatus := h Pm1bStatus AND NOT (x AND NOT ACPI_PM1_STS_IGN0_MASK)))" for x
    using assms(2,3) by (simp add: do_write_register_def write_blocks_def write_block_def reg_def gas_register_def status_hw_def
        Let_def register_masks)
  have res: "uacpi_write_register_field (status_hw avail) junk i in_value h
      = (UACPI_STATUS_OK, h(Pm1aStatus := h Pm1aStatus AND NOT v, Pm1bStatus := h Pm1bStatus AND NOT v))"
    using f reg rd wr by (simp add: uacpi_write_register_field_def Let_def bit_field_def v_def reg_def [symmetric])
      (simp add: reg_def gas_register_def)
  have bits: "bit v n \<longleftrightarrow> n \<noteq> 11 \<and> (if n = k then bit in_value 0 else bit pending n)" if "n < 64" for n
  proof -
    have "bit (0x800 :: u64) n \<longleftrightarrow> n = 11"
      using bit_push_bit_iff [of 11 "1 :: u64" n] that by (auto simp: bit_1_iff)
    then show ?thesis using that f(2)
      unfolding v_def ACPI_PM1_STS_IGN0_MASK_def by (auto simp: bit_simps bit_1_iff)
  qed
  have "bit (h b AND NOT v) n \<longleftrightarrow> bit (h b) n \<and> (n = 11 \<or> n = k \<and> \<not> bit in_value 0)"
    if "b \<in> {Pm1aStatus, Pm1bStatus}" for b n
  proof (cases "n < 64")
    case True
    have "bit (h b) n \<Longrightarrow> bit pending n" using that by (auto simp: pending_def bit_simps)
    then show ?thesis using True bits [OF True] f(3) by (auto simp: bit_simps)
  next
    case False
    then have "\<not> bit (h b) n" using bit_imp_le_length [of "h b" n] by auto
    then show ?thesis by (simp add: bit_simps)
  qed
  then show ?thesis unfolding res by (auto simp: k_def)
qed

text \<open>The timer event is acknowledged while the power button event is pending in the same block.\<close>

theorem status_write_clears_others_witness:
  "\<exists>h'. uacpi_write_register_field (status_hw (\<lambda>_. True)) 0 0 1 (\<lambda>_. 0x101) = (UACPI_STATUS_OK, h')
     \<and> \<not> bit (h' Pm1aStatus) 8 \<and> bit (0x101 :: u64) 8"
proof -
  have "(0::nat) \<in> set status_fields" by (simp add: status_fields_def)
  then obtain h' where "uacpi_write_register_field (status_hw (\<lambda>_. True)) 0 0 1 (\<lambda>_. 0x101) = (UACPI_STATUS_OK, h')"
    and b: "\<forall>b \<in> {Pm1aStatus, Pm1bStatus}. \<forall>n. bit (h' b) n \<longleftrightarrow>
      bit (0x101 :: u64) n \<and> (n = 11 \<or> n = rf_offset (fields ! 0) \<and> \<not> bit (1 :: u64) 0)"
    using status_write_clears_others [of 0 "\<lambda>_. True" 0 1 "\<lambda>_. 0x101"] by blast
  moreover have "\<not> bit (h' Pm1aStatus) 8" using b by (simp add: fields_def bit_field_def)
  moreover have "bit (0x101 :: u64) 8" by (simp add: bit_iff_odd)
  ultimately show ?thesis by blast
qed

section \<open>Fields of registers that store\<close>

definition register_blocks :: "register_spec \<Rightarrow> block list" where
  "register_blocks reg = rs_accessor0 reg # (case rs_accessor1 reg of None \<Rightarrow> [] | Some b \<Rightarrow> [b])"

text \<open>What a register reads as: both blocks together, as far as they are present, without the write-only bits.\<close>

definition register_value :: "'h reg_hw \<Rightarrow> ('h \<Rightarrow> block \<Rightarrow> u64) \<Rightarrow> register_spec \<Rightarrow> 'h \<Rightarrow> u64" where
  "register_value hw content reg h = (content h (rs_accessor0 reg) OR (case rs_accessor1 reg of
     None \<Rightarrow> 0 | Some b \<Rightarrow> if block_present hw b then content h b else 0)) AND NOT (rs_write_only_mask reg)"

text \<open>
  What the fields rely on: hardware on which a block that is present can be read without an effect and keeps what is written to it, as far as its width
  goes. \<open>content h b\<close> is what block \<open>b\<close> holds. Status registers and timers are not of this kind.
\<close>

locale register_storage =
  fixes hw :: "'h reg_hw" and content :: "'h \<Rightarrow> block \<Rightarrow> u64" and width :: "block \<Rightarrow> nat"
  assumes read_stored: "block_present hw b \<Longrightarrow> block_read hw b h = (UACPI_STATUS_OK, content h b, h)"
    and write_stored: "block_present hw b \<Longrightarrow> \<exists>h'. block_write hw b v h = (UACPI_STATUS_OK, h') \<and> content h' = (content h)(b := take_bit (width b) v)"
begin

lemma read_register:
  assumes "block_present hw (rs_accessor0 reg)" "rs_kind reg = REGISTER_KIND_GAS"
  shows "do_read_register hw junk reg h = (UACPI_STATUS_OK, register_value hw content reg h, h)"
  using assms by (auto simp: do_read_register_def read_block_def read_stored register_value_def Let_def split: option.split)

lemma write_both:
  assumes "block_present hw (rs_accessor0 reg)" "rs_kind reg = REGISTER_KIND_GAS"
  shows "\<exists>h'. write_blocks hw reg v v h = (UACPI_STATUS_OK, h')
     \<and> (\<forall>b. content h' b = (if b \<in> set (register_blocks reg) \<and> block_present hw b then take_bit (width b) v else content h b))"
proof -
  obtain h1 where h1: "block_write hw (rs_accessor0 reg) v h = (UACPI_STATUS_OK, h1)"
      "content h1 = (content h)(rs_accessor0 reg := take_bit (width (rs_accessor0 reg)) v)"
    using write_stored [OF assms(1)] by blast
  show ?thesis
  proof (cases "\<exists>b. rs_accessor1 reg = Some b \<and> block_present hw b")
    case True
    then obtain b where b: "rs_accessor1 reg = Some b" "block_present hw b" by blast
    obtain h2 where "block_write hw b v h1 = (UACPI_STATUS_OK, h2)" "content h2 = (content h1)(b := take_bit (width b) v)"
      using write_stored [OF b(2)] by blast
    then show ?thesis using h1 b assms by (auto simp: write_blocks_def write_block_def register_blocks_def)
  next
    case False
    then show ?thesis using h1 assms by (auto simp: write_blocks_def write_block_def register_blocks_def split: option.split)
  qed
qed

lemma write_preserving:
  assumes "block_present hw (rs_accessor0 reg)" "rs_kind reg = REGISTER_KIND_GAS" "rs_access_kind reg = REGISTER_ACCESS_KIND_PRESERVE"
  shows "\<exists>h'. do_write_register hw junk reg x h = (UACPI_STATUS_OK, h') \<and> (\<forall>b. content h' b =
     (if b \<in> set (register_blocks reg) \<and> block_present hw b
      then take_bit (width b) ((x AND NOT (rs_preserve_mask reg)) OR (register_value hw content reg h AND rs_preserve_mask reg)) else content h b))"
  using write_both [OF assms(1,2), of x h] write_both [OF assms(1,2), of "(x AND NOT (rs_preserve_mask reg)) OR (register_value hw content reg h AND rs_preserve_mask reg)" h]
  by (cases "rs_preserve_mask reg = 0") (simp_all add: do_write_register_def read_register [OF assms(1,2)] assms(3) Let_def)

end

text \<open>Storage as such, with registers of any presence.\<close>

interpretation storage: register_storage "storage_hw avail" "\<lambda>h. h" "\<lambda>_. 64" for avail
  by unfold_locales (auto simp: storage_hw_def)

text \<open>The fields of registers that are written with the rest of their contents preserved, and those among them that cannot be read.\<close>

definition write_only_fields :: "nat set" where "write_only_fields = {17, 20, 21}"

lemma field_facts:
  assumes "9 \<le> i" "i \<le> 22"
  shows "rs_kind (registers ! rf_reg (fields ! i)) = REGISTER_KIND_GAS"
    "rs_access_kind (registers ! rf_reg (fields ! i)) = REGISTER_ACCESS_KIND_PRESERVE" "rf_offset (fields ! i) < 16"
    "rf_mask (fields ! i) AND rs_preserve_mask (registers ! rf_reg (fields ! i)) = 0"
    "i \<in> write_only_fields \<Longrightarrow> rf_mask (fields ! i) AND rs_write_only_mask (registers ! rf_reg (fields ! i)) = rf_mask (fields ! i)"
    "i \<notin> write_only_fields \<Longrightarrow> rf_mask (fields ! i) AND rs_write_only_mask (registers ! rf_reg (fields ! i)) = 0"
proof -
  have "\<forall>i \<in> set [9..<23]. let f = fields ! i; reg = registers ! rf_reg f in rs_kind reg = REGISTER_KIND_GAS
      \<and> rs_access_kind reg = REGISTER_ACCESS_KIND_PRESERVE \<and> rf_offset f < 16 \<and> rf_mask f AND rs_preserve_mask reg = 0
      \<and> rf_mask f AND rs_write_only_mask reg = (if i \<in> write_only_fields then rf_mask f else 0)"
    by (simp add: upt_rec Let_def fields_def registers_def bit_field_def gas_register_def register_masks register_indices write_only_fields_def)
  moreover have "i \<in> set [9..<23]" unfolding set_upt using assms by simp
  ultimately show "rs_kind (registers ! rf_reg (fields ! i)) = REGISTER_KIND_GAS"
    "rs_access_kind (registers ! rf_reg (fields ! i)) = REGISTER_ACCESS_KIND_PRESERVE" "rf_offset (fields ! i) < 16"
    "rf_mask (fields ! i) AND rs_preserve_mask (registers ! rf_reg (fields ! i)) = 0"
    "i \<in> write_only_fields \<Longrightarrow> rf_mask (fields ! i) AND rs_write_only_mask (registers ! rf_reg (fields ! i)) = rf_mask (fields ! i)"
    "i \<notin> write_only_fields \<Longrightarrow> rf_mask (fields ! i) AND rs_write_only_mask (registers ! rf_reg (fields ! i)) = 0"
    unfolding Let_def by auto
qed

lemma merge_bits:
  fixes m p d v :: u64
  assumes "m AND p = 0" "v = v AND m"
  shows "(((d AND NOT m) OR v) AND NOT p) OR (d AND p) = (d AND NOT m) OR v"
proof (rule bit_eqI)
  fix n
  have "\<not> (bit m n \<and> bit p n)" "bit v n \<longrightarrow> bit m n"
    using arg_cong [OF assms(1), of "\<lambda>x. bit x n"] arg_cong [OF assms(2), of "\<lambda>x. bit x n"] by (auto simp: bit_simps)
  then show "bit ((((d AND NOT m) OR v) AND NOT p) OR (d AND p)) n = bit ((d AND NOT m) OR v) n"
    if "possible_bit TYPE(u64) n" using that by (auto simp: bit_simps)
qed



end
