(* ===== verification/UacpiUtil.thy ===== *)
theory UacpiUtil
  imports UacpiKernel
begin

text \<open>
  The self-contained part of \<^verbatim>\<open>src/uacpi/utilities.c\<close>: EISA identifiers, the table of
  character classes, the validity of name segments, and the parser of integers. A C string is
  a list of characters; the end of the list reads as the terminating zero.
\<close>

section \<open>EISA identifiers\<close>

definition hex_to_ascii :: string where
  "hex_to_ascii = ''0123456789ABCDEF''"

definition swap_bytes :: "u32 \<Rightarrow> u32" where
  "swap_bytes eid = push_bit 24 (eid AND 0xFF) OR push_bit 16 (drop_bit 8 eid AND 0xFF)
     OR push_bit 8 (drop_bit 16 eid AND 0xFF) OR (drop_bit 24 eid AND 0xFF)"

text \<open>The eight characters written to \<open>out_string\<close>.\<close>

definition uacpi_eisa_id_to_string :: "u32 \<Rightarrow> string" where
  "uacpi_eisa_id_to_string eid = (let swapped = swap_bytes eid;
     letter = (\<lambda>n. char_of (0x40 + unat (drop_bit n swapped AND 0x1F)));
     digit = (\<lambda>n. hex_to_ascii ! unat (drop_bit n swapped AND 0x0F))
     in [letter 26, letter 21, letter 16, digit 12, digit 8, digit 4, digit 0, CHR 0x00])"

section \<open>Character classes\<close>

definition CHAR_TYPE_CONTROL :: u8 where "CHAR_TYPE_CONTROL = 1"
definition CHAR_TYPE_SPACE :: u8 where "CHAR_TYPE_SPACE = 2"
definition CHAR_TYPE_BLANK :: u8 where "CHAR_TYPE_BLANK = 4"
definition CHAR_TYPE_PUNCTUATION :: u8 where "CHAR_TYPE_PUNCTUATION = 8"
definition CHAR_TYPE_LOWER :: u8 where "CHAR_TYPE_LOWER = 16"
definition CHAR_TYPE_UPPER :: u8 where "CHAR_TYPE_UPPER = 32"
definition CHAR_TYPE_DIGIT :: u8 where "CHAR_TYPE_DIGIT = 64"
definition CHAR_TYPE_HEX_DIGIT :: u8 where "CHAR_TYPE_HEX_DIGIT = 128"
definition CHAR_TYPE_ALPHA :: u8 where "CHAR_TYPE_ALPHA = CHAR_TYPE_LOWER OR CHAR_TYPE_UPPER"
definition CHAR_TYPE_ALHEX :: u8 where "CHAR_TYPE_ALHEX = CHAR_TYPE_ALPHA OR CHAR_TYPE_HEX_DIGIT"

lemmas char_types = CHAR_TYPE_CONTROL_def CHAR_TYPE_SPACE_def CHAR_TYPE_BLANK_def CHAR_TYPE_PUNCTUATION_def
  CHAR_TYPE_LOWER_def CHAR_TYPE_UPPER_def CHAR_TYPE_DIGIT_def CHAR_TYPE_HEX_DIGIT_def CHAR_TYPE_ALPHA_def
  CHAR_TYPE_ALHEX_def

text \<open>Runs of equal elements of the array are written \<open>replicate\<close>; the last 128 are implicitly zero.\<close>

definition ascii_map :: "u8 list" where
  "ascii_map =
     replicate 9 CHAR_TYPE_CONTROL
   @ [CHAR_TYPE_CONTROL OR CHAR_TYPE_SPACE OR CHAR_TYPE_BLANK]
   @ replicate 4 (CHAR_TYPE_CONTROL OR CHAR_TYPE_SPACE)
   @ replicate 18 CHAR_TYPE_CONTROL
   @ [CHAR_TYPE_SPACE OR CHAR_TYPE_BLANK]
   @ replicate 15 CHAR_TYPE_PUNCTUATION
   @ replicate 10 (CHAR_TYPE_DIGIT OR CHAR_TYPE_HEX_DIGIT)
   @ replicate 7 CHAR_TYPE_PUNCTUATION
   @ replicate 6 (CHAR_TYPE_UPPER OR CHAR_TYPE_HEX_DIGIT)
   @ replicate 20 CHAR_TYPE_UPPER
   @ replicate 6 CHAR_TYPE_PUNCTUATION
   @ replicate 6 (CHAR_TYPE_LOWER OR CHAR_TYPE_HEX_DIGIT)
   @ replicate 20 CHAR_TYPE_LOWER
   @ replicate 4 CHAR_TYPE_PUNCTUATION
   @ [CHAR_TYPE_CONTROL]
   @ replicate 128 0"

definition is_valid_name_byte :: "u8 \<Rightarrow> bool" where
  "is_valid_name_byte c =
     (if c = 0x5F then True else ascii_map ! unat c AND (CHAR_TYPE_DIGIT OR CHAR_TYPE_UPPER) \<noteq> 0)"

definition uacpi_is_valid_nameseg :: "u8 list \<Rightarrow> bool" where
  "uacpi_is_valid_nameseg nameseg \<longleftrightarrow> is_valid_name_byte (nameseg ! 0) \<and> is_valid_name_byte (nameseg ! 1)
     \<and> is_valid_name_byte (nameseg ! 2) \<and> is_valid_name_byte (nameseg ! 3)"

definition is_char :: "char \<Rightarrow> u8 \<Rightarrow> bool" where
  "is_char c type \<longleftrightarrow> ascii_map ! of_char c AND type = type"

definition to_lower :: "char \<Rightarrow> char" where
  "to_lower c = (if is_char c CHAR_TYPE_UPPER then char_of (of_char c + 32 :: nat) else c)"

section \<open>Consuming characters\<close>

text \<open>The string pointer and the remaining size travel together.\<close>

type_synonym cursor = "string \<times> nat"

definition peek_one :: "cursor \<Rightarrow> char option" where
  "peek_one cur = (case cur of (str, sz) \<Rightarrow>
     if sz = 0 then None else Some (case str of [] \<Rightarrow> CHR 0x00 | c # _ \<Rightarrow> c))"

definition advance :: "cursor \<Rightarrow> cursor" where
  "advance cur = (case cur of (str, sz) \<Rightarrow> (tl str, sz - 1))"

definition consume_one :: "cursor \<Rightarrow> (char \<times> cursor) option" where
  "consume_one cur = (case peek_one cur of None \<Rightarrow> None | Some c \<Rightarrow> Some (c, advance cur))"

definition consume_if :: "u8 \<Rightarrow> cursor \<Rightarrow> bool \<times> cursor" where
  "consume_if type cur = (case peek_one cur of
     None \<Rightarrow> (False, cur)
   | Some c \<Rightarrow> if \<not> is_char c type then (False, cur) else (True, advance cur))"

definition consume_if_equals :: "char \<Rightarrow> cursor \<Rightarrow> bool \<times> cursor" where
  "consume_if_equals c cur = (case peek_one cur of
     None \<Rightarrow> (False, cur)
   | Some c1 \<Rightarrow> if to_lower c1 \<noteq> c then (False, cur) else (True, advance cur))"

section \<open>Integers\<close>

definition UACPI_BASE_AUTO :: u64 where "UACPI_BASE_AUTO = 0"
definition UACPI_BASE_OCT :: u64 where "UACPI_BASE_OCT = 8"
definition UACPI_BASE_DEC :: u64 where "UACPI_BASE_DEC = 10"
definition UACPI_BASE_HEX :: u64 where "UACPI_BASE_HEX = 16"

lemmas uacpi_bases = UACPI_BASE_AUTO_def UACPI_BASE_OCT_def UACPI_BASE_DEC_def UACPI_BASE_HEX_def

function skip_spaces :: "cursor \<Rightarrow> cursor" where
  "skip_spaces cur = (case consume_if CHAR_TYPE_SPACE cur of (ok, cur') \<Rightarrow> if ok then skip_spaces cur' else cur')"
  by auto

termination skip_spaces
  by (relation "measure snd") (auto simp: consume_if_def peek_one_def advance_def split: option.splits if_splits prod.splits)

text \<open>The \<open>switch\<close> of the loop: the value of a digit, or none when the loop is left.\<close>

definition digit_value :: "u64 \<Rightarrow> char \<Rightarrow> u64 option" where
  "digit_value base c = (let class = ascii_map ! of_char c AND (CHAR_TYPE_DIGIT OR CHAR_TYPE_ALHEX) in
     if class = CHAR_TYPE_DIGIT OR CHAR_TYPE_HEX_DIGIT then
       let next = of_char c - 48 in if base = UACPI_BASE_OCT \<and> next > 7 then None else Some next
     else if class = CHAR_TYPE_LOWER OR CHAR_TYPE_HEX_DIGIT \<or> class = CHAR_TYPE_UPPER OR CHAR_TYPE_HEX_DIGIT then
       if base \<noteq> UACPI_BASE_HEX then None else Some (10 + (of_char (to_lower c) - 97))
     else None)"

text \<open>The loop keeps the cursor, the value and the last character that was read.\<close>

function digits_loop :: "u64 \<Rightarrow> u64 \<Rightarrow> char \<Rightarrow> cursor \<Rightarrow> u64 \<times> char \<times> cursor" where
  "digits_loop base val c cur = (case consume_one cur of
     None \<Rightarrow> (val, c, cur)
   | Some (c', cur') \<Rightarrow> (case digit_value base c' of
       None \<Rightarrow> (val, c', cur')
     | Some d \<Rightarrow> let next = val * base + d in
         if next div base \<noteq> val then (0xFFFFFFFFFFFFFFFF, c', cur')
         else digits_loop base next c' cur'))"
  by auto

termination digits_loop
  by (relation "measure (\<lambda>(_, _, _, cur). snd cur)")
    (auto simp: consume_one_def peek_one_def advance_def split: option.splits if_splits prod.splits)

definition uacpi_string_to_integer :: "string \<Rightarrow> nat \<Rightarrow> u64 \<Rightarrow> uacpi_status \<times> u64" where
  "uacpi_string_to_integer str max_chars base =
     (let cur0 = skip_spaces (str, max_chars);
          (negative, cur1) = consume_if_equals (CHR ''-'') cur0;
          cur2 = (if negative then cur1 else snd (consume_if_equals (CHR ''+'') cur1));
          (base', cur3) =
            (if base = UACPI_BASE_AUTO then
               (case consume_if_equals (CHR ''0'') cur2 of
                  (False, c) \<Rightarrow> (UACPI_BASE_DEC, c)
                | (True, c) \<Rightarrow> (case consume_if_equals (CHR ''x'') c of
                     (True, d) \<Rightarrow> (UACPI_BASE_HEX, d) | (False, d) \<Rightarrow> (UACPI_BASE_OCT, d)))
             else (base, cur2));
          (val, c, cur4) = digits_loop base' 0 (CHR 0x00) cur3;
          out = (if negative then - val else val)
      in (if snd cur4 = 0 \<or> c = CHR 0x00 then UACPI_STATUS_OK else UACPI_STATUS_INVALID_ARGUMENT, out))"

section \<open>The value of a string of digits\<close>

fun digits_value :: "nat \<Rightarrow> nat \<Rightarrow> nat list \<Rightarrow> nat" where
  "digits_value b v [] = v"
| "digits_value b v (d # ds) = digits_value b (v * b + d) ds"

text \<open>The table, by ranges of the character code.\<close>

definition ascii_class :: "nat \<Rightarrow> u8" where
  "ascii_class n =
     (if n < 9 then 1 else if n < 10 then 7 else if n < 14 then 3 else if n < 32 then 1 else if n < 33 then 6
      else if n < 48 then 8 else if n < 58 then 192 else if n < 65 then 8 else if n < 71 then 160
      else if n < 91 then 32 else if n < 97 then 8 else if n < 103 then 144 else if n < 123 then 16
      else if n < 127 then 8 else if n < 128 then 1 else 0)"

lemma ascii_map_ranges: "ascii_map = map ascii_class [0..<256]"
  by code_simp

lemma ascii_map_nth: "n < 256 \<Longrightarrow> ascii_map ! n = ascii_class n"
  by (simp add: ascii_map_ranges del: upt_conv_Cons)

lemma char_code [simp]: "of_char (c :: char) < (256 :: nat)"
proof -
  have "of_char c mod 256 = (of_char c :: nat)" by (rule of_char_mod_256)
  then show ?thesis by (metis mod_less_divisor zero_less_numeral)
qed

lemma ascii_char: "ascii_map ! of_char c = ascii_class (of_char c)"
  by (simp add: ascii_map_nth)

lemma is_char_code:
  "is_char c CHAR_TYPE_UPPER \<longleftrightarrow> of_char c \<in> {65::nat..<91}"
  "is_char c CHAR_TYPE_SPACE \<longleftrightarrow> of_char c \<in> {9::nat..<14} \<union> {32}"
  by (auto simp: is_char_def ascii_char ascii_class_def char_types)

lemma to_lower_code:
  "(of_char (to_lower c) :: nat) = (if of_char c \<in> {65::nat..<91} then of_char c + 32 else of_char c)"
  by (simp add: to_lower_def is_char_code)

lemma digit_value_code:
  "digit_value b c = (let n = of_char c :: nat in
     if 48 \<le> n \<and> n < 58 then if b = 8 \<and> n > 55 then None else Some (of_nat (n - 48))
     else if 65 \<le> n \<and> n < 71 then if b = 16 then Some (of_nat (n - 55)) else None
     else if 97 \<le> n \<and> n < 103 then if b = 16 then Some (of_nat (n - 87)) else None
     else None)"
proof -
  have w: "(of_char x :: u64) = of_nat (of_char x)" for x by (simp add: of_nat_of_char)
  define n where "n = (of_char c :: nat)"
  have n: "n < 256" by (simp add: n_def)
  have low: "(of_char (to_lower c) :: u64) = of_nat (if n \<in> {65..<91} then n + 32 else n)"
    unfolding w to_lower_code n_def ..
  have cmp: "(of_nat n - 48 :: u64) > 7 \<longleftrightarrow> n > 55" if "48 \<le> n"
  proof -
    have "(of_nat n - 48 :: u64) = of_nat (n - 48)" using that by (simp add: of_nat_diff)
    then have "(of_nat n - 48 :: u64) > 7 \<longleftrightarrow> 7 < n - 48"
      using n by (simp add: word_less_nat_alt unat_of_nat take_bit_nat_eq_self)
    then show ?thesis using that by linarith
  qed
  have cls: "ascii_map ! of_char c AND (CHAR_TYPE_DIGIT OR CHAR_TYPE_ALHEX)
      = (if 48 \<le> n \<and> n < 58 then 192 else if 65 \<le> n \<and> n < 71 then 160 else if 97 \<le> n \<and> n < 103 then 144
         else if 71 \<le> n \<and> n < 91 then 32 else if 103 \<le> n \<and> n < 123 then 16 else 0)"
    unfolding n_def [symmetric] ascii_map_nth [OF n] by (auto simp: ascii_class_def char_types)
  consider (dig) "48 \<le> n" "n < 58" | (up) "65 \<le> n" "n < 71" | (lo) "97 \<le> n" "n < 103"
    | (other) "\<not> (48 \<le> n \<and> n < 58)" "\<not> (65 \<le> n \<and> n < 71)" "\<not> (97 \<le> n \<and> n < 103)" by blast
  then show ?thesis
  proof cases
    case dig
    then show ?thesis using cmp unfolding digit_value_def Let_def cls unfolding w n_def [symmetric] uacpi_bases
      by (simp add: char_types)
  next
    case up
    then show ?thesis unfolding digit_value_def Let_def cls unfolding low n_def [symmetric] uacpi_bases
      by (simp add: char_types)
  next
    case lo
    then show ?thesis unfolding digit_value_def Let_def cls unfolding low n_def [symmetric] uacpi_bases
      by (simp add: char_types)
  next
    case other
    then show ?thesis unfolding digit_value_def Let_def cls unfolding n_def [symmetric] uacpi_bases
      by (simp add: char_types) linarith
  qed
qed

lemma digit_value_less: "digit_value b c = Some d \<Longrightarrow> b \<in> {8, 10, 16} \<Longrightarrow> unat d < unat b"
  by (auto simp: digit_value_code Let_def unat_of_nat take_bit_nat_eq_self simp del: of_nat_diff split: if_splits)

text \<open>A digit is not skipped as a space or taken for a sign.\<close>

lemma digit_not_skipped:
  assumes "digit_value b c \<noteq> None"
  shows "\<not> is_char c CHAR_TYPE_SPACE" "to_lower c \<noteq> CHR ''-''" "to_lower c \<noteq> CHR ''+''" "c \<noteq> CHR 0x00"
proof -
  have n: "of_char c \<in> {48::nat..<58} \<union> {65..<71} \<union> {97..<103}"
    using assms by (auto simp: digit_value_code Let_def split: if_splits)
  then show "\<not> is_char c CHAR_TYPE_SPACE" by (auto simp: is_char_code)
  have "(of_char (to_lower c) :: nat) \<ge> 48" using n by (auto simp: to_lower_code)
  then show "to_lower c \<noteq> CHR ''-''" "to_lower c \<noteq> CHR ''+''" by auto
  show "c \<noteq> CHR 0x00" using n by auto
qed

text \<open>The test of the loop, \<open>next / base != value\<close>, holds exactly when the multiplication wrapped.\<close>

lemma overflow_test:
  fixes v b d :: u64
  assumes "unat d < unat b"
  shows "(v * b + d) div b = v \<longleftrightarrow> unat v * unat b + unat d < 2 ^ 64"
    "unat v * unat b + unat d < 2 ^ 64 \<Longrightarrow> unat (v * b + d) = unat v * unat b + unat d"
proof -
  let ?N = "unat v * unat b + unat d"
  have unat_lt: "unat d < 2 ^ 64" using unsigned_less [of d] by simp
  have u: "unat (v * b + d) = ?N mod 2 ^ 64"
    by (simp add: unat_word_ariths mod_simps)
  then show sum: "unat (v * b + d) = ?N" if "?N < 2 ^ 64" using that by simp
  have q: "(v * b + d) div b = v \<longleftrightarrow> unat (v * b + d) div unat b = unat v"
    by (simp add: word_unat_eq_iff unat_div)
  show "(v * b + d) div b = v \<longleftrightarrow> ?N < 2 ^ 64"
  proof (cases "?N < 2 ^ 64")
    case True
    then show ?thesis using sum assms by (simp add: q)
  next
    case False
    have "?N mod 2 ^ 64 \<le> ?N - 2 ^ 64" using False by (simp add: mod_if [of ?N])
    also have "?N - 2 ^ 64 < unat v * unat b" using False unat_lt by simp
    finally have "unat (v * b + d) div unat b < unat v" using u by (simp add: less_mult_imp_div_less)
    then show ?thesis using False q by simp
  qed
qed

lemma digits_value_ge: "0 < b \<Longrightarrow> v \<le> digits_value b v ds"
proof (induction ds arbitrary: v)
  case (Cons d ds)
  have "v \<le> v * b + d" using Cons(2) by (cases b) simp_all
  then show ?case using Cons le_trans by fastforce
qed simp

lemma digit_nul: "digit_value b (CHR 0x00) = None"
  using digit_not_skipped(4) [of b "CHR 0x00"] by blast

text \<open>
  Digits, independent of the table: a character is the digit \<open>d\<close> of a base if it is at position \<open>d\<close> of the sequence of digits, with small or
  capital letters.
\<close>

definition small_digits :: string where "small_digits = ''0123456789abcdef''"
definition capital_digits :: string where "capital_digits = ''0123456789ABCDEF''"

definition is_digit :: "nat \<Rightarrow> char \<Rightarrow> nat \<Rightarrow> bool" where
  "is_digit b c d \<longleftrightarrow> d < b \<and> (c = small_digits ! d \<or> c = capital_digits ! d)"

lemma digit_codes:
  assumes "d < 16"
  shows "(of_char (small_digits ! d) :: nat) = (if d < 10 then 48 + d else 87 + d)"
    "(of_char (capital_digits ! d) :: nat) = (if d < 10 then 48 + d else 55 + d)"
proof -
  have "d \<in> {0, 1, 2, 3, 4, 5, 6, 7, 8, 9, 10, 11, 12, 13, 14, 15}" using assms by (simp, presburger)
  then show "(of_char (small_digits ! d) :: nat) = (if d < 10 then 48 + d else 87 + d)"
    "(of_char (capital_digits ! d) :: nat) = (if d < 10 then 48 + d else 55 + d)"
    unfolding insert_iff empty_iff small_digits_def capital_digits_def by (elim disjE FalseE; simp)+
qed

lemma digit_value_is:
  assumes b: "b \<in> {8, 10, 16}" and d: "is_digit b c d"
  shows "digit_value (of_nat b) c = Some (of_nat d)" "d < b"
proof -
  let ?n = "of_char c :: nat"
  show db: "d < b" using d by (simp add: is_digit_def)
  then have d16: "d < 16" using b by auto
  have n: "?n = (if d < 10 then 48 + d else 87 + d) \<or> ?n = (if d < 10 then 48 + d else 55 + d)"
    using d digit_codes [OF d16] unfolding is_digit_def by metis
  show "digit_value (of_nat b) c = Some (of_nat d)"
  proof (cases "d < 10")
    case True
    then have "?n = 48 + d" using n by simp
    moreover have "\<not> ((of_nat b :: u64) = 8 \<and> 55 < 48 + d)" using b db by auto
    ultimately show ?thesis unfolding digit_value_code Let_def using True by simp
  next
    case False
    then have "b = 16" using b db by auto
    moreover have "?n = 87 + d \<or> ?n = 55 + d" using n False by simp
    ultimately show ?thesis unfolding digit_value_code Let_def using False d16 by (elim disjE) simp_all
  qed
qed

lemma digit_value_none:
  assumes b: "b \<in> {8, 10, 16}" and no: "\<And>d. \<not> is_digit b c d"
  shows "digit_value (of_nat b) c = None"
proof (rule ccontr)
  let ?n = "of_char c :: nat"
  assume "digit_value (of_nat b) c \<noteq> None"
  then have "48 \<le> ?n \<and> ?n < 58 \<and> (b = 8 \<longrightarrow> ?n \<le> 55) \<or> b = 16 \<and> (65 \<le> ?n \<and> ?n < 71 \<or> 97 \<le> ?n \<and> ?n < 103)"
    using b by (auto simp: digit_value_code Let_def split: if_splits)
  moreover have "\<exists>d. is_digit b c d" if "48 \<le> ?n" "?n < 58" "b = 8 \<longrightarrow> ?n \<le> 55"
    using that b digit_codes(1) [of "?n - 48"] by (intro exI [of _ "?n - 48"]) (auto simp: is_digit_def simp del: of_char_eq_iff simp flip: of_char_eq_iff [where 'a = nat])
  moreover have "\<exists>d. is_digit b c d" if "65 \<le> ?n" "?n < 71" "b = 16"
    using that digit_codes(2) [of "?n - 55"] by (intro exI [of _ "?n - 55"]) (auto simp: is_digit_def simp del: of_char_eq_iff simp flip: of_char_eq_iff [where 'a = nat])
  moreover have "\<exists>d. is_digit b c d" if "97 \<le> ?n" "?n < 103" "b = 16"
    using that digit_codes(1) [of "?n - 87"] by (intro exI [of _ "?n - 87"]) (auto simp: is_digit_def simp del: of_char_eq_iff simp flip: of_char_eq_iff [where 'a = nat])
  ultimately show False using no by blast
qed

declare digits_loop.simps [simp del] skip_spaces.simps [simp del]

text \<open>
  The loop on digits and what follows them. Their value is computed; if it does not fit, the largest integer is the result. The last character read is
  zero, or no more characters may be read, in the cases listed.
\<close>

lemma digits_loop_digits:
  assumes b: "b \<in> {8, 10, 16}" and rest: "k = 0 \<or> rest = [] \<or> (\<forall>d. \<not> is_digit b (hd rest) d)"
  shows "list_all2 (is_digit b) ds vs \<Longrightarrow>
    (let v = digits_value b (unat val) vs; r = digits_loop (of_nat b) val c (ds @ rest, length ds + k) in
     if v < 2 ^ 64 then fst r = of_nat v \<and> (snd (snd (snd r)) = 0 \<or> fst (snd r) = CHR 0x00 \<longleftrightarrow> k \<le> 1 \<or> rest = [] \<or> hd rest = CHR 0x00)
     else fst r = 0xFFFFFFFFFFFFFFFF
       \<and> (snd (snd (snd r)) = 0 \<or> fst (snd r) = CHR 0x00 \<longleftrightarrow> k = 0 \<and> digits_value b (unat val) (butlast vs) < 2 ^ 64))"
proof (induction ds arbitrary: val c vs)
  case Nil
  have "unat val < 2 ^ 64" using unsigned_less [of val] by simp
  moreover have "digit_value (of_nat b) (hd rest) = None" if "k \<noteq> 0" "rest \<noteq> []" using rest that digit_value_none [OF b] by auto
  ultimately show ?case using Nil
    by (cases k; cases rest) (simp_all add: consume_one_def peek_one_def advance_def digit_nul Let_def digits_loop.simps)
next
  case (Cons x ds)
  obtain d ws where vs: "vs = d # ws" "is_digit b x d" "list_all2 (is_digit b) ds ws" using Cons(2) by (auto simp: list_all2_Cons1)
  note d = digit_value_is [OF b vs(2)]
  have small: "unat (of_nat d :: u64) = d" "unat (of_nat b :: u64) = b" using d(2) b by (auto simp: unat_of_nat take_bit_nat_eq_self)
  have dl: "unat (of_nat d :: u64) < unat (of_nat b :: u64)" using d(2) small by simp
  have one: "consume_one (x # ds @ rest, Suc (length ds + k)) = Some (x, (ds @ rest, length ds + k))"
    by (simp add: consume_one_def peek_one_def advance_def)
  have x0: "x \<noteq> CHR 0x00" using digit_not_skipped(4) [of "of_nat b" x] d(1) by simp
  let ?N = "unat val * b + d" and ?next = "val * of_nat b + of_nat d"
  have step: "?next div of_nat b = val \<longleftrightarrow> ?N < 2 ^ 64" "?N < 2 ^ 64 \<Longrightarrow> unat ?next = ?N" using overflow_test [OF dl, of val] small by simp_all
  have v: "digits_value b (unat val) vs = digits_value b ?N ws" by (simp add: vs(1))
  have b0: "0 < b" using b by auto
  show ?case
  proof (cases "?N < 2 ^ 64")
    case True
    have "digits_loop (of_nat b) val c (x # ds @ rest, Suc (length ds + k)) = digits_loop (of_nat b) ?next x (ds @ rest, length ds + k)"
      using True step(1) by (subst digits_loop.simps) (simp add: one d(1) Let_def)
    moreover have "digits_value b (unat val) (butlast vs) = digits_value b ?N (butlast ws)" if "ws \<noteq> []" using that by (simp add: vs(1))
    ultimately show ?thesis using Cons(1) [OF vs(3), of ?next x] True v step(2) [OF True] by (cases "ws = []") (auto simp: Let_def)
  next
    case False
    have "digits_loop (of_nat b) val c (x # ds @ rest, Suc (length ds + k)) = (0xFFFFFFFFFFFFFFFF, x, (ds @ rest, length ds + k))"
      using False step(1) by (subst digits_loop.simps) (simp add: one d(1) Let_def)
    moreover have "\<not> digits_value b (unat val) vs < 2 ^ 64" unfolding v using False digits_value_ge [OF b0, of ?N ws] by simp
    moreover have "ds = [] \<longleftrightarrow> digits_value b (unat val) (butlast vs) < 2 ^ 64"
    proof (cases "ws = []")
      case True
      have "unat val < 2 ^ 64" using unsigned_less [of val] by simp
      then show ?thesis using vs(1,3) True by simp
    next
      case ws: False
      then have "digits_value b (unat val) (butlast vs) = digits_value b ?N (butlast ws)" by (simp add: vs(1))
      moreover have "ds \<noteq> []" using vs(3) ws by auto
      ultimately show ?thesis using False digits_value_ge [OF b0, of ?N "butlast ws"] by simp
    qed
    ultimately show ?thesis using x0 by (simp add: Let_def) blast
  qed
qed

section \<open>Parsing\<close>

text \<open>White space, and what may stand before the digits: nothing, or with the base left open a prefix that gives it.\<close>

definition is_blank :: "char \<Rightarrow> bool" where
  "is_blank c \<longleftrightarrow> c \<in> set [CHR '' '', CHR 0x09, CHR 0x0A, CHR 0x0B, CHR 0x0C, CHR 0x0D]"

definition number_prefix :: "u64 \<Rightarrow> string \<Rightarrow> nat \<Rightarrow> string \<Rightarrow> bool" where
  "number_prefix base pre b following \<longleftrightarrow>
     (base, pre, b) \<in> {(UACPI_BASE_OCT, [], 8), (UACPI_BASE_DEC, [], 10), (UACPI_BASE_HEX, [], 16),
        (UACPI_BASE_AUTO, ''0x'', 16), (UACPI_BASE_AUTO, ''0X'', 16)}
     \<or> (base, pre, b) = (UACPI_BASE_AUTO, [], 10) \<and> hd following \<noteq> CHR ''0''
     \<or> (base, pre, b) = (UACPI_BASE_AUTO, ''0'', 8) \<and> (following = [] \<or> hd following \<notin> {CHR ''x'', CHR ''X''})"

lemma to_lower_inv:
  "to_lower c = CHR ''0'' \<longleftrightarrow> c = CHR ''0''" "to_lower c = CHR ''x'' \<longleftrightarrow> c = CHR ''x'' \<or> c = CHR ''X''"
proof -
  have e: "x = y \<longleftrightarrow> (of_char x :: nat) = of_char y" for x y :: char by simp
  show "to_lower c = CHR ''0'' \<longleftrightarrow> c = CHR ''0''" "to_lower c = CHR ''x'' \<longleftrightarrow> c = CHR ''x'' \<or> c = CHR ''X''"
    unfolding e to_lower_code by (simp_all del: of_char_eq_iff) presburger+
qed

lemma consume_if_equals_cases:
  "consume_if_equals c (x # xs, Suc n) = (if to_lower x = c then (True, (xs, n)) else (False, (x # xs, Suc n)))"
  "c \<noteq> CHR 0x00 \<Longrightarrow> consume_if_equals c ([], n) = (False, ([], n))"
  "consume_if_equals c (xs, 0) = (False, (xs, 0))"
proof -
  have "to_lower (CHR 0x00) = CHR 0x00" by code_simp
  then show "c \<noteq> CHR 0x00 \<Longrightarrow> consume_if_equals c ([], n) = (False, ([], n))" by (simp add: consume_if_equals_def peek_one_def)
qed (simp_all add: consume_if_equals_def peek_one_def advance_def)

lemma skip_spaces_blanks:
  assumes "\<not> is_char x CHAR_TYPE_SPACE"
  shows "list_all is_blank sp \<Longrightarrow> skip_spaces (sp @ x # xs, length sp + Suc n) = (x # xs, Suc n)"
proof (induction sp)
  case Nil
  show ?case using assms by (simp add: skip_spaces.simps consume_if_def peek_one_def)
next
  case (Cons c sp)
  then have "is_char c CHAR_TYPE_SPACE" by (auto simp: is_blank_def is_char_code)
  then show ?case using Cons by (subst skip_spaces.simps) (simp add: consume_if_def peek_one_def advance_def)
qed

lemma first_digit:
  assumes "list_all2 (is_digit b) ds vs" "number_prefix base pre b (ds @ rest)" "pre @ ds \<noteq> []"
  obtains h t where "pre @ ds = h # t" "\<not> is_char h CHAR_TYPE_SPACE" "to_lower h \<noteq> CHR ''-''" "to_lower h \<noteq> CHR ''+''"
proof -
  have b: "b \<in> {8, 10, 16}" using assms(2) by (auto simp: number_prefix_def)
  obtain h t where h: "pre @ ds = h # t" using assms(3) by (cases "pre @ ds") auto
  have "digit_value (of_nat b) h \<noteq> None"
  proof (cases "pre = []")
    case True
    then show ?thesis using h assms(1) digit_value_is(1) [OF b] by (auto simp: list_all2_Cons1)
  next
    case False
    then have "h = CHR ''0''" using h assms(2) by (auto simp: number_prefix_def)
    moreover have "is_digit b (CHR ''0'') 0" using b by (auto simp: is_digit_def small_digits_def)
    ultimately show ?thesis using digit_value_is(1) [OF b] by auto
  qed
  with h digit_not_skipped [of "of_nat b" h] that show thesis by blast
qed

lemma base_prefix:
  assumes "number_prefix base pre b f" "pre = [] \<Longrightarrow> f \<noteq> [] \<and> 0 < m"
  shows "(if base = UACPI_BASE_AUTO then
       (case consume_if_equals (CHR ''0'') (pre @ f, length pre + m) of
          (False, c) \<Rightarrow> (UACPI_BASE_DEC, c)
        | (True, c) \<Rightarrow> (case consume_if_equals (CHR ''x'') c of (True, d) \<Rightarrow> (UACPI_BASE_HEX, d) | (False, d) \<Rightarrow> (UACPI_BASE_OCT, d)))
     else (base, (pre @ f, length pre + m))) = (of_nat b, (f, m))"
proof -
  have low: "to_lower (CHR ''0'') = CHR ''0''" "to_lower (CHR ''x'') = CHR ''x''" "to_lower (CHR ''X'') = CHR ''x''" by (simp_all add: to_lower_inv)
  consider "base \<in> {8, 10, 16}" "pre = []" "of_nat b = base" | "base = 0" "pre = ''0x'' \<or> pre = ''0X''" "b = 16"
    | "base = 0" "pre = []" "b = 10" "hd f \<noteq> CHR ''0''" | "base = 0" "pre = ''0''" "b = 8" "f = [] \<or> hd f \<notin> {CHR ''x'', CHR ''X''}"
    using assms(1) by (auto simp: number_prefix_def uacpi_bases)
  then show ?thesis
  proof cases
    case 3
    then obtain x xs j where "f = x # xs" "m = Suc j" using assms(2) by (cases f; cases m) auto
    with 3 show ?thesis by (simp add: consume_if_equals_cases to_lower_inv uacpi_bases)
  next
    case 4
    then show ?thesis by (cases f; cases m) (auto simp: consume_if_equals_cases to_lower_inv low uacpi_bases)
  qed (auto simp: consume_if_equals_cases low uacpi_bases)
qed



end
