(* ===== verification/UacpiStdlib.thy ===== *)
theory UacpiStdlib
  imports UacpiUtil
begin

text \<open>
  The freestanding C library of uACPI, \<^verbatim>\<open>src/uacpi/stdlib.c\<close>: memory and string functions
  and the formatted printer \<open>uacpi_vsnprintf\<close> with \<open>uacpi_log\<close> on top. A buffer is a function
  from offsets to characters with no end, so that a write behind the capacity would be seen. C
  strings are lists without zeros, the end of the list being the terminator. Sizes and widths
  are 64-bit words. Reading a variable argument that is missing or of the other type is
  undefined behaviour, a result of its own.
\<close>

section \<open>Memory and strings\<close>

type_synonym cbuf = "nat \<Rightarrow> char"

text \<open>Copying from another object, whose contents from the pointer on are a list.\<close>

fun uacpi_memcpy :: "cbuf \<Rightarrow> nat \<Rightarrow> string \<Rightarrow> nat \<Rightarrow> cbuf" where
  "uacpi_memcpy m cd src 0 = m"
| "uacpi_memcpy m cd [] (Suc count) = m"
| "uacpi_memcpy m cd (c # src) (Suc count) = uacpi_memcpy (m(cd := c)) (Suc cd) src count"

fun memmove_up :: "cbuf \<Rightarrow> nat \<Rightarrow> nat \<Rightarrow> nat \<Rightarrow> cbuf" where
  "memmove_up m cd src 0 = m"
| "memmove_up m cd src (Suc count) = memmove_up (m(cd := m src)) (Suc cd) (Suc src) count"

fun memmove_down :: "cbuf \<Rightarrow> nat \<Rightarrow> nat \<Rightarrow> nat \<Rightarrow> cbuf" where
  "memmove_down m dest src 0 = m"
| "memmove_down m dest src (Suc count) = memmove_down (m(dest + count := m (src + count))) dest src count"

definition uacpi_memmove :: "cbuf \<Rightarrow> nat \<Rightarrow> nat \<Rightarrow> nat \<Rightarrow> cbuf" where
  "uacpi_memmove m dest src count = (if src < dest then memmove_down m dest src count else memmove_up m dest src count)"

fun uacpi_memset :: "cbuf \<Rightarrow> nat \<Rightarrow> u32 \<Rightarrow> nat \<Rightarrow> cbuf" where
  "uacpi_memset m dest ch 0 = m"
| "uacpi_memset m dest ch (Suc count) = uacpi_memset (m(dest := char_of (unat ch mod 256))) (Suc dest) ch count"

fun uacpi_memcmp :: "string \<Rightarrow> string \<Rightarrow> nat \<Rightarrow> int" where
  "uacpi_memcmp (c # lhs) (d # rhs) (Suc count) =
     (if c \<noteq> d then int (of_char c) - int (of_char d) else uacpi_memcmp lhs rhs count)"
| "uacpi_memcmp lhs rhs count = 0"

definition uacpi_strlen :: "string \<Rightarrow> nat" where
  "uacpi_strlen str = length (cstr str)"

fun uacpi_strnlen :: "string \<Rightarrow> nat \<Rightarrow> nat" where
  "uacpi_strnlen (c # str) (Suc n) = (if c = CHR 0x00 then 0 else Suc (uacpi_strnlen str n))"
| "uacpi_strnlen str n = 0"

definition uacpi_memcpy_zerout :: "cbuf \<Rightarrow> nat \<Rightarrow> string \<Rightarrow> nat \<Rightarrow> nat \<Rightarrow> cbuf" where
  "uacpi_memcpy_zerout m dst src dst_size src_size =
     (let bytes_to_copy = (if src_size < dst_size then src_size else dst_size);
          m1 = (if bytes_to_copy \<noteq> 0 then uacpi_memcpy m dst src bytes_to_copy else m)
      in if dst_size > bytes_to_copy then uacpi_memset m1 (dst + bytes_to_copy) 0 (dst_size - bytes_to_copy) else m1)"

text \<open>The compiler's bit counting functions, on the bits of the word.\<close>

definition uacpi_bit_scan_forward :: "u64 \<Rightarrow> nat" where
  "uacpi_bit_scan_forward v = (if v = 0 then 0 else length (takeWhile (\<lambda>n. \<not> bit v n) [0..<64]) + 1)"

definition uacpi_bit_scan_backward :: "u64 \<Rightarrow> nat" where
  "uacpi_bit_scan_backward v = (if v = 0 then 0 else 64 - length (takeWhile (\<lambda>n. \<not> bit v n) (rev [0..<64])))"

definition uacpi_popcount :: "u64 \<Rightarrow> nat" where
  "uacpi_popcount v = length (filter (bit v) [0..<64])"

section \<open>The output buffer\<close>

record fmt_buf_state =
  fb_buffer :: cbuf
  fb_capacity :: u64
  fb_bytes_written :: u64

record fmt_spec =
  fm_is_signed :: bool
  fm_prepend :: bool
  fm_uppercase :: bool
  fm_left_justify :: bool
  fm_alternate_form :: bool
  fm_has_precision :: bool
  fm_pad_char :: char
  fm_prepend_char :: char
  fm_min_width :: u64
  fm_precision :: u64
  fm_base :: u32

definition write_one :: "char \<Rightarrow> fmt_buf_state \<Rightarrow> fmt_buf_state" where
  "write_one c fb =
     (let fb' = (if fb_bytes_written fb < fb_capacity fb
                 then fb\<lparr>fb_buffer := (fb_buffer fb)(unat (fb_bytes_written fb) := c)\<rparr> else fb)
      in fb'\<lparr>fb_bytes_written := fb_bytes_written fb' + 1\<rparr>)"

definition write_many :: "string \<Rightarrow> u64 \<Rightarrow> fmt_buf_state \<Rightarrow> fmt_buf_state" where
  "write_many str count fb =
     (let fb' = (if fb_bytes_written fb < fb_capacity fb
                 then let room = fb_capacity fb - fb_bytes_written fb;
                          count_to_write = (if count < room then count else room)
                      in fb\<lparr>fb_buffer := uacpi_memcpy (fb_buffer fb) (unat (fb_bytes_written fb)) str (unat count_to_write)\<rparr>
                 else fb)
      in fb'\<lparr>fb_bytes_written := fb_bytes_written fb' + count\<rparr>)"

definition upper_hex :: string where "upper_hex = ''0123456789ABCDEF''"
definition lower_hex :: string where "lower_hex = ''0123456789abcdef''"

definition hex_char :: "bool \<Rightarrow> u64 \<Rightarrow> char" where
  "hex_char upper value = (if upper then upper_hex else lower_hex) ! unat value"

definition write_padding :: "fmt_spec \<Rightarrow> u64 \<Rightarrow> fmt_buf_state \<Rightarrow> fmt_buf_state" where
  "write_padding fm repr_size fb =
     (if fm_min_width fm \<le> repr_size then fb
      else (write_one (if fm_left_justify fm then CHR '' '' else fm_pad_char fm) ^^ unat (fm_min_width fm - repr_size)) fb)"

definition REPR_BUFFER_SIZE :: nat where "REPR_BUFFER_SIZE = 32"

definition digit_repr :: "fmt_spec \<Rightarrow> u64 \<Rightarrow> char" where
  "digit_repr fm remainder =
     (if fm_base fm = 16 then hex_char (fm_uppercase fm) remainder
      else if fm_base fm = 8 \<or> fm_base fm = 10 then char_of (unat remainder + 48)
      else CHR ''?'')"

text \<open>
  The digits, filled in from the end of \<open>repr_buffer\<close>. The base is 8, 10 or 16; for 0 and 1,
  which no caller sets, the loop of the code would fault or not end.
\<close>

function repr_loop :: "fmt_spec \<Rightarrow> u64 \<Rightarrow> string \<Rightarrow> string" where
  "repr_loop fm val repr =
     (if val = 0 \<or> fm_base fm < 2 then repr
      else repr_loop fm (val div ucast (fm_base fm)) (digit_repr fm (val mod ucast (fm_base fm)) # repr))"
  by auto

lemma ucast_base: "unat (ucast (b :: u32) :: u64) = unat b"
proof -
  have "unat b < 2 ^ 32" using unsigned_less [of b] by simp
  then show ?thesis by (simp add: unsigned_ucast_eq take_bit_nat_eq_self)
qed

termination repr_loop
proof (relation "measure (\<lambda>(_, val, _). unat val)")
  fix fm :: fmt_spec and val :: u64 and repr
  assume "\<not> (val = 0 \<or> fm_base fm < 2)"
  then have "unat val > 0" "unat (fm_base fm) \<ge> 2" by (auto simp: word_less_nat_alt unat_gt_0)
  then have "unat val div unat (fm_base fm) < unat val" by simp
  then show "((fm, val div ucast (fm_base fm), digit_repr fm (val mod ucast (fm_base fm)) # repr), fm, val, repr)
      \<in> measure (\<lambda>(_, val, _). unat val)"
    by (simp add: unat_div ucast_base)
qed simp

declare repr_loop.simps [simp del]

definition int_repr :: "fmt_spec \<Rightarrow> u64 \<Rightarrow> string" where
  "int_repr fm val =
     (let digits = repr_loop fm val [];
          repr = (if digits = [] then ''0'' else digits)
      in if fm_alternate_form fm then
           if fm_base fm = 16 then CHR ''0'' # (if fm_uppercase fm then CHR ''X'' else CHR ''x'') # repr
           else if fm_base fm = 8 then CHR ''0'' # repr else repr
         else repr)"

definition write_integer :: "fmt_spec \<Rightarrow> u64 \<Rightarrow> fmt_buf_state \<Rightarrow> fmt_buf_state" where
  "write_integer fm value fb =
     (let negative = fm_is_signed fm \<and> sint value < 0;
          value' = (if negative then - value else value);
          fb1 = (if fm_prepend fm \<or> negative then write_one (if negative then CHR ''-'' else fm_prepend_char fm) fb else fb);
          repr = int_repr fm value';
          repr_size = of_nat (length repr)
      in if fm_left_justify fm
         then write_padding fm repr_size (write_many repr repr_size fb1)
         else write_many repr repr_size (write_padding fm repr_size fb1))"

section \<open>Reading the format\<close>

fun string_has_at_least :: "string \<Rightarrow> u64 \<Rightarrow> bool" where
  "string_has_at_least [] characters = False"
| "string_has_at_least (c # str) characters = (if characters - 1 = 0 then True else string_has_at_least str (characters - 1))"

definition is_digit :: "char \<Rightarrow> bool" where
  "is_digit c \<longleftrightarrow> \<not> (of_char c < (48 :: nat) \<or> of_char c > (57 :: nat))"

definition consume_digits :: "string \<Rightarrow> nat option \<times> string" where
  "consume_digits str = (let sz = length (takeWhile is_digit str) in
     (if sz = 0 then None else Some sz, drop sz str))"

definition parse_number :: "bool \<Rightarrow> string \<Rightarrow> u64 \<Rightarrow> bool \<times> string \<times> u64" where
  "parse_number must fmt out_value = (case consume_digits fmt of
     (None, fmt') \<Rightarrow> (\<not> must, fmt', out_value)
   | (Some num_digits, fmt') \<Rightarrow> (case uacpi_string_to_integer fmt num_digits UACPI_BASE_DEC of
       (ret, v) \<Rightarrow> (ret = UACPI_STATUS_OK, fmt', v)))"

definition consume :: "string \<Rightarrow> string \<Rightarrow> string option" where
  "consume token str = (let token_size = uacpi_strlen token in
     if \<not> string_has_at_least str (of_nat token_size) then None
     else if uacpi_memcmp str token token_size = 0 then Some (drop token_size str)
     else None)"

fun is_one_of :: "char \<Rightarrow> string \<Rightarrow> bool" where
  "is_one_of c [] = False"
| "is_one_of c (d # ds) = (if c = d then True else is_one_of c ds)"

definition consume_one_of :: "string \<Rightarrow> string \<Rightarrow> (char \<times> string) option" where
  "consume_one_of list str = (case str of [] \<Rightarrow> None
   | c # rest \<Rightarrow> if is_one_of c list then Some (c, rest) else None)"

definition base_from_specifier :: "char \<Rightarrow> u32" where
  "base_from_specifier c = (if c = CHR ''x'' \<or> c = CHR ''X'' then 16 else if c = CHR ''o'' then 8 else 10)"

definition is_uppercase_specifier :: "char \<Rightarrow> bool" where
  "is_uppercase_specifier c \<longleftrightarrow> c = CHR ''X''"

text \<open>The text before the next conversion and the format from there on, if there is one.\<close>

definition find_next_conversion :: "string \<Rightarrow> string option \<times> nat" where
  "find_next_conversion fmt = (let offset = length (takeWhile (\<lambda>c. c \<noteq> CHR ''%'') fmt) in
     (if offset < length fmt then Some (drop offset fmt) else None, offset))"

section \<open>Conversions\<close>

datatype vararg = VaNum u64 | VaStr string

text \<open>The three ways a part of a conversion can end: going on, \<open>return -1\<close>, undefined behaviour.\<close>

datatype 'a fmt_res = FmtOk 'a | FmtFail | FmtUndef

definition fmt_bind :: "'a fmt_res \<Rightarrow> ('a \<Rightarrow> 'b fmt_res) \<Rightarrow> 'b fmt_res" where
  "fmt_bind m f = (case m of FmtOk x \<Rightarrow> f x | FmtFail \<Rightarrow> FmtFail | FmtUndef \<Rightarrow> FmtUndef)"

definition uva_num :: "vararg list \<Rightarrow> (u64 \<times> vararg list) fmt_res" where
  "uva_num args = (case args of VaNum x # rest \<Rightarrow> FmtOk (x, rest) | _ \<Rightarrow> FmtUndef)"

definition uva_str :: "vararg list \<Rightarrow> (string \<times> vararg list) fmt_res" where
  "uva_str args = (case args of VaStr x # rest \<Rightarrow> FmtOk (x, rest) | _ \<Rightarrow> FmtUndef)"

text \<open>Conversions of an argument: to a signed type and to an unsigned one, widened to 64 bits.\<close>

definition as_i8 :: "u64 \<Rightarrow> u64" where "as_i8 x = word_of_int (sint (ucast x :: 8 word))"
definition as_i16 :: "u64 \<Rightarrow> u64" where "as_i16 x = word_of_int (sint (ucast x :: 16 word))"
definition as_i32 :: "u64 \<Rightarrow> u64" where "as_i32 x = word_of_int (sint (ucast x :: 32 word))"
definition as_u8 :: "u64 \<Rightarrow> u64" where "as_u8 x = ucast (ucast x :: 8 word)"
definition as_u16 :: "u64 \<Rightarrow> u64" where "as_u16 x = ucast (ucast x :: 16 word)"
definition as_u32 :: "u64 \<Rightarrow> u64" where "as_u32 x = ucast (ucast x :: 32 word)"

definition fmt_spec_init :: fmt_spec where
  "fmt_spec_init = \<lparr>fm_is_signed = False, fm_prepend = False, fm_uppercase = False, fm_left_justify = False,
     fm_alternate_form = False, fm_has_precision = False, fm_pad_char = CHR '' '', fm_prepend_char = CHR 0x00,
     fm_min_width = 0, fm_precision = 0, fm_base = 10\<rparr>"

definition set_flag :: "char \<Rightarrow> fmt_spec \<Rightarrow> fmt_spec fmt_res" where
  "set_flag c fm =
     (if c = CHR ''+'' \<or> c = CHR '' '' then FmtOk (fm\<lparr>fm_prepend := True, fm_prepend_char := c\<rparr>)
      else if c = CHR ''-'' then FmtOk (fm\<lparr>fm_left_justify := True\<rparr>)
      else if c = CHR ''0'' then FmtOk (fm\<lparr>fm_pad_char := CHR ''0''\<rparr>)
      else if c = CHR ''#'' then FmtOk (fm\<lparr>fm_alternate_form := True\<rparr>)
      else FmtFail)"

function parse_flags :: "fmt_spec \<Rightarrow> string \<Rightarrow> (fmt_spec \<times> string) fmt_res" where
  "parse_flags fm fmt = (case consume_one_of ''+- 0#'' fmt of
     None \<Rightarrow> FmtOk (fm, fmt)
   | Some (flg, fmt') \<Rightarrow> (case set_flag flg fm of FmtOk fm' \<Rightarrow> parse_flags fm' fmt' | FmtFail \<Rightarrow> FmtFail | FmtUndef \<Rightarrow> FmtUndef))"
  by auto

termination parse_flags
  by (relation "measure (\<lambda>(_, fmt). length fmt)") (auto simp: consume_one_of_def split: list.splits if_splits)

definition parse_width :: "fmt_spec \<Rightarrow> string \<Rightarrow> vararg list \<Rightarrow> (fmt_spec \<times> string \<times> vararg list) fmt_res" where
  "parse_width fm fmt args = (case consume ''*'' fmt of
     Some fmt' \<Rightarrow> fmt_bind (uva_num args) (\<lambda>(x, args'). FmtOk (fm\<lparr>fm_min_width := as_i32 x\<rparr>, fmt', args'))
   | None \<Rightarrow> (case parse_number False fmt (fm_min_width fm) of (ok, fmt', v) \<Rightarrow>
       if \<not> ok then FmtFail else FmtOk (fm\<lparr>fm_min_width := v\<rparr>, fmt', args)))"

definition parse_precision :: "fmt_spec \<Rightarrow> string \<Rightarrow> vararg list \<Rightarrow> (fmt_spec \<times> string \<times> vararg list) fmt_res" where
  "parse_precision fm fmt args = (case consume ''.'' fmt of
     None \<Rightarrow> FmtOk (fm, fmt, args)
   | Some fmt1 \<Rightarrow> let fm1 = fm\<lparr>fm_has_precision := True\<rparr> in
       (case consume ''*'' fmt1 of
          Some fmt2 \<Rightarrow> fmt_bind (uva_num args) (\<lambda>(x, args'). FmtOk (fm1\<lparr>fm_precision := as_i32 x\<rparr>, fmt2, args'))
        | None \<Rightarrow> (case parse_number True fmt1 (fm_precision fm1) of (ok, fmt2, v) \<Rightarrow>
            if \<not> ok then FmtFail else FmtOk (fm1\<lparr>fm_precision := v\<rparr>, fmt2, args))))"

text \<open>The end of an integer conversion, for one pair of argument types: \<open>d\<close> or \<open>i\<close>, or one of \<open>oxXu\<close>.\<close>

definition int_conversion :: "(u64 \<Rightarrow> u64) \<Rightarrow> (u64 \<Rightarrow> u64) \<Rightarrow> fmt_spec \<Rightarrow> string \<Rightarrow> vararg list
    \<Rightarrow> (fmt_spec \<times> u64 \<times> string \<times> vararg list) fmt_res" where
  "int_conversion to_signed to_unsigned fm fmt args =
     (case (case consume ''d'' fmt of Some f \<Rightarrow> Some f | None \<Rightarrow> consume ''i'' fmt) of
        Some fmt' \<Rightarrow> fmt_bind (uva_num args) (\<lambda>(x, args'). FmtOk (fm\<lparr>fm_is_signed := True\<rparr>, to_signed x, fmt', args'))
      | None \<Rightarrow> (case consume_one_of ''oxXu'' fmt of
          Some (flg, fmt') \<Rightarrow> fmt_bind (uva_num args) (\<lambda>(x, args').
            FmtOk (fm\<lparr>fm_base := base_from_specifier flg, fm_uppercase := is_uppercase_specifier flg\<rparr>, to_unsigned x, fmt', args'))
        | None \<Rightarrow> FmtFail))"

text \<open>\<open>%s\<close>: at most \<open>precision\<close> characters, filled up to the precision with the padding character.\<close>

definition write_string :: "fmt_spec \<Rightarrow> string \<Rightarrow> fmt_buf_state \<Rightarrow> fmt_buf_state" where
  "write_string fm str fb =
     (let shown = (if fm_has_precision fm then take (unat (fm_precision fm)) (cstr str) else cstr str);
          fb1 = fold write_one shown fb
      in if fm_has_precision fm then (write_one (fm_pad_char fm) ^^ (unat (fm_precision fm) - length shown)) fb1 else fb1)"

text \<open>The lengths \<open>hh\<close>, \<open>h\<close>, \<open>ll\<close> or \<open>z\<close>, \<open>l\<close> (with \<open>z\<close> again, as the code has it) and none.\<close>

definition conv_integer :: "fmt_spec \<Rightarrow> string \<Rightarrow> vararg list \<Rightarrow> (fmt_spec \<times> u64 \<times> string \<times> vararg list) fmt_res" where
  "conv_integer fm fmt args =
     (case consume ''hh'' fmt of Some f \<Rightarrow> int_conversion as_i8 as_u8 fm f args | None \<Rightarrow>
     (case consume ''h'' fmt of Some f \<Rightarrow> int_conversion as_i16 as_u16 fm f args | None \<Rightarrow>
     (case (case consume ''ll'' fmt of Some f \<Rightarrow> Some f | None \<Rightarrow> consume ''z'' fmt) of
        Some f \<Rightarrow> int_conversion (\<lambda>x. x) (\<lambda>x. x) fm f args | None \<Rightarrow>
     (case (case consume ''l'' fmt of Some f \<Rightarrow> Some f | None \<Rightarrow> consume ''z'' fmt) of
        Some f \<Rightarrow> int_conversion (\<lambda>x. x) (\<lambda>x. x) fm f args | None \<Rightarrow>
      int_conversion as_i32 as_u32 fm fmt args))))"

text \<open>
  What a conversion writes to the buffer. The code writes as soon as it has read the argument;
  here reading the format and the arguments yields the request and \<open>perform\<close> carries it out.
\<close>

datatype write_request = WriteChar char | WriteString fmt_spec string | WriteInteger fmt_spec u64

fun perform :: "write_request \<Rightarrow> fmt_buf_state \<Rightarrow> fmt_buf_state" where
  "perform (WriteChar c) = write_one c"
| "perform (WriteString fm str) = write_string fm str"
| "perform (WriteInteger fm value) = write_integer fm value"

text \<open>The conversion after its flags, width and precision.\<close>

type_synonym converted = "write_request \<times> string \<times> vararg list"

definition convert :: "fmt_spec \<Rightarrow> string \<Rightarrow> vararg list \<Rightarrow> converted fmt_res" where
  "convert fm fmt args =
     (case consume ''c'' fmt of
        Some f \<Rightarrow> fmt_bind (uva_num args) (\<lambda>(x, args'). FmtOk (WriteChar (char_of (unat x mod 256)), f, args'))
      | None \<Rightarrow>
     (case consume ''s'' fmt of
        Some f \<Rightarrow> fmt_bind (uva_str args) (\<lambda>(str, args'). FmtOk (WriteString fm str, f, args'))
      | None \<Rightarrow>
     (case consume ''p'' fmt of
        Some f \<Rightarrow> fmt_bind (uva_num args) (\<lambda>(x, args').
          FmtOk (WriteInteger (fm\<lparr>fm_base := 16, fm_min_width := 16, fm_pad_char := CHR ''0''\<rparr>) x, f, args'))
      | None \<Rightarrow> fmt_bind (conv_integer fm fmt args) (\<lambda>(fm', x, f, args').
          FmtOk (WriteInteger fm' x, f, args')))))"

text \<open>A conversion from its \<open>%\<close> on.\<close>

definition conversion :: "string \<Rightarrow> vararg list \<Rightarrow> converted fmt_res" where
  "conversion fmt args = (case consume ''%%'' fmt of
     Some fmt' \<Rightarrow> FmtOk (WriteChar (CHR ''%''), fmt', args)
   | None \<Rightarrow>
       fmt_bind (parse_flags fmt_spec_init (tl fmt)) (\<lambda>(fm1, fmt1).
       fmt_bind (parse_width fm1 fmt1 args) (\<lambda>(fm2, fmt2, args2).
       fmt_bind (parse_precision fm2 fmt2 args2) (\<lambda>(fm, fmt3, args3).
       convert fm fmt3 args3))))"

section \<open>The printer\<close>

lemma consume_shorter: "consume t s = Some r \<Longrightarrow> 0 < uacpi_strlen t \<Longrightarrow> length r < length s"
  by (cases s) (auto simp: consume_def Let_def split: if_splits)

lemma strlen_tokens [simp]:
  "c \<noteq> CHR 0x00 \<Longrightarrow> uacpi_strlen [c] = 1" "c \<noteq> CHR 0x00 \<Longrightarrow> d \<noteq> CHR 0x00 \<Longrightarrow> uacpi_strlen [c, d] = 2"
  by (simp_all add: uacpi_strlen_def cstr_def)

lemma fmt_bind_FmtOk: "fmt_bind m f = FmtOk y \<longleftrightarrow> (\<exists>x. m = FmtOk x \<and> f x = FmtOk y)"
  by (cases m) (simp_all add: fmt_bind_def)

lemma parse_number_le: "parse_number must fmt v = (ok, fmt', w) \<Longrightarrow> length fmt' \<le> length fmt"
  by (auto simp: parse_number_def consume_digits_def Let_def split: if_splits prod.splits)

text \<open>Flags, width and precision consume characters, and leave the base alone.\<close>

lemma parse_flags_keeps:
  "parse_flags fm fmt = FmtOk (fm', fmt') \<Longrightarrow> length fmt' \<le> length fmt \<and> fm_base fm' = fm_base fm"
proof (induction fm fmt rule: parse_flags.induct)
  case (1 fm fmt)
  show ?case
  proof (cases "consume_one_of ''+- 0#'' fmt")
    case None
    then show ?thesis using 1(2) by (simp add: parse_flags.simps [of fm fmt])
  next
    case (Some p)
    obtain c f where p: "p = (c, f)" by fastforce
    obtain fm1 where fm1: "set_flag c fm = FmtOk fm1"
      using 1(2) Some p by (cases "set_flag c fm") (simp_all add: parse_flags.simps [of fm fmt])
    have "parse_flags fm1 f = FmtOk (fm', fmt')"
      using 1(2) Some p fm1 by (simp add: parse_flags.simps [of fm fmt])
    then have "length fmt' \<le> length f \<and> fm_base fm' = fm_base fm1" using 1(1) [OF Some p [symmetric] fm1] by (simp add: p)
    moreover have "length f < length fmt" using Some p by (auto simp: consume_one_of_def split: list.splits if_splits)
    moreover have "fm_base fm1 = fm_base fm" using fm1 by (auto simp: set_flag_def split: if_splits)
    ultimately show ?thesis by simp
  qed
qed

lemma parse_width_keeps:
  "parse_width fm fmt args = FmtOk (fm', fmt', args') \<Longrightarrow> length fmt' \<le> length fmt \<and> fm_base fm' = fm_base fm"
  by (auto simp: parse_width_def fmt_bind_FmtOk dest: consume_shorter parse_number_le split: option.splits prod.splits if_splits)

lemma parse_precision_keeps:
  "parse_precision fm fmt args = FmtOk (fm', fmt', args') \<Longrightarrow> length fmt' \<le> length fmt \<and> fm_base fm' = fm_base fm"
  by (fastforce simp: parse_precision_def fmt_bind_FmtOk Let_def dest: consume_shorter parse_number_le
      split: option.splits prod.splits if_splits)

lemma int_conversion_shorter: "int_conversion f g fm fmt args = FmtOk (fm', x, fmt', args') \<Longrightarrow> length fmt' < length fmt"
  by (auto simp: int_conversion_def fmt_bind_FmtOk consume_one_of_def dest: consume_shorter
      split: option.splits prod.splits list.splits if_splits)

lemma conv_integer_shorter:
  assumes "conv_integer fm fmt args = FmtOk (fm', x, fmt', args')"
  shows "length fmt' < length fmt"
proof -
  have le: "length f < length fmt" if "consume t fmt = Some f" "t \<in> {''hh'', ''h'', ''ll'', ''z'', ''l''}" for t f
    using that consume_shorter [of t fmt f] by auto
  consider g h f t where "int_conversion g h fm f args = FmtOk (fm', x, fmt', args')" "consume t fmt = Some f"
      "t \<in> {''hh'', ''h'', ''ll'', ''z'', ''l''}"
    | g h where "int_conversion g h fm fmt args = FmtOk (fm', x, fmt', args')"
    using assms unfolding conv_integer_def by (simp split: option.splits)
  then show ?thesis
  proof cases
    case (1 g h f t)
    show ?thesis using int_conversion_shorter [OF 1(1)] le [OF 1(2,3)] by simp
  qed (rule int_conversion_shorter)
qed

lemma convert_shorter:
  assumes "convert fm fmt args = FmtOk (w, fmt', args')"
  shows "length fmt' < length fmt"
proof -
  have t: "length f < length fmt" if "consume t fmt = Some f" "t \<in> {''c'', ''s'', ''p''}" for t f
    using that consume_shorter [of t fmt f] by auto
  consider "consume ''c'' fmt = Some fmt'" | "consume ''s'' fmt = Some fmt'" | "consume ''p'' fmt = Some fmt'"
    | fm' x where "conv_integer fm fmt args = FmtOk (fm', x, fmt', args')"
    using assms unfolding convert_def by (auto simp: fmt_bind_FmtOk split: option.splits)
  then show ?thesis by cases (use t conv_integer_shorter in auto)
qed

lemma conversion_cases:
  assumes "conversion fmt args = FmtOk (w, fmt', args')"
  obtains "consume ''%%'' fmt = Some fmt'" "w = WriteChar (CHR ''%'')"
  | fm fmt3 args3 where "convert fm fmt3 args3 = FmtOk (w, fmt', args')" "length fmt3 \<le> length fmt" "fm_base fm = 10"
proof (cases "consume ''%%'' fmt")
  case (Some f)
  then show ?thesis using assms that(1) by (simp add: conversion_def)
next
  case None
  have bind: "fmt_bind (parse_flags fmt_spec_init (tl fmt)) (\<lambda>(fm1, fmt1).
       fmt_bind (parse_width fm1 fmt1 args) (\<lambda>(fm2, fmt2, args2).
       fmt_bind (parse_precision fm2 fmt2 args2) (\<lambda>(fm, fmt3, args3).
       convert fm fmt3 args3))) = FmtOk (w, fmt', args')"
    using assms unfolding conversion_def None by simp
  obtain fm1 fmt1 where f: "parse_flags fmt_spec_init (tl fmt) = FmtOk (fm1, fmt1)"
    using bind by (auto simp: fmt_bind_FmtOk)
  obtain fm2 fmt2 args2 where w: "parse_width fm1 fmt1 args = FmtOk (fm2, fmt2, args2)"
    using bind unfolding f by (auto simp: fmt_bind_FmtOk)
  obtain fm fmt3 args3 where p: "parse_precision fm2 fmt2 args2 = FmtOk (fm, fmt3, args3)"
      and c: "convert fm fmt3 args3 = FmtOk (w, fmt', args')"
    using bind unfolding f fmt_bind_def [of "FmtOk _"] by (auto simp: fmt_bind_FmtOk w)
  have "length fmt3 \<le> length fmt" "fm_base fm = 10"
    using parse_flags_keeps [OF f] parse_width_keeps [OF w] parse_precision_keeps [OF p] by (auto simp: fmt_spec_init_def)
  then show ?thesis using that(2) c by blast
qed

lemma conversion_shorter: "conversion fmt args = FmtOk (w, fmt', args') \<Longrightarrow> length fmt' < length fmt"
  by (erule conversion_cases) (auto dest: consume_shorter convert_shorter)

text \<open>The main loop: whether the whole format was processed, and the buffer; \<open>None\<close> is undefined behaviour.\<close>

function vsnprintf_loop :: "string \<Rightarrow> vararg list \<Rightarrow> fmt_buf_state \<Rightarrow> (bool \<times> fmt_buf_state) option" where
  "vsnprintf_loop fmt args fb =
     (if fmt = [] then Some (True, fb)
      else case find_next_conversion fmt of (next_conversion, next_offset) \<Rightarrow>
        let fb1 = (if next_offset \<noteq> 0 then write_many fmt (of_nat next_offset) fb else fb) in
        case next_conversion of
          None \<Rightarrow> Some (True, fb1)
        | Some fmt1 \<Rightarrow> (case conversion fmt1 args of
            FmtOk (w, fmt2, args2) \<Rightarrow> vsnprintf_loop fmt2 args2 (perform w fb1)
          | FmtFail \<Rightarrow> Some (False, fb1)
          | FmtUndef \<Rightarrow> None))"
  by auto

termination vsnprintf_loop
  by (relation "measure (\<lambda>(fmt, _, _). length fmt)")
    (auto simp: find_next_conversion_def Let_def dest!: conversion_shorter split: if_splits)

declare vsnprintf_loop.simps [simp del] parse_flags.simps [simp del]

definition uacpi_vsnprintf :: "cbuf \<Rightarrow> u64 \<Rightarrow> string \<Rightarrow> vararg list \<Rightarrow> (u32 \<times> cbuf) option" where
  "uacpi_vsnprintf buffer capacity fmt vlist =
     (case vsnprintf_loop (cstr fmt) vlist \<lparr>fb_buffer = buffer, fb_capacity = capacity, fb_bytes_written = 0\<rparr> of
        None \<Rightarrow> None
      | Some (False, fb) \<Rightarrow> Some (- 1, fb_buffer fb)
      | Some (True, fb) \<Rightarrow>
          let fb' = (if fb_capacity fb \<noteq> 0
                     then let last_char = (if fb_bytes_written fb < fb_capacity fb - 1
                                           then fb_bytes_written fb else fb_capacity fb - 1)
                          in fb\<lparr>fb_buffer := (fb_buffer fb)(unat last_char := CHR 0x00)\<rparr>
                     else fb)
          in Some (ucast (fb_bytes_written fb), fb_buffer fb'))"

definition uacpi_snprintf :: "cbuf \<Rightarrow> u64 \<Rightarrow> string \<Rightarrow> vararg list \<Rightarrow> (u32 \<times> cbuf) option" where
  "uacpi_snprintf buffer capacity fmt vlist = uacpi_vsnprintf buffer capacity fmt vlist"

text \<open>
  \<open>uacpi_log\<close>: the message that is handed to \<open>uacpi_kernel_log\<close>, if one is; a message that
  does not fit ends in dots and a line feed. The array on the stack has arbitrary contents.
\<close>

definition UACPI_PLAIN_LOG_BUFFER_SIZE :: nat where "UACPI_PLAIN_LOG_BUFFER_SIZE = 128"

definition uacpi_log_buf :: "cbuf \<Rightarrow> string \<Rightarrow> vararg list \<Rightarrow> cbuf option option" where
  "uacpi_log_buf stack str vlist = (case uacpi_vsnprintf stack (of_nat UACPI_PLAIN_LOG_BUFFER_SIZE) str vlist of
     None \<Rightarrow> None
   | Some (ret, buf) \<Rightarrow>
       if sint ret < 0 then Some None
       else if sint ret \<ge> int UACPI_PLAIN_LOG_BUFFER_SIZE
       then Some (Some (buf(UACPI_PLAIN_LOG_BUFFER_SIZE - 5 := CHR ''.'', UACPI_PLAIN_LOG_BUFFER_SIZE - 4 := CHR ''.'',
              UACPI_PLAIN_LOG_BUFFER_SIZE - 3 := CHR ''.'', UACPI_PLAIN_LOG_BUFFER_SIZE - 2 := CHR 0x0A)))
       else Some (Some buf))"

definition uacpi_log :: "cbuf \<Rightarrow> u32 \<Rightarrow> string \<Rightarrow> vararg list \<Rightarrow> ('a ahci_scheme, unit) kern" where
  "uacpi_log stack lvl str vlist = (case uacpi_log_buf stack str vlist of
     None \<Rightarrow> kfault
   | Some None \<Rightarrow> kret ()
   | Some (Some buf) \<Rightarrow> uacpi_kernel_log lvl (cstr (map buf [0..<UACPI_PLAIN_LOG_BUFFER_SIZE])))"

text \<open>Here the memory is the machine's; \<open>uacpi_memzero\<close> fills it with zeros.\<close>

definition uacpi_builtin_alloc_zeroed :: "u64 \<Rightarrow> ('a ahci_scheme, u64) kern" where
  "uacpi_builtin_alloc_zeroed sz = kbind (uacpi_kernel_alloc sz) (\<lambda>ptr.
     if ptr = 0 then kret ptr else kseq (memset ptr 0 sz) (kret ptr))"

section \<open>What is printed\<close>

text \<open>
  The reference: the text of a request, and of a format, with no buffer and no capacity. The flag
  says whether the format was processed to its end.
\<close>

definition padding :: "fmt_spec \<Rightarrow> u64 \<Rightarrow> string" where
  "padding fm repr_size = replicate (unat (fm_min_width fm) - unat repr_size)
     (if fm_left_justify fm then CHR '' '' else fm_pad_char fm)"

definition integer_text :: "fmt_spec \<Rightarrow> u64 \<Rightarrow> string" where
  "integer_text fm value =
     (let negative = fm_is_signed fm \<and> sint value < 0;
          sign = (if negative then ''-'' else if fm_prepend fm then [fm_prepend_char fm] else []);
          repr = int_repr fm (if negative then - value else value);
          pad = padding fm (of_nat (length repr))
      in sign @ (if fm_left_justify fm then repr @ pad else pad @ repr))"

definition string_text :: "fmt_spec \<Rightarrow> string \<Rightarrow> string" where
  "string_text fm str =
     (if fm_has_precision fm
      then take (unat (fm_precision fm)) (cstr str) @ replicate (unat (fm_precision fm) - length (cstr str)) (fm_pad_char fm)
      else cstr str)"

fun request_text :: "write_request \<Rightarrow> string" where
  "request_text (WriteChar c) = [c]"
| "request_text (WriteString fm str) = string_text fm str"
| "request_text (WriteInteger fm value) = integer_text fm value"

function render_fmt :: "string \<Rightarrow> vararg list \<Rightarrow> (bool \<times> string) option" where
  "render_fmt fmt args =
     (case find_next_conversion fmt of
        (None, offset) \<Rightarrow> Some (True, fmt)
      | (Some fmt1, offset) \<Rightarrow> (case conversion fmt1 args of
          FmtOk (w, fmt2, args2) \<Rightarrow> map_option (apsnd (\<lambda>out. take offset fmt @ request_text w @ out)) (render_fmt fmt2 args2)
        | FmtFail \<Rightarrow> Some (False, take offset fmt)
        | FmtUndef \<Rightarrow> None))"
  by auto

termination render_fmt
  by (relation "measure (\<lambda>(fmt, _). length fmt)")
    (auto simp: find_next_conversion_def Let_def dest!: conversion_shorter split: if_splits)

declare render_fmt.simps [simp del]

section \<open>Writing to the buffer\<close>

lemma memcpy_range:
  "uacpi_memcpy m cd src n = (\<lambda>i. if cd \<le> i \<and> i < cd + min n (length src) then src ! (i - cd) else m i)"
proof (induction m cd src n rule: uacpi_memcpy.induct)
  case (3 m cd c src count)
  have "uacpi_memcpy m cd (c # src) (Suc count) = uacpi_memcpy (m(cd := c)) (Suc cd) src count" by simp
  also have "\<dots> = (\<lambda>i. if cd \<le> i \<and> i < cd + min (Suc count) (length (c # src)) then (c # src) ! (i - cd) else m i)"
    unfolding 3 by (auto simp: fun_eq_iff nth_Cons')
  finally show ?case .
qed (auto simp: fun_eq_iff)

lemma write_one_sel [simp]:
  "fb_bytes_written (write_one c fb) = fb_bytes_written fb + 1" "fb_capacity (write_one c fb) = fb_capacity fb"
  "fb_buffer (write_one c fb) = (if fb_bytes_written fb < fb_capacity fb
     then (fb_buffer fb)(unat (fb_bytes_written fb) := c) else fb_buffer fb)"
  by (simp_all add: write_one_def Let_def)

text \<open>Writing a text: the part below the capacity is stored, the count grows by its length.\<close>

lemma fold_write_one:
  fixes fb :: fmt_buf_state
  assumes "unat (fb_bytes_written fb) + length out < 2 ^ 64"
  shows "fold write_one out fb =
     fb\<lparr>fb_buffer := (\<lambda>i. if unat (fb_bytes_written fb) \<le> i \<and> i < unat (fb_bytes_written fb) + length out \<and> i < unat (fb_capacity fb)
                        then out ! (i - unat (fb_bytes_written fb)) else fb_buffer fb i),
        fb_bytes_written := fb_bytes_written fb + of_nat (length out)\<rparr>"
  using assms
proof (induction out arbitrary: fb)
  case (Cons c out)
  let ?w = "unat (fb_bytes_written fb)"
  have w: "unat (fb_bytes_written fb + 1) = ?w + 1"
    using Cons(2) by (simp add: unat_plus_if')
  have "fold write_one (c # out) fb = fold write_one out (write_one c fb)" by simp
  also have "\<dots> = (write_one c fb)\<lparr>fb_buffer := (\<lambda>i. if ?w + 1 \<le> i \<and> i < ?w + 1 + length out \<and> i < unat (fb_capacity fb)
                        then out ! (i - (?w + 1)) else fb_buffer (write_one c fb) i),
        fb_bytes_written := fb_bytes_written fb + 1 + of_nat (length out)\<rparr>"
    using Cons(1) [of "write_one c fb"] Cons(2) w by (simp cong: if_cong)
  also have "\<dots> = fb\<lparr>fb_buffer := (\<lambda>i. if ?w \<le> i \<and> i < ?w + length (c # out) \<and> i < unat (fb_capacity fb)
                        then (c # out) ! (i - ?w) else fb_buffer fb i),
        fb_bytes_written := fb_bytes_written fb + of_nat (length (c # out))\<rparr>"
    by (rule fmt_buf_state.equality) (auto simp: fun_eq_iff word_less_nat_alt nth_Cons' algebra_simps)
  finally show ?case .
qed (rule fmt_buf_state.equality, auto simp: fun_eq_iff)

definition emits :: "(fmt_buf_state \<Rightarrow> fmt_buf_state) \<Rightarrow> string \<Rightarrow> bool" where
  "emits f out \<longleftrightarrow> (\<forall>fb. unat (fb_bytes_written fb) + length out < 2 ^ 64 \<longrightarrow> f fb = fold write_one out fb)"

lemma emitsD: "emits f out \<Longrightarrow> unat (fb_bytes_written fb) + length out < 2 ^ 64 \<Longrightarrow> f fb = fold write_one out fb"
  by (simp add: emits_def)

lemma written_fold:
  fixes fb :: fmt_buf_state
  shows "unat (fb_bytes_written fb) + length out < 2 ^ 64 \<Longrightarrow>
     unat (fb_bytes_written (fold write_one out fb)) = unat (fb_bytes_written fb) + length out"
    "fb_capacity (fold write_one out fb) = fb_capacity fb"
proof -
  show "fb_capacity (fold write_one out fb) = fb_capacity fb"
    by (induction out arbitrary: fb) simp_all
  assume "unat (fb_bytes_written fb) + length out < 2 ^ 64"
  then show "unat (fb_bytes_written (fold write_one out fb)) = unat (fb_bytes_written fb) + length out"
    by (simp add: fold_write_one unat_word_ariths unat_of_nat take_bit_nat_eq_self)
qed

lemma emits_comp:
  assumes "emits f xs" "emits g ys"
  shows "emits (\<lambda>fb. g (f fb)) (xs @ ys)"
proof (unfold emits_def, intro allI impI)
  fix fb :: fmt_buf_state
  assume b: "unat (fb_bytes_written fb) + length (xs @ ys) < 2 ^ 64"
  then have "f fb = fold write_one xs fb" using emitsD [OF assms(1)] by simp
  then show "g (f fb) = fold write_one (xs @ ys) fb"
    using emitsD [OF assms(2), of "fold write_one xs fb"] written_fold(1) [of fb xs] b by simp
qed

lemma emits_nil: "emits (\<lambda>fb. fb) []"
  by (simp add: emits_def)

lemma emits_fold: "emits (fold write_one out) out"
  by (simp add: emits_def)

lemma emits_write_one: "emits (write_one c) [c]"
  by (simp add: emits_def)

lemma emits_repeat: "emits (write_one c ^^ n) (replicate n c)"
proof (induction n)
  case (Suc n)
  have "write_one c ^^ Suc n = (\<lambda>fb. write_one c ((write_one c ^^ n) fb))" by (simp add: fun_eq_iff)
  moreover have "replicate (Suc n) c = replicate n c @ [c]" by (simp add: replicate_append_same)
  ultimately show ?case using emits_comp [OF Suc emits_write_one] by simp
qed (simp add: emits_def)

text \<open>Copying a block is writing it character by character.\<close>

lemma emits_write_many:
  assumes "unat count \<le> length str"
  shows "emits (write_many str count) (take (unat count) str)"
proof (unfold emits_def, intro allI impI)
  fix fb :: fmt_buf_state
  let ?w = "unat (fb_bytes_written fb)" and ?cap = "unat (fb_capacity fb)"
  assume b: "?w + length (take (unat count) str) < 2 ^ 64"
  have len: "length (take (unat count) str) = unat count" using assms by simp
  have buf: "fb_buffer (write_many str count fb) = (\<lambda>i. if ?w \<le> i \<and> i < ?w + unat count \<and> i < ?cap
      then take (unat count) str ! (i - ?w) else fb_buffer fb i)"
  proof (cases "fb_bytes_written fb < fb_capacity fb")
    case True
    then have room: "unat (fb_capacity fb - fb_bytes_written fb) = ?cap - ?w"
      by (simp add: unat_sub_if' word_less_nat_alt)
    define n where "n = (if count < fb_capacity fb - fb_bytes_written fb then count else fb_capacity fb - fb_bytes_written fb)"
    have n: "unat n = min (unat count) (?cap - ?w)"
      using room by (auto simp: n_def word_less_nat_alt)
    have "fb_buffer (write_many str count fb) = uacpi_memcpy (fb_buffer fb) ?w str (unat n)"
      using True by (simp add: write_many_def Let_def n_def)
    also have "\<dots> = (\<lambda>i. if ?w \<le> i \<and> i < ?w + min (unat n) (length str) then str ! (i - ?w) else fb_buffer fb i)"
      by (rule memcpy_range)
    also have "\<dots> = (\<lambda>i. if ?w \<le> i \<and> i < ?w + unat count \<and> i < ?cap
      then take (unat count) str ! (i - ?w) else fb_buffer fb i)"
      using assms True by (auto simp: fun_eq_iff n word_less_nat_alt)
    finally show ?thesis .
  next
    case False
    then show ?thesis by (auto simp: write_many_def Let_def fun_eq_iff word_less_nat_alt)
  qed
  have "fb_bytes_written (write_many str count fb) = fb_bytes_written fb + count"
    "fb_capacity (write_many str count fb) = fb_capacity fb"
    by (simp_all add: write_many_def Let_def)
  then show "write_many str count fb = fold write_one (take (unat count) str) fb"
    using buf unfolding fold_write_one [OF b] len by (intro fmt_buf_state.equality) simp_all
qed

lemma emits_padding: "emits (write_padding fm repr_size) (padding fm repr_size)"
proof (cases "fm_min_width fm \<le> repr_size")
  case True
  then have "write_padding fm repr_size = (\<lambda>fb. fb)" "padding fm repr_size = []"
    by (simp_all add: write_padding_def padding_def fun_eq_iff word_le_nat_alt)
  then show ?thesis using emits_nil by simp
next
  case False
  then have "unat (fm_min_width fm - repr_size) = unat (fm_min_width fm) - unat repr_size"
    by (simp add: unat_sub_if' word_le_nat_alt)
  then have "write_padding fm repr_size = (write_one (if fm_left_justify fm then CHR '' '' else fm_pad_char fm)
      ^^ (unat (fm_min_width fm) - unat repr_size))"
    using False by (simp add: write_padding_def fun_eq_iff)
  then show ?thesis using emits_repeat by (simp add: padding_def)
qed

text \<open>The digits fit \<open>repr_buffer\<close>: 22 octal ones at most, and two characters of the alternate form.\<close>

lemma repr_loop_length:
  assumes "8 \<le> unat (fm_base fm)"
  shows "unat val < 8 ^ n \<Longrightarrow> length (repr_loop fm val repr) \<le> n + length repr"
proof (induction n arbitrary: val repr)
  case 0
  then have "val = 0" by (simp add: unat_eq_0)
  then show ?case by (simp add: repr_loop.simps)
next
  case (Suc n)
  show ?case
  proof (cases "val = 0")
    case True
    then show ?thesis by (simp add: repr_loop.simps)
  next
    case False
    have b: "\<not> fm_base fm < 2" using assms by (simp add: word_less_nat_alt)
    have "unat val div unat (fm_base fm) \<le> unat val div 8" using assms by (simp add: div_le_mono2)
    also have "\<dots> < 8 ^ n" using Suc(2) by (simp add: less_mult_imp_div_less mult.commute)
    finally have "unat (val div ucast (fm_base fm)) < 8 ^ n" by (simp add: unat_div ucast_base)
    from Suc(1) [OF this, of "digit_repr fm (val mod ucast (fm_base fm)) # repr"]
    show ?thesis using False b by (simp add: repr_loop.simps [of fm val])
  qed
qed

lemma int_repr_length:
  assumes "8 \<le> unat (fm_base fm)"
  shows "length (int_repr fm val) \<le> REPR_BUFFER_SIZE"
proof -
  have "unat val < 2 ^ 64" using unsigned_less [of val] by simp
  then have "unat val < 8 ^ 22" by simp
  from repr_loop_length [OF assms this, of "[]"] show ?thesis
    by (simp add: int_repr_def Let_def REPR_BUFFER_SIZE_def)
qed

lemma emits_integer:
  assumes "8 \<le> unat (fm_base fm)"
  shows "emits (write_integer fm value) (integer_text fm value)"
proof -
  define neg where "neg \<longleftrightarrow> fm_is_signed fm \<and> sint value < 0"
  define repr where "repr = int_repr fm (if neg then - value else value)"
  define sign where "sign = (if neg then ''-'' else if fm_prepend fm then [fm_prepend_char fm] else [])"
  have "length repr \<le> 32" using int_repr_length [OF assms] by (simp add: repr_def REPR_BUFFER_SIZE_def)
  then have u: "unat (of_nat (length repr) :: u64) = length repr" by (simp add: unat_of_nat take_bit_nat_eq_self)
  then have many: "emits (write_many repr (of_nat (length repr))) repr"
    using emits_write_many [of "of_nat (length repr)" repr] by simp
  have s: "emits (\<lambda>fb. if fm_prepend fm \<or> neg then write_one (if neg then CHR ''-'' else fm_prepend_char fm) fb else fb) sign"
    using emits_nil emits_write_one [of "CHR ''-''"] emits_write_one [of "fm_prepend_char fm"]
    by (cases neg; cases "fm_prepend fm") (simp_all add: sign_def)
  note pad = emits_padding [of fm "of_nat (length repr)"]
  have w: "write_integer fm value = (\<lambda>fb.
      (if fm_left_justify fm then (\<lambda>fb. write_padding fm (of_nat (length repr)) (write_many repr (of_nat (length repr)) fb))
       else (\<lambda>fb. write_many repr (of_nat (length repr)) (write_padding fm (of_nat (length repr)) fb)))
      (if fm_prepend fm \<or> neg then write_one (if neg then CHR ''-'' else fm_prepend_char fm) fb else fb))"
    unfolding write_integer_def Let_def neg_def [symmetric] repr_def [symmetric] by (simp add: fun_eq_iff)
  have t: "integer_text fm value = sign @ (if fm_left_justify fm then repr @ padding fm (of_nat (length repr))
      else padding fm (of_nat (length repr)) @ repr)"
    unfolding integer_text_def Let_def neg_def [symmetric] repr_def [symmetric] sign_def [symmetric] by simp
  have "emits (if fm_left_justify fm
       then (\<lambda>fb. write_padding fm (of_nat (length repr)) (write_many repr (of_nat (length repr)) fb))
       else (\<lambda>fb. write_many repr (of_nat (length repr)) (write_padding fm (of_nat (length repr)) fb)))
     (if fm_left_justify fm then repr @ padding fm (of_nat (length repr)) else padding fm (of_nat (length repr)) @ repr)"
    by (cases "fm_left_justify fm") (simp_all add: emits_comp [OF many pad] emits_comp [OF pad many])
  from emits_comp [OF s this] show ?thesis unfolding w t .
qed

lemma emits_string: "emits (write_string fm str) (string_text fm str)"
proof (cases "fm_has_precision fm")
  case True
  define xs where "xs = take (unat (fm_precision fm)) (cstr str)"
  have len: "unat (fm_precision fm) - length xs = unat (fm_precision fm) - length (cstr str)"
    by (simp add: xs_def min_def)
  have "write_string fm str = (\<lambda>fb. (write_one (fm_pad_char fm) ^^ (unat (fm_precision fm) - length xs)) (fold write_one xs fb))"
    using True by (simp add: write_string_def fun_eq_iff xs_def Let_def)
  then show ?thesis using emits_comp [OF emits_fold [of xs] emits_repeat] True
    unfolding len by (simp add: string_text_def xs_def)
next
  case False
  then have "write_string fm str = fold write_one (cstr str)" by (simp add: write_string_def fun_eq_iff Let_def)
  then show ?thesis using emits_fold False by (simp add: string_text_def)
qed

text \<open>Integers are printed with one of the bases 8, 10 and 16.\<close>

fun request_ok :: "write_request \<Rightarrow> bool" where
  "request_ok (WriteInteger fm value) = (fm_base fm \<in> {8, 10, 16})"
| "request_ok w = True"

lemma int_conversion_base:
  "int_conversion f g fm fmt args = FmtOk (fm', x, fmt', args') \<Longrightarrow> fm_base fm = 10 \<Longrightarrow> fm_base fm' \<in> {8, 10, 16}"
  by (auto simp: int_conversion_def fmt_bind_FmtOk base_from_specifier_def split: option.splits prod.splits if_splits)

lemma conv_integer_base:
  "conv_integer fm fmt args = FmtOk (fm', x, fmt', args') \<Longrightarrow> fm_base fm = 10 \<Longrightarrow> fm_base fm' \<in> {8, 10, 16}"
  unfolding conv_integer_def by (simp split: option.splits) (use int_conversion_base in \<open>blast+\<close>)

lemma convert_ok: "convert fm fmt args = FmtOk (w, fmt', args') \<Longrightarrow> fm_base fm = 10 \<Longrightarrow> request_ok w"
  using conv_integer_base unfolding convert_def by (fastforce simp: fmt_bind_FmtOk split: option.splits)

lemma conversion_ok: "conversion fmt args = FmtOk (w, fmt', args') \<Longrightarrow> request_ok w"
  by (erule conversion_cases) (auto dest: convert_ok)

lemma emits_request: "request_ok w \<Longrightarrow> emits (perform w) (request_text w)"
proof (cases w)
  case (WriteInteger fm val)
  assume "request_ok w"
  then have "8 \<le> unat (fm_base fm)" using WriteInteger by auto
  then show ?thesis using emits_integer WriteInteger by simp
qed (simp_all add: emits_write_one emits_string)

text \<open>The main loop writes what \<open>render_fmt\<close> says.\<close>

lemma vsnprintf_loop_renders:
  "(render_fmt fmt args = None \<longrightarrow> vsnprintf_loop fmt args fb = None)
   \<and> (\<forall>ok out. render_fmt fmt args = Some (ok, out) \<longrightarrow> length fmt < 2 ^ 64 \<longrightarrow>
        unat (fb_bytes_written fb) + length out < 2 ^ 64 \<longrightarrow> vsnprintf_loop fmt args fb = Some (ok, fold write_one out fb))"
proof (induction fmt args fb rule: vsnprintf_loop.induct)
  case (1 fmt args fb)
  define n where "n = length (takeWhile (\<lambda>c. c \<noteq> CHR ''%'') fmt)"
  have nl: "n \<le> length fmt" by (simp add: n_def length_takeWhile_le)
  define fb1 where "fb1 = (if n \<noteq> 0 then write_many fmt (of_nat n) fb else fb)"
  have fb1: "fb1 = fold write_one (take n fmt) fb"
    if "length fmt < 2 ^ 64" "unat (fb_bytes_written fb) + n < 2 ^ 64"
  proof -
    have "unat (of_nat n :: u64) = n" using that(1) nl by (simp add: unat_of_nat take_bit_nat_eq_self)
    then show ?thesis
      using emitsD [OF emits_write_many [of "of_nat n" fmt], of fb] nl that(2) by (simp add: fb1_def)
  qed
  show ?case
  proof (cases "fmt = []")
    case True
    then show ?thesis by (simp add: vsnprintf_loop.simps render_fmt.simps find_next_conversion_def)
  next
    case ne: False
    show ?thesis
    proof (cases "n < length fmt")
      case False
      then have "n = length fmt" using nl by simp
      moreover from this have "vsnprintf_loop fmt args fb = Some (True, fb1)" "render_fmt fmt args = Some (True, fmt)"
        using ne by (simp_all add: vsnprintf_loop.simps [of fmt] render_fmt.simps [of fmt] find_next_conversion_def
            n_def [symmetric] fb1_def Let_def)
      ultimately show ?thesis using fb1 by simp
    next
      case True
      have find: "find_next_conversion fmt = (Some (drop n fmt), n)"
        using True by (simp add: find_next_conversion_def Let_def n_def)
      show ?thesis
      proof (cases "conversion (drop n fmt) args")
        case (FmtOk r)
        obtain w fmt2 args2 where r: "r = (w, fmt2, args2)" by (cases r)
        note C = FmtOk [unfolded r]
        have loop: "vsnprintf_loop fmt args fb = vsnprintf_loop fmt2 args2 (perform w fb1)"
          using ne C by (simp add: vsnprintf_loop.simps [of fmt] find fb1_def Let_def)
        have ren: "render_fmt fmt args = map_option (apsnd (\<lambda>out. take n fmt @ request_text w @ out)) (render_fmt fmt2 args2)"
          using C by (simp add: render_fmt.simps [of fmt] find)
        note IH = "1.IH" [OF ne find [symmetric] fb1_def refl C refl refl]
        have shorter: "length fmt2 < length fmt" using conversion_shorter [OF C] by simp
        show ?thesis
        proof (intro conjI allI impI)
          assume "render_fmt fmt args = None"
          then show "vsnprintf_loop fmt args fb = None" using IH ren loop by simp
        next
          fix ok out
          assume R: "render_fmt fmt args = Some (ok, out)" and L: "length fmt < 2 ^ 64"
            and B: "unat (fb_bytes_written fb) + length out < 2 ^ 64"
          obtain out2 where out2: "render_fmt fmt2 args2 = Some (ok, out2)" "out = take n fmt @ request_text w @ out2"
            using R ren by auto
          have one: "fb1 = fold write_one (take n fmt) fb" using fb1 L B out2(2) nl by simp
          have two: "perform w fb1 = fold write_one (request_text w) fb1"
            using emitsD [OF emits_request [OF conversion_ok [OF C]]] written_fold(1) [of fb "take n fmt"] one B out2(2) by simp
          have "unat (fb_bytes_written (perform w fb1)) + length out2 < 2 ^ 64"
            using written_fold(1) [of fb "take n fmt"] written_fold(1) [of fb1 "request_text w"] one two B out2(2) by simp
          then have "vsnprintf_loop fmt args fb = Some (ok, fold write_one out2 (perform w fb1))"
            using IH out2(1) L shorter loop by simp
          then show "vsnprintf_loop fmt args fb = Some (ok, fold write_one out fb)"
            unfolding two by (simp add: out2(2) one)
        qed
      next
        case FmtFail
        then have "vsnprintf_loop fmt args fb = Some (False, fb1)" "render_fmt fmt args = Some (False, take n fmt)"
          using ne by (simp_all add: vsnprintf_loop.simps [of fmt] render_fmt.simps [of fmt] find fb1_def Let_def)
        then show ?thesis using fb1 nl by simp
      next
        case FmtUndef
        then have "vsnprintf_loop fmt args fb = None" "render_fmt fmt args = None"
          using ne by (simp_all add: vsnprintf_loop.simps [of fmt] render_fmt.simps [of fmt] find Let_def)
        then show ?thesis by simp
      qed
    qed
  qed
qed

text \<open>
  C21: formatted printing into a bounded buffer. Let \<open>out\<close> be the text of the format with its
  arguments. Whatever the buffer and its capacity, the printer stores the text up to the
  capacity less one followed by a zero, leaves every other byte of memory alone, behind the
  capacity in particular, and returns the length of the whole text. For a malformed format it
  returns -1; then the text before the error is stored, with no zero behind it.
\<close>

theorem vsnprintf_contract:
  assumes "render_fmt (cstr fmt) args = Some (ok, out)" "length (cstr fmt) < 2 ^ 64" "length out < 2 ^ 64"
  shows "uacpi_vsnprintf buf cap fmt args =
     (if ok then
        Some (of_nat (length out), \<lambda>i. if cap \<noteq> 0 \<and> i = min (length out) (unat cap - 1) then CHR 0x00
                                       else if i < length out \<and> i < unat cap then out ! i else buf i)
      else Some (- 1, \<lambda>i. if i < length out \<and> i < unat cap then out ! i else buf i))"
proof -
  define fb where "fb = \<lparr>fb_buffer = buf, fb_capacity = cap, fb_bytes_written = 0\<rparr>"
  have loop: "vsnprintf_loop (cstr fmt) args fb = Some (ok, fold write_one out fb)"
    using vsnprintf_loop_renders [of "cstr fmt" args fb] assms by (simp add: fb_def)
  have w: "fold write_one out fb = \<lparr>fb_buffer = (\<lambda>i. if i < length out \<and> i < unat cap then out ! i else buf i),
      fb_capacity = cap, fb_bytes_written = of_nat (length out)\<rparr>"
    using fold_write_one [of fb out] assms(3) by (simp add: fb_def cong: if_cong)
  have u: "unat (of_nat (length out) :: u64) = length out" using assms(3) by (simp add: unat_of_nat take_bit_nat_eq_self)
  have last: "unat (if (of_nat (length out) :: u64) < cap - 1 then of_nat (length out) else cap - 1) = min (length out) (unat cap - 1)"
    if "cap \<noteq> 0"
  proof -
    have "unat (cap - 1) = unat cap - 1" using that by (simp add: unat_minus_one)
    then show ?thesis using u by (auto simp: word_less_nat_alt)
  qed
  have ret: "(ucast (of_nat (length out) :: u64) :: u32) = of_nat (length out)"
    using assms(3) by (simp add: unsigned_of_nat take_bit_nat_eq_self)
  show ?thesis
  proof (cases ok)
    case True
    show ?thesis
      unfolding uacpi_vsnprintf_def fb_def [symmetric] loop w
      using True last by (auto simp: Let_def fun_eq_iff ret)
  next
    case False
    then show ?thesis unfolding uacpi_vsnprintf_def fb_def [symmetric] loop w by simp
  qed
qed

theorem vsnprintf_contract_witness:
  "map_option (\<lambda>(ret, b). (ret, map b [0..<6])) (uacpi_vsnprintf (\<lambda>_. CHR ''~'') 4 ''id %03x!'' [VaNum 0xAB])
     = Some (7, [CHR ''i'', CHR ''d'', CHR '' '', CHR 0x00, CHR ''~'', CHR ''~''])"
proof -
  have "render_fmt (cstr ''id %03x!'') [VaNum 0xAB] = Some (True, ''id 0ab!'')" "length (cstr ''id %03x!'') = 8" by code_simp+
  then show ?thesis
    using vsnprintf_contract [of "''id %03x!''" "[VaNum 0xAB]" True "''id 0ab!''" "\<lambda>_. CHR ''~''" 4] by (simp add: upt_rec)
qed

end
