(* ===== verification/UacpiGas.thy ===== *)
theory UacpiGas
  imports UacpiIo UacpiRegisters UacpiStdlib
begin

text \<open>
  Registers described by a generic address structure, the last part of \<^verbatim>\<open>src/uacpi/io.c\<close>: the choice of the
  access width, validation, reading and writing, and the access to ports and memory. The services of the host
  are the parameter \<open>gas_host\<close>; they are given once by the functions of the kernel and once by plain
  memory. Log messages are left out.
\<close>

section \<open>Host services\<close>

record 's gas_host =
  gh_io_map :: "u64 \<Rightarrow> u64 \<Rightarrow> ('s, uacpi_status \<times> u64) kern"
  gh_io_unmap :: "u64 \<Rightarrow> ('s, unit) kern"
  gh_io_read :: "u64 \<Rightarrow> u64 \<Rightarrow> u8 \<Rightarrow> ('s, uacpi_status \<times> u64) kern"
  gh_io_write :: "u64 \<Rightarrow> u64 \<Rightarrow> u8 \<Rightarrow> u64 \<Rightarrow> ('s, uacpi_status) kern"
  gh_map :: "u64 \<Rightarrow> u64 \<Rightarrow> ('s, u64) kern"
  gh_unmap :: "u64 \<Rightarrow> u64 \<Rightarrow> ('s, unit) kern"
  gh_load :: "u64 \<Rightarrow> nat \<Rightarrow> ('s, u64) kern"
  gh_store :: "u64 \<Rightarrow> nat \<Rightarrow> u64 \<Rightarrow> ('s, unit) kern"

definition uacpi_system_io_read :: "'s gas_host \<Rightarrow> u64 \<Rightarrow> u8 \<Rightarrow> ('s, uacpi_status \<times> u64) kern" where
  "uacpi_system_io_read host addr width =
     kbind (gh_io_map host addr (ucast width)) (\<lambda>(ret, handle).
     if ret \<noteq> UACPI_STATUS_OK then kret (ret, 0)
     else kbind (gh_io_read host handle 0 width) (\<lambda>r. kseq (gh_io_unmap host handle) (kret r)))"

definition uacpi_system_io_write :: "'s gas_host \<Rightarrow> u64 \<Rightarrow> u8 \<Rightarrow> u64 \<Rightarrow> ('s, uacpi_status) kern" where
  "uacpi_system_io_write host addr width v =
     kbind (gh_io_map host addr (ucast width)) (\<lambda>(ret, handle).
     if ret \<noteq> UACPI_STATUS_OK then kret ret
     else kbind (gh_io_write host handle 0 width v) (\<lambda>r. kseq (gh_io_unmap host handle) (kret r)))"

definition uacpi_system_memory_read :: "'s gas_host \<Rightarrow> u64 \<Rightarrow> u8 \<Rightarrow> ('s, uacpi_status \<times> u64) kern" where
  "uacpi_system_memory_read host ptr width =
     (if width \<in> {1, 2, 4, 8} then kbind (gh_load host ptr (unat width)) (\<lambda>v. kret (UACPI_STATUS_OK, v))
      else kret (UACPI_STATUS_INVALID_ARGUMENT, 0))"

definition uacpi_system_memory_write :: "'s gas_host \<Rightarrow> u64 \<Rightarrow> u8 \<Rightarrow> u64 \<Rightarrow> ('s, uacpi_status) kern" where
  "uacpi_system_memory_write host ptr width v =
     (if width \<in> {1, 2, 4, 8} then kseq (gh_store host ptr (unat width) v) (kret UACPI_STATUS_OK)
      else kret UACPI_STATUS_INVALID_ARGUMENT)"

section \<open>Access width\<close>

record acpi_gas =
  gas_address_space_id :: u8
  gas_register_bit_width :: u8
  gas_register_bit_offset :: u8
  gas_access_size :: u8
  gas_address :: u64

definition UACPI_ADDRESS_SPACE_SYSTEM_MEMORY :: u8 where "UACPI_ADDRESS_SPACE_SYSTEM_MEMORY = 0"
definition UACPI_ADDRESS_SPACE_SYSTEM_IO :: u8 where "UACPI_ADDRESS_SPACE_SYSTEM_IO = 1"

text \<open>The loop that halves the width until the address is aligned to it; \<open>None\<close> if it does not end.\<close>

partial_function (option) back_off :: "u64 \<Rightarrow> u8 \<Rightarrow> u8 option" where
  "back_off addr width =
     (if addr AND (ucast (width div 8) - 1) = 0 then Some width else back_off addr (width div 2))"

definition gas_get_access_bit_width :: "acpi_gas \<Rightarrow> u8 option" where
  "gas_get_access_bit_width g =
     (let w = gas_register_bit_width g; off = gas_register_bit_offset g in
      map_option (\<lambda>width. min width (if gas_address_space_id g = UACPI_ADDRESS_SPACE_SYSTEM_IO then 32 else 64))
       (if off = 0 \<and> w AND (w - 1) = 0 \<and> w AND (8 - 1) = 0 then Some w
        else if gas_access_size g \<noteq> 0 then Some (gas_access_size g * 8)
        else let msb = uacpi_bit_scan_backward (ucast off + ucast w - 1); width = push_bit msb 1 :: u8 in
          if width \<le> 8 then Some 8 else back_off (gas_address g) width))"

text \<open>The structure may be null. The second component is what is written to \<open>access_bit_width\<close>.\<close>

definition gas_validate :: "acpi_gas option \<Rightarrow> (uacpi_status \<times> u8) option" where
  "gas_validate gas = (case gas of
     None \<Rightarrow> Some (UACPI_STATUS_INVALID_ARGUMENT, 0)
   | Some g \<Rightarrow>
       if gas_address g = 0 then Some (UACPI_STATUS_NOT_FOUND, 0)
       else if gas_address_space_id g \<noteq> UACPI_ADDRESS_SPACE_SYSTEM_IO
             \<and> gas_address_space_id g \<noteq> UACPI_ADDRESS_SPACE_SYSTEM_MEMORY then Some (UACPI_STATUS_UNIMPLEMENTED, 0)
       else if gas_access_size g > 4 then Some (UACPI_STATUS_UNIMPLEMENTED, 0)
       else map_option (\<lambda>width.
         let total_width = (ucast (gas_register_bit_offset g) + ucast (gas_register_bit_width g) + (ucast width - 1))
                             AND NOT (ucast width - 1) :: u64
         in if total_width > 64 then (UACPI_STATUS_UNIMPLEMENTED, width) else (UACPI_STATUS_OK, width))
         (gas_get_access_bit_width g))"

section \<open>Reading and writing\<close>

definition gas_access_mask :: "u8 \<Rightarrow> u64" where
  "gas_access_mask width = (if width div 8 < 8 then NOT (push_bit (unat width) (NOT 0)) else NOT 0)"

text \<open>
  One access: from a port, or from memory that is mapped for it. What is unmapped is given in bits, as in
  the code.
\<close>

definition gas_read_unit :: "'s gas_host \<Rightarrow> acpi_gas \<Rightarrow> u8 \<Rightarrow> u64 \<Rightarrow> ('s, uacpi_status \<times> u64) kern" where
  "gas_read_unit host g width addr =
     (if gas_address_space_id g = UACPI_ADDRESS_SPACE_SYSTEM_IO then uacpi_system_io_read host addr (width div 8)
      else kbind (gh_map host addr (ucast (width div 8))) (\<lambda>virt.
        if virt = 0 then kret (UACPI_STATUS_MAPPING_FAILED, 0)
        else kbind (uacpi_system_memory_read host virt (width div 8)) (\<lambda>r. kseq (gh_unmap host virt (ucast width)) (kret r))))"

definition gas_write_unit :: "'s gas_host \<Rightarrow> acpi_gas \<Rightarrow> u8 \<Rightarrow> u64 \<Rightarrow> u64 \<Rightarrow> ('s, uacpi_status) kern" where
  "gas_write_unit host g width addr data =
     (if gas_address_space_id g = UACPI_ADDRESS_SPACE_SYSTEM_IO then uacpi_system_io_write host addr (width div 8) data
      else kbind (gh_map host addr (ucast (width div 8))) (\<lambda>virt.
        if virt = 0 then kret UACPI_STATUS_MAPPING_FAILED
        else kbind (uacpi_system_memory_write host virt (width div 8) data) (\<lambda>r. kseq (gh_unmap host virt (ucast width)) (kret r))))"

definition gas_read_round :: "'s gas_host \<Rightarrow> acpi_gas \<Rightarrow> u8 \<Rightarrow> u8 \<times> u8 \<times> u8 \<times> u64
    \<Rightarrow> ('s, (u8 \<times> u8 \<times> u8 \<times> u64) + (uacpi_status \<times> u64)) kern" where
  "gas_read_round host g width = (\<lambda>(idx, bits_left, bit_offset, out).
     if bits_left = 0 then kret (Inr (UACPI_STATUS_OK, out))
     else let go = (\<lambda>data bit_offset. Inl (idx + 1, bits_left - min bits_left width, bit_offset,
                      out OR push_bit (unat idx * unat width) (data AND gas_access_mask width))) in
       if bit_offset \<ge> width then kret (go 0 (bit_offset - width))
       else kbind (gas_read_unit host g width (gas_address g + of_nat (unat idx * unat (width div 8)))) (\<lambda>(ret, data).
         kret (if ret \<noteq> UACPI_STATUS_OK then Inr (ret, out) else go data bit_offset)))"

definition gas_write_round :: "'s gas_host \<Rightarrow> acpi_gas \<Rightarrow> u8 \<Rightarrow> u64 \<Rightarrow> u8 \<times> u8 \<times> u8
    \<Rightarrow> ('s, (u8 \<times> u8 \<times> u8) + uacpi_status) kern" where
  "gas_write_round host g width in_value = (\<lambda>(idx, bits_left, bit_offset).
     if bits_left = 0 then kret (Inr UACPI_STATUS_OK)
     else let data = drop_bit (unat idx * unat width) in_value AND gas_access_mask width;
              go = (\<lambda>bit_offset. Inl (idx + 1, bits_left - min bits_left width, bit_offset)) in
       if bit_offset \<ge> width then kret (go (bit_offset - width))
       else kbind (gas_write_unit host g width (gas_address g + of_nat (unat idx * unat (width div 8))) data) (\<lambda>ret.
         kret (if ret \<noteq> UACPI_STATUS_OK then Inr ret else go bit_offset)))"

text \<open>\<open>out\<close> is what \<open>*out_value\<close> holds when the function is called.\<close>

definition uacpi_gas_read :: "'s gas_host \<Rightarrow> acpi_gas option \<Rightarrow> u64 \<Rightarrow> ('s, uacpi_status \<times> u64) kern" where
  "uacpi_gas_read host gas out = (case gas_validate gas of
     None \<Rightarrow> (\<lambda>s. Diverge)
   | Some (ret, width) \<Rightarrow>
       if ret \<noteq> UACPI_STATUS_OK then kret (ret, out)
       else case gas of None \<Rightarrow> kfault | Some g \<Rightarrow>
         kloop (gas_read_round host g width)
           (0, gas_register_bit_offset g + gas_register_bit_width g, gas_register_bit_offset g, 0))"

definition uacpi_gas_write :: "'s gas_host \<Rightarrow> acpi_gas option \<Rightarrow> u64 \<Rightarrow> ('s, uacpi_status) kern" where
  "uacpi_gas_write host gas in_value = (case gas_validate gas of
     None \<Rightarrow> (\<lambda>s. Diverge)
   | Some (ret, width) \<Rightarrow>
       if ret \<noteq> UACPI_STATUS_OK then kret ret
       else case gas of None \<Rightarrow> kfault | Some g \<Rightarrow>
         kloop (gas_write_round host g width in_value)
           (0, gas_register_bit_offset g + gas_register_bit_width g, gas_register_bit_offset g))"

section \<open>The access width is found\<close>

lemma back_off_returns:
  assumes "width \<in> {8, 16, 32, 64, 128}"
  shows "\<exists>v \<in> {8, 16, 32, 64, 128}. back_off addr width = Some v"
proof -
  have 8: "back_off addr 8 = Some 8" by (subst back_off.simps) simp
  have 16: "back_off addr 16 \<in> Some ` {8, 16}" by (subst back_off.simps) (simp add: 8)
  have 32: "back_off addr 32 \<in> Some ` {8, 16, 32}" using 16 by (subst back_off.simps) auto
  have 64: "back_off addr 64 \<in> Some ` {8, 16, 32, 64}" using 32 by (subst back_off.simps) auto
  have 128: "back_off addr 128 \<in> Some ` {8, 16, 32, 64, 128}" using 64 by (subst back_off.simps) auto
  show ?thesis using assms 8 16 32 64 128 by auto
qed

lemma power_of_two_bytes:
  fixes w :: u8
  assumes "w AND (w - 1) = 0" "w AND (8 - 1) = 0"
  shows "w \<in> {0, 8, 16, 32, 64, 128}"
proof -
  have "\<forall>n \<in> set [0..<256]. (of_nat n :: u8) AND (of_nat n - 1) = 0 \<and> (of_nat n :: u8) AND (8 - 1) = 0
      \<longrightarrow> n \<in> {0, 8, 16, 32, 64, 128}" by code_simp
  moreover have "unat w \<in> set [0..<256]" using unsigned_less [of w] by simp
  moreover have w: "of_nat (unat w) = w" by simp
  ultimately have "unat w \<in> {0, 8, 16, 32, 64, 128}" using assms by (auto simp del: word_of_nat_eq_iff)
  then have "of_nat (unat w) \<in> (of_nat ` {0, 8, 16, 32, 64, 128} :: u8 set)" by (rule imageI)
  then show ?thesis unfolding w by simp
qed

lemma msb_power: "(push_bit n 1 :: u8) \<in> {0, 1, 2, 4, 8, 16, 32, 64, 128}"
proof (cases "n < 8")
  case True
  then consider "n = 0" | "n = 1" | "n = 2" | "n = 3" | "n = 4" | "n = 5" | "n = 6" | "n = 7" by linarith
  then show ?thesis by cases simp_all
next
  case False
  then have "(push_bit n 1 :: u8) = 0" by (intro bit_eqI) (simp add: bit_simps)
  then show ?thesis by simp
qed

text \<open>
  The access width of a register is always found: the loop that looks for an aligned width ends.
  It is a number of bytes that memory can be accessed with, 1, 2, 4 or 8 (or 0 for a register without bits),
  unless the structure asks for an access size of 3: that size means four bytes, but the code takes
  it as a number of bytes, so that a register with a bit offset gets a width of 24 bits, which no access supports.
\<close>

theorem gas_access_width_found:
  "\<exists>width. gas_get_access_bit_width g = Some width
     \<and> (gas_access_size g \<in> {0, 1, 2, 4} \<longrightarrow> width \<in> {0, 8, 16, 32, 64})
     \<and> (gas_access_size g = 3 \<and> gas_register_bit_offset g \<noteq> 0 \<longrightarrow> width = 24)"
proof -
  let ?w = "gas_register_bit_width g" and ?cap = "if gas_address_space_id g = UACPI_ADDRESS_SPACE_SYSTEM_IO then 32 else 64 :: u8"
  consider (plain) "gas_register_bit_offset g = 0" "?w AND (?w - 1) = 0" "?w AND (8 - 1) = 0"
    | (sized) "\<not> (gas_register_bit_offset g = 0 \<and> ?w AND (?w - 1) = 0 \<and> ?w AND (8 - 1) = 0)" "gas_access_size g \<noteq> 0"
    | (search) "\<not> (gas_register_bit_offset g = 0 \<and> ?w AND (?w - 1) = 0 \<and> ?w AND (8 - 1) = 0)" "gas_access_size g = 0"
    by blast
  then show ?thesis
  proof cases
    case plain
    have e: "gas_get_access_bit_width g = Some (min ?w ?cap)" using plain by (simp add: gas_get_access_bit_width_def Let_def)
    moreover have "min ?w ?cap \<in> {0, 8, 16, 32, 64}" using power_of_two_bytes [OF plain(2,3)] by (auto simp: min_def)
    ultimately show ?thesis using plain(1) by blast
  next
    case sized
    then have "gas_get_access_bit_width g = Some (min (gas_access_size g * 8) ?cap)"
      unfolding gas_get_access_bit_width_def Let_def if_not_P [OF sized(1)] by simp
    then show ?thesis using sized(2) by (auto simp: min_def)
  next
    case search
    define width where "width = (push_bit (uacpi_bit_scan_backward (ucast (gas_register_bit_offset g) + ucast ?w - 1)) 1 :: u8)"
    obtain v where v: "(if width \<le> 8 then Some 8 else back_off (gas_address g) width) = Some v" "v \<in> {8, 16, 32, 64, 128}"
      using back_off_returns [of width "gas_address g"] msb_power [of "uacpi_bit_scan_backward (ucast (gas_register_bit_offset g) + ucast ?w - 1)"]
      unfolding width_def [symmetric] by (cases "width \<le> 8") auto
    have "gas_get_access_bit_width g = Some (min v ?cap)"
      using search(2) v(1) unfolding gas_get_access_bit_width_def Let_def width_def [symmetric] if_not_P [OF search(1)] by simp
    moreover have "min v ?cap \<in> {0, 8, 16, 32, 64}" using v(2) by (auto simp: min_def)
    ultimately show ?thesis using search(2) by simp
  qed
qed

theorem gas_access_width_found_witness:
  "gas_get_access_bit_width \<lparr>gas_address_space_id = 0, gas_register_bit_width = 12, gas_register_bit_offset = 0,
       gas_access_size = 0, gas_address = 0xFED00001\<rparr> \<in> Some ` {0, 8, 16, 32, 64}
   \<and> gas_get_access_bit_width \<lparr>gas_address_space_id = 0, gas_register_bit_width = 8, gas_register_bit_offset = 4,
       gas_access_size = 3, gas_address = 0xFED00000\<rparr> = Some 24"
  using gas_access_width_found [of "\<lparr>gas_address_space_id = 0, gas_register_bit_width = 12, gas_register_bit_offset = 0,
       gas_access_size = 0, gas_address = 0xFED00001\<rparr>"]
    gas_access_width_found [of "\<lparr>gas_address_space_id = 0, gas_register_bit_width = 8, gas_register_bit_offset = 4,
       gas_access_size = 3, gas_address = 0xFED00000\<rparr>"]
  by auto

section \<open>Registers in memory\<close>

text \<open>A host whose memory is directly accessible and that has no ports.\<close>

definition memory_host :: "mem gas_host" where
  "memory_host = \<lparr>gh_io_map = (\<lambda>_ _. kret (UACPI_STATUS_UNIMPLEMENTED, 0)), gh_io_unmap = (\<lambda>_. kret ()),
     gh_io_read = (\<lambda>_ _ _. kret (UACPI_STATUS_INTERNAL_ERROR, 0)), gh_io_write = (\<lambda>_ _ _ _. kret UACPI_STATUS_INTERNAL_ERROR),
     gh_map = (\<lambda>addr _. kret addr), gh_unmap = (\<lambda>_ _. kret ()),
     gh_load = (\<lambda>p n. kget (\<lambda>m. le_word (bytes_at m p n))),
     gh_store = (\<lambda>p n v. kmod (\<lambda>m. store_bytes m p (word_bytes n v)))\<rparr>"

lemma le_word_append: "le_word (xs @ ys) = le_word xs OR push_bit (8 * length xs) (le_word ys :: 'a::len word)"
  by (induction xs) (simp_all add: push_bit_or or.assoc add.commute)

lemma le_word_bit_bound: "bit (le_word bs :: 'a::len word) i \<Longrightarrow> i < 8 * length bs"
proof (induction bs arbitrary: i)
  case (Cons b bs)
  show ?case
  proof (cases "i < 8")
    case False
    then have "bit (le_word bs :: 'a word) (i - 8)" using Cons.prems bit_u8_ge [of i b] by (auto simp: bit_simps)
    from Cons.IH [OF this] show ?thesis using False by simp
  qed simp
qed simp

lemma bytes_at_add: "bytes_at m a (p + q) = bytes_at m a p @ bytes_at m (a + of_nat p) q"
  by (rule nth_equalityI) (auto simp: nth_append)

lemma word_bytes_add: "word_bytes (p + q) v = word_bytes p v @ word_bytes q (drop_bit (8 * p) v)"
  by (induction p arbitrary: v) (simp_all add: add.commute)

lemma word_bytes_mask: "8 * q \<le> n \<Longrightarrow> word_bytes q (take_bit n v) = word_bytes q v"
proof (induction q arbitrary: n v)
  case (Suc q)
  have "ucast (take_bit n v) = (ucast v :: u8)" using Suc.prems by (intro bit_eqI) (auto simp: bit_simps)
  moreover have "drop_bit 8 (take_bit n v) = take_bit (n - 8) (drop_bit 8 v)" by (simp add: drop_bit_take_bit)
  ultimately show ?case using Suc by simp
qed simp

lemma store_bytes_append:
  assumes "length xs + length ys < 2 ^ 64"
  shows "store_bytes (store_bytes m a xs) (a + of_nat (length xs)) ys = store_bytes m a (xs @ ys)"
proof
  fix x
  define y where "y = x - a"
  have l: "unat (of_nat (length xs) :: u64) = length xs" using assms by (simp add: unat_of_nat)
  have e: "x - (a + of_nat (length xs)) = y - of_nat (length xs)" by (simp add: y_def)
  have "unat (y - of_nat (length xs)) = (if length xs \<le> unat y then unat y - length xs else unat y + 2 ^ 64 - length xs)"
    using unat_sub_if' [of y "of_nat (length xs)"] l by simp
  then show "store_bytes (store_bytes m a xs) (a + of_nat (length xs)) ys x = store_bytes m a (xs @ ys) x"
    using assms unfolding store_bytes_def e y_def [symmetric] by (auto simp: nth_append)
qed

definition gas_bytes :: "acpi_gas \<Rightarrow> u8 \<Rightarrow> nat" where
  "gas_bytes g width = (let c = unat width div 8 in
     c * windows c 0 (unat (gas_register_bit_offset g) + unat (gas_register_bit_width g)))"

lemma gas_access_mask_eq: "width \<in> {8, 16, 32, 64} \<Longrightarrow> x AND gas_access_mask width = take_bit (unat width) x"
  by (rule bit_eqI) (auto simp: gas_access_mask_def bit_simps)

text \<open>A total width of at most 64 bits means that the register itself has at most 64.\<close>

lemma align_up_bound:
  assumes "n \<le> 510" "width \<in> {8, 16, 32, 64 :: u64}" "(of_nat n + (width - 1)) AND NOT (width - 1) \<le> (64 :: u64)"
  shows "n \<le> 64"
proof -
  obtain k where k: "width = 2 ^ k" "k \<le> 6"
    using assms(2) by (auto intro: that [of 3] that [of 4] that [of 5] that [of 6])
  define y where "y = (of_nat n + mask k :: u64)"
  have p: "(2 :: nat) ^ k \<le> 2 ^ 6" using k(2) by (intro power_increasing) simp_all
  have "(mask k :: u64) = of_nat (2 ^ k - 1)" by (simp add: mask_eq_exp_minus_1)
  then have y: "y = of_nat (n + (2 ^ k - 1))" by (simp only: y_def of_nat_add)
  then have uy: "unat y = n + (2 ^ k - 1)" using assms(1) p by (simp add: unat_of_nat del: of_nat_diff of_nat_add)
  have "y AND NOT (mask k) = y - take_bit k y"
  proof -
    have "y AND NOT (mask k) = push_bit k (drop_bit k y)" by (rule bit_eqI) (auto simp: bit_simps)
    then show ?thesis using bits_ident [of k y] by (simp add: eq_diff_eq)
  qed
  moreover have t: "take_bit k (unat y) < 2 ^ k" "take_bit k (unat y) \<le> unat y" by (simp_all add: take_bit_nat_less_exp)
  ultimately have "unat (y AND NOT (mask k)) = unat y - take_bit k (unat y)"
    by (simp add: unat_sub word_le_nat_alt unsigned_take_bit_eq)
  then have "n \<le> unat (y AND NOT (mask k))" using uy t(1) by linarith
  moreover have "unat (y AND NOT (mask k)) \<le> 64"
    using assms(3) unfolding k(1) mask_eq_exp_minus_1 [symmetric] y_def by (simp add: word_le_nat_alt)
  ultimately show ?thesis by simp
qed

definition gas_in_memory :: "acpi_gas \<Rightarrow> u8 \<Rightarrow> bool" where
  "gas_in_memory g width \<longleftrightarrow> gas_validate (Some g) = Some (UACPI_STATUS_OK, width) \<and> width \<in> {8, 16, 32, 64}
     \<and> gas_address_space_id g = UACPI_ADDRESS_SPACE_SYSTEM_MEMORY \<and> gas_register_bit_offset g < width
     \<and> unat (gas_address g) + 8 \<le> 2 ^ 64"

lemma gas_in_memory_facts:
  assumes "gas_in_memory g width"
  defines "n \<equiv> unat (gas_register_bit_offset g) + unat (gas_register_bit_width g)" and "c \<equiv> unat width div 8"
  shows "n \<le> 64" "c \<in> {1, 2, 4, 8}" "unat width = 8 * c" "width div 8 = of_nat c"
    "gas_register_bit_offset g + gas_register_bit_width g = of_nat n" "gas_address g \<noteq> 0"
proof -
  have v: "gas_validate (Some g) = Some (UACPI_STATUS_OK, width)" and w: "width \<in> {8, 16, 32, 64}"
    using assms(1) by (simp_all add: gas_in_memory_def)
  have o: "ucast (gas_register_bit_offset g) + ucast (gas_register_bit_width g) = (of_nat n :: u64)"
    by (simp add: n_def unsigned_ucast_eq)
  have "unat (gas_register_bit_offset g) < 2 ^ 8" "unat (gas_register_bit_width g) < 2 ^ 8"
    using unsigned_less [of "gas_register_bit_offset g"] unsigned_less [of "gas_register_bit_width g"] by simp_all
  then have "n \<le> 510" by (simp add: n_def)
  moreover have "(of_nat n + (ucast width - 1)) AND NOT (ucast width - 1) \<le> (64 :: u64)"
    using v unfolding gas_validate_def o [symmetric]
    by (auto simp: Let_def UACPI_STATUS_OK_def UACPI_STATUS_NOT_FOUND_def UACPI_STATUS_UNIMPLEMENTED_def not_less split: if_splits)
  ultimately show "n \<le> 64" using w by (intro align_up_bound [of n "ucast width"]) auto
  show "c \<in> {1, 2, 4, 8}" "unat width = 8 * c" "width div 8 = of_nat c" using w by (auto simp: c_def)
  show "gas_register_bit_offset g + gas_register_bit_width g = of_nat n" by (simp add: n_def)
  show "gas_address g \<noteq> 0" using v by (auto simp: gas_validate_def UACPI_STATUS_OK_def UACPI_STATUS_NOT_FOUND_def)
qed

text \<open>The loop variables after \<open>k\<close> accesses of \<open>c\<close> bytes to a register of \<open>n\<close> bits.\<close>

definition gas_progress :: "nat \<Rightarrow> nat \<Rightarrow> nat \<Rightarrow> u8 \<Rightarrow> u8 \<Rightarrow> bool" where
  "gas_progress n c k idx bits_left \<longleftrightarrow> idx = of_nat k \<and> bits_left = of_nat (n - 8 * c * k) \<and> (k = 0 \<or> 8 * c * (k - 1) < n)"

lemma gas_progress_step:
  assumes "gas_progress n c k idx bits_left" "n \<le> 64" "c \<in> {1, 2, 4, 8}" "unat width = 8 * c" "bits_left \<noteq> 0"
  shows "gas_progress n c (Suc k) (idx + 1) (bits_left - min bits_left width)" "8 * c * k < n" "unat idx = k"
    "unat (bits_left - min bits_left width) < unat bits_left"
proof -
  have u: "unat bits_left = n - 8 * c * k" using assms(1,2) by (simp add: gas_progress_def unat_of_nat)
  moreover have "unat bits_left \<noteq> 0" using assms(5) by (simp add: unat_eq_zero)
  ultimately show k: "8 * c * k < n" by simp
  then have "k < 8" using assms(2,3) by auto
  then show "unat idx = k" using assms(1) by (simp add: gas_progress_def unat_of_nat)
  have m: "unat (bits_left - min bits_left width) = n - 8 * c * k - 8 * c"
    using u assms(4) by (auto simp: min_def word_le_nat_alt unat_sub)
  then show "unat (bits_left - min bits_left width) < unat bits_left" using u k assms(3) by auto
  have "bits_left - min bits_left width = of_nat (n - 8 * c * Suc k)"
    using m by (intro word_unat_eq_iff [THEN iffD2]) (use assms(2) in \<open>simp add: unat_of_nat\<close>)
  then show "gas_progress n c (Suc k) (idx + 1) (bits_left - min bits_left width)"
    using assms(1) k by (simp add: gas_progress_def)
qed

lemma gas_progress_end:
  assumes "gas_progress n c k idx 0" "n \<le> 64" "c \<in> {1, 2, 4, 8}"
  shows "k = windows c 0 n"
proof -
  have "n \<le> 8 * c * k" using assms by (auto simp: gas_progress_def dest: arg_cong [of _ _ unat] simp: unat_of_nat)
  moreover have "k = 0 \<or> 8 * c * (k - 1) < n" using assms(1) by (simp add: gas_progress_def)
  ultimately have "8 * c * k \<le> 0 + n + 8 * c - 1" "0 + n + 8 * c - 1 < 8 * c * Suc k"
    using assms(3) by (cases k; auto)+
  then show ?thesis unfolding windows_def by (rule div_nat_eqI [symmetric])
qed

lemma memory_host_simps [simp]:
  "gh_map memory_host a n = kret a" "gh_unmap memory_host a n = kret ()"
  "gh_load memory_host p k = kget (\<lambda>m. le_word (bytes_at m p k))"
  "gh_store memory_host p k v = kmod (\<lambda>m. store_bytes m p (word_bytes k v))"
  by (simp_all add: memory_host_def)

lemma gas_unit_memory:
  assumes "gas_address_space_id g = UACPI_ADDRESS_SPACE_SYSTEM_MEMORY" "width div 8 = of_nat c" "c \<in> {1, 2, 4, 8}" "addr \<noteq> 0"
  shows "gas_read_unit memory_host g width addr m = Ret (UACPI_STATUS_OK, le_word (bytes_at m addr c)) m"
    "gas_write_unit memory_host g width addr v m = Ret UACPI_STATUS_OK (store_bytes m addr (word_bytes c v))"
proof -
  have "gas_address_space_id g \<noteq> UACPI_ADDRESS_SPACE_SYSTEM_IO" using assms(1)
    by (simp add: UACPI_ADDRESS_SPACE_SYSTEM_MEMORY_def UACPI_ADDRESS_SPACE_SYSTEM_IO_def)
  then show "gas_read_unit memory_host g width addr m = Ret (UACPI_STATUS_OK, le_word (bytes_at m addr c)) m"
    "gas_write_unit memory_host g width addr v m = Ret UACPI_STATUS_OK (store_bytes m addr (word_bytes c v))"
    using assms(2-4)
    by (auto simp: gas_read_unit_def gas_write_unit_def uacpi_system_memory_read_def uacpi_system_memory_write_def
        kbind_cases kseq_cases)
qed

lemma gas_unit_address:
  assumes "gas_in_memory g width" "8 * (unat width div 8) * k < 64"
  shows "gas_address g + of_nat (k * (unat width div 8)) \<noteq> 0"
proof -
  have c: "unat width div 8 \<in> {1, 2, 4, 8}" using gas_in_memory_facts(2) [OF assms(1)] .
  have "k * (unat width div 8) < 8" using assms(2) c by auto
  then have "unat (gas_address g + of_nat (k * (unat width div 8))) = unat (gas_address g) + k * (unat width div 8)"
    using assms(1) by (simp add: gas_in_memory_def unat_word_ariths unat_of_nat del: of_nat_mult)
  moreover have "unat (gas_address g) \<noteq> 0" using gas_in_memory_facts(6) [OF assms(1)] by (simp add: unat_eq_zero)
  ultimately show ?thesis by auto
qed

lemma uacpi_gas_read_memory:
  assumes "gas_in_memory g width"
  shows "uacpi_gas_read memory_host (Some g) out m = Ret (UACPI_STATUS_OK, le_word (bytes_at m (gas_address g) (gas_bytes g width))) m"
proof -
  define n where "n = unat (gas_register_bit_offset g) + unat (gas_register_bit_width g)"
  define c where "c = unat width div 8"
  note F = gas_in_memory_facts [OF assms, folded n_def c_def]
  define P where "P = (\<lambda>(idx, bits_left, bit_offset, out) s. s = m \<and> bit_offset = gas_register_bit_offset g
     \<and> (\<exists>k. gas_progress n c k idx bits_left \<and> out = (le_word (bytes_at m (gas_address g) (c * k)) :: u64)))"
  have "\<exists>a s'. kloop (gas_read_round memory_host g width) (0, of_nat n, gas_register_bit_offset g, 0) m = Ret a s'
      \<and> (a, s') = ((UACPI_STATUS_OK, le_word (bytes_at m (gas_address g) (gas_bytes g width))), m)"
  proof (rule kloop_total [where P = P and f = "\<lambda>(_, bits_left, _, _) _. unat bits_left"])
    show "P (0, of_nat n, gas_register_bit_offset g, 0) m"
      by (auto simp: P_def gas_progress_def bytes_at_def intro!: exI [of _ 0])
  next
    fix x s assume "P x s"
    then obtain idx bl out k where x: "x = (idx, bl, gas_register_bit_offset g, out)" "s = m" "gas_progress n c k idx bl"
        "out = le_word (bytes_at m (gas_address g) (c * k))"
      by (cases x) (auto simp: P_def)
    show "(\<exists>x' s'. gas_read_round memory_host g width x s = Ret (Inl x') s' \<and> P x' s'
            \<and> (case x' of (_, bits_left, _, _) \<Rightarrow> \<lambda>_. unat bits_left) s' < (case x of (_, bits_left, _, _) \<Rightarrow> \<lambda>_. unat bits_left) s)
        \<or> (\<exists>a s'. gas_read_round memory_host g width x s = Ret (Inr a) s'
            \<and> (a, s') = ((UACPI_STATUS_OK, le_word (bytes_at m (gas_address g) (gas_bytes g width))), m))"
    proof (cases "bl = 0")
      case True
      then have "k = windows c 0 n" using gas_progress_end [of n c k idx] x(3) F(1,2) by simp
      then have "c * k = gas_bytes g width" by (simp add: gas_bytes_def Let_def c_def n_def)
      then show ?thesis using True x by (simp add: gas_read_round_def)
    next
      case False
      note S = gas_progress_step [OF x(3) F(1,2,3) False]
      define addr where "addr = gas_address g + of_nat (k * c)"
      have "8 * (unat width div 8) * k < 64" using S(2) F(1) unfolding c_def by linarith
      then have "addr \<noteq> 0" unfolding addr_def c_def by (rule gas_unit_address [OF assms])
      note U = gas_unit_memory(1) [OF _ F(4,2) this, of g m]
      have nle: "\<not> width \<le> gas_register_bit_offset g" using assms by (simp add: gas_in_memory_def not_le)
      have "unat (width div 8) = c" using F(2,4) by auto
      then have r: "gas_read_round memory_host g width x s = Ret (Inl (idx + 1, bl - min bl width, gas_register_bit_offset g,
          out OR push_bit (k * (8 * c)) (take_bit (8 * c) (le_word (bytes_at m addr c))))) m"
        using False x(1,2) S(3) U assms F(3) gas_access_mask_eq [of width]
        by (simp add: gas_read_round_def kbind_cases addr_def gas_in_memory_def Let_def nle)
      have "take_bit (8 * c) (le_word (bytes_at m addr c) :: u64) = le_word (bytes_at m addr c)"
        by (rule bit_eqI) (auto simp: bit_simps intro: ccontr dest: le_word_bit_bound)
      moreover have "bytes_at m (gas_address g) (c * Suc k) = bytes_at m (gas_address g) (c * k) @ bytes_at m addr c"
        using bytes_at_add [of m "gas_address g" "c * k" c] by (simp add: addr_def add.commute mult.commute)
      ultimately have "out OR push_bit (k * (8 * c)) (take_bit (8 * c) (le_word (bytes_at m addr c)))
          = le_word (bytes_at m (gas_address g) (c * Suc k))"
        using x(4) by (simp add: le_word_append algebra_simps)
      then show ?thesis using r S(1,4) x(1) by (auto simp: P_def)
    qed
  qed
  then show ?thesis using assms F(5) by (auto simp: uacpi_gas_read_def gas_in_memory_def)
qed

lemma uacpi_gas_write_memory:
  assumes "gas_in_memory g width"
  shows "uacpi_gas_write memory_host (Some g) v m = Ret UACPI_STATUS_OK (store_bytes m (gas_address g) (word_bytes (gas_bytes g width) v))"
proof -
  define n where "n = unat (gas_register_bit_offset g) + unat (gas_register_bit_width g)"
  define c where "c = unat width div 8"
  note F = gas_in_memory_facts [OF assms, folded n_def c_def]
  define P where "P = (\<lambda>(idx, bits_left, bit_offset) s. bit_offset = gas_register_bit_offset g
     \<and> (\<exists>k. gas_progress n c k idx bits_left \<and> s = store_bytes m (gas_address g) (word_bytes (c * k) v)))"
  have "\<exists>a s'. kloop (gas_write_round memory_host g width v) (0, of_nat n, gas_register_bit_offset g) m = Ret a s'
      \<and> (a, s') = (UACPI_STATUS_OK, store_bytes m (gas_address g) (word_bytes (gas_bytes g width) v))"
  proof (rule kloop_total [where P = P and f = "\<lambda>(_, bits_left, _) _. unat bits_left"])
    show "P (0, of_nat n, gas_register_bit_offset g) m"
      by (auto simp: P_def gas_progress_def store_bytes_def intro!: exI [of _ 0])
  next
    fix x s assume "P x s"
    then obtain idx bl k where x: "x = (idx, bl, gas_register_bit_offset g)" "gas_progress n c k idx bl"
        "s = store_bytes m (gas_address g) (word_bytes (c * k) v)"
      by (cases x) (auto simp: P_def)
    show "(\<exists>x' s'. gas_write_round memory_host g width v x s = Ret (Inl x') s' \<and> P x' s'
            \<and> (case x' of (_, bits_left, _) \<Rightarrow> \<lambda>_. unat bits_left) s' < (case x of (_, bits_left, _) \<Rightarrow> \<lambda>_. unat bits_left) s)
        \<or> (\<exists>a s'. gas_write_round memory_host g width v x s = Ret (Inr a) s'
            \<and> (a, s') = (UACPI_STATUS_OK, store_bytes m (gas_address g) (word_bytes (gas_bytes g width) v)))"
    proof (cases "bl = 0")
      case True
      then have "k = windows c 0 n" using gas_progress_end [of n c k idx] x(2) F(1,2) by simp
      then have "c * k = gas_bytes g width" by (simp add: gas_bytes_def Let_def c_def n_def)
      then show ?thesis using True x by (simp add: gas_write_round_def)
    next
      case False
      note S = gas_progress_step [OF x(2) F(1,2,3) False]
      define addr where "addr = gas_address g + of_nat (k * c)"
      have le: "8 * (unat width div 8) * k < 64" using S(2) F(1) unfolding c_def by linarith
      then have "addr \<noteq> 0" unfolding addr_def c_def by (rule gas_unit_address [OF assms])
      note U = gas_unit_memory(2) [OF _ F(4,2) this, of g]
      have nle: "\<not> width \<le> gas_register_bit_offset g" using assms by (simp add: gas_in_memory_def not_le)
      have "unat (width div 8) = c" using F(2,4) by auto
      then have r: "gas_write_round memory_host g width v x s = Ret (Inl (idx + 1, bl - min bl width, gas_register_bit_offset g))
          (store_bytes s addr (word_bytes c (take_bit (8 * c) (drop_bit (k * (8 * c)) v))))"
        using False x(1) S(3) U assms F(3) gas_access_mask_eq [of width]
        by (simp add: gas_write_round_def kbind_cases addr_def gas_in_memory_def Let_def nle)
      have a: "addr = gas_address g + of_nat (length (word_bytes (c * k) v))" by (simp add: addr_def mult.commute)
      have "store_bytes s addr (word_bytes c (take_bit (8 * c) (drop_bit (k * (8 * c)) v)))
          = store_bytes m (gas_address g) (word_bytes (c * k) v @ word_bytes c (drop_bit (8 * (c * k)) v))"
        unfolding word_bytes_mask [OF le_refl] x(3) a using le F(2)
        by (subst store_bytes_append) (auto simp: c_def [symmetric] algebra_simps)
      also have "\<dots> = store_bytes m (gas_address g) (word_bytes (c * Suc k) v)"
        using word_bytes_add [of "c * k" c v] by (simp add: add.commute)
      finally show ?thesis using r S(1,4) x(1) by (auto simp: P_def)
    qed
  qed
  then show ?thesis using assms F(5) by (auto simp: uacpi_gas_write_def gas_in_memory_def)
qed

lemma gas_bytes_bound:
  assumes "gas_in_memory g width"
  shows "gas_bytes g width \<le> 8 * (64 + 63)"
proof -
  let ?n = "unat (gas_register_bit_offset g) + unat (gas_register_bit_width g)" and ?c = "unat width div 8"
  have "windows ?c 0 ?n \<le> 0 + ?n + 8 * ?c - 1" unfolding windows_def by (rule div_le_dividend)
  then have "windows ?c 0 ?n \<le> 64 + 63" using gas_in_memory_facts(1,2) [OF assms] by auto
  then show ?thesis unfolding gas_bytes_def Let_def using gas_in_memory_facts(2) [OF assms] by (intro mult_le_mono) auto
qed


text \<open>A register of 48 bits without a preferred access size, at an address that is aligned to 4 only.\<close>

definition demo_gas :: acpi_gas where
  "demo_gas = \<lparr>gas_address_space_id = 0, gas_register_bit_width = 48, gas_register_bit_offset = 0, gas_access_size = 0,
     gas_address = 0xFED00004\<rparr>"


section \<open>The services of the kernel\<close>

text \<open>\<open>slot\<close> is the address of the local variables that the kernel's functions write their results to.\<close>

definition kernel_host :: "u64 \<Rightarrow> 'a ahci_scheme gas_host" where
  "kernel_host slot =
     \<lparr>gh_io_map = (\<lambda>base len. kbind (uacpi_kernel_io_map base len slot) (\<lambda>ret.
        kbind (kget (\<lambda>s. load64 (mem s) slot)) (\<lambda>h. kret (ret, h)))),
      gh_io_unmap = uacpi_kernel_io_unmap,
      gh_io_read = (\<lambda>h off n. kbind (uacpi_kernel_io_read h off n slot) (\<lambda>ret.
        kbind (kget (\<lambda>s. load64 (mem s) slot)) (\<lambda>v. kret (ret, v)))),
      gh_io_write = uacpi_kernel_io_write,
      gh_map = uacpi_kernel_map, gh_unmap = uacpi_kernel_unmap,
      gh_load = (\<lambda>p n. if n = 1 then kbind (mmio_read8 p) (\<lambda>v. kret (ucast v))
        else if n = 2 then kbind (mmio_read16 p) (\<lambda>v. kret (ucast v))
        else if n = 4 then kbind (mmio_read32 p) (\<lambda>v. kret (ucast v)) else mmio_read64 p),
      gh_store = (\<lambda>p n v. if n = 1 then emit (MmioWrite8 p (ucast v)) else if n = 2 then emit (MmioWrite16 p (ucast v))
        else if n = 4 then emit (MmioWrite32 p (ucast v)) else emit (MmioWrite64 p v))\<rparr>"

text \<open>The access to register blocks through their generic address structures.\<close>

definition gas_hw :: "'s gas_host \<Rightarrow> (block \<Rightarrow> acpi_gas) \<Rightarrow> 's reg_hw" where
  "gas_hw host gas =
     \<lparr>block_present = (\<lambda>b. gas_address (gas b) \<noteq> 0),
      block_read = (\<lambda>b s. case uacpi_gas_read host (Some (gas b)) 0 s of
         Ret (ret, v) s' \<Rightarrow> (ret, v, s') | _ \<Rightarrow> (UACPI_STATUS_INTERNAL_ERROR, 0, s)),
      block_write = (\<lambda>b v s. case uacpi_gas_write host (Some (gas b)) v s of
         Ret ret s' \<Rightarrow> (ret, s') | _ \<Rightarrow> (UACPI_STATUS_INTERNAL_ERROR, s))\<rparr>"

section \<open>Registers in memory store\<close>

text \<open>
  Registers in memory that do not overlap are storage in the sense of \<open>register_storage\<close>: what \<open>UacpiRegisters\<close> shows of fields holds for them with
  the access loops of this theory in between.
\<close>

definition gas_content :: "(block \<Rightarrow> acpi_gas) \<Rightarrow> (block \<Rightarrow> u8) \<Rightarrow> mem \<Rightarrow> block \<Rightarrow> u64" where
  "gas_content gas width m b = (if gas_address (gas b) = 0 then 0
     else le_word (bytes_at m (gas_address (gas b)) (gas_bytes (gas b) (width b))))"

lemma gas_register_storage:
  assumes mem: "\<And>b. gas_address (gas b) \<noteq> 0 \<Longrightarrow> gas_in_memory (gas b) (width b)"
    and sep: "\<And>b c. b \<noteq> c \<Longrightarrow> gas_address (gas b) \<noteq> 0 \<Longrightarrow> gas_address (gas c) \<noteq> 0 \<Longrightarrow>
      disj_mem (gas_address (gas b)) (gas_bytes (gas b) (width b)) (gas_address (gas c)) (gas_bytes (gas c) (width c))"
  shows "register_storage (gas_hw memory_host gas) (gas_content gas width) (\<lambda>b. 8 * gas_bytes (gas b) (width b))"
proof
  fix b m assume b: "block_present (gas_hw memory_host gas) b"
  then have g: "gas_in_memory (gas b) (width b)" and a: "gas_address (gas b) \<noteq> 0" using mem by (simp_all add: gas_hw_def)
  show "block_read (gas_hw memory_host gas) b m = (UACPI_STATUS_OK, gas_content gas width m b, m)"
    using a uacpi_gas_read_memory [OF g] by (simp add: gas_hw_def gas_content_def)
  fix v :: u64
  let ?m = "store_bytes m (gas_address (gas b)) (word_bytes (gas_bytes (gas b) (width b)) v)"
  have "bytes_at ?m (gas_address (gas b)) (gas_bytes (gas b) (width b)) = word_bytes (gas_bytes (gas b) (width b)) v"
    using bytes_at_store_same [of "word_bytes (gas_bytes (gas b) (width b)) v" m] gas_bytes_bound [OF g] by simp
  then have "gas_content gas width ?m b = take_bit (8 * gas_bytes (gas b) (width b)) v"
    using a by (simp add: gas_content_def le_word_word_bytes)
  moreover have "gas_content gas width ?m c = gas_content gas width m c" if "c \<noteq> b" for c
    using sep [of b c] a that by (auto simp: gas_content_def bytes_at_store_other)
  ultimately have "gas_content gas width ?m = (gas_content gas width m)(b := take_bit (8 * gas_bytes (gas b) (width b)) v)" by auto
  then show "\<exists>m'. block_write (gas_hw memory_host gas) b v m = (UACPI_STATUS_OK, m')
      \<and> gas_content gas width m' = (gas_content gas width m)(b := take_bit (8 * gas_bytes (gas b) (width b)) v)"
    using uacpi_gas_write_memory [OF g, of v m] by (simp add: gas_hw_def)
qed

text \<open>The sleep registers of reduced hardware, a byte each, and no other register.\<close>

definition sleep_gas :: "block \<Rightarrow> acpi_gas" where
  "sleep_gas b = \<lparr>gas_address_space_id = UACPI_ADDRESS_SPACE_SYSTEM_MEMORY, gas_register_bit_width = 8, gas_register_bit_offset = 0,
     gas_access_size = 1, gas_address = (if b = SleepControl then 0xFED00000 else if b = SleepStatus then 0xFED00001 else 0)\<rparr>"

interpretation sleep_registers: register_storage "gas_hw memory_host sleep_gas" "gas_content sleep_gas (\<lambda>_. 8)" "\<lambda>b. 8 * gas_bytes (sleep_gas b) 8"
proof (rule gas_register_storage)
  fix b assume "gas_address (sleep_gas b) \<noteq> 0"
  then show "gas_in_memory (sleep_gas b) 8"
    by (auto simp: gas_in_memory_def gas_validate_def gas_get_access_bit_width_def sleep_gas_def UACPI_ADDRESS_SPACE_SYSTEM_MEMORY_def Let_def split: if_splits)
next
  fix b c assume "b \<noteq> c" "gas_address (sleep_gas b) \<noteq> 0" "gas_address (sleep_gas c) \<noteq> 0"
  then show "disj_mem (gas_address (sleep_gas b)) (gas_bytes (sleep_gas b) 8) (gas_address (sleep_gas c)) (gas_bytes (sleep_gas c) 8)"
    by (auto simp: sleep_gas_def gas_bytes_def windows_def disj_mem_def unsigned_minus_1_eq_mask mask_eq_exp_minus_1 split: if_splits)
qed

section \<open>Registers in port space\<close>

text \<open>
  C30: no register in port space can be reached on this kernel. For every valid structure that describes ports
  has at least one bit and a bit offset below its access width, reading and writing fail with the status that the kernel returns for mapping ports, which
  it does not implement; and so does reading or writing any of the fixed registers (power management status, enable and
  control, and the others of the table) whose first block is in port space. Nothing changes.
\<close>

theorem io_registers_unimplemented:
  fixes s :: "'a ahci_scheme"
  assumes "gas_validate (Some (gas b)) = Some (UACPI_STATUS_OK, width)" "gas_address_space_id (gas b) = UACPI_ADDRESS_SPACE_SYSTEM_IO"
    "gas_register_bit_offset (gas b) + gas_register_bit_width (gas b) \<noteq> 0" "gas_register_bit_offset (gas b) < width"
  shows "uacpi_gas_read (kernel_host slot) (Some (gas b)) out s = Ret (UACPI_STATUS_UNIMPLEMENTED, 0) s
   \<and> uacpi_gas_write (kernel_host slot) (Some (gas b)) v s = Ret UACPI_STATUS_UNIMPLEMENTED s
   \<and> (\<forall>r \<le> 7. rs_accessor0 (registers ! r) = b \<longrightarrow>
        uacpi_read_register (gas_hw (kernel_host slot) gas) junk r s = (UACPI_STATUS_UNIMPLEMENTED, 0, s)
        \<and> uacpi_write_register (gas_hw (kernel_host slot) gas) junk r v s = (UACPI_STATUS_UNIMPLEMENTED, s))"
proof -
  let ?g = "gas b" and ?h = "kernel_host slot :: 'a ahci_scheme gas_host"
  have ne: "UACPI_STATUS_UNIMPLEMENTED \<noteq> UACPI_STATUS_OK" by (simp add: UACPI_STATUS_OK_def UACPI_STATUS_UNIMPLEMENTED_def)
  have nle: "\<not> width \<le> gas_register_bit_offset ?g" using assms(4) by (simp add: not_le)
  have rd: "uacpi_gas_read ?h (Some ?g) out s = Ret (UACPI_STATUS_UNIMPLEMENTED, 0) s" for out
  proof -
    have "gas_read_round ?h ?g width (0, gas_register_bit_offset ?g + gas_register_bit_width ?g, gas_register_bit_offset ?g, 0) s
        = Ret (Inr (UACPI_STATUS_UNIMPLEMENTED, 0)) s"
      using assms(2,3) ne nle by (simp add: gas_read_round_def gas_read_unit_def uacpi_system_io_read_def kernel_host_def
          uacpi_kernel_io_map_def kbind_cases Let_def)
    then show ?thesis using assms(1) by (simp add: uacpi_gas_read_def kloop_step)
  qed
  have wr: "uacpi_gas_write ?h (Some ?g) v s = Ret UACPI_STATUS_UNIMPLEMENTED s" for v
  proof -
    have "gas_write_round ?h ?g width v (0, gas_register_bit_offset ?g + gas_register_bit_width ?g, gas_register_bit_offset ?g) s
        = Ret (Inr UACPI_STATUS_UNIMPLEMENTED) s"
      using assms(2,3) ne nle by (simp add: gas_write_round_def gas_write_unit_def uacpi_system_io_write_def kernel_host_def
          uacpi_kernel_io_map_def kbind_cases Let_def)
    then show ?thesis using assms(1) by (simp add: uacpi_gas_write_def kloop_step)
  qed
  have "gas_address ?g \<noteq> 0" using assms(1) by (auto simp: gas_validate_def UACPI_STATUS_OK_def UACPI_STATUS_NOT_FOUND_def)
  then have blk: "read_block (gas_hw ?h gas) k b old s = (UACPI_STATUS_UNIMPLEMENTED, 0, s)"
      "write_block (gas_hw ?h gas) k b v s = (UACPI_STATUS_UNIMPLEMENTED, s)" for k old v
    using rd wr by (simp_all add: read_block_def write_block_def gas_hw_def)
  have reg: "do_read_register (gas_hw ?h gas) junk reg s = (UACPI_STATUS_UNIMPLEMENTED, 0, s)"
      "do_write_register (gas_hw ?h gas) junk reg v s = (UACPI_STATUS_UNIMPLEMENTED, s)" if "rs_accessor0 reg = b" for reg v
    using that blk ne by (simp_all add: do_read_register_def do_write_register_def write_blocks_def Let_def)
  show ?thesis using rd wr reg
    by (auto simp: uacpi_read_register_def uacpi_write_register_def get_reg_def UACPI_REGISTER_MAX_def)
qed

text \<open>The power management status registers of a PC: two bytes at port 0x600.\<close>

definition pm1_gas :: "block \<Rightarrow> acpi_gas" where
  "pm1_gas b = \<lparr>gas_address_space_id = UACPI_ADDRESS_SPACE_SYSTEM_IO, gas_register_bit_width = 16, gas_register_bit_offset = 0,
     gas_access_size = 2, gas_address = 0x600\<rparr>"

theorem io_registers_unimplemented_witness:
  "uacpi_read_register (gas_hw (kernel_host 0x1000) pm1_gas) 0 UACPI_REGISTER_PM1_STS ahci_boot
     = (UACPI_STATUS_UNIMPLEMENTED, 0, ahci_boot)"
proof -
  have "gas_validate (Some (pm1_gas Pm1aStatus)) = Some (UACPI_STATUS_OK, 16)"
    by (simp add: gas_validate_def gas_get_access_bit_width_def pm1_gas_def UACPI_ADDRESS_SPACE_SYSTEM_IO_def Let_def)
  with io_registers_unimplemented [where gas = pm1_gas and b = Pm1aStatus and width = 16 and slot = "0x1000" and s = ahci_boot and junk = 0]
  show ?thesis by (auto simp: pm1_gas_def UACPI_REGISTER_PM1_STS_def registers_def gas_register_def)
qed

end
