(* ===== verification/UacpiFadt.thy ===== *)
theory UacpiFadt
  imports UacpiGas
begin

text \<open>
  The fixed ACPI description table as \<^verbatim>\<open>src/uacpi/tables.c\<close> prepares it: the correction of its revision, the
  conversion of the legacy register addresses to generic address structures and the split of the event
  blocks into status and enable registers. The table is the list of the 276 bytes of \<open>struct acpi_fadt\<close>; its fields are
  read and written at their offsets, as the code itself does for the registers.
\<close>

section \<open>Fields\<close>

type_synonym fadt_bytes = "u8 list"

definition fadt_size :: nat where "fadt_size = 276"

definition fadt8 :: "fadt_bytes \<Rightarrow> nat \<Rightarrow> u8" where "fadt8 f off = f ! off"
definition fadt32 :: "fadt_bytes \<Rightarrow> nat \<Rightarrow> u32" where "fadt32 f off = le_word (take 4 (drop off f))"
definition fadt64 :: "fadt_bytes \<Rightarrow> nat \<Rightarrow> u64" where "fadt64 f off = le_word (take 8 (drop off f))"

definition fadt_put :: "nat \<Rightarrow> u8 list \<Rightarrow> fadt_bytes \<Rightarrow> fadt_bytes" where
  "fadt_put off bs f = take off f @ bs @ drop (off + length bs) f"

definition fadt_gas :: "fadt_bytes \<Rightarrow> nat \<Rightarrow> acpi_gas" where
  "fadt_gas f off = \<lparr>gas_address_space_id = fadt8 f off, gas_register_bit_width = fadt8 f (off + 1),
     gas_register_bit_offset = fadt8 f (off + 2), gas_access_size = fadt8 f (off + 3), gas_address = fadt64 f (off + 4)\<rparr>"

definition gas_to_bytes :: "acpi_gas \<Rightarrow> u8 list" where
  "gas_to_bytes g = [gas_address_space_id g, gas_register_bit_width g, gas_register_bit_offset g, gas_access_size g]
     @ word_bytes 8 (gas_address g)"

text \<open>The offsets of the members of the structure.\<close>

definition FADT_LENGTH :: nat where "FADT_LENGTH = 4"
definition FADT_REVISION :: nat where "FADT_REVISION = 8"
definition FADT_FIRMWARE_CTRL :: nat where "FADT_FIRMWARE_CTRL = 36"
definition FADT_DSDT :: nat where "FADT_DSDT = 40"
definition FADT_PREFERRED_PM_PROFILE :: nat where "FADT_PREFERRED_PM_PROFILE = 45"
definition FADT_PSTATE_CNT :: nat where "FADT_PSTATE_CNT = 55"
definition FADT_CST_CNT :: nat where "FADT_CST_CNT = 95"
definition FADT_IAPC_BOOT_ARCH :: nat where "FADT_IAPC_BOOT_ARCH = 109"
definition FADT_FLAGS :: nat where "FADT_FLAGS = 112"
definition FADT_X_FIRMWARE_CTRL :: nat where "FADT_X_FIRMWARE_CTRL = 132"
definition FADT_X_DSDT :: nat where "FADT_X_DSDT = 140"
definition FADT_X_PM1A_EVT_BLK :: nat where "FADT_X_PM1A_EVT_BLK = 148"
definition FADT_X_PM1B_EVT_BLK :: nat where "FADT_X_PM1B_EVT_BLK = 160"

lemmas fadt_offsets = FADT_LENGTH_def FADT_REVISION_def FADT_FIRMWARE_CTRL_def FADT_DSDT_def FADT_PREFERRED_PM_PROFILE_def
  FADT_PSTATE_CNT_def FADT_CST_CNT_def FADT_IAPC_BOOT_ARCH_def FADT_FLAGS_def FADT_X_FIRMWARE_CTRL_def FADT_X_DSDT_def
  FADT_X_PM1A_EVT_BLK_def FADT_X_PM1B_EVT_BLK_def

section \<open>Revision\<close>

definition fadt_version_sizes :: "u32 list" where "fadt_version_sizes = [116, 132, 244, 244, 268, 276]"

definition fadt_ensure_correct_revision :: "fadt_bytes \<Rightarrow> fadt_bytes" where
  "fadt_ensure_correct_revision f =
     (let current_rev = unat (fadt8 f FADT_REVISION);
          rev = length (takeWhile (\<lambda>sz. \<not> fadt32 f FADT_LENGTH \<le> sz) fadt_version_sizes) in
      if rev = length fadt_version_sizes then fadt_put FADT_REVISION [of_nat rev] f
      else let rev = rev + 1 in
        if current_rev \<noteq> rev \<and> \<not> (rev = 3 \<and> current_rev = 4) then fadt_put FADT_REVISION [of_nat rev] f else f)"

section \<open>Registers\<close>

definition gas_init_system_io :: "u64 \<Rightarrow> u8 \<Rightarrow> acpi_gas" where
  "gas_init_system_io addr byte_size = \<lparr>gas_address_space_id = UACPI_ADDRESS_SPACE_SYSTEM_IO,
     gas_register_bit_width = of_nat (min 255 (unat byte_size * 8)), gas_register_bit_offset = 0, gas_access_size = 0,
     gas_address = addr\<rparr>"

record register_description =
  rd_offset :: nat
  rd_xoffset :: nat
  rd_length_offset :: nat

definition fadt_registers :: "register_description list" where
  "fadt_registers =
    [\<lparr>rd_offset = 56, rd_xoffset = 148, rd_length_offset = 88\<rparr>,
     \<lparr>rd_offset = 60, rd_xoffset = 160, rd_length_offset = 88\<rparr>,
     \<lparr>rd_offset = 64, rd_xoffset = 172, rd_length_offset = 89\<rparr>,
     \<lparr>rd_offset = 68, rd_xoffset = 184, rd_length_offset = 89\<rparr>,
     \<lparr>rd_offset = 72, rd_xoffset = 196, rd_length_offset = 90\<rparr>,
     \<lparr>rd_offset = 76, rd_xoffset = 208, rd_length_offset = 91\<rparr>,
     \<lparr>rd_offset = 80, rd_xoffset = 220, rd_length_offset = 92\<rparr>,
     \<lparr>rd_offset = 84, rd_xoffset = 232, rd_length_offset = 93\<rparr>]"

definition convert_register :: "fadt_bytes \<Rightarrow> register_description \<Rightarrow> fadt_bytes" where
  "convert_register f desc =
     (let legacy_addr = fadt32 f (rd_offset desc); len = fadt8 f (rd_length_offset desc); gas = fadt_gas f (rd_xoffset desc) in
      if gas_address gas \<noteq> 0 then f
      else fadt_put (rd_xoffset desc) (gas_to_bytes (gas_init_system_io (ucast legacy_addr) len)) f)"

definition convert_registers_to_gas :: "fadt_bytes \<Rightarrow> fadt_bytes" where
  "convert_registers_to_gas f = foldl convert_register f fadt_registers"

text \<open>The halves of a block; \<open>None\<close> leaves the destinations as they were.\<close>

definition split_one_block :: "acpi_gas \<Rightarrow> (acpi_gas \<times> acpi_gas) option" where
  "split_one_block src =
     (if gas_address src = 0 then None
      else let byte_length = unat (gas_register_bit_width src) div 8 div 2 in
        Some (gas_init_system_io (gas_address src) (of_nat byte_length),
              gas_init_system_io (gas_address src + of_nat byte_length) (of_nat byte_length)))"

record event_blocks =
  pm1a_status_blk :: acpi_gas
  pm1a_enable_blk :: acpi_gas
  pm1b_status_blk :: acpi_gas
  pm1b_enable_blk :: acpi_gas

definition split_event_blocks :: "fadt_bytes \<Rightarrow> event_blocks \<Rightarrow> event_blocks" where
  "split_event_blocks f e =
     (let e1 = (case split_one_block (fadt_gas f FADT_X_PM1A_EVT_BLK) of None \<Rightarrow> e
                | Some (s, n) \<Rightarrow> e\<lparr>pm1a_status_blk := s, pm1a_enable_blk := n\<rparr>)
      in case split_one_block (fadt_gas f FADT_X_PM1B_EVT_BLK) of None \<Rightarrow> e1
         | Some (s, n) \<Rightarrow> e1\<lparr>pm1b_status_blk := s, pm1b_enable_blk := n\<rparr>)"

text \<open>
  The first part of \<open>initialize_fadt\<close>, up to the installation of the DSDT: the bytes of the table replace those of the
  copy, the fields that older revisions reserve are cleared, and the 32-bit address of the DSDT is used when there is no
  other.
\<close>

definition fadt_prepare :: "fadt_bytes \<Rightarrow> u8 list \<Rightarrow> fadt_bytes" where
  "fadt_prepare old table =
     (let f = fadt_ensure_correct_revision (take fadt_size table @ drop (length (take fadt_size table)) old);
          f = (if fadt8 f FADT_REVISION \<le> 2
               then fadt_put FADT_IAPC_BOOT_ARCH [0, 0] (fadt_put FADT_CST_CNT [0] (fadt_put FADT_PSTATE_CNT [0]
                      (fadt_put FADT_PREFERRED_PM_PROFILE [0] f)))
               else f)
      in if fadt64 f FADT_X_DSDT = 0 then fadt_put FADT_X_DSDT (word_bytes 8 (ucast (fadt32 f FADT_DSDT) :: u64)) f else f)"

text \<open>The last part: the address of the FACS, and the registers unless the platform has reduced hardware.\<close>

definition fadt_finish :: "bool \<Rightarrow> fadt_bytes \<Rightarrow> event_blocks \<Rightarrow> fadt_bytes \<times> event_blocks" where
  "fadt_finish hardware_reduced f e =
     (let f = (if fadt32 f FADT_FIRMWARE_CTRL \<noteq> 0
               then fadt_put FADT_X_FIRMWARE_CTRL (word_bytes 8 (ucast (fadt32 f FADT_FIRMWARE_CTRL) :: u64)) f else f)
      in if hardware_reduced then (f, e)
         else let f = convert_registers_to_gas f in (f, split_event_blocks f e))"

section \<open>What the conversion gives\<close>

lemma length_gas_to_bytes [simp]: "length (gas_to_bytes g) = 12"
  by (simp add: gas_to_bytes_def)

lemma length_fadt_put [simp]: "off + length bs \<le> length f \<Longrightarrow> length (fadt_put off bs f) = length f"
  by (simp add: fadt_put_def)

lemma nth_fadt_put:
  assumes "off + length bs \<le> length f"
  shows "fadt_put off bs f ! i = (if off \<le> i \<and> i < off + length bs then bs ! (i - off) else f ! i)"
  using assms by (auto simp: fadt_put_def nth_append)

lemma fadt_slice:
  assumes "off + length bs \<le> length f" "k + n \<le> length f" "k + n \<le> off \<or> off + length bs \<le> k"
  shows "take n (drop k (fadt_put off bs f)) = take n (drop k f)"
  using assms by (intro nth_equalityI) (auto simp: nth_fadt_put)

lemma fadt_gas_other:
  assumes "off + length bs \<le> length f" "k + 12 \<le> length f" "k + 12 \<le> off \<or> off + length bs \<le> k"
  shows "fadt_gas (fadt_put off bs f) k = fadt_gas f k"
proof -
  have "take 8 (drop (k + 4) (fadt_put off bs f)) = take 8 (drop (k + 4) f)"
    using assms by (intro fadt_slice) auto
  then show ?thesis using assms by (auto simp: fadt_gas_def fadt8_def fadt64_def nth_fadt_put)
qed

lemma fadt_gas_same:
  assumes "off + 12 \<le> length f"
  shows "fadt_gas (fadt_put off (gas_to_bytes g) f) off = g"
proof -
  have "take 8 (drop (off + 4) (fadt_put off (gas_to_bytes g) f)) = word_bytes 8 (gas_address g)"
    using assms by (intro nth_equalityI) (auto simp: nth_fadt_put gas_to_bytes_def nth_append)
  then show ?thesis using assms
    by (simp add: fadt_gas_def fadt8_def fadt64_def nth_fadt_put le_word_word_bytes) (simp add: gas_to_bytes_def)
qed

lemma fadt8_other:
  assumes "off + length bs \<le> length f" "k < off \<or> off + length bs \<le> k"
  shows "fadt8 (fadt_put off bs f) k = fadt8 f k"
  using assms by (auto simp: fadt8_def nth_fadt_put)

text \<open>A description whose generic address lies in the table, behind the legacy fields.\<close>

definition desc_ok :: "register_description \<Rightarrow> bool" where
  "desc_ok d \<longleftrightarrow> 148 \<le> rd_xoffset d \<and> rd_xoffset d + 12 \<le> fadt_size \<and> rd_offset d + 4 \<le> 148 \<and> rd_length_offset d < 148"

definition converted_gas :: "fadt_bytes \<Rightarrow> register_description \<Rightarrow> acpi_gas" where
  "converted_gas f d =
     (if gas_address (fadt_gas f (rd_xoffset d)) \<noteq> 0 then fadt_gas f (rd_xoffset d)
      else gas_init_system_io (ucast (fadt32 f (rd_offset d))) (fadt8 f (rd_length_offset d)))"

lemma length_convert_register:
  assumes "length f = fadt_size" "desc_ok d"
  shows "length (convert_register f d) = fadt_size"
  using assms by (auto simp: convert_register_def Let_def desc_ok_def)

lemma convert_register_same:
  assumes "length f = fadt_size" "desc_ok d"
  shows "fadt_gas (convert_register f d) (rd_xoffset d) = converted_gas f d"
  using assms by (simp add: convert_register_def Let_def desc_ok_def converted_gas_def fadt_gas_same del: word_of_nat_eq_0_iff)

lemma convert_register_other:
  assumes "length f = fadt_size" "desc_ok d" "k + n \<le> fadt_size" "k + n \<le> rd_xoffset d \<or> rd_xoffset d + 12 \<le> k"
  shows "take n (drop k (convert_register f d)) = take n (drop k f)"
proof -
  have "take n (drop k (fadt_put (rd_xoffset d) (gas_to_bytes g) f)) = take n (drop k f)" for g
    using assms by (intro fadt_slice) (simp_all add: desc_ok_def)
  then show ?thesis by (simp add: convert_register_def Let_def)
qed

lemma fadt_gas_slice:
  assumes "take 12 (drop k f) = take 12 (drop k g)" "k + 12 \<le> length f" "k + 12 \<le> length g"
  shows "fadt_gas f k = fadt_gas g k"
proof -
  have nth: "fadt8 f (k + i) = fadt8 g (k + i)" if "i < 12" for i
    using arg_cong [OF assms(1), of "\<lambda>xs. xs ! i"] that assms(2,3) by (simp add: fadt8_def)
  have "take 8 (drop 4 (take 12 (drop k f))) = take 8 (drop 4 (take 12 (drop k g)))" by (simp only: assms(1))
  then have "take 8 (drop (k + 4) f) = take 8 (drop (k + 4) g)" by (simp add: drop_take add.commute)
  then show ?thesis using nth [of 0] nth [of 1] nth [of 2] nth [of 3] by (simp add: fadt_gas_def fadt64_def)
qed

lemma converted_gas_frame:
  assumes "length f = fadt_size" "desc_ok a" "desc_ok d" "rd_xoffset d + 12 \<le> rd_xoffset a \<or> rd_xoffset a + 12 \<le> rd_xoffset d"
  shows "converted_gas (convert_register f a) d = converted_gas f d"
proof -
  have len: "length (convert_register f a) = fadt_size" using assms by (intro length_convert_register)
  have g: "fadt_gas (convert_register f a) (rd_xoffset d) = fadt_gas f (rd_xoffset d)"
    using assms len by (intro fadt_gas_slice convert_register_other) (auto simp: desc_ok_def)
  have 4: "fadt32 (convert_register f a) (rd_offset d) = fadt32 f (rd_offset d)"
    using assms convert_register_other [of f a "rd_offset d" 4] by (simp add: fadt32_def desc_ok_def fadt_size_def)
  have "fadt8 (convert_register f a) (rd_length_offset d) = fadt8 f (rd_length_offset d)"
    using assms by (simp add: convert_register_def Let_def desc_ok_def fadt8_other)
  with g 4 show ?thesis by (simp add: converted_gas_def)
qed

lemma foldl_convert_frame:
  assumes "length f = fadt_size" "list_all desc_ok ds" "k + n \<le> fadt_size"
    "\<forall>d \<in> set ds. k + n \<le> rd_xoffset d \<or> rd_xoffset d + 12 \<le> k"
  shows "length (foldl convert_register f ds) = fadt_size \<and> take n (drop k (foldl convert_register f ds)) = take n (drop k f)"
  using assms
proof (induction ds arbitrary: f)
  case (Cons a ds)
  then have "length (convert_register f a) = fadt_size" by (simp add: length_convert_register)
  with Cons.IH [of "convert_register f a"] Cons.prems show ?case by (simp add: convert_register_other)
qed simp

lemma foldl_convert_gas:
  assumes "length f = fadt_size" "list_all desc_ok ds" "sorted_wrt (\<lambda>a b. rd_xoffset a + 12 \<le> rd_xoffset b) ds" "d \<in> set ds"
  shows "fadt_gas (foldl convert_register f ds) (rd_xoffset d) = converted_gas f d"
  using assms
proof (induction ds arbitrary: f)
  case (Cons a ds)
  have len: "length (convert_register f a) = fadt_size" using Cons.prems by (simp add: length_convert_register)
  have a: "desc_ok a" and ds: "list_all desc_ok ds" using Cons.prems(2) by auto
  show ?case
  proof (cases "d = a")
    case True
    have "fadt_gas (foldl convert_register (convert_register f a) ds) (rd_xoffset a) = fadt_gas (convert_register f a) (rd_xoffset a)"
      using foldl_convert_frame [of "convert_register f a" ds "rd_xoffset a" 12] len a ds Cons.prems(3)
      by (intro fadt_gas_slice) (auto simp: desc_ok_def)
    then show ?thesis using True a Cons.prems(1) by (simp add: convert_register_same)
  next
    case False
    then have d: "d \<in> set ds" using Cons.prems(4) by simp
    then have "desc_ok d" using ds by (simp add: list_all_iff)
    then have "converted_gas (convert_register f a) d = converted_gas f d"
      using Cons.prems(1,3) a d by (intro converted_gas_frame) auto
    with Cons.IH [of "convert_register f a"] len ds Cons.prems(3) d show ?thesis by simp
  qed
qed simp

lemma fadt_registers_ok:
  "list_all desc_ok fadt_registers" "sorted_wrt (\<lambda>a b. rd_xoffset a + 12 \<le> rd_xoffset b) fadt_registers"
  by (simp_all add: fadt_registers_def desc_ok_def fadt_size_def)

lemma length_convert_registers: "length f = fadt_size \<Longrightarrow> length (convert_registers_to_gas f) = fadt_size"
  using foldl_convert_frame [of f fadt_registers 0 0] fadt_registers_ok(1) by (simp add: convert_registers_to_gas_def)

lemma convert_registers_gas:
  "length f = fadt_size \<Longrightarrow> d \<in> set fadt_registers \<Longrightarrow> fadt_gas (convert_registers_to_gas f) (rd_xoffset d) = converted_gas f d"
  by (simp add: convert_registers_to_gas_def foldl_convert_gas fadt_registers_ok)

lemma split_one_block_halves:
  assumes "gas_address src \<noteq> 0"
  shows "split_one_block src = Some
    (\<lparr>gas_address_space_id = UACPI_ADDRESS_SPACE_SYSTEM_IO, gas_register_bit_width = of_nat (8 * (unat (gas_register_bit_width src) div 16)),
      gas_register_bit_offset = 0, gas_access_size = 0, gas_address = gas_address src\<rparr>,
     \<lparr>gas_address_space_id = UACPI_ADDRESS_SPACE_SYSTEM_IO, gas_register_bit_width = of_nat (8 * (unat (gas_register_bit_width src) div 16)),
      gas_register_bit_offset = 0, gas_access_size = 0,
      gas_address = gas_address src + of_nat (unat (gas_register_bit_width src) div 16)\<rparr>)"
proof -
  define h where "h = unat (gas_register_bit_width src) div 16"
  have h: "unat (gas_register_bit_width src) div 8 div 2 = h" by (simp add: h_def div_mult2_eq [symmetric])
  have "unat (gas_register_bit_width src) < 256" using unsigned_less [of "gas_register_bit_width src"] by simp
  then have "h \<le> 15" by (simp add: h_def less_mult_imp_div_less)
  then have u: "unat (of_nat h :: u8) = h" "min 255 (h * 8) = 8 * h" by (simp_all add: unat_of_nat take_bit_nat_eq_self)
  show ?thesis using assms by (simp only: split_one_block_def Let_def h if_False gas_init_system_io_def u h_def [symmetric])
qed

text \<open>
  The conversion of the legacy registers. After it every register of the list has a generic address: the one
  that the table gave, if its address is not null, and otherwise the legacy port with the width in bits that the table gives in
  bytes, at most 255. No register disturbs another, and the table keeps its length and all bytes outside the
  generic addresses.
\<close>

theorem fadt_registers_converted:
  assumes "length f = fadt_size" "d \<in> set fadt_registers"
  shows "fadt_gas (convert_registers_to_gas f) (rd_xoffset d)
       = (if gas_address (fadt_gas f (rd_xoffset d)) \<noteq> 0 then fadt_gas f (rd_xoffset d)
          else \<lparr>gas_address_space_id = UACPI_ADDRESS_SPACE_SYSTEM_IO,
                gas_register_bit_width = of_nat (min 255 (8 * unat (fadt8 f (rd_length_offset d)))),
                gas_register_bit_offset = 0, gas_access_size = 0, gas_address = ucast (fadt32 f (rd_offset d))\<rparr>)
     \<and> length (convert_registers_to_gas f) = length f
     \<and> take 148 (convert_registers_to_gas f) = take 148 f \<and> drop 244 (convert_registers_to_gas f) = drop 244 f"
proof -
  have "take 148 (convert_registers_to_gas f) = take 148 f"
    using foldl_convert_frame [of f fadt_registers 0 148] assms(1) fadt_registers_ok(1)
    by (simp add: convert_registers_to_gas_def fadt_registers_def fadt_size_def)
  moreover have "drop 244 (convert_registers_to_gas f) = drop 244 f"
    using foldl_convert_frame [of f fadt_registers 244 32] length_convert_registers [of f] assms(1) fadt_registers_ok(1)
    by (simp add: convert_registers_to_gas_def fadt_registers_def fadt_size_def)
  ultimately show ?thesis using length_convert_registers [of f] convert_registers_gas [OF assms] assms(1)
    by (simp add: converted_gas_def gas_init_system_io_def mult.commute)
qed

text \<open>A table of revision 1: the power management timer is at port 0x408 with four bytes, and nothing else is set.\<close>

definition demo_fadt :: fadt_bytes where
  "demo_fadt = (replicate fadt_size 0)[76 := 8, 77 := 4, 91 := 4]"

theorem fadt_registers_converted_witness:
  "fadt_gas (convert_registers_to_gas demo_fadt) 208
     = \<lparr>gas_address_space_id = UACPI_ADDRESS_SPACE_SYSTEM_IO, gas_register_bit_width = 32, gas_register_bit_offset = 0,
        gas_access_size = 0, gas_address = 0x408\<rparr>"
proof -
  let ?d = "\<lparr>rd_offset = 76, rd_xoffset = 208, rd_length_offset = 91\<rparr>"
  have "length demo_fadt = fadt_size" "?d \<in> set fadt_registers" by (simp_all add: demo_fadt_def fadt_registers_def)
  moreover have "gas_address (fadt_gas demo_fadt 208) = 0" "fadt8 demo_fadt 91 = 4" "fadt32 demo_fadt 76 = 0x408" by code_simp+
  ultimately show ?thesis using fadt_registers_converted [of demo_fadt ?d] by simp
qed

text \<open>
  C39: the split of the event blocks at the end of the initialisation of the table. A block whose generic address is null, in the
  table and in its legacy field, leaves its registers as they were; any other is cut in two halves, the
  status register first and the enable register behind it, whose width is that of half the block in whole bytes. Both halves are
  described as ports, whatever the address space of the block: a memory-mapped event block is accessed
  through the ports with the same number.
\<close>

theorem event_blocks_split:
  assumes "length f = fadt_size"
  shows "let (f', e') = fadt_finish False f e;
            port = (\<lambda>addr h. \<lparr>gas_address_space_id = UACPI_ADDRESS_SPACE_SYSTEM_IO, gas_register_bit_width = of_nat (8 * h),
                       gas_register_bit_offset = 0, gas_access_size = 0, gas_address = addr\<rparr>);
            a = fadt_gas f' FADT_X_PM1A_EVT_BLK; b = fadt_gas f' FADT_X_PM1B_EVT_BLK;
            half = (\<lambda>g. unat (gas_register_bit_width g) div 16)
          in a = converted_gas f (fadt_registers ! 0) \<and> b = converted_gas f (fadt_registers ! 1)
           \<and> (pm1a_status_blk e', pm1a_enable_blk e')
               = (if gas_address a = 0 then (pm1a_status_blk e, pm1a_enable_blk e)
                  else (port (gas_address a) (half a), port (gas_address a + of_nat (half a)) (half a)))
           \<and> (pm1b_status_blk e', pm1b_enable_blk e')
               = (if gas_address b = 0 then (pm1b_status_blk e, pm1b_enable_blk e)
                  else (port (gas_address b) (half b), port (gas_address b + of_nat (half b)) (half b)))"
proof -
  define g where "g = (if fadt32 f FADT_FIRMWARE_CTRL \<noteq> 0
    then fadt_put FADT_X_FIRMWARE_CTRL (word_bytes 8 (ucast (fadt32 f FADT_FIRMWARE_CTRL) :: u64)) f else f)"
  have len: "length g = fadt_size" using assms by (simp add: g_def fadt_offsets fadt_size_def)
  have keep: "converted_gas g d = converted_gas f d" if d: "d \<in> set fadt_registers" for d
  proof -
    have "rd_xoffset d \<ge> 148" "rd_xoffset d + 12 \<le> 276" "rd_offset d + 4 \<le> 132" "rd_length_offset d < 132"
      using d by (auto simp: fadt_registers_def)
    then show ?thesis using assms
      by (simp add: converted_gas_def g_def fadt_gas_other fadt8_other fadt32_def fadt_slice fadt_offsets fadt_size_def)
  qed
  have fin: "fadt_finish False f e = (convert_registers_to_gas g, split_event_blocks (convert_registers_to_gas g) e)"
    by (simp add: fadt_finish_def g_def Let_def)
  have ab: "fadt_gas (convert_registers_to_gas g) FADT_X_PM1A_EVT_BLK = converted_gas f (fadt_registers ! 0)"
      "fadt_gas (convert_registers_to_gas g) FADT_X_PM1B_EVT_BLK = converted_gas f (fadt_registers ! 1)"
    using convert_registers_gas [OF len, of "fadt_registers ! 0"] convert_registers_gas [OF len, of "fadt_registers ! 1"]
      keep [of "fadt_registers ! 0"] keep [of "fadt_registers ! 1"] by (simp_all add: fadt_registers_def fadt_offsets)
  have none: "split_one_block src = None" if "gas_address src = 0" for src using that by (simp add: split_one_block_def)
  show ?thesis unfolding fin
    by (simp add: ab Let_def split_event_blocks_def none split_one_block_halves del: of_nat_mult)
qed

text \<open>A table whose first event block is four bytes of memory at 0xFED00000.\<close>

definition memory_fadt :: fadt_bytes where
  "memory_fadt = (replicate fadt_size 0)[149 := 32, 154 := 0xD0, 155 := 0xFE]"

definition no_blocks :: event_blocks where
  "no_blocks = (let g = \<lparr>gas_address_space_id = 0, gas_register_bit_width = 0, gas_register_bit_offset = 0, gas_access_size = 0,
     gas_address = 0\<rparr> in \<lparr>pm1a_status_blk = g, pm1a_enable_blk = g, pm1b_status_blk = g, pm1b_enable_blk = g\<rparr>)"

theorem event_blocks_split_witness:
  "gas_address_space_id (converted_gas memory_fadt (fadt_registers ! 0)) = UACPI_ADDRESS_SPACE_SYSTEM_MEMORY
   \<and> pm1a_enable_blk (snd (fadt_finish False memory_fadt no_blocks))
     = \<lparr>gas_address_space_id = UACPI_ADDRESS_SPACE_SYSTEM_IO, gas_register_bit_width = 16, gas_register_bit_offset = 0,
        gas_access_size = 0, gas_address = 0xFED00002\<rparr>"
proof -
  have "length memory_fadt = fadt_size" by (simp add: memory_fadt_def)
  moreover have "converted_gas memory_fadt (fadt_registers ! 0)
      = \<lparr>gas_address_space_id = 0, gas_register_bit_width = 32, gas_register_bit_offset = 0, gas_access_size = 0, gas_address = 0xFED00000\<rparr>"
    by code_simp
  ultimately show ?thesis using event_blocks_split [of memory_fadt no_blocks]
    by (auto simp: Let_def UACPI_ADDRESS_SPACE_SYSTEM_MEMORY_def split: prod.splits)
qed

end
