(* ===== verification/UacpiMutex.thy ===== *)
theory UacpiMutex
  imports UacpiOsi
begin

text \<open>
  The locks of uACPI, \<^verbatim>\<open>src/uacpi/mutex.c\<close>: the global lock shared with the firmware, the
  recursive mutexes of AML, recursive locks and reader-writer locks. The host's mutexes are
  numbers; what the host answers and what the firmware does to the global lock in between are
  the parameter \<open>mhost\<close>. A second model of the reader-writer lock interleaves the atomic steps
  of any number of threads.
\<close>

section \<open>State\<close>

type_synonym thread = nat

record mworld =
  native_held :: "nat set"
  has_global_lock :: bool
  facs_global_lock :: u32
  global_lock_seq_num :: u32
  global_lock_acquired :: bool
  global_lock_pending :: bool
  global_lock_handle :: "nat option"
  gbl_rls_writes :: nat
  namespace_write_locked :: bool
  rt_init_level :: nat

text \<open>
  \<open>kernel_acquire_mutex m timeout\<close>: the status of acquiring. \<open>firmware_view n word\<close>: what successive reads
  of the lock word see at attempt \<open>n\<close> when it contained \<open>word\<close> before it, the first at once and the others
  at the compare-and-exchange operations.
\<close>

record mhost =
  kernel_acquire_mutex :: "nat \<Rightarrow> u16 \<Rightarrow> uacpi_status"
  kernel_create_mutex :: "nat list"
  firmware_view :: "nat \<Rightarrow> u32 \<Rightarrow> u32 list"

definition UACPI_STATUS_HARDWARE_TIMEOUT :: uacpi_status where "UACPI_STATUS_HARDWARE_TIMEOUT = 17"
definition UACPI_STATUS_TIMEOUT :: uacpi_status where "UACPI_STATUS_TIMEOUT = 18"
definition UACPI_STATUS_DENIED :: uacpi_status where "UACPI_STATUS_DENIED = 20"

definition host_acquire :: "mhost \<Rightarrow> nat \<Rightarrow> u16 \<Rightarrow> mworld \<Rightarrow> uacpi_status \<times> mworld" where
  "host_acquire host m timeout w = (let ret = kernel_acquire_mutex host m timeout in
     (ret, if ret = UACPI_STATUS_OK then w\<lparr>native_held := insert m (native_held w)\<rparr> else w))"

definition host_release :: "nat \<Rightarrow> mworld \<Rightarrow> mworld" where
  "host_release m w = w\<lparr>native_held := native_held w - {m}\<rparr>"

definition acquire_native_mutex :: "mhost \<Rightarrow> nat option \<Rightarrow> mworld \<Rightarrow> uacpi_status \<times> mworld" where
  "acquire_native_mutex host mtx w = (case mtx of
     None \<Rightarrow> (UACPI_STATUS_INVALID_ARGUMENT, w) | Some m \<Rightarrow> host_acquire host m 0xFFFF w)"

definition release_native_mutex :: "nat option \<Rightarrow> mworld \<Rightarrow> uacpi_status \<times> mworld" where
  "release_native_mutex mtx w = (case mtx of
     None \<Rightarrow> (UACPI_STATUS_INVALID_ARGUMENT, w) | Some m \<Rightarrow> (UACPI_STATUS_OK, host_release m w))"

definition acquire_native_mutex_may_be_null :: "mhost \<Rightarrow> nat option \<Rightarrow> mworld \<Rightarrow> uacpi_status \<times> mworld" where
  "acquire_native_mutex_may_be_null host mtx w = (case mtx of
     None \<Rightarrow> (UACPI_STATUS_OK, w) | Some m \<Rightarrow> host_acquire host m 0xFFFF w)"

definition release_native_mutex_may_be_null :: "nat option \<Rightarrow> mworld \<Rightarrow> uacpi_status \<times> mworld" where
  "release_native_mutex_may_be_null mtx w = (case mtx of
     None \<Rightarrow> (UACPI_STATUS_OK, w) | Some m \<Rightarrow> (UACPI_STATUS_OK, host_release m w))"

section \<open>The global lock word\<close>

definition GLOBAL_LOCK_PENDING :: u32 where "GLOBAL_LOCK_PENDING = 1"
definition GLOBAL_LOCK_OWNED_BIT :: nat where "GLOBAL_LOCK_OWNED_BIT = 1"
definition GLOBAL_LOCK_OWNED :: u32 where "GLOBAL_LOCK_OWNED = push_bit GLOBAL_LOCK_OWNED_BIT 1"
definition GLOBAL_LOCK_MASK :: u32 where "GLOBAL_LOCK_MASK = 3"

lemmas global_lock_bits = GLOBAL_LOCK_PENDING_def GLOBAL_LOCK_OWNED_BIT_def GLOBAL_LOCK_OWNED_def GLOBAL_LOCK_MASK_def

text \<open>
  A loop of compare-and-exchange: the old and the new contents when it succeeds; it has no result
  while the lock changes before every attempt.
\<close>

fun cmpxchg_loop :: "(u32 \<Rightarrow> u32) \<Rightarrow> u32 \<Rightarrow> u32 list \<Rightarrow> (u32 \<times> u32) option" where
  "cmpxchg_loop f v [] = None"
| "cmpxchg_loop f v (cur # rest) = (if cur = v then Some (v, f v) else cmpxchg_loop f cur rest)"

definition read_and_exchange :: "(u32 \<Rightarrow> u32) \<Rightarrow> u32 list \<Rightarrow> (u32 \<times> u32) option" where
  "read_and_exchange f seen = (case seen of [] \<Rightarrow> None | v # rest \<Rightarrow> cmpxchg_loop f v rest)"

definition was_owned :: "u32 \<Rightarrow> bool" where
  "was_owned v \<longleftrightarrow> drop_bit GLOBAL_LOCK_OWNED_BIT (v AND GLOBAL_LOCK_OWNED) \<noteq> 0"

definition try_acquire_global_lock_from_firmware :: "u32 list \<Rightarrow> (bool \<times> u32) option" where
  "try_acquire_global_lock_from_firmware seen = map_option (\<lambda>(v, n). (\<not> was_owned v, n))
     (read_and_exchange (\<lambda>v. let n = (v AND NOT GLOBAL_LOCK_MASK) OR GLOBAL_LOCK_OWNED
                             in if was_owned v then n OR GLOBAL_LOCK_PENDING else n) seen)"

definition do_release_global_lock_to_firmware :: "u32 list \<Rightarrow> (bool \<times> u32) option" where
  "do_release_global_lock_to_firmware seen = map_option (\<lambda>(v, n). (v AND GLOBAL_LOCK_PENDING \<noteq> 0, n))
     (read_and_exchange (\<lambda>v. v AND NOT GLOBAL_LOCK_MASK) seen)"

text \<open>
  The attempts to acquire, \<open>n\<close> of the 65535 being left: whether one succeeded. After a failed one the
  thread waits for the release event (and the firmware may change the lock, as \<open>firmware_view\<close> tells).
\<close>

fun acquire_attempts :: "mhost \<Rightarrow> nat \<Rightarrow> mworld \<Rightarrow> (bool \<times> mworld) option" where
  "acquire_attempts host 0 w = Some (False, w)"
| "acquire_attempts host (Suc n) w =
     (case try_acquire_global_lock_from_firmware (firmware_view host (0xFFFF - n) (facs_global_lock w)) of
        None \<Rightarrow> None
      | Some (success, v) \<Rightarrow>
          let w1 = w\<lparr>facs_global_lock := v\<rparr> in
          if success then Some (True, w1)
          else if n = 0 then Some (False, w1)
          else acquire_attempts host n (w1\<lparr>global_lock_pending := True\<rparr>))"

definition uacpi_acquire_global_lock_from_firmware :: "mhost \<Rightarrow> mworld \<Rightarrow> (uacpi_status \<times> mworld) option" where
  "uacpi_acquire_global_lock_from_firmware host w =
     (if \<not> has_global_lock w then Some (UACPI_STATUS_OK, w)
      else case acquire_attempts host 0xFFFF w of
        None \<Rightarrow> None
      | Some (success, w1) \<Rightarrow>
          Some (if success then UACPI_STATUS_OK else UACPI_STATUS_HARDWARE_TIMEOUT, w1\<lparr>global_lock_pending := False\<rparr>))"

definition uacpi_release_global_lock_to_firmware :: "mhost \<Rightarrow> mworld \<Rightarrow> mworld option" where
  "uacpi_release_global_lock_to_firmware host w =
     (if \<not> has_global_lock w then Some w
      else case do_release_global_lock_to_firmware (firmware_view host 0 (facs_global_lock w)) of
        None \<Rightarrow> None
      | Some (pending, v) \<Rightarrow>
          let w1 = w\<lparr>facs_global_lock := v\<rparr>
          in Some (if pending then w1\<lparr>gbl_rls_writes := gbl_rls_writes w1 + 1\<rparr> else w1))"

section \<open>The global lock\<close>

definition acquire_native_mutex_with_timeout :: "mhost \<Rightarrow> nat option \<Rightarrow> u16 \<Rightarrow> mworld \<Rightarrow> uacpi_status \<times> mworld" where
  "acquire_native_mutex_with_timeout host mtx timeout w = (case mtx of
     None \<Rightarrow> (UACPI_STATUS_INVALID_ARGUMENT, w) | Some m \<Rightarrow> host_acquire host m timeout w)"

text \<open>The sequence number is an output parameter, whose pointer may be null.\<close>

definition uacpi_acquire_global_lock :: "mhost \<Rightarrow> u16 \<Rightarrow> bool \<Rightarrow> mworld \<Rightarrow> (uacpi_status \<times> u32 option \<times> mworld) option" where
  "uacpi_acquire_global_lock host timeout out_seq_null w =
     (if rt_init_level w < UACPI_INIT_LEVEL_SUBSYSTEM_INITIALIZED then Some (UACPI_STATUS_INIT_LEVEL_MISMATCH, None, w)
      else if out_seq_null then Some (UACPI_STATUS_INVALID_ARGUMENT, None, w)
      else case acquire_native_mutex_with_timeout host (global_lock_handle w) timeout w of (ret, w1) \<Rightarrow>
        if ret \<noteq> UACPI_STATUS_OK then Some (ret, None, w1)
        else case uacpi_acquire_global_lock_from_firmware host w1 of
          None \<Rightarrow> None
        | Some (ret, w2) \<Rightarrow>
            if ret \<noteq> UACPI_STATUS_OK then Some (ret, None, snd (release_native_mutex (global_lock_handle w2) w2))
            else let w3 = (if global_lock_seq_num w2 = 0xFFFFFFFF then w2\<lparr>global_lock_seq_num := 0\<rparr> else w2)
                 in Some (UACPI_STATUS_OK, Some (global_lock_seq_num w3),
                      w3\<lparr>global_lock_seq_num := global_lock_seq_num w3 + 1, global_lock_acquired := True\<rparr>))"

definition uacpi_release_global_lock :: "mhost \<Rightarrow> u32 \<Rightarrow> mworld \<Rightarrow> (uacpi_status \<times> mworld) option" where
  "uacpi_release_global_lock host seq w =
     (if rt_init_level w < UACPI_INIT_LEVEL_SUBSYSTEM_INITIALIZED then Some (UACPI_STATUS_INIT_LEVEL_MISMATCH, w)
      else if \<not> global_lock_acquired w \<or> seq \<noteq> global_lock_seq_num w then Some (UACPI_STATUS_INVALID_ARGUMENT, w)
      else case uacpi_release_global_lock_to_firmware host (w\<lparr>global_lock_acquired := False\<rparr>) of
        None \<Rightarrow> None
      | Some w1 \<Rightarrow> Some (UACPI_STATUS_OK, snd (release_native_mutex (global_lock_handle w1) w1)))"

section \<open>AML mutexes\<close>

text \<open>No owner (\<open>UACPI_THREAD_ID_NONE\<close>) is \<open>None\<close>.\<close>

record aml_mutex =
  am_handle :: "nat option"
  am_owner :: "thread option"
  am_depth :: u16

definition uacpi_this_thread_owns_aml_mutex :: "thread \<Rightarrow> aml_mutex \<Rightarrow> bool" where
  "uacpi_this_thread_owns_aml_mutex this_id mutex \<longleftrightarrow> am_owner mutex = Some this_id"

definition uacpi_acquire_aml_mutex ::
  "mhost \<Rightarrow> thread \<Rightarrow> u16 \<Rightarrow> aml_mutex \<Rightarrow> mworld \<Rightarrow> (uacpi_status \<times> aml_mutex \<times> mworld) option" where
  "uacpi_acquire_aml_mutex host this_id timeout mutex w =
     (if am_owner mutex = Some this_id then
        if am_depth mutex = 0xFFFF then Some (UACPI_STATUS_DENIED, mutex, w)
        else Some (UACPI_STATUS_OK, mutex\<lparr>am_depth := am_depth mutex + 1\<rparr>, w)
      else
        let w0 = w\<lparr>namespace_write_locked := False\<rparr> in
        case acquire_native_mutex_with_timeout host (am_handle mutex) timeout w0 of (ret, w1) \<Rightarrow>
          if ret \<noteq> UACPI_STATUS_OK then Some (ret, mutex, w1\<lparr>namespace_write_locked := True\<rparr>)
          else case (if am_handle mutex = global_lock_handle w1 then uacpi_acquire_global_lock_from_firmware host w1
                     else Some (UACPI_STATUS_OK, w1)) of
            None \<Rightarrow> None
          | Some (ret, w2) \<Rightarrow>
              if ret \<noteq> UACPI_STATUS_OK
              then Some (ret, mutex, (snd (release_native_mutex (am_handle mutex) w2))\<lparr>namespace_write_locked := True\<rparr>)
              else Some (ret, mutex\<lparr>am_owner := Some this_id, am_depth := 1\<rparr>, w2\<lparr>namespace_write_locked := True\<rparr>))"

definition uacpi_release_aml_mutex :: "mhost \<Rightarrow> aml_mutex \<Rightarrow> mworld \<Rightarrow> (uacpi_status \<times> aml_mutex \<times> mworld) option" where
  "uacpi_release_aml_mutex host mutex w =
     (let old = am_depth mutex; mutex1 = mutex\<lparr>am_depth := old - 1\<rparr> in
      if old > 1 then Some (UACPI_STATUS_OK, mutex1, w)
      else case (if am_handle mutex1 = global_lock_handle w then uacpi_release_global_lock_to_firmware host w else Some w) of
        None \<Rightarrow> None
      | Some w1 \<Rightarrow> Some (UACPI_STATUS_OK, mutex1\<lparr>am_owner := None\<rparr>, snd (release_native_mutex (am_handle mutex1) w1)))"

section \<open>Recursive locks\<close>

record uacpi_recursive_lock =
  rl_mutex :: "nat option"
  rl_depth :: u64
  rl_owner :: "thread option"

text \<open>Creating a mutex takes the next of the host's answers; none left is a null handle.\<close>

definition host_create :: "mhost \<Rightarrow> nat option \<times> mhost" where
  "host_create host = (case kernel_create_mutex host of [] \<Rightarrow> (None, host)
   | m # ms \<Rightarrow> (Some m, host\<lparr>kernel_create_mutex := ms\<rparr>))"

definition uacpi_recursive_lock_init :: "mhost \<Rightarrow> uacpi_recursive_lock \<Rightarrow> uacpi_status \<times> uacpi_recursive_lock \<times> mhost" where
  "uacpi_recursive_lock_init host lock = (case host_create host of
     (None, host') \<Rightarrow> (UACPI_STATUS_OUT_OF_MEMORY, lock\<lparr>rl_mutex := None\<rparr>, host')
   | (Some m, host') \<Rightarrow> (UACPI_STATUS_OK, lock\<lparr>rl_mutex := Some m, rl_owner := None, rl_depth := 0\<rparr>, host'))"

definition uacpi_recursive_lock_deinit :: "uacpi_recursive_lock \<Rightarrow> uacpi_status \<times> uacpi_recursive_lock" where
  "uacpi_recursive_lock_deinit lock = (let lock1 = (if rl_depth lock \<noteq> 0 then lock\<lparr>rl_depth := 0\<rparr> else lock);
     lock2 = lock1\<lparr>rl_owner := None\<rparr>
     in (UACPI_STATUS_OK, if rl_mutex lock2 \<noteq> None then lock2\<lparr>rl_mutex := None\<rparr> else lock2))"

definition uacpi_recursive_lock_acquire ::
  "mhost \<Rightarrow> thread \<Rightarrow> uacpi_recursive_lock \<Rightarrow> mworld \<Rightarrow> uacpi_status \<times> uacpi_recursive_lock \<times> mworld" where
  "uacpi_recursive_lock_acquire host this_id lock w =
     (if rl_owner lock = Some this_id then (UACPI_STATUS_OK, lock\<lparr>rl_depth := rl_depth lock + 1\<rparr>, w)
      else case acquire_native_mutex host (rl_mutex lock) w of (ret, w1) \<Rightarrow>
        if ret \<noteq> UACPI_STATUS_OK then (ret, lock, w1)
        else (ret, lock\<lparr>rl_owner := Some this_id, rl_depth := 1\<rparr>, w1))"

definition uacpi_recursive_lock_release ::
  "uacpi_recursive_lock \<Rightarrow> mworld \<Rightarrow> uacpi_status \<times> uacpi_recursive_lock \<times> mworld" where
  "uacpi_recursive_lock_release lock w =
     (let old = rl_depth lock; lock1 = lock\<lparr>rl_depth := old - 1\<rparr> in
      if old > 1 then (UACPI_STATUS_OK, lock1, w)
      else case release_native_mutex (rl_mutex lock1) w of (ret, w1) \<Rightarrow> (ret, lock1\<lparr>rl_owner := None\<rparr>, w1))"

section \<open>Reader-writer locks\<close>

record uacpi_rw_lock =
  rw_read_mutex :: "nat option"
  rw_write_mutex :: "nat option"
  rw_num_readers :: u64

definition uacpi_rw_lock_init :: "mhost \<Rightarrow> uacpi_rw_lock \<Rightarrow> uacpi_status \<times> uacpi_rw_lock \<times> mhost" where
  "uacpi_rw_lock_init host lock = (case host_create host of
     (None, host1) \<Rightarrow> (UACPI_STATUS_OUT_OF_MEMORY, lock\<lparr>rw_read_mutex := None\<rparr>, host1)
   | (Some r, host1) \<Rightarrow> (case host_create host1 of
       (None, host2) \<Rightarrow> (UACPI_STATUS_OUT_OF_MEMORY, lock\<lparr>rw_read_mutex := None, rw_write_mutex := None\<rparr>, host2)
     | (Some m, host2) \<Rightarrow> (UACPI_STATUS_OK, lock\<lparr>rw_read_mutex := Some r, rw_write_mutex := Some m, rw_num_readers := 0\<rparr>, host2)))"

definition uacpi_rw_lock_deinit :: "uacpi_rw_lock \<Rightarrow> uacpi_status \<times> uacpi_rw_lock" where
  "uacpi_rw_lock_deinit lock =
     (let lock1 = (if rw_num_readers lock \<noteq> 0 then lock\<lparr>rw_num_readers := 0\<rparr> else lock);
          lock2 = (if rw_read_mutex lock1 \<noteq> None then lock1\<lparr>rw_read_mutex := None\<rparr> else lock1)
      in (UACPI_STATUS_OK, if rw_write_mutex lock2 \<noteq> None then lock2\<lparr>rw_write_mutex := None\<rparr> else lock2))"

definition uacpi_rw_lock_read :: "mhost \<Rightarrow> uacpi_rw_lock \<Rightarrow> mworld \<Rightarrow> uacpi_status \<times> uacpi_rw_lock \<times> mworld" where
  "uacpi_rw_lock_read host lock w =
     (case acquire_native_mutex host (rw_read_mutex lock) w of (ret, w1) \<Rightarrow>
        if ret \<noteq> UACPI_STATUS_OK then (ret, lock, w1)
        else let lock1 = lock\<lparr>rw_num_readers := rw_num_readers lock + 1\<rparr>;
                 (ret2, lock2, w2) =
                   (if rw_num_readers lock = 0 then
                      (case acquire_native_mutex host (rw_write_mutex lock1) w1 of (r, w2) \<Rightarrow>
                         (r, if r \<noteq> UACPI_STATUS_OK then lock1\<lparr>rw_num_readers := 0\<rparr> else lock1, w2))
                    else (ret, lock1, w1))
             in (ret2, lock2, snd (release_native_mutex (rw_read_mutex lock2) w2)))"

definition uacpi_rw_unlock_read :: "mhost \<Rightarrow> uacpi_rw_lock \<Rightarrow> mworld \<Rightarrow> uacpi_status \<times> uacpi_rw_lock \<times> mworld" where
  "uacpi_rw_unlock_read host lock w =
     (case acquire_native_mutex host (rw_read_mutex lock) w of (ret, w1) \<Rightarrow>
        if ret \<noteq> UACPI_STATUS_OK then (ret, lock, w1)
        else let lock1 = lock\<lparr>rw_num_readers := rw_num_readers lock - 1\<rparr>;
                 w2 = (if rw_num_readers lock = 1 then snd (release_native_mutex (rw_write_mutex lock1) w1) else w1)
             in (ret, lock1, snd (release_native_mutex (rw_read_mutex lock1) w2)))"

definition uacpi_rw_lock_write :: "mhost \<Rightarrow> uacpi_rw_lock \<Rightarrow> mworld \<Rightarrow> uacpi_status \<times> mworld" where
  "uacpi_rw_lock_write host lock w = acquire_native_mutex host (rw_write_mutex lock) w"

definition uacpi_rw_unlock_write :: "uacpi_rw_lock \<Rightarrow> mworld \<Rightarrow> uacpi_status \<times> mworld" where
  "uacpi_rw_unlock_write lock w = release_native_mutex (rw_write_mutex lock) w"

section \<open>Readers and writers, interleaved\<close>

text \<open>
  Where a thread is. \<open>RWait\<close>, \<open>RIn\<close>, \<open>RWrite\<close>, \<open>RDone\<close>, \<open>RFail\<close> are the points of
  \<open>uacpi_rw_lock_read\<close>: waiting for the read mutex, holding it, waiting for the write mutex as the
  first reader, about to return with success or with an error. \<open>UWait\<close>, \<open>UIn\<close>, \<open>ULast\<close>, \<open>UDone\<close>
  are those of \<open>uacpi_rw_unlock_read\<close>, and \<open>WWait\<close> is in \<open>uacpi_rw_lock_write\<close>.
\<close>

datatype rw_pc = Idle | RWait | RIn | RWrite | RDone | RFail | Reading | UWait | UIn | ULast | UDone | WWait | Writing

record rw_sys =
  rw_pc :: "thread \<Rightarrow> rw_pc"
  read_held :: bool
  write_held :: bool
  readers :: u64

abbreviation goto :: "rw_sys \<Rightarrow> thread \<Rightarrow> rw_pc \<Rightarrow> rw_sys" where
  "goto s t p \<equiv> s\<lparr>rw_pc := (rw_pc s)(t := p)\<rparr>"

text \<open>Thread identifiers have a bound, so that the counter of readers does not wrap.\<close>

definition thread_limit :: nat where "thread_limit = 2 ^ 32"

inductive rw_step :: "rw_sys \<Rightarrow> rw_sys \<Rightarrow> bool" where
  lock_read: "t < thread_limit \<Longrightarrow> rw_pc s t = Idle \<Longrightarrow> rw_step s (goto s t RWait)"
| read_acquired: "rw_pc s t = RWait \<Longrightarrow> \<not> read_held s \<Longrightarrow> rw_step s ((goto s t RIn)\<lparr>read_held := True\<rparr>)"
| read_error: "rw_pc s t = RWait \<Longrightarrow> rw_step s (goto s t Idle)"
| count_first: "rw_pc s t = RIn \<Longrightarrow> readers s = 0 \<Longrightarrow> rw_step s ((goto s t RWrite)\<lparr>readers := readers s + 1\<rparr>)"
| count_more: "rw_pc s t = RIn \<Longrightarrow> readers s \<noteq> 0 \<Longrightarrow> rw_step s ((goto s t RDone)\<lparr>readers := readers s + 1\<rparr>)"
| write_acquired: "rw_pc s t = RWrite \<Longrightarrow> \<not> write_held s \<Longrightarrow> rw_step s ((goto s t RDone)\<lparr>write_held := True\<rparr>)"
| write_error: "rw_pc s t = RWrite \<Longrightarrow> rw_step s ((goto s t RFail)\<lparr>readers := 0\<rparr>)"
| reader_in: "rw_pc s t = RDone \<Longrightarrow> rw_step s ((goto s t Reading)\<lparr>read_held := False\<rparr>)"
| reader_fails: "rw_pc s t = RFail \<Longrightarrow> rw_step s ((goto s t Idle)\<lparr>read_held := False\<rparr>)"
| unlock_read: "rw_pc s t = Reading \<Longrightarrow> rw_step s (goto s t UWait)"
| unlock_acquired: "rw_pc s t = UWait \<Longrightarrow> \<not> read_held s \<Longrightarrow> rw_step s ((goto s t UIn)\<lparr>read_held := True\<rparr>)"
| unlock_error: "rw_pc s t = UWait \<Longrightarrow> rw_step s (goto s t Reading)"
| discount_last: "rw_pc s t = UIn \<Longrightarrow> readers s = 1 \<Longrightarrow> rw_step s ((goto s t ULast)\<lparr>readers := readers s - 1\<rparr>)"
| discount_more: "rw_pc s t = UIn \<Longrightarrow> readers s \<noteq> 1 \<Longrightarrow> rw_step s ((goto s t UDone)\<lparr>readers := readers s - 1\<rparr>)"
| write_released: "rw_pc s t = ULast \<Longrightarrow> rw_step s ((goto s t UDone)\<lparr>write_held := False\<rparr>)"
| reader_out: "rw_pc s t = UDone \<Longrightarrow> rw_step s ((goto s t Idle)\<lparr>read_held := False\<rparr>)"
| lock_write: "rw_pc s t = Idle \<Longrightarrow> rw_step s (goto s t WWait)"
| writer_in: "rw_pc s t = WWait \<Longrightarrow> \<not> write_held s \<Longrightarrow> rw_step s ((goto s t Writing)\<lparr>write_held := True\<rparr>)"
| writer_error: "rw_pc s t = WWait \<Longrightarrow> rw_step s (goto s t Idle)"
| writer_out: "rw_pc s t = Writing \<Longrightarrow> rw_step s ((goto s t Idle)\<lparr>write_held := False\<rparr>)"

definition rw_start :: rw_sys where
  "rw_start = \<lparr>rw_pc = (\<lambda>_. Idle), read_held = False, write_held = False, readers = 0\<rparr>"

inductive rw_reachable :: "rw_sys \<Rightarrow> bool" where
  rw_reach_start: "rw_reachable rw_start"
| rw_reach_step: "rw_reachable s \<Longrightarrow> rw_step s s' \<Longrightarrow> rw_reachable s'"

text \<open>
  The invariant. The threads counted as readers are those between the increment and the
  decrement; the write mutex belongs to a writer or to the group of readers as a whole.
\<close>

definition holds_read :: "rw_pc set" where "holds_read = {RIn, RWrite, RDone, RFail, UIn, ULast, UDone}"
definition counted :: "rw_pc set" where "counted = {RWrite, RDone, Reading, UWait, UIn}"
definition rgroup :: "rw_pc set" where "rgroup = {RDone, Reading, UWait, UIn, ULast}"
definition known :: "rw_pc set" where "known = {RWait, RIn} \<union> counted"

lemmas rw_sets = holds_read_def counted_def rgroup_def known_def

definition at :: "rw_sys \<Rightarrow> rw_pc set \<Rightarrow> thread set" where
  "at s P = {t. rw_pc s t \<in> P}"

definition rw_inv :: "rw_sys \<Rightarrow> bool" where
  "rw_inv s \<longleftrightarrow>
     (\<forall>t \<in> at s holds_read. at s holds_read = {t}) \<and> (at s holds_read \<noteq> {} \<longrightarrow> read_held s)
     \<and> at s known \<subseteq> {..<thread_limit}
     \<and> readers s = of_nat (card (at s counted))
     \<and> (\<forall>t \<in> at s {RWrite}. at s counted = {t})
     \<and> (at s {ULast} \<noteq> {} \<longrightarrow> at s counted = {})
     \<and> (\<forall>t \<in> at s {Writing}. at s {Writing} = {t}) \<and> (at s {Writing} \<noteq> {} \<longrightarrow> write_held s \<and> at s rgroup = {})
     \<and> (at s rgroup \<noteq> {} \<longrightarrow> write_held s)"

lemma rw_mem [simp]:
  "Idle \<notin> holds_read" "RWait \<notin> holds_read" "RIn \<in> holds_read" "RWrite \<in> holds_read" "RDone \<in> holds_read" "RFail \<in> holds_read" "Reading \<notin> holds_read" "UWait \<notin> holds_read" "UIn \<in> holds_read" "ULast \<in> holds_read" "UDone \<in> holds_read" "WWait \<notin> holds_read" "Writing \<notin> holds_read"
  "Idle \<notin> counted" "RWait \<notin> counted" "RIn \<notin> counted" "RWrite \<in> counted" "RDone \<in> counted" "RFail \<notin> counted" "Reading \<in> counted" "UWait \<in> counted" "UIn \<in> counted" "ULast \<notin> counted" "UDone \<notin> counted" "WWait \<notin> counted" "Writing \<notin> counted"
  "Idle \<notin> rgroup" "RWait \<notin> rgroup" "RIn \<notin> rgroup" "RWrite \<notin> rgroup" "RDone \<in> rgroup" "RFail \<notin> rgroup" "Reading \<in> rgroup" "UWait \<in> rgroup" "UIn \<in> rgroup" "ULast \<in> rgroup" "UDone \<notin> rgroup" "WWait \<notin> rgroup" "Writing \<notin> rgroup"
  "Idle \<notin> known" "RWait \<in> known" "RIn \<in> known" "RWrite \<in> known" "RDone \<in> known" "RFail \<notin> known" "Reading \<in> known" "UWait \<in> known" "UIn \<in> known" "ULast \<notin> known" "UDone \<notin> known" "WWait \<notin> known" "Writing \<notin> known"
  by (simp_all add: rw_sets)

lemma at_iff: "t \<in> at s P \<longleftrightarrow> rw_pc s t \<in> P"
  by (simp add: at_def)

text \<open>Moving one thread: the sets of threads that change.\<close>

lemma at_move:
  "p \<in> P \<longleftrightarrow> q \<in> P \<Longrightarrow> rw_pc s t = p \<Longrightarrow> at (goto s t q) P = at s P"
  "p \<notin> P \<Longrightarrow> q \<in> P \<Longrightarrow> rw_pc s t = p \<Longrightarrow> at (goto s t q) P = insert t (at s P)"
  "p \<in> P \<Longrightarrow> q \<notin> P \<Longrightarrow> rw_pc s t = p \<Longrightarrow> at (goto s t q) P = at s P - {t}"
  by (auto simp: at_def)

lemma at_other [simp]:
  "at (s\<lparr>read_held := a\<rparr>) P = at s P" "at (s\<lparr>write_held := b\<rparr>) P = at s P" "at (s\<lparr>readers := n\<rparr>) P = at s P"
  by (simp_all add: at_def)

lemma at_sub:
  "at s {RWrite} \<subseteq> at s holds_read" "at s {RWrite} \<subseteq> at s counted" "at s {ULast} \<subseteq> at s holds_read"
  "at s {ULast} \<subseteq> at s rgroup" "at s rgroup \<subseteq> at s counted \<union> at s {ULast}" "at s counted \<subseteq> at s known"
  "at s counted \<subseteq> at s rgroup \<union> at s {RWrite}"
  by (auto simp: at_def rw_sets)

lemma counted_exact:
  assumes "rw_inv s"
  shows "finite (at s counted)" "card (at s counted) < 2 ^ 64 - 1" "unat (readers s) = card (at s counted)"
proof -
  have "at s known \<subseteq> {..<thread_limit}" using assms by (simp add: rw_inv_def)
  then have sub: "at s counted \<subseteq> {..<thread_limit}" using at_sub(6) by blast
  then show f: "finite (at s counted)" using finite_subset by blast
  have "card (at s counted) \<le> card {..<thread_limit}" using sub by (rule card_mono [rotated]) simp
  then show c: "card (at s counted) < 2 ^ 64 - 1" by (simp add: thread_limit_def)
  have "readers s = of_nat (card (at s counted))" using assms by (simp add: rw_inv_def)
  then show "unat (readers s) = card (at s counted)" using c by (simp add: unat_of_nat take_bit_nat_eq_self)
qed

lemma rw_invD:
  assumes "rw_inv s"
  shows "t \<in> at s holds_read \<Longrightarrow> at s holds_read = {t}" "at s holds_read \<noteq> {} \<Longrightarrow> read_held s"
    "at s known \<subseteq> {..<thread_limit}" "readers s = of_nat (card (at s counted))"
    "t \<in> at s {RWrite} \<Longrightarrow> at s counted = {t}" "at s {ULast} \<noteq> {} \<Longrightarrow> at s counted = {}"
    "t \<in> at s {Writing} \<Longrightarrow> at s {Writing} = {t}" "at s {Writing} \<noteq> {} \<Longrightarrow> write_held s"
    "at s {Writing} \<noteq> {} \<Longrightarrow> at s rgroup = {}" "at s rgroup \<noteq> {} \<Longrightarrow> write_held s"
  using assms by (simp_all add: rw_inv_def)

text \<open>A thread that holds the read mutex is alone with it.\<close>

lemma sole_holder:
  assumes "rw_inv s" "rw_pc s t \<in> holds_read"
  shows "at s holds_read = {t}" "rw_pc s t \<noteq> RWrite \<Longrightarrow> at s {RWrite} = {}" "rw_pc s t \<noteq> ULast \<Longrightarrow> at s {ULast} = {}"
proof -
  show h: "at s holds_read = {t}" using rw_invD(1) [OF assms(1)] assms(2) by (simp add: at_iff)
  have "at s {RWrite} \<subseteq> {t}" "at s {ULast} \<subseteq> {t}" using at_sub(1,3) [of s] h by simp_all
  then show "rw_pc s t \<noteq> RWrite \<Longrightarrow> at s {RWrite} = {}" "rw_pc s t \<noteq> ULast \<Longrightarrow> at s {ULast} = {}"
    by (auto simp: at_def)
qed

lemma known_bound: "rw_inv s \<Longrightarrow> rw_pc s t \<in> known \<Longrightarrow> t < thread_limit"
  using rw_invD(3) [of s] by (auto simp: at_def)

lemma keep_count_first:
  assumes "rw_pc s t = RIn" "readers s = 0" "rw_inv s"
  shows "rw_inv ((goto s t RWrite)\<lparr>readers := readers s + 1\<rparr>)"
proof -
  have c: "at s counted = {}" using counted_exact [OF assms(3)] assms(2) by simp
  have h: "at s holds_read = {t}" "at s {RWrite} = {}" "at s {ULast} = {}"
    using sole_holder [OF assms(3), of t] assms(1) by simp_all
  have g: "at s rgroup = {}" using at_sub(5) [of s] c h by simp
  show ?thesis
    using rw_invD(2,3,7,8) [OF assms(3)] h
    unfolding rw_inv_def by (simp add: at_move [where p = RIn and q = RWrite] assms(1,2) c g)
qed

lemma keep_count_more:
  assumes "rw_pc s t = RIn" "readers s \<noteq> 0" "rw_inv s"
  shows "rw_inv ((goto s t RDone)\<lparr>readers := readers s + 1\<rparr>)"
proof -
  have h: "at s holds_read = {t}" "at s {RWrite} = {}" "at s {ULast} = {}"
    using sole_holder [OF assms(3), of t] assms(1) by simp_all
  have "at s counted \<noteq> {}" using rw_invD(4) [OF assms(3)] assms(2) by auto
  then have "at s rgroup \<noteq> {}" using at_sub(7) [of s] h by auto
  then have w: "write_held s" "at s {Writing} = {}" using rw_invD(9,10) [OF assms(3)] by blast+
  have "t \<notin> at s counted" using assms(1) by (simp add: at_iff)
  then have "readers s + 1 = of_nat (card (insert t (at s counted)))"
    using rw_invD(4) [OF assms(3)] counted_exact(1) [OF assms(3)] by simp
  then show ?thesis
    using rw_invD(2,3) [OF assms(3)] h w
    unfolding rw_inv_def by (simp add: at_move [where p = RIn and q = RDone] assms(1))
qed

lemma keep_write_error:
  assumes "rw_pc s t = RWrite" "rw_inv s"
  shows "rw_inv ((goto s t RFail)\<lparr>readers := 0\<rparr>)"
proof -
  have h: "at s holds_read = {t}" "at s {ULast} = {}" using sole_holder [OF assms(2), of t] assms(1) by simp_all
  have c: "at s counted = {t}" using rw_invD(5) [OF assms(2)] assms(1) by (simp add: at_iff)
  then have rw: "at s {RWrite} - {t} = {}" using at_sub(2) [of s] by simp
  have "at s known - {t} \<subseteq> {..<thread_limit}" using rw_invD(3) [OF assms(2)] by auto
  then show ?thesis
    using rw_invD(2,7,8,9,10) [OF assms(2)] h c rw
    unfolding rw_inv_def by (simp add: at_move [where p = RWrite and q = RFail] assms(1)) blast
qed

lemma keep_discount_last:
  assumes "rw_pc s t = UIn" "readers s = 1" "rw_inv s"
  shows "rw_inv ((goto s t ULast)\<lparr>readers := readers s - 1\<rparr>)"
proof -
  have h: "at s holds_read = {t}" "at s {RWrite} = {}" "at s {ULast} = {}"
    using sole_holder [OF assms(3), of t] assms(1) by simp_all
  have t: "t \<in> at s counted" "t \<in> at s rgroup" using assms(1) by (simp_all add: at_iff)
  have "card (at s counted) = 1" using counted_exact(3) [OF assms(3)] assms(2) by simp
  then have c: "at s counted = {t}" using t(1) by (metis card_1_singletonE singletonD)
  have w: "write_held s" "at s {Writing} = {}" using rw_invD(9,10) [OF assms(3)] t(2) by blast+
  have "at s known - {t} \<subseteq> {..<thread_limit}" using rw_invD(3) [OF assms(3)] by auto
  then show ?thesis
    using rw_invD(2) [OF assms(3)] h c w
    unfolding rw_inv_def by (simp add: at_move [where p = UIn and q = ULast] assms(1,2))
qed

lemma keep_discount_more:
  assumes "rw_pc s t = UIn" "readers s \<noteq> 1" "rw_inv s"
  shows "rw_inv ((goto s t UDone)\<lparr>readers := readers s - 1\<rparr>)"
proof -
  have h: "at s holds_read = {t}" "at s {RWrite} = {}" "at s {ULast} = {}"
    using sole_holder [OF assms(3), of t] assms(1) by simp_all
  have t: "t \<in> at s counted" "t \<in> at s rgroup" using assms(1) by (simp_all add: at_iff)
  have w: "write_held s" "at s {Writing} = {}" using rw_invD(9,10) [OF assms(3)] t(2) by blast+
  have "card (at s counted) = Suc (card (at s counted - {t}))"
    using card_Suc_Diff1 [OF counted_exact(1) [OF assms(3)] t(1)] by simp
  then have n: "readers s - 1 = of_nat (card (at s counted - {t}))" using rw_invD(4) [OF assms(3)] by simp
  have "at s known - {t} \<subseteq> {..<thread_limit}" using rw_invD(3) [OF assms(3)] by auto
  then show ?thesis
    using rw_invD(2) [OF assms(3)] h w n
    unfolding rw_inv_def by (simp add: at_move [where p = UIn and q = UDone] assms(1))
qed

lemma keep_write_released:
  assumes "rw_pc s t = ULast" "rw_inv s"
  shows "rw_inv ((goto s t UDone)\<lparr>write_held := False\<rparr>)"
proof -
  have h: "at s holds_read = {t}" "at s {RWrite} = {}" using sole_holder [OF assms(2), of t] assms(1) by simp_all
  have t: "t \<in> at s {ULast}" using assms(1) by (simp add: at_iff)
  then have l: "at s {ULast} = {t}" using at_sub(3) [of s] h(1) by blast
  then have c: "at s counted = {}" using rw_invD(6) [OF assms(2)] by simp
  have g: "at s rgroup = {t}" using at_sub(4,5) [of s] l c by simp blast
  have w: "at s {Writing} = {}" using rw_invD(9) [OF assms(2)] g by blast
  show ?thesis
    using rw_invD(2,3,4) [OF assms(2)] h l c g w
    unfolding rw_inv_def by (simp add: at_move [where p = ULast and q = UDone] assms(1))
qed

lemma keep_writer_out:
  assumes "rw_pc s t = Writing" "rw_inv s"
  shows "rw_inv ((goto s t Idle)\<lparr>write_held := False\<rparr>)"
proof -
  have w: "at s {Writing} = {t}" using rw_invD(7) [OF assms(2)] assms(1) by (simp add: at_iff)
  have g: "at s rgroup = {}" using rw_invD(9) [OF assms(2)] w by simp
  show ?thesis
    using rw_invD(1,2,3,4,5,6) [OF assms(2)] w g
    unfolding rw_inv_def by (simp add: at_move [where p = Writing and q = Idle] assms(1))
qed

lemma keep_others:
  assumes "rw_inv s"
  shows "rw_pc s t = Idle \<Longrightarrow> t < thread_limit \<Longrightarrow> rw_inv (goto s t RWait)"
    "rw_pc s t = RWait \<Longrightarrow> \<not> read_held s \<Longrightarrow> rw_inv ((goto s t RIn)\<lparr>read_held := True\<rparr>)"
    "rw_pc s t = RWait \<Longrightarrow> rw_inv (goto s t Idle)"
    "rw_pc s t = Reading \<Longrightarrow> rw_inv (goto s t UWait)"
    "rw_pc s t = UWait \<Longrightarrow> rw_inv (goto s t Reading)"
    "rw_pc s t = Idle \<Longrightarrow> rw_inv (goto s t WWait)"
    "rw_pc s t = WWait \<Longrightarrow> rw_inv (goto s t Idle)"
  subgoal using assms unfolding rw_inv_def by (simp add: at_move [where p = Idle and q = RWait])
  subgoal using assms at_sub(1,3) [of s] unfolding rw_inv_def by (auto simp add: at_move [where p = RWait and q = RIn])
  subgoal using assms unfolding rw_inv_def by (auto simp add: at_move [where p = RWait and q = Idle])
  subgoal using assms unfolding rw_inv_def by (simp add: at_move [where p = Reading and q = UWait])
  subgoal using assms unfolding rw_inv_def by (simp add: at_move [where p = UWait and q = Reading])
  subgoal using assms unfolding rw_inv_def by (simp add: at_move [where p = Idle and q = WWait])
  subgoal using assms unfolding rw_inv_def by (simp add: at_move [where p = WWait and q = Idle])
  done

lemma keep_holder:
  assumes "rw_inv s"
  shows "rw_pc s t = RDone \<Longrightarrow> rw_inv ((goto s t Reading)\<lparr>read_held := False\<rparr>)"
    "rw_pc s t = RFail \<Longrightarrow> rw_inv ((goto s t Idle)\<lparr>read_held := False\<rparr>)"
    "rw_pc s t = UDone \<Longrightarrow> rw_inv ((goto s t Idle)\<lparr>read_held := False\<rparr>)"
    "rw_pc s t = UWait \<Longrightarrow> \<not> read_held s \<Longrightarrow> rw_inv ((goto s t UIn)\<lparr>read_held := True\<rparr>)"
    "rw_pc s t = RWrite \<Longrightarrow> \<not> write_held s \<Longrightarrow> rw_inv ((goto s t RDone)\<lparr>write_held := True\<rparr>)"
    "rw_pc s t = WWait \<Longrightarrow> \<not> write_held s \<Longrightarrow> rw_inv ((goto s t Writing)\<lparr>write_held := True\<rparr>)"
  subgoal using assms sole_holder [OF assms, of t] unfolding rw_inv_def by (simp add: at_move [where p = RDone and q = Reading])
  subgoal using assms sole_holder [OF assms, of t] unfolding rw_inv_def by (simp add: at_move [where p = RFail and q = Idle])
  subgoal using assms sole_holder [OF assms, of t] unfolding rw_inv_def by (simp add: at_move [where p = UDone and q = Idle])
  subgoal using assms unfolding rw_inv_def by (auto simp add: at_move [where p = UWait and q = UIn])
  subgoal
  proof -
    assume p: "rw_pc s t = RWrite" and w: "\<not> write_held s"
    have h: "at s holds_read = {t}" "at s {ULast} = {}" using sole_holder [OF assms, of t] p by simp_all
    have c: "at s counted = {t}" using rw_invD(5) [OF assms] p by (simp add: at_iff)
    have rw: "at s {RWrite} - {t} = {}" using at_sub(2) [of s] c by simp
    have "at s {Writing} = {}" using rw_invD(8) [OF assms] w by blast
    then show ?thesis
      using rw_invD(2,3,4) [OF assms] h c rw unfolding rw_inv_def by (auto simp: at_move [where p = RWrite and q = RDone] p)
  qed
  subgoal
  proof -
    assume p: "rw_pc s t = WWait" and w: "\<not> write_held s"
    have "at s {Writing} = {}" "at s rgroup = {}" using rw_invD(8,10) [OF assms] w by blast+
    then show ?thesis
      using rw_invD(1-6) [OF assms] unfolding rw_inv_def by (simp add: at_move [where p = WWait and q = Writing] p)
  qed
  done

lemmas rw_keeps = keep_count_first keep_count_more keep_write_error keep_discount_last keep_discount_more
  keep_write_released keep_writer_out keep_others keep_holder

lemma rw_step_inv: "rw_step s s' \<Longrightarrow> rw_inv s \<Longrightarrow> rw_inv s'"
  by (induction rule: rw_step.induct) (rule rw_keeps; assumption)+

lemma rw_start_inv: "rw_inv rw_start"
  by (simp add: rw_inv_def at_def rw_start_def)

text \<open>
  C22: readers and writers exclude each other. For any number of threads that call the four
  operations of a reader-writer lock in any interleaving, and however often the host refuses a
  mutex: while a thread is writing, no other thread is reading or writing, and the counter of
  readers is the number of threads that have been counted and not discounted yet.
\<close>

theorem rw_lock_exclusion:
  assumes "rw_reachable s"
  shows "(rw_pc s t = Writing \<longrightarrow> u \<noteq> t \<longrightarrow> rw_pc s u \<noteq> Writing \<and> rw_pc s u \<noteq> Reading)
     \<and> unat (readers s) = card {u. rw_pc s u \<in> counted}"
proof -
  have inv: "rw_inv s" using assms by induction (auto simp: rw_start_inv rw_step_inv)
  have "rw_pc s u \<noteq> Writing \<and> rw_pc s u \<noteq> Reading" if "rw_pc s t = Writing" "u \<noteq> t"
  proof -
    have "at s {Writing} = {t}" using rw_invD(7) [OF inv] that(1) by (simp add: at_iff)
    moreover from this have "at s rgroup = {}" using rw_invD(9) [OF inv] by simp
    ultimately have "u \<notin> at s {Writing}" "u \<notin> at s rgroup" using that(2) by simp_all
    then show ?thesis by (auto simp: at_iff)
  qed
  then show ?thesis using counted_exact(3) [OF inv] by (simp add: at_def)
qed

theorem rw_lock_exclusion_witness:
  "\<exists>s. rw_pc s 3 = Writing \<and> rw_pc s 5 = RWait \<and> rw_reachable s \<and> unat (readers s) = card {u. rw_pc s u \<in> counted}"
proof -
  let ?s = "(goto (goto (goto rw_start 3 WWait) 5 RWait) 3 Writing)\<lparr>write_held := True\<rparr>"
  have "rw_step rw_start (goto rw_start 3 WWait)" by (rule lock_write) (simp add: rw_start_def)
  moreover have "rw_step (goto rw_start 3 WWait) (goto (goto rw_start 3 WWait) 5 RWait)"
    by (rule lock_read) (simp_all add: rw_start_def thread_limit_def)
  moreover have "rw_step (goto (goto rw_start 3 WWait) 5 RWait) ?s"
    by (rule writer_in) (simp_all add: rw_start_def)
  ultimately have r: "rw_reachable ?s" using rw_reach_start rw_reach_step by meson
  have "rw_pc ?s 3 = Writing" "rw_pc ?s 5 = RWait" by simp_all
  then show ?thesis using rw_lock_exclusion [OF r, of 3 5] r by blast
qed

section \<open>The sequence number of the global lock\<close>

definition same_but_lock :: "mworld \<Rightarrow> mworld \<Rightarrow> bool" where
  "same_but_lock w w' \<longleftrightarrow> native_held w' = native_held w \<and> global_lock_handle w' = global_lock_handle w
     \<and> global_lock_seq_num w' = global_lock_seq_num w \<and> rt_init_level w' = rt_init_level w"

lemma acquire_attempts_keeps: "acquire_attempts host n w = Some (b, w') \<Longrightarrow> same_but_lock w w'"
proof (induction n arbitrary: w)
  case 0
  then show ?case by (simp add: same_but_lock_def)
next
  case (Suc n)
  obtain success v where t: "try_acquire_global_lock_from_firmware (firmware_view host (0xFFFF - n) (facs_global_lock w)) = Some (success, v)"
    using Suc(2) by (auto split: option.splits)
  show ?case
  proof (cases "success \<or> n = 0")
    case True
    then have "w' = w\<lparr>facs_global_lock := v\<rparr>" using Suc(2) t by (auto simp: Let_def split: if_splits)
    then show ?thesis by (simp add: same_but_lock_def)
  next
    case False
    then have "acquire_attempts host n (w\<lparr>facs_global_lock := v, global_lock_pending := True\<rparr>) = Some (b, w')"
      using Suc(2) t by (simp add: Let_def)
    from Suc(1) [OF this] show ?thesis by (simp add: same_but_lock_def)
  qed
qed

declare acquire_attempts.simps [simp del]

lemma acquire_from_firmware_keeps:
  assumes "uacpi_acquire_global_lock_from_firmware host w = Some (r, w')"
  shows "same_but_lock w w'"
proof (cases "has_global_lock w")
  case True
  obtain b w1 where a: "acquire_attempts host 0xFFFF w = Some (b, w1)" "w' = w1\<lparr>global_lock_pending := False\<rparr>"
    using assms True unfolding uacpi_acquire_global_lock_from_firmware_def by (auto split: option.splits)
  from acquire_attempts_keeps [OF a(1)] show ?thesis by (simp add: a(2) same_but_lock_def)
next
  case False
  then show ?thesis using assms by (simp add: uacpi_acquire_global_lock_from_firmware_def same_but_lock_def)
qed

text \<open>
  The global lock cannot be released with the number that acquiring it returned.
  \<open>uacpi_acquire_global_lock\<close> hands out the sequence number and then increments it, while
  \<open>uacpi_release_global_lock\<close> compares with the incremented number. So the release with the
  number handed out always reports an invalid argument and changes nothing: the mutex of the
  lock stays held. The number after it is the one that is accepted.
\<close>

theorem global_lock_seq_mismatch:
  assumes "uacpi_acquire_global_lock host timeout out_null w = Some (UACPI_STATUS_OK, Some seq, w')"
  shows "uacpi_release_global_lock host' seq w' = Some (UACPI_STATUS_INVALID_ARGUMENT, w')
     \<and> global_lock_acquired w' \<and> (\<exists>m. global_lock_handle w = Some m \<and> m \<in> native_held w')
     \<and> global_lock_seq_num w' = seq + 1
     \<and> (case uacpi_release_global_lock host' (seq + 1) w' of None \<Rightarrow> True | Some (r, w'') \<Rightarrow> r = UACPI_STATUS_OK)"
proof -
  have lvl: "\<not> rt_init_level w < UACPI_INIT_LEVEL_SUBSYSTEM_INITIALIZED" and nn: "\<not> out_null"
    using assms by (auto simp: uacpi_acquire_global_lock_def split: if_splits)
  obtain r w1 where a: "acquire_native_mutex_with_timeout host (global_lock_handle w) timeout w = (r, w1)" by fastforce
  have ok: "r = UACPI_STATUS_OK" using assms a lvl nn by (auto simp: uacpi_acquire_global_lock_def split: if_splits)
  obtain m where m: "global_lock_handle w = Some m" "w1 = w\<lparr>native_held := insert m (native_held w)\<rparr>"
    using a ok unfolding acquire_native_mutex_with_timeout_def host_acquire_def
    by (cases "global_lock_handle w") (auto simp: Let_def UACPI_STATUS_OK_def UACPI_STATUS_INVALID_ARGUMENT_def split: if_splits)
  obtain q w2 where f: "uacpi_acquire_global_lock_from_firmware host w1 = Some (q, w2)" "q = UACPI_STATUS_OK"
    using assms a lvl nn ok by (auto simp: uacpi_acquire_global_lock_def split: option.splits if_splits)
  define w3 where "w3 = (if global_lock_seq_num w2 = 0xFFFFFFFF then w2\<lparr>global_lock_seq_num := 0\<rparr> else w2)"
  have res: "seq = global_lock_seq_num w3"
    "w' = w3\<lparr>global_lock_seq_num := global_lock_seq_num w3 + 1, global_lock_acquired := True\<rparr>"
    using assms a lvl nn ok f by (auto simp: uacpi_acquire_global_lock_def w3_def Let_def split: if_splits)
  have held: "m \<in> native_held w'" "rt_init_level w' = rt_init_level w"
    using acquire_from_firmware_keeps [OF f(1)] m(2) res(2) by (auto simp: w3_def same_but_lock_def)
  have seq: "global_lock_seq_num w' = seq + 1" "global_lock_acquired w'" using res by simp_all
  have "seq \<noteq> seq + 1" by simp
  then show ?thesis
    using held seq lvl m(1) by (auto simp: uacpi_release_global_lock_def split: option.splits)
qed

definition quiet_host :: mhost where
  "quiet_host = \<lparr>kernel_acquire_mutex = (\<lambda>m timeout. UACPI_STATUS_OK), kernel_create_mutex = [7, 8],
     firmware_view = (\<lambda>n word. [word, word])\<rparr>"

definition mworld_boot :: mworld where
  "mworld_boot = \<lparr>native_held = {}, has_global_lock = True, facs_global_lock = 0, global_lock_seq_num = 0,
     global_lock_acquired = False, global_lock_pending = False, global_lock_handle = Some 4, gbl_rls_writes = 0,
     namespace_write_locked = True, rt_init_level = 1\<rparr>"

lemma first_attempt:
  "try_acquire_global_lock_from_firmware [0, 0] = Some (True, 2)"
  by code_simp

lemma quiet_acquire:
  "uacpi_acquire_global_lock quiet_host 0xFFFF False mworld_boot = Some (UACPI_STATUS_OK, Some 0,
     mworld_boot\<lparr>native_held := {4}, facs_global_lock := 2, global_lock_seq_num := 1, global_lock_acquired := True\<rparr>)"
proof -
  have "(0xFFFF :: nat) = Suc 0xFFFE" by simp
  then have "acquire_attempts quiet_host 0xFFFF (mworld_boot\<lparr>native_held := {4}\<rparr>)
      = Some (True, mworld_boot\<lparr>native_held := {4}, facs_global_lock := 2\<rparr>)"
    using first_attempt by (simp only: acquire_attempts.simps) (simp add: quiet_host_def mworld_boot_def)
  then show ?thesis
    by (simp add: uacpi_acquire_global_lock_def acquire_native_mutex_with_timeout_def host_acquire_def
        uacpi_acquire_global_lock_from_firmware_def mworld_boot_def UACPI_INIT_LEVEL_SUBSYSTEM_INITIALIZED_def Let_def)
      (simp add: quiet_host_def)
qed

theorem global_lock_seq_mismatch_witness:
  "\<exists>w'. uacpi_acquire_global_lock quiet_host 0xFFFF False mworld_boot = Some (UACPI_STATUS_OK, Some 0, w')
     \<and> uacpi_release_global_lock quiet_host 0 w' = Some (UACPI_STATUS_INVALID_ARGUMENT, w') \<and> native_held w' = {4}"
  using quiet_acquire global_lock_seq_mismatch [OF quiet_acquire, of quiet_host] by simp

section \<open>Sharing the lock with the firmware\<close>

text \<open>Changes of the lock between the read and the exchange do not matter: only the value exchanged does.\<close>

lemma exchange_value: "read_and_exchange f seen = Some (v, n) \<Longrightarrow> v \<in> set seen \<and> n = f v"
proof -
  have "v \<in> set xs \<and> n = f v" if "cmpxchg_loop f x xs = Some (v, n)" for x xs
    using that by (induction f x xs rule: cmpxchg_loop.induct) (auto split: if_splits)
  then show "read_and_exchange f seen = Some (v, n) \<Longrightarrow> v \<in> set seen \<and> n = f v"
    by (auto simp: read_and_exchange_def split: list.splits)
qed

lemma was_owned_bit: "was_owned v \<longleftrightarrow> bit v 1"
proof -
  have "drop_bit 1 (v AND 2) = of_bool (bit v 1)"
    by (rule bit_word_eqI) (auto simp: bit_simps bit_2_iff bit_1_iff)
  then show ?thesis by (simp add: was_owned_def global_lock_bits)
qed

lemma try_acquire_exchanges:
  assumes "try_acquire_global_lock_from_firmware seen = Some (success, n)"
  shows "\<exists>v \<in> set seen. try_acquire_global_lock_from_firmware [v, v] = Some (success, n)"
proof -
  let ?f = "\<lambda>v. let n = (v AND NOT GLOBAL_LOCK_MASK) OR GLOBAL_LOCK_OWNED in if was_owned v then n OR GLOBAL_LOCK_PENDING else n"
  obtain v where v: "read_and_exchange ?f seen = Some (v, n)" "success = (\<not> was_owned v)"
    using assms unfolding try_acquire_global_lock_from_firmware_def by auto
  from exchange_value [OF v(1)] have "v \<in> set seen" "n = ?f v" by simp_all
  then show ?thesis
    unfolding try_acquire_global_lock_from_firmware_def by (intro bexI [of _ v]) (simp_all add: read_and_exchange_def v(2))
qed

datatype gl_party = Away | Waiting | Inside

record gl_sys =
  lock_word :: u32
  os_at :: gl_party
  fw_at :: gl_party

text \<open>
  The protocol with its two parties. The operating system runs the two functions above, at the
  moment of the exchange; the firmware follows the same protocol, as the ACPI specification
  demands. A party that fails waits; it is woken when the other one releases the lock and finds the
  pending bit (by the event for the operating system, by \<open>GBL_RLS\<close> for the firmware). It may also stop waiting at any
  time: the wait for the event has a time limit, after which the operating system tries again, and it
  gives up after 65535 attempts.
\<close>

definition after_try :: "bool \<Rightarrow> gl_party" where
  "after_try success = (if success then Inside else Waiting)"

definition woken :: "bool \<Rightarrow> gl_party \<Rightarrow> gl_party" where
  "woken pending p = (if pending \<and> p = Waiting then Away else p)"

inductive gl_step :: "gl_sys \<Rightarrow> gl_sys \<Rightarrow> bool" where
  os_try: "os_at s = Away \<Longrightarrow> try_acquire_global_lock_from_firmware [lock_word s, lock_word s] = Some (ok, n) \<Longrightarrow>
    gl_step s (s\<lparr>lock_word := n, os_at := after_try ok\<rparr>)"
| fw_try: "fw_at s = Away \<Longrightarrow> try_acquire_global_lock_from_firmware [lock_word s, lock_word s] = Some (ok, n) \<Longrightarrow>
    gl_step s (s\<lparr>lock_word := n, fw_at := after_try ok\<rparr>)"
| os_release: "os_at s = Inside \<Longrightarrow> do_release_global_lock_to_firmware [lock_word s, lock_word s] = Some (pending, n) \<Longrightarrow>
    gl_step s (s\<lparr>lock_word := n, os_at := Away, fw_at := woken pending (fw_at s)\<rparr>)"
| fw_release: "fw_at s = Inside \<Longrightarrow> do_release_global_lock_to_firmware [lock_word s, lock_word s] = Some (pending, n) \<Longrightarrow>
    gl_step s (s\<lparr>lock_word := n, fw_at := Away, os_at := woken pending (os_at s)\<rparr>)"
| os_leave: "os_at s = Waiting \<Longrightarrow> gl_step s (s\<lparr>os_at := Away\<rparr>)"
| fw_leave: "fw_at s = Waiting \<Longrightarrow> gl_step s (s\<lparr>fw_at := Away\<rparr>)"

inductive gl_reachable :: "u32 \<Rightarrow> gl_sys \<Rightarrow> bool" for word where
  gl_start: "\<not> bit word 0 \<Longrightarrow> \<not> bit word 1 \<Longrightarrow> gl_reachable word \<lparr>lock_word = word, os_at = Away, fw_at = Away\<rparr>"
| gl_more: "gl_reachable word s \<Longrightarrow> gl_step s s' \<Longrightarrow> gl_reachable word s'"

text \<open>The three values the lock word gets: taken, taken with the pending bit, and cleared.\<close>

definition gl_taken :: "u32 \<Rightarrow> u32" where "gl_taken v = (v AND NOT 3) OR 2"
definition gl_contested :: "u32 \<Rightarrow> u32" where "gl_contested v = (v AND NOT 3) OR 3"
definition gl_cleared :: "u32 \<Rightarrow> u32" where "gl_cleared v = v AND NOT 3"

lemma gl_bits [simp]:
  "\<not> bit (gl_taken v) 0" "bit (gl_taken v) (Suc 0)" "bit (gl_contested v) 0" "bit (gl_contested v) (Suc 0)"
  "\<not> bit (gl_cleared v) 0" "\<not> bit (gl_cleared v) (Suc 0)"
  unfolding gl_taken_def gl_contested_def gl_cleared_def bit_or_iff bit_and_iff bit_not_iff
  by (simp_all add: bit_numeral_rec bit_1_iff)

lemma try_acquire_bits:
  "try_acquire_global_lock_from_firmware [v, v] = Some (ok, n) \<longleftrightarrow>
     ok = (\<not> bit v 1) \<and> n = (if bit v 1 then gl_contested v else gl_taken v)"
proof -
  have "(v AND NOT 3 OR 2) OR 1 = gl_contested v" by (simp add: gl_contested_def or.assoc)
  then show ?thesis
    unfolding try_acquire_global_lock_from_firmware_def read_and_exchange_def was_owned_bit
    by (auto simp: global_lock_bits Let_def gl_taken_def)
qed

lemma release_bits:
  "do_release_global_lock_to_firmware [v, v] = Some (pending, n) \<longleftrightarrow> pending = bit v 0 \<and> n = gl_cleared v"
proof -
  have "v AND 1 \<noteq> 0 \<longleftrightarrow> bit v 0" by (simp add: and_one_eq bit_0 odd_iff_mod_2_eq_one)
  then show ?thesis
    unfolding do_release_global_lock_to_firmware_def read_and_exchange_def by (auto simp: global_lock_bits gl_cleared_def)
qed

definition gl_inv :: "gl_sys \<Rightarrow> bool" where
  "gl_inv s \<longleftrightarrow> \<not> (os_at s = Inside \<and> fw_at s = Inside)
     \<and> (bit (lock_word s) 1 \<longleftrightarrow> os_at s = Inside \<or> fw_at s = Inside)
     \<and> (os_at s = Waiting \<longrightarrow> fw_at s = Inside \<and> bit (lock_word s) 0)
     \<and> (fw_at s = Waiting \<longrightarrow> os_at s = Inside \<and> bit (lock_word s) 0)"

lemma gl_step_inv: "gl_step s s' \<Longrightarrow> gl_inv s \<Longrightarrow> gl_inv s'"
proof (induction rule: gl_step.induct)
  case (os_try s ok n)
  then show ?case by (auto simp: try_acquire_bits gl_inv_def after_try_def)
next
  case (fw_try s ok n)
  then show ?case by (auto simp: try_acquire_bits gl_inv_def after_try_def)
next
  case (os_release s pending n)
  then show ?case by (auto simp: release_bits gl_inv_def woken_def)
next
  case (fw_release s pending n)
  then show ?case by (auto simp: release_bits gl_inv_def woken_def)
qed (auto simp: gl_inv_def)

text \<open>
  C23: the operating system and the firmware never hold the global lock together, and no
  notification is lost: a party that waits for the lock waits for one that holds it and will find
  the pending bit when it releases it.
\<close>

theorem global_lock_shared_safely:
  assumes "gl_reachable word s"
  shows "\<not> (os_at s = Inside \<and> fw_at s = Inside)
     \<and> (os_at s = Waiting \<longrightarrow> fw_at s = Inside \<and> bit (lock_word s) 0)
     \<and> (fw_at s = Waiting \<longrightarrow> os_at s = Inside \<and> bit (lock_word s) 0)"
proof -
  have "gl_inv s" using assms
  proof induction
    case gl_start
    then show ?case by (simp add: gl_inv_def)
  qed (rule gl_step_inv)
  then show ?thesis by (simp add: gl_inv_def)
qed

theorem global_lock_shared_safely_witness:
  "\<exists>s. gl_reachable 0 s \<and> os_at s = Waiting \<and> fw_at s = Inside \<and> bit (lock_word s) 0"
proof -
  let ?s0 = "\<lparr>lock_word = 0, os_at = Away, fw_at = Away\<rparr>"
  let ?s1 = "?s0\<lparr>lock_word := gl_taken 0, fw_at := after_try True\<rparr>"
  let ?s2 = "?s1\<lparr>lock_word := gl_contested (gl_taken 0), os_at := after_try False\<rparr>"
  have "gl_reachable 0 ?s0" by (rule gl_start) simp_all
  moreover have "gl_step ?s0 ?s1" by (rule fw_try) (simp_all add: try_acquire_bits)
  moreover have "gl_step ?s1 ?s2" by (rule os_try) (simp_all add: try_acquire_bits)
  ultimately have r: "gl_reachable 0 ?s2" by (meson gl_more)
  have "os_at ?s2 = Waiting" by (simp add: after_try_def)
  then show ?thesis using global_lock_shared_safely [OF r] r by blast
qed

section \<open>Recursion of AML mutexes\<close>

text \<open>An operation several times, each time with success.\<close>

fun repeat_ok :: "nat \<Rightarrow> (aml_mutex \<Rightarrow> mworld \<Rightarrow> (uacpi_status \<times> aml_mutex \<times> mworld) option)
    \<Rightarrow> aml_mutex \<Rightarrow> mworld \<Rightarrow> (aml_mutex \<times> mworld) option" where
  "repeat_ok 0 f mutex w = Some (mutex, w)"
| "repeat_ok (Suc n) f mutex w = (case repeat_ok n f mutex w of
     Some (mutex', w') \<Rightarrow> (case f mutex' w' of
       Some (r, mutex'', w'') \<Rightarrow> if r = UACPI_STATUS_OK then Some (mutex'', w'') else None | None \<Rightarrow> None)
   | None \<Rightarrow> None)"

lemma acquire_owned:
  "am_owner mutex = Some t \<Longrightarrow> uacpi_acquire_aml_mutex host t timeout mutex w =
     (if am_depth mutex = 0xFFFF then Some (UACPI_STATUS_DENIED, mutex, w)
      else Some (UACPI_STATUS_OK, mutex\<lparr>am_depth := am_depth mutex + 1\<rparr>, w))"
  by (simp add: uacpi_acquire_aml_mutex_def)

lemma release_nested:
  "am_depth mutex > 1 \<Longrightarrow> uacpi_release_aml_mutex host mutex w = Some (UACPI_STATUS_OK, mutex\<lparr>am_depth := am_depth mutex - 1\<rparr>, w)"
  by (simp add: uacpi_release_aml_mutex_def Let_def)

lemma nested_releases:
  assumes "n < unat (am_depth mutex)"
  shows "repeat_ok n (uacpi_release_aml_mutex host) mutex w = Some (mutex\<lparr>am_depth := am_depth mutex - of_nat n\<rparr>, w)"
  using assms
proof (induction n)
  case (Suc n)
  have "unat (am_depth mutex) < 2 ^ 16" using unsigned_less [of "am_depth mutex"] by simp
  then have un: "unat (of_nat n :: u16) = n" using Suc(2) by (simp add: unat_of_nat take_bit_nat_eq_self)
  have "unat (am_depth mutex - of_nat n) = unat (am_depth mutex) - n"
    using Suc(2) un by (simp add: unat_sub_if')
  then have "am_depth mutex - of_nat n > 1" using Suc(2) by (simp add: word_less_nat_alt)
  then have "uacpi_release_aml_mutex host (mutex\<lparr>am_depth := am_depth mutex - of_nat n\<rparr>) w
      = Some (UACPI_STATUS_OK, mutex\<lparr>am_depth := am_depth mutex - of_nat n - 1\<rparr>, w)"
    using release_nested [of "mutex\<lparr>am_depth := am_depth mutex - of_nat n\<rparr>"] by simp
  then show ?case using Suc by (simp add: algebra_simps)
qed simp

lemma nested_acquires:
  assumes first: "uacpi_acquire_aml_mutex host t timeout mutex w = Some (UACPI_STATUS_OK, mutex\<lparr>am_owner := Some t, am_depth := 1\<rparr>, held)"
    and "n < 0xFFFF"
  shows "repeat_ok (Suc n) (uacpi_acquire_aml_mutex host t timeout) mutex w
     = Some (mutex\<lparr>am_owner := Some t, am_depth := of_nat (Suc n)\<rparr>, held)"
  using assms(2)
proof (induction n)
  case 0
  then show ?case using first by simp
next
  case (Suc n)
  let ?m = "mutex\<lparr>am_owner := Some t, am_depth := of_nat (Suc n)\<rparr>"
  have "unat (of_nat (Suc n) :: u16) = Suc n" using Suc(2) by (simp add: unat_of_nat take_bit_nat_eq_self del: of_nat_Suc)
  then have "(of_nat (Suc n) :: u16) \<noteq> 0xFFFF" using Suc(2) by (auto simp: word_unat_eq_iff simp del: of_nat_Suc)
  then have "uacpi_acquire_aml_mutex host t timeout ?m held = Some (UACPI_STATUS_OK, ?m\<lparr>am_depth := of_nat (Suc n) + 1\<rparr>, held)"
    using acquire_owned [of ?m t] by simp
  moreover have "repeat_ok (Suc n) (uacpi_acquire_aml_mutex host t timeout) mutex w = Some (?m, held)" using Suc by simp
  ultimately show ?case by (subst repeat_ok.simps(2)) (simp add: algebra_simps del: repeat_ok.simps)
qed

text \<open>
  AML mutexes are recursive up to 65535 levels. A thread that acquires a free mutex \<open>n\<close> times
  owns it with that depth and the host's mutex is acquired once; the next attempt at the largest depth
  is denied and changes nothing; after \<open>n - 1\<close> releases the thread still owns the mutex, and
  with the last one the mutex and the host's state are as they were before.
\<close>

theorem aml_mutex_recursion:
  assumes "am_owner mutex = None" "am_depth mutex = 0" "am_handle mutex = Some h" "global_lock_handle w \<noteq> Some h"
    and "h \<notin> native_held w" "namespace_write_locked w" "kernel_acquire_mutex host h timeout = UACPI_STATUS_OK"
    and "1 \<le> n" "n \<le> 0xFFFF"
  shows "let held = w\<lparr>native_held := insert h (native_held w)\<rparr>;
             owned = mutex\<lparr>am_owner := Some t, am_depth := of_nat n\<rparr> in
     repeat_ok n (uacpi_acquire_aml_mutex host t timeout) mutex w = Some (owned, held)
     \<and> (n = 0xFFFF \<longrightarrow> uacpi_acquire_aml_mutex host t timeout owned held = Some (UACPI_STATUS_DENIED, owned, held))
     \<and> repeat_ok (n - 1) (uacpi_release_aml_mutex host) owned held = Some (owned\<lparr>am_depth := 1\<rparr>, held)
     \<and> repeat_ok n (uacpi_release_aml_mutex host) owned held = Some (mutex, w)"
proof -
  define held where "held = w\<lparr>native_held := insert h (native_held w)\<rparr>"
  define owned where "owned = mutex\<lparr>am_owner := Some t, am_depth := of_nat n\<rparr>"
  obtain k where k: "n = Suc k" using assms(8) by (cases n) auto
  have gl: "Some h \<noteq> global_lock_handle w" using assms(4) by auto
  have u: "unat (of_nat n :: u16) = n" using assms(9) by (simp add: unat_of_nat take_bit_nat_eq_self)
  have "uacpi_acquire_aml_mutex host t timeout mutex w = Some (UACPI_STATUS_OK, mutex\<lparr>am_owner := Some t, am_depth := 1\<rparr>, held)"
    using assms(1,3,6,7) gl by (simp add: uacpi_acquire_aml_mutex_def acquire_native_mutex_with_timeout_def host_acquire_def
        Let_def held_def)
  then have acq: "repeat_ok n (uacpi_acquire_aml_mutex host t timeout) mutex w = Some (owned, held)"
    using nested_acquires [of host t timeout mutex w held k] assms(9) unfolding k owned_def by simp
  have denied: "uacpi_acquire_aml_mutex host t timeout owned held = Some (UACPI_STATUS_DENIED, owned, held)"
    if "n = 0xFFFF" using that acquire_owned [of owned t] by (simp add: owned_def)
  have "(of_nat n :: u16) - of_nat k = 1" by (simp add: k)
  then have down: "repeat_ok k (uacpi_release_aml_mutex host) owned held = Some (owned\<lparr>am_depth := 1\<rparr>, held)"
    using nested_releases [of k owned host held] u by (simp add: owned_def k)
  have same: "mutex\<lparr>am_depth := 0, am_owner := None\<rparr> = mutex" using assms(1,2) by simp
  have "uacpi_release_aml_mutex host (owned\<lparr>am_depth := 1\<rparr>) held = Some (UACPI_STATUS_OK, mutex, w)"
    using assms(3,5) gl same by (simp add: uacpi_release_aml_mutex_def release_native_mutex_def host_release_def owned_def held_def)
  then have "repeat_ok n (uacpi_release_aml_mutex host) owned held = Some (mutex, w)"
    using down by (simp add: k)
  then show ?thesis
    using acq denied down unfolding Let_def held_def [symmetric] owned_def [symmetric] by (simp add: k)
qed

theorem aml_mutex_recursion_witness:
  "\<exists>mutex w. repeat_ok 0xFFFF (uacpi_acquire_aml_mutex quiet_host 1 0xFFFF) \<lparr>am_handle = Some 9, am_owner = None, am_depth = 0\<rparr> mworld_boot
       = Some (mutex, w)
     \<and> uacpi_acquire_aml_mutex quiet_host 1 0xFFFF mutex w = Some (UACPI_STATUS_DENIED, mutex, w) \<and> native_held w = {9}"
  using aml_mutex_recursion [of "\<lparr>am_handle = Some 9, am_owner = None, am_depth = 0\<rparr>" 9 mworld_boot quiet_host "0xFFFF" "0xFFFF" 1]
  by (simp add: mworld_boot_def quiet_host_def Let_def)

end
