(* ===== verification/UacpiTables.thy ===== *)
theory UacpiTables
  imports UacpiArray UacpiFadt UacpiMutex
begin

text \<open>
  The table array of \<^verbatim>\<open>src/uacpi/tables.c\<close>: installation from physical and virtual addresses with the
  host's handler, the FADT and the tables it names, reference counts and mappings, searches, flags and
  start-up from the root pointer. The host is the parameter \<open>table_host\<close>. Messages are left out.

  Mappings that were made and not yet removed are kept in a list; removing one that is not in it, or with another
  length, is undefined, as the contract of \<open>uacpi_kernel_unmap\<close> says. What memory holds is a fixed function of the
  host: that tables are only read while they are mapped is not part of the model. Acquiring the table mutex
  while it is held never returns; a mutex that is created is free.
\<close>

section \<open>State\<close>

definition UACPI_STATUS_OVERRIDDEN :: uacpi_status where "UACPI_STATUS_OVERRIDDEN = 19"

datatype uacpi_table_origin = UACPI_TABLE_ORIGIN_FIRMWARE_VIRTUAL | UACPI_TABLE_ORIGIN_FIRMWARE_PHYSICAL
  | UACPI_TABLE_ORIGIN_HOST_VIRTUAL | UACPI_TABLE_ORIGIN_HOST_PHYSICAL

definition UACPI_TABLE_LOADED :: u8 where "UACPI_TABLE_LOADED = 1"
definition UACPI_TABLE_CSUM_VERIFIED :: u8 where "UACPI_TABLE_CSUM_VERIFIED = 2"
definition UACPI_TABLE_INVALID :: u8 where "UACPI_TABLE_INVALID = 4"

definition UACPI_FLAG_BAD_CSUM_FATAL :: u64 where "UACPI_FLAG_BAD_CSUM_FATAL = 1"
definition UACPI_FLAG_BAD_TBL_SIGNATURE_FATAL :: u64 where "UACPI_FLAG_BAD_TBL_SIGNATURE_FATAL = 2"
definition UACPI_FLAG_BAD_XSDT :: u64 where "UACPI_FLAG_BAD_XSDT = 4"
definition UACPI_FLAG_PROACTIVE_TBL_CSUM :: u64 where "UACPI_FLAG_PROACTIVE_TBL_CSUM = 32"

definition UACPI_INIT_LEVEL_EARLY :: nat where "UACPI_INIT_LEVEL_EARLY = 0"
definition UACPI_STATIC_TABLE_ARRAY_LEN :: nat where "UACPI_STATIC_TABLE_ARRAY_LEN = 16"

definition ACPI_HW_REDUCED_ACPI :: u32 where "ACPI_HW_REDUCED_ACPI = 0x100000"

text \<open>A header is the list of its 36 bytes.\<close>

type_synonym sdt_hdr = "u8 list"

definition sdt_hdr_size :: u64 where "sdt_hdr_size = 36"

definition sdt_signature :: "sdt_hdr \<Rightarrow> u8 list" where "sdt_signature h = take 4 h"
definition sdt_length :: "sdt_hdr \<Rightarrow> u32" where "sdt_length h = le_word (take 4 (drop 4 h))"
definition sdt_revision :: "sdt_hdr \<Rightarrow> u8" where "sdt_revision h = h ! 8"
definition sdt_oemid :: "sdt_hdr \<Rightarrow> u8 list" where "sdt_oemid h = take 6 (drop 10 h)"
definition sdt_oem_table_id :: "sdt_hdr \<Rightarrow> u8 list" where "sdt_oem_table_id h = take 8 (drop 16 h)"

abbreviation sdt_len :: "sdt_hdr \<Rightarrow> u64" where "sdt_len h \<equiv> ucast (sdt_length h)"

record uacpi_installed_table =
  it_phys_addr :: u64
  it_hdr :: sdt_hdr
  it_ptr :: u64
  it_reference_count :: u16
  it_flags :: u8
  it_origin :: uacpi_table_origin

record uacpi_table =
  tb_ptr :: u64
  tb_index :: nat

text \<open>
  The installation handler: the disposition and the override address, for the header it is shown. What a host
  callback answers may depend on the number of the call.
\<close>

type_synonym table_installation_handler = "nat \<Rightarrow> u64 \<Rightarrow> nat \<times> u64"

record tables_state =
  tables :: "uacpi_installed_table dyn_array"
  early_table_access :: bool
  installation_handler :: "table_installation_handler option"
  table_mutex :: u64
  table_mutex_held :: bool
  ts_init_level :: nat
  ts_flags :: u64
  is_rev1 :: bool
  is_hardware_reduced :: bool
  ts_fadt :: fadt_bytes
  ts_blocks :: event_blocks
  ts_facs :: u64
  host_calls :: nat
  mapped :: "(u64 \<times> u64) list"
  freed :: "u64 list"

text \<open>
  The host: mapping (0 is failure), the memory behind pointers, the allocation of table arrays, mutexes, the root pointer and the
  answers of acquiring a mutex.
\<close>

record table_host =
  th_map :: "nat \<Rightarrow> u64 \<Rightarrow> u64 \<Rightarrow> u64"
  th_mem :: mem
  th_alloc :: "nat \<Rightarrow> nat \<Rightarrow> uacpi_installed_table list option"
  th_create_mutex :: "nat \<Rightarrow> u64"
  th_acquire_mutex :: "nat \<Rightarrow> uacpi_status"
  th_get_rsdp :: "uacpi_status \<times> u64"

type_synonym 'a tkern = "(tables_state, 'a) kern"

definition host_call :: "(nat \<Rightarrow> 'a) \<Rightarrow> 'a tkern" where
  "host_call f = kbind (kget host_calls) (\<lambda>n. kseq (kmod (host_calls_update Suc)) (kret (f n)))"

definition kernel_map :: "table_host \<Rightarrow> u64 \<Rightarrow> u64 \<Rightarrow> u64 tkern" where
  "kernel_map host phys len = kbind (host_call (\<lambda>n. th_map host n phys len)) (\<lambda>p.
     kseq (kif (p \<noteq> 0) (kmod (mapped_update (\<lambda>ms. (p, len) # ms)))) (kret p))"

definition kernel_unmap :: "u64 \<Rightarrow> u64 \<Rightarrow> unit tkern" where
  "kernel_unmap p len = kbind (kget mapped) (\<lambda>ms.
     if (p, len) \<in> set ms then kmod (mapped_update (\<lambda>_. remove1 (p, len) ms)) else kfault)"

definition acquire_table_mutex :: "table_host \<Rightarrow> uacpi_status tkern" where
  "acquire_table_mutex host = kbind (kget table_mutex) (\<lambda>m.
     if m = 0 then kret UACPI_STATUS_OK
     else kbind (host_call (th_acquire_mutex host)) (\<lambda>ret.
       if ret \<noteq> UACPI_STATUS_OK then kret ret
       else kbind (kget table_mutex_held) (\<lambda>h.
         if h then (\<lambda>_. Diverge) else kseq (kmod (table_mutex_held_update (\<lambda>_. True))) (kret UACPI_STATUS_OK))))"

definition release_table_mutex :: "unit tkern" where
  "release_table_mutex = kbind (kget table_mutex) (\<lambda>m. kif (m \<noteq> 0) (kmod (table_mutex_held_update (\<lambda>_. False))))"

definition check_flag :: "u64 \<Rightarrow> bool tkern" where
  "check_flag fl = kget (\<lambda>s. ts_flags s AND fl = fl)"

text \<open>The check at the start of the interface functions, skipped in early access.\<close>

definition ensure_subsystem :: "'a \<Rightarrow> 'a tkern \<Rightarrow> 'a tkern" where
  "ensure_subsystem mismatch f = kbind (kget (\<lambda>s. \<not> early_table_access s \<and> ts_init_level s < UACPI_INIT_LEVEL_SUBSYSTEM_INITIALIZED))
     (\<lambda>bad. if bad then kret mismatch else f)"

text \<open>Access to an element of the array through a pointer.\<close>

definition tbl_get :: "da_slot \<Rightarrow> uacpi_installed_table tkern" where
  "tbl_get p = (\<lambda>s. case da_read (tables s) p of None \<Rightarrow> Fault | Some t \<Rightarrow> Ret t s)"

definition tbl_put :: "da_slot \<Rightarrow> uacpi_installed_table \<Rightarrow> unit tkern" where
  "tbl_put p t = (\<lambda>s. case da_write (tables s) p t of None \<Rightarrow> Fault | Some arr \<Rightarrow> Ret () (s\<lparr>tables := arr\<rparr>))"

definition tbl_mod :: "da_slot \<Rightarrow> (uacpi_installed_table \<Rightarrow> uacpi_installed_table) \<Rightarrow> unit tkern" where
  "tbl_mod p f = kbind (tbl_get p) (\<lambda>t. tbl_put p (f t))"

section \<open>Validation\<close>

definition table_checksum :: "u8 list \<Rightarrow> u8" where
  "table_checksum bytes = foldl (+) 0 bytes"

definition uacpi_verify_table_checksum :: "table_host \<Rightarrow> u64 \<Rightarrow> u64 \<Rightarrow> uacpi_status tkern" where
  "uacpi_verify_table_checksum host table sz =
     (if table_checksum (bytes_at (th_mem host) table (unat sz)) \<noteq> 0
      then kbind (check_flag UACPI_FLAG_BAD_CSUM_FATAL) (\<lambda>fatal. kret (if fatal then UACPI_STATUS_BAD_CHECKSUM else UACPI_STATUS_OK))
      else kret UACPI_STATUS_OK)"

definition uacpi_signatures_match :: "u8 list \<Rightarrow> u8 list \<Rightarrow> bool" where
  "uacpi_signatures_match lhs rhs \<longleftrightarrow> take 4 lhs = take 4 rhs"

definition uacpi_check_table_signature :: "u8 list \<Rightarrow> u8 list \<Rightarrow> uacpi_status tkern" where
  "uacpi_check_table_signature table expect =
     (if \<not> uacpi_signatures_match table expect
      then kbind (check_flag UACPI_FLAG_BAD_TBL_SIGNATURE_FATAL) (\<lambda>fatal. kret (if fatal then UACPI_STATUS_INVALID_SIGNATURE else UACPI_STATUS_OK))
      else kret UACPI_STATUS_OK)"

definition ACPI_RSDT_SIGNATURE :: "u8 list" where "ACPI_RSDT_SIGNATURE = sig ''RSDT''"
definition ACPI_XSDT_SIGNATURE :: "u8 list" where "ACPI_XSDT_SIGNATURE = sig ''XSDT''"
definition ACPI_FADT_SIGNATURE :: "u8 list" where "ACPI_FADT_SIGNATURE = sig ''FACP''"
definition ACPI_FACS_SIGNATURE :: "u8 list" where "ACPI_FACS_SIGNATURE = sig ''FACS''"
definition ACPI_DSDT_SIGNATURE :: "u8 list" where "ACPI_DSDT_SIGNATURE = sig ''DSDT''"

text \<open>A new element of the array, with its index.\<close>

definition table_array_alloc :: "table_host \<Rightarrow> da_slot option tkern" where
  "table_array_alloc host = kbind (host_call (th_alloc host)) (\<lambda>new_buf. \<lambda>s.
     case da_alloc new_buf (tables s) of (p, arr) \<Rightarrow> Ret p (s\<lparr>tables := arr\<rparr>))"

definition table_alloc :: "table_host \<Rightarrow> (uacpi_status \<times> da_slot \<times> nat) tkern" where
  "table_alloc host = kbind (kget (\<lambda>s. early_table_access s \<and> da_size (tables s) = da_capacity (tables s))) (\<lambda>exhausted.
     if exhausted then kret (UACPI_STATUS_OUT_OF_MEMORY, Inline 0, 0)
     else kbind (table_array_alloc host) (\<lambda>r. case r of
       None \<Rightarrow> kret (UACPI_STATUS_OUT_OF_MEMORY, Inline 0, 0)
     | Some p \<Rightarrow> kget (\<lambda>s. (UACPI_STATUS_OK, p, da_size (tables s) - 1))))"

definition get_external_table_header :: "table_host \<Rightarrow> u64 \<Rightarrow> (uacpi_status \<times> sdt_hdr) tkern" where
  "get_external_table_header host phys_addr = kbind (kernel_map host phys_addr sdt_hdr_size) (\<lambda>virt.
     if virt = 0 then kret (UACPI_STATUS_MAPPING_FAILED, [])
     else let out_hdr = bytes_at (th_mem host) virt (unat sdt_hdr_size) in
       kseq (kernel_unmap virt sdt_hdr_size) (kret (UACPI_STATUS_OK, out_hdr)))"

section \<open>References\<close>

fun origin_physical :: "uacpi_table_origin \<Rightarrow> bool" where
  "origin_physical UACPI_TABLE_ORIGIN_HOST_PHYSICAL = True"
| "origin_physical UACPI_TABLE_ORIGIN_FIRMWARE_PHYSICAL = True"
| "origin_physical _ = False"

text \<open>The end of the function, behind the switch.\<close>

definition table_ref_count :: "da_slot \<Rightarrow> uacpi_status tkern" where
  "table_ref_count tbl = kbind (tbl_get tbl) (\<lambda>t.
     kseq (kif (it_reference_count t \<noteq> 0xFFFF) (tbl_put tbl (t\<lparr>it_reference_count := it_reference_count t + 1\<rparr>)))
       (kret UACPI_STATUS_OK))"

text \<open>The first reference to a table from a physical address: it is mapped, and its sum is checked unless that was done.\<close>

definition table_ref_map :: "table_host \<Rightarrow> da_slot \<Rightarrow> uacpi_installed_table \<Rightarrow> uacpi_status tkern" where
  "table_ref_map host tbl t = kbind (kernel_map host (it_phys_addr t) (sdt_len (it_hdr t))) (\<lambda>ptr.
     kseq (tbl_mod tbl (it_ptr_update (\<lambda>_. ptr)))
     (if ptr = 0 then kret UACPI_STATUS_MAPPING_FAILED
      else if it_flags t AND UACPI_TABLE_CSUM_VERIFIED = 0 then
        kbind (uacpi_verify_table_checksum host ptr (sdt_len (it_hdr t))) (\<lambda>ret.
          if ret \<noteq> UACPI_STATUS_OK then
            kseq (kernel_unmap ptr (sdt_len (it_hdr t)))
            (kseq (tbl_mod tbl (\<lambda>t. t\<lparr>it_flags := it_flags t OR UACPI_TABLE_INVALID, it_ptr := 0\<rparr>))
             (kret ret))
          else kseq (tbl_mod tbl (\<lambda>t. t\<lparr>it_flags := it_flags t OR UACPI_TABLE_CSUM_VERIFIED\<rparr>)) (table_ref_count tbl))
      else table_ref_count tbl))"

definition table_ref_unlocked :: "table_host \<Rightarrow> da_slot \<Rightarrow> uacpi_status tkern" where
  "table_ref_unlocked host tbl = kbind (tbl_get tbl) (\<lambda>t.
     if it_reference_count t = 0 then
       if it_flags t AND UACPI_TABLE_INVALID \<noteq> 0 then kret UACPI_STATUS_INVALID_ARGUMENT
       else if \<not> origin_physical (it_origin t) then table_ref_count tbl
       else table_ref_map host tbl t
     else table_ref_count tbl)"

definition table_unref_unlocked :: "da_slot \<Rightarrow> uacpi_status tkern" where
  "table_unref_unlocked tbl = kbind (tbl_get tbl) (\<lambda>t.
     let decrement = kseq (tbl_mod tbl (\<lambda>t. t\<lparr>it_reference_count := it_reference_count t - 1\<rparr>)) (kret UACPI_STATUS_OK) in
     if it_reference_count t = 0 then kret UACPI_STATUS_INVALID_ARGUMENT
     else if it_reference_count t = 1 then
       if \<not> origin_physical (it_origin t) then decrement
       else kseq (kernel_unmap (it_ptr t) (sdt_len (it_hdr t))) (kseq (tbl_mod tbl (it_ptr_update (\<lambda>_. 0))) decrement)
     else if it_reference_count t = 0xFFFF then kret UACPI_STATUS_OK
     else decrement)"

section \<open>Installation\<close>

text \<open>
  An installation returns its status and what it stored through \<open>out_table\<close>, which \<open>want\<close> says is not null;
  nothing is stored where the second component is \<open>None\<close>.
\<close>

type_synonym install_result = "uacpi_status \<times> uacpi_table option"

text \<open>The installations from a physical and a virtual address, as parameters of what calls them.\<close>

type_synonym install_physical = "u64 \<Rightarrow> uacpi_table_origin \<Rightarrow> u8 list option \<Rightarrow> bool \<Rightarrow> install_result tkern"
type_synonym install_virtual = "u64 \<Rightarrow> uacpi_table_origin \<Rightarrow> bool \<Rightarrow> install_result tkern"

definition initialize_fadt :: "install_physical \<Rightarrow> table_host \<Rightarrow> u64 \<Rightarrow> uacpi_status tkern" where
  "initialize_fadt inst host virt =
     (let table = bytes_at (th_mem host) virt (unat (sdt_length (bytes_at (th_mem host) virt (unat sdt_hdr_size)))) in
      kseq (kmod (\<lambda>s. s\<lparr>ts_fadt := fadt_prepare (ts_fadt s) table\<rparr>))
     (kseq (kmod (\<lambda>s. s\<lparr>is_hardware_reduced := fadt32 (ts_fadt s) FADT_FLAGS AND ACPI_HW_REDUCED_ACPI \<noteq> 0\<rparr>))
     (kbind (kget (\<lambda>s. fadt64 (ts_fadt s) FADT_X_DSDT)) (\<lambda>x_dsdt.
      kbind (if x_dsdt \<noteq> 0 then kbind (inst x_dsdt UACPI_TABLE_ORIGIN_FIRMWARE_PHYSICAL (Some ACPI_DSDT_SIGNATURE) False) (\<lambda>(ret, _). kret ret)
             else kret UACPI_STATUS_OK) (\<lambda>ret.
      if ret \<noteq> UACPI_STATUS_OK \<and> ret \<noteq> UACPI_STATUS_OVERRIDDEN then kret ret
      else kseq (kmod (\<lambda>s. let (f, e) = fadt_finish (is_hardware_reduced s) (ts_fadt s) (ts_blocks s)
                           in s\<lparr>ts_fadt := f, ts_blocks := e\<rparr>))
        (kret UACPI_STATUS_OK))))))"

text \<open>The check of the sum before the table is stored: a status and the flags.\<close>

definition verify_table :: "install_physical \<Rightarrow> table_host \<Rightarrow> sdt_hdr \<Rightarrow> u64 \<Rightarrow> u64 \<Rightarrow> bool \<Rightarrow> (uacpi_status \<times> u8) tkern" where
  "verify_table inst host hdr phys_addr virt_addr want =
     (let is_fadt = uacpi_signatures_match (sdt_signature hdr) ACPI_FADT_SIGNATURE in
      if uacpi_signatures_match (sdt_signature hdr) ACPI_FACS_SIGNATURE then kret (UACPI_STATUS_OK, UACPI_TABLE_CSUM_VERIFIED)
      else kbind (check_flag UACPI_FLAG_PROACTIVE_TBL_CSUM) (\<lambda>proactive.
        if proactive \<or> is_fadt \<or> want then
          kbind (if virt_addr = 0 then kernel_map host phys_addr (sdt_len hdr) else kret virt_addr) (\<lambda>mapping.
          if mapping = 0 then kret (UACPI_STATUS_MAPPING_FAILED, 0)
          else kbind (uacpi_verify_table_checksum host mapping (sdt_len hdr)) (\<lambda>ret.
            kbind (if ret = UACPI_STATUS_OK then
                     kbind (if is_fadt then initialize_fadt inst host mapping else kret ret) (\<lambda>ret. kret (ret, UACPI_TABLE_CSUM_VERIFIED))
                   else kret (ret, 0)) (\<lambda>(ret, fl).
            kseq (kif (virt_addr = 0) (kernel_unmap mapping (sdt_len hdr)))
              (kret (ret, fl)))))
        else kret (UACPI_STATUS_OK, 0)))"

definition verify_and_install_table ::
    "install_physical \<Rightarrow> table_host \<Rightarrow> sdt_hdr \<Rightarrow> u64 \<Rightarrow> u64 \<Rightarrow> uacpi_table_origin \<Rightarrow> bool \<Rightarrow> install_result tkern" where
  "verify_and_install_table inst host hdr phys_addr virt_addr origin want =
     kbind (verify_table inst host hdr phys_addr virt_addr want) (\<lambda>(ret, fl).
     if ret \<noteq> UACPI_STATUS_OK then kret (ret, None)
     else kseq (kif (uacpi_signatures_match (sdt_signature hdr) ACPI_DSDT_SIGNATURE)
            (kmod (is_rev1_update (\<lambda>_. sdt_revision hdr < 2))))
      (kbind (table_alloc host) (\<lambda>(ret, table, idx).
       if ret \<noteq> UACPI_STATUS_OK then kret (ret, None)
       else kseq (tbl_put table \<lparr>it_phys_addr = phys_addr, it_hdr = hdr, it_ptr = virt_addr, it_reference_count = 0,
                    it_flags = fl, it_origin = origin\<rparr>)
        (if \<not> want then kret (UACPI_STATUS_OK, None)
         else kseq (tbl_mod table (\<lambda>t. t\<lparr>it_reference_count := it_reference_count t + 1\<rparr>))
           (kret (UACPI_STATUS_OK, Some \<lparr>tb_ptr = virt_addr, tb_index = idx\<rparr>))))))"

definition DISPOSITON_ALLOW :: nat where "DISPOSITON_ALLOW = 0"
definition DISPOSITON_DENY :: nat where "DISPOSITON_DENY = 1"
definition DISPOSITON_VIRTUAL_OVERRIDE :: nat where "DISPOSITON_VIRTUAL_OVERRIDE = 2"
definition DISPOSITON_PHYSICAL_OVERRIDE :: nat where "DISPOSITON_PHYSICAL_OVERRIDE = 3"

definition handle_table_override :: "install_physical \<Rightarrow> install_virtual \<Rightarrow> nat \<Rightarrow> u64 \<Rightarrow> bool \<Rightarrow> install_result tkern" where
  "handle_table_override inst inst_virt disposition addr want =
     (if disposition = DISPOSITON_VIRTUAL_OVERRIDE then inst_virt addr UACPI_TABLE_ORIGIN_HOST_VIRTUAL want
      else if disposition = DISPOSITON_PHYSICAL_OVERRIDE then inst addr UACPI_TABLE_ORIGIN_HOST_PHYSICAL None want
      else kret (UACPI_STATUS_INTERNAL_ERROR, None))"

text \<open>
  What the two installations do when a handler is consulted: \<open>None\<close> goes on with the installation, and otherwise the status
  is given.
\<close>

definition consult_handler :: "install_physical \<Rightarrow> install_virtual \<Rightarrow> u64 \<Rightarrow> bool \<Rightarrow> install_result option tkern" where
  "consult_handler inst inst_virt virt want = kbind (kget installation_handler) (\<lambda>h. case h of
     None \<Rightarrow> kret None
   | Some handler \<Rightarrow> kbind (host_call (\<lambda>n. handler n virt)) (\<lambda>(disposition, override).
       if disposition = DISPOSITON_ALLOW then kret None
       else if disposition = DISPOSITON_DENY then kret (Some (UACPI_STATUS_DENIED, None))
       else kbind (handle_table_override inst inst_virt disposition override want) (\<lambda>(ret, tb).
         kret (Some (if ret = UACPI_STATUS_OK then UACPI_STATUS_OVERRIDDEN else ret, tb)))))"

definition install_physical_body :: "install_physical \<Rightarrow> install_virtual \<Rightarrow> table_host \<Rightarrow> install_physical" where
  "install_physical_body inst inst_virt host phys origin expected_signature want =
     kbind (get_external_table_header host phys) (\<lambda>(ret, hdr).
     if ret \<noteq> UACPI_STATUS_OK then kret (ret, None)
     else if sdt_len hdr < sdt_hdr_size then kret (UACPI_STATUS_INVALID_TABLE_LENGTH, None)
     else kbind (case expected_signature of None \<Rightarrow> kret UACPI_STATUS_OK | Some e \<Rightarrow> uacpi_check_table_signature hdr e) (\<lambda>ret.
     if ret \<noteq> UACPI_STATUS_OK then kret (ret, None)
     else kbind (kget (\<lambda>s. installation_handler s \<noteq> None \<or> want)) (\<lambda>need.
     kbind (if need then kernel_map host phys (sdt_len hdr) else kret 0) (\<lambda>virt.
     if need \<and> virt = 0 then kret (UACPI_STATUS_MAPPING_FAILED, None)
     else kbind (if origin = UACPI_TABLE_ORIGIN_FIRMWARE_PHYSICAL then consult_handler inst inst_virt virt want else kret None) (\<lambda>c.
     kbind (case c of Some r \<Rightarrow> kret r | None \<Rightarrow> verify_and_install_table inst host hdr phys virt origin want) (\<lambda>(ret, tb).
     if ret = UACPI_STATUS_OK \<and> want then kret (ret, tb)
     else kseq (kif (virt \<noteq> 0) (kernel_unmap virt (sdt_len hdr)))
       (kret (UACPI_STATUS_OK, tb))))))))"

definition install_virtual_body :: "install_physical \<Rightarrow> install_virtual \<Rightarrow> table_host \<Rightarrow> install_virtual" where
  "install_virtual_body inst inst_virt host virt origin want =
     (let hdr = bytes_at (th_mem host) virt (unat sdt_hdr_size) in
      if sdt_len hdr < sdt_hdr_size then kret (UACPI_STATUS_INVALID_TABLE_LENGTH, None)
      else kbind (if origin = UACPI_TABLE_ORIGIN_FIRMWARE_VIRTUAL then consult_handler inst inst_virt virt want else kret None) (\<lambda>c.
        case c of Some r \<Rightarrow> kret r | None \<Rightarrow> verify_and_install_table inst host hdr 0 virt origin want))"

text \<open>
  The two functions call each other, and themselves through \<open>initialize_fadt\<close>. The first argument bounds the depth of
  the calls; a recursion that goes deeper has the outcome of one that does not end.
\<close>

fun table_install_physical_with_origin_unlocked :: "nat \<Rightarrow> table_host \<Rightarrow> install_physical"
  and table_install_with_origin_unlocked :: "nat \<Rightarrow> table_host \<Rightarrow> install_virtual" where
  "table_install_physical_with_origin_unlocked 0 host phys origin expected_signature want = (\<lambda>_. Diverge)"
| "table_install_physical_with_origin_unlocked (Suc depth) host phys origin expected_signature want =
     install_physical_body (table_install_physical_with_origin_unlocked depth host) (table_install_with_origin_unlocked depth host)
       host phys origin expected_signature want"
| "table_install_with_origin_unlocked 0 host virt origin want = (\<lambda>_. Diverge)"
| "table_install_with_origin_unlocked (Suc depth) host virt origin want =
     install_virtual_body (table_install_physical_with_origin_unlocked depth host) (table_install_with_origin_unlocked depth host)
       host virt origin want"

definition uacpi_table_install_physical_with_origin :: "nat \<Rightarrow> table_host \<Rightarrow> u64 \<Rightarrow> uacpi_table_origin \<Rightarrow> bool \<Rightarrow> install_result tkern" where
  "uacpi_table_install_physical_with_origin depth host phys origin want = kbind (acquire_table_mutex host) (\<lambda>ret.
     if ret \<noteq> UACPI_STATUS_OK then kret (ret, None)
     else kbind (table_install_physical_with_origin_unlocked depth host phys origin None want) (\<lambda>r.
       kseq release_table_mutex (kret r)))"

definition uacpi_table_install_with_origin :: "nat \<Rightarrow> table_host \<Rightarrow> u64 \<Rightarrow> uacpi_table_origin \<Rightarrow> bool \<Rightarrow> install_result tkern" where
  "uacpi_table_install_with_origin depth host virt origin want = kbind (acquire_table_mutex host) (\<lambda>ret.
     if ret \<noteq> UACPI_STATUS_OK then kret (ret, None)
     else kbind (table_install_with_origin_unlocked depth host virt origin want) (\<lambda>r.
       kseq release_table_mutex (kret r)))"

definition uacpi_table_install :: "nat \<Rightarrow> table_host \<Rightarrow> u64 \<Rightarrow> bool \<Rightarrow> install_result tkern" where
  "uacpi_table_install depth host virt want = ensure_subsystem (UACPI_STATUS_INIT_LEVEL_MISMATCH, None)
     (uacpi_table_install_with_origin depth host virt UACPI_TABLE_ORIGIN_HOST_VIRTUAL want)"

definition uacpi_table_install_physical :: "nat \<Rightarrow> table_host \<Rightarrow> u64 \<Rightarrow> bool \<Rightarrow> install_result tkern" where
  "uacpi_table_install_physical depth host addr want = ensure_subsystem (UACPI_STATUS_INIT_LEVEL_MISMATCH, None)
     (uacpi_table_install_physical_with_origin depth host addr UACPI_TABLE_ORIGIN_HOST_PHYSICAL want)"

definition uacpi_set_table_installation_handler :: "table_host \<Rightarrow> table_installation_handler option \<Rightarrow> uacpi_status tkern" where
  "uacpi_set_table_installation_handler host handler = kbind (acquire_table_mutex host) (\<lambda>ret.
     if ret \<noteq> UACPI_STATUS_OK then kret ret
     else kbind (kget installation_handler) (\<lambda>old.
       kseq (kif (\<not> (old \<noteq> None \<and> handler \<noteq> None)) (kmod (installation_handler_update (\<lambda>_. handler))))
      (kseq release_table_mutex (kret ret))))"

section \<open>Searches\<close>

text \<open>
  The pointer to element \<open>idx\<close>, which the callers check to be in range. A callback gets its own data, the pointer and the
  index, and says whether the iteration stops.
\<close>

definition table_array_at :: "nat \<Rightarrow> da_slot tkern" where
  "table_array_at idx = (\<lambda>s. case da_at (tables s) idx of None \<Rightarrow> Fault | Some p \<Rightarrow> Ret p s)"

type_synonym 'u table_iteration_callback = "'u \<Rightarrow> da_slot \<Rightarrow> nat \<Rightarrow> ('u \<times> bool) tkern"

definition for_each_round :: "'u table_iteration_callback \<Rightarrow> nat \<times> 'u \<Rightarrow> (nat \<times> 'u + 'u) tkern" where
  "for_each_round cb = (\<lambda>(idx, user). kbind (kget (\<lambda>s. da_size (tables s))) (\<lambda>n.
     if \<not> idx < n then kret (Inr user)
     else kbind (table_array_at idx) (\<lambda>tbl. kbind (tbl_get tbl) (\<lambda>t.
       if it_flags t AND UACPI_TABLE_INVALID \<noteq> 0 then kret (Inl (idx + 1, user))
       else kbind (cb user tbl idx) (\<lambda>(user, stop). kret (if stop then Inr user else Inl (idx + 1, user)))))))"

definition uacpi_for_each_table :: "table_host \<Rightarrow> nat \<Rightarrow> 'u table_iteration_callback \<Rightarrow> 'u \<Rightarrow> (uacpi_status \<times> 'u) tkern" where
  "uacpi_for_each_table host base_idx cb user = ensure_subsystem (UACPI_STATUS_INIT_LEVEL_MISMATCH, user)
     (kbind (acquire_table_mutex host) (\<lambda>ret.
      if ret \<noteq> UACPI_STATUS_OK then kret (ret, user)
      else kbind (kloop (for_each_round cb) (base_idx, user)) (\<lambda>user. kseq release_table_mutex (kret (ret, user)))))"

record uacpi_table_identifiers =
  id_signature :: "u8 list"
  id_oemid :: "u8 list"
  id_oem_table_id :: "u8 list"

datatype search = SEARCH_TYPE_BY_ID uacpi_table_identifiers | SEARCH_TYPE_MATCH "uacpi_installed_table \<Rightarrow> bool"

record table_search_ctx =
  sc_search :: search
  sc_out_table :: "uacpi_table option"
  sc_status :: uacpi_status

fun search_matches :: "search \<Rightarrow> uacpi_installed_table \<Rightarrow> bool" where
  "search_matches (SEARCH_TYPE_BY_ID i) t \<longleftrightarrow>
     uacpi_signatures_match (id_signature i) (sdt_signature (it_hdr t))
     \<and> \<not> (id_oemid i ! 0 \<noteq> 0 \<and> id_oemid i \<noteq> sdt_oemid (it_hdr t))
     \<and> \<not> (id_oem_table_id i ! 0 \<noteq> 0 \<and> id_oem_table_id i \<noteq> sdt_oem_table_id (it_hdr t))"
| "search_matches (SEARCH_TYPE_MATCH match_cb) t \<longleftrightarrow> match_cb t"

definition do_search_tables :: "table_host \<Rightarrow> table_search_ctx table_iteration_callback" where
  "do_search_tables host ctx tbl idx = kbind (tbl_get tbl) (\<lambda>t.
     if \<not> search_matches (sc_search ctx) t then kret (ctx, False)
     else kbind (table_ref_unlocked host tbl) (\<lambda>ret.
       if ret = UACPI_STATUS_OK then kbind (tbl_get tbl) (\<lambda>t.
         kret (ctx\<lparr>sc_out_table := Some \<lparr>tb_ptr = it_ptr t, tb_index = idx\<rparr>, sc_status := ret\<rparr>, True))
       else if ret = UACPI_STATUS_BAD_CHECKSUM then kret (ctx, False)
       else kret (ctx\<lparr>sc_status := ret\<rparr>, True)))"

definition search_tables :: "table_host \<Rightarrow> nat \<Rightarrow> search \<Rightarrow> install_result tkern" where
  "search_tables host base_idx sr =
     kbind (uacpi_for_each_table host base_idx (do_search_tables host)
              \<lparr>sc_search = sr, sc_out_table = None, sc_status = UACPI_STATUS_NOT_FOUND\<rparr>) (\<lambda>(ret, ctx).
       if ret \<noteq> UACPI_STATUS_OK then kret (ret, sc_out_table ctx) else kret (sc_status ctx, sc_out_table ctx))"

definition uacpi_table_match :: "table_host \<Rightarrow> nat \<Rightarrow> (uacpi_installed_table \<Rightarrow> bool) \<Rightarrow> install_result tkern" where
  "uacpi_table_match host base_idx cb = search_tables host base_idx (SEARCH_TYPE_MATCH cb)"

definition find_table :: "table_host \<Rightarrow> nat \<Rightarrow> uacpi_table_identifiers \<Rightarrow> install_result tkern" where
  "find_table host base_idx i = search_tables host base_idx (SEARCH_TYPE_BY_ID i)"

definition by_signature :: "u8 list \<Rightarrow> uacpi_table_identifiers" where
  "by_signature sg = \<lparr>id_signature = take 4 sg, id_oemid = replicate 6 0, id_oem_table_id = replicate 8 0\<rparr>"

definition uacpi_table_find_by_signature :: "table_host \<Rightarrow> u8 list \<Rightarrow> install_result tkern" where
  "uacpi_table_find_by_signature host signature_string = ensure_subsystem (UACPI_STATUS_INIT_LEVEL_MISMATCH, None)
     (find_table host 0 (by_signature signature_string))"

definition uacpi_table_find :: "table_host \<Rightarrow> uacpi_table_identifiers \<Rightarrow> install_result tkern" where
  "uacpi_table_find host i = ensure_subsystem (UACPI_STATUS_INIT_LEVEL_MISMATCH, None) (find_table host 0 i)"

section \<open>Flags and loading\<close>

definition TABLE_CTL_SET_FLAGS :: u8 where "TABLE_CTL_SET_FLAGS = 1"
definition TABLE_CTL_CLEAR_FLAGS :: u8 where "TABLE_CTL_CLEAR_FLAGS = 2"
definition TABLE_CTL_VALIDATE_SET_FLAGS :: u8 where "TABLE_CTL_VALIDATE_SET_FLAGS = 4"
definition TABLE_CTL_VALIDATE_CLEAR_FLAGS :: u8 where "TABLE_CTL_VALIDATE_CLEAR_FLAGS = 8"
definition TABLE_CTL_GET :: u8 where "TABLE_CTL_GET = 16"
definition TABLE_CTL_PUT :: u8 where "TABLE_CTL_PUT = 32"

record table_ctl_request =
  rq_type :: u8
  rq_expect_set :: u8
  rq_expect_clear :: u8
  rq_set :: u8
  rq_clear :: u8
  rq_out_tbl :: u64

definition no_request :: table_ctl_request where
  "no_request = \<lparr>rq_type = 0, rq_expect_set = 0, rq_expect_clear = 0, rq_set = 0, rq_clear = 0, rq_out_tbl = 0\<rparr>"

text \<open>The part between the check for an invalid table and the label \<open>out\<close>, with the status and the pointer stored in the request.\<close>

definition table_ctl_apply :: "table_host \<Rightarrow> da_slot \<Rightarrow> table_ctl_request \<Rightarrow> (uacpi_status \<times> u64) tkern" where
  "table_ctl_apply host tbl req = kbind (tbl_get tbl) (\<lambda>t.
     if rq_type req AND TABLE_CTL_VALIDATE_SET_FLAGS \<noteq> 0 \<and> it_flags t AND rq_expect_set req \<noteq> rq_expect_set req
     then kret (UACPI_STATUS_INVALID_ARGUMENT, rq_out_tbl req)
     else if rq_type req AND TABLE_CTL_VALIDATE_CLEAR_FLAGS \<noteq> 0 \<and> it_flags t AND rq_expect_clear req \<noteq> 0
     then kret (UACPI_STATUS_ALREADY_EXISTS, rq_out_tbl req)
     else kbind (if rq_type req AND TABLE_CTL_GET \<noteq> 0 then
                   kbind (table_ref_unlocked host tbl) (\<lambda>ret.
                     if ret \<noteq> UACPI_STATUS_OK then kret (ret, rq_out_tbl req)
                     else kbind (tbl_get tbl) (\<lambda>t. kret (ret, it_ptr t)))
                 else kret (UACPI_STATUS_OK, rq_out_tbl req)) (\<lambda>(ret, out_tbl).
       if ret \<noteq> UACPI_STATUS_OK then kret (ret, out_tbl)
       else kbind (if rq_type req AND TABLE_CTL_PUT \<noteq> 0 then table_unref_unlocked tbl else kret UACPI_STATUS_OK) (\<lambda>ret.
         if ret \<noteq> UACPI_STATUS_OK then kret (ret, out_tbl)
         else kseq (kif (rq_type req AND TABLE_CTL_SET_FLAGS \<noteq> 0) (tbl_mod tbl (\<lambda>t. t\<lparr>it_flags := it_flags t OR rq_set req\<rparr>)))
          (kseq (kif (rq_type req AND TABLE_CTL_CLEAR_FLAGS \<noteq> 0) (tbl_mod tbl (\<lambda>t. t\<lparr>it_flags := it_flags t AND NOT (rq_clear req)\<rparr>)))
           (kret (ret, out_tbl))))))"

definition table_ctl :: "table_host \<Rightarrow> nat \<Rightarrow> table_ctl_request \<Rightarrow> (uacpi_status \<times> u64) tkern" where
  "table_ctl host idx req = ensure_subsystem (UACPI_STATUS_INIT_LEVEL_MISMATCH, rq_out_tbl req)
     (kbind (acquire_table_mutex host) (\<lambda>ret.
      if ret \<noteq> UACPI_STATUS_OK then kret (ret, rq_out_tbl req)
      else kbind (kget (\<lambda>s. da_size (tables s))) (\<lambda>n.
        if n \<le> idx then kseq release_table_mutex (kret (UACPI_STATUS_INVALID_ARGUMENT, rq_out_tbl req))
        else kbind (table_array_at idx) (\<lambda>tbl. kbind (tbl_get tbl) (\<lambda>t.
          if it_flags t AND UACPI_TABLE_INVALID \<noteq> 0 then kret (UACPI_STATUS_INVALID_ARGUMENT, rq_out_tbl req)
          else kbind (table_ctl_apply host tbl req) (\<lambda>r. kseq release_table_mutex (kret r)))))))"

definition UACPI_TABLE_LOAD_CAUSE_HOST :: nat where "UACPI_TABLE_LOAD_CAUSE_HOST = 3"

text \<open>The interpreter is the parameter \<open>execute\<close>.\<close>

definition uacpi_table_load_with_cause :: "table_host \<Rightarrow> (u64 \<Rightarrow> nat \<Rightarrow> uacpi_status tkern) \<Rightarrow> nat \<Rightarrow> nat \<Rightarrow> uacpi_status tkern" where
  "uacpi_table_load_with_cause host execute idx cause =
     (let req = no_request\<lparr>rq_type := TABLE_CTL_SET_FLAGS OR TABLE_CTL_VALIDATE_CLEAR_FLAGS OR TABLE_CTL_GET,
                rq_set := UACPI_TABLE_LOADED, rq_expect_clear := UACPI_TABLE_LOADED\<rparr> in
      kbind (table_ctl host idx req) (\<lambda>(ret, out_tbl).
      if ret \<noteq> UACPI_STATUS_OK then kret ret
      else kbind (execute out_tbl cause) (\<lambda>ret.
        kseq (table_ctl host idx (req\<lparr>rq_type := TABLE_CTL_PUT, rq_out_tbl := out_tbl\<rparr>)) (kret ret))))"

definition uacpi_table_load :: "table_host \<Rightarrow> (u64 \<Rightarrow> nat \<Rightarrow> uacpi_status tkern) \<Rightarrow> nat \<Rightarrow> uacpi_status tkern" where
  "uacpi_table_load host execute idx = uacpi_table_load_with_cause host execute idx UACPI_TABLE_LOAD_CAUSE_HOST"

definition uacpi_table_mark_as_loaded :: "table_host \<Rightarrow> nat \<Rightarrow> unit tkern" where
  "uacpi_table_mark_as_loaded host idx =
     kseq (table_ctl host idx (no_request\<lparr>rq_type := TABLE_CTL_SET_FLAGS, rq_set := UACPI_TABLE_LOADED\<rparr>)) (kret ())"

definition uacpi_table_ref :: "table_host \<Rightarrow> uacpi_table \<Rightarrow> uacpi_status tkern" where
  "uacpi_table_ref host tbl = kbind (table_ctl host (tb_index tbl) (no_request\<lparr>rq_type := TABLE_CTL_GET\<rparr>)) (\<lambda>(ret, _). kret ret)"

definition uacpi_table_unref :: "table_host \<Rightarrow> uacpi_table \<Rightarrow> uacpi_status tkern" where
  "uacpi_table_unref host tbl = kbind (table_ctl host (tb_index tbl) (no_request\<lparr>rq_type := TABLE_CTL_PUT\<rparr>)) (\<lambda>(ret, _). kret ret)"

definition uacpi_table_find_next_with_same_signature :: "table_host \<Rightarrow> uacpi_table \<Rightarrow> install_result tkern" where
  "uacpi_table_find_next_with_same_signature host in_out_table = ensure_subsystem (UACPI_STATUS_INIT_LEVEL_MISMATCH, None)
     (if tb_ptr in_out_table = 0 then kret (UACPI_STATUS_INVALID_ARGUMENT, None)
      else kseq (uacpi_table_unref host in_out_table)
        (find_table host (tb_index in_out_table + 1) (by_signature (bytes_at (th_mem host) (tb_ptr in_out_table) 4))))"

definition uacpi_table_fadt :: "uacpi_status tkern" where
  "uacpi_table_fadt = ensure_subsystem UACPI_STATUS_INIT_LEVEL_MISMATCH (kret UACPI_STATUS_OK)"

section \<open>Start-up\<close>

text \<open>The loop over the addresses of the root table.\<close>

fun install_entries :: "(u64 \<Rightarrow> uacpi_status tkern) \<Rightarrow> u64 list \<Rightarrow> uacpi_status tkern" where
  "install_entries inst [] = kret UACPI_STATUS_OK"
| "install_entries inst (e # es) =
     (if e = 0 then install_entries inst es
      else kbind (inst e) (\<lambda>ret.
        if ret \<noteq> UACPI_STATUS_OK \<and> ret \<noteq> UACPI_STATUS_OVERRIDDEN then kret ret else install_entries inst es))"

definition rxsdt_entries :: "u8 list \<Rightarrow> nat \<Rightarrow> nat \<Rightarrow> u64 list" where
  "rxsdt_entries ptr_bytes entry_bytes entry_size =
     map (\<lambda>k. le_word (take entry_size (drop (k * entry_size) ptr_bytes))) [0..<entry_bytes div entry_size]"

text \<open>The second mapping of the root table, of its full length, and the installation of what it lists.\<close>

definition install_from_rxsdt :: "nat \<Rightarrow> table_host \<Rightarrow> u64 \<Rightarrow> u64 \<Rightarrow> u64 \<Rightarrow> uacpi_status tkern" where
  "install_from_rxsdt depth host rxsdt_addr map_len entry_size =
     (let entry_bytes = (map_len - sdt_hdr_size) AND NOT (entry_size - 1) in
      kbind (kernel_map host rxsdt_addr map_len) (\<lambda>rxsdt.
      if rxsdt = 0 then kret UACPI_STATUS_MAPPING_FAILED
      else kbind (uacpi_verify_table_checksum host rxsdt map_len) (\<lambda>ret.
        kbind (if ret \<noteq> UACPI_STATUS_OK then kret ret
               else install_entries (\<lambda>e. kbind (uacpi_table_install_physical_with_origin depth host e
                        UACPI_TABLE_ORIGIN_FIRMWARE_PHYSICAL False) (\<lambda>(ret, _). kret ret))
                      (rxsdt_entries (bytes_at (th_mem host) (rxsdt + sdt_hdr_size) (unat entry_bytes)) (unat entry_bytes) (unat entry_size)))
          (\<lambda>ret. kseq (kernel_unmap rxsdt map_len) (kret ret)))))"

definition initialize_from_rxsdt :: "nat \<Rightarrow> table_host \<Rightarrow> u64 \<Rightarrow> u64 \<Rightarrow> uacpi_status tkern" where
  "initialize_from_rxsdt depth host rxsdt_addr entry_size =
     kbind (kernel_map host rxsdt_addr sdt_hdr_size) (\<lambda>rxsdt.
     if rxsdt = 0 then kret UACPI_STATUS_MAPPING_FAILED
     else let hdr = bytes_at (th_mem host) rxsdt (unat sdt_hdr_size) in
       kbind (uacpi_check_table_signature hdr (if entry_size = 8 then ACPI_XSDT_SIGNATURE else ACPI_RSDT_SIGNATURE)) (\<lambda>ret.
       kseq (kernel_unmap rxsdt sdt_hdr_size)
       (if ret \<noteq> UACPI_STATUS_OK then kret ret
        else if sdt_len hdr < sdt_hdr_size + entry_size then kret UACPI_STATUS_INVALID_TABLE_LENGTH
        else install_from_rxsdt depth host rxsdt_addr (sdt_len hdr) entry_size)))"

definition rsdp_size :: u64 where "rsdp_size = 36"

definition initialize_from_rsdp :: "nat \<Rightarrow> table_host \<Rightarrow> uacpi_status tkern" where
  "initialize_from_rsdp depth host =
     kseq (kmod (is_rev1_update (\<lambda>_. True)))
     (case th_get_rsdp host of (ret, rsdp_phys) \<Rightarrow>
      if ret \<noteq> UACPI_STATUS_OK then kret ret
      else kbind (kernel_map host rsdp_phys rsdp_size) (\<lambda>rsdp.
        if rsdp = 0 then kret UACPI_STATUS_MAPPING_FAILED
        else let revision = th_mem host (rsdp + 15); rsdt_addr = le_word (bytes_at (th_mem host) (rsdp + 16) 4) :: u32;
                 xsdt_addr = le_word (bytes_at (th_mem host) (rsdp + 24) 8) :: u64 in
          kbind (check_flag UACPI_FLAG_BAD_XSDT) (\<lambda>bad_xsdt.
          let (rxsdt, entry_size) = (if revision > 1 \<and> xsdt_addr \<noteq> 0 \<and> \<not> bad_xsdt then (xsdt_addr, 8) else (ucast rsdt_addr, 4)) in
          kseq (kernel_unmap rsdp rsdp_size)
            (if rxsdt = 0 then kret UACPI_STATUS_INVALID_ARGUMENT
             else initialize_from_rxsdt depth host rxsdt entry_size))))"

definition sizeof_installed_table :: nat where "sizeof_installed_table = 64"

definition deinitialize_one :: "nat \<Rightarrow> unit tkern" where
  "deinitialize_one i = kbind (table_array_at i) (\<lambda>tbl. kbind (tbl_get tbl) (\<lambda>t.
     case it_origin t of
       UACPI_TABLE_ORIGIN_FIRMWARE_VIRTUAL \<Rightarrow> kmod (freed_update (\<lambda>fs. it_ptr t # fs))
     | UACPI_TABLE_ORIGIN_FIRMWARE_PHYSICAL \<Rightarrow> kif (it_reference_count t \<noteq> 0) (kernel_unmap (it_ptr t) (sdt_len (it_hdr t)))
     | UACPI_TABLE_ORIGIN_HOST_PHYSICAL \<Rightarrow> kif (it_reference_count t \<noteq> 0) (kernel_unmap (it_ptr t) (sdt_len (it_hdr t)))
     | UACPI_TABLE_ORIGIN_HOST_VIRTUAL \<Rightarrow> kret ()))"

text \<open>The element that \<open>uacpi_memzero\<close> leaves.\<close>

definition zero_table :: uacpi_installed_table where
  "zero_table = \<lparr>it_phys_addr = 0, it_hdr = replicate 36 0, it_ptr = 0, it_reference_count = 0, it_flags = 0,
     it_origin = UACPI_TABLE_ORIGIN_FIRMWARE_VIRTUAL\<rparr>"

definition zero_tables :: "uacpi_installed_table dyn_array" where
  "zero_tables = \<lparr>inline_storage = replicate UACPI_STATIC_TABLE_ARRAY_LEN zero_table, dynamic_storage = None,
     dynamic_capacity = 0, size_including_inline = 0\<rparr>"

definition uacpi_deinitialize_tables :: "unit tkern" where
  "uacpi_deinitialize_tables = kbind (kget (\<lambda>s. da_size (tables s))) (\<lambda>n.
     kseq (kfor [0..<n] deinitialize_one)
    (kseq (kmod (\<lambda>s. if early_table_access s then s\<lparr>tables := zero_tables, early_table_access := False\<rparr>
             else s\<lparr>tables := da_clear (tables s)\<rparr>))
     (kmod (\<lambda>s. s\<lparr>installation_handler := None, table_mutex := 0, table_mutex_held := False\<rparr>))))"

text \<open>The contents of the buffer are what the elements have that lie in it.\<close>

definition uacpi_setup_early_table_access ::
    "nat \<Rightarrow> table_host \<Rightarrow> uacpi_installed_table list \<Rightarrow> nat \<Rightarrow> uacpi_status tkern" where
  "uacpi_setup_early_table_access depth host temporary_buffer buffer_size =
     kbind (kget (\<lambda>s. ts_init_level s \<noteq> UACPI_INIT_LEVEL_EARLY \<or> early_table_access s)) (\<lambda>bad.
     if bad then kret UACPI_STATUS_INIT_LEVEL_MISMATCH
     else if buffer_size < sizeof_installed_table then kret UACPI_STATUS_INVALID_ARGUMENT
     else kseq (kmod (\<lambda>s. s\<lparr>tables := (tables s)\<lparr>dynamic_storage := Some temporary_buffer,
              dynamic_capacity := buffer_size div sizeof_installed_table\<rparr>, early_table_access := True\<rparr>))
      (kbind (initialize_from_rsdp depth host) (\<lambda>ret.
        kseq (kif (ret \<noteq> UACPI_STATUS_OK) uacpi_deinitialize_tables) (kret ret))))"

text \<open>
  The array leaves the temporary buffer: a new heap part of exactly the elements that are in it, or none. The first step of
  \<open>uacpi_initialize_tables\<close> after early access.
\<close>

definition leave_temporary_buffer :: "table_host \<Rightarrow> uacpi_status tkern" where
  "leave_temporary_buffer host = kbind (kget tables) (\<lambda>arr.
     if da_size arr > da_inline_capacity arr then
       let num_tables = da_size arr - da_inline_capacity arr in
       kbind (host_call (\<lambda>n. th_alloc host n num_tables)) (\<lambda>new_buf. case new_buf of
         None \<Rightarrow> kret UACPI_STATUS_OUT_OF_MEMORY
       | Some buf \<Rightarrow>
           kseq (kmod (tables_update (\<lambda>arr. arr\<lparr>dynamic_storage := map_option (take num_tables) (dynamic_storage arr),
              dynamic_capacity := num_tables\<rparr>)))
          (kseq (kmod (early_table_access_update (\<lambda>_. False))) (kret UACPI_STATUS_OK)))
     else kseq (kmod (tables_update (\<lambda>arr. arr\<lparr>dynamic_storage := None, dynamic_capacity := 0\<rparr>)))
       (kseq (kmod (early_table_access_update (\<lambda>_. False))) (kret UACPI_STATUS_OK)))"

text \<open>The FACS is installed with a lasting reference; \<open>junk\<close> is what the uninitialised variable \<open>tbl\<close> holds.\<close>

definition install_facs :: "nat \<Rightarrow> table_host \<Rightarrow> u64 \<Rightarrow> uacpi_status tkern" where
  "install_facs depth host junk =
     kbind (kget (\<lambda>s. (is_hardware_reduced s, fadt64 (ts_fadt s) FADT_X_FIRMWARE_CTRL))) (\<lambda>(reduced, x_firmware_ctrl).
     if \<not> reduced \<and> x_firmware_ctrl \<noteq> 0 then
       kbind (table_install_physical_with_origin_unlocked depth host x_firmware_ctrl UACPI_TABLE_ORIGIN_FIRMWARE_PHYSICAL
                (Some ACPI_FACS_SIGNATURE) True) (\<lambda>(ret, tbl).
       if ret \<noteq> UACPI_STATUS_OK \<and> ret \<noteq> UACPI_STATUS_OVERRIDDEN then kret ret
       else kseq (kmod (ts_facs_update (\<lambda>_. case tbl of None \<Rightarrow> junk | Some tb \<Rightarrow> tb_ptr tb))) (kret UACPI_STATUS_OK))
     else kret UACPI_STATUS_OK)"

definition uacpi_initialize_tables :: "nat \<Rightarrow> table_host \<Rightarrow> u64 \<Rightarrow> uacpi_status tkern" where
  "uacpi_initialize_tables depth host junk =
     kbind (kget early_table_access) (\<lambda>early.
     kbind (if early then kseq (uacpi_for_each_table host 0 (\<lambda>user _ _. kret (user, False)) ()) (leave_temporary_buffer host)
            else initialize_from_rsdp depth host) (\<lambda>ret.
     if ret \<noteq> UACPI_STATUS_OK then kret ret
     else kbind (install_facs depth host junk) (\<lambda>ret.
     if ret \<noteq> UACPI_STATUS_OK then kret ret
     else kbind (host_call (th_create_mutex host)) (\<lambda>m.
       kseq (kmod (table_mutex_update (\<lambda>_. m)))
         (kret (if m = 0 then UACPI_STATUS_OUT_OF_MEMORY else UACPI_STATUS_OK))))))"

end
