(* ===== verification/KHoare.thy ===== *)
theory KHoare
  imports Prelude
begin

text \<open>
  Rules for proving that kernel code keeps an invariant and never does anything undefined, in the style of weakest
  preconditions: one rule for each way of composing code, and one for loops.
\<close>

section \<open>Postconditions\<close>

text \<open>What holds when the code returns; it may run forever or halt, but not do anything undefined.\<close>

definition kpost :: "('s, 'a) kern \<Rightarrow> ('a \<Rightarrow> 's \<Rightarrow> bool) \<Rightarrow> 's \<Rightarrow> bool" where
  "kpost f Q s \<longleftrightarrow> (case f s of Ret x s' \<Rightarrow> Q x s' | Fault \<Rightarrow> False | _ \<Rightarrow> True)"

lemma kpost_kret [simp]: "kpost (kret x) Q = Q x"
  by (rule ext) (simp add: kpost_def)

lemma kpost_kget [simp]: "kpost (kget f) Q = (\<lambda>s. Q (f s) s)"
  by (rule ext) (simp add: kpost_def)

lemma kpost_kmod [simp]: "kpost (kmod g) Q = (\<lambda>s. Q () (g s))"
  by (rule ext) (simp add: kpost_def kmod_def)

lemma kpost_Diverge [simp]: "kpost (\<lambda>_. Diverge) Q = (\<lambda>_. True)"
  by (rule ext) (simp add: kpost_def)

lemma kpost_kbind: "kpost (kbind f g) Q = kpost f (\<lambda>x. kpost (g x) Q)"
  by (rule ext) (simp add: kpost_def kbind_def split: kres.splits)

lemma kpost_kseq: "kpost (kseq f g) Q = kpost f (\<lambda>_. kpost g Q)"
  by (simp add: kseq_def kpost_kbind)

lemma kpost_kif: "kpost (kif c f) Q = (if c then kpost f Q else Q ())"
  by (simp add: kif_def)

lemma kpost_mono: "kpost f P s \<Longrightarrow> (\<And>x s'. P x s' \<Longrightarrow> Q x s') \<Longrightarrow> kpost f Q s"
  by (auto simp: kpost_def split: kres.splits)

lemma kpost_bind: "kpost f P s \<Longrightarrow> (\<And>x s'. P x s' \<Longrightarrow> kpost (g x) Q s') \<Longrightarrow> kpost (kbind f g) Q s"
  by (auto simp: kpost_kbind intro: kpost_mono)

lemma kpost_seq: "kpost f P s \<Longrightarrow> (\<And>x s'. P x s' \<Longrightarrow> kpost g Q s') \<Longrightarrow> kpost (kseq f g) Q s"
  by (auto simp: kpost_kseq intro: kpost_mono)

lemma kpost_if: "(c \<Longrightarrow> kpost f Q s) \<Longrightarrow> (\<not> c \<Longrightarrow> kpost g Q s) \<Longrightarrow> kpost (if c then f else g) Q s"
  by simp

lemma kpost_Ret: "f s = Ret x s' \<Longrightarrow> kpost f Q s = Q x s'"
  by (simp add: kpost_def)

lemma kpost_split: "(\<And>a b. x = (a, b) \<Longrightarrow> kpost (f a b) Q s) \<Longrightarrow> kpost (case x of (a, b) \<Rightarrow> f a b) Q s"
  by (simp split: prod.splits)

lemma kpost_kloop:
  assumes step: "\<And>x s. I x s \<Longrightarrow> kpost (body x) (\<lambda>r s'. case r of Inl x' \<Rightarrow> I x' s' | Inr a \<Rightarrow> Q a s') s" and init: "I x s"
  shows "kpost (kloop body x) Q s"
proof (cases "while_option kgoes_on (kround body) (Ret (Inl x) s)")
  case None
  then show ?thesis by (simp add: kpost_def kloop_def)
next
  case (Some r)
  let ?P = "\<lambda>r. case r of Ret (Inl x) s \<Rightarrow> I x s | Ret (Inr a) s \<Rightarrow> Q a s | Fault \<Rightarrow> False | _ \<Rightarrow> True"
  have "?P r"
  proof (rule while_option_rule [OF _ Some])
    fix r assume "?P r" "kgoes_on r"
    then obtain x s where r: "r = Ret (Inl x) s" "I x s" by (cases r rule: kgoes_on.cases) auto
    from step [OF r(2)] show "?P (kround body r)" by (auto simp: r(1) kpost_def split: kres.splits sum.splits)
  qed (use init in simp)
  then show ?thesis using Some while_option_stop [OF Some]
    by (cases r rule: kleave.cases) (auto simp: kpost_def kloop_def)
qed

end
