(* ===== verification/UacpiTablesInv.thy ===== *)
theory UacpiTablesInv
  imports UacpiTables KHoare "HOL-Library.Multiset"
begin

text \<open>
  What the table array of \<^verbatim>\<open>src/uacpi/tables.c\<close> promises: every operation keeps the mappings that referenced tables need and
  no others, whatever the host answers.
\<close>

section \<open>Mappings\<close>

text \<open>
  The mapping that a table keeps alive: one of its length, if it came from a physical address and is
  referenced. The invariant says that these and a set \<open>M\<close> that the caller knows are all mappings there are.
\<close>

definition table_mapping :: "uacpi_installed_table \<Rightarrow> (u64 \<times> u64) multiset" where
  "table_mapping t = (if origin_physical (it_origin t) \<and> it_reference_count t \<noteq> 0 then {#(it_ptr t, sdt_len (it_hdr t))#} else {#})"

definition table_mappings :: "uacpi_installed_table list \<Rightarrow> (u64 \<times> u64) multiset" where
  "table_mappings ts = sum_list (map table_mapping ts)"

definition tables_inv :: "(u64 \<times> u64) multiset \<Rightarrow> tables_state \<Rightarrow> bool" where
  "tables_inv M s \<longleftrightarrow> da_inv (tables s) \<and> mset (mapped s) = M + table_mappings (da_list (tables s))"

text \<open>What operations on an element leave alone.\<close>

definition keeps_slots :: "tables_state \<Rightarrow> tables_state \<Rightarrow> bool" where
  "keeps_slots s s' \<longleftrightarrow> (\<forall>j. da_at (tables s') j = da_at (tables s) j) \<and> da_size (tables s') = da_size (tables s)
     \<and> da_inline_capacity (tables s') = da_inline_capacity (tables s) \<and> da_capacity (tables s') = da_capacity (tables s)
     \<and> early_table_access s' = early_table_access s \<and> table_mutex s' = table_mutex s \<and> table_mutex_held s' = table_mutex_held s
     \<and> installation_handler s' = installation_handler s \<and> ts_init_level s' = ts_init_level s \<and> ts_flags s' = ts_flags s"

lemma keeps_slots_refl [simp]: "keeps_slots s s"
  by (simp add: keeps_slots_def)

lemma keeps_slots_trans: "keeps_slots r s \<Longrightarrow> keeps_slots s t \<Longrightarrow> keeps_slots r t"
  by (simp add: keeps_slots_def)

lemma table_mappings_update:
  assumes "i < length ts"
  shows "table_mappings (ts[i := t]) + table_mapping (ts ! i) = table_mappings ts + table_mapping t"
proof -
  have "table_mappings ts = table_mappings (take i ts @ ts ! i # drop (Suc i) ts)" using assms by (simp add: id_take_nth_drop [symmetric])
  then show ?thesis using assms by (simp add: table_mappings_def upd_conv_take_nth_drop ac_simps)
qed

lemma mset_exchange:
  fixes U :: "'a multiset"
  assumes "U + a = T + b" "M + a = M' + b"
  shows "M + T = M' + U"
proof -
  have "M + T + b = M + (U + a)" by (simp only: assms(1) add.assoc)
  also have "\<dots> = (M + a) + U" by (simp only: ac_simps)
  also have "\<dots> = M' + U + b" by (simp only: assms(2) ac_simps)
  finally show ?thesis by simp
qed

lemma kernel_map_post:
  assumes "tables_inv M s"
  shows "kpost (kernel_map host ph len) (\<lambda>p s'. tables_inv (if p = 0 then M else add_mset (p, len) M) s' \<and> keeps_slots s s'
     \<and> tables s' = tables s) s"
  using assms by (auto simp: kernel_map_def host_call_def kpost_kbind kpost_kseq kpost_kif tables_inv_def keeps_slots_def)

lemma kernel_unmap_post:
  assumes "tables_inv (add_mset (p, len) M) s"
  shows "kpost (kernel_unmap p len) (\<lambda>_ s'. tables_inv M s' \<and> keeps_slots s s' \<and> tables s' = tables s) s"
proof -
  have "(p, len) \<in># mset (mapped s)" using assms by (simp add: tables_inv_def)
  then show ?thesis using assms by (auto simp: kernel_unmap_def kpost_kbind tables_inv_def keeps_slots_def)
qed

lemma tbl_get_post:
  assumes "tables_inv M s" "da_at (tables s) i = Some p"
  shows "kpost (tbl_get p) (\<lambda>t s'. s' = s \<and> t = da_list (tables s) ! i \<and> i < length (da_list (tables s))) s"
  using assms da_at_read(2) [of "tables s" i p] da_inv_length [of "tables s"]
  by (auto simp: kpost_def tbl_get_def tables_inv_def)

lemma tbl_put_post:
  assumes "tables_inv M s" "da_at (tables s) i = Some p" "M + table_mapping (da_list (tables s) ! i) = M' + table_mapping t"
  shows "kpost (tbl_put p t) (\<lambda>_ s'. tables_inv M' s' \<and> keeps_slots s s' \<and> da_list (tables s') = (da_list (tables s))[i := t]) s"
proof -
  have inv: "da_inv (tables s)" and i: "i < length (da_list (tables s))"
    using assms da_at_read(2) [of "tables s" i p] da_inv_length [of "tables s"] by (auto simp: tables_inv_def)
  obtain arr where w: "da_write (tables s) p t = Some arr" "da_inv arr" "da_list arr = (da_list (tables s))[i := t]"
      "da_size arr = da_size (tables s)" "da_inline_capacity arr = da_inline_capacity (tables s)"
      "da_capacity arr = da_capacity (tables s)" "\<forall>j. da_at arr j = da_at (tables s) j"
    using da_write_at [OF inv assms(2)] by blast
  have "M + table_mappings (da_list (tables s)) = M' + table_mappings (da_list arr)"
    unfolding w(3) using table_mappings_update [OF i, of t] assms(3) by (rule mset_exchange)
  then show ?thesis using assms(1) w by (simp add: kpost_def tbl_put_def tables_inv_def keeps_slots_def)
qed

lemma tbl_mod_post:
  assumes "tables_inv M s" "da_at (tables s) i = Some p"
    "M + table_mapping (da_list (tables s) ! i) = M' + table_mapping (f (da_list (tables s) ! i))"
  shows "kpost (tbl_mod p f) (\<lambda>_ s'. tables_inv M' s' \<and> keeps_slots s s'
     \<and> da_list (tables s') = (da_list (tables s))[i := f (da_list (tables s) ! i)]) s"
  unfolding tbl_mod_def using assms by (intro kpost_bind [OF tbl_get_post]) (auto intro: tbl_put_post)

section \<open>Reference counts\<close>

lemma u16_Suc_nonzero: "(x :: u16) \<noteq> 0xFFFF \<Longrightarrow> x + 1 \<noteq> 0"
proof
  assume "x \<noteq> 0xFFFF" "x + 1 = 0"
  then have "x = - 1" by (simp add: eq_neg_iff_add_eq_0)
  with \<open>x \<noteq> 0xFFFF\<close> show False by simp
qed

definition more_referenced :: "uacpi_installed_table \<Rightarrow> uacpi_installed_table" where
  "more_referenced t = (if it_reference_count t \<noteq> 0xFFFF then t\<lparr>it_reference_count := it_reference_count t + 1\<rparr> else t)"

lemma table_mapping_unreferenced [simp]: "it_reference_count t = 0 \<Longrightarrow> table_mapping t = {#}"
  by (simp add: table_mapping_def)

lemma table_mapping_virtual [simp]: "\<not> origin_physical (it_origin t) \<Longrightarrow> table_mapping t = {#}"
  by (simp add: table_mapping_def)

lemma table_mapping_more:
  "table_mapping (more_referenced t) = (if origin_physical (it_origin t) then {#(it_ptr t, sdt_len (it_hdr t))#} else {#})"
  by (auto simp: table_mapping_def more_referenced_def u16_Suc_nonzero)

lemma table_ref_count_post:
  assumes "tables_inv M' s" "da_at (tables s) i = Some p" "t = da_list (tables s) ! i"
    "M' + table_mapping t = M + table_mapping (more_referenced t)"
  shows "kpost (table_ref_count p) (\<lambda>ret s'. ret = UACPI_STATUS_OK \<and> tables_inv M s' \<and> keeps_slots s s'
     \<and> da_list (tables s') = (da_list (tables s))[i := more_referenced t]) s"
  unfolding table_ref_count_def
proof (rule kpost_bind [OF tbl_get_post [OF assms(1,2)]])
  fix t' s' assume t': "s' = s \<and> t' = da_list (tables s) ! i \<and> i < length (da_list (tables s))"
  show "kpost (kseq (kif (it_reference_count t' \<noteq> 0xFFFF) (tbl_put p (t'\<lparr>it_reference_count := it_reference_count t' + 1\<rparr>))) (kret UACPI_STATUS_OK))
     (\<lambda>ret s'. ret = UACPI_STATUS_OK \<and> tables_inv M s' \<and> keeps_slots s s' \<and> da_list (tables s') = (da_list (tables s))[i := more_referenced t]) s'"
  proof (cases "it_reference_count t = 0xFFFF")
    case True
    then have "M' = M" using assms(4) by (simp add: more_referenced_def)
    with True t' assms(1,3) show ?thesis by (simp add: kpost_kseq more_referenced_def)
  next
    case False
    then have "kpost (tbl_put p (more_referenced t)) (\<lambda>_ s'. tables_inv M s' \<and> keeps_slots s s' \<and> da_list (tables s') = (da_list (tables s))[i := more_referenced t]) s"
      using assms by (intro tbl_put_post) simp_all
    with False t' assms(3) show ?thesis by (simp add: kpost_kseq more_referenced_def)
  qed
qed

text \<open>The outcome of a reference to the table \<open>t\<close>, which becomes \<open>t'\<close>.\<close>

definition ref_outcome :: "uacpi_status \<Rightarrow> uacpi_installed_table \<Rightarrow> uacpi_installed_table \<Rightarrow> bool" where
  "ref_outcome ret t t' \<longleftrightarrow>
     it_hdr t' = it_hdr t \<and> it_phys_addr t' = it_phys_addr t \<and> it_origin t' = it_origin t
     \<and> (if ret = UACPI_STATUS_OK
        then it_reference_count t' = (if it_reference_count t = 0xFFFF then 0xFFFF else it_reference_count t + 1)
           \<and> (it_reference_count t \<noteq> 0 \<longrightarrow> it_ptr t' = it_ptr t \<and> it_flags t' = it_flags t)
           \<and> (it_reference_count t = 0 \<longrightarrow> it_flags t AND UACPI_TABLE_INVALID = 0 \<and> it_flags t' AND UACPI_TABLE_INVALID = 0)
           \<and> (it_reference_count t = 0 \<and> origin_physical (it_origin t) \<longrightarrow> it_ptr t' \<noteq> 0 \<and> it_flags t' AND UACPI_TABLE_CSUM_VERIFIED \<noteq> 0)
        else it_reference_count t = 0 \<and> it_reference_count t' = 0
           \<and> (ret = UACPI_STATUS_BAD_CHECKSUM \<longrightarrow> it_flags t' AND UACPI_TABLE_INVALID \<noteq> 0))"

lemma flag_or_set: "(x OR UACPI_TABLE_INVALID) AND UACPI_TABLE_INVALID \<noteq> (0 :: u8)"
  "(x OR UACPI_TABLE_CSUM_VERIFIED) AND UACPI_TABLE_CSUM_VERIFIED \<noteq> (0 :: u8)"
  by (simp_all add: UACPI_TABLE_INVALID_def UACPI_TABLE_CSUM_VERIFIED_def bit_eq_iff) (rule exI [of _ 2], simp add: bit_simps, rule exI [of _ 1], simp add: bit_simps)

lemma flag_or_other: "(x OR UACPI_TABLE_CSUM_VERIFIED) AND UACPI_TABLE_INVALID = x AND UACPI_TABLE_INVALID"
  by (simp add: UACPI_TABLE_INVALID_def UACPI_TABLE_CSUM_VERIFIED_def bit.conj_disj_distrib2)

lemma verify_checksum_post:
  assumes "Q UACPI_STATUS_OK s"
    "Q UACPI_STATUS_BAD_CHECKSUM s"
  shows "kpost (uacpi_verify_table_checksum host ptr sz) Q s"
  using assms by (simp add: uacpi_verify_table_checksum_def check_flag_def kpost_kbind)

definition ref_post :: "(u64 \<times> u64) multiset \<Rightarrow> nat \<Rightarrow> tables_state \<Rightarrow> uacpi_status \<Rightarrow> tables_state \<Rightarrow> bool" where
  "ref_post M i s ret s' \<longleftrightarrow> tables_inv M s' \<and> keeps_slots s s'
     \<and> (\<exists>t'. da_list (tables s') = (da_list (tables s))[i := t'] \<and> ref_outcome ret (da_list (tables s) ! i) t')"

lemmas status_defs = UACPI_STATUS_BAD_CHECKSUM_def UACPI_STATUS_OK_def UACPI_STATUS_MAPPING_FAILED_def
  UACPI_STATUS_INVALID_ARGUMENT_def UACPI_STATUS_NOT_FOUND_def UACPI_STATUS_ALREADY_EXISTS_def
  UACPI_STATUS_OVERRIDDEN_def UACPI_STATUS_DENIED_def UACPI_STATUS_INVALID_TABLE_LENGTH_def
  UACPI_STATUS_OUT_OF_MEMORY_def UACPI_STATUS_INVALID_SIGNATURE_def UACPI_STATUS_INTERNAL_ERROR_def

lemma flag_nonzero [simp]: "UACPI_TABLE_INVALID \<noteq> 0" "UACPI_TABLE_CSUM_VERIFIED \<noteq> 0" "UACPI_TABLE_LOADED \<noteq> 0"
  by (simp_all add: UACPI_TABLE_INVALID_def UACPI_TABLE_CSUM_VERIFIED_def UACPI_TABLE_LOADED_def)

lemma ref_outcome_count:
  assumes "it_reference_count t \<noteq> 0 \<or> \<not> origin_physical (it_origin t) \<and> it_flags t AND UACPI_TABLE_INVALID = 0"
  shows "ref_outcome UACPI_STATUS_OK t (more_referenced t)"
  using assms by (auto simp: ref_outcome_def more_referenced_def)

text \<open>The state \<open>s'\<close> differs from \<open>s\<close> in element \<open>i\<close>, which is \<open>t\<close> now, and in the mappings.\<close>

definition at_slot :: "(u64 \<times> u64) multiset \<Rightarrow> nat \<Rightarrow> tables_state \<Rightarrow> uacpi_installed_table \<Rightarrow> tables_state \<Rightarrow> bool" where
  "at_slot M i s t s' \<longleftrightarrow> tables_inv M s' \<and> keeps_slots s s' \<and> da_list (tables s') = (da_list (tables s))[i := t]"

lemma at_slot_init:
  "tables_inv M s \<Longrightarrow> t = da_list (tables s) ! i \<Longrightarrow> at_slot M i s t s"
  by (simp add: at_slot_def)

lemma ref_post_at:
  "at_slot M i s t' s' \<Longrightarrow> ref_outcome ret (da_list (tables s) ! i) t' \<Longrightarrow> ref_post M i s ret s'"
  by (auto simp: at_slot_def ref_post_def)

lemma at_slot_mod:
  assumes "at_slot M i s t s'" "da_at (tables s) i = Some p" "M + table_mapping t = M' + table_mapping (f t)"
  shows "kpost (tbl_mod p f) (\<lambda>_. at_slot M' i s (f t)) s'"
proof -
  have at: "da_at (tables s') i = Some p" using assms(1,2) by (simp add: at_slot_def keeps_slots_def)
  have "i < length (da_list (tables s'))"
    using assms(1) at da_at_read(2) [of "tables s'" i p] da_inv_length [of "tables s'"] by (auto simp: at_slot_def tables_inv_def)
  then have nth: "da_list (tables s') ! i = t" using assms(1) by (simp add: at_slot_def)
  have "kpost (tbl_mod p f) (\<lambda>_ s2. tables_inv M' s2 \<and> keeps_slots s' s2 \<and> da_list (tables s2) = (da_list (tables s'))[i := f (da_list (tables s') ! i)]) s'"
    by (rule tbl_mod_post [of M]) (use assms(1,3) at nth in \<open>simp_all only: at_slot_def\<close>)
  then show ?thesis by (rule kpost_mono) (use assms(1) nth in \<open>auto simp: at_slot_def intro: keeps_slots_trans\<close>)
qed

lemma at_slot_count:
  assumes "at_slot M' i s t s'" "da_at (tables s) i = Some p" "M' + table_mapping t = M + table_mapping (more_referenced t)"
    "ref_outcome UACPI_STATUS_OK (da_list (tables s) ! i) (more_referenced t)"
  shows "kpost (table_ref_count p) (ref_post M i s) s'"
proof -
  have at: "da_at (tables s') i = Some p" using assms(1,2) by (simp add: at_slot_def keeps_slots_def)
  have "i < length (da_list (tables s'))"
    using assms(1) at da_at_read(2) [of "tables s'" i p] da_inv_length [of "tables s'"] by (auto simp: at_slot_def tables_inv_def)
  then have nth: "t = da_list (tables s') ! i" using assms(1) by (simp add: at_slot_def)
  have "tables_inv M' s'" using assms(1) by (simp add: at_slot_def)
  from table_ref_count_post [OF this at nth assms(3)] show ?thesis
    by (rule kpost_mono) (use assms in \<open>auto simp: ref_post_def at_slot_def intro: keeps_slots_trans\<close>)
qed

lemma at_slot_map:
  assumes "at_slot M i s t s'"
  shows "kpost (kernel_map host ph len) (\<lambda>ptr. at_slot (if ptr = 0 then M else add_mset (ptr, len) M) i s t) s'"
  using kernel_map_post [of M s'] by (rule kpost_mono) (use assms in \<open>auto simp: at_slot_def intro: keeps_slots_trans\<close>)

lemma at_slot_unmap:
  assumes "at_slot (add_mset (ptr, len) M) i s t s'"
  shows "kpost (kernel_unmap ptr len) (\<lambda>_. at_slot M i s t) s'"
  using kernel_unmap_post [of ptr len M s'] by (rule kpost_mono) (use assms in \<open>auto simp: at_slot_def intro: keeps_slots_trans\<close>)

lemma table_ref_map_post:
  assumes inv: "tables_inv M s" and at: "da_at (tables s) i = Some p" and t: "t = da_list (tables s) ! i"
    and z: "it_reference_count t = 0" "it_flags t AND UACPI_TABLE_INVALID = 0" "origin_physical (it_origin t)"
  shows "kpost (table_ref_map host p t) (ref_post M i s) s"
  unfolding table_ref_map_def
proof (rule kpost_bind [OF at_slot_map [OF at_slot_init [OF inv t]]], rule kpost_seq [OF at_slot_mod])
  fix ptr s1 assume "at_slot (if ptr = 0 then M else add_mset (ptr, sdt_len (it_hdr t)) M) i s t s1"
  then show "at_slot (if ptr = 0 then M else add_mset (ptr, sdt_len (it_hdr t)) M) i s t s1" .
  show "da_at (tables s) i = Some p" by fact
  show "(if ptr = 0 then M else add_mset (ptr, sdt_len (it_hdr t)) M) + table_mapping t
     = (if ptr = 0 then M else add_mset (ptr, sdt_len (it_hdr t)) M) + table_mapping (t\<lparr>it_ptr := ptr\<rparr>)"
    using z by simp
next
  fix ptr s2
  let ?M = "add_mset (ptr, sdt_len (it_hdr t)) M" and ?t = "t\<lparr>it_ptr := ptr\<rparr>"
  let ?v = "?t\<lparr>it_flags := it_flags t OR UACPI_TABLE_CSUM_VERIFIED\<rparr>" and ?w = "?t\<lparr>it_flags := it_flags t OR UACPI_TABLE_INVALID, it_ptr := 0\<rparr>"
  assume s2: "at_slot (if ptr = 0 then M else ?M) i s ?t s2"
  have fine: "kpost (table_ref_count p) (ref_post M i s) s'"
    if "ptr \<noteq> 0" "at_slot ?M i s t' s'" "it_flags t' AND UACPI_TABLE_CSUM_VERIFIED \<noteq> 0" "t' = ?t \<or> t' = ?v" for t' s'
    using that(2) at
  proof (rule at_slot_count)
    have z': "it_reference_count t' = 0" "origin_physical (it_origin t')" "it_ptr t' = ptr" "it_hdr t' = it_hdr t" using that(4) z by auto
    have o: "it_phys_addr t' = it_phys_addr t" "it_origin t' = it_origin t" "it_flags t' AND UACPI_TABLE_INVALID = 0"
      using that(4) z(2) flag_or_other [of "it_flags t"] by auto
    from z' show "?M + table_mapping t' = M + table_mapping (more_referenced t')" by (simp add: table_mapping_more)
    show "ref_outcome UACPI_STATUS_OK (da_list (tables s) ! i) (more_referenced t')"
      using that(1,3) z z' o by (simp add: ref_outcome_def more_referenced_def t [symmetric])
  qed
  have bad: "kpost (kseq (kernel_unmap ptr (sdt_len (it_hdr t)))
       (kseq (tbl_mod p (\<lambda>t. t\<lparr>it_flags := it_flags t OR UACPI_TABLE_INVALID, it_ptr := 0\<rparr>)) (kret UACPI_STATUS_BAD_CHECKSUM))) (ref_post M i s) s2"
    if "ptr \<noteq> 0"
  proof (rule kpost_seq [OF at_slot_unmap], use s2 that in simp, rule kpost_seq [OF at_slot_mod], assumption, rule at)
    show "M + table_mapping ?t = M + table_mapping (?t\<lparr>it_flags := it_flags ?t OR UACPI_TABLE_INVALID, it_ptr := 0\<rparr>)" using z by simp
    fix s3 assume "at_slot M i s (?t\<lparr>it_flags := it_flags ?t OR UACPI_TABLE_INVALID, it_ptr := 0\<rparr>) s3"
    then show "kpost (kret UACPI_STATUS_BAD_CHECKSUM) (ref_post M i s) s3"
      using z by (simp, elim ref_post_at) (simp add: ref_outcome_def t [symmetric] flag_or_set status_defs)
  qed
  have good: "kpost (kseq (tbl_mod p (\<lambda>t. t\<lparr>it_flags := it_flags t OR UACPI_TABLE_CSUM_VERIFIED\<rparr>)) (table_ref_count p)) (ref_post M i s) s2"
    if "ptr \<noteq> 0"
  proof (rule kpost_seq [OF at_slot_mod], use s2 that in simp, rule at)
    show "?M + table_mapping ?t = ?M + table_mapping (?t\<lparr>it_flags := it_flags ?t OR UACPI_TABLE_CSUM_VERIFIED\<rparr>)" using z by simp
  qed (use that in \<open>auto simp: flag_or_set intro!: fine\<close>)
  show "kpost (if ptr = 0 then kret UACPI_STATUS_MAPPING_FAILED
      else if it_flags t AND UACPI_TABLE_CSUM_VERIFIED = 0 then
        kbind (uacpi_verify_table_checksum host ptr (sdt_len (it_hdr t))) (\<lambda>ret.
          if ret \<noteq> UACPI_STATUS_OK then
            kseq (kernel_unmap ptr (sdt_len (it_hdr t)))
            (kseq (tbl_mod p (\<lambda>t. t\<lparr>it_flags := it_flags t OR UACPI_TABLE_INVALID, it_ptr := 0\<rparr>)) (kret ret))
          else kseq (tbl_mod p (\<lambda>t. t\<lparr>it_flags := it_flags t OR UACPI_TABLE_CSUM_VERIFIED\<rparr>)) (table_ref_count p))
      else table_ref_count p) (ref_post M i s) s2"
  proof (cases "ptr = 0")
    case True
    then show ?thesis using s2 z by (simp, elim ref_post_at) (simp add: ref_outcome_def t [symmetric] status_defs)
  next
    case False
    then have "kpost (table_ref_count p) (ref_post M i s) s2" if "it_flags t AND UACPI_TABLE_CSUM_VERIFIED \<noteq> 0"
      using s2 that by (intro fine [of ?t]) auto
    with False bad good show ?thesis
      by (auto simp: kpost_kbind status_defs(1,2) intro!: verify_checksum_post)
  qed
qed

lemma table_ref_unlocked_post:
  assumes inv: "tables_inv M s" and at: "da_at (tables s) i = Some p"
  shows "kpost (table_ref_unlocked host p) (ref_post M i s) s"
  unfolding table_ref_unlocked_def
proof (rule kpost_bind [OF tbl_get_post [OF inv at]])
  fix t s' assume t: "s' = s \<and> t = da_list (tables s) ! i \<and> i < length (da_list (tables s))"
  then have sl: "at_slot M i s t s" and nth: "da_list (tables s) ! i = t" using at_slot_init [OF inv] by simp_all
  have invalid: "ref_post M i s UACPI_STATUS_INVALID_ARGUMENT s" if "it_reference_count t = 0"
    using sl by (rule ref_post_at) (use that nth in \<open>simp add: ref_outcome_def status_defs\<close>)
  have count: "kpost (table_ref_count p) (ref_post M i s) s"
    if c: "it_reference_count t \<noteq> 0 \<or> \<not> origin_physical (it_origin t) \<and> it_flags t AND UACPI_TABLE_INVALID = 0"
    using sl at
  proof (rule at_slot_count)
    show "M + table_mapping t = M + table_mapping (more_referenced t)"
      using c unfolding table_mapping_more by (auto simp: table_mapping_def)
    show "ref_outcome UACPI_STATUS_OK (da_list (tables s) ! i) (more_referenced t)"
      using ref_outcome_count [OF c] by (simp only: nth)
  qed
  have map: "kpost (table_ref_map host p t) (ref_post M i s) s"
    if "it_reference_count t = 0" "it_flags t AND UACPI_TABLE_INVALID = 0" "origin_physical (it_origin t)"
    using inv at nth [symmetric] that by (rule table_ref_map_post)
  show "kpost (if it_reference_count t = 0 then if it_flags t AND UACPI_TABLE_INVALID \<noteq> 0 then kret UACPI_STATUS_INVALID_ARGUMENT
       else if \<not> origin_physical (it_origin t) then table_ref_count p else table_ref_map host p t
     else table_ref_count p) (ref_post M i s) s'"
    using t invalid count map by auto
qed

definition unref_outcome :: "uacpi_status \<Rightarrow> uacpi_installed_table \<Rightarrow> uacpi_installed_table \<Rightarrow> bool" where
  "unref_outcome ret t t' \<longleftrightarrow>
     it_hdr t' = it_hdr t \<and> it_phys_addr t' = it_phys_addr t \<and> it_origin t' = it_origin t \<and> it_flags t' = it_flags t
     \<and> (if it_reference_count t = 0 then ret = UACPI_STATUS_INVALID_ARGUMENT \<and> t' = t
        else ret = UACPI_STATUS_OK
           \<and> it_reference_count t' = (if it_reference_count t = 0xFFFF then 0xFFFF else it_reference_count t - 1)
           \<and> (it_reference_count t \<noteq> 1 \<longrightarrow> it_ptr t' = it_ptr t))"

text \<open>The same with the mappings given outright, for when they do not fit the table that is being changed.\<close>

definition at_raw :: "(u64 \<times> u64) multiset \<Rightarrow> nat \<Rightarrow> tables_state \<Rightarrow> uacpi_installed_table \<Rightarrow> tables_state \<Rightarrow> bool" where
  "at_raw N i s t s' \<longleftrightarrow> da_inv (tables s') \<and> mset (mapped s') = N \<and> keeps_slots s s' \<and> da_list (tables s') = (da_list (tables s))[i := t]"

lemma at_raw_slot: "at_raw (M + table_mappings ((da_list (tables s))[i := t])) i s t s' = at_slot M i s t s'"
  by (auto simp: at_raw_def at_slot_def tables_inv_def)

lemma at_raw_unmap:
  assumes "at_raw (add_mset (ptr, len) N) i s t s'"
  shows "kpost (kernel_unmap ptr len) (\<lambda>_. at_raw N i s t) s'"
proof -
  have "(ptr, len) \<in># mset (mapped s')" using assms by (simp add: at_raw_def)
  then show ?thesis using assms by (auto simp: kernel_unmap_def kpost_kbind at_raw_def keeps_slots_def)
qed

lemma at_raw_mod:
  assumes "at_raw N i s t s'" "da_at (tables s) i = Some p"
  shows "kpost (tbl_mod p f) (\<lambda>_. at_raw N i s (f t)) s'"
proof -
  have inv: "da_inv (tables s')" and at: "da_at (tables s') i = Some p" using assms by (simp_all add: at_raw_def keeps_slots_def)
  have rd: "da_read (tables s') p = Some t"
    using da_at_read(2) [OF inv at] da_inv_length [OF inv] assms(1) by (simp add: at_raw_def)
  show ?thesis using da_write_at [OF inv at, of "f t"] assms(1)
    by (auto simp: tbl_mod_def kpost_kbind kpost_def tbl_get_def tbl_put_def rd at_raw_def keeps_slots_def)
qed

lemma table_unref_unlocked_post:
  assumes inv: "tables_inv M s" and at: "da_at (tables s) i = Some p"
  shows "kpost (table_unref_unlocked p) (\<lambda>ret s'. \<exists>t'. at_slot M i s t' s' \<and> unref_outcome ret (da_list (tables s) ! i) t') s"
  unfolding table_unref_unlocked_def
proof (rule kpost_bind [OF tbl_get_post [OF inv at]])
  let ?Q = "\<lambda>ret s'. \<exists>t'. at_slot M i s t' s' \<and> unref_outcome ret (da_list (tables s) ! i) t'"
  fix t s' assume t: "s' = s \<and> t = da_list (tables s) ! i \<and> i < length (da_list (tables s))"
  then have sl: "at_slot M i s t s" and nth: "da_list (tables s) ! i = t" and i: "i < length (da_list (tables s))"
    using at_slot_init [OF inv] by simp_all
  let ?d = "\<lambda>t. t\<lparr>it_reference_count := it_reference_count t - 1\<rparr>"
  let ?dec = "kseq (tbl_mod p ?d) (kret UACPI_STATUS_OK)"
  have dec: "kpost ?dec ?Q s"
    if "table_mapping t = table_mapping (?d t)" "unref_outcome UACPI_STATUS_OK t (?d t)"
    by (rule kpost_seq [OF at_slot_mod [OF sl at]]) (use that nth in auto)
  have last: "kpost (kseq (kernel_unmap (it_ptr t) (sdt_len (it_hdr t))) (kseq (tbl_mod p (it_ptr_update (\<lambda>_. 0))) ?dec)) ?Q s"
    if one: "it_reference_count t = 1" "origin_physical (it_origin t)"
  proof -
    let ?t = "?d (t\<lparr>it_ptr := 0\<rparr>)"
    have "table_mappings ((da_list (tables s))[i := ?t]) + table_mapping t = table_mappings (da_list (tables s)) + table_mapping ?t"
      using table_mappings_update [OF i, of ?t] by (simp only: nth)
    then have "table_mappings (da_list (tables s)) = add_mset (it_ptr t, sdt_len (it_hdr t)) (table_mappings ((da_list (tables s))[i := ?t]))"
      using one by (simp add: table_mapping_def)
    then have raw: "at_raw (add_mset (it_ptr t, sdt_len (it_hdr t)) (M + table_mappings ((da_list (tables s))[i := ?t]))) i s t s"
      using sl nth by (simp add: at_slot_def at_raw_def tables_inv_def)
    have "unref_outcome UACPI_STATUS_OK t ?t" using one by (simp add: unref_outcome_def)
    then have "?Q UACPI_STATUS_OK s'" if "at_raw (M + table_mappings ((da_list (tables s))[i := ?t])) i s ?t s'" for s'
      using that nth by (auto simp only: at_raw_slot)
    then show ?thesis
      by (intro kpost_seq [OF at_raw_unmap [OF raw]] kpost_seq [OF at_raw_mod [OF _ at]]) auto
  qed
  have keep: "table_mapping t = table_mapping (?d t)" if "it_reference_count t \<noteq> 0" "it_reference_count t \<noteq> 1"
  proof -
    have "it_reference_count t - 1 \<noteq> 0" using that(2) by (metis right_minus_eq)
    then show ?thesis using that by (simp add: table_mapping_def)
  qed
  have "?Q UACPI_STATUS_INVALID_ARGUMENT s" if "it_reference_count t = 0"
    using sl that nth by (intro exI [of _ t]) (simp add: unref_outcome_def)
  moreover have "?Q UACPI_STATUS_OK s" if "it_reference_count t = 0xFFFF"
    using sl that nth by (intro exI [of _ t]) (simp add: unref_outcome_def)
  moreover have "kpost ?dec ?Q s" if "it_reference_count t \<noteq> 0" "it_reference_count t \<noteq> 0xFFFF"
      "it_reference_count t = 1 \<longrightarrow> \<not> origin_physical (it_origin t)"
    using that keep by (intro dec) (auto simp: unref_outcome_def)
  ultimately show "kpost (let decrement = ?dec in
     if it_reference_count t = 0 then kret UACPI_STATUS_INVALID_ARGUMENT
     else if it_reference_count t = 1 then
       if \<not> origin_physical (it_origin t) then decrement
       else kseq (kernel_unmap (it_ptr t) (sdt_len (it_hdr t))) (kseq (tbl_mod p (it_ptr_update (\<lambda>_. 0))) decrement)
     else if it_reference_count t = 0xFFFF then kret UACPI_STATUS_OK
     else decrement) ?Q s'"
    using t last by (simp add: Let_def)
qed

section \<open>Installation\<close>

definition host_allocs :: "table_host \<Rightarrow> bool" where
  "host_allocs host \<longleftrightarrow> (\<forall>n. alloc_sized (th_alloc host n))"

text \<open>Installations only append to the array and keep the variables around it.\<close>

definition same_setup :: "tables_state \<Rightarrow> tables_state \<Rightarrow> bool" where
  "same_setup s s' \<longleftrightarrow> early_table_access s' = early_table_access s \<and> table_mutex s' = table_mutex s
     \<and> table_mutex_held s' = table_mutex_held s \<and> installation_handler s' = installation_handler s
     \<and> ts_init_level s' = ts_init_level s \<and> ts_flags s' = ts_flags s"

definition appends :: "tables_state \<Rightarrow> tables_state \<Rightarrow> bool" where
  "appends s s' \<longleftrightarrow> same_setup s s' \<and> (\<exists>ts. da_list (tables s') = da_list (tables s) @ ts)"

lemma appends_refl [simp]: "appends s s"
  by (simp add: appends_def same_setup_def)

lemma appends_trans: "appends r s \<Longrightarrow> appends s t \<Longrightarrow> appends r t"
  by (auto simp: appends_def same_setup_def)

lemma appends_same: "keeps_slots s s' \<Longrightarrow> tables s' = tables s \<Longrightarrow> appends s s'"
  by (simp add: appends_def same_setup_def keeps_slots_def)

text \<open>A table handed out is an element of the array with its pointer and a reference.\<close>

definition out_ok :: "install_result \<Rightarrow> tables_state \<Rightarrow> bool" where
  "out_ok r s \<longleftrightarrow> (\<forall>tb. snd r = Some tb \<longrightarrow> tb_index tb < length (da_list (tables s))
     \<and> it_ptr (da_list (tables s) ! tb_index tb) = tb_ptr tb \<and> it_reference_count (da_list (tables s) ! tb_index tb) = 1)"

lemma out_ok_None [simp]: "out_ok (ret, None) s"
  by (simp add: out_ok_def)

lemma out_ok_same: "out_ok r s \<Longrightarrow> snd r' = snd r \<Longrightarrow> tables s' = tables s \<Longrightarrow> out_ok r' s'"
  by (simp add: out_ok_def)

definition install_post :: "(u64 \<times> u64) multiset \<Rightarrow> tables_state \<Rightarrow> install_result \<Rightarrow> tables_state \<Rightarrow> bool" where
  "install_post M s r s' \<longleftrightarrow> tables_inv M s' \<and> appends s s' \<and> out_ok r s'"

definition inst_ok :: "install_physical \<Rightarrow> bool" where
  "inst_ok inst \<longleftrightarrow> (\<forall>ph origin sg want M s. tables_inv M s \<longrightarrow> origin_physical origin \<longrightarrow>
     kpost (inst ph origin sg want) (install_post M s) s)"

definition inst_virt_ok :: "install_virtual \<Rightarrow> bool" where
  "inst_virt_ok inst \<longleftrightarrow> (\<forall>virt origin want M s. tables_inv M s \<longrightarrow> \<not> origin_physical origin \<longrightarrow>
     kpost (inst virt origin want) (install_post M s) s)"

lemma tables_inv_cong: "tables s' = tables s \<Longrightarrow> mapped s' = mapped s \<Longrightarrow> tables_inv M s' = tables_inv M s"
  by (simp add: tables_inv_def)

lemma initialize_fadt_post:
  assumes inst: "inst_ok inst" and inv: "tables_inv M s"
  shows "kpost (initialize_fadt inst host virt) (\<lambda>_ s'. tables_inv M s' \<and> appends s s') s"
proof -
  have call: "kpost (inst x UACPI_TABLE_ORIGIN_FIRMWARE_PHYSICAL sg False) (\<lambda>_ s'. tables_inv M s' \<and> appends s s') s1"
    if "tables_inv M s1" "appends s s1" for x sg s1
  proof -
    have "kpost (inst x UACPI_TABLE_ORIGIN_FIRMWARE_PHYSICAL sg False) (install_post M s1) s1"
      using inst that(1) by (simp add: inst_ok_def)
    then show ?thesis by (rule kpost_mono) (use that(2) in \<open>auto simp: install_post_def intro: appends_trans\<close>)
  qed
  let ?I = "\<lambda>s'. tables_inv M s' \<and> appends s s'"
  have upd: "?I (s1\<lparr>ts_fadt := f\<rparr>)" "?I (s1\<lparr>is_hardware_reduced := b\<rparr>)" "?I (s1\<lparr>ts_fadt := f, ts_blocks := e\<rparr>)" if "?I s1" for s1 f b e
    using that by (simp_all add: tables_inv_def appends_def same_setup_def)
  show ?thesis unfolding initialize_fadt_def Let_def [of "bytes_at _ _ _"]
  proof (intro kpost_seq [where P = "\<lambda>_. ?I"] kpost_bind [where P = "\<lambda>_. ?I"])
    fix x_dsdt s1 assume "?I s1"
    then show "kpost (if x_dsdt \<noteq> 0 then kbind (inst x_dsdt UACPI_TABLE_ORIGIN_FIRMWARE_PHYSICAL (Some ACPI_DSDT_SIGNATURE) False) (\<lambda>(ret, _). kret ret)
          else kret UACPI_STATUS_OK) (\<lambda>_. ?I) s1"
      by (auto simp: kpost_kbind split: prod.splits intro!: kpost_mono [OF call])
  next
    fix ret s1 assume "?I s1"
    then show "kpost (if ret \<noteq> UACPI_STATUS_OK \<and> ret \<noteq> UACPI_STATUS_OVERRIDDEN then kret ret
        else kseq (kmod (\<lambda>s. let (f, e) = fadt_finish (is_hardware_reduced s) (ts_fadt s) (ts_blocks s) in s\<lparr>ts_fadt := f, ts_blocks := e\<rparr>))
          (kret UACPI_STATUS_OK)) (\<lambda>_. ?I) s1"
      using upd(3) [of s1] by (auto simp: kpost_kseq Let_def split: prod.splits)
  qed (use inv upd in auto)
qed

lemma verify_table_post:
  assumes inst: "inst_ok inst" and inv: "tables_inv M s"
  shows "kpost (verify_table inst host hdr ph virt want) (\<lambda>_ s'. tables_inv M s' \<and> appends s s') s"
proof -
  let ?I = "\<lambda>M s'. tables_inv M s' \<and> appends s s'"
  let ?fadt = "uacpi_signatures_match (sdt_signature hdr) ACPI_FADT_SIGNATURE"
  have check: "kpost (uacpi_verify_table_checksum host p len) (\<lambda>_. ?I M') s1" if "?I M' s1" for M' s1 p len
    using that by (intro verify_checksum_post) auto
  have fadt: "kpost (if ret = UACPI_STATUS_OK then
         kbind (if ?fadt then initialize_fadt inst host p else kret ret) (\<lambda>ret. kret (ret, UACPI_TABLE_CSUM_VERIFIED))
       else kret (ret, 0)) (\<lambda>_. ?I M') s1" if "?I M' s1" for M' s1 p ret
    using that initialize_fadt_post [OF inst, of M' s1] appends_trans
    by (auto simp: kpost_kbind intro!: kpost_mono [OF initialize_fadt_post [OF inst, of M' s1]] elim: appends_trans)
  have unmap: "kpost (kseq (kif (virt = 0) (kernel_unmap p (sdt_len hdr))) (kret r)) (\<lambda>_. ?I M) s1"
    if "?I (if virt = 0 then add_mset (p, sdt_len hdr) M else M) s1" for s1 p and r :: "uacpi_status \<times> u8"
    using that by (auto simp: kpost_kseq kpost_kif intro!: kpost_mono [OF kernel_unmap_post] elim: appends_trans [OF _ appends_same])
  have map: "kpost (if virt = 0 then kernel_map host ph (sdt_len hdr) else kret virt)
      (\<lambda>p. ?I (if virt = 0 \<and> p \<noteq> 0 then add_mset (p, sdt_len hdr) M else M)) s"
    using inv by (auto intro!: kpost_mono [OF kernel_map_post] simp: appends_same)
  show ?thesis unfolding verify_table_def Let_def check_flag_def
    apply (rule kpost_if)
     apply (use inv in simp)
    apply (rule kpost_bind [where P = "\<lambda>_ s'. s' = s"], simp, hypsubst, rule kpost_if)
     apply (rule kpost_bind [OF map], rule kpost_if)
      apply simp
     apply (rule kpost_bind [OF check], assumption, rule kpost_bind [OF fadt], assumption)
     apply (clarsimp simp only: split_beta, rule unmap, simp)
    apply (use inv in simp)
    done
qed

text \<open>A new element may hold anything until it is written; then the list has it at its end.\<close>

definition fresh_slot :: "tables_state \<Rightarrow> da_slot \<Rightarrow> tables_state \<Rightarrow> bool" where
  "fresh_slot s p s' \<longleftrightarrow> (\<forall>t. kpost (tbl_put p t) (\<lambda>_ s2. da_inv (tables s2) \<and> da_list (tables s2) = da_list (tables s) @ [t]
     \<and> mapped s2 = mapped s \<and> same_setup s s2 \<and> da_at (tables s2) (length (da_list (tables s))) = Some p) s')"

lemma table_alloc_post:
  assumes host: "host_allocs host" and inv: "tables_inv M s"
  shows "kpost (table_alloc host) (\<lambda>(ret, p, idx) s'. if ret = UACPI_STATUS_OK then fresh_slot s p s' \<and> idx = length (da_list (tables s))
     else tables_inv M s' \<and> appends s s') s"
proof -
  define buf where "buf = th_alloc host (host_calls s)"
  have sized: "alloc_sized buf" using host by (simp add: host_allocs_def buf_def)
  have dinv: "da_inv (tables s)" using inv by (simp add: tables_inv_def)
  obtain r arr where al: "da_alloc buf (tables s) = (r, arr)" by fastforce
  have al': "table_array_alloc host s = Ret r (s\<lparr>host_calls := Suc (host_calls s), tables := arr\<rparr>)"
    using al by (simp add: table_array_alloc_def host_call_def kbind_def kseq_def kmod_def buf_def)
  have oom: "UACPI_STATUS_OUT_OF_MEMORY \<noteq> UACPI_STATUS_OK" by (simp add: status_defs)
  let ?Q = "\<lambda>(ret, p, idx) s'. if ret = UACPI_STATUS_OK then fresh_slot s p s' \<and> idx = length (da_list (tables s)) else tables_inv M s' \<and> appends s s'"
  have r: "kpost (case r of None \<Rightarrow> kret (UACPI_STATUS_OUT_OF_MEMORY, Inline 0, 0) | Some p \<Rightarrow> kget (\<lambda>s. (UACPI_STATUS_OK, p, da_size (tables s) - 1)))
      ?Q (s\<lparr>host_calls := Suc (host_calls s), tables := arr\<rparr>)"
  proof (cases r)
    case None
    then have "arr = tables s" using da_alloc_grows [OF dinv sized] al by simp
    then show ?thesis using inv None oom by (simp add: tables_inv_def appends_def same_setup_def)
  next
    case (Some p)
    have len: "da_size arr = da_size (tables s) + 1" using da_alloc_grows [OF dinv sized] al Some by simp
    have "kpost (tbl_put p t) (\<lambda>_ s2. da_inv (tables s2) \<and> da_list (tables s2) = da_list (tables s) @ [t]
       \<and> mapped s2 = mapped s \<and> same_setup s s2 \<and> da_at (tables s2) (length (da_list (tables s))) = Some p)
        (s\<lparr>host_calls := Suc (host_calls s), tables := arr\<rparr>)" for t
      using da_push [OF dinv sized, of p arr t] al Some da_inv_length [OF dinv] by (auto simp: kpost_def tbl_put_def same_setup_def)
    then show ?thesis using Some len da_inv_length [OF dinv] by (simp add: fresh_slot_def)
  qed
  show ?thesis unfolding table_alloc_def
  proof (rule kpost_bind [where P = "\<lambda>_ s'. s' = s"], simp, hypsubst, rule kpost_if)
    show "kpost (kret (UACPI_STATUS_OUT_OF_MEMORY, Inline 0, 0)) ?Q s" using inv oom by simp
    show "kpost (kbind (table_array_alloc host) (\<lambda>r. case r of None \<Rightarrow> kret (UACPI_STATUS_OUT_OF_MEMORY, Inline 0, 0)
         | Some p \<Rightarrow> kget (\<lambda>s. (UACPI_STATUS_OK, p, da_size (tables s) - 1)))) ?Q s"
      unfolding kpost_kbind kpost_Ret [where f = "table_array_alloc host", OF al'] by (rule r)
  qed
qed

lemma verify_and_install_post:
  assumes inst: "inst_ok inst" and host: "host_allocs host" and inv: "tables_inv M s"
    and own: "want \<and> origin_physical origin \<Longrightarrow> M = add_mset (virt, sdt_len hdr) M'"
  shows "kpost (verify_and_install_table inst host hdr ph virt origin want)
     (\<lambda>r s'. tables_inv (if fst r = UACPI_STATUS_OK \<and> want \<and> origin_physical origin then M' else M) s' \<and> appends s s' \<and> out_ok r s') s"
proof -
  let ?Q = "\<lambda>r s'. tables_inv (if fst r = UACPI_STATUS_OK \<and> want \<and> origin_physical origin then M' else M) s' \<and> appends s s' \<and> out_ok r s'"
  define new where "new fl = \<lparr>it_phys_addr = ph, it_hdr = hdr, it_ptr = virt, it_reference_count = 0, it_flags = fl, it_origin = origin\<rparr>" for fl
  have store: "kpost (kseq (tbl_put p (new fl)) (if \<not> want then kret (UACPI_STATUS_OK, None)
         else kseq (tbl_mod p (\<lambda>t. t\<lparr>it_reference_count := it_reference_count t + 1\<rparr>))
           (kret (UACPI_STATUS_OK, Some \<lparr>tb_ptr = virt, tb_index = idx\<rparr>)))) ?Q s2"
    if s1: "tables_inv M s1" "appends s s1" and fresh: "fresh_slot s1 p s2" "idx = length (da_list (tables s1))" for p fl idx s1 s2
  proof (rule kpost_seq)
    show "kpost (tbl_put p (new fl)) (\<lambda>_ s3. da_inv (tables s3) \<and> da_list (tables s3) = da_list (tables s1) @ [new fl]
        \<and> mapped s3 = mapped s1 \<and> same_setup s1 s3 \<and> da_at (tables s3) idx = Some p) s2"
      using fresh by (simp add: fresh_slot_def)
    fix x s3 assume s3: "da_inv (tables s3) \<and> da_list (tables s3) = da_list (tables s1) @ [new fl]
        \<and> mapped s3 = mapped s1 \<and> same_setup s1 s3 \<and> da_at (tables s3) idx = Some p"
    then have inv3: "tables_inv M s3" and app3: "appends s s3"
      using s1 by (auto simp: tables_inv_def table_mappings_def appends_def same_setup_def new_def)
    have nth: "da_list (tables s3) ! idx = new fl" using s3 fresh(2) by simp
    let ?u = "(new fl)\<lparr>it_reference_count := 0 + 1\<rparr>"
    have inc: "kpost (tbl_mod p (\<lambda>t. t\<lparr>it_reference_count := it_reference_count t + 1\<rparr>))
        (\<lambda>_. at_slot (if origin_physical origin then M' else M) idx s3 ?u) s3" if want
      using at_slot_mod [OF at_slot_init [OF inv3 nth [symmetric]], of p "if origin_physical origin then M' else M"
          "\<lambda>t. t\<lparr>it_reference_count := it_reference_count t + 1\<rparr>"] s3 own that
      by (auto simp: table_mapping_def new_def)
    have out: "?Q (UACPI_STATUS_OK, Some \<lparr>tb_ptr = virt, tb_index = idx\<rparr>) s4"
      if "at_slot (if origin_physical origin then M' else M) idx s3 ?u s4" want for s4
      using that app3 s3 fresh(2) s1(2) by (auto simp: at_slot_def out_ok_def appends_def same_setup_def keeps_slots_def new_def)
    show "kpost (if \<not> want then kret (UACPI_STATUS_OK, None)
         else kseq (tbl_mod p (\<lambda>t. t\<lparr>it_reference_count := it_reference_count t + 1\<rparr>))
           (kret (UACPI_STATUS_OK, Some \<lparr>tb_ptr = virt, tb_index = idx\<rparr>))) ?Q s3"
      using inv3 app3 by (intro kpost_if kpost_seq [OF inc]) (use out in \<open>simp_all only: kpost_kret not_not, simp\<close>)
  qed
  have rest: "kpost (kbind (table_alloc host) (\<lambda>(ret, p, idx). if ret \<noteq> UACPI_STATUS_OK then kret (ret, None)
       else kseq (tbl_put p (new fl)) (if \<not> want then kret (UACPI_STATUS_OK, None)
         else kseq (tbl_mod p (\<lambda>t. t\<lparr>it_reference_count := it_reference_count t + 1\<rparr>))
           (kret (UACPI_STATUS_OK, Some \<lparr>tb_ptr = virt, tb_index = idx\<rparr>))))) ?Q s1"
    if s1: "tables_inv M s1" "appends s s1" for fl s1
    by (rule kpost_bind [OF table_alloc_post [OF host s1(1)]], rule kpost_split, rule kpost_split, rule kpost_if)
      (use s1 appends_trans [OF s1(2)] in simp, rule store [OF s1], simp_all)
  have rev: "tables_inv M (is_rev1_update g s1) \<and> appends s (is_rev1_update g s1)" if "tables_inv M s1 \<and> appends s s1" for g s1
    using that by (simp add: tables_inv_def appends_def same_setup_def)
  show ?thesis unfolding verify_and_install_table_def new_def [symmetric]
    by (rule kpost_bind [OF verify_table_post [OF inst inv]], rule kpost_split, rule kpost_if, simp,
        rule kpost_seq [where P = "\<lambda>_ s'. tables_inv M s' \<and> appends s s'"])
      (use rev in \<open>simp add: kpost_kif\<close>, elim conjE, rule rest)
qed

definition handled :: "(u64 \<times> u64) multiset \<Rightarrow> tables_state \<Rightarrow> install_result option \<Rightarrow> tables_state \<Rightarrow> bool" where
  "handled M s c s' \<longleftrightarrow> tables_inv M s' \<and> appends s s' \<and> (\<forall>r. c = Some r \<longrightarrow> fst r \<noteq> UACPI_STATUS_OK \<and> out_ok r s')"

lemma consult_handler_post:
  assumes inst: "inst_ok inst" and virt: "inst_virt_ok inst_virt" and inv: "tables_inv M s"
  shows "kpost (consult_handler inst inst_virt v want) (handled M s) s"
proof -
  have ne: "UACPI_STATUS_DENIED \<noteq> UACPI_STATUS_OK" "UACPI_STATUS_OVERRIDDEN \<noteq> UACPI_STATUS_OK" "UACPI_STATUS_INTERNAL_ERROR \<noteq> UACPI_STATUS_OK"
    by (simp_all add: status_defs)
  have ov: "kpost (handle_table_override inst inst_virt d a want) (install_post M s) s1" if "tables_inv M s1" "appends s s1" for d a s1
  proof -
    have "kpost (inst a UACPI_TABLE_ORIGIN_HOST_PHYSICAL None want) (install_post M s1) s1"
        "kpost (inst_virt a UACPI_TABLE_ORIGIN_HOST_VIRTUAL want) (install_post M s1) s1"
      using inst virt that(1) by (simp_all add: inst_ok_def inst_virt_ok_def)
    moreover have "install_post M s1 (UACPI_STATUS_INTERNAL_ERROR, None) s1" using that by (simp add: install_post_def)
    ultimately have "kpost (handle_table_override inst inst_virt d a want) (install_post M s1) s1"
      by (simp add: handle_table_override_def)
    then show ?thesis by (rule kpost_mono) (use that(2) in \<open>auto simp: install_post_def elim: appends_trans\<close>)
  qed
  let ?s = "host_calls_update Suc s"
  have s1: "tables_inv M ?s" "appends s ?s" using inv by (simp_all add: tables_inv_def appends_def same_setup_def)
  have "kpost (kbind (handle_table_override inst inst_virt d a want) (\<lambda>(ret, tb).
         kret (Some (if ret = UACPI_STATUS_OK then UACPI_STATUS_OVERRIDDEN else ret, tb)))) (handled M s) ?s" for d a
    by (rule kpost_bind [OF ov [OF s1]], rule kpost_split) (use ne in \<open>auto simp: handled_def install_post_def out_ok_def\<close>)
  then show ?thesis using inv s1 ne
    by (auto simp: consult_handler_def host_call_def kpost_kbind kpost_kseq handled_def split: option.splits prod.splits)
qed

lemma install_virtual_body_post:
  assumes inst: "inst_ok inst" and virt: "inst_virt_ok inst_virt" and host: "host_allocs host"
  shows "inst_virt_ok (install_virtual_body inst inst_virt host)"
  unfolding inst_virt_ok_def
proof (intro allI impI)
  fix v origin want M s assume inv: "tables_inv M s" and o: "\<not> origin_physical origin"
  have c: "kpost (if origin = UACPI_TABLE_ORIGIN_FIRMWARE_VIRTUAL then consult_handler inst inst_virt v want else kret None) (handled M s) s"
    using consult_handler_post [OF inst virt inv] inv by (simp add: handled_def)
  have go: "kpost (verify_and_install_table inst host hdr 0 v origin want) (install_post M s) s1" if "tables_inv M s1" "appends s s1" for hdr s1
    by (rule kpost_mono [OF verify_and_install_post [OF inst host that(1), where M' = M]])
      (use o in \<open>auto simp: install_post_def intro: appends_trans [OF that(2)]\<close>)
  show "kpost (install_virtual_body inst inst_virt host v origin want) (install_post M s) s"
    unfolding install_virtual_body_def Let_def
    apply (rule kpost_if, use inv in \<open>simp add: install_post_def\<close>)
    apply (rule kpost_bind [OF c])
    apply (auto simp: handled_def split: option.splits intro: go)
    apply (simp add: install_post_def)
    done
qed

lemma install_physical_body_post:
  assumes inst: "inst_ok inst" and virt: "inst_virt_ok inst_virt" and host: "host_allocs host"
  shows "inst_ok (install_physical_body inst inst_virt host)"
  unfolding inst_ok_def
proof (intro allI impI)
  fix ph origin sg want M s assume inv: "tables_inv M s" and o: "origin_physical origin"
  let ?I = "\<lambda>M s'. tables_inv M s' \<and> appends s s'"
  have header: "kpost (get_external_table_header host ph) (\<lambda>_. ?I M) s"
    unfolding get_external_table_header_def Let_def
    by (rule kpost_bind [OF kernel_map_post [OF inv]], rule kpost_if, use inv in \<open>simp add: appends_same\<close>,
        rule kpost_seq [OF kernel_unmap_post], auto intro: appends_same [OF keeps_slots_trans])
  have sgn: "kpost (case sg of None \<Rightarrow> kret UACPI_STATUS_OK | Some e \<Rightarrow> uacpi_check_table_signature hdr e) (\<lambda>_. ?I M) s1" if "?I M s1" for hdr s1
    using that by (auto simp: uacpi_check_table_signature_def check_flag_def kpost_kbind split: option.splits)
  let ?M = "\<lambda>v hdr. if v = 0 then M else add_mset (v, sdt_len hdr) M"
  have map: "kpost (if need then kernel_map host ph (sdt_len hdr) else kret 0) (\<lambda>v. ?I (?M v hdr)) s1" if "?I M s1" for hdr s1 need
    using that by (auto intro!: kpost_mono [OF kernel_map_post] elim: appends_trans [OF _ appends_same])
  have con: "kpost (if origin = UACPI_TABLE_ORIGIN_FIRMWARE_PHYSICAL then consult_handler inst inst_virt v want else kret None)
      (handled M1 s) s1" if "?I M1 s1" for v s1 M1
    using consult_handler_post [OF inst virt, of M1 s1 v want] that
    by (auto simp: handled_def elim!: kpost_mono intro: appends_trans)
  have fin: "kpost (if ret = UACPI_STATUS_OK \<and> want then kret (ret, tb)
     else kseq (kif (v \<noteq> 0) (kernel_unmap v (sdt_len hdr))) (kret (UACPI_STATUS_OK, tb))) (install_post M s) s1"
    if "tables_inv (if ret = UACPI_STATUS_OK \<and> want then M else ?M v hdr) s1" "appends s s1" "out_ok (ret, tb) s1" for ret tb v hdr s1
  proof (cases "ret = UACPI_STATUS_OK \<and> want")
    case True
    then show ?thesis using that by (simp add: install_post_def)
  next
    case False
    have "kpost (kernel_unmap v (sdt_len hdr)) (\<lambda>_. install_post M s (UACPI_STATUS_OK, tb)) s1" if v: "v \<noteq> 0"
    proof (rule kpost_mono [OF kernel_unmap_post])
      show "tables_inv (add_mset (v, sdt_len hdr) M) s1" using \<open>tables_inv _ s1\<close> v False by auto
      fix s2 assume "tables_inv M s2 \<and> keeps_slots s1 s2 \<and> tables s2 = tables s1"
      then show "install_post M s (UACPI_STATUS_OK, tb) s2"
        using \<open>appends s s1\<close> \<open>out_ok (ret, tb) s1\<close> appends_trans appends_same by (auto simp: install_post_def out_ok_def)
    qed
    moreover have "install_post M s (UACPI_STATUS_OK, tb) s1" if "v = 0"
      using \<open>tables_inv _ s1\<close> \<open>appends s s1\<close> \<open>out_ok (ret, tb) s1\<close> that by (auto simp: install_post_def out_ok_def split: if_splits)
    ultimately show ?thesis using False by (auto simp: kpost_kseq kpost_kif)
  qed
  have cont: "kpost (case c of Some r \<Rightarrow> kret r | None \<Rightarrow> verify_and_install_table inst host hdr ph v origin want)
      (\<lambda>r s2. tables_inv (if fst r = UACPI_STATUS_OK \<and> want then M else ?M v hdr) s2 \<and> appends s s2 \<and> out_ok r s2) s1"
    if "handled (?M v hdr) s c s1" "want \<longrightarrow> v \<noteq> 0" for c v hdr s1
  proof (cases c)
    case None
    have s1: "tables_inv (?M v hdr) s1" "appends s s1" using that(1) by (simp_all add: handled_def)
    show ?thesis unfolding None option.case
      by (rule kpost_mono [OF verify_and_install_post [OF inst host s1(1), where M' = M]])
        (use that(2) o in \<open>auto intro: appends_trans [OF s1(2)] split: if_splits\<close>)
  next
    case (Some r)
    then show ?thesis using that(1) by (simp add: handled_def)
  qed
  show "kpost (install_physical_body inst inst_virt host ph origin sg want) (install_post M s) s"
    unfolding install_physical_body_def
    apply (rule kpost_bind [OF header], rule kpost_split, rule kpost_if, simp add: install_post_def)
    apply (rule kpost_if, simp add: install_post_def)
    apply (rule kpost_bind [OF sgn], assumption, rule kpost_if, simp add: install_post_def)
    apply (rule kpost_bind [where P = "\<lambda>need s1. ?I M s1 \<and> (want \<longrightarrow> need)"], simp)
    apply (rule kpost_bind [OF map], simp, rule kpost_if, simp add: install_post_def)
    apply (rule kpost_bind [OF con], assumption, rule kpost_bind [OF cont], assumption, blast)
    apply (rule kpost_split, rule fin, simp_all)
    done
qed

lemma install_unlocked_ok:
  assumes "host_allocs host"
  shows "inst_ok (table_install_physical_with_origin_unlocked depth host) \<and> inst_virt_ok (table_install_with_origin_unlocked depth host)"
proof (induction depth)
  case 0
  show ?case by (simp add: inst_ok_def inst_virt_ok_def)
next
  case (Suc depth)
  have "table_install_physical_with_origin_unlocked (Suc depth) host
      = install_physical_body (table_install_physical_with_origin_unlocked depth host) (table_install_with_origin_unlocked depth host) host"
    "table_install_with_origin_unlocked (Suc depth) host
      = install_virtual_body (table_install_physical_with_origin_unlocked depth host) (table_install_with_origin_unlocked depth host) host"
    by (intro ext, simp)+
  then show ?case using Suc install_physical_body_post install_virtual_body_post assms by simp
qed

section \<open>Operations\<close>

text \<open>Code that keeps the invariant from every state and does nothing undefined.\<close>

definition table_safe :: "'a tkern \<Rightarrow> bool" where
  "table_safe f \<longleftrightarrow> (\<forall>M s. tables_inv M s \<longrightarrow> kpost f (\<lambda>_. tables_inv M) s)"

named_theorems table_safe_intros

lemma table_safe_kret [table_safe_intros]: "table_safe (kret x)"
  by (simp add: table_safe_def)

lemma table_safe_kget [table_safe_intros]: "table_safe (kget f)"
  by (simp add: table_safe_def)

lemma table_safe_kmod [table_safe_intros]: "(\<And>s. tables (f s) = tables s) \<Longrightarrow> (\<And>s. mapped (f s) = mapped s) \<Longrightarrow> table_safe (kmod f)"
  by (simp add: table_safe_def tables_inv_def)

lemma table_safe_kbind [table_safe_intros]: "table_safe f \<Longrightarrow> (\<And>x. table_safe (g x)) \<Longrightarrow> table_safe (kbind f g)"
  unfolding table_safe_def by (intro allI impI, rule kpost_bind [where P = "\<lambda>_. tables_inv _"]) auto

lemma table_safe_kseq [table_safe_intros]: "table_safe f \<Longrightarrow> table_safe g \<Longrightarrow> table_safe (kseq f g)"
  by (simp add: kseq_def table_safe_kbind)

lemma table_safe_if [table_safe_intros]: "(c \<Longrightarrow> table_safe f) \<Longrightarrow> (\<not> c \<Longrightarrow> table_safe g) \<Longrightarrow> table_safe (if c then f else g)"
  by simp

lemma table_safe_kif [table_safe_intros]: "(c \<Longrightarrow> table_safe f) \<Longrightarrow> table_safe (kif c f)"
  by (simp add: kif_def table_safe_kret)

lemma table_safe_split [table_safe_intros]: "(\<And>a b. table_safe (f a b)) \<Longrightarrow> table_safe (case x of (a, b) \<Rightarrow> f a b)"
  by (simp split: prod.splits)

lemma table_safe_Diverge [table_safe_intros]: "table_safe (\<lambda>_. Diverge)"
  by (simp add: table_safe_def)

lemma table_safe_host_call [table_safe_intros]: "table_safe (host_call f)"
  unfolding host_call_def by (intro table_safe_intros) simp_all

lemma table_safe_acquire [table_safe_intros]: "table_safe (acquire_table_mutex host)"
  unfolding acquire_table_mutex_def by (intro table_safe_intros) simp_all

lemma table_safe_release [table_safe_intros]: "table_safe release_table_mutex"
  unfolding release_table_mutex_def by (intro table_safe_intros) simp_all

lemma table_safe_ensure [table_safe_intros]: "table_safe f \<Longrightarrow> table_safe (ensure_subsystem e f)"
  unfolding ensure_subsystem_def by (intro table_safe_intros)

lemma table_safe_check_flag [table_safe_intros]: "table_safe (check_flag f)"
  unfolding check_flag_def by (intro table_safe_intros)

lemma table_safe_checksum [table_safe_intros]: "table_safe (uacpi_verify_table_checksum host p n)"
  unfolding uacpi_verify_table_checksum_def by (intro table_safe_intros)

lemma table_safe_signature [table_safe_intros]: "table_safe (uacpi_check_table_signature a b)"
  unfolding uacpi_check_table_signature_def by (intro table_safe_intros)

lemma install_post_inv: "install_post M s r s' \<Longrightarrow> tables_inv M s'"
  by (simp add: install_post_def)

lemma table_safe_install_physical:
  "host_allocs host \<Longrightarrow> origin_physical origin \<Longrightarrow> table_safe (table_install_physical_with_origin_unlocked depth host ph origin sg want)"
  unfolding table_safe_def
proof (intro allI impI)
  fix M s assume "host_allocs host" "origin_physical origin" "tables_inv M s"
  then have "kpost (table_install_physical_with_origin_unlocked depth host ph origin sg want) (install_post M s) s"
    using install_unlocked_ok [of host depth] by (simp add: inst_ok_def)
  then show "kpost (table_install_physical_with_origin_unlocked depth host ph origin sg want) (\<lambda>_. tables_inv M) s"
    by (rule kpost_mono) (rule install_post_inv)
qed

lemma table_safe_install_virtual:
  "host_allocs host \<Longrightarrow> \<not> origin_physical origin \<Longrightarrow> table_safe (table_install_with_origin_unlocked depth host v origin want)"
  unfolding table_safe_def
proof (intro allI impI)
  fix M s assume "host_allocs host" "\<not> origin_physical origin" "tables_inv M s"
  then have "kpost (table_install_with_origin_unlocked depth host v origin want) (install_post M s) s"
    using install_unlocked_ok [of host depth] by (simp add: inst_virt_ok_def)
  then show "kpost (table_install_with_origin_unlocked depth host v origin want) (\<lambda>_. tables_inv M) s"
    by (rule kpost_mono) (rule install_post_inv)
qed

lemma table_safe_installs [table_safe_intros]:
  assumes "host_allocs host"
  shows "origin_physical origin \<Longrightarrow> table_safe (uacpi_table_install_physical_with_origin depth host ph origin want)"
    and "\<not> origin_physical origin \<Longrightarrow> table_safe (uacpi_table_install_with_origin depth host v origin want)"
    and "table_safe (uacpi_table_install depth host v want)"
    and "table_safe (uacpi_table_install_physical depth host ph want)"
  unfolding uacpi_table_install_physical_def uacpi_table_install_def uacpi_table_install_physical_with_origin_def
    uacpi_table_install_with_origin_def
  by (intro table_safe_intros table_safe_install_physical table_safe_install_virtual assms; simp)+

lemma table_safe_set_handler [table_safe_intros]: "table_safe (uacpi_set_table_installation_handler host h)"
  unfolding uacpi_set_table_installation_handler_def by (intro table_safe_intros) simp_all

text \<open>Code that works on one element.\<close>

definition slot_safe :: "(da_slot \<Rightarrow> 'a tkern) \<Rightarrow> bool" where
  "slot_safe f \<longleftrightarrow> (\<forall>M s i p. tables_inv M s \<longrightarrow> da_at (tables s) i = Some p \<longrightarrow>
     kpost (f p) (\<lambda>_ s'. tables_inv M s' \<and> keeps_slots s s') s)"

lemma slot_safe_bind:
  "slot_safe f \<Longrightarrow> (\<And>x. slot_safe (\<lambda>p. g p x)) \<Longrightarrow> slot_safe (\<lambda>p. kbind (f p) (g p))"
  unfolding slot_safe_def
  apply (intro allI impI, rule kpost_bind, blast)
  apply (elim conjE)
  subgoal premises prems for M s i p x s'
  proof -
    have "da_at (tables s') i = Some p" using prems(4,6) by (simp add: keeps_slots_def)
    with prems(2) [rule_format, of M s' i p x] prems(5,6) show ?thesis
      by (auto elim!: kpost_mono intro: keeps_slots_trans)
  qed
  done

lemma slot_safe_const: "(\<And>s. kpost f (\<lambda>_ s'. s' = s) s) \<Longrightarrow> slot_safe (\<lambda>_. f)"
  unfolding slot_safe_def by (metis (mono_tags, lifting) keeps_slots_refl kpost_mono)

lemma slot_safe_basic [intro]:
  "slot_safe (\<lambda>_. kret x)" "slot_safe tbl_get" "slot_safe (table_ref_unlocked host)" "slot_safe table_unref_unlocked"
  subgoal by (rule slot_safe_const) simp
  subgoal by (auto simp: slot_safe_def intro!: kpost_mono [OF tbl_get_post])
  subgoal by (auto simp: slot_safe_def ref_post_def intro!: kpost_mono [OF table_ref_unlocked_post])
  subgoal by (auto simp: slot_safe_def at_slot_def intro!: kpost_mono [OF table_unref_unlocked_post])
  done

lemma slot_safe_flags: "slot_safe (\<lambda>p. tbl_mod p (\<lambda>t. t\<lparr>it_flags := f (it_flags t)\<rparr>))"
  by (auto simp: slot_safe_def table_mapping_def intro!: kpost_mono [OF tbl_mod_post])

lemma slot_safe_if: "(c \<Longrightarrow> slot_safe f) \<Longrightarrow> (\<not> c \<Longrightarrow> slot_safe g) \<Longrightarrow> slot_safe (\<lambda>p. if c then f p else g p)"
  by (cases c) simp_all

lemma slot_safe_kseq: "slot_safe f \<Longrightarrow> slot_safe g \<Longrightarrow> slot_safe (\<lambda>p. kseq (f p) (g p))"
  by (simp add: kseq_def slot_safe_bind)

lemma slot_safe_split: "(\<And>a b. slot_safe (\<lambda>p. f p a b)) \<Longrightarrow> slot_safe (\<lambda>p. case x of (a, b) \<Rightarrow> f p a b)"
  by (cases x) simp

lemma slot_safe_kif: "slot_safe f \<Longrightarrow> slot_safe (\<lambda>p. kif c (f p))"
  by (auto simp: kif_def intro: slot_safe_if)

lemmas slot_safe_intros = slot_safe_bind slot_safe_kseq slot_safe_if slot_safe_kif slot_safe_split slot_safe_basic slot_safe_flags

lemma slot_safe_ctl: "slot_safe (\<lambda>p. table_ctl_apply host p req)"
  unfolding table_ctl_apply_def by (intro slot_safe_intros)

lemma slot_safe_search: "slot_safe (\<lambda>p. do_search_tables host ctx p idx)"
  unfolding do_search_tables_def by (intro slot_safe_intros)

lemma table_safe_at:
  assumes "slot_safe f" "\<And>x. table_safe (g x)" "idx < n"
  shows "tables_inv M s \<Longrightarrow> n = da_size (tables s) \<Longrightarrow> kpost (kbind (table_array_at idx) (\<lambda>p. kbind (f p) (\<lambda>x. g x))) (\<lambda>_. tables_inv M) s"
proof -
  assume inv: "tables_inv M s" and n: "n = da_size (tables s)"
  obtain p where p: "da_at (tables s) idx = Some p"
    using da_at_read(1) [of "tables s" idx] inv n assms(3) by (cases "da_at (tables s) idx") (auto simp: tables_inv_def)
  have "kpost (f p) (\<lambda>_ s'. tables_inv M s' \<and> keeps_slots s s') s" using assms(1) inv p by (simp add: slot_safe_def)
  then have "kpost (kbind (f p) (\<lambda>x. g x)) (\<lambda>_. tables_inv M) s"
    by (rule kpost_bind) (use assms(2) in \<open>auto simp: table_safe_def\<close>)
  then show ?thesis by (simp add: kpost_def kbind_def table_array_at_def p)
qed

lemma table_safe_ctl [table_safe_intros]: "table_safe (table_ctl host idx req)"
proof -
  have body: "kpost (kbind (table_array_at idx) (\<lambda>tbl. kbind (tbl_get tbl) (\<lambda>t.
          if it_flags t AND UACPI_TABLE_INVALID \<noteq> 0 then kret (UACPI_STATUS_INVALID_ARGUMENT, rq_out_tbl req)
          else kbind (table_ctl_apply host tbl req) (\<lambda>r. kseq release_table_mutex (kret r))))) (\<lambda>_. tables_inv M) s"
    if "tables_inv M s" "\<not> da_size (tables s) \<le> idx" for M s
  proof -
    have "slot_safe (\<lambda>tbl. kbind (tbl_get tbl) (\<lambda>t. if it_flags t AND UACPI_TABLE_INVALID \<noteq> 0
        then kret (Inl (UACPI_STATUS_INVALID_ARGUMENT, rq_out_tbl req)) else kbind (table_ctl_apply host tbl req) (\<lambda>r. kret (Inr r))))"
      by (intro slot_safe_intros slot_safe_ctl)
    then have "kpost (kbind (table_array_at idx) (\<lambda>tbl. kbind (kbind (tbl_get tbl) (\<lambda>t. if it_flags t AND UACPI_TABLE_INVALID \<noteq> 0
        then kret (Inl (UACPI_STATUS_INVALID_ARGUMENT, rq_out_tbl req)) else kbind (table_ctl_apply host tbl req) (\<lambda>r. kret (Inr r))))
        (\<lambda>x. case x of Inl r \<Rightarrow> kret r | Inr r \<Rightarrow> kseq release_table_mutex (kret r)))) (\<lambda>_. tables_inv M) s"
      using that by (intro table_safe_at [of _ _ _ "da_size (tables s)"]) (auto intro!: table_safe_intros split: sum.split)
    then show ?thesis by (simp only: kbind_assoc if_distrib [of "\<lambda>f. kbind f _"] kbind_kret sum.case)
  qed
  have inner: "kpost (kbind (kget (\<lambda>s. da_size (tables s))) (\<lambda>n.
        if n \<le> idx then kseq release_table_mutex (kret (UACPI_STATUS_INVALID_ARGUMENT, rq_out_tbl req))
        else kbind (table_array_at idx) (\<lambda>tbl. kbind (tbl_get tbl) (\<lambda>t.
          if it_flags t AND UACPI_TABLE_INVALID \<noteq> 0 then kret (UACPI_STATUS_INVALID_ARGUMENT, rq_out_tbl req)
          else kbind (table_ctl_apply host tbl req) (\<lambda>r. kseq release_table_mutex (kret r)))))) (\<lambda>_. tables_inv M) s"
    if "tables_inv M s" for M s
    using body [OF that] table_safe_release that by (simp add: kpost_kbind kpost_kseq table_safe_def)
  show ?thesis unfolding table_ctl_def
    by (rule table_safe_ensure, rule table_safe_kbind [OF table_safe_acquire], rule table_safe_if, rule table_safe_kret)
      (use inner in \<open>simp only: table_safe_def, blast\<close>)
qed

lemma table_safe_for_each:
  assumes "\<And>u i. slot_safe (\<lambda>p. cb u p i)"
  shows "table_safe (uacpi_for_each_table host base cb u)"
proof -
  have round: "kpost (for_each_round cb x) (\<lambda>r s'. case r of Inl x' \<Rightarrow> tables_inv M s' | Inr a \<Rightarrow> tables_inv M s') s"
    if "tables_inv M s" for M s x
  proof -
    obtain idx user where x: "x = (idx, user)" by fastforce
    have "slot_safe (\<lambda>tbl. kbind (tbl_get tbl) (\<lambda>t. if it_flags t AND UACPI_TABLE_INVALID \<noteq> 0 then kret (Inl (idx + 1, user))
       else kbind (cb user tbl idx) (\<lambda>(user, stop). kret (if stop then Inr user else Inl (idx + 1, user)))))"
      by (intro slot_safe_intros assms)
    then have "kpost (kbind (table_array_at idx) (\<lambda>tbl. kbind (kbind (tbl_get tbl) (\<lambda>t. if it_flags t AND UACPI_TABLE_INVALID \<noteq> 0 then kret (Inl (idx + 1, user))
       else kbind (cb user tbl idx) (\<lambda>(user, stop). kret (if stop then Inr user else Inl (idx + 1, user))))) kret)) (\<lambda>_. tables_inv M) s"
      if "idx < da_size (tables s)"
      using \<open>tables_inv M s\<close> that by (intro table_safe_at [of _ _ _ "da_size (tables s)"]) (auto intro!: table_safe_intros)
    then show ?thesis using that
      by (auto simp: x for_each_round_def kpost_kbind sum.case_eq_if)
  qed
  have "table_safe (kloop (for_each_round cb) x)" for x
    unfolding table_safe_def using round by (intro allI impI, rule kpost_kloop [where I = "\<lambda>_. tables_inv _"])
  then show ?thesis unfolding uacpi_for_each_table_def by (intro table_safe_intros)
qed

lemma table_safe_searches [table_safe_intros]:
  "table_safe (search_tables host base sr)" "table_safe (uacpi_table_match host base cb)" "table_safe (find_table host base i)"
  "table_safe (uacpi_table_find_by_signature host sg)" "table_safe (uacpi_table_find host i)"
  unfolding uacpi_table_match_def find_table_def uacpi_table_find_by_signature_def uacpi_table_find_def search_tables_def
  by (intro table_safe_intros table_safe_for_each slot_safe_search)+

lemma table_safe_table_ops [table_safe_intros]:
  "table_safe (uacpi_table_mark_as_loaded host idx)" "table_safe (uacpi_table_ref host tbl)" "table_safe (uacpi_table_unref host tbl)"
  "table_safe (uacpi_table_find_next_with_same_signature host tbl)" "table_safe uacpi_table_fadt"
  unfolding uacpi_table_mark_as_loaded_def uacpi_table_ref_def uacpi_table_unref_def uacpi_table_find_next_with_same_signature_def
    uacpi_table_fadt_def
  by (intro table_safe_intros)+

lemma table_safe_load:
  assumes "\<And>p c. table_safe (execute p c)"
  shows "table_safe (uacpi_table_load_with_cause host execute idx cause)" "table_safe (uacpi_table_load host execute idx)"
  unfolding uacpi_table_load_def uacpi_table_load_with_cause_def Let_def by (intro table_safe_intros assms)+

section \<open>Start-up and shut-down\<close>

text \<open>A mapping that is made, used and removed again.\<close>

lemma kpost_unmap_then:
  assumes "tables_inv (add_mset (p, len) M) s" "table_safe f"
  shows "kpost (kseq (kernel_unmap p len) f) (\<lambda>_. tables_inv M) s"
  by (rule kpost_seq [OF kernel_unmap_post [OF assms(1)]]) (use assms(2) in \<open>simp add: table_safe_def\<close>)

lemma table_safe_bracket:
  assumes "\<And>p. table_safe (f p)" "\<And>p x. table_safe (g p x)"
  shows "table_safe (kbind (kernel_map host a len) (\<lambda>p. if p = 0 then kret e else kbind (f p) (\<lambda>x. kseq (kernel_unmap p len) (g p x))))"
  unfolding table_safe_def
proof (intro allI impI, rule kpost_bind [OF kernel_map_post], assumption, rule kpost_if)
  fix M s p s' assume "tables_inv (if p = 0 then M else add_mset (p, len) M) s' \<and> keeps_slots s s' \<and> tables s' = tables s" "p = 0"
  then show "kpost (kret e) (\<lambda>_. tables_inv M) s'" by simp
next
  fix M s p s' assume "tables_inv (if p = 0 then M else add_mset (p, len) M) s' \<and> keeps_slots s s' \<and> tables s' = tables s" "p \<noteq> 0"
  then have "kpost (f p) (\<lambda>_. tables_inv (add_mset (p, len) M)) s'" using assms(1) by (simp add: table_safe_def)
  then show "kpost (kbind (f p) (\<lambda>x. kseq (kernel_unmap p len) (g p x))) (\<lambda>_. tables_inv M) s'"
    by (rule kpost_bind) (rule kpost_unmap_then [OF _ assms(2)])
qed

lemma table_safe_entries: "(\<And>e. table_safe (inst e)) \<Longrightarrow> table_safe (install_entries inst es)"
  by (induction es) (auto intro!: table_safe_intros)

lemma table_safe_install_from_rxsdt:
  assumes "host_allocs host"
  shows "table_safe (install_from_rxsdt depth host a len es)"
proof -
  let ?eb = "(len - sdt_hdr_size) AND NOT (es - 1)"
  let ?f = "\<lambda>p. kbind (uacpi_verify_table_checksum host p len) (\<lambda>ret. if ret \<noteq> UACPI_STATUS_OK then kret ret
     else install_entries (\<lambda>e. kbind (uacpi_table_install_physical_with_origin depth host e UACPI_TABLE_ORIGIN_FIRMWARE_PHYSICAL False) (\<lambda>(ret, _). kret ret))
       (rxsdt_entries (bytes_at (th_mem host) (p + sdt_hdr_size) (unat ?eb)) (unat ?eb) (unat es)))"
  have "table_safe (kbind (kernel_map host a len) (\<lambda>p. if p = 0 then kret UACPI_STATUS_MAPPING_FAILED
      else kbind (?f p) (\<lambda>x. kseq (kernel_unmap p len) (kret x))))"
    by (intro table_safe_bracket table_safe_intros table_safe_entries assms) simp
  then show ?thesis unfolding install_from_rxsdt_def Let_def kbind_assoc .
qed

lemma table_safe_initialize_from_rxsdt:
  assumes "host_allocs host"
  shows "table_safe (initialize_from_rxsdt depth host a es)"
  unfolding initialize_from_rxsdt_def Let_def
  by (intro table_safe_bracket table_safe_intros table_safe_install_from_rxsdt assms)

lemma table_safe_initialize_from_rsdp:
  assumes "host_allocs host"
  shows "table_safe (initialize_from_rsdp depth host)"
proof -
  obtain ret ph where r: "th_get_rsdp host = (ret, ph)" by fastforce
  show ?thesis unfolding initialize_from_rsdp_def r Let_def prod.case
    unfolding split_beta
    by (rule table_safe_kseq, intro table_safe_intros, simp, simp)
      (intro table_safe_if table_safe_kret table_safe_bracket table_safe_check_flag table_safe_initialize_from_rxsdt assms)
qed

lemma table_safe_install_facs: "host_allocs host \<Longrightarrow> table_safe (install_facs depth host junk)"
  unfolding install_facs_def by (intro table_safe_intros table_safe_install_physical) simp_all

text \<open>Leaving the temporary buffer keeps the elements.\<close>

lemma table_safe_leave_buffer:
  assumes "host_allocs host"
  shows "table_safe (leave_temporary_buffer host)"
  unfolding table_safe_def
proof (intro allI impI)
  fix M s assume inv: "tables_inv M s"
  define n where "n = da_size (tables s) - da_inline_capacity (tables s)"
  have big: "da_inv (tables s\<lparr>dynamic_storage := map_option (take n) (dynamic_storage (tables s)), dynamic_capacity := n\<rparr>)"
      "da_list (tables s\<lparr>dynamic_storage := map_option (take n) (dynamic_storage (tables s)), dynamic_capacity := n\<rparr>) = da_list (tables s)"
    if "da_size (tables s) > da_inline_capacity (tables s)"
    using inv that by (auto simp: tables_inv_def da_defs da_list_def da_size_def n_def split: option.splits)
  have small: "da_inv (tables s\<lparr>dynamic_storage := None, dynamic_capacity := 0\<rparr>)"
      "da_list (tables s\<lparr>dynamic_storage := None, dynamic_capacity := 0\<rparr>) = da_list (tables s)"
    if "\<not> da_size (tables s) > da_inline_capacity (tables s)"
    using inv that by (auto simp: tables_inv_def da_defs da_list_def da_size_def split: option.splits)
  show "kpost (leave_temporary_buffer host) (\<lambda>_. tables_inv M) s"
    unfolding leave_temporary_buffer_def host_call_def using inv big small
    by (auto simp: kpost_kbind kpost_kseq Let_def tables_inv_def n_def split: option.splits)
qed

lemma table_safe_initialize:
  assumes "host_allocs host"
  shows "table_safe (uacpi_initialize_tables depth host junk)"
proof -
  have "table_safe (uacpi_for_each_table host 0 (\<lambda>user _ _. kret (user, False)) ())"
    by (intro table_safe_for_each slot_safe_basic)
  then show ?thesis unfolding uacpi_initialize_tables_def
    by (intro table_safe_intros table_safe_leave_buffer table_safe_initialize_from_rsdp table_safe_install_facs assms) simp_all
qed

lemma deinitialize_loop:
  assumes "da_inv (tables s)" "mset (mapped s) = M + table_mappings (drop i (da_list (tables s)))" "i + k = da_size (tables s)"
  shows "\<exists>s'. kfor [i..<i + k] deinitialize_one s = Ret () s' \<and> mset (mapped s') = M \<and> tables s' = tables s
     \<and> early_table_access s' = early_table_access s"
  using assms
proof (induction k arbitrary: i s)
  case 0
  then show ?case using da_inv_length [of "tables s"] by (simp add: table_mappings_def)
next
  case (Suc k)
  let ?t = "da_list (tables s) ! i"
  have i: "i < da_size (tables s)" and len: "length (da_list (tables s)) = da_size (tables s)"
    using Suc.prems(1,3) da_inv_length by auto
  obtain p where p: "da_at (tables s) i = Some p" "da_read (tables s) p = Some ?t"
    using da_at_read [OF Suc.prems(1), of i] i by (cases "da_at (tables s) i") auto
  have split: "mset (mapped s) = M + table_mapping ?t + table_mappings (drop (Suc i) (da_list (tables s)))"
    using Suc.prems(2) i len by (simp add: table_mappings_def Cons_nth_drop_Suc [symmetric])
  have "\<exists>s'. deinitialize_one i s = Ret () s' \<and> tables s' = tables s \<and> early_table_access s' = early_table_access s
     \<and> mset (mapped s') = M + table_mappings (drop (Suc i) (da_list (tables s)))"
  proof (cases "origin_physical (it_origin ?t) \<and> it_reference_count ?t \<noteq> 0")
    case True
    then have "(it_ptr ?t, sdt_len (it_hdr ?t)) \<in> set (mapped s)"
      using split by (metis (no_types, lifting) table_mapping_def set_mset_mset union_iff union_single_eq_member)
    with True split show ?thesis
      by (cases "it_origin ?t") (simp_all add: deinitialize_one_def kbind_def table_array_at_def p tbl_get_def kernel_unmap_def
          table_mapping_def kmod_def)
  next
    case False
    then have "mset (mapped s) = M + table_mappings (drop (Suc i) (da_list (tables s)))" using split by (auto simp: table_mapping_def)
    then show ?thesis using False
      by (cases "it_origin ?t") (simp_all add: deinitialize_one_def kbind_def table_array_at_def p tbl_get_def kif_def kmod_def)
  qed
  then obtain s1 where one: "deinitialize_one i s = Ret () s1" and s1: "tables s1 = tables s" "early_table_access s1 = early_table_access s"
      "mset (mapped s1) = M + table_mappings (drop (Suc i) (da_list (tables s)))" by blast
  have up: "[i..<i + Suc k] = i # [Suc i..<Suc i + k]" by (simp add: upt_rec)
  show ?case unfolding up kfor.simps kseq_cases(1) [of "deinitialize_one i", OF one]
    by (rule Suc.IH [of s1 "Suc i", unfolded s1(1,2)]) (use Suc.prems s1 in auto)
qed

lemma deinitialize_releases:
  assumes "tables_inv M s"
  shows "\<exists>s'. uacpi_deinitialize_tables s = Ret () s' \<and> mset (mapped s') = M \<and> da_inv (tables s') \<and> da_list (tables s') = []
     \<and> table_mutex s' = 0 \<and> installation_handler s' = None \<and> \<not> early_table_access s'"
proof -
  obtain s1 where s1: "kfor [0..<da_size (tables s)] deinitialize_one s = Ret () s1" "mset (mapped s1) = M" "tables s1 = tables s"
      "early_table_access s1 = early_table_access s"
    using deinitialize_loop [of s M 0 "da_size (tables s)"] assms by (auto simp: tables_inv_def)
  moreover have "da_inv zero_tables" "da_list zero_tables = []" "da_inv (da_clear (tables s))" "da_list (da_clear (tables s)) = []"
    using assms by (simp_all add: zero_tables_def da_defs da_list_def UACPI_STATIC_TABLE_ARRAY_LEN_def da_clear_def tables_inv_def)
  ultimately show ?thesis by (simp add: uacpi_deinitialize_tables_def kbind_def kseq_def kmod_def)
qed

lemma table_safe_deinitialize: "table_safe uacpi_deinitialize_tables"
  unfolding table_safe_def
  using deinitialize_releases by (fastforce simp: kpost_def tables_inv_def table_mappings_def)

text \<open>Early access starts with an empty array.\<close>

lemma setup_early_post:
  assumes "host_allocs host" "tables_inv M s" "da_size (tables s) = 0" "length buf = sz div sizeof_installed_table"
  shows "kpost (uacpi_setup_early_table_access depth host buf sz) (\<lambda>_. tables_inv M) s"
proof -
  let ?s = "s\<lparr>tables := tables s\<lparr>dynamic_storage := Some buf, dynamic_capacity := sz div sizeof_installed_table\<rparr>, early_table_access := True\<rparr>"
  have "tables_inv M ?s" using assms(2,3,4) by (auto simp: tables_inv_def da_defs da_list_def da_size_def)
  moreover have "table_safe (kbind (initialize_from_rsdp depth host) (\<lambda>ret. kseq (kif (ret \<noteq> UACPI_STATUS_OK) uacpi_deinitialize_tables) (kret ret)))"
    by (intro table_safe_intros table_safe_initialize_from_rsdp table_safe_deinitialize assms)
  ultimately show ?thesis using assms(2)
    unfolding uacpi_setup_early_table_access_def by (simp add: kpost_kbind kpost_kseq table_safe_def)
qed

section \<open>Reachable states\<close>

text \<open>
  The operations that the rest of the library and the host can call, in any order and with any arguments. The interpreter is
  the parameter \<open>execute\<close> of the model.
\<close>

datatype tables_op =
    OpInitialize u64 | OpDeinitialize | OpSetHandler "table_installation_handler option"
  | OpInstall u64 bool | OpInstallPhysical u64 bool
  | OpFindBySignature "u8 list" | OpFind uacpi_table_identifiers | OpFindNext uacpi_table
  | OpMatch nat "uacpi_installed_table \<Rightarrow> bool"
  | OpRef uacpi_table | OpUnref uacpi_table | OpMarkAsLoaded nat | OpLoad nat nat

definition drop_result :: "'a tkern \<Rightarrow> unit tkern" where
  "drop_result f = kseq f (kret ())"

fun run_op :: "nat \<Rightarrow> table_host \<Rightarrow> (u64 \<Rightarrow> nat \<Rightarrow> uacpi_status tkern) \<Rightarrow> tables_op \<Rightarrow> unit tkern" where
  "run_op depth host execute (OpInitialize junk) = drop_result (uacpi_initialize_tables depth host junk)"
| "run_op depth host execute OpDeinitialize = uacpi_deinitialize_tables"
| "run_op depth host execute (OpSetHandler h) = drop_result (uacpi_set_table_installation_handler host h)"
| "run_op depth host execute (OpInstall virt want) = drop_result (uacpi_table_install depth host virt want)"
| "run_op depth host execute (OpInstallPhysical ph want) = drop_result (uacpi_table_install_physical depth host ph want)"
| "run_op depth host execute (OpFindBySignature sg) = drop_result (uacpi_table_find_by_signature host sg)"
| "run_op depth host execute (OpFind i) = drop_result (uacpi_table_find host i)"
| "run_op depth host execute (OpFindNext tbl) = drop_result (uacpi_table_find_next_with_same_signature host tbl)"
| "run_op depth host execute (OpMatch base cb) = drop_result (uacpi_table_match host base cb)"
| "run_op depth host execute (OpRef tbl) = drop_result (uacpi_table_ref host tbl)"
| "run_op depth host execute (OpUnref tbl) = drop_result (uacpi_table_unref host tbl)"
| "run_op depth host execute (OpMarkAsLoaded idx) = drop_result (uacpi_table_mark_as_loaded host idx)"
| "run_op depth host execute (OpLoad idx cause) = drop_result (uacpi_table_load_with_cause host execute idx cause)"

text \<open>States reached from an empty array, with early access at most while it is empty.\<close>

inductive tables_reach :: "nat \<Rightarrow> table_host \<Rightarrow> (u64 \<Rightarrow> nat \<Rightarrow> uacpi_status tkern) \<Rightarrow> tables_state \<Rightarrow> bool"
  for depth host execute where
  start: "tables s = zero_tables \<Longrightarrow> mapped s = [] \<Longrightarrow> tables_reach depth host execute s"
| early: "tables_reach depth host execute s \<Longrightarrow> da_size (tables s) = 0 \<Longrightarrow> length buf = sz div sizeof_installed_table \<Longrightarrow>
    uacpi_setup_early_table_access depth host buf sz s = Ret ret s' \<Longrightarrow> tables_reach depth host execute s'"
| step: "tables_reach depth host execute s \<Longrightarrow> run_op depth host execute p s = Ret u s' \<Longrightarrow> tables_reach depth host execute s'"

lemma table_safe_run_op:
  assumes "host_allocs host" "\<And>p c. table_safe (execute p c)"
  shows "table_safe (run_op depth host execute p)"
  by (cases p) (auto simp: drop_result_def intro!: table_safe_intros table_safe_initialize table_safe_deinitialize table_safe_load assms)

lemma tables_reach_inv:
  assumes "tables_reach depth host execute s" "host_allocs host" "\<And>p c. table_safe (execute p c)"
  shows "tables_inv {#} s"
  using assms(1)
proof induction
  case (start s)
  then show ?case by (simp add: tables_inv_def table_mappings_def zero_tables_def da_defs da_list_def UACPI_STATIC_TABLE_ARRAY_LEN_def)
next
  case (early s buf sz ret s')
  from setup_early_post [OF assms(2) early.IH early.hyps(2,3), of depth] early.hyps(4) show ?case by (simp add: kpost_def)
next
  case (step s p u s')
  have "table_safe (run_op depth host execute p)" by (rule table_safe_run_op [OF assms(2,3)])
  with step.IH have "kpost (run_op depth host execute p) (\<lambda>_. tables_inv {#}) s" by (simp add: table_safe_def)
  with step.hyps(2) show ?case by (simp add: kpost_def)
qed

definition execute_safe :: "(u64 \<Rightarrow> nat \<Rightarrow> uacpi_status tkern) \<Rightarrow> bool" where
  "execute_safe execute \<longleftrightarrow> (\<forall>p c. table_safe (execute p c))"

text \<open>
  C32: mappings of tables are balanced. In every state that any sequence of operations reaches, with any answers of the
  host, what is mapped is exactly one mapping, of its own length, for each referenced table that came from a physical address;
  no operation removes a mapping that is not there or touches an element outside the array; and shutting down returns, with
  nothing mapped and the array empty. The interpreter, a parameter, is assumed to use tables only in this way.
\<close>

theorem table_mappings_balanced:
  assumes "host_allocs host" "execute_safe execute" "tables_reach depth host execute s"
  shows "da_inv (tables s) \<and> mset (mapped s) = table_mappings (da_list (tables s))
   \<and> run_op depth host execute p s \<noteq> Fault
   \<and> (\<exists>s'. uacpi_deinitialize_tables s = Ret () s' \<and> mapped s' = [] \<and> da_list (tables s') = [])"
proof -
  have inv: "tables_inv {#} s" using tables_reach_inv [OF assms(3,1)] assms(2) by (simp add: execute_safe_def)
  have "table_safe (run_op depth host execute p)" using table_safe_run_op [OF assms(1)] assms(2) by (simp add: execute_safe_def)
  then have "kpost (run_op depth host execute p) (\<lambda>_. tables_inv {#}) s" using inv by (simp add: table_safe_def)
  then have "run_op depth host execute p s \<noteq> Fault" by (auto simp: kpost_def)
  moreover obtain s' where "uacpi_deinitialize_tables s = Ret () s'" "mset (mapped s') = {#}" "da_list (tables s') = []"
    using deinitialize_releases [OF inv] by blast
  ultimately show ?thesis using inv by (simp add: tables_inv_def)
qed

text \<open>A host whose memory is mapped at its own address and holds an SSDT of 36 bytes at 0x1000.\<close>

definition demo_mem :: mem where
  "demo_mem a = (if a = 0x1000 then 0x53 else if a = 0x1001 then 0x53 else if a = 0x1002 then 0x44 else if a = 0x1003 then 0x54
     else if a = 0x1004 then 36 else 0)"

definition demo_host :: table_host where
  "demo_host = \<lparr>th_map = (\<lambda>_ ph _. ph), th_mem = demo_mem, th_alloc = (\<lambda>_ n. Some (replicate n zero_table)), th_create_mutex = (\<lambda>_. 1),
     th_acquire_mutex = (\<lambda>_. UACPI_STATUS_OK), th_get_rsdp = (UACPI_STATUS_OK, 0)\<rparr>"

definition demo_state :: tables_state where
  "demo_state = \<lparr>tables = zero_tables, early_table_access = False, installation_handler = None, table_mutex = 1, table_mutex_held = False,
     ts_init_level = 1, ts_flags = 0, is_rev1 = False, is_hardware_reduced = False, ts_fadt = replicate fadt_size 0, ts_blocks = no_blocks,
     ts_facs = 0, host_calls = 0, mapped = [], freed = []\<rparr>"

definition demo_execute :: "u64 \<Rightarrow> nat \<Rightarrow> uacpi_status tkern" where
  "demo_execute p c = kret UACPI_STATUS_OK"

definition demo_installed :: tables_state where
  "demo_installed = (case run_op 1 demo_host demo_execute (OpInstallPhysical 0x1000 True) demo_state of Ret _ s \<Rightarrow> s | _ \<Rightarrow> demo_state)"

theorem table_mappings_balanced_witness:
  "mapped demo_installed = [(0x1000, 36)] \<and> mset (mapped demo_installed) = table_mappings (da_list (tables demo_installed))
   \<and> (\<exists>s'. uacpi_deinitialize_tables demo_installed = Ret () s' \<and> mapped s' = [])"
proof -
  have "case run_op 1 demo_host demo_execute (OpInstallPhysical 0x1000 True) demo_state of Ret _ _ \<Rightarrow> True | _ \<Rightarrow> False" by code_simp
  then have run: "run_op 1 demo_host demo_execute (OpInstallPhysical 0x1000 True) demo_state = Ret () demo_installed"
    by (simp add: demo_installed_def split: kres.splits)
  have "tables_reach 1 demo_host demo_execute demo_state" by (rule tables_reach.start) (simp_all add: demo_state_def)
  then have reach: "tables_reach 1 demo_host demo_execute demo_installed" using run by (rule tables_reach.step)
  have "host_allocs demo_host" "execute_safe demo_execute"
    by (simp_all add: host_allocs_def alloc_sized_def demo_host_def execute_safe_def demo_execute_def table_safe_kret)
  moreover have "mapped demo_installed = [(0x1000, 36)]" by code_simp
  ultimately show ?thesis using table_mappings_balanced [OF _ _ reach] by auto
qed

end
