(* ===== verification/UacpiTablesProps.thy ===== *)
theory UacpiTablesProps
  imports UacpiTablesInv
begin

text \<open>
  What the operations on installed tables return: searches, reference counts, the statuses of an
  installation and when it ends.
\<close>

section \<open>Code that returns\<close>

text \<open>Code that neither runs forever nor halts from a state with \<open>I\<close>, and keeps \<open>I\<close>. Undefined behaviour is excluded by \<open>kpost\<close>.\<close>

definition ends :: "('s \<Rightarrow> bool) \<Rightarrow> ('s, 'a) kern \<Rightarrow> bool" where
  "ends I f \<longleftrightarrow> (\<forall>s. I s \<longrightarrow> (case f s of Ret x s' \<Rightarrow> I s' | Fault \<Rightarrow> True | _ \<Rightarrow> False))"

lemma ends_returns:
  assumes "ends I f" "I s" "kpost f Q s"
  shows "\<exists>x s'. f s = Ret x s' \<and> Q x s' \<and> I s'"
  using assms(1) [unfolded ends_def, rule_format, OF assms(2)] assms(3) by (auto simp: kpost_def split: kres.splits)

named_theorems ends_intros

lemma ends_kret [ends_intros]: "ends I (kret x)"
  by (simp add: ends_def)

lemma ends_kget [ends_intros]: "ends I (kget f)"
  by (simp add: ends_def)

lemma ends_kmod [ends_intros]: "(\<And>s. I s \<Longrightarrow> I (f s)) \<Longrightarrow> ends I (kmod f)"
  by (simp add: ends_def kmod_def)

lemma ends_kfault [ends_intros]: "ends I kfault"
  by (simp add: ends_def)

lemma ends_kbind [ends_intros]: "ends I f \<Longrightarrow> (\<And>x. ends I (g x)) \<Longrightarrow> ends I (kbind f g)"
  unfolding ends_def
proof (intro allI impI)
  fix s assume f: "\<forall>s. I s \<longrightarrow> (case f s of Ret x s' \<Rightarrow> I s' | Fault \<Rightarrow> True | _ \<Rightarrow> False)"
    and g: "\<And>x. \<forall>s. I s \<longrightarrow> (case g x s of Ret x s' \<Rightarrow> I s' | Fault \<Rightarrow> True | _ \<Rightarrow> False)" and "I s"
  with f [rule_format, of s] show "case kbind f g s of Ret x s' \<Rightarrow> I s' | Fault \<Rightarrow> True | _ \<Rightarrow> False"
    by (cases "f s") (auto simp: kbind_def)
qed

lemma ends_kseq [ends_intros]: "ends I f \<Longrightarrow> ends I g \<Longrightarrow> ends I (kseq f g)"
  by (simp add: kseq_def ends_kbind)

lemma ends_if [ends_intros]: "(c \<Longrightarrow> ends I f) \<Longrightarrow> (\<not> c \<Longrightarrow> ends I g) \<Longrightarrow> ends I (if c then f else g)"
  by simp

lemma ends_kif [ends_intros]: "(c \<Longrightarrow> ends I f) \<Longrightarrow> ends I (kif c f)"
  by (simp add: kif_def ends_kret)

lemma ends_split [ends_intros]: "(\<And>a b. x = (a, b) \<Longrightarrow> ends I (f a b)) \<Longrightarrow> ends I (case x of (a, b) \<Rightarrow> f a b)"
  by (simp split: prod.splits)

lemma ends_option [ends_intros]: "(x = None \<Longrightarrow> ends I f) \<Longrightarrow> (\<And>a. x = Some a \<Longrightarrow> ends I (g a)) \<Longrightarrow> ends I (case x of None \<Rightarrow> f | Some a \<Rightarrow> g a)"
  by (simp split: option.splits)

text \<open>What the invariants below do not look at.\<close>

definition handler_is :: "table_installation_handler option \<Rightarrow> tables_state \<Rightarrow> bool" where
  "handler_is h s \<longleftrightarrow> installation_handler s = h"

lemma ends_host [ends_intros]: "ends (handler_is h) (host_call f)"
  unfolding host_call_def by (intro ends_intros) (simp add: handler_is_def)

lemma ends_map [ends_intros]: "ends (handler_is h) (kernel_map host ph len)"
  unfolding kernel_map_def by (intro ends_intros) (simp add: handler_is_def)

lemma ends_unmap [ends_intros]: "ends (handler_is h) (kernel_unmap p len)"
  unfolding kernel_unmap_def by (intro ends_intros) (simp add: handler_is_def)

lemma ends_tbl [ends_intros]: "ends (handler_is h) (tbl_get p)" "ends (handler_is h) (tbl_put p t)" "ends (handler_is h) (tbl_mod p f)"
proof -
  show get: "ends (handler_is h) (tbl_get p)" by (simp add: ends_def tbl_get_def split: option.splits)
  have put: "ends (handler_is h) (tbl_put p t)" for t by (simp add: ends_def tbl_put_def handler_is_def split: option.splits)
  then show "ends (handler_is h) (tbl_put p t)" .
  from get put show "ends (handler_is h) (tbl_mod p f)" unfolding tbl_mod_def by (intro ends_intros)
qed

lemma ends_checks [ends_intros]:
  "ends (handler_is h) (check_flag f)" "ends (handler_is h) (uacpi_verify_table_checksum host ptr sz)"
  "ends (handler_is h) (uacpi_check_table_signature a b)"
  unfolding check_flag_def uacpi_verify_table_checksum_def uacpi_check_table_signature_def by (intro ends_intros)+

lemma ends_refs [ends_intros]:
  "ends (handler_is h) (table_ref_count p)" "ends (handler_is h) (table_ref_unlocked host p)" "ends (handler_is h) (table_unref_unlocked p)"
  unfolding table_ref_unlocked_def table_ref_map_def table_ref_count_def table_unref_unlocked_def Let_def by (intro ends_intros)+

lemma ends_release [ends_intros]: "ends (handler_is h) release_table_mutex"
  unfolding release_table_mutex_def by (intro ends_intros) (simp add: handler_is_def)

section \<open>References\<close>

text \<open>
  The host maps what it is asked to and gives the mutex. The operations are allowed and the mutex is free; where a table must not be refused for
  its sum, a bad sum is not fatal.
\<close>

definition host_works :: "table_host \<Rightarrow> bool" where
  "host_works host \<longleftrightarrow> (\<forall>n ph len. th_map host n ph len \<noteq> 0) \<and> (\<forall>n. th_acquire_mutex host n = UACPI_STATUS_OK)"

definition tables_open :: "tables_state \<Rightarrow> bool" where
  "tables_open s \<longleftrightarrow> (early_table_access s \<or> UACPI_INIT_LEVEL_SUBSYSTEM_INITIALIZED \<le> ts_init_level s)
     \<and> (table_mutex s \<noteq> 0 \<longrightarrow> \<not> table_mutex_held s)"

definition tables_ready :: "tables_state \<Rightarrow> bool" where
  "tables_ready s \<longleftrightarrow> tables_open s \<and> ts_flags s AND UACPI_FLAG_BAD_CSUM_FATAL \<noteq> UACPI_FLAG_BAD_CSUM_FATAL"

lemma checksum_not_fatal:
  assumes "ts_flags s AND UACPI_FLAG_BAD_CSUM_FATAL \<noteq> UACPI_FLAG_BAD_CSUM_FATAL"
  shows "kpost (uacpi_verify_table_checksum host ptr sz) (\<lambda>ret s'. ret = UACPI_STATUS_OK \<and> s' = s) s"
  using assms by (simp add: uacpi_verify_table_checksum_def check_flag_def kpost_kbind)

lemma table_ref_works:
  assumes inv: "tables_inv M s" and at: "da_at (tables s) i = Some p" and host: "host_works host"
    and fl: "ts_flags s AND UACPI_FLAG_BAD_CSUM_FATAL \<noteq> UACPI_FLAG_BAD_CSUM_FATAL"
    and valid: "it_flags (da_list (tables s) ! i) AND UACPI_TABLE_INVALID = 0"
  shows "\<exists>s' t'. table_ref_unlocked host p s = Ret UACPI_STATUS_OK s' \<and> at_slot M i s t' s'
     \<and> ref_outcome UACPI_STATUS_OK (da_list (tables s) ! i) t'"
proof -
  let ?ok = "\<lambda>ret s'. ret = UACPI_STATUS_OK"
  let ?t = "da_list (tables s) ! i"
  have count: "kpost (table_ref_count p) ?ok s'" if "at_slot M' i s t s'" for M' t s'
  proof -
    have at': "da_at (tables s') i = Some p" and inv': "tables_inv M' s'" using that at by (simp_all add: at_slot_def keeps_slots_def)
    have "da_write (tables s') p v \<noteq> None" for v using da_write_at [OF _ at', of v] inv' by (auto simp: tables_inv_def)
    then have "kpost (tbl_put p v) (\<lambda>_ _. True) s'" for v by (auto simp: kpost_def tbl_put_def split: option.splits)
    then show ?thesis unfolding table_ref_count_def
      by (intro kpost_bind [OF tbl_get_post [OF inv' at']]) (auto simp: kpost_kseq kpost_kif)
  qed
  have map: "kpost (table_ref_map host p ?t) ?ok s" if z: "it_reference_count ?t = 0"
    unfolding table_ref_map_def
  proof (rule kpost_bind [where P = "\<lambda>ptr s'. ptr \<noteq> 0 \<and> at_slot (add_mset (ptr, sdt_len (it_hdr ?t)) M) i s ?t s'"])
    have "kpost (kernel_map host (it_phys_addr ?t) (sdt_len (it_hdr ?t))) (\<lambda>ptr _. ptr \<noteq> 0) s"
      using host by (simp add: kernel_map_def host_call_def kpost_kbind kpost_kseq kpost_kif host_works_def)
    with at_slot_map [of M i s ?t s host "it_phys_addr ?t" "sdt_len (it_hdr ?t)"] at_slot_init [OF inv, of ?t i]
    show "kpost (kernel_map host (it_phys_addr ?t) (sdt_len (it_hdr ?t)))
        (\<lambda>ptr s'. ptr \<noteq> 0 \<and> at_slot (add_mset (ptr, sdt_len (it_hdr ?t)) M) i s ?t s') s"
      by (auto simp: kpost_def split: kres.splits)
  next
    fix ptr s1 assume s1: "ptr \<noteq> 0 \<and> at_slot (add_mset (ptr, sdt_len (it_hdr ?t)) M) i s ?t s1"
    let ?M = "add_mset (ptr, sdt_len (it_hdr ?t)) M"
    let ?u = "?t\<lparr>it_ptr := ptr\<rparr>"
    have m1: "kpost (tbl_mod p (it_ptr_update (\<lambda>_. ptr))) (\<lambda>_. at_slot ?M i s ?u) s1"
      using s1 at z by (intro at_slot_mod) auto
    have m2: "kpost (kseq (tbl_mod p (\<lambda>t. t\<lparr>it_flags := it_flags t OR UACPI_TABLE_CSUM_VERIFIED\<rparr>)) (table_ref_count p)) ?ok s2"
      if "at_slot ?M i s ?u s2" for s2
      by (rule kpost_seq [OF at_slot_mod [OF that at]]) (use z in simp, rule count)
    have ver: "kpost (uacpi_verify_table_checksum host ptr (sdt_len (it_hdr ?t))) (\<lambda>ret s'. ret = UACPI_STATUS_OK \<and> s' = s2) s2"
      if "at_slot ?M i s ?u s2" for s2
      using fl that by (intro checksum_not_fatal) (simp add: at_slot_def keeps_slots_def)
    have chk: "kpost (kbind (uacpi_verify_table_checksum host ptr (sdt_len (it_hdr ?t))) (\<lambda>ret.
          if ret \<noteq> UACPI_STATUS_OK then kseq (kernel_unmap ptr (sdt_len (it_hdr ?t)))
            (kseq (tbl_mod p (\<lambda>t. t\<lparr>it_flags := it_flags t OR UACPI_TABLE_INVALID, it_ptr := 0\<rparr>)) (kret ret))
          else kseq (tbl_mod p (\<lambda>t. t\<lparr>it_flags := it_flags t OR UACPI_TABLE_CSUM_VERIFIED\<rparr>)) (table_ref_count p))) ?ok s2"
      if "at_slot ?M i s ?u s2" for s2
      by (rule kpost_bind [OF ver [OF that]]) (use m2 [OF that] in simp)
    show "kpost (kseq (tbl_mod p (it_ptr_update (\<lambda>_. ptr)))
     (if ptr = 0 then kret UACPI_STATUS_MAPPING_FAILED
      else if it_flags ?t AND UACPI_TABLE_CSUM_VERIFIED = 0 then
        kbind (uacpi_verify_table_checksum host ptr (sdt_len (it_hdr ?t))) (\<lambda>ret.
          if ret \<noteq> UACPI_STATUS_OK then kseq (kernel_unmap ptr (sdt_len (it_hdr ?t)))
            (kseq (tbl_mod p (\<lambda>t. t\<lparr>it_flags := it_flags t OR UACPI_TABLE_INVALID, it_ptr := 0\<rparr>)) (kret ret))
          else kseq (tbl_mod p (\<lambda>t. t\<lparr>it_flags := it_flags t OR UACPI_TABLE_CSUM_VERIFIED\<rparr>)) (table_ref_count p))
      else table_ref_count p)) ?ok s1"
      by (rule kpost_seq [OF m1]) (use s1 chk count in \<open>simp del: not_not\<close>)
  qed
  have ok: "kpost (table_ref_unlocked host p) ?ok s"
    unfolding table_ref_unlocked_def
    by (rule kpost_bind [OF tbl_get_post [OF inv at]])
      (use valid map count [OF at_slot_init [OF inv refl]] in auto)
  obtain ret s' where r: "table_ref_unlocked host p s = Ret ret s'" "ref_post M i s ret s'"
    using ends_returns [OF ends_refs(2) _ table_ref_unlocked_post [OF inv at, of host], of "installation_handler s"] by (auto simp: handler_is_def)
  moreover have "ret = UACPI_STATUS_OK" using ok r(1) by (simp add: kpost_def)
  ultimately show ?thesis by (auto simp: ref_post_def at_slot_def)
qed


section \<open>Locked operations\<close>

lemma acquire_works:
  assumes "host_works host" "table_mutex s \<noteq> 0 \<longrightarrow> \<not> table_mutex_held s"
  obtains s1 where "acquire_table_mutex host s = Ret UACPI_STATUS_OK s1" "tables s1 = tables s" "mapped s1 = mapped s"
    "table_mutex s1 = table_mutex s" "table_mutex s \<noteq> 0 \<longrightarrow> table_mutex_held s1" "ts_flags s1 = ts_flags s"
    "early_table_access s1 = early_table_access s" "ts_init_level s1 = ts_init_level s"
    "table_mutex s = 0 \<longrightarrow> s1 = s"
  using assms by (cases "table_mutex s = 0")
    (auto simp: acquire_table_mutex_def host_call_def host_works_def kbind_def kseq_def kmod_def)

lemma release_state: "release_table_mutex s = Ret () (if table_mutex s \<noteq> 0 then s\<lparr>table_mutex_held := False\<rparr> else s)"
  by (simp add: release_table_mutex_def kbind_def kif_def kmod_def)

lemma ensure_ready: "tables_open s \<Longrightarrow> ensure_subsystem e f s = f s"
  by (auto simp: ensure_subsystem_def tables_open_def kbind_def)

section \<open>Searches\<close>

definition candidate :: "search \<Rightarrow> uacpi_installed_table \<Rightarrow> bool" where
  "candidate sr t \<longleftrightarrow> it_flags t AND UACPI_TABLE_INVALID = 0 \<and> search_matches sr t"

lemma at_slot_get:
  assumes "at_slot M i s t s'" "da_at (tables s) i = Some p"
  shows "tbl_get p s' = Ret t s'"
proof -
  have at: "da_at (tables s') i = Some p" and inv: "da_inv (tables s')" using assms by (simp_all add: at_slot_def keeps_slots_def tables_inv_def)
  have "i < length (da_list (tables s'))" using da_at_read(2) [OF inv at] da_inv_length [OF inv] by simp
  then have "da_list (tables s') ! i = t" using assms(1) by (simp add: at_slot_def)
  then show ?thesis using da_at_read(2) [OF inv at] by (simp add: tbl_get_def)
qed

lemma search_loop:
  assumes inv: "tables_inv M s" and host: "host_works host"
    and fl: "ts_flags s AND UACPI_FLAG_BAD_CSUM_FATAL \<noteq> UACPI_FLAG_BAD_CSUM_FATAL"
  shows "case filter (\<lambda>i. candidate (sc_search ctx) (da_list (tables s) ! i)) [idx..<length (da_list (tables s))] of
     [] \<Rightarrow> kloop (for_each_round (do_search_tables host)) (idx, ctx) s = Ret ctx s
   | i # _ \<Rightarrow> \<exists>s' t'. kloop (for_each_round (do_search_tables host)) (idx, ctx) s
        = Ret (ctx\<lparr>sc_out_table := Some \<lparr>tb_ptr = it_ptr t', tb_index = i\<rparr>, sc_status := UACPI_STATUS_OK\<rparr>) s'
      \<and> at_slot M i s t' s' \<and> ref_outcome UACPI_STATUS_OK (da_list (tables s) ! i) t'"
proof (induction "length (da_list (tables s)) - idx" arbitrary: idx)
  case 0
  then have "for_each_round (do_search_tables host) (idx, ctx) s = Ret (Inr ctx) s"
    using da_inv_length [of "tables s"] inv by (simp add: for_each_round_def tables_inv_def kbind_def)
  then show ?case using 0 by (simp add: kloop_step)
next
  case (Suc k)
  let ?t = "da_list (tables s) ! idx" and ?n = "length (da_list (tables s))"
  have dinv: "da_inv (tables s)" and n: "?n = da_size (tables s)" and idx: "idx < ?n"
    using inv da_inv_length [of "tables s"] Suc.hyps(2) by (auto simp: tables_inv_def)
  obtain p where p: "da_at (tables s) idx = Some p" using da_at_read(1) [OF dinv, of idx] idx n by (cases "da_at (tables s) idx") auto
  have get: "tbl_get p s = Ret ?t s" using da_at_read(2) [OF dinv p] by (simp add: tbl_get_def)
  have round: "for_each_round (do_search_tables host) (idx, ctx) s = (if it_flags ?t AND UACPI_TABLE_INVALID \<noteq> 0 then Ret (Inl (idx + 1, ctx)) s
       else kbind (do_search_tables host ctx p idx) (\<lambda>(user, stop). kret (if stop then Inr user else Inl (idx + 1, user))) s)"
    using idx n by (simp add: for_each_round_def kbind_def table_array_at_def p get)
  have up: "[idx..<?n] = idx # [Suc idx..<?n]" using idx by (rule upt_conv_Cons)
  show ?case
  proof (cases "candidate (sc_search ctx) ?t")
    case False
    then have "for_each_round (do_search_tables host) (idx, ctx) s = Ret (Inl (Suc idx, ctx)) s"
      by (auto simp: round candidate_def do_search_tables_def kbind_def get)
    then have eq: "kloop (for_each_round (do_search_tables host)) (idx, ctx) s = kloop (for_each_round (do_search_tables host)) (Suc idx, ctx) s"
      by (simp add: kloop_step)
    have k: "k = ?n - Suc idx" using Suc.hyps(2) by simp
    show ?thesis unfolding eq up filter.simps if_not_P [OF False] using Suc.hyps(1) [OF k] .
  next
    case True
    then obtain s' t' where r: "table_ref_unlocked host p s = Ret UACPI_STATUS_OK s'" "at_slot M idx s t' s'" "ref_outcome UACPI_STATUS_OK ?t t'"
      using table_ref_works [OF inv p host fl] by (auto simp: candidate_def)
    have "tbl_get p s' = Ret t' s'" using r(2) p by (rule at_slot_get)
    then have "for_each_round (do_search_tables host) (idx, ctx) s
       = Ret (Inr (ctx\<lparr>sc_out_table := Some \<lparr>tb_ptr = it_ptr t', tb_index = idx\<rparr>, sc_status := UACPI_STATUS_OK\<rparr>)) s'"
      using True by (simp add: round candidate_def do_search_tables_def kbind_def get r(1))
    then show ?thesis using True r unfolding up by (auto simp: kloop_step)
  qed
qed

text \<open>
  C33: a search finds the first table. With a host that maps what it is asked to, and bad sums not fatal, a search from any index
  returns; it finds the first table from there on that is not marked invalid and matches, by its signature and the identifiers that
  are given or by the caller's predicate, takes one reference to it and gives its index and its mapping; every other table stays as it is. If there is none it says so and
  changes nothing. The mutex is free afterwards.
\<close>

theorem table_search_first:
  assumes "tables_inv M s" "host_works host" "tables_ready s"
  shows "case filter (\<lambda>i. candidate sr (da_list (tables s) ! i)) [base..<length (da_list (tables s))] of
     [] \<Rightarrow> \<exists>s'. search_tables host base sr s = Ret (UACPI_STATUS_NOT_FOUND, None) s' \<and> tables_ready s' \<and> da_list (tables s') = da_list (tables s)
   | i # _ \<Rightarrow> \<exists>s' t'. search_tables host base sr s = Ret (UACPI_STATUS_OK, Some \<lparr>tb_ptr = it_ptr t', tb_index = i\<rparr>) s' \<and> tables_ready s'
      \<and> da_list (tables s') = (da_list (tables s))[i := t'] \<and> ref_outcome UACPI_STATUS_OK (da_list (tables s) ! i) t'"
proof -
  obtain s1 where s1: "acquire_table_mutex host s = Ret UACPI_STATUS_OK s1" "tables s1 = tables s" "mapped s1 = mapped s"
    "table_mutex s1 = table_mutex s" "ts_flags s1 = ts_flags s"
    "early_table_access s1 = early_table_access s" "ts_init_level s1 = ts_init_level s" "table_mutex s = 0 \<longrightarrow> s1 = s"
    using acquire_works [OF assms(2), of s] assms(3) by (auto simp: tables_ready_def tables_open_def)
  let ?ctx = "\<lparr>sc_search = sr, sc_out_table = None, sc_status = UACPI_STATUS_NOT_FOUND\<rparr>"
  let ?loop = "kloop (for_each_round (do_search_tables host)) (base, ?ctx) s1"
  have run: "search_tables host base sr s = Ret (sc_status c, sc_out_table c) (if table_mutex s2 \<noteq> 0 then s2\<lparr>table_mutex_held := False\<rparr> else s2)"
    if "?loop = Ret c s2" for c s2
    using that by (simp add: search_tables_def uacpi_for_each_table_def kbind_def kseq_def ensure_ready [OF assms(3) [unfolded tables_ready_def, THEN conjunct1]] s1(1) release_state)
  have ready: "tables_ready (if table_mutex s2 \<noteq> 0 then s2\<lparr>table_mutex_held := False\<rparr> else s2)"
    if "table_mutex s2 = table_mutex s" "ts_flags s2 = ts_flags s" "early_table_access s2 = early_table_access s" "ts_init_level s2 = ts_init_level s" for s2
    using assms(3) that by (auto simp: tables_ready_def tables_open_def)
  have inv: "tables_inv M s1" using assms(1) s1(2,3) by (simp add: tables_inv_def)
  have fl: "ts_flags s1 AND UACPI_FLAG_BAD_CSUM_FATAL \<noteq> UACPI_FLAG_BAD_CSUM_FATAL" using assms(3) s1(5) by (simp add: tables_ready_def)
  show ?thesis
  proof (cases "filter (\<lambda>i. candidate sr (da_list (tables s) ! i)) [base..<length (da_list (tables s))]")
    case Nil
    then have "?loop = Ret ?ctx s1" using search_loop [OF inv assms(2) fl, where ctx = ?ctx and idx = base] s1(2) by simp
    from run [OF this] show ?thesis using Nil ready [of s1] s1 by simp
  next
    case (Cons i rest)
    then obtain s2 t' where l: "?loop = Ret (?ctx\<lparr>sc_out_table := Some \<lparr>tb_ptr = it_ptr t', tb_index = i\<rparr>, sc_status := UACPI_STATUS_OK\<rparr>) s2"
        "at_slot M i s1 t' s2" "ref_outcome UACPI_STATUS_OK (da_list (tables s) ! i) t'"
      using search_loop [OF inv assms(2) fl, where ctx = ?ctx and idx = base] s1(2) by auto
    from run [OF l(1)] show ?thesis
      using Cons ready [of s2] s1 l(2,3) by (auto simp: at_slot_def keeps_slots_def)
  qed
qed

text \<open>Two tables of the same array: an SSDT and, behind it, a DSDT that is searched for.\<close>

definition demo_table :: "string \<Rightarrow> uacpi_installed_table" where
  "demo_table sg = \<lparr>it_phys_addr = 0x1000, it_hdr = sig sg @ [36, 0, 0, 0] @ replicate 28 0, it_ptr = 0, it_reference_count = 0,
     it_flags = 0, it_origin = UACPI_TABLE_ORIGIN_FIRMWARE_PHYSICAL\<rparr>"

definition two_tables :: tables_state where
  "two_tables = demo_state\<lparr>tables := zero_tables\<lparr>inline_storage := demo_table ''SSDT'' # demo_table ''DSDT'' # replicate 14 zero_table,
     size_including_inline := 2\<rparr>\<rparr>"

lemma two_tables_list: "da_list (tables two_tables) = [demo_table ''SSDT'', demo_table ''DSDT'']"
  by (simp add: two_tables_def da_list_def zero_tables_def demo_state_def)

definition mapping_host :: table_host where
  "mapping_host = demo_host\<lparr>th_map := (\<lambda>_ ph _. if ph = 0 then 0x2000 else ph)\<rparr>"

lemma two_tables_ready: "tables_inv {#} two_tables" "host_works mapping_host" "tables_ready two_tables"
proof -
  have "da_inv (tables two_tables)" by (simp add: two_tables_def da_defs zero_tables_def)
  moreover have "table_mappings [demo_table ''SSDT'', demo_table ''DSDT''] = {#}" by (simp add: table_mappings_def demo_table_def)
  moreover have "mapped two_tables = []" by (simp add: two_tables_def demo_state_def)
  ultimately show "tables_inv {#} two_tables" unfolding tables_inv_def two_tables_list by simp
  show "tables_ready two_tables"
    by (simp add: tables_ready_def tables_open_def two_tables_def demo_state_def UACPI_INIT_LEVEL_SUBSYSTEM_INITIALIZED_def UACPI_FLAG_BAD_CSUM_FATAL_def)
qed (simp add: host_works_def mapping_host_def demo_host_def)

theorem table_search_first_witness:
  "\<exists>s' tb. search_tables mapping_host 0 (SEARCH_TYPE_BY_ID (by_signature (sig ''DSDT''))) two_tables = Ret (UACPI_STATUS_OK, Some tb) s'
     \<and> tb_index tb = 1"
proof -
  let ?sr = "SEARCH_TYPE_BY_ID (by_signature (sig ''DSDT''))"
  have "\<not> candidate ?sr (demo_table ''SSDT'')" "candidate ?sr (demo_table ''DSDT'')" by code_simp+
  then have "filter (\<lambda>i. candidate ?sr (da_list (tables two_tables) ! i)) [0..<length (da_list (tables two_tables))] = [1]"
    by (simp add: two_tables_list upt_rec)
  with table_search_first [OF two_tables_ready, where sr = ?sr and base = 0] show ?thesis by auto
qed

section \<open>Taking and dropping references\<close>

lemmas ctl_defs = TABLE_CTL_GET_def TABLE_CTL_PUT_def TABLE_CTL_SET_FLAGS_def TABLE_CTL_CLEAR_FLAGS_def
  TABLE_CTL_VALIDATE_SET_FLAGS_def TABLE_CTL_VALIDATE_CLEAR_FLAGS_def no_request_def

text \<open>The lock around a request: the element is looked up, the request applied, the lock freed.\<close>

lemma table_ctl_run:
  assumes "tables_inv M s" "host_works host" "tables_open s" "idx < length (da_list (tables s))"
    "it_flags (da_list (tables s) ! idx) AND UACPI_TABLE_INVALID = 0"
  obtains s1 p where "tables_inv M s1" "tables s1 = tables s" "ts_flags s1 = ts_flags s" "da_at (tables s1) idx = Some p"
    "\<And>r s2 t. table_ctl_apply host p req s1 = Ret r s2 \<Longrightarrow> at_slot M idx s1 t s2 \<Longrightarrow>
       \<exists>s3. table_ctl host idx req s = Ret r s3 \<and> tables_open s3 \<and> ts_flags s3 = ts_flags s \<and> table_mutex s3 = table_mutex s \<and> tables_inv M s3 \<and> da_list (tables s3) = (da_list (tables s))[idx := t]"
proof -
  obtain s1 where s1: "acquire_table_mutex host s = Ret UACPI_STATUS_OK s1" "tables s1 = tables s" "mapped s1 = mapped s"
    "table_mutex s1 = table_mutex s" "ts_flags s1 = ts_flags s"
    "early_table_access s1 = early_table_access s" "ts_init_level s1 = ts_init_level s" "table_mutex s = 0 \<longrightarrow> s1 = s"
    using acquire_works [OF assms(2), of s] assms(3) by (auto simp: tables_open_def)
  have inv: "tables_inv M s1" using assms(1) s1(2,3) by (simp add: tables_inv_def)
  have dinv: "da_inv (tables s1)" and n: "length (da_list (tables s)) = da_size (tables s1)"
    using inv s1(2) da_inv_length [of "tables s1"] by (auto simp: tables_inv_def)
  obtain p where p: "da_at (tables s1) idx = Some p" using da_at_read(1) [OF dinv, of idx] assms(4) n by (cases "da_at (tables s1) idx") auto
  have get: "tbl_get p s1 = Ret (da_list (tables s) ! idx) s1" using da_at_read(2) [OF dinv p] s1(2) by (simp add: tbl_get_def)
  have "\<exists>s3. table_ctl host idx req s = Ret r s3 \<and> tables_open s3 \<and> ts_flags s3 = ts_flags s \<and> table_mutex s3 = table_mutex s \<and> tables_inv M s3 \<and> da_list (tables s3) = (da_list (tables s))[idx := t]"
    if "table_ctl_apply host p req s1 = Ret r s2" "at_slot M idx s1 t s2" for r s2 t
  proof -
    let ?s3 = "if table_mutex s2 \<noteq> 0 then s2\<lparr>table_mutex_held := False\<rparr> else s2"
    have "table_ctl host idx req s = Ret r ?s3"
      using that(1) assms(4,5) n
      by (simp add: table_ctl_def ensure_ready [OF assms(3)] kbind_def s1(1) table_array_at_def p get kseq_def release_state)
    moreover have "tables_open ?s3" "ts_flags ?s3 = ts_flags s" "table_mutex ?s3 = table_mutex s" "tables_inv M ?s3" "da_list (tables ?s3) = (da_list (tables s))[idx := t]"
      using that(2) s1 assms(3) by (auto simp: at_slot_def keeps_slots_def tables_open_def tables_inv_def)
    ultimately show ?thesis by blast
  qed
  with that inv s1(2,5) p show thesis by blast
qed

lemma tables_ready_open: "tables_ready s \<Longrightarrow> tables_open s"
  by (simp add: tables_ready_def)

lemma tables_ready_same: "tables_ready s \<Longrightarrow> tables_open s' \<Longrightarrow> ts_flags s' = ts_flags s \<Longrightarrow> tables_ready s'"
  by (simp add: tables_ready_def)

lemma table_ref_run:
  assumes "tables_inv M s" "host_works host" "tables_ready s" "tb_index tb < length (da_list (tables s))"
    "it_flags (da_list (tables s) ! tb_index tb) AND UACPI_TABLE_INVALID = 0"
  shows "\<exists>s' t'. uacpi_table_ref host tb s = Ret UACPI_STATUS_OK s' \<and> tables_ready s' \<and> tables_inv M s'
     \<and> da_list (tables s') = (da_list (tables s))[tb_index tb := t'] \<and> ref_outcome UACPI_STATUS_OK (da_list (tables s) ! tb_index tb) t'"
proof -
  let ?i = "tb_index tb" and ?req = "no_request\<lparr>rq_type := TABLE_CTL_GET\<rparr>"
  obtain s1 p where s1: "tables_inv M s1" "tables s1 = tables s" "ts_flags s1 = ts_flags s" "da_at (tables s1) ?i = Some p"
    and run: "\<And>r s2 t. table_ctl_apply host p ?req s1 = Ret r s2 \<Longrightarrow> at_slot M ?i s1 t s2 \<Longrightarrow>
       \<exists>s3. table_ctl host ?i ?req s = Ret r s3 \<and> tables_ready s3 \<and> tables_inv M s3 \<and> da_list (tables s3) = (da_list (tables s))[?i := t]"
    using table_ctl_run [OF assms(1,2) tables_ready_open [OF assms(3)] assms(4,5), of ?req] tables_ready_same [OF assms(3)] by metis
  have fl: "ts_flags s1 AND UACPI_FLAG_BAD_CSUM_FATAL \<noteq> UACPI_FLAG_BAD_CSUM_FATAL" using assms(3) s1(3) by (simp add: tables_ready_def)
  obtain s2 t where r: "table_ref_unlocked host p s1 = Ret UACPI_STATUS_OK s2" "at_slot M ?i s1 t s2"
      "ref_outcome UACPI_STATUS_OK (da_list (tables s) ! ?i) t"
    using table_ref_works [OF s1(1,4) assms(2) fl] assms(5) s1(2) by auto
  have get: "tbl_get p s1 = Ret (da_list (tables s) ! ?i) s1" using s1 da_at_read(2) [of "tables s1" ?i p] by (simp add: tbl_get_def tables_inv_def)
  have "table_ctl_apply host p ?req s1 = Ret (UACPI_STATUS_OK, it_ptr t) s2"
    using r at_slot_get [OF r(2) s1(4)] by (simp add: table_ctl_apply_def kbind_def kseq_def get ctl_defs kif_def)
  from run [OF this r(2)] obtain s3 where "table_ctl host ?i ?req s = Ret (UACPI_STATUS_OK, it_ptr t) s3" "tables_ready s3" "tables_inv M s3"
      "da_list (tables s3) = (da_list (tables s))[?i := t]" by blast
  then show ?thesis using r(3) by (simp add: uacpi_table_ref_def kbind_def) blast
qed

lemma table_unref_run:
  assumes "tables_inv M s" "host_works host" "tables_ready s" "tb_index tb < length (da_list (tables s))"
    "it_flags (da_list (tables s) ! tb_index tb) AND UACPI_TABLE_INVALID = 0"
  shows "\<exists>s' ret t'. uacpi_table_unref host tb s = Ret ret s' \<and> tables_ready s' \<and> tables_inv M s'
     \<and> da_list (tables s') = (da_list (tables s))[tb_index tb := t'] \<and> unref_outcome ret (da_list (tables s) ! tb_index tb) t'"
proof -
  let ?i = "tb_index tb" and ?req = "no_request\<lparr>rq_type := TABLE_CTL_PUT\<rparr>"
  obtain s1 p where s1: "tables_inv M s1" "tables s1 = tables s" "ts_flags s1 = ts_flags s" "da_at (tables s1) ?i = Some p"
    and run: "\<And>r s2 t. table_ctl_apply host p ?req s1 = Ret r s2 \<Longrightarrow> at_slot M ?i s1 t s2 \<Longrightarrow>
       \<exists>s3. table_ctl host ?i ?req s = Ret r s3 \<and> tables_ready s3 \<and> tables_inv M s3 \<and> da_list (tables s3) = (da_list (tables s))[?i := t]"
    using table_ctl_run [OF assms(1,2) tables_ready_open [OF assms(3)] assms(4,5), of ?req] tables_ready_same [OF assms(3)] by metis
  obtain ret s2 t where r: "table_unref_unlocked p s1 = Ret ret s2" "at_slot M ?i s1 t s2" "unref_outcome ret (da_list (tables s) ! ?i) t"
    using ends_returns [OF ends_refs(3) _ table_unref_unlocked_post [OF s1(1,4)], of "installation_handler s1"] s1(2) by (auto simp: handler_is_def)
  have get: "tbl_get p s1 = Ret (da_list (tables s) ! ?i) s1" using s1 da_at_read(2) [of "tables s1" ?i p] by (simp add: tbl_get_def tables_inv_def)
  have "table_ctl_apply host p ?req s1 = Ret (ret, 0) s2"
    using r(1) by (simp add: table_ctl_apply_def kbind_def kseq_def get ctl_defs kif_def)
  from run [OF this r(2)] obtain s3 where "table_ctl host ?i ?req s = Ret (ret, 0) s3" "tables_ready s3" "tables_inv M s3"
      "da_list (tables s3) = (da_list (tables s))[?i := t]" by blast
  then show ?thesis using r(3) by (simp add: uacpi_table_unref_def kbind_def) blast
qed

text \<open>
  C34: dropping a reference undoes taking it. For a valid table whose count is below 65534, taking a reference and dropping it
  both succeed, the count and the mapping of the table are what they were, and so are all mappings. When the count reaches 65535 it stays there
  for ever, and the table stays mapped at the same place: further references and drops succeed and change nothing.
\<close>

theorem table_ref_unref_roundtrip:
  assumes "tables_inv M s" "host_works host" "tables_ready s" "tb_index tb < length (da_list (tables s))"
    "it_flags (da_list (tables s) ! tb_index tb) AND UACPI_TABLE_INVALID = 0"
  defines "t \<equiv> da_list (tables s) ! tb_index tb"
  shows "(it_reference_count t < 0xFFFE \<longrightarrow>
     (\<exists>s1 s2. uacpi_table_ref host tb s = Ret UACPI_STATUS_OK s1 \<and> uacpi_table_unref host tb s1 = Ret UACPI_STATUS_OK s2 \<and> tables_ready s2
        \<and> it_reference_count (da_list (tables s1) ! tb_index tb) = it_reference_count t + 1
        \<and> it_reference_count (da_list (tables s2) ! tb_index tb) = it_reference_count t
        \<and> (it_reference_count t \<noteq> 0 \<longrightarrow> da_list (tables s2) = da_list (tables s)) \<and> mset (mapped s2) = mset (mapped s)))
   \<and> (it_reference_count t = 0xFFFF \<longrightarrow>
     (\<exists>s1 s2. uacpi_table_ref host tb s = Ret UACPI_STATUS_OK s1 \<and> uacpi_table_unref host tb s = Ret UACPI_STATUS_OK s2
        \<and> da_list (tables s1) = da_list (tables s) \<and> da_list (tables s2) = da_list (tables s)
        \<and> mset (mapped s1) = mset (mapped s) \<and> mset (mapped s2) = mset (mapped s)))"
proof (intro conjI impI)
  let ?i = "tb_index tb"
  have same: "mset (mapped s') = mset (mapped s)"
    if "tables_inv M s'" "da_list (tables s') = (da_list (tables s))[?i := t']" "table_mapping t' = table_mapping t" for s' t'
  proof -
    have "table_mappings (da_list (tables s')) = table_mappings (da_list (tables s))"
      using table_mappings_update [OF assms(4), of t'] that(2,3) by (simp add: t_def)
    then show ?thesis using that(1) assms(1) by (simp add: tables_inv_def)
  qed
  obtain s1 t1 where r1: "uacpi_table_ref host tb s = Ret UACPI_STATUS_OK s1" "tables_ready s1" "tables_inv M s1"
      "da_list (tables s1) = (da_list (tables s))[?i := t1]" "ref_outcome UACPI_STATUS_OK t t1"
    using table_ref_run [OF assms(1-5)] by (auto simp: t_def)
  have n1: "da_list (tables s1) ! ?i = t1" using r1(4) assms(4) by simp
  {
    assume c: "it_reference_count t < 0xFFFE"
    then have small: "it_reference_count t \<noteq> 0xFFFF" by auto
    then have cnt: "it_reference_count t1 = it_reference_count t + 1" "it_reference_count t1 \<noteq> 0" "it_reference_count t1 \<noteq> 0xFFFF"
      using r1(5) c u16_Suc_nonzero [OF small] by (auto simp: ref_outcome_def word_less_nat_alt add_eq_conv_diff)
    have v1: "it_flags t1 AND UACPI_TABLE_INVALID = 0"
      using r1(5) assms(5) by (cases "it_reference_count t = 0") (auto simp: ref_outcome_def t_def)
    obtain s2 ret t2 where r2: "uacpi_table_unref host tb s1 = Ret ret s2" "tables_ready s2" "tables_inv M s2"
        "da_list (tables s2) = (da_list (tables s1))[?i := t2]" "unref_outcome ret t1 t2"
      using table_unref_run [OF r1(3) assms(2) r1(2), of tb] assms(4) r1(4) v1 n1 by auto
    have u: "ret = UACPI_STATUS_OK" "it_reference_count t2 = it_reference_count t"
      using r2(5) cnt by (auto simp: unref_outcome_def)
    have l2: "da_list (tables s2) = (da_list (tables s))[?i := t2]" using r2(4) r1(4) by simp
    show "\<exists>s1 s2. uacpi_table_ref host tb s = Ret UACPI_STATUS_OK s1 \<and> uacpi_table_unref host tb s1 = Ret UACPI_STATUS_OK s2 \<and> tables_ready s2
        \<and> it_reference_count (da_list (tables s1) ! tb_index tb) = it_reference_count t + 1
        \<and> it_reference_count (da_list (tables s2) ! tb_index tb) = it_reference_count t
        \<and> (it_reference_count t \<noteq> 0 \<longrightarrow> da_list (tables s2) = da_list (tables s)) \<and> mset (mapped s2) = mset (mapped s)"
    proof -
      have t2: "t2 = t" if "it_reference_count t \<noteq> 0"
        using that r1(5) r2(5) cnt small by (intro uacpi_installed_table.equality) (auto simp: ref_outcome_def unref_outcome_def)
      then have "table_mapping t2 = table_mapping t" using u(2) by (cases "it_reference_count t = 0") simp_all
      with same [OF r2(3) l2] have "mset (mapped s2) = mset (mapped s)" .
      moreover have "da_list (tables s2) ! ?i = t2" using l2 assms(4) by simp
      moreover have "da_list (tables s2) = da_list (tables s)" if "it_reference_count t \<noteq> 0" using t2 [OF that] l2 by (simp add: t_def)
      ultimately show ?thesis using r1(1) r2(1,2) u n1 cnt(1) by auto
    qed
  }
  {
    assume c: "it_reference_count t = 0xFFFF"
    obtain s2 ret t2 where r2: "uacpi_table_unref host tb s = Ret ret s2" "tables_inv M s2"
        "da_list (tables s2) = (da_list (tables s))[?i := t2]" "unref_outcome ret t t2"
      using table_unref_run [OF assms(1-5)] by (auto simp: t_def)
    have "t1 = t" "t2 = t" using c r1(5) r2(4)
      by (auto simp: ref_outcome_def unref_outcome_def intro!: uacpi_installed_table.equality)
    then show "\<exists>s1 s2. uacpi_table_ref host tb s = Ret UACPI_STATUS_OK s1 \<and> uacpi_table_unref host tb s = Ret UACPI_STATUS_OK s2
        \<and> da_list (tables s1) = da_list (tables s) \<and> da_list (tables s2) = da_list (tables s)
        \<and> mset (mapped s1) = mset (mapped s) \<and> mset (mapped s2) = mset (mapped s)"
      using r1(1,4) r2(1,3,4) c same [OF r1(3,4)] same [OF r2(2,3)] by (auto simp: t_def unref_outcome_def)
  }
qed

theorem table_ref_unref_roundtrip_witness:
  "\<exists>s1 s2. uacpi_table_ref mapping_host \<lparr>tb_ptr = 0, tb_index = 1\<rparr> two_tables = Ret UACPI_STATUS_OK s1
     \<and> uacpi_table_unref mapping_host \<lparr>tb_ptr = 0, tb_index = 1\<rparr> s1 = Ret UACPI_STATUS_OK s2 \<and> mset (mapped s2) = mset (mapped two_tables)"
proof -
  let ?tb = "\<lparr>tb_ptr = 0, tb_index = 1\<rparr> :: uacpi_table"
  have "tb_index ?tb < length (da_list (tables two_tables))" "it_flags (da_list (tables two_tables) ! tb_index ?tb) AND UACPI_TABLE_INVALID = 0"
      "it_reference_count (da_list (tables two_tables) ! tb_index ?tb) < 0xFFFE"
    by (simp_all add: two_tables_list demo_table_def)
  with table_ref_unref_roundtrip [OF two_tables_ready, of ?tb] show ?thesis by blast
qed

section \<open>Installation\<close>

text \<open>The header that a pointer shows.\<close>

definition hdr_at :: "table_host \<Rightarrow> u64 \<Rightarrow> sdt_hdr" where
  "hdr_at host p = bytes_at (th_mem host) p (unat sdt_hdr_size)"

text \<open>
  What is decided before the contents of a table matter: the header that the first mapping of the call shows, the second mapping, of the whole
  table, and the status that the failures up to that mapping give.
\<close>

definition shown_hdr :: "table_host \<Rightarrow> u64 \<Rightarrow> tables_state \<Rightarrow> sdt_hdr" where
  "shown_hdr host ph s = hdr_at host (th_map host (host_calls s) ph sdt_hdr_size)"

definition full_mapping :: "table_host \<Rightarrow> u64 \<Rightarrow> tables_state \<Rightarrow> u64" where
  "full_mapping host ph s = th_map host (Suc (host_calls s)) ph (sdt_len (shown_hdr host ph s))"

definition header_status :: "table_host \<Rightarrow> u64 \<Rightarrow> u8 list option \<Rightarrow> bool \<Rightarrow> tables_state \<Rightarrow> uacpi_status" where
  "header_status host ph sg want s =
     (if th_map host (host_calls s) ph sdt_hdr_size = 0 then UACPI_STATUS_MAPPING_FAILED
      else if sdt_len (shown_hdr host ph s) < sdt_hdr_size then UACPI_STATUS_INVALID_TABLE_LENGTH
      else if (\<exists>e. sg = Some e \<and> \<not> uacpi_signatures_match (shown_hdr host ph s) e)
          \<and> ts_flags s AND UACPI_FLAG_BAD_TBL_SIGNATURE_FATAL = UACPI_FLAG_BAD_TBL_SIGNATURE_FATAL then UACPI_STATUS_INVALID_SIGNATURE
      else if (installation_handler s \<noteq> None \<or> want) \<and> full_mapping host ph s = 0 then UACPI_STATUS_MAPPING_FAILED
      else UACPI_STATUS_OK)"

text \<open>
  Failures behind that: the handler of the host denies the table; its sum is wrong, which is fatal; there is no memory for an entry. The sum of a FACS is not
  checked, and that of another table that is neither wanted nor an FADT only if that is asked for.
\<close>

definition sum_checked :: "sdt_hdr \<Rightarrow> bool \<Rightarrow> tables_state \<Rightarrow> bool" where
  "sum_checked hdr want s \<longleftrightarrow> \<not> uacpi_signatures_match (sdt_signature hdr) ACPI_FACS_SIGNATURE
     \<and> (ts_flags s AND UACPI_FLAG_PROACTIVE_TBL_CSUM = UACPI_FLAG_PROACTIVE_TBL_CSUM
        \<or> uacpi_signatures_match (sdt_signature hdr) ACPI_FADT_SIGNATURE \<or> want)"

definition sum_fatal :: "table_host \<Rightarrow> u64 \<Rightarrow> tables_state \<Rightarrow> bool" where
  "sum_fatal host ph s \<longleftrightarrow> table_checksum (bytes_at (th_mem host) (full_mapping host ph s) (unat (sdt_len (shown_hdr host ph s)))) \<noteq> 0
     \<and> ts_flags s AND UACPI_FLAG_BAD_CSUM_FATAL = UACPI_FLAG_BAD_CSUM_FATAL"

definition denied :: "table_host \<Rightarrow> u64 \<Rightarrow> uacpi_table_origin \<Rightarrow> tables_state \<Rightarrow> bool" where
  "denied host ph origin s \<longleftrightarrow> origin = UACPI_TABLE_ORIGIN_FIRMWARE_PHYSICAL
     \<and> (\<exists>h. installation_handler s = Some h \<and> fst (h (Suc (Suc (host_calls s))) (full_mapping host ph s)) = DISPOSITON_DENY)"

definition allowed :: "table_host \<Rightarrow> u64 \<Rightarrow> uacpi_table_origin \<Rightarrow> tables_state \<Rightarrow> bool" where
  "allowed host ph origin s \<longleftrightarrow> origin \<noteq> UACPI_TABLE_ORIGIN_FIRMWARE_PHYSICAL \<or> installation_handler s = None
     \<or> (\<exists>h. installation_handler s = Some h \<and> fst (h (Suc (Suc (host_calls s))) (full_mapping host ph s)) = DISPOSITON_ALLOW)"

definition sum_bad :: "table_host \<Rightarrow> u64 \<Rightarrow> bool \<Rightarrow> tables_state \<Rightarrow> bool" where
  "sum_bad host ph want s \<longleftrightarrow> sum_checked (shown_hdr host ph s) want s
     \<and> full_mapping host ph s \<noteq> 0 \<and> sum_fatal host ph s"

definition no_memory :: "table_host \<Rightarrow> u64 \<Rightarrow> bool \<Rightarrow> tables_state \<Rightarrow> bool" where
  "no_memory host ph want s \<longleftrightarrow> \<not> uacpi_signatures_match (sdt_signature (shown_hdr host ph s)) ACPI_FADT_SIGNATURE
     \<and> (sum_checked (shown_hdr host ph s) want s \<longrightarrow> full_mapping host ph s \<noteq> 0 \<and> \<not> sum_fatal host ph s)
     \<and> da_inline_capacity (tables s) \<le> da_size (tables s) \<and> da_size (tables s) - da_inline_capacity (tables s) = dynamic_capacity (tables s)
     \<and> (\<forall>n k. th_alloc host n k = None)"

lemma kernel_map_state:
  "kernel_map host x len s = Ret (th_map host (host_calls s) x len) (s\<lparr>host_calls := Suc (host_calls s),
     mapped := (if th_map host (host_calls s) x len = 0 then mapped s else (th_map host (host_calls s) x len, len) # mapped s)\<rparr>)"
  by (simp add: kernel_map_def host_call_def kbind_def kseq_def kmod_def kif_def)

lemma unmap_state: "mapped s = (p, len) # ms \<Longrightarrow> kernel_unmap p len s = Ret () (s\<lparr>mapped := ms\<rparr>)"
  by (simp add: kernel_unmap_def kbind_def kmod_def)

lemma header_state:
  "get_external_table_header host ph s = (if th_map host (host_calls s) ph sdt_hdr_size = 0
     then Ret (UACPI_STATUS_MAPPING_FAILED, []) (s\<lparr>host_calls := Suc (host_calls s)\<rparr>)
     else Ret (UACPI_STATUS_OK, shown_hdr host ph s) (s\<lparr>host_calls := Suc (host_calls s)\<rparr>))"
  by (simp add: get_external_table_header_def kbind_def kseq_def kernel_map_state Let_def unmap_state hdr_at_def shown_hdr_def)

lemma signature_state:
  "(case sg of None \<Rightarrow> kret UACPI_STATUS_OK | Some e \<Rightarrow> uacpi_check_table_signature hdr e) s = Ret
     (if (\<exists>e. sg = Some e \<and> \<not> uacpi_signatures_match hdr e)
        \<and> ts_flags s AND UACPI_FLAG_BAD_TBL_SIGNATURE_FATAL = UACPI_FLAG_BAD_TBL_SIGNATURE_FATAL then UACPI_STATUS_INVALID_SIGNATURE
      else UACPI_STATUS_OK) s"
  by (auto simp: uacpi_check_table_signature_def check_flag_def kbind_def split: option.split)

text \<open>The rest of the function, with the second mapping and the status of the table.\<close>

definition install_rest :: "install_physical \<Rightarrow> install_virtual \<Rightarrow> table_host \<Rightarrow> sdt_hdr \<Rightarrow> u64 \<Rightarrow> u64 \<Rightarrow> uacpi_table_origin \<Rightarrow> bool \<Rightarrow> install_result tkern" where
  "install_rest inst inst_virt host hdr phys virt origin want =
     kbind (if origin = UACPI_TABLE_ORIGIN_FIRMWARE_PHYSICAL then consult_handler inst inst_virt virt want else kret None) (\<lambda>c.
     kbind (case c of Some r \<Rightarrow> kret r | None \<Rightarrow> verify_and_install_table inst host hdr phys virt origin want) (\<lambda>(ret, tb).
     if ret = UACPI_STATUS_OK \<and> want then kret (ret, tb)
     else kseq (kif (virt \<noteq> 0) (kernel_unmap virt (sdt_len hdr)))
       (kret (UACPI_STATUS_OK, tb))))"

lemma install_body_rest:
  "install_physical_body inst inst_virt host ph origin sg want =
     kbind (get_external_table_header host ph) (\<lambda>(ret, hdr).
     if ret \<noteq> UACPI_STATUS_OK then kret (ret, None)
     else if sdt_len hdr < sdt_hdr_size then kret (UACPI_STATUS_INVALID_TABLE_LENGTH, None)
     else kbind (case sg of None \<Rightarrow> kret UACPI_STATUS_OK | Some e \<Rightarrow> uacpi_check_table_signature hdr e) (\<lambda>ret.
     if ret \<noteq> UACPI_STATUS_OK then kret (ret, None)
     else kbind (kget (\<lambda>s. installation_handler s \<noteq> None \<or> want)) (\<lambda>need.
     kbind (if need then kernel_map host ph (sdt_len hdr) else kret 0) (\<lambda>virt.
     if need \<and> virt = 0 then kret (UACPI_STATUS_MAPPING_FAILED, None)
     else install_rest inst inst_virt host hdr ph virt origin want))))"
  unfolding install_physical_body_def install_rest_def by (rule refl)

lemma install_body_refused:
  "header_status host ph sg want s \<noteq> UACPI_STATUS_OK \<Longrightarrow>
   \<exists>s'. install_physical_body inst inst_virt host ph origin sg want s = Ret (header_status host ph sg want s, None) s'"
  by (auto simp: install_physical_body_def header_status_def header_state kbind_def signature_state kernel_map_state full_mapping_def status_defs
      split: if_splits)

lemma install_body_accepted:
  assumes "header_status host ph sg want s = UACPI_STATUS_OK"
  shows "install_physical_body inst inst_virt host ph origin sg want s =
     (if installation_handler s \<noteq> None \<or> want
      then install_rest inst inst_virt host (shown_hdr host ph s) ph (full_mapping host ph s) origin want
        (s\<lparr>host_calls := Suc (Suc (host_calls s)), mapped := (full_mapping host ph s, sdt_len (shown_hdr host ph s)) # mapped s\<rparr>)
      else install_rest inst inst_virt host (shown_hdr host ph s) ph 0 origin want (s\<lparr>host_calls := Suc (host_calls s)\<rparr>))"
proof -
  have acc: "th_map host (host_calls s) ph sdt_hdr_size \<noteq> 0" "\<not> sdt_len (shown_hdr host ph s) < sdt_hdr_size"
    "\<not> ((\<exists>e. sg = Some e \<and> \<not> uacpi_signatures_match (shown_hdr host ph s) e)
       \<and> ts_flags s AND UACPI_FLAG_BAD_TBL_SIGNATURE_FATAL = UACPI_FLAG_BAD_TBL_SIGNATURE_FATAL)"
    "installation_handler s \<noteq> None \<or> want \<Longrightarrow> full_mapping host ph s \<noteq> 0"
    using assms by (auto simp: header_status_def status_defs split: if_splits)
  let ?s1 = "s\<lparr>host_calls := Suc (host_calls s)\<rparr>"
  have sg: "(case sg of None \<Rightarrow> kret UACPI_STATUS_OK | Some e \<Rightarrow> uacpi_check_table_signature (shown_hdr host ph s) e) ?s1 = Ret UACPI_STATUS_OK ?s1"
    using acc(3) by (simp only: signature_state) auto
  show ?thesis using acc(1,2,4)
    by (simp add: install_body_rest header_state kbind_def sg kernel_map_state full_mapping_def)
qed

lemma install_rest_status: "install_rest inst inst_virt host hdr ph virt origin want s = Ret (ret, tb) s' \<Longrightarrow> ret = UACPI_STATUS_OK"
  by (auto simp: install_rest_def kbind_Ret_iff kseq_Ret_iff split: if_splits prod.splits)

lemma consult_allowed:
  assumes "allowed host ph origin s" "installation_handler s1 = installation_handler s"
    "installation_handler s = None \<or> host_calls s1 = Suc (Suc (host_calls s)) \<and> virt = full_mapping host ph s"
  shows "\<exists>n. (if origin = UACPI_TABLE_ORIGIN_FIRMWARE_PHYSICAL then consult_handler inst inst_virt virt want else kret None) s1
    = Ret None (s1\<lparr>host_calls := n\<rparr>)"
proof (cases "origin = UACPI_TABLE_ORIGIN_FIRMWARE_PHYSICAL \<and> installation_handler s \<noteq> None")
  case True
  with assms obtain h a where "installation_handler s1 = Some h" "h (host_calls s1) virt = (DISPOSITON_ALLOW, a)"
    by (auto simp: allowed_def) (metis prod.collapse)
  then show ?thesis using True by (auto simp: consult_handler_def host_call_def kbind_def kseq_def kmod_def intro!: exI [of _ "Suc (host_calls s1)"])
next
  case False
  then have "(if origin = UACPI_TABLE_ORIGIN_FIRMWARE_PHYSICAL then consult_handler inst inst_virt virt want else kret None) s1 = Ret None (s1\<lparr>host_calls := host_calls s1\<rparr>)"
    using assms(2) by (auto simp: consult_handler_def kbind_def)
  then show ?thesis by blast
qed

text \<open>Verification and storing fail without a trace, the second mapping being there or not yet made.\<close>

lemma verify_install_fails:
  assumes "sum_bad host ph want s \<or> no_memory host ph want s" "tables s1 = tables s" "ts_flags s1 = ts_flags s"
    "virt = full_mapping host ph s \<and> virt \<noteq> 0 \<or> virt = 0 \<and> host_calls s1 = Suc (host_calls s)"
  shows "\<exists>ret s2. verify_and_install_table inst host (shown_hdr host ph s) ph virt origin want s1 = Ret (ret, None) s2 \<and> ret \<noteq> UACPI_STATUS_OK
     \<and> tables s2 = tables s1 \<and> mapped s2 = mapped s1"
proof -
  let ?hdr = "shown_hdr host ph s" and ?v = "full_mapping host ph s"
  let ?facs = "uacpi_signatures_match (sdt_signature ?hdr) ACPI_FACS_SIGNATURE" and ?fadt = "uacpi_signatures_match (sdt_signature ?hdr) ACPI_FADT_SIGNATURE"
  have sum: "uacpi_verify_table_checksum host ?v (sdt_len ?hdr) s' = Ret (if sum_fatal host ph s then UACPI_STATUS_BAD_CHECKSUM else UACPI_STATUS_OK) s'"
    if "ts_flags s' = ts_flags s" for s'
    using that by (auto simp: uacpi_verify_table_checksum_def sum_fatal_def check_flag_def kbind_def)
  have map: "\<exists>s'. (if virt = 0 then kernel_map host ph (sdt_len ?hdr) else kret virt) s1 = Ret ?v s' \<and> ts_flags s' = ts_flags s \<and> tables s' = tables s1
      \<and> (if virt = 0 then mapped s' = (?v, sdt_len ?hdr) # mapped s1 else mapped s' = mapped s1)" if "?v \<noteq> 0"
    using assms(3,4) that by (auto simp: kernel_map_state full_mapping_def)
  have unmap: "\<exists>s2. kif (virt = 0) (kernel_unmap ?v (sdt_len ?hdr)) s' = Ret () s2 \<and> tables s2 = tables s' \<and> ts_flags s2 = ts_flags s'
      \<and> mapped s2 = mapped s1" if "if virt = 0 then mapped s' = (?v, sdt_len ?hdr) # mapped s1 else mapped s' = mapped s1" for s'
    using that by (auto simp: kif_def unmap_state)
  have verify: "\<exists>fl s2. verify_table inst host ?hdr ph virt want s1
      = Ret (if sum_bad host ph want s then UACPI_STATUS_BAD_CHECKSUM else UACPI_STATUS_OK, fl) s2 \<and> tables s2 = tables s1 \<and> mapped s2 = mapped s1"
  proof (cases "sum_checked ?hdr want s")
    case False
    then have "verify_table inst host ?hdr ph virt want s1 = Ret (UACPI_STATUS_OK, if ?facs then UACPI_TABLE_CSUM_VERIFIED else 0) s1"
      using assms(3) by (auto simp: verify_table_def sum_checked_def check_flag_def kbind_def Let_def)
    moreover have "\<not> sum_bad host ph want s" using False by (simp add: sum_bad_def)
    ultimately show ?thesis by auto
  next
    case True
    then have v: "?v \<noteq> 0" and fa: "sum_fatal host ph s \<longleftrightarrow> sum_bad host ph want s" and nf: "\<not> sum_bad host ph want s \<longrightarrow> \<not> ?fadt"
      using assms(1) by (auto simp: sum_bad_def no_memory_def)
    obtain s' where s': "(if virt = 0 then kernel_map host ph (sdt_len ?hdr) else kret virt) s1 = Ret ?v s'" "ts_flags s' = ts_flags s" "tables s' = tables s1"
        "if virt = 0 then mapped s' = (?v, sdt_len ?hdr) # mapped s1 else mapped s' = mapped s1" using map [OF v] by blast
    obtain s2 where s2: "kif (virt = 0) (kernel_unmap ?v (sdt_len ?hdr)) s' = Ret () s2" "tables s2 = tables s'" "mapped s2 = mapped s1" using unmap [OF s'(4)] by blast
    have "verify_table inst host ?hdr ph virt want s1 = kbind (if virt = 0 then kernel_map host ph (sdt_len ?hdr) else kret virt) (\<lambda>mapping.
          if mapping = 0 then kret (UACPI_STATUS_MAPPING_FAILED, 0)
          else kbind (uacpi_verify_table_checksum host mapping (sdt_len ?hdr)) (\<lambda>ret.
            kbind (if ret = UACPI_STATUS_OK then
                     kbind (if ?fadt then initialize_fadt inst host mapping else kret ret) (\<lambda>ret. kret (ret, UACPI_TABLE_CSUM_VERIFIED))
                   else kret (ret, 0)) (\<lambda>(ret, fl).
            kseq (kif (virt = 0) (kernel_unmap mapping (sdt_len ?hdr))) (kret (ret, fl))))) s1"
      using True assms(3) by (auto simp: verify_table_def sum_checked_def check_flag_def Let_def kbind_def [of "kget _"])
    also have "\<dots> = Ret (if sum_bad host ph want s then UACPI_STATUS_BAD_CHECKSUM else UACPI_STATUS_OK,
        if sum_bad host ph want s then 0 else UACPI_TABLE_CSUM_VERIFIED) s2"
      using v nf s2(1) by (cases "sum_bad host ph want s") (simp_all add: kbind_def kseq_def s'(1) sum [OF s'(2)] fa status_defs)
    finally show ?thesis using s2(2,3) s'(3) by auto
  qed
  then obtain fl s2 where v: "verify_table inst host ?hdr ph virt want s1
      = Ret (if sum_bad host ph want s then UACPI_STATUS_BAD_CHECKSUM else UACPI_STATUS_OK, fl) s2" "tables s2 = tables s1" "mapped s2 = mapped s1" by blast
  show ?thesis
  proof (cases "sum_bad host ph want s")
    case True
    then show ?thesis using v by (auto simp: verify_and_install_table_def kbind_def status_defs)
  next
    case False
    then have full: "da_inline_capacity (tables s2) \<le> da_size (tables s2)" "da_size (tables s2) - da_inline_capacity (tables s2) = dynamic_capacity (tables s2)"
        "th_alloc host n k = None" for n k
      using assms(1,2) v(2) by (simp_all add: no_memory_def)
    let ?f = "\<lambda>s. if uacpi_signatures_match (sdt_signature ?hdr) ACPI_DSDT_SIGNATURE then s\<lparr>is_rev1 := sdt_revision ?hdr < 2\<rparr> else s"
    have rev: "kif (uacpi_signatures_match (sdt_signature ?hdr) ACPI_DSDT_SIGNATURE) (kmod (is_rev1_update (\<lambda>_. sdt_revision ?hdr < 2))) s2 = Ret () (?f s2)"
      by (simp add: kif_def kmod_def)
    have "\<exists>s3. table_alloc host (?f s2) = Ret (UACPI_STATUS_OUT_OF_MEMORY, Inline 0, 0) s3 \<and> tables s3 = tables s2 \<and> mapped s3 = mapped s2"
      using full by (auto simp: table_alloc_def table_array_alloc_def host_call_def kbind_def kseq_def kmod_def da_alloc_def da_size_def Let_def)
    with rev v False show ?thesis by (auto simp: verify_and_install_table_def kbind_def kseq_def status_defs)
  qed
qed

lemma install_rest_fails:
  assumes "header_status host ph sg want s = UACPI_STATUS_OK"
    "denied host ph origin s \<or> allowed host ph origin s \<and> (sum_bad host ph want s \<or> no_memory host ph want s)"
  shows "\<exists>s'. install_physical_body inst inst_virt host ph origin sg want s = Ret (UACPI_STATUS_OK, None) s' \<and> tables s' = tables s \<and> mapped s' = mapped s"
proof -
  let ?hdr = "shown_hdr host ph s" and ?v = "full_mapping host ph s" and ?need = "installation_handler s \<noteq> None \<or> want"
  let ?s1 = "if ?need then s\<lparr>host_calls := Suc (Suc (host_calls s)), mapped := (?v, sdt_len ?hdr) # mapped s\<rparr> else s\<lparr>host_calls := Suc (host_calls s)\<rparr>"
  let ?virt = "if ?need then ?v else 0"
  have v0: "?need \<Longrightarrow> ?v \<noteq> 0" using assms(1) by (auto simp: header_status_def status_defs split: if_splits)
  have body: "install_physical_body inst inst_virt host ph origin sg want s = install_rest inst inst_virt host ?hdr ph ?virt origin want ?s1"
    by (simp add: install_body_accepted [OF assms(1)])
  have m: "mapped ?s1 = (if ?virt \<noteq> 0 then (?v, sdt_len ?hdr) # mapped s else mapped s)" using v0 by simp
  let ?ask = "if origin = UACPI_TABLE_ORIGIN_FIRMWARE_PHYSICAL then consult_handler inst inst_virt ?virt want else kret None"
  have fails: "\<exists>ret c s2 s3. ?ask ?s1 = Ret c s2 \<and> ret \<noteq> UACPI_STATUS_OK \<and> tables s3 = tables s \<and> mapped s3 = mapped ?s1
      \<and> (case c of Some r \<Rightarrow> kret r | None \<Rightarrow> verify_and_install_table inst host ?hdr ph ?virt origin want) s2 = Ret (ret, None) s3"
  proof (cases "denied host ph origin s")
    case True
    then obtain h a where h: "origin = UACPI_TABLE_ORIGIN_FIRMWARE_PHYSICAL" "installation_handler s = Some h"
        "h (Suc (Suc (host_calls s))) ?v = (DISPOSITON_DENY, a)"
      unfolding denied_def by (metis prod.collapse)
    have "DISPOSITON_DENY \<noteq> DISPOSITON_ALLOW" by (simp add: DISPOSITON_DENY_def DISPOSITON_ALLOW_def)
    with h have "?ask ?s1 = Ret (Some (UACPI_STATUS_DENIED, None)) (?s1\<lparr>host_calls := Suc (Suc (Suc (host_calls s)))\<rparr>)"
      by (simp add: consult_handler_def host_call_def kbind_def kseq_def kmod_def)
    then show ?thesis
      by (intro exI [of _ UACPI_STATUS_DENIED] exI [of _ "Some (UACPI_STATUS_DENIED, None)"]
          exI [of _ "?s1\<lparr>host_calls := Suc (Suc (Suc (host_calls s)))\<rparr>"] conjI) (simp_all add: status_defs kret_def)
  next
    case False
    then have al: "allowed host ph origin s" "sum_bad host ph want s \<or> no_memory host ph want s" using assms(2) by auto
    have p: "installation_handler ?s1 = installation_handler s" "tables ?s1 = tables s" "ts_flags ?s1 = ts_flags s"
      "installation_handler s = None \<or> host_calls ?s1 = Suc (Suc (host_calls s)) \<and> ?virt = ?v" by auto
    obtain n where n: "?ask ?s1 = Ret None (?s1\<lparr>host_calls := n\<rparr>)" using consult_allowed [OF al(1) p(1,4), of inst inst_virt want] by blast
    have q: "?virt = ?v \<and> ?virt \<noteq> 0 \<or> ?virt = 0 \<and> host_calls (?s1\<lparr>host_calls := n\<rparr>) = Suc (host_calls s)"
      using n v0 by (cases ?need) (auto simp: consult_handler_def kbind_def split: if_splits dest!: arg_cong [where f = host_calls])
    have t: "tables (?s1\<lparr>host_calls := n\<rparr>) = tables s" "ts_flags (?s1\<lparr>host_calls := n\<rparr>) = ts_flags s"
      "mapped (?s1\<lparr>host_calls := n\<rparr>) = mapped ?s1" by simp_all
    obtain ret s3 where "verify_and_install_table inst host ?hdr ph ?virt origin want (?s1\<lparr>host_calls := n\<rparr>) = Ret (ret, None) s3" "ret \<noteq> UACPI_STATUS_OK"
        "tables s3 = tables s" "mapped s3 = mapped ?s1"
      using verify_install_fails [OF al(2) t(1,2) q, of inst origin] unfolding t by blast
    with n show ?thesis by fastforce
  qed
  then obtain ret c s2 s3 where r: "?ask ?s1 = Ret c s2" "ret \<noteq> UACPI_STATUS_OK" "tables s3 = tables s" "mapped s3 = mapped ?s1"
      "(case c of Some r \<Rightarrow> kret r | None \<Rightarrow> verify_and_install_table inst host ?hdr ph ?virt origin want) s2 = Ret (ret, None) s3" by blast
  have un: "\<exists>s4. kif (?virt \<noteq> 0) (kernel_unmap ?virt (sdt_len ?hdr)) s3 = Ret () s4 \<and> tables s4 = tables s \<and> mapped s4 = mapped s"
    using r(3,4) m v0 by (cases ?need) (auto simp: kif_def unmap_state)
  then show ?thesis unfolding body install_rest_def using r(1,2,5) by (auto simp: kbind_cases kseq_cases)
qed

text \<open>
  C36: the installation from a physical address hides its failures. The status that it returns is settled before the contents of the table matter: it
  is that of a failed mapping, of a length below that of a header or of a wrong signature where that is fatal, and
  \<open>UACPI_STATUS_OK\<close> in every other case. In particular, when the handler of the host denies a table, when its sum is
  wrong and that is fatal, and when there is no memory for its entry, the caller is told of success, although nothing is stored through \<open>out_table\<close> and
  nothing is installed.
\<close>

theorem install_hides_failures:
  "(table_install_physical_with_origin_unlocked depth host ph origin sg want s = Ret (ret, tb) s' \<longrightarrow> ret = header_status host ph sg want s)
   \<and> (header_status host ph sg want s = UACPI_STATUS_OK
       \<and> (denied host ph origin s \<or> allowed host ph origin s \<and> (sum_bad host ph want s \<or> no_memory host ph want s)) \<longrightarrow>
      (\<exists>s'. table_install_physical_with_origin_unlocked (Suc depth) host ph origin sg want s = Ret (UACPI_STATUS_OK, None) s'
         \<and> tables s' = tables s \<and> mapped s' = mapped s))"
proof (intro conjI impI)
  assume r: "table_install_physical_with_origin_unlocked depth host ph origin sg want s = Ret (ret, tb) s'"
  then obtain d where d: "depth = Suc d" by (cases depth) simp_all
  show "ret = header_status host ph sg want s"
  proof (cases "header_status host ph sg want s = UACPI_STATUS_OK")
    case True
    then show ?thesis using r install_rest_status unfolding d table_install_physical_with_origin_unlocked.simps install_body_accepted [OF True]
      by (metis (no_types))
  next
    case False
    then show ?thesis
      using r install_body_refused [OF False, of "table_install_physical_with_origin_unlocked d host" "table_install_with_origin_unlocked d host" origin]
      unfolding d by auto
  qed
qed (simp add: install_rest_fails)

text \<open>
  Three failures: a denial, a wrong sum of a wanted table with fatal sums, and a full array without memory. The memory of the host is filled with 36.
\<close>

theorem install_hides_failures_witness:
  "\<exists>s1 s2 s3.
     table_install_physical_with_origin_unlocked 1 (mapping_host\<lparr>th_mem := \<lambda>_. 36\<rparr>) 0x1000 UACPI_TABLE_ORIGIN_FIRMWARE_PHYSICAL None True
      (two_tables\<lparr>installation_handler := Some (\<lambda>_ _. (DISPOSITON_DENY, 0))\<rparr>) = Ret (UACPI_STATUS_OK, None) s1
   \<and> table_install_physical_with_origin_unlocked 1 (mapping_host\<lparr>th_mem := \<lambda>_. 36\<rparr>) 0x1000 UACPI_TABLE_ORIGIN_HOST_PHYSICAL None True
      (two_tables\<lparr>ts_flags := UACPI_FLAG_BAD_CSUM_FATAL\<rparr>) = Ret (UACPI_STATUS_OK, None) s2
   \<and> table_install_physical_with_origin_unlocked 1 (mapping_host\<lparr>th_mem := \<lambda>_. 36, th_alloc := \<lambda>_ _. None\<rparr>) 0x1000 UACPI_TABLE_ORIGIN_HOST_PHYSICAL None False
      (two_tables\<lparr>tables := zero_tables\<lparr>size_including_inline := 16\<rparr>\<rparr>) = Ret (UACPI_STATUS_OK, None) s3"
proof -
  have b: "bytes_at (\<lambda>_. 36) p n = replicate n 36" for p n by (intro nth_equalityI) (simp_all add: bytes_at_def)
  have hdr: "sdt_length (replicate 36 36) = 0x24242424" "\<not> uacpi_signatures_match (sdt_signature (replicate 36 36)) ACPI_FACS_SIGNATURE"
    "\<not> uacpi_signatures_match (sdt_signature (replicate 36 36)) ACPI_FADT_SIGNATURE" by code_simp+
  have sum: "table_checksum (replicate n 36) = of_nat n * 36" for n
  proof -
    have "foldl (+) x (replicate n 36) = x + of_nat n * (36 :: u8)" for x by (induction n arbitrary: x) (simp_all add: algebra_simps)
    then show ?thesis by (simp add: table_checksum_def)
  qed
  let ?host = "mapping_host\<lparr>th_mem := \<lambda>_. 36\<rparr>" and ?full = "mapping_host\<lparr>th_mem := \<lambda>_. 36, th_alloc := \<lambda>_ _. None\<rparr>"
  let ?s1 = "two_tables\<lparr>installation_handler := Some (\<lambda>_ _. (DISPOSITON_DENY, 0))\<rparr>" and ?s2 = "two_tables\<lparr>ts_flags := UACPI_FLAG_BAD_CSUM_FATAL\<rparr>"
  let ?s3 = "two_tables\<lparr>tables := zero_tables\<lparr>size_including_inline := 16\<rparr>\<rparr>"
  have st: "header_status h 0x1000 None w s = UACPI_STATUS_OK" "shown_hdr h 0x1000 s = replicate 36 36" "full_mapping h 0x1000 s = 0x1000"
    if "h \<in> {?host, ?full}" for h w s
    using that by (auto simp: header_status_def shown_hdr_def full_mapping_def hdr_at_def mapping_host_def demo_host_def b hdr(1) sdt_hdr_size_def)
  have no: "installation_handler two_tables = None" "ts_flags two_tables = 0" by (simp_all add: two_tables_def demo_state_def)
  have "denied ?host 0x1000 UACPI_TABLE_ORIGIN_FIRMWARE_PHYSICAL ?s1" by (simp add: denied_def)
  moreover have "sum_bad ?host 0x1000 True ?s2"
    using st [of ?host] hdr by (simp add: sum_bad_def sum_checked_def sum_fatal_def b sum)
  moreover have "no_memory ?full 0x1000 False ?s3"
    using st [of ?full] hdr no by (simp add: no_memory_def sum_checked_def UACPI_FLAG_PROACTIVE_TBL_CSUM_def da_inline_capacity_def da_size_def zero_tables_def
        UACPI_STATIC_TABLE_ARRAY_LEN_def)
  moreover have "allowed h 0x1000 UACPI_TABLE_ORIGIN_HOST_PHYSICAL s" for h s by (simp add: allowed_def)
  ultimately show ?thesis
    using install_hides_failures [of 0 ?host "0x1000" UACPI_TABLE_ORIGIN_FIRMWARE_PHYSICAL None True ?s1] st(1) [of ?host True ?s1]
      install_hides_failures [of 0 ?host "0x1000" UACPI_TABLE_ORIGIN_HOST_PHYSICAL None True ?s2] st(1) [of ?host True ?s2]
      install_hides_failures [of 0 ?full "0x1000" UACPI_TABLE_ORIGIN_HOST_PHYSICAL None False ?s3] st(1) [of ?full False ?s3]
    by (simp only: One_nat_def) blast
qed

lemma ensure_level: "early_table_access s \<or> UACPI_INIT_LEVEL_SUBSYSTEM_INITIALIZED \<le> ts_init_level s \<Longrightarrow> ensure_subsystem e f s = f s"
  by (auto simp: ensure_subsystem_def kbind_def)

text \<open>The first reference to a table whose bytes have a wrong sum, where that is fatal: it is refused and the table marked invalid.\<close>

lemma table_ref_bad_sum:
  assumes inv: "tables_inv M s" and at: "da_at (tables s) i = Some p" and host: "host_works host"
    and fl: "ts_flags s AND UACPI_FLAG_BAD_CSUM_FATAL = UACPI_FLAG_BAD_CSUM_FATAL" and t: "t = da_list (tables s) ! i"
    and fresh: "it_reference_count t = 0" "it_flags t AND UACPI_TABLE_INVALID = 0" "it_flags t AND UACPI_TABLE_CSUM_VERIFIED = 0"
      "origin_physical (it_origin t)"
    and bad: "\<forall>n. table_checksum (bytes_at (th_mem host) (th_map host n (it_phys_addr t) (sdt_len (it_hdr t))) (unat (sdt_len (it_hdr t)))) \<noteq> 0"
  shows "\<exists>s' t'. table_ref_unlocked host p s = Ret UACPI_STATUS_BAD_CHECKSUM s' \<and> at_slot M i s t' s' \<and> it_flags t' AND UACPI_TABLE_INVALID \<noteq> 0"
proof -
  let ?len = "sdt_len (it_hdr t)" and ?bad = "\<lambda>ret s'. ret = UACPI_STATUS_BAD_CHECKSUM" and ?ptr = "th_map host (host_calls s) (it_phys_addr t) (sdt_len (it_hdr t))"
  let ?M = "add_mset (?ptr, ?len) M" and ?u = "t\<lparr>it_ptr := ?ptr\<rparr>"
  have ptr: "?ptr \<noteq> 0" using host by (simp add: host_works_def)
  obtain s1 where s1: "kernel_map host (it_phys_addr t) ?len s = Ret ?ptr s1" "at_slot ?M i s t s1"
    using at_slot_map [OF at_slot_init [OF inv t], of host "it_phys_addr t" ?len] ptr
    by (auto simp: kpost_def kernel_map_def host_call_def kbind_def kseq_def kmod_def kif_def)
  have m1: "kpost (tbl_mod p (it_ptr_update (\<lambda>_. ?ptr))) (\<lambda>_. at_slot ?M i s ?u) s1"
    using s1(2) at fresh(1) by (intro at_slot_mod) auto
  have sum: "uacpi_verify_table_checksum host ?ptr ?len s2 = Ret UACPI_STATUS_BAD_CHECKSUM s2" if "at_slot ?M i s ?u s2" for s2
    using that fl bad by (simp add: uacpi_verify_table_checksum_def check_flag_def kbind_def at_slot_def keeps_slots_def)
  have m2: "kpost (tbl_mod p (\<lambda>t. t\<lparr>it_flags := it_flags t OR UACPI_TABLE_INVALID, it_ptr := 0\<rparr>)) (\<lambda>_ _. True) s3" if "at_slot M i s ?u s3" for s3
    by (rule kpost_mono [OF at_slot_mod [OF that at]]) (use fresh(1) in simp_all)
  have m3: "kpost (kernel_unmap ?ptr ?len) (\<lambda>_. at_slot M i s ?u) s2" if "at_slot ?M i s ?u s2" for s2 by (rule at_slot_unmap [OF that])
  have "kpost (table_ref_unlocked host p) ?bad s"
    unfolding table_ref_unlocked_def
  proof (rule kpost_bind [OF tbl_get_post [OF inv at]])
    fix x s' assume "s' = s \<and> x = da_list (tables s) ! i \<and> i < length (da_list (tables s))"
    then have x: "s' = s" "x = t" using t by simp_all
    have rest: "kpost (kbind (uacpi_verify_table_checksum host ?ptr ?len) (\<lambda>ret.
          if ret \<noteq> UACPI_STATUS_OK then kseq (kernel_unmap ?ptr ?len)
            (kseq (tbl_mod p (\<lambda>t. t\<lparr>it_flags := it_flags t OR UACPI_TABLE_INVALID, it_ptr := 0\<rparr>)) (kret ret))
          else kseq (tbl_mod p (\<lambda>t. t\<lparr>it_flags := it_flags t OR UACPI_TABLE_CSUM_VERIFIED\<rparr>)) (table_ref_count p))) ?bad s2"
      if "at_slot ?M i s ?u s2" for s2
    proof -
      have "kpost (kseq (kernel_unmap ?ptr ?len)
            (kseq (tbl_mod p (\<lambda>t. t\<lparr>it_flags := it_flags t OR UACPI_TABLE_INVALID, it_ptr := 0\<rparr>)) (kret UACPI_STATUS_BAD_CHECKSUM))) ?bad s2"
        by (rule kpost_seq [OF m3 [OF that]], rule kpost_seq [OF m2], assumption) simp
      then show ?thesis using sum [OF that] by (simp add: kpost_def kbind_def status_defs)
    qed
    have "kpost (kseq (tbl_mod p (it_ptr_update (\<lambda>_. ?ptr)))
       (if ?ptr = 0 then kret UACPI_STATUS_MAPPING_FAILED
        else if it_flags t AND UACPI_TABLE_CSUM_VERIFIED = 0 then
          kbind (uacpi_verify_table_checksum host ?ptr ?len) (\<lambda>ret.
          if ret \<noteq> UACPI_STATUS_OK then kseq (kernel_unmap ?ptr ?len)
            (kseq (tbl_mod p (\<lambda>t. t\<lparr>it_flags := it_flags t OR UACPI_TABLE_INVALID, it_ptr := 0\<rparr>)) (kret ret))
          else kseq (tbl_mod p (\<lambda>t. t\<lparr>it_flags := it_flags t OR UACPI_TABLE_CSUM_VERIFIED\<rparr>)) (table_ref_count p))
        else table_ref_count p)) ?bad s1"
      by (rule kpost_seq [OF m1]) (use rest ptr fresh(3) in \<open>simp del: not_not\<close>)
    then have "kpost (table_ref_map host p t) ?bad s" unfolding table_ref_map_def by (simp add: kpost_def kbind_def s1(1))
    then show "kpost (if it_reference_count x = 0 then
         if it_flags x AND UACPI_TABLE_INVALID \<noteq> 0 then kret UACPI_STATUS_INVALID_ARGUMENT
         else if \<not> origin_physical (it_origin x) then table_ref_count p else table_ref_map host p x
       else table_ref_count p) ?bad s'" using fresh x by simp
  qed
  moreover obtain ret s' where r: "table_ref_unlocked host p s = Ret ret s'" "ref_post M i s ret s'"
    using ends_returns [OF ends_refs(2) _ table_ref_unlocked_post [OF inv at, of host], of "installation_handler s"] by (auto simp: handler_is_def)
  ultimately have "ret = UACPI_STATUS_BAD_CHECKSUM" by (simp add: kpost_def)
  with r show ?thesis by (auto simp: ref_post_def at_slot_def ref_outcome_def status_defs)
qed

text \<open>A request for an invalid table is refused with the mutex locked, and nothing that takes the mutex returns after that.\<close>

lemma invalid_table_refused:
  assumes "tables_inv M s" "host_works host" "tables_open s" "table_mutex s \<noteq> 0" "idx < length (da_list (tables s))"
    "it_flags (da_list (tables s) ! idx) AND UACPI_TABLE_INVALID \<noteq> 0"
  shows "\<exists>s'. table_ctl host idx req s = Ret (UACPI_STATUS_INVALID_ARGUMENT, rq_out_tbl req) s' \<and> tables s' = tables s
     \<and> table_mutex_held s' \<and> table_mutex s' = table_mutex s \<and> (early_table_access s' \<or> UACPI_INIT_LEVEL_SUBSYSTEM_INITIALIZED \<le> ts_init_level s')"
proof -
  obtain s1 where s1: "acquire_table_mutex host s = Ret UACPI_STATUS_OK s1" "tables s1 = tables s" "table_mutex s1 = table_mutex s"
    "table_mutex_held s1" "early_table_access s1 = early_table_access s" "ts_init_level s1 = ts_init_level s"
    using acquire_works [OF assms(2), of s] assms(3,4) by (auto simp: tables_open_def)
  have dinv: "da_inv (tables s1)" and n: "length (da_list (tables s)) = da_size (tables s1)"
    using assms(1) s1(2) da_inv_length [of "tables s1"] by (auto simp: tables_inv_def)
  obtain p where p: "da_at (tables s1) idx = Some p" using da_at_read(1) [OF dinv, of idx] assms(5) n by (cases "da_at (tables s1) idx") auto
  have get: "tbl_get p s1 = Ret (da_list (tables s) ! idx) s1" using da_at_read(2) [OF dinv p] s1(2) by (simp add: tbl_get_def)
  have "table_ctl host idx req s = Ret (UACPI_STATUS_INVALID_ARGUMENT, rq_out_tbl req) s1"
    using assms(5,6) n by (simp add: table_ctl_def ensure_ready [OF assms(3)] kbind_def s1(1) table_array_at_def p get)
  then show ?thesis using s1 assms(3) by (auto simp: tables_open_def)
qed

lemma held_mutex_hangs: "host_works host \<Longrightarrow> table_mutex s \<noteq> 0 \<Longrightarrow> table_mutex_held s \<Longrightarrow> acquire_table_mutex host s = Diverge"
  by (simp add: acquire_table_mutex_def host_call_def host_works_def kbind_def kseq_def kmod_def)


text \<open>
  From the start: a table with the signature of an SSDT and a wrong sum is installed without a check, where bad sums are fatal. The first reference is
  refused, the second leaves the mutex locked, and the third hangs.
\<close>

definition fatal_state :: tables_state where
  "fatal_state = demo_state\<lparr>ts_flags := UACPI_FLAG_BAD_CSUM_FATAL\<rparr>"

definition fatal_installed :: tables_state where
  "fatal_installed = (case uacpi_table_install_physical 1 mapping_host 0x1000 False fatal_state of Ret _ s \<Rightarrow> s | _ \<Rightarrow> fatal_state)"

lemma fatal_installed_run:
  "uacpi_table_install_physical 1 mapping_host 0x1000 False fatal_state = Ret (UACPI_STATUS_OK, None) fatal_installed" "tables_inv {#} fatal_installed"
proof -
  let ?f = "uacpi_table_install_physical 1 mapping_host 0x1000 False"
  have ret: "case ?f fatal_state of Ret (a, b) s \<Rightarrow> a = UACPI_STATUS_OK \<and> b = None | _ \<Rightarrow> False" by code_simp
  then show run: "?f fatal_state = Ret (UACPI_STATUS_OK, None) fatal_installed" by (auto simp: fatal_installed_def split: kres.splits)
  have "tables_inv {#} fatal_state"
    by (simp add: tables_inv_def fatal_state_def demo_state_def zero_tables_def da_defs da_list_def table_mappings_def UACPI_STATIC_TABLE_ARRAY_LEN_def)
  moreover have "host_allocs mapping_host" by (simp add: host_allocs_def alloc_sized_def mapping_host_def demo_host_def)
  ultimately have "kpost ?f (\<lambda>_. tables_inv {#}) fatal_state" using table_safe_installs(4) [of mapping_host] by (simp add: table_safe_def)
  with run show "tables_inv {#} fatal_installed" by (simp add: kpost_def)
qed


section \<open>When installation ends\<close>

text \<open>Whether a pointer shows an FADT, and the DSDT that a table names.\<close>

definition is_fadt_at :: "table_host \<Rightarrow> u64 \<Rightarrow> bool" where
  "is_fadt_at host p \<longleftrightarrow> uacpi_signatures_match (sdt_signature (hdr_at host p)) ACPI_FADT_SIGNATURE"

definition named_dsdt :: "table_host \<Rightarrow> fadt_bytes \<Rightarrow> u64 \<Rightarrow> u64" where
  "named_dsdt host old p = fadt64 (fadt_prepare old (bytes_at (th_mem host) p (unat (sdt_length (hdr_at host p))))) FADT_X_DSDT"

lemma ends_alloc [ends_intros]: "ends (handler_is h) (table_alloc host)"
proof -
  have "ends (handler_is h) (table_array_alloc host)"
    by (auto simp: ends_def table_array_alloc_def host_call_def kbind_def kseq_def kmod_def handler_is_def split: prod.splits)
  then show ?thesis unfolding table_alloc_def by (intro ends_intros)
qed

lemma ends_header: "ends (handler_is h) (get_external_table_header host ph)"
  unfolding get_external_table_header_def Let_def by (intro ends_intros)

lemma ends_bind_val:
  assumes "ends I f" "\<And>s x s'. I s \<Longrightarrow> f s = Ret x s' \<Longrightarrow> P x" "\<And>x. P x \<Longrightarrow> ends I (g x)"
  shows "ends I (kbind f g)"
  unfolding ends_def
proof (intro allI impI)
  fix s assume "I s"
  with assms(1) have "case f s of Ret x s' \<Rightarrow> I s' | Fault \<Rightarrow> True | _ \<Rightarrow> False" by (simp add: ends_def)
  with assms(2) [OF \<open>I s\<close>] assms(3) show "case kbind f g s of Ret x s' \<Rightarrow> I s' | Fault \<Rightarrow> True | _ \<Rightarrow> False"
    by (cases "f s") (auto simp: kbind_def ends_def)
qed

text \<open>
  The installations that an installation starts. A call has the physical or virtual address of the table and says whether the table comes from the
  firmware, for then the handler is consulted. It leads to the installation of the DSDT that it names if the table shows the
  signature of an FADT, and to that of a table that the handler puts in its place.
\<close>

datatype install_call = Physical u64 bool | Virtual u64 bool

fun shown_at :: "table_host \<Rightarrow> install_call \<Rightarrow> u64 \<Rightarrow> bool" where
  "shown_at host (Physical ph _) p \<longleftrightarrow> (\<exists>n len. p = th_map host n ph len)"
| "shown_at host (Virtual v _) p \<longleftrightarrow> p = v \<or> v = 0 \<and> (\<exists>n len. p = th_map host n 0 len)"

fun from_firmware :: "install_call \<Rightarrow> bool" where
  "from_firmware (Physical _ fw) = fw"
| "from_firmware (Virtual _ fw) = fw"

inductive nested_call :: "table_host \<Rightarrow> table_installation_handler option \<Rightarrow> install_call \<Rightarrow> install_call \<Rightarrow> bool"
    for host :: table_host and h :: "table_installation_handler option" where
  dsdt: "shown_at host c p \<Longrightarrow> is_fadt_at host p \<Longrightarrow> shown_at host c q \<Longrightarrow> named_dsdt host old q \<noteq> 0 \<Longrightarrow>
    nested_call host h c (Physical (named_dsdt host old q) True)"
| physical_override: "from_firmware c \<Longrightarrow> h = Some f \<Longrightarrow> shown_at host c v \<Longrightarrow> f n v = (DISPOSITON_PHYSICAL_OVERRIDE, a) \<Longrightarrow>
    nested_call host h c (Physical a False)"
| virtual_override: "from_firmware c \<Longrightarrow> h = Some f \<Longrightarrow> shown_at host c v \<Longrightarrow> f n v = (DISPOSITON_VIRTUAL_OVERRIDE, a) \<Longrightarrow>
    nested_call host h c (Virtual a False)"

text \<open>What the functions that install a table do for a call, and that it ends for all calls that one leads to.\<close>

fun call_ends :: "table_installation_handler option \<Rightarrow> install_physical \<Rightarrow> install_virtual \<Rightarrow> install_call \<Rightarrow> bool" where
  "call_ends h inst inst_virt (Physical ph fw) \<longleftrightarrow> (\<forall>origin sg want. origin_physical origin \<longrightarrow>
     fw = (origin = UACPI_TABLE_ORIGIN_FIRMWARE_PHYSICAL) \<longrightarrow> ends (handler_is h) (inst ph origin sg want))"
| "call_ends h inst inst_virt (Virtual v fw) \<longleftrightarrow> (\<forall>origin want. \<not> origin_physical origin \<longrightarrow>
     fw = (origin = UACPI_TABLE_ORIGIN_FIRMWARE_VIRTUAL) \<longrightarrow> ends (handler_is h) (inst_virt v origin want))"

definition nested_end :: "table_host \<Rightarrow> table_installation_handler option \<Rightarrow> install_physical \<Rightarrow> install_virtual \<Rightarrow> install_call \<Rightarrow> bool" where
  "nested_end host h inst inst_virt c \<longleftrightarrow> (\<forall>c'. nested_call host h c c' \<longrightarrow> call_ends h inst inst_virt c')"

lemma ends_consult:
  assumes "nested_end host h inst inst_virt c" "from_firmware c" "shown_at host c virt"
  shows "ends (handler_is h) (consult_handler inst inst_virt virt want)"
proof -
  have phys: "ends (handler_is h) (inst a UACPI_TABLE_ORIGIN_HOST_PHYSICAL None want)"
    if "h = Some f" "f n virt = (DISPOSITON_PHYSICAL_OVERRIDE, a)" for f n a
    using assms(1) physical_override [OF assms(2) that(1) assms(3) that(2)] unfolding nested_end_def by fastforce
  have virt: "ends (handler_is h) (inst_virt a UACPI_TABLE_ORIGIN_HOST_VIRTUAL want)"
    if "h = Some f" "f n virt = (DISPOSITON_VIRTUAL_OVERRIDE, a)" for f n a
    using assms(1) virtual_override [OF assms(2) that(1) assms(3) that(2)] unfolding nested_end_def by fastforce
  have over: "ends (handler_is h) (handle_table_override inst inst_virt d a want)" if "h = Some f" "f n virt = (d, a)" for f n d a
    using phys [OF that(1)] virt [OF that(1)] that(2) unfolding handle_table_override_def by (auto intro!: ends_if ends_kret)
  show ?thesis unfolding consult_handler_def
  proof (rule ends_bind_val [OF ends_kget, where P = "\<lambda>x. x = h"], simp add: handler_is_def, rule ends_option [OF ends_kret])
    fix x f assume f: "x = h" "x = Some f"
    show "ends (handler_is h) (kbind (host_call (\<lambda>n. f n virt)) (\<lambda>(disposition, override).
         if disposition = DISPOSITON_ALLOW then kret None else if disposition = DISPOSITON_DENY then kret (Some (UACPI_STATUS_DENIED, None))
         else kbind (handle_table_override inst inst_virt disposition override want) (\<lambda>(ret, tb).
           kret (Some (if ret = UACPI_STATUS_OK then UACPI_STATUS_OVERRIDDEN else ret, tb)))))"
    proof (rule ends_bind_val [OF ends_host, where P = "\<lambda>r. \<exists>n. r = f n virt"])
      fix s r s' assume "host_call (\<lambda>n. f n virt) s = Ret r s'"
      then show "\<exists>n. r = f n virt" by (auto simp: host_call_def kbind_Ret_iff kseq_Ret_iff)
    next
      fix r assume "\<exists>n. r = f n virt"
      then obtain n where n: "f n virt = r" by blast
      show "ends (handler_is h) (case r of (disposition, override) \<Rightarrow>
         if disposition = DISPOSITON_ALLOW then kret None else if disposition = DISPOSITON_DENY then kret (Some (UACPI_STATUS_DENIED, None))
         else kbind (handle_table_override inst inst_virt disposition override want) (\<lambda>(ret, tb).
           kret (Some (if ret = UACPI_STATUS_OK then UACPI_STATUS_OVERRIDDEN else ret, tb))))"
        by (intro ends_intros) (rule over [of f n], use f n in auto)
    qed
  qed
qed

lemma header_value:
  "get_external_table_header host ph s = Ret (ret, hdr) s' \<Longrightarrow> ret = UACPI_STATUS_OK \<Longrightarrow> \<exists>n. hdr = hdr_at host (th_map host n ph sdt_hdr_size)"
  by (auto simp: get_external_table_header_def Let_def kbind_Ret_iff kseq_Ret_iff kernel_map_def host_call_def hdr_at_def status_defs split: if_splits)

lemma ends_initialize_fadt:
  assumes "\<And>old. named_dsdt host old p \<noteq> 0 \<Longrightarrow>
      ends (handler_is h) (inst (named_dsdt host old p) UACPI_TABLE_ORIGIN_FIRMWARE_PHYSICAL (Some ACPI_DSDT_SIGNATURE) False)"
  shows "ends (handler_is h) (initialize_fadt inst host p)"
  unfolding ends_def
proof (intro allI impI)
  fix s assume I: "handler_is h s"
  let ?x = "named_dsdt host (ts_fadt s) p"
  let ?s1 = "s\<lparr>ts_fadt := fadt_prepare (ts_fadt s) (bytes_at (th_mem host) p (unat (sdt_length (hdr_at host p))))\<rparr>"
  let ?s2 = "?s1\<lparr>is_hardware_reduced := fadt32 (ts_fadt ?s1) FADT_FLAGS AND ACPI_HW_REDUCED_ACPI \<noteq> 0\<rparr>"
  let ?k = "kbind (if ?x \<noteq> 0 then kbind (inst ?x UACPI_TABLE_ORIGIN_FIRMWARE_PHYSICAL (Some ACPI_DSDT_SIGNATURE) False) (\<lambda>(ret, _). kret ret)
             else kret UACPI_STATUS_OK) (\<lambda>ret.
      if ret \<noteq> UACPI_STATUS_OK \<and> ret \<noteq> UACPI_STATUS_OVERRIDDEN then kret ret
      else kseq (kmod (\<lambda>s. let (f, e) = fadt_finish (is_hardware_reduced s) (ts_fadt s) (ts_blocks s)
                           in s\<lparr>ts_fadt := f, ts_blocks := e\<rparr>)) (kret UACPI_STATUS_OK))"
  have "initialize_fadt inst host p s = ?k ?s2"
    by (simp add: initialize_fadt_def hdr_at_def named_dsdt_def kseq_def kbind_def kmod_def Let_def)
  moreover have "ends (handler_is h) ?k"
    by (intro ends_intros assms) (simp_all add: handler_is_def split_beta Let_def)
  moreover have "handler_is h ?s2" using I by (simp add: handler_is_def)
  ultimately show "case initialize_fadt inst host p s of Ret x s' \<Rightarrow> handler_is h s' | Fault \<Rightarrow> True | _ \<Rightarrow> False"
    by (simp add: ends_def)
qed

lemma mapped_shown: "kernel_map host ph len s = Ret x s' \<Longrightarrow> shown_at host (Physical ph fw) x"
  by (cases "th_map host (host_calls s) ph len = 0")
    (auto simp: kernel_map_def host_call_def kbind_def kseq_def kmod_def kif_def intro!: exI [of _ "host_calls s"] exI [of _ len])

text \<open>Verifying a header that the call shows, at a pointer that it shows or at one that is mapped for it.\<close>

lemma ends_verify:
  assumes nest: "nested_end host h inst inst_virt c" and hdr: "shown_at host c p" "hdr = hdr_at host p"
    and virt: "virt = 0 \<longrightarrow> (\<forall>n len. shown_at host c (th_map host n ph len))" "virt \<noteq> 0 \<longrightarrow> shown_at host c virt"
  shows "ends (handler_is h) (verify_table inst host hdr ph virt want)"
proof -
  have map: "shown_at host c x"
    if "(if virt = 0 then kernel_map host ph len else kret virt) s = Ret x s'" for len s x s'
    using that virt mapped_shown [of host ph len s x s'] by (cases "virt = 0") auto
  have fadt: "ends (handler_is h) (initialize_fadt inst host q)"
    if "uacpi_signatures_match (sdt_signature hdr) ACPI_FADT_SIGNATURE" "shown_at host c q" for q
  proof (rule ends_initialize_fadt)
    fix old assume "named_dsdt host old q \<noteq> 0"
    with that hdr have "nested_call host h c (Physical (named_dsdt host old q) True)" by (intro dsdt [of _ _ p]) (simp_all add: is_fadt_at_def)
    with nest show "ends (handler_is h) (inst (named_dsdt host old q) UACPI_TABLE_ORIGIN_FIRMWARE_PHYSICAL (Some ACPI_DSDT_SIGNATURE) False)"
      unfolding nested_end_def by fastforce
  qed
  show ?thesis unfolding verify_table_def Let_def
    apply (rule ends_if, rule ends_kret, rule ends_kbind, intro ends_intros, rule ends_if)
     apply (rule ends_bind_val [where P = "shown_at host c"], intro ends_intros, erule map)
     apply (intro ends_intros fadt, assumption, assumption)
    apply (intro ends_intros)
    done
qed

lemma ends_verify_install:
  assumes "ends (handler_is h) (verify_table inst host hdr ph virt want)"
  shows "ends (handler_is h) (verify_and_install_table inst host hdr ph virt origin want)"
  unfolding verify_and_install_table_def by (intro ends_intros assms) (simp add: handler_is_def)

text \<open>An installation ends if those end that it leads to.\<close>

lemma ends_physical_body:
  assumes "nested_end host h inst inst_virt (Physical ph (origin = UACPI_TABLE_ORIGIN_FIRMWARE_PHYSICAL))"
  shows "ends (handler_is h) (install_physical_body inst inst_virt host ph origin sg want)"
proof -
  let ?c = "Physical ph (origin = UACPI_TABLE_ORIGIN_FIRMWARE_PHYSICAL)"
  let ?P = "\<lambda>r. fst r = UACPI_STATUS_OK \<longrightarrow> (\<exists>n. snd r = hdr_at host (th_map host n ph sdt_hdr_size))"
  let ?V = "\<lambda>need virt. (need \<longrightarrow> shown_at host ?c virt) \<and> (\<not> need \<longrightarrow> virt = 0)"
  have map: "?V need x" if "(if need then kernel_map host ph len else kret 0) s = Ret x s'" for need len s x s'
    using that mapped_shown by (cases need) (auto simp del: shown_at.simps)
  have consult: "ends (handler_is h) (if origin = UACPI_TABLE_ORIGIN_FIRMWARE_PHYSICAL then consult_handler inst inst_virt virt want else kret None)"
    if "?V (h \<noteq> None \<or> want) virt" for virt
  proof (cases "h = None \<and> \<not> want")
    case True
    then have "ends (handler_is h) (consult_handler inst inst_virt virt want)"
      unfolding consult_handler_def by (intro ends_bind_val [OF ends_kget, where P = "\<lambda>x. x = None"]) (auto simp: handler_is_def intro: ends_kret)
    then show ?thesis by (simp add: ends_kret)
  next
    case False
    with that have "shown_at host ?c virt" by (cases "h = None") (simp_all del: shown_at.simps)
    then show ?thesis using ends_consult [OF assms] by (auto intro: ends_if ends_kret)
  qed
  have verify: "ends (handler_is h) (verify_table inst host hdr ph virt want)"
    if hd: "\<exists>n. hdr = hdr_at host (th_map host n ph sdt_hdr_size)" and vi: "?V need virt" for hdr virt need
  proof -
    from hd obtain n where n: "hdr = hdr_at host (th_map host n ph sdt_hdr_size)" ..
    show ?thesis
    proof (rule ends_verify [OF assms, of "th_map host n ph sdt_hdr_size"])
      show "virt \<noteq> 0 \<longrightarrow> shown_at host ?c virt" using vi by (cases need) (simp_all del: shown_at.simps)
    qed (use n in auto)
  qed
  have rest: "ends (handler_is h) (kbind (if origin = UACPI_TABLE_ORIGIN_FIRMWARE_PHYSICAL then consult_handler inst inst_virt virt want else kret None) (\<lambda>c.
     kbind (case c of Some r \<Rightarrow> kret r | None \<Rightarrow> verify_and_install_table inst host hdr ph virt origin want) (\<lambda>(ret, tb).
     if ret = UACPI_STATUS_OK \<and> want then kret (ret, tb)
     else kseq (kif (virt \<noteq> 0) (kernel_unmap virt (sdt_len hdr))) (kret (UACPI_STATUS_OK, tb)))))"
    if "\<exists>n. hdr = hdr_at host (th_map host n ph sdt_hdr_size)" "?V (h \<noteq> None \<or> want) virt" for hdr virt
    by (intro ends_kbind consult [OF that(2)] ends_option ends_kret ends_verify_install verify [OF that] ends_split ends_if ends_kseq ends_kif ends_unmap)
  show ?thesis unfolding install_physical_body_def
    apply (rule ends_bind_val [OF ends_header, where P = ?P])
     apply (use header_value in fastforce)
    apply (rule ends_split, rule ends_if, rule ends_kret, rule ends_if, rule ends_kret)
    apply (rule ends_kbind, intro ends_intros, rule ends_if, rule ends_kret)
    apply (rule ends_bind_val [OF ends_kget, where P = "\<lambda>need. need = (h \<noteq> None \<or> want)"], simp add: handler_is_def)
    apply (rule ends_bind_val [where P = "?V (h \<noteq> None \<or> want)"], intro ends_intros, rule map, simp)
    apply (rule ends_if, rule ends_kret, rule rest)
     apply (use not_not in auto)
    done
qed

lemma ends_virtual_body:
  assumes "nested_end host h inst inst_virt (Virtual v (origin = UACPI_TABLE_ORIGIN_FIRMWARE_VIRTUAL))"
  shows "ends (handler_is h) (install_virtual_body inst inst_virt host v origin want)"
proof -
  have consult: "ends (handler_is h) (if origin = UACPI_TABLE_ORIGIN_FIRMWARE_VIRTUAL then consult_handler inst inst_virt v want else kret None)"
    using ends_consult [OF assms] by (auto intro: ends_if ends_kret)
  have "ends (handler_is h) (verify_table inst host (hdr_at host v) 0 v want)"
    by (intro ends_verify [OF assms, of v]) auto
  then show ?thesis unfolding install_virtual_body_def Let_def hdr_at_def [symmetric]
    by (intro ends_if ends_kret ends_kbind consult ends_option ends_verify_install)
qed

text \<open>Calls that nest no deeper than the bound end.\<close>

lemma ends_call:
  assumes "\<forall>c'. \<not> (nested_call host h ^^ Suc k) c c'"
  shows "call_ends h (table_install_physical_with_origin_unlocked (Suc k + d) host) (table_install_with_origin_unlocked (Suc k + d) host) c"
  using assms
proof (induction k arbitrary: c)
  case 0
  then have "nested_end host h inst inst_virt c" for inst inst_virt by (simp add: nested_end_def eq_OO)
  then show ?case by (cases c) (auto intro: ends_physical_body ends_virtual_body)
next
  case (Suc k)
  have "\<forall>c2. \<not> (nested_call host h ^^ Suc k) c' c2" if "nested_call host h c c'" for c'
    using Suc.prems that relpowp_Suc_I2 [of "nested_call host h" c c' "Suc k"] by blast
  then have "nested_end host h (table_install_physical_with_origin_unlocked (Suc k + d) host) (table_install_with_origin_unlocked (Suc k + d) host) c"
    using Suc.IH unfolding nested_end_def by blast
  then show ?case by (cases c) (auto intro: ends_physical_body ends_virtual_body)
qed


text \<open>The DSDT that a long enough table names, whatever was there before.\<close>

lemma named_dsdt_given:
  assumes "148 \<le> sdt_length (hdr_at host p)" "x = le_word (bytes_at (th_mem host) (p + 140) 8)" "x \<noteq> 0"
  shows "named_dsdt host old p = x"
proof -
  define table where "table = bytes_at (th_mem host) p (unat (sdt_length (hdr_at host p)))"
  define f where "f = take fadt_size table @ drop (length (take fadt_size table)) old"
  have len: "148 \<le> length table" using assms(1) by (simp add: table_def word_le_nat_alt)
  have "take 8 (drop 140 table) = bytes_at (th_mem host) (p + 140) 8"
    using len by (intro nth_equalityI) (simp_all add: table_def bytes_at_def add.assoc)
  then have f: "148 \<le> length f" "take 8 (drop 140 f) = bytes_at (th_mem host) (p + 140) 8"
    using len by (simp_all add: f_def fadt_size_def drop_take)
  have put: "take 8 (drop 140 (fadt_put off bs g)) = take 8 (drop 140 g)" "148 \<le> length (fadt_put off bs g)"
    if "148 \<le> length g" "off + length bs \<le> 140" for off bs g
    using that by (auto intro!: fadt_slice)
  have rev: "take 8 (drop 140 (fadt_ensure_correct_revision f)) = take 8 (drop 140 f)" "148 \<le> length (fadt_ensure_correct_revision f)"
    using f(1) by (simp_all add: fadt_ensure_correct_revision_def Let_def put FADT_REVISION_def)
  let ?g = "fadt_ensure_correct_revision f"
  have clear: "take 8 (drop 140 (fadt_put FADT_IAPC_BOOT_ARCH [0, 0] (fadt_put FADT_CST_CNT [0] (fadt_put FADT_PSTATE_CNT [0]
      (fadt_put FADT_PREFERRED_PM_PROFILE [0] ?g))))) = take 8 (drop 140 ?g)"
    using rev(2) by (simp add: put fadt_offsets)
  have "fadt_prepare old table = (let g = (if fadt8 ?g FADT_REVISION \<le> 2
        then fadt_put FADT_IAPC_BOOT_ARCH [0, 0] (fadt_put FADT_CST_CNT [0] (fadt_put FADT_PSTATE_CNT [0] (fadt_put FADT_PREFERRED_PM_PROFILE [0] ?g))) else ?g)
      in if fadt64 g FADT_X_DSDT = 0 then fadt_put FADT_X_DSDT (word_bytes 8 (ucast (fadt32 g FADT_DSDT) :: u64)) g else g)"
    by (simp add: fadt_prepare_def f_def Let_def)
  then show ?thesis using assms(2,3) f(2) rev(1) clear
    by (simp add: named_dsdt_def table_def [symmetric] fadt64_def FADT_X_DSDT_def Let_def)
qed

text \<open>An FADT at 0x1000 that names a DSDT at 0x3000.\<close>

definition fadt_mem :: mem where
  "fadt_mem a = (if a = 0x1000 then 0x46 else if a = 0x1001 then 0x41 else if a = 0x1002 then 0x43 else if a = 0x1003 then 0x50
     else if a = 0x1004 then 0x14 else if a = 0x1005 then 1 else if a = 0x108D then 0x30 else if a = 0x3004 then 36 else 0)"

definition fadt_host :: table_host where
  "fadt_host = demo_host\<lparr>th_mem := fadt_mem\<rparr>"


text \<open>
  C37: an FADT that names itself as the DSDT is installed for ever. The wrong signature is only worth a warning, so the FADT is taken
  for the DSDT and initialised again, which installs its DSDT, itself: for every bound on the depth of the calls the installation does not
  return.
\<close>

theorem fadt_naming_itself_diverges:
  assumes map: "\<forall>n len. th_map host n ph len = p" "p \<noteq> 0" and sg: "is_fadt_at host p" and len: "148 \<le> sdt_length (hdr_at host p)"
    and self: "le_word (bytes_at (th_mem host) (p + 140) 8) = ph" "ph \<noteq> 0" and s: "installation_handler s = None" "ts_flags s = 0"
  shows "table_install_physical_with_origin_unlocked depth host ph origin expected False s = Diverge"
  using s
proof (induction depth arbitrary: s origin expected)
  case (Suc depth)
  let ?inst = "table_install_physical_with_origin_unlocked depth host"
  let ?hdr = "hdr_at host p"
  let ?I = "\<lambda>s. installation_handler s = None \<and> ts_flags s = 0"
  have mp: "\<exists>s'. kernel_map host ph n s = Ret p s' \<and> mapped s' = (p, n) # mapped s \<and> ?I s'" if "?I s" for s n
    using that map by (simp add: kernel_map_def host_call_def kbind_def kseq_def kmod_def kif_def)
  have hdr: "\<exists>s'. get_external_table_header host ph s = Ret (UACPI_STATUS_OK, ?hdr) s' \<and> ?I s'" if I: "?I s" for s
  proof -
    obtain s1 where "kernel_map host ph sdt_hdr_size s = Ret p s1" "mapped s1 = (p, sdt_hdr_size) # mapped s" "?I s1" using mp [OF I] by blast
    then show ?thesis using map(2) by (simp add: get_external_table_header_def Let_def kbind_def kseq_def kernel_unmap_def kmod_def hdr_at_def)
  qed
  have nofl: "check_flag UACPI_FLAG_BAD_CSUM_FATAL s = Ret False s" "check_flag UACPI_FLAG_BAD_TBL_SIGNATURE_FATAL s = Ret False s"
    "check_flag UACPI_FLAG_PROACTIVE_TBL_CSUM s = Ret False s" if "?I s" for s
    using that by (simp_all add: check_flag_def UACPI_FLAG_BAD_CSUM_FATAL_def UACPI_FLAG_BAD_TBL_SIGNATURE_FATAL_def UACPI_FLAG_PROACTIVE_TBL_CSUM_def)
  have sum: "uacpi_verify_table_checksum host p n s = Ret UACPI_STATUS_OK s" if "?I s" for s n
    using nofl(1) [OF that] by (simp add: uacpi_verify_table_checksum_def kbind_def)
  have sgn: "(case expected of None \<Rightarrow> kret UACPI_STATUS_OK | Some e \<Rightarrow> uacpi_check_table_signature ?hdr e) s = Ret UACPI_STATUS_OK s" if "?I s" for s
    using nofl(2) [OF that] by (simp add: uacpi_check_table_signature_def kbind_def split: option.split)
  have init: "initialize_fadt ?inst host p s = Diverge" if "?I s" for s
  proof -
    have "named_dsdt host (ts_fadt s) p = ph" using named_dsdt_given [OF len] self by metis
    then show ?thesis using Suc.IH that self(2)
      by (simp add: initialize_fadt_def hdr_at_def [symmetric] named_dsdt_def kseq_def kbind_def kmod_def Let_def)
  qed
  have nfacs: "\<not> uacpi_signatures_match (sdt_signature ?hdr) ACPI_FACS_SIGNATURE"
    using sg by (simp add: is_fadt_at_def uacpi_signatures_match_def ACPI_FACS_SIGNATURE_def ACPI_FADT_SIGNATURE_def sig_def)
  have ver: "verify_table ?inst host ?hdr ph 0 False s = Diverge" if I: "?I s" for s
  proof -
    obtain s1 where m: "kernel_map host ph (sdt_len ?hdr) s = Ret p s1" "?I s1" using mp [OF I] by blast
    show ?thesis using nfacs sg map(2) I
      by (simp add: verify_table_def is_fadt_at_def [symmetric] hdr_at_def [symmetric] kbind_def nofl(3) m(1) sum [OF m(2)] init [OF m(2)])
  qed
  have "\<not> sdt_len ?hdr < sdt_hdr_size" using len by (simp add: sdt_hdr_size_def word_less_nat_alt word_le_nat_alt unat_ucast_up)
  moreover obtain s1 where s1: "get_external_table_header host ph s = Ret (UACPI_STATUS_OK, ?hdr) s1" "?I s1" using hdr [of s] Suc.prems by blast
  ultimately show ?case using sgn [OF s1(2)] ver [OF s1(2)] s1(2)
    by (simp add: install_physical_body_def kbind_def consult_handler_def verify_and_install_table_def)
qed simp

theorem fadt_naming_itself_diverges_witness:
  "table_install_physical_with_origin_unlocked 1000 (fadt_host\<lparr>th_mem := fadt_mem(0x108D := 0x10)\<rparr>) 0x1000 UACPI_TABLE_ORIGIN_FIRMWARE_PHYSICAL
     None False demo_state = Diverge"
proof -
  let ?host = "fadt_host\<lparr>th_mem := fadt_mem(0x108D := 0x10)\<rparr>"
  have "is_fadt_at ?host 0x1000" "(148 :: u32) \<le> sdt_length (hdr_at ?host 0x1000)"
      "le_word (bytes_at (th_mem ?host) (0x1000 + 140) 8) = (0x1000 :: u64)" by code_simp+
  moreover have "\<forall>n len. th_map ?host n 0x1000 len = 0x1000" by (simp add: fadt_host_def demo_host_def)
  moreover have "installation_handler demo_state = None" "ts_flags demo_state = 0" by (simp_all add: demo_state_def)
  ultimately show ?thesis by (intro fadt_naming_itself_diverges [where p = "0x1000"]) simp_all
qed

end
