(* ===== verification/UacpiObjects.thy ===== *)
theory UacpiObjects
  imports UacpiTables
begin

text \<open>
  AML objects, \<^verbatim>\<open>src/uacpi/types.c\<close>: construction, reference counts, assignment and the interface for users. Objects
  and what they own are cells of a heap. The allocator gives every allocation an address of its own and never uses an
  address twice; whether an allocation succeeds is the host's decision, and it fails when no address is left. An
  access to a cell that was freed, or that contains another structure, is undefined. Freeing an operation region over a
  table goes through the table array of \<open>UacpiTables\<close>. Messages are left out.

  Freeing and copying are recursive in C. The argument \<open>depth\<close> bounds the depth of the calls; a recursion that goes deeper
  has the outcome of one that does not end.
\<close>

section \<open>Objects\<close>

datatype uacpi_object_type =
    UACPI_OBJECT_UNINITIALIZED | UACPI_OBJECT_INTEGER | UACPI_OBJECT_STRING | UACPI_OBJECT_BUFFER | UACPI_OBJECT_PACKAGE
  | UACPI_OBJECT_FIELD_UNIT | UACPI_OBJECT_DEVICE | UACPI_OBJECT_EVENT | UACPI_OBJECT_METHOD | UACPI_OBJECT_MUTEX
  | UACPI_OBJECT_OPERATION_REGION | UACPI_OBJECT_POWER_RESOURCE | UACPI_OBJECT_PROCESSOR | UACPI_OBJECT_THERMAL_ZONE
  | UACPI_OBJECT_BUFFER_FIELD | UACPI_OBJECT_DEBUG | UACPI_OBJECT_REFERENCE | UACPI_OBJECT_BUFFER_INDEX

fun object_type_value :: "uacpi_object_type \<Rightarrow> nat" where
  "object_type_value UACPI_OBJECT_UNINITIALIZED = 0"
| "object_type_value UACPI_OBJECT_INTEGER = 1"
| "object_type_value UACPI_OBJECT_STRING = 2"
| "object_type_value UACPI_OBJECT_BUFFER = 3"
| "object_type_value UACPI_OBJECT_PACKAGE = 4"
| "object_type_value UACPI_OBJECT_FIELD_UNIT = 5"
| "object_type_value UACPI_OBJECT_DEVICE = 6"
| "object_type_value UACPI_OBJECT_EVENT = 7"
| "object_type_value UACPI_OBJECT_METHOD = 8"
| "object_type_value UACPI_OBJECT_MUTEX = 9"
| "object_type_value UACPI_OBJECT_OPERATION_REGION = 10"
| "object_type_value UACPI_OBJECT_POWER_RESOURCE = 11"
| "object_type_value UACPI_OBJECT_PROCESSOR = 12"
| "object_type_value UACPI_OBJECT_THERMAL_ZONE = 13"
| "object_type_value UACPI_OBJECT_BUFFER_FIELD = 14"
| "object_type_value UACPI_OBJECT_DEBUG = 16"
| "object_type_value UACPI_OBJECT_REFERENCE = 20"
| "object_type_value UACPI_OBJECT_BUFFER_INDEX = 21"

text \<open>The bit of a type, and the masks of several.\<close>

definition object_type_bit :: "uacpi_object_type \<Rightarrow> u32" where
  "object_type_bit t = push_bit (object_type_value t) 1"

definition UACPI_OBJECT_ANY_BIT :: u32 where "UACPI_OBJECT_ANY_BIT = 0xFFFFFFFF"

fun uacpi_object_type_to_string :: "uacpi_object_type \<Rightarrow> string" where
  "uacpi_object_type_to_string UACPI_OBJECT_UNINITIALIZED = ''Uninitialized''"
| "uacpi_object_type_to_string UACPI_OBJECT_INTEGER = ''Integer''"
| "uacpi_object_type_to_string UACPI_OBJECT_STRING = ''String''"
| "uacpi_object_type_to_string UACPI_OBJECT_BUFFER = ''Buffer''"
| "uacpi_object_type_to_string UACPI_OBJECT_PACKAGE = ''Package''"
| "uacpi_object_type_to_string UACPI_OBJECT_FIELD_UNIT = ''Field Unit''"
| "uacpi_object_type_to_string UACPI_OBJECT_DEVICE = ''Device''"
| "uacpi_object_type_to_string UACPI_OBJECT_EVENT = ''Event''"
| "uacpi_object_type_to_string UACPI_OBJECT_REFERENCE = ''Reference''"
| "uacpi_object_type_to_string UACPI_OBJECT_BUFFER_INDEX = ''Buffer Index''"
| "uacpi_object_type_to_string UACPI_OBJECT_METHOD = ''Method''"
| "uacpi_object_type_to_string UACPI_OBJECT_MUTEX = ''Mutex''"
| "uacpi_object_type_to_string UACPI_OBJECT_OPERATION_REGION = ''Operation Region''"
| "uacpi_object_type_to_string UACPI_OBJECT_POWER_RESOURCE = ''Power Resource''"
| "uacpi_object_type_to_string UACPI_OBJECT_PROCESSOR = ''Processor''"
| "uacpi_object_type_to_string UACPI_OBJECT_THERMAL_ZONE = ''Thermal Zone''"
| "uacpi_object_type_to_string UACPI_OBJECT_BUFFER_FIELD = ''Buffer Field''"
| "uacpi_object_type_to_string UACPI_OBJECT_DEBUG = ''Debug''"

definition UACPI_ADDRESS_SPACE_TABLE_DATA :: u16 where "UACPI_ADDRESS_SPACE_TABLE_DATA = 0xDA1A"

definition uacpi_address_space_to_string :: "nat \<Rightarrow> string" where
  "uacpi_address_space_to_string space =
     (case map_of [(0, ''SystemMemory''), (1, ''SystemIO''), (2, ''PCI_Config''), (3, ''EmbeddedControl''), (4, ''SMBus''),
        (5, ''SystemCMOS''), (6, ''PciBarTarget''), (7, ''IPMI''), (8, ''GeneralPurposeIO''), (9, ''GenericSerialBus''),
        (0x0A, ''PCC''), (0x0B, ''PRM''), (0x7F, ''FFixedHW''), (0xDA1A, ''TableData'')] space of
        Some str \<Rightarrow> str | None \<Rightarrow> ''<vendor specific>'')"

definition UACPI_REFERENCE_KIND_REFOF :: u8 where "UACPI_REFERENCE_KIND_REFOF = 0"
definition UACPI_REFERENCE_KIND_LOCAL :: u8 where "UACPI_REFERENCE_KIND_LOCAL = 1"
definition UACPI_REFERENCE_KIND_ARG :: u8 where "UACPI_REFERENCE_KIND_ARG = 2"
definition UACPI_REFERENCE_KIND_NAMED :: u8 where "UACPI_REFERENCE_KIND_NAMED = 3"
definition UACPI_REFERENCE_KIND_PKG_INDEX :: u8 where "UACPI_REFERENCE_KIND_PKG_INDEX = 4"

definition UACPI_STRING_KIND_PATH :: u8 where "UACPI_STRING_KIND_PATH = 1"

text \<open>
  The union of an object is its three words: an integer or a pointer is the first; a buffer field has the backing buffer,
  the bit index, and then the bit length and the flag \<open>force_buffer\<close>; a buffer index has the index and the
  buffer; a power resource lies in the bytes of the first.
\<close>

record uacpi_object =
  ob_type :: uacpi_object_type
  ob_flags :: u8
  ob_w0 :: u64
  ob_w1 :: u64
  ob_w2 :: u64

record uacpi_buffer =
  buf_data :: u64
  buf_size :: u64

record uacpi_package =
  pkg_objects :: u64
  pkg_count :: u64

record uacpi_mutex =
  mtx_handle :: u64
  mtx_owner :: "thread option"
  mtx_depth :: u16
  mtx_sync_level :: u8

record uacpi_address_space_handler =
  ash_callback :: u64
  ash_user_context :: u64
  ash_next :: u64
  ash_regions :: u64
  ash_space :: u16
  ash_flags :: u16

text \<open>The header that devices, processors and thermal zones have in common.\<close>

record uacpi_handlers =
  address_space_head :: u64
  notify_head :: u64

record uacpi_processor =
  pr_handlers :: uacpi_handlers
  pr_id :: u8
  pr_block_address :: u32
  pr_block_length :: u8

record uacpi_operation_region =
  opr_handler :: u64
  opr_user_context :: u64
  opr_space :: u16
  opr_state_flags :: u8
  opr_offset :: u64
  opr_length :: u64
  opr_table_idx :: u64
  opr_next :: u64

record uacpi_control_method =
  me_code :: u64
  me_mutex :: u64
  me_size :: u32
  me_sync_level :: u8
  me_args :: u8
  me_is_serialized :: bool
  me_named_objects_persist :: bool
  me_native_call :: bool
  me_owns_code :: bool

definition UACPI_FIELD_UNIT_KIND_NORMAL :: u8 where "UACPI_FIELD_UNIT_KIND_NORMAL = 0"
definition UACPI_FIELD_UNIT_KIND_INDEX :: u8 where "UACPI_FIELD_UNIT_KIND_INDEX = 1"
definition UACPI_FIELD_UNIT_KIND_BANK :: u8 where "UACPI_FIELD_UNIT_KIND_BANK = 2"

text \<open>
  The union of a field unit: its first word is the region, the index field or the bank's region, its second the data field or the
  bank's selection field.
\<close>

record uacpi_field_unit =
  fu_w0 :: u64
  fu_w1 :: u64
  fu_bank_value :: u64
  fu_connection :: u64
  fu_byte_offset :: u32
  fu_bit_length :: u32
  fu_bit_offset_within_first_byte :: u8
  fu_access_width_bytes :: u8
  fu_access_length :: u8
  fu_attributes :: u8
  fu_update_rule :: u8
  fu_kind :: u8
  fu_lock_rule :: u8

text \<open>A name is its four characters.\<close>

type_synonym uacpi_object_name = "u8 list"

record uacpi_namespace_node =
  nd_name :: uacpi_object_name
  nd_flags :: u32
  nd_object :: u64
  nd_parent :: u64
  nd_child :: u64
  nd_next :: u64

section \<open>The heap\<close>

text \<open>What a structure with a reference count has after it, and the other blocks of memory.\<close>

datatype body =
    BObject uacpi_object | BBuffer uacpi_buffer | BPackage uacpi_package | BMutex uacpi_mutex | BEvent u64
  | BHandler uacpi_address_space_handler | BRegion uacpi_operation_region
  | BDevice uacpi_handlers | BProcessor uacpi_processor | BThermalZone uacpi_handlers
  | BMethod uacpi_control_method | BFieldUnit uacpi_field_unit | BNode uacpi_namespace_node

record uacpi_device_notify_handler =
  nh_callback :: u64
  nh_user_context :: u64
  nh_next :: u64

datatype cell = Shared uacpi_shareable body | Bytes "u8 list" | Pointers "u64 list" | Notify uacpi_device_notify_handler

record ostate =
  o_heap :: "u64 \<Rightarrow> cell option"
  o_next :: u64
  o_calls :: nat
  o_freed_handles :: "u64 list"
  o_tables :: tables_state

text \<open>
  The host: whether the \<open>n\<close>th call with a size succeeds, what uninitialised memory contains, and the handles of mutexes and events (0 is failure).
\<close>

record object_host =
  oh_alloc :: "nat \<Rightarrow> nat \<Rightarrow> bool"
  oh_junk :: "nat \<Rightarrow> nat \<Rightarrow> u8"
  oh_create_mutex :: "nat \<Rightarrow> u64"
  oh_create_event :: "nat \<Rightarrow> u64"
  oh_tables :: table_host

type_synonym ('z, 'a) okern = "('z ostate_scheme, 'a) kern"

definition o_host_call :: "(nat \<Rightarrow> 'a) \<Rightarrow> ('z, 'a) okern" where
  "o_host_call f = kbind (kget o_calls) (\<lambda>n. kseq (kmod (o_calls_update Suc)) (kret (f n)))"

text \<open>\<open>uacpi_kernel_alloc_zeroed\<close>, with the cell that zeroed memory of the structure is, and \<open>uacpi_kernel_alloc\<close> for bytes.\<close>

definition alloc_cell :: "object_host \<Rightarrow> nat \<Rightarrow> cell \<Rightarrow> ('z, u64) okern" where
  "alloc_cell host sz c = kbind (o_host_call (\<lambda>n. oh_alloc host n sz)) (\<lambda>ok. kbind (kget o_next) (\<lambda>p.
     if ok \<and> p \<noteq> 0 then kseq (kmod (\<lambda>s. s\<lparr>o_heap := (o_heap s)(p \<mapsto> c), o_next := p + 1\<rparr>)) (kret p)
     else kret 0))"

definition alloc_bytes :: "object_host \<Rightarrow> u64 \<Rightarrow> ('z, u64) okern" where
  "alloc_bytes host n = kbind (kget o_calls) (\<lambda>k. alloc_cell host (unat n) (Bytes (map (oh_junk host k) [0..<unat n])))"

definition uacpi_free :: "u64 \<Rightarrow> ('z, unit) okern" where
  "uacpi_free p = (\<lambda>s. if p = 0 then Ret () s
     else case o_heap s p of None \<Rightarrow> Fault | Some _ \<Rightarrow> Ret () (s\<lparr>o_heap := (o_heap s)(p := None)\<rparr>))"

text \<open>Access to a cell: \<open>view\<close> says what it must contain.\<close>

definition cell_get :: "(cell \<Rightarrow> 'a option) \<Rightarrow> u64 \<Rightarrow> ('z, 'a) okern" where
  "cell_get view p = (\<lambda>s. case o_heap s p of None \<Rightarrow> Fault
     | Some c \<Rightarrow> (case view c of None \<Rightarrow> Fault | Some x \<Rightarrow> Ret x s))"

definition body_put :: "(cell \<Rightarrow> 'a option) \<Rightarrow> u64 \<Rightarrow> body \<Rightarrow> ('z, unit) okern" where
  "body_put view p b = (\<lambda>s. case o_heap s p of
       Some (Shared sh b') \<Rightarrow> (if view (Shared sh b') = None then Fault else Ret () (s\<lparr>o_heap := (o_heap s)(p \<mapsto> Shared sh b)\<rparr>))
     | _ \<Rightarrow> Fault)"

fun as_object :: "cell \<Rightarrow> uacpi_object option" where
  "as_object (Shared _ (BObject x)) = Some x" | "as_object _ = None"

fun as_buffer :: "cell \<Rightarrow> uacpi_buffer option" where
  "as_buffer (Shared _ (BBuffer x)) = Some x" | "as_buffer _ = None"

fun as_package :: "cell \<Rightarrow> uacpi_package option" where
  "as_package (Shared _ (BPackage x)) = Some x" | "as_package _ = None"

fun as_mutex :: "cell \<Rightarrow> uacpi_mutex option" where
  "as_mutex (Shared _ (BMutex x)) = Some x" | "as_mutex _ = None"

fun as_event :: "cell \<Rightarrow> u64 option" where
  "as_event (Shared _ (BEvent x)) = Some x" | "as_event _ = None"

fun as_handler :: "cell \<Rightarrow> uacpi_address_space_handler option" where
  "as_handler (Shared _ (BHandler x)) = Some x" | "as_handler _ = None"

fun as_region :: "cell \<Rightarrow> uacpi_operation_region option" where
  "as_region (Shared _ (BRegion x)) = Some x" | "as_region _ = None"

fun as_handlers :: "cell \<Rightarrow> uacpi_handlers option" where
  "as_handlers (Shared _ (BDevice x)) = Some x"
| "as_handlers (Shared _ (BThermalZone x)) = Some x"
| "as_handlers (Shared _ (BProcessor x)) = Some (pr_handlers x)"
| "as_handlers _ = None"

fun as_processor :: "cell \<Rightarrow> uacpi_processor option" where
  "as_processor (Shared _ (BProcessor x)) = Some x" | "as_processor _ = None"

fun as_method :: "cell \<Rightarrow> uacpi_control_method option" where
  "as_method (Shared _ (BMethod x)) = Some x" | "as_method _ = None"

fun as_field_unit :: "cell \<Rightarrow> uacpi_field_unit option" where
  "as_field_unit (Shared _ (BFieldUnit x)) = Some x" | "as_field_unit _ = None"

fun as_node :: "cell \<Rightarrow> uacpi_namespace_node option" where
  "as_node (Shared _ (BNode x)) = Some x" | "as_node _ = None"

fun as_bytes :: "cell \<Rightarrow> u8 list option" where
  "as_bytes (Bytes x) = Some x" | "as_bytes _ = None"

fun as_pointers :: "cell \<Rightarrow> u64 list option" where
  "as_pointers (Pointers x) = Some x" | "as_pointers _ = None"

fun as_notify :: "cell \<Rightarrow> uacpi_device_notify_handler option" where
  "as_notify (Notify x) = Some x" | "as_notify _ = None"

definition put_object :: "u64 \<Rightarrow> uacpi_object \<Rightarrow> ('z, unit) okern" where
  "put_object p x = body_put as_object p (BObject x)"

definition mod_object :: "u64 \<Rightarrow> (uacpi_object \<Rightarrow> uacpi_object) \<Rightarrow> ('z, unit) okern" where
  "mod_object p f = kbind (cell_get as_object p) (\<lambda>x. put_object p (f x))"

definition mod_node :: "u64 \<Rightarrow> (uacpi_namespace_node \<Rightarrow> uacpi_namespace_node) \<Rightarrow> ('z, unit) okern" where
  "mod_node p f = kbind (cell_get as_node p) (\<lambda>x. body_put as_node p (BNode (f x)))"

text \<open>\<open>n\<close> bytes behind a pointer that is not looked at for none, and writing bytes from the start of a block.\<close>

definition read_bytes :: "u64 \<Rightarrow> nat \<Rightarrow> ('z, u8 list) okern" where
  "read_bytes p n = (if n = 0 then kret [] else kbind (cell_get as_bytes p) (\<lambda>bs. if n \<le> length bs then kret (take n bs) else kfault))"

definition write_bytes :: "u64 \<Rightarrow> u8 list \<Rightarrow> ('z, unit) okern" where
  "write_bytes p bs = (if bs = [] then kret () else kbind (cell_get as_bytes p) (\<lambda>old.
     if length bs \<le> length old then kmod (\<lambda>s. s\<lparr>o_heap := (o_heap s)(p \<mapsto> Bytes (bs @ drop (length bs) old))\<rparr>) else kfault))"

text \<open>The reference count of a structure, with the operations of \<^verbatim>\<open>src/uacpi/shareable.c\<close>.\<close>

definition shareable_do :: "(uacpi_shareable \<Rightarrow> 'a \<times> uacpi_shareable) \<Rightarrow> u64 \<Rightarrow> ('z, 'a) okern" where
  "shareable_do f p = (\<lambda>s. case o_heap s p of
       Some (Shared sh b) \<Rightarrow> (case f sh of (x, sh') \<Rightarrow> Ret x (s\<lparr>o_heap := (o_heap s)(p \<mapsto> Shared sh' b)\<rparr>))
     | _ \<Rightarrow> Fault)"

definition sh_ref :: "u64 \<Rightarrow> ('z, u32) okern" where "sh_ref = shareable_do uacpi_shareable_ref"
definition sh_unref :: "u64 \<Rightarrow> ('z, u32) okern" where "sh_unref = shareable_do uacpi_shareable_unref"
definition sh_bugged :: "u64 \<Rightarrow> ('z, bool) okern" where "sh_bugged = shareable_do uacpi_bugged_shareable"

definition sh_make_bugged :: "u64 \<Rightarrow> ('z, unit) okern" where
  "sh_make_bugged = shareable_do (\<lambda>sh. ((), uacpi_make_shareable_bugged sh))"

definition sh_refcount :: "u64 \<Rightarrow> ('z, u32) okern" where
  "sh_refcount = shareable_do (\<lambda>sh. (uacpi_shareable_refcount sh, sh))"

definition unref_and_delete_if_last :: "u64 \<Rightarrow> (u64 \<Rightarrow> ('z, unit) okern) \<Rightarrow> ('z, unit) okern" where
  "unref_and_delete_if_last p do_free =
     (if p = 0 then kret ()
      else kbind (sh_bugged p) (\<lambda>bugged. if bugged then kret ()
        else kbind (sh_unref p) (\<lambda>old. kif (old = 1) (do_free p))))"

section \<open>Construction\<close>

definition sizeof_object :: nat where "sizeof_object = 32"

definition zero_object :: uacpi_object where
  "zero_object = \<lparr>ob_type = UACPI_OBJECT_UNINITIALIZED, ob_flags = 0, ob_w0 = 0, ob_w1 = 0, ob_w2 = 0\<rparr>"

definition fresh :: "body \<Rightarrow> cell" where
  "fresh b = Shared (uacpi_shareable_init \<lparr>reference_count = 0\<rparr>) b"

text \<open>A structure of the given size, zeroed and with a count of one; then the object's pointer to it.\<close>

definition struct_alloc :: "object_host \<Rightarrow> nat \<Rightarrow> body \<Rightarrow> u64 \<Rightarrow> ('z, bool) okern" where
  "struct_alloc host sz b obj = kbind (alloc_cell host sz (fresh b)) (\<lambda>p.
     if p = 0 then kret False else kseq (mod_object obj (ob_w0_update (\<lambda>_. p))) (kret True))"

definition buffer_alloc :: "object_host \<Rightarrow> u64 \<Rightarrow> u64 \<Rightarrow> ('z, bool) okern" where
  "buffer_alloc host obj initial_size =
     kbind (alloc_cell host 24 (fresh (BBuffer \<lparr>buf_data = 0, buf_size = 0\<rparr>))) (\<lambda>buf.
     if buf = 0 then kret False
     else if initial_size \<noteq> 0 then
       kbind (alloc_bytes host initial_size) (\<lambda>data.
       if data = 0 then kseq (uacpi_free buf) (kret False)
       else kseq (body_put as_buffer buf (BBuffer \<lparr>buf_data = data, buf_size = initial_size\<rparr>))
         (kseq (mod_object obj (ob_w0_update (\<lambda>_. buf))) (kret True)))
     else kseq (mod_object obj (ob_w0_update (\<lambda>_. buf))) (kret True))"

definition empty_buffer_or_string_alloc :: "object_host \<Rightarrow> u64 \<Rightarrow> ('z, bool) okern" where
  "empty_buffer_or_string_alloc host obj = buffer_alloc host obj 0"

text \<open>
  Storing into an element of the array of a package. In \<open>uacpi_package_fill\<close> the constructor of objects is a parameter,
  as it is defined below and calls this function for an empty package.
\<close>

definition put_element :: "u64 \<Rightarrow> nat \<Rightarrow> u64 \<Rightarrow> ('z, unit) okern" where
  "put_element objs i v = kbind (cell_get as_pointers objs) (\<lambda>ps.
     if i < length ps then kmod (\<lambda>s. s\<lparr>o_heap := (o_heap s)(objs \<mapsto> Pointers (ps[i := v]))\<rparr>) else kfault)"

definition mod_package :: "u64 \<Rightarrow> (uacpi_package \<Rightarrow> uacpi_package) \<Rightarrow> ('z, unit) okern" where
  "mod_package p f = kbind (cell_get as_package p) (\<lambda>x. body_put as_package p (BPackage (f x)))"

definition fill_round :: "(uacpi_object_type \<Rightarrow> ('z, u64) okern) \<Rightarrow> u64 \<Rightarrow> nat \<Rightarrow> ('z, bool option) okern" where
  "fill_round create objs i = kbind (create UACPI_OBJECT_UNINITIALIZED) (\<lambda>p.
     kseq (put_element objs i p) (kret (if p = 0 then Some False else None)))"

definition uacpi_package_fill ::
    "(uacpi_object_type \<Rightarrow> ('z, u64) okern) \<Rightarrow> object_host \<Rightarrow> u64 \<Rightarrow> u64 \<Rightarrow> bool \<Rightarrow> ('z, bool) okern" where
  "uacpi_package_fill create host pkg num_elements prealloc =
     (if num_elements = 0 then kret True
      else kbind (alloc_cell host (unat (num_elements * 8)) (Pointers (replicate (unat (num_elements * 8) div 8) 0))) (\<lambda>objs.
        kseq (mod_package pkg (pkg_objects_update (\<lambda>_. objs)))
        (if objs = 0 then kret False
         else kseq (mod_package pkg (pkg_count_update (\<lambda>_. num_elements)))
           (if prealloc then kbind (kfor_ret [0..<unat num_elements] (fill_round create objs)) (\<lambda>r.
              kret (case r of Some b \<Rightarrow> b | None \<Rightarrow> True))
            else kret True))))"

definition package_alloc ::
    "(uacpi_object_type \<Rightarrow> ('z, u64) okern) \<Rightarrow> object_host \<Rightarrow> u64 \<Rightarrow> u64 \<Rightarrow> bool \<Rightarrow> ('z, bool) okern" where
  "package_alloc create host obj initial_size prealloc =
     kbind (alloc_cell host 24 (fresh (BPackage \<lparr>pkg_objects = 0, pkg_count = 0\<rparr>))) (\<lambda>pkg.
     if pkg = 0 then kret False
     else kbind (uacpi_package_fill create host pkg initial_size prealloc) (\<lambda>ok.
       if \<not> ok then kseq (uacpi_free pkg) (kret False)
       else kseq (mod_object obj (ob_w0_update (\<lambda>_. pkg))) (kret True)))"

text \<open>An empty package has no elements, so that no object is created for it.\<close>

definition empty_package_alloc :: "object_host \<Rightarrow> u64 \<Rightarrow> ('z, bool) okern" where
  "empty_package_alloc host obj = package_alloc (\<lambda>_. kret 0) host obj 0 False"

definition uacpi_create_mutex :: "object_host \<Rightarrow> ('z, u64) okern" where
  "uacpi_create_mutex host =
     kbind (alloc_cell host 32 (Shared \<lparr>reference_count = 0\<rparr> (BMutex \<lparr>mtx_handle = 0, mtx_owner = None, mtx_depth = 0, mtx_sync_level = 0\<rparr>))) (\<lambda>mutex.
     if mutex = 0 then kret 0
     else kbind (o_host_call (oh_create_mutex host)) (\<lambda>handle.
       kseq (body_put as_mutex mutex (BMutex \<lparr>mtx_handle = handle, mtx_owner = None, mtx_depth = 0, mtx_sync_level = 0\<rparr>))
       (if handle = 0 then kseq (uacpi_free mutex) (kret 0)
        else kseq (shareable_do (\<lambda>sh. ((), uacpi_shareable_init sh)) mutex) (kret mutex))))"

definition mutex_alloc :: "object_host \<Rightarrow> u64 \<Rightarrow> ('z, bool) okern" where
  "mutex_alloc host obj = kbind (uacpi_create_mutex host) (\<lambda>mutex.
     kseq (mod_object obj (ob_w0_update (\<lambda>_. mutex))) (kret (mutex \<noteq> 0)))"

definition event_alloc :: "object_host \<Rightarrow> u64 \<Rightarrow> ('z, bool) okern" where
  "event_alloc host obj = kbind (alloc_cell host 16 (Shared \<lparr>reference_count = 0\<rparr> (BEvent 0))) (\<lambda>event.
     if event = 0 then kret False
     else kbind (o_host_call (oh_create_event host)) (\<lambda>handle.
       kseq (body_put as_event event (BEvent handle))
       (if handle = 0 then kseq (uacpi_free event) (kret False)
        else kseq (shareable_do (\<lambda>sh. ((), uacpi_shareable_init sh)) event)
          (kseq (mod_object obj (ob_w0_update (\<lambda>_. event))) (kret True)))))"

definition zero_method :: uacpi_control_method where
  "zero_method = \<lparr>me_code = 0, me_mutex = 0, me_size = 0, me_sync_level = 0, me_args = 0, me_is_serialized = False,
     me_named_objects_persist = False, me_native_call = False, me_owns_code = False\<rparr>"

definition method_alloc :: "object_host \<Rightarrow> u64 \<Rightarrow> ('z, bool) okern" where
  "method_alloc host obj = struct_alloc host 32 (BMethod zero_method) obj"

definition zero_region :: uacpi_operation_region where
  "zero_region = \<lparr>opr_handler = 0, opr_user_context = 0, opr_space = 0, opr_state_flags = 0, opr_offset = 0, opr_length = 0,
     opr_table_idx = 0, opr_next = 0\<rparr>"

definition op_region_alloc :: "object_host \<Rightarrow> u64 \<Rightarrow> ('z, bool) okern" where
  "op_region_alloc host obj = struct_alloc host 64 (BRegion zero_region) obj"

definition zero_field_unit :: uacpi_field_unit where
  "zero_field_unit = \<lparr>fu_w0 = 0, fu_w1 = 0, fu_bank_value = 0, fu_connection = 0, fu_byte_offset = 0, fu_bit_length = 0,
     fu_bit_offset_within_first_byte = 0, fu_access_width_bytes = 0, fu_access_length = 0, fu_attributes = 0, fu_update_rule = 0,
     fu_kind = 0, fu_lock_rule = 0\<rparr>"

definition field_unit_alloc :: "object_host \<Rightarrow> u64 \<Rightarrow> ('z, bool) okern" where
  "field_unit_alloc host obj = struct_alloc host 56 (BFieldUnit zero_field_unit) obj"

definition no_handlers :: uacpi_handlers where "no_handlers = \<lparr>address_space_head = 0, notify_head = 0\<rparr>"

definition processor_alloc :: "object_host \<Rightarrow> u64 \<Rightarrow> ('z, bool) okern" where
  "processor_alloc host obj =
     struct_alloc host 40 (BProcessor \<lparr>pr_handlers = no_handlers, pr_id = 0, pr_block_address = 0, pr_block_length = 0\<rparr>) obj"

definition device_alloc :: "object_host \<Rightarrow> u64 \<Rightarrow> ('z, bool) okern" where
  "device_alloc host obj = struct_alloc host 24 (BDevice no_handlers) obj"

definition thermal_zone_alloc :: "object_host \<Rightarrow> u64 \<Rightarrow> ('z, bool) okern" where
  "thermal_zone_alloc host obj = struct_alloc host 24 (BThermalZone no_handlers) obj"

fun object_constructor_table :: "uacpi_object_type \<Rightarrow> (object_host \<Rightarrow> u64 \<Rightarrow> ('z, bool) okern) option" where
  "object_constructor_table UACPI_OBJECT_STRING = Some empty_buffer_or_string_alloc"
| "object_constructor_table UACPI_OBJECT_BUFFER = Some empty_buffer_or_string_alloc"
| "object_constructor_table UACPI_OBJECT_PACKAGE = Some empty_package_alloc"
| "object_constructor_table UACPI_OBJECT_FIELD_UNIT = Some field_unit_alloc"
| "object_constructor_table UACPI_OBJECT_MUTEX = Some mutex_alloc"
| "object_constructor_table UACPI_OBJECT_EVENT = Some event_alloc"
| "object_constructor_table UACPI_OBJECT_OPERATION_REGION = Some op_region_alloc"
| "object_constructor_table UACPI_OBJECT_METHOD = Some method_alloc"
| "object_constructor_table UACPI_OBJECT_PROCESSOR = Some processor_alloc"
| "object_constructor_table UACPI_OBJECT_DEVICE = Some device_alloc"
| "object_constructor_table UACPI_OBJECT_THERMAL_ZONE = Some thermal_zone_alloc"
| "object_constructor_table _ = None"

definition uacpi_create_object :: "object_host \<Rightarrow> uacpi_object_type \<Rightarrow> ('z, u64) okern" where
  "uacpi_create_object host t = kbind (alloc_cell host sizeof_object (fresh (BObject (zero_object\<lparr>ob_type := t\<rparr>)))) (\<lambda>ret.
     if ret = 0 then kret 0
     else case object_constructor_table t of
       None \<Rightarrow> kret ret
     | Some ctor \<Rightarrow> kbind (ctor host ret) (\<lambda>ok. if \<not> ok then kseq (uacpi_free ret) (kret 0) else kret ret))"

section \<open>Freeing\<close>

definition free_buffer :: "u64 \<Rightarrow> ('z, unit) okern" where
  "free_buffer handle = kbind (cell_get as_buffer handle) (\<lambda>buf.
     kseq (kif (buf_data buf \<noteq> 0) (uacpi_free (buf_data buf))) (uacpi_free handle))"

text \<open>The queue of packages to free: a growable array with four elements inside it.\<close>

type_synonym free_queue = "u64 dyn_array"

definition empty_array :: "nat \<Rightarrow> 'a \<Rightarrow> 'a dyn_array" where
  "empty_array n x = \<lparr>inline_storage = replicate n x, dynamic_storage = None, dynamic_capacity = 0, size_including_inline = 0\<rparr>"

definition array_push :: "object_host \<Rightarrow> nat \<Rightarrow> 'a dyn_array \<Rightarrow> 'a \<Rightarrow> ('z, bool \<times> 'a dyn_array) okern" where
  "array_push host elem_size arr v = kbind (o_host_call (oh_alloc host)) (\<lambda>ok.
     case da_alloc (\<lambda>n. if ok (n * elem_size) then Some (replicate n v) else None) arr of
       (None, arr') \<Rightarrow> kret (False, arr')
     | (Some slot, arr') \<Rightarrow> (case da_write arr' slot v of None \<Rightarrow> kfault | Some arr'' \<Rightarrow> kret (True, arr'')))"

definition free_queue_push :: "object_host \<Rightarrow> free_queue \<Rightarrow> u64 \<Rightarrow> ('z, bool \<times> free_queue) okern" where
  "free_queue_push host queue pkg = array_push host 8 queue pkg"

text \<open>The last element, read through the pointer to it, and the array without it.\<close>

definition array_take_last :: "'a dyn_array \<Rightarrow> ('z, 'a \<times> 'a dyn_array) okern" where
  "array_take_last arr = (case da_last arr of None \<Rightarrow> kfault
     | Some slot \<Rightarrow> (case da_read arr slot of None \<Rightarrow> kfault | Some x \<Rightarrow> kret (x, da_pop arr)))"

text \<open>
  The functions below take as \<open>fo\<close> the function \<open>free_object\<close>, which they call and which calls them, and as \<open>ff\<close>
  the function \<open>free_field_unit\<close>.
\<close>

type_synonym 'z free_fun = "u64 \<Rightarrow> ('z, unit) okern"

definition free_plain_no_recurse :: "'z free_fun \<Rightarrow> object_host \<Rightarrow> u64 \<Rightarrow> free_queue \<Rightarrow> ('z, free_queue) okern" where
  "free_plain_no_recurse fo host obj queue = kbind (cell_get as_object obj) (\<lambda>x.
     if ob_type x = UACPI_OBJECT_PACKAGE then
       kbind (sh_unref (ob_w0 x)) (\<lambda>old.
       if old > 1 then kret queue
       else kbind (free_queue_push host queue (ob_w0 x)) (\<lambda>(_, queue). kseq (uacpi_free obj) (kret queue)))
     else kseq (fo obj) (kret queue))"

definition unref_plain_no_recurse :: "'z free_fun \<Rightarrow> object_host \<Rightarrow> u64 \<Rightarrow> free_queue \<Rightarrow> ('z, free_queue) okern" where
  "unref_plain_no_recurse fo host obj queue = kbind (sh_unref obj) (\<lambda>old.
     if old > 1 then kret queue else free_plain_no_recurse fo host obj queue)"

text \<open>The pointer to the object that a reference refers to, and null for other objects.\<close>

definition ob_inner :: "uacpi_object \<Rightarrow> u64" where
  "ob_inner x = (if ob_type x = UACPI_OBJECT_REFERENCE then ob_w0 x else 0)"

definition unref_chain_round ::
    "'z free_fun \<Rightarrow> object_host \<Rightarrow> u64 \<times> free_queue \<Rightarrow> ('z, u64 \<times> free_queue + free_queue) okern" where
  "unref_chain_round fo host = (\<lambda>(obj, queue).
     if obj = 0 then kret (Inr queue)
     else kbind (cell_get as_object obj) (\<lambda>x. kbind (sh_unref obj) (\<lambda>old.
       if old > 1 then kret (Inl (ob_inner x, queue))
       else if ob_type x = UACPI_OBJECT_REFERENCE then kseq (uacpi_free obj) (kret (Inl (ob_inner x, queue)))
       else kbind (free_plain_no_recurse fo host obj queue) (\<lambda>queue. kret (Inl (ob_inner x, queue))))))"

definition unref_chain_no_recurse :: "'z free_fun \<Rightarrow> object_host \<Rightarrow> u64 \<Rightarrow> free_queue \<Rightarrow> ('z, free_queue) okern" where
  "unref_chain_no_recurse fo host obj queue = kloop (unref_chain_round fo host) (obj, queue)"

definition unref_object_no_recurse :: "'z free_fun \<Rightarrow> object_host \<Rightarrow> u64 \<Rightarrow> free_queue \<Rightarrow> ('z, free_queue) okern" where
  "unref_object_no_recurse fo host obj queue = kbind (cell_get as_object obj) (\<lambda>x.
     if ob_type x = UACPI_OBJECT_REFERENCE then unref_chain_no_recurse fo host obj queue
     else unref_plain_no_recurse fo host obj queue)"

text \<open>The elements of a package, from \<open>i\<close> on: \<open>pkg->count\<close> and \<open>pkg->objects\<close> are read in every round.\<close>

definition get_element :: "u64 \<Rightarrow> nat \<Rightarrow> ('z, u64) okern" where
  "get_element objs i = kbind (cell_get as_pointers objs) (\<lambda>ps. if i < length ps then kret (ps ! i) else kfault)"

definition free_elements_round ::
    "'z free_fun \<Rightarrow> object_host \<Rightarrow> u64 \<Rightarrow> nat \<times> free_queue \<Rightarrow> ('z, nat \<times> free_queue + free_queue) okern" where
  "free_elements_round fo host pkg = (\<lambda>(i, queue). kbind (cell_get as_package pkg) (\<lambda>x.
     if \<not> i < unat (pkg_count x) then kret (Inr queue)
     else kbind (get_element (pkg_objects x) i) (\<lambda>obj. kbind (unref_object_no_recurse fo host obj queue) (\<lambda>queue.
       kret (Inl (i + 1, queue))))))"

definition free_package_round :: "'z free_fun \<Rightarrow> object_host \<Rightarrow> free_queue \<Rightarrow> ('z, free_queue + unit) okern" where
  "free_package_round fo host queue =
     (if da_size queue = 0 then kret (Inr ())
      else kbind (array_take_last queue) (\<lambda>(pkg, queue).
        kbind (kloop (free_elements_round fo host pkg) (0, queue)) (\<lambda>queue.
        kbind (cell_get as_package pkg) (\<lambda>x.
          kseq (uacpi_free (pkg_objects x)) (kseq (uacpi_free pkg) (kret (Inl queue)))))))"

definition free_package :: "'z free_fun \<Rightarrow> object_host \<Rightarrow> u64 \<Rightarrow> ('z, unit) okern" where
  "free_package fo host handle = kbind (free_queue_push host (empty_array 4 0) handle) (\<lambda>(_, queue).
     kloop (free_package_round fo host) queue)"

definition free_mutex :: "u64 \<Rightarrow> ('z, unit) okern" where
  "free_mutex handle = kbind (cell_get as_mutex handle) (\<lambda>mutex.
     kseq (kmod (o_freed_handles_update (\<lambda>hs. mtx_handle mutex # hs))) (uacpi_free handle))"

definition uacpi_mutex_unref :: "u64 \<Rightarrow> ('z, unit) okern" where
  "uacpi_mutex_unref mutex = (if mutex = 0 then kret () else unref_and_delete_if_last mutex free_mutex)"

definition free_event :: "u64 \<Rightarrow> ('z, unit) okern" where
  "free_event handle = kbind (cell_get as_event handle) (\<lambda>h.
     kseq (kmod (o_freed_handles_update (\<lambda>hs. h # hs))) (uacpi_free handle))"

definition free_address_space_handler :: "u64 \<Rightarrow> ('z, unit) okern" where
  "free_address_space_handler handle = uacpi_free handle"

definition free_address_space_handlers :: "u64 \<Rightarrow> ('z, unit) okern" where
  "free_address_space_handlers handler = kloop (\<lambda>handler.
     if handler = 0 then kret (Inr ())
     else kbind (cell_get as_handler handler) (\<lambda>h.
       kseq (unref_and_delete_if_last handler free_address_space_handler) (kret (Inl (ash_next h))))) handler"

definition free_device_notify_handlers :: "u64 \<Rightarrow> ('z, unit) okern" where
  "free_device_notify_handlers handler = kloop (\<lambda>handler.
     if handler = 0 then kret (Inr ())
     else kbind (cell_get as_notify handler) (\<lambda>h. kseq (uacpi_free handler) (kret (Inl (nh_next h))))) handler"

definition free_handlers :: "u64 \<Rightarrow> ('z, unit) okern" where
  "free_handlers handle = kbind (cell_get as_handlers handle) (\<lambda>h.
     kseq (free_address_space_handlers (address_space_head h))
       (kbind (cell_get as_handlers handle) (\<lambda>h. free_device_notify_handlers (notify_head h))))"

definition uacpi_address_space_handler_unref :: "u64 \<Rightarrow> ('z, unit) okern" where
  "uacpi_address_space_handler_unref handler = unref_and_delete_if_last handler free_address_space_handler"

text \<open>The table array is part of the state.\<close>

definition on_tables :: "'a tkern \<Rightarrow> ('z, 'a) okern" where
  "on_tables f = (\<lambda>s. case f (o_tables s) of Ret x t \<Rightarrow> Ret x (s\<lparr>o_tables := t\<rparr>) | Killed t \<Rightarrow> Killed (s\<lparr>o_tables := t\<rparr>)
     | Diverge \<Rightarrow> Diverge | Fault \<Rightarrow> Fault)"

definition free_op_region :: "object_host \<Rightarrow> u64 \<Rightarrow> ('z, unit) okern" where
  "free_op_region host handle = kbind (cell_get as_region handle) (\<lambda>r.
     kseq (kif (opr_space r = UACPI_ADDRESS_SPACE_TABLE_DATA)
            (kseq (on_tables (uacpi_table_unref (oh_tables host) \<lparr>tb_ptr = 0, tb_index = unat (opr_table_idx r)\<rparr>)) (kret ())))
       (uacpi_free handle))"

definition free_device :: "u64 \<Rightarrow> ('z, unit) okern" where
  "free_device handle = kseq (free_handlers handle) (uacpi_free handle)"

definition free_processor :: "u64 \<Rightarrow> ('z, unit) okern" where
  "free_processor handle = kseq (free_handlers handle) (uacpi_free handle)"

definition free_thermal_zone :: "u64 \<Rightarrow> ('z, unit) okern" where
  "free_thermal_zone handle = kseq (free_handlers handle) (uacpi_free handle)"

text \<open>Nodes of the namespace, \<^verbatim>\<open>src/uacpi/namespace.c\<close>; the predefined ones are not on the heap of the C program.\<close>

definition UACPI_NAMESPACE_NODE_FLAG_ALIAS :: u32 where "UACPI_NAMESPACE_NODE_FLAG_ALIAS = 1"
definition UACPI_NAMESPACE_NODE_FLAG_DANGLING :: u32 where "UACPI_NAMESPACE_NODE_FLAG_DANGLING = 2"
definition UACPI_NAMESPACE_NODE_FLAG_TEMPORARY :: u32 where "UACPI_NAMESPACE_NODE_FLAG_TEMPORARY = 4"
definition UACPI_NAMESPACE_NODE_PREDEFINED :: u32 where "UACPI_NAMESPACE_NODE_PREDEFINED = 0x80000000"

definition free_namespace_node :: "u64 \<Rightarrow> ('z, unit) okern" where
  "free_namespace_node handle = kbind (cell_get as_node handle) (\<lambda>nd.
     if nd_flags nd AND UACPI_NAMESPACE_NODE_PREDEFINED = 0 then uacpi_free handle
     else mod_node handle (\<lambda>nd. nd\<lparr>nd_flags := UACPI_NAMESPACE_NODE_PREDEFINED, nd_object := 0, nd_parent := 0, nd_child := 0, nd_next := 0\<rparr>))"

definition uacpi_namespace_node_unref :: "u64 \<Rightarrow> ('z, unit) okern" where
  "uacpi_namespace_node_unref node = unref_and_delete_if_last node free_namespace_node"

definition free_method :: "u64 \<Rightarrow> ('z, unit) okern" where
  "free_method handle = kbind (cell_get as_method handle) (\<lambda>me.
     kseq (unref_and_delete_if_last (me_mutex me) free_mutex)
    (kseq (kif (\<not> me_native_call me \<and> me_owns_code me) (uacpi_free (me_code me)))
     (uacpi_free handle)))"

definition uacpi_method_unref :: "u64 \<Rightarrow> ('z, unit) okern" where
  "uacpi_method_unref me = unref_and_delete_if_last me free_method"

section \<open>Reference counts of objects\<close>

definition make_chain_bugged :: "u64 \<Rightarrow> ('z, unit) okern" where
  "make_chain_bugged obj = kloop (\<lambda>obj.
     if obj = 0 then kret (Inr ())
     else kseq (sh_make_bugged obj) (kbind (cell_get as_object obj) (\<lambda>x. kret (Inl (ob_inner x))))) obj"

definition ref_round :: "u64 \<Rightarrow> ('z, u64 + unit) okern" where
  "ref_round obj = (if obj = 0 then kret (Inr ())
     else kseq (sh_ref obj) (kbind (cell_get as_object obj) (\<lambda>x. kret (Inl (ob_inner x)))))"

definition uacpi_object_ref :: "u64 \<Rightarrow> ('z, unit) okern" where
  "uacpi_object_ref obj = kloop ref_round obj"

definition free_chain_round :: "'z free_fun \<Rightarrow> u64 \<Rightarrow> ('z, u64 + unit) okern" where
  "free_chain_round fo obj = (if obj = 0 then kret (Inr ())
     else kbind (cell_get as_object obj) (\<lambda>x. kbind (sh_refcount obj) (\<lambda>n.
       kseq (kif (n = 0) (fo obj)) (kret (Inl (ob_inner x))))))"

definition free_chain :: "'z free_fun \<Rightarrow> u64 \<Rightarrow> ('z, unit) okern" where
  "free_chain fo obj = kloop (free_chain_round fo) obj"

text \<open>The first loop of \<open>uacpi_object_unref\<close>: whether it came to the end of the chain.\<close>

definition unref_round :: "u64 \<Rightarrow> ('z, u64 + bool) okern" where
  "unref_round obj = (if obj = 0 then kret (Inr True)
     else kbind (sh_bugged obj) (\<lambda>bugged. if bugged then kret (Inr False)
       else kseq (sh_unref obj) (kbind (cell_get as_object obj) (\<lambda>x. kret (Inl (ob_inner x))))))"

definition object_unref_with :: "'z free_fun \<Rightarrow> u64 \<Rightarrow> ('z, unit) okern" where
  "object_unref_with fo obj = (if obj = 0 then kret ()
     else kbind (kloop unref_round obj) (\<lambda>ended. if \<not> ended then kret ()
       else kbind (sh_refcount obj) (\<lambda>n. kif (n = 0) (free_chain fo obj))))"

definition free_field_unit_body :: "'z free_fun \<Rightarrow> 'z free_fun \<Rightarrow> 'z free_fun" where
  "free_field_unit_body fo ff handle = kbind (cell_get as_field_unit handle) (\<lambda>fu.
     kseq (kif (fu_connection fu \<noteq> 0) (object_unref_with fo (fu_connection fu)))
    (kseq (if fu_kind fu = UACPI_FIELD_UNIT_KIND_NORMAL then uacpi_namespace_node_unref (fu_w0 fu)
           else if fu_kind fu = UACPI_FIELD_UNIT_KIND_BANK then
             kseq (uacpi_namespace_node_unref (fu_w0 fu)) (unref_and_delete_if_last (fu_w1 fu) ff)
           else if fu_kind fu = UACPI_FIELD_UNIT_KIND_INDEX then
             kseq (unref_and_delete_if_last (fu_w0 fu) ff) (unref_and_delete_if_last (fu_w1 fu) ff)
           else kret ())
     (uacpi_free handle)))"

definition free_object_storage :: "'z free_fun \<Rightarrow> 'z free_fun \<Rightarrow> object_host \<Rightarrow> 'z free_fun" where
  "free_object_storage fo ff host obj = kbind (cell_get as_object obj) (\<lambda>x. case ob_type x of
       UACPI_OBJECT_STRING \<Rightarrow> unref_and_delete_if_last (ob_w0 x) free_buffer
     | UACPI_OBJECT_BUFFER \<Rightarrow> unref_and_delete_if_last (ob_w0 x) free_buffer
     | UACPI_OBJECT_BUFFER_FIELD \<Rightarrow> unref_and_delete_if_last (ob_w0 x) free_buffer
     | UACPI_OBJECT_BUFFER_INDEX \<Rightarrow> unref_and_delete_if_last (ob_w1 x) free_buffer
     | UACPI_OBJECT_METHOD \<Rightarrow> uacpi_method_unref (ob_w0 x)
     | UACPI_OBJECT_PACKAGE \<Rightarrow> unref_and_delete_if_last (ob_w0 x) (free_package fo host)
     | UACPI_OBJECT_FIELD_UNIT \<Rightarrow> unref_and_delete_if_last (ob_w0 x) ff
     | UACPI_OBJECT_MUTEX \<Rightarrow> uacpi_mutex_unref (ob_w0 x)
     | UACPI_OBJECT_EVENT \<Rightarrow> unref_and_delete_if_last (ob_w0 x) free_event
     | UACPI_OBJECT_OPERATION_REGION \<Rightarrow> unref_and_delete_if_last (ob_w0 x) (free_op_region host)
     | UACPI_OBJECT_PROCESSOR \<Rightarrow> unref_and_delete_if_last (ob_w0 x) free_processor
     | UACPI_OBJECT_DEVICE \<Rightarrow> unref_and_delete_if_last (ob_w0 x) free_device
     | UACPI_OBJECT_THERMAL_ZONE \<Rightarrow> unref_and_delete_if_last (ob_w0 x) free_thermal_zone
     | _ \<Rightarrow> kret ())"

fun free_object :: "nat \<Rightarrow> object_host \<Rightarrow> 'z free_fun"
  and free_field_unit :: "nat \<Rightarrow> object_host \<Rightarrow> 'z free_fun" where
  "free_object 0 host obj = (\<lambda>_. Diverge)"
| "free_object (Suc depth) host obj =
     kseq (free_object_storage (free_object depth host) (free_field_unit depth host) host obj) (uacpi_free obj)"
| "free_field_unit 0 host fu = (\<lambda>_. Diverge)"
| "free_field_unit (Suc depth) host fu = free_field_unit_body (free_object depth host) (free_field_unit depth host) fu"

definition uacpi_object_unref :: "nat \<Rightarrow> object_host \<Rightarrow> u64 \<Rightarrow> ('z, unit) okern" where
  "uacpi_object_unref depth host obj = object_unref_with (free_object depth host) obj"

section \<open>Assignment\<close>

text \<open>
  The source of a copy is given as the code that reads it. The bytes that \<open>uacpi_memcpy_zerout\<close> leaves in the destination:
  those of the source, cut off or followed by zeroes.
\<close>

definition copied_zerout :: "u8 list \<Rightarrow> nat \<Rightarrow> u8 list" where
  "copied_zerout src dst_size = take dst_size src @ replicate (dst_size - length src) 0"

definition buffer_alloc_and_store :: "object_host \<Rightarrow> u64 \<Rightarrow> u64 \<Rightarrow> (nat \<Rightarrow> ('z, u8 list) okern) \<Rightarrow> u64 \<Rightarrow> ('z, uacpi_status) okern" where
  "buffer_alloc_and_store host obj bsize src src_size = kbind (buffer_alloc host obj bsize) (\<lambda>ok.
     if \<not> ok then kret UACPI_STATUS_OUT_OF_MEMORY
     else kbind (cell_get as_object obj) (\<lambda>x. kbind (cell_get as_buffer (ob_w0 x)) (\<lambda>b.
       kbind (src (unat (min src_size bsize))) (\<lambda>bs.
         kseq (write_bytes (buf_data b) (copied_zerout bs (unat bsize))) (kret UACPI_STATUS_OK)))))"

datatype uacpi_assign_behavior = UACPI_ASSIGN_BEHAVIOR_DEEP_COPY | UACPI_ASSIGN_BEHAVIOR_SHALLOW_COPY

text \<open>Sharing: the pointer is copied and counted.\<close>

definition share_pointer :: "u64 \<Rightarrow> uacpi_object \<Rightarrow> ('z, uacpi_status) okern" where
  "share_pointer dst y = kseq (mod_object dst (ob_w0_update (\<lambda>_. ob_w0 y))) (kseq (sh_ref (ob_w0 y)) (kret UACPI_STATUS_OK))"

definition assign_buffer :: "object_host \<Rightarrow> u64 \<Rightarrow> u64 \<Rightarrow> uacpi_assign_behavior \<Rightarrow> ('z, uacpi_status) okern" where
  "assign_buffer host dst src behavior = kbind (cell_get as_object src) (\<lambda>y.
     if behavior = UACPI_ASSIGN_BEHAVIOR_SHALLOW_COPY then share_pointer dst y
     else kbind (cell_get as_buffer (ob_w0 y)) (\<lambda>b.
       buffer_alloc_and_store host dst (buf_size b) (read_bytes (buf_data b)) (buf_size b)))"

text \<open>The requests to copy packages: a growable array with two elements inside it.\<close>

record pkg_copy_req =
  req_dst :: u64
  req_src :: u64

type_synonym pkg_copy_reqs = "pkg_copy_req dyn_array"

definition pkg_copy_reqs_push :: "object_host \<Rightarrow> pkg_copy_reqs \<Rightarrow> u64 \<Rightarrow> u64 \<Rightarrow> ('z, bool \<times> pkg_copy_reqs) okern" where
  "pkg_copy_reqs_push host reqs dst pkg = array_push host 16 reqs \<lparr>req_dst = dst, req_src = pkg\<rparr>"

text \<open>\<open>assign\<close> is \<open>uacpi_object_assign\<close> with a deep copy. A round returns a status to stop with, or the requests.\<close>

definition copy_element ::
    "(u64 \<Rightarrow> u64 \<Rightarrow> ('z, uacpi_status) okern) \<Rightarrow> object_host \<Rightarrow> u64 \<Rightarrow> u64 \<Rightarrow> pkg_copy_reqs \<Rightarrow> ('z, uacpi_status \<times> pkg_copy_reqs) okern" where
  "copy_element assign host src_obj0 dst_obj reqs = kbind (cell_get as_object src_obj0) (\<lambda>y0.
     let src_obj = (if ob_type y0 = UACPI_OBJECT_REFERENCE \<and> ob_flags y0 = UACPI_REFERENCE_KIND_PKG_INDEX then ob_w0 y0 else src_obj0) in
     kbind (cell_get as_object src_obj) (\<lambda>y.
     if ob_type y = UACPI_OBJECT_PACKAGE then
       kbind (pkg_copy_reqs_push host reqs dst_obj (ob_w0 y)) (\<lambda>(ok, reqs).
         kret (if \<not> ok then UACPI_STATUS_OUT_OF_MEMORY else UACPI_STATUS_OK, reqs))
     else kbind (assign dst_obj src_obj) (\<lambda>st. kret (st, reqs))))"

definition copy_elements_round ::
    "(u64 \<Rightarrow> u64 \<Rightarrow> ('z, uacpi_status) okern) \<Rightarrow> object_host \<Rightarrow> u64 \<Rightarrow> u64
     \<Rightarrow> nat \<times> pkg_copy_reqs \<Rightarrow> ('z, nat \<times> pkg_copy_reqs + uacpi_status \<times> pkg_copy_reqs) okern" where
  "copy_elements_round assign host dst_package src = (\<lambda>(i, reqs). kbind (cell_get as_package src) (\<lambda>sp.
     if \<not> i < unat (pkg_count sp) then kret (Inr (UACPI_STATUS_OK, reqs))
     else kbind (get_element (pkg_objects sp) i) (\<lambda>src_obj.
       kbind (cell_get as_package dst_package) (\<lambda>dp. kbind (get_element (pkg_objects dp) i) (\<lambda>dst_obj.
       kbind (copy_element assign host src_obj dst_obj reqs) (\<lambda>(st, reqs).
         kret (if st \<noteq> UACPI_STATUS_OK then Inr (st, reqs) else Inl (i + 1, reqs))))))))"

definition deep_copy_package_no_recurse ::
    "(u64 \<Rightarrow> u64 \<Rightarrow> ('z, uacpi_status) okern) \<Rightarrow> object_host \<Rightarrow> u64 \<Rightarrow> u64 \<Rightarrow> pkg_copy_reqs \<Rightarrow> ('z, uacpi_status \<times> pkg_copy_reqs) okern" where
  "deep_copy_package_no_recurse assign host dst src reqs = kbind (cell_get as_package src) (\<lambda>sp.
     kbind (package_alloc (uacpi_create_object host) host dst (pkg_count sp) True) (\<lambda>ok.
     if \<not> ok then kret (UACPI_STATUS_OUT_OF_MEMORY, reqs)
     else kseq (mod_object dst (ob_type_update (\<lambda>_. UACPI_OBJECT_PACKAGE)))
       (kbind (cell_get as_object dst) (\<lambda>x. kloop (copy_elements_round assign host (ob_w0 x) src) (0, reqs)))))"

definition deep_copy_round ::
    "(u64 \<Rightarrow> u64 \<Rightarrow> ('z, uacpi_status) okern) \<Rightarrow> object_host \<Rightarrow> pkg_copy_reqs \<Rightarrow> ('z, pkg_copy_reqs + uacpi_status) okern" where
  "deep_copy_round assign host reqs =
     (if da_size reqs = 0 then kret (Inr UACPI_STATUS_OK)
      else kbind (array_take_last reqs) (\<lambda>(req, reqs).
        kbind (deep_copy_package_no_recurse assign host (req_dst req) (req_src req) reqs) (\<lambda>(ret, reqs).
          kret (if ret \<noteq> UACPI_STATUS_OK then Inr ret else Inl reqs))))"

definition deep_copy_package ::
    "(u64 \<Rightarrow> u64 \<Rightarrow> ('z, uacpi_status) okern) \<Rightarrow> object_host \<Rightarrow> u64 \<Rightarrow> u64 \<Rightarrow> ('z, uacpi_status) okern" where
  "deep_copy_package assign host dst src = kbind (cell_get as_object src) (\<lambda>y.
     kbind (pkg_copy_reqs_push host (empty_array 2 \<lparr>req_dst = 0, req_src = 0\<rparr>) dst (ob_w0 y)) (\<lambda>(_, reqs).
       kloop (deep_copy_round assign host) reqs))"

definition assign_mutex :: "object_host \<Rightarrow> u64 \<Rightarrow> u64 \<Rightarrow> uacpi_assign_behavior \<Rightarrow> ('z, uacpi_status) okern" where
  "assign_mutex host dst src behavior =
     (if behavior = UACPI_ASSIGN_BEHAVIOR_DEEP_COPY then
        kbind (mutex_alloc host dst) (\<lambda>ok.
        if ok then kbind (cell_get as_object src) (\<lambda>y. kbind (cell_get as_mutex (ob_w0 y)) (\<lambda>sm.
          kbind (cell_get as_object dst) (\<lambda>x. kbind (cell_get as_mutex (ob_w0 x)) (\<lambda>dm.
            kseq (body_put as_mutex (ob_w0 x) (BMutex (dm\<lparr>mtx_sync_level := mtx_sync_level sm\<rparr>))) (kret UACPI_STATUS_OK)))))
        else kret UACPI_STATUS_OUT_OF_MEMORY)
      else kbind (cell_get as_object src) (share_pointer dst))"

definition assign_event :: "object_host \<Rightarrow> u64 \<Rightarrow> u64 \<Rightarrow> uacpi_assign_behavior \<Rightarrow> ('z, uacpi_status) okern" where
  "assign_event host dst src behavior =
     (if behavior = UACPI_ASSIGN_BEHAVIOR_DEEP_COPY then
        kbind (event_alloc host dst) (\<lambda>ok. kret (if ok then UACPI_STATUS_OK else UACPI_STATUS_OUT_OF_MEMORY))
      else kbind (cell_get as_object src) (share_pointer dst))"

definition assign_package ::
    "(u64 \<Rightarrow> u64 \<Rightarrow> ('z, uacpi_status) okern) \<Rightarrow> object_host \<Rightarrow> u64 \<Rightarrow> u64 \<Rightarrow> uacpi_assign_behavior \<Rightarrow> ('z, uacpi_status) okern" where
  "assign_package assign host dst src behavior =
     (if behavior = UACPI_ASSIGN_BEHAVIOR_SHALLOW_COPY then kbind (cell_get as_object src) (share_pointer dst)
      else deep_copy_package assign host dst src)"

definition uacpi_object_attach_child :: "u64 \<Rightarrow> u64 \<Rightarrow> ('z, unit) okern" where
  "uacpi_object_attach_child parent child = kseq (mod_object parent (ob_w0_update (\<lambda>_. child)))
     (kbind (sh_bugged parent) (\<lambda>bugged. if bugged then make_chain_bugged child
        else kbind (sh_refcount parent) (\<lambda>refs. kfor [0..<unat refs] (\<lambda>_. uacpi_object_ref child))))"

definition uacpi_object_detach_child :: "nat \<Rightarrow> object_host \<Rightarrow> u64 \<Rightarrow> ('z, unit) okern" where
  "uacpi_object_detach_child depth host parent = kbind (cell_get as_object parent) (\<lambda>x.
     kseq (mod_object parent (ob_w0_update (\<lambda>_. 0)))
     (kbind (sh_bugged parent) (\<lambda>bugged. if bugged then kret ()
        else kbind (sh_refcount parent) (\<lambda>refs. kfor [0..<unat refs] (\<lambda>_. uacpi_object_unref depth host (ob_w0 x))))))"

text \<open>The first switch of \<open>uacpi_object_assign\<close>: what the destination had is given up.\<close>

definition assign_clear :: "nat \<Rightarrow> object_host \<Rightarrow> u64 \<Rightarrow> ('z, unit) okern" where
  "assign_clear depth host dst = kbind (cell_get as_object dst) (\<lambda>x.
     if ob_type x = UACPI_OBJECT_REFERENCE then uacpi_object_detach_child depth host dst
     else if ob_type x \<in> {UACPI_OBJECT_STRING, UACPI_OBJECT_BUFFER, UACPI_OBJECT_METHOD, UACPI_OBJECT_PACKAGE, UACPI_OBJECT_MUTEX,
         UACPI_OBJECT_EVENT, UACPI_OBJECT_PROCESSOR, UACPI_OBJECT_DEVICE, UACPI_OBJECT_THERMAL_ZONE}
     then free_object_storage (free_object depth host) (free_field_unit depth host) host dst
     else kret ())"

text \<open>The second switch: what the source has is copied.\<close>

definition assign_from ::
    "(u64 \<Rightarrow> u64 \<Rightarrow> ('z, uacpi_status) okern) \<Rightarrow> object_host \<Rightarrow> u64 \<Rightarrow> u64 \<Rightarrow> uacpi_assign_behavior \<Rightarrow> ('z, uacpi_status) okern" where
  "assign_from assign host dst src behavior = kbind (cell_get as_object src) (\<lambda>y.
     let buffer_case = kseq (mod_object dst (ob_flags_update (\<lambda>_. ob_flags y))) (assign_buffer host dst src behavior) in
     case ob_type y of
       UACPI_OBJECT_UNINITIALIZED \<Rightarrow> kret UACPI_STATUS_OK
     | UACPI_OBJECT_DEBUG \<Rightarrow> kret UACPI_STATUS_OK
     | UACPI_OBJECT_BUFFER \<Rightarrow> buffer_case
     | UACPI_OBJECT_STRING \<Rightarrow> buffer_case
     | UACPI_OBJECT_BUFFER_FIELD \<Rightarrow>
         kseq (mod_object dst (\<lambda>x. x\<lparr>ob_w0 := ob_w0 y, ob_w1 := ob_w1 y, ob_w2 := ob_w2 y\<rparr>))
           (kseq (sh_ref (ob_w0 y)) (kret UACPI_STATUS_OK))
     | UACPI_OBJECT_BUFFER_INDEX \<Rightarrow>
         kseq (mod_object dst (\<lambda>x. x\<lparr>ob_w0 := ob_w0 y, ob_w1 := ob_w1 y\<rparr>)) (kseq (sh_ref (ob_w1 y)) (kret UACPI_STATUS_OK))
     | UACPI_OBJECT_INTEGER \<Rightarrow> kseq (mod_object dst (ob_w0_update (\<lambda>_. ob_w0 y))) (kret UACPI_STATUS_OK)
     | UACPI_OBJECT_METHOD \<Rightarrow> share_pointer dst y
     | UACPI_OBJECT_MUTEX \<Rightarrow> assign_mutex host dst src behavior
     | UACPI_OBJECT_EVENT \<Rightarrow> assign_event host dst src behavior
     | UACPI_OBJECT_OPERATION_REGION \<Rightarrow> share_pointer dst y
     | UACPI_OBJECT_PACKAGE \<Rightarrow> assign_package assign host dst src behavior
     | UACPI_OBJECT_FIELD_UNIT \<Rightarrow> share_pointer dst y
     | UACPI_OBJECT_REFERENCE \<Rightarrow> kseq (uacpi_object_attach_child dst (ob_w0 y)) (kret UACPI_STATUS_OK)
     | UACPI_OBJECT_PROCESSOR \<Rightarrow> share_pointer dst y
     | UACPI_OBJECT_DEVICE \<Rightarrow> share_pointer dst y
     | UACPI_OBJECT_THERMAL_ZONE \<Rightarrow> share_pointer dst y
     | UACPI_OBJECT_POWER_RESOURCE \<Rightarrow> kret UACPI_STATUS_UNIMPLEMENTED)"

fun uacpi_object_assign :: "nat \<Rightarrow> object_host \<Rightarrow> u64 \<Rightarrow> u64 \<Rightarrow> uacpi_assign_behavior \<Rightarrow> ('z, uacpi_status) okern" where
  "uacpi_object_assign 0 host dst src behavior = (\<lambda>_. Diverge)"
| "uacpi_object_assign (Suc depth) host dst src behavior =
     (if src = dst then kret UACPI_STATUS_OK
      else kseq (assign_clear depth host dst)
        (kbind (assign_from (\<lambda>d e. uacpi_object_assign depth host d e UACPI_ASSIGN_BEHAVIOR_DEEP_COPY) host dst src behavior) (\<lambda>ret.
          kseq (kif (ret = UACPI_STATUS_OK) (kbind (cell_get as_object src) (\<lambda>y. mod_object dst (ob_type_update (\<lambda>_. ob_type y)))))
            (kret ret))))"

definition uacpi_create_internal_reference :: "object_host \<Rightarrow> u8 \<Rightarrow> u64 \<Rightarrow> ('z, u64) okern" where
  "uacpi_create_internal_reference host kind child = kbind (uacpi_create_object host UACPI_OBJECT_REFERENCE) (\<lambda>ret.
     if ret = 0 then kret 0
     else kseq (mod_object ret (ob_flags_update (\<lambda>_. kind))) (kseq (uacpi_object_attach_child ret child) (kret ret)))"

definition unwrap_round :: "u64 \<Rightarrow> ('z, u64 + u64) okern" where
  "unwrap_round obj = kbind (cell_get as_object obj) (\<lambda>x.
     if ob_type x \<noteq> UACPI_OBJECT_REFERENCE \<or> ob_flags x = UACPI_REFERENCE_KIND_REFOF \<or> ob_flags x = UACPI_REFERENCE_KIND_PKG_INDEX
     then kret (Inr obj) else kret (Inl (ob_w0 x)))"

definition uacpi_unwrap_internal_reference :: "u64 \<Rightarrow> ('z, u64) okern" where
  "uacpi_unwrap_internal_reference obj = kloop unwrap_round obj"

section \<open>The interface for users\<close>

text \<open>An object on the stack of the caller, at an address that is not the heap's, for as long as the code runs.\<close>

definition LOCAL_OBJECT :: u64 where "LOCAL_OBJECT = 1"

definition with_local :: "uacpi_object \<Rightarrow> (u64 \<Rightarrow> ('z, 'a) okern) \<Rightarrow> ('z, 'a) okern" where
  "with_local x f = kseq (kmod (\<lambda>s. s\<lparr>o_heap := (o_heap s)(LOCAL_OBJECT \<mapsto> Shared \<lparr>reference_count = 0\<rparr> (BObject x))\<rparr>))
     (kbind (f LOCAL_OBJECT) (\<lambda>r. kseq (kmod (\<lambda>s. s\<lparr>o_heap := (o_heap s)(LOCAL_OBJECT := None)\<rparr>)) (kret r)))"

definition uacpi_object_get_type :: "u64 \<Rightarrow> ('z, uacpi_object_type) okern" where
  "uacpi_object_get_type obj = kbind (cell_get as_object obj) (\<lambda>x. kret (ob_type x))"

definition uacpi_object_get_type_bit :: "u64 \<Rightarrow> ('z, u32) okern" where
  "uacpi_object_get_type_bit obj = kbind (cell_get as_object obj) (\<lambda>x. kret (object_type_bit (ob_type x)))"

definition uacpi_object_is :: "u64 \<Rightarrow> uacpi_object_type \<Rightarrow> ('z, bool) okern" where
  "uacpi_object_is obj t = kbind (cell_get as_object obj) (\<lambda>x. kret (ob_type x = t))"

definition uacpi_object_is_one_of :: "u64 \<Rightarrow> u32 \<Rightarrow> ('z, bool) okern" where
  "uacpi_object_is_one_of obj type_mask = kbind (uacpi_object_get_type_bit obj) (\<lambda>b. kret (b AND type_mask \<noteq> 0))"

text \<open>\<open>TYPE_CHECK_USER_OBJ_RET\<close>, and a getter: a status and what it stores when it succeeds.\<close>

definition type_check :: "u64 \<Rightarrow> u32 \<Rightarrow> ('z, bool) okern" where
  "type_check obj type_bits = (if obj = 0 then kret False else uacpi_object_is_one_of obj type_bits)"

definition typed_get :: "u64 \<Rightarrow> u32 \<Rightarrow> (uacpi_object \<Rightarrow> ('z, 'a) okern) \<Rightarrow> ('z, uacpi_status \<times> 'a option) okern" where
  "typed_get obj type_bits f = kbind (type_check obj type_bits) (\<lambda>ok.
     if \<not> ok then kret (UACPI_STATUS_INVALID_ARGUMENT, None)
     else kbind (cell_get as_object obj) (\<lambda>x. kbind (f x) (\<lambda>v. kret (UACPI_STATUS_OK, Some v))))"

definition uacpi_object_get_integer :: "u64 \<Rightarrow> ('z, uacpi_status \<times> u64 option) okern" where
  "uacpi_object_get_integer obj = typed_get obj (object_type_bit UACPI_OBJECT_INTEGER) (\<lambda>x. kret (ob_w0 x))"

definition uacpi_object_assign_integer :: "nat \<Rightarrow> object_host \<Rightarrow> u64 \<Rightarrow> u64 \<Rightarrow> ('z, uacpi_status) okern" where
  "uacpi_object_assign_integer depth host obj value =
     (if obj = 0 then kret UACPI_STATUS_INVALID_ARGUMENT
      else with_local (zero_object\<lparr>ob_type := UACPI_OBJECT_INTEGER, ob_w0 := value\<rparr>)
        (\<lambda>src. uacpi_object_assign depth host obj src UACPI_ASSIGN_BEHAVIOR_DEEP_COPY))"

text \<open>A view: the pointer to the data and the length.\<close>

definition uacpi_object_do_get_string_or_buffer :: "u64 \<Rightarrow> u32 \<Rightarrow> ('z, uacpi_status \<times> (u64 \<times> u64) option) okern" where
  "uacpi_object_do_get_string_or_buffer obj type_mask = typed_get obj type_mask (\<lambda>x.
     kbind (cell_get as_buffer (ob_w0 x)) (\<lambda>b. kret (buf_data b, buf_size b)))"

definition uacpi_object_get_string_or_buffer :: "u64 \<Rightarrow> ('z, uacpi_status \<times> (u64 \<times> u64) option) okern" where
  "uacpi_object_get_string_or_buffer obj = uacpi_object_do_get_string_or_buffer obj
     (object_type_bit UACPI_OBJECT_STRING OR object_type_bit UACPI_OBJECT_BUFFER)"

definition uacpi_object_get_string :: "u64 \<Rightarrow> ('z, uacpi_status \<times> (u64 \<times> u64) option) okern" where
  "uacpi_object_get_string obj = uacpi_object_do_get_string_or_buffer obj (object_type_bit UACPI_OBJECT_STRING)"

definition uacpi_object_get_buffer :: "u64 \<Rightarrow> ('z, uacpi_status \<times> (u64 \<times> u64) option) okern" where
  "uacpi_object_get_buffer obj = uacpi_object_do_get_string_or_buffer obj (object_type_bit UACPI_OBJECT_BUFFER)"

definition uacpi_object_is_aml_namepath :: "u64 \<Rightarrow> ('z, bool) okern" where
  "uacpi_object_is_aml_namepath obj = kbind (type_check obj (object_type_bit UACPI_OBJECT_STRING)) (\<lambda>ok.
     if \<not> ok then kret False else kbind (cell_get as_object obj) (\<lambda>x. kret (ob_flags x = UACPI_STRING_KIND_PATH)))"

text \<open>The view of the caller is the bytes that it shows.\<close>

definition uacpi_object_do_assign_buffer ::
    "nat \<Rightarrow> object_host \<Rightarrow> u64 \<Rightarrow> u8 list \<Rightarrow> uacpi_object_type \<Rightarrow> ('z, uacpi_status) okern" where
  "uacpi_object_do_assign_buffer depth host obj view t =
     (let in_length = of_nat (length view);
          dst_buf_size = (if t = UACPI_OBJECT_STRING \<and> (in_length = 0 \<or> last view \<noteq> 0) then in_length + 1 else in_length) in
      if obj = 0 then kret UACPI_STATUS_INVALID_ARGUMENT
      else with_local (zero_object\<lparr>ob_type := t\<rparr>) (\<lambda>tmp_obj.
        kbind (buffer_alloc_and_store host tmp_obj dst_buf_size (\<lambda>n. kret (take n view)) in_length) (\<lambda>ret.
        if ret \<noteq> UACPI_STATUS_OK then kret ret
        else kbind (uacpi_object_assign depth host obj tmp_obj UACPI_ASSIGN_BEHAVIOR_SHALLOW_COPY) (\<lambda>ret.
          kbind (cell_get as_object tmp_obj) (\<lambda>y. kseq (unref_and_delete_if_last (ob_w0 y) free_buffer) (kret ret))))))"

definition uacpi_object_assign_string :: "nat \<Rightarrow> object_host \<Rightarrow> u64 \<Rightarrow> u8 list \<Rightarrow> ('z, uacpi_status) okern" where
  "uacpi_object_assign_string depth host obj view = uacpi_object_do_assign_buffer depth host obj view UACPI_OBJECT_STRING"

definition uacpi_object_assign_buffer :: "nat \<Rightarrow> object_host \<Rightarrow> u64 \<Rightarrow> u8 list \<Rightarrow> ('z, uacpi_status) okern" where
  "uacpi_object_assign_buffer depth host obj view = uacpi_object_do_assign_buffer depth host obj view UACPI_OBJECT_BUFFER"

definition uacpi_object_create_uninitialized :: "object_host \<Rightarrow> ('z, u64) okern" where
  "uacpi_object_create_uninitialized host = uacpi_create_object host UACPI_OBJECT_UNINITIALIZED"

definition uacpi_object_create_integer :: "object_host \<Rightarrow> u64 \<Rightarrow> ('z, u64) okern" where
  "uacpi_object_create_integer host value = kbind (uacpi_create_object host UACPI_OBJECT_INTEGER) (\<lambda>obj.
     if obj = 0 then kret 0 else kseq (mod_object obj (ob_w0_update (\<lambda>_. value))) (kret obj))"

text \<open>\<open>uacpi_get_aml_bitness\<close> of \<^verbatim>\<open>src/uacpi/uacpi.c\<close>: a status and the width.\<close>

definition uacpi_get_aml_bitness :: "('z, uacpi_status \<times> u8) okern" where
  "uacpi_get_aml_bitness = kget (\<lambda>s.
     if ts_init_level (o_tables s) < UACPI_INIT_LEVEL_SUBSYSTEM_INITIALIZED then (UACPI_STATUS_INIT_LEVEL_MISMATCH, 0)
     else (UACPI_STATUS_OK, if is_rev1 (o_tables s) then 32 else 64))"

datatype uacpi_overflow_behavior = UACPI_OVERFLOW_ALLOW | UACPI_OVERFLOW_TRUNCATE | UACPI_OVERFLOW_DISALLOW | InvalidOverflow

definition uacpi_object_create_integer_safe ::
    "object_host \<Rightarrow> u64 \<Rightarrow> uacpi_overflow_behavior \<Rightarrow> ('z, uacpi_status \<times> u64 option) okern" where
  "uacpi_object_create_integer_safe host value behavior = kbind uacpi_get_aml_bitness (\<lambda>(ret, bitness).
     let create = (\<lambda>value. kbind (uacpi_object_create_integer host value) (\<lambda>obj.
           kret (if obj = 0 then (UACPI_STATUS_OUT_OF_MEMORY, None) else (ret, Some obj))));
         too_big = (bitness = 32 \<and> value > 0xFFFFFFFF) in
     if ret \<noteq> UACPI_STATUS_OK then kret (ret, None)
     else case behavior of
       UACPI_OVERFLOW_TRUNCATE \<Rightarrow> create (if too_big then value AND 0xFFFFFFFF else value)
     | UACPI_OVERFLOW_DISALLOW \<Rightarrow> if too_big then kret (UACPI_STATUS_INVALID_ARGUMENT, None) else create value
     | UACPI_OVERFLOW_ALLOW \<Rightarrow> create value
     | InvalidOverflow \<Rightarrow> kret (UACPI_STATUS_INVALID_ARGUMENT, None))"

definition uacpi_object_do_create_string_or_buffer ::
    "nat \<Rightarrow> object_host \<Rightarrow> u8 list \<Rightarrow> uacpi_object_type \<Rightarrow> ('z, u64) okern" where
  "uacpi_object_do_create_string_or_buffer depth host view t = kbind (uacpi_create_object host UACPI_OBJECT_UNINITIALIZED) (\<lambda>obj.
     if obj = 0 then kret 0
     else kbind (uacpi_object_do_assign_buffer depth host obj view t) (\<lambda>ret.
       if ret \<noteq> UACPI_STATUS_OK then kseq (uacpi_object_unref depth host obj) (kret 0) else kret obj))"

definition uacpi_object_create_string :: "nat \<Rightarrow> object_host \<Rightarrow> u8 list \<Rightarrow> ('z, u64) okern" where
  "uacpi_object_create_string depth host view = uacpi_object_do_create_string_or_buffer depth host view UACPI_OBJECT_STRING"

definition uacpi_object_create_buffer :: "nat \<Rightarrow> object_host \<Rightarrow> u8 list \<Rightarrow> ('z, u64) okern" where
  "uacpi_object_create_buffer depth host view = uacpi_object_do_create_string_or_buffer depth host view UACPI_OBJECT_BUFFER"

text \<open>The string without its terminator.\<close>

definition uacpi_object_create_cstring :: "nat \<Rightarrow> object_host \<Rightarrow> u8 list \<Rightarrow> ('z, u64) okern" where
  "uacpi_object_create_cstring depth host str = uacpi_object_create_string depth host (str @ [0])"

definition uacpi_object_get_package :: "u64 \<Rightarrow> ('z, uacpi_status \<times> (u64 \<times> u64) option) okern" where
  "uacpi_object_get_package obj = typed_get obj (object_type_bit UACPI_OBJECT_PACKAGE) (\<lambda>x.
     kbind (cell_get as_package (ob_w0 x)) (\<lambda>p. kret (pkg_objects p, pkg_count p)))"

definition uacpi_object_create_reference :: "object_host \<Rightarrow> u64 \<Rightarrow> ('z, u64) okern" where
  "uacpi_object_create_reference host child = (if child = 0 then kret 0
     else kbind (uacpi_create_object host UACPI_OBJECT_REFERENCE) (\<lambda>obj.
       if obj = 0 then kret 0
       else kseq (uacpi_object_attach_child obj child)
         (kseq (mod_object obj (ob_flags_update (\<lambda>_. UACPI_REFERENCE_KIND_ARG))) (kret obj))))"

definition uacpi_object_assign_reference :: "nat \<Rightarrow> object_host \<Rightarrow> u64 \<Rightarrow> u64 \<Rightarrow> ('z, uacpi_status) okern" where
  "uacpi_object_assign_reference depth host obj child =
     (if obj = 0 \<or> child = 0 then kret UACPI_STATUS_INVALID_ARGUMENT
      else kbind (with_local zero_object (\<lambda>src. uacpi_object_assign depth host obj src UACPI_ASSIGN_BEHAVIOR_DEEP_COPY)) (\<lambda>ret.
        if ret \<noteq> UACPI_STATUS_OK then kret ret
        else kseq (mod_object obj (ob_type_update (\<lambda>_. UACPI_OBJECT_REFERENCE)))
          (kseq (uacpi_object_attach_child obj child)
          (kseq (mod_object obj (ob_flags_update (\<lambda>_. UACPI_REFERENCE_KIND_ARG))) (kret UACPI_STATUS_OK)))))"

definition uacpi_object_get_dereferenced :: "u64 \<Rightarrow> ('z, uacpi_status \<times> u64 option) okern" where
  "uacpi_object_get_dereferenced obj = typed_get obj (object_type_bit UACPI_OBJECT_REFERENCE) (\<lambda>x.
     kseq (sh_ref (ob_w0 x)) (kret (ob_w0 x)))"

definition uacpi_object_get_processor_info :: "u64 \<Rightarrow> ('z, uacpi_status \<times> (u8 \<times> u32 \<times> u8) option) okern" where
  "uacpi_object_get_processor_info obj = typed_get obj (object_type_bit UACPI_OBJECT_PROCESSOR) (\<lambda>x.
     kbind (cell_get as_processor (ob_w0 x)) (\<lambda>p. kret (pr_id p, pr_block_address p, pr_block_length p)))"

definition uacpi_object_get_power_resource_info :: "u64 \<Rightarrow> ('z, uacpi_status \<times> (u8 \<times> u16) option) okern" where
  "uacpi_object_get_power_resource_info obj = typed_get obj (object_type_bit UACPI_OBJECT_POWER_RESOURCE) (\<lambda>x.
     kret (ucast (ob_w0 x), ucast (drop_bit 16 (ob_w0 x))))"

text \<open>The array of the caller is the list of its pointers.\<close>

definition uacpi_object_assign_package :: "nat \<Rightarrow> object_host \<Rightarrow> u64 \<Rightarrow> u64 list \<Rightarrow> ('z, uacpi_status) okern" where
  "uacpi_object_assign_package depth host obj objs =
     (if obj = 0 then kret UACPI_STATUS_INVALID_ARGUMENT
      else with_local (zero_object\<lparr>ob_type := UACPI_OBJECT_PACKAGE\<rparr>) (\<lambda>tmp_obj.
        kbind (package_alloc (uacpi_create_object host) host tmp_obj (of_nat (length objs)) False) (\<lambda>ok.
        if \<not> ok then kret UACPI_STATUS_OUT_OF_MEMORY
        else kseq (mod_object obj (ob_type_update (\<lambda>_. UACPI_OBJECT_PACKAGE)))
         (kbind (cell_get as_object tmp_obj) (\<lambda>y.
          kseq (kfor [0..<length objs] (\<lambda>i. kbind (cell_get as_package (ob_w0 y)) (\<lambda>p.
                  kseq (put_element (pkg_objects p) i (objs ! i)) (uacpi_object_ref (objs ! i)))))
         (kbind (uacpi_object_assign depth host obj tmp_obj UACPI_ASSIGN_BEHAVIOR_SHALLOW_COPY) (\<lambda>ret.
          kseq (unref_and_delete_if_last (ob_w0 y) (free_package (free_object depth host) host)) (kret ret))))))))"

definition uacpi_object_create_package :: "nat \<Rightarrow> object_host \<Rightarrow> u64 list \<Rightarrow> ('z, u64) okern" where
  "uacpi_object_create_package depth host objs = kbind (uacpi_object_create_uninitialized host) (\<lambda>obj.
     if obj = 0 then kret 0
     else kbind (uacpi_object_assign_package depth host obj objs) (\<lambda>ret.
       if ret \<noteq> UACPI_STATUS_OK then kseq (uacpi_object_unref depth host obj) (kret 0) else kret obj))"

end
