(* ===== verification/UacpiNamespace.thy ===== *)
theory UacpiNamespace
  imports UacpiObjects
begin

text \<open>
  The ACPI namespace, \<^verbatim>\<open>src/uacpi/namespace.c\<close>: a tree of named nodes linked by pointers to the parent, the first
  child and the next sibling, under a reader-writer lock. Nodes are cells of the heap of \<open>UacpiObjects\<close>; the lock is that of
  \<open>UacpiMutex\<close>. What \<^verbatim>\<open>src/uacpi/opregion.c\<close> does when an operation region leaves the namespace and the callbacks of
  iterations are parameters. Paths are lists of characters without the terminator. Messages are left out.
\<close>

section \<open>State\<close>

record nstate = ostate +
  namespace_lock :: uacpi_rw_lock
  ns_world :: mworld
  root_object :: u64
  global_lock_mutex :: u64

type_synonym 'a nkern = "(nstate, 'a) kern"

record ns_host =
  nh_objects :: object_host
  nh_mutex :: mhost
  nh_opregion_uninstall_handler :: "u64 \<Rightarrow> (nstate, unit) kern"
  nh_uacpi_osi :: u64

definition UACPI_STATUS_NAMESPACE_NODE_DANGLING :: uacpi_status where "UACPI_STATUS_NAMESPACE_NODE_DANGLING = 13"

definition UACPI_FLAG_NO_OSI :: u64 where "UACPI_FLAG_NO_OSI = 16"

section \<open>The lock\<close>

definition uacpi_namespace_read_lock :: "ns_host \<Rightarrow> uacpi_status nkern" where
  "uacpi_namespace_read_lock host = (\<lambda>s. case uacpi_rw_lock_read (nh_mutex host) (namespace_lock s) (ns_world s) of
     (ret, lock, w) \<Rightarrow> Ret ret (s\<lparr>namespace_lock := lock, ns_world := w\<rparr>))"

definition uacpi_namespace_read_unlock :: "ns_host \<Rightarrow> uacpi_status nkern" where
  "uacpi_namespace_read_unlock host = (\<lambda>s. case uacpi_rw_unlock_read (nh_mutex host) (namespace_lock s) (ns_world s) of
     (ret, lock, w) \<Rightarrow> Ret ret (s\<lparr>namespace_lock := lock, ns_world := w\<rparr>))"

definition uacpi_namespace_write_lock :: "ns_host \<Rightarrow> uacpi_status nkern" where
  "uacpi_namespace_write_lock host = (\<lambda>s. case uacpi_rw_lock_write (nh_mutex host) (namespace_lock s) (ns_world s) of
     (ret, w) \<Rightarrow> Ret ret (s\<lparr>ns_world := w\<rparr>))"

definition uacpi_namespace_write_unlock :: "uacpi_status nkern" where
  "uacpi_namespace_write_unlock = (\<lambda>s. case uacpi_rw_unlock_write (namespace_lock s) (ns_world s) of
     (ret, w) \<Rightarrow> Ret ret (s\<lparr>ns_world := w\<rparr>))"

section \<open>Predefined nodes\<close>

text \<open>
  The predefined nodes are numbered from 0 to \<open>UACPI_PREDEFINED_NAMESPACE_MAX\<close>. They are static variables: their addresses are
  below those of the heap.
\<close>

definition UACPI_PREDEFINED_NAMESPACE_ROOT :: nat where "UACPI_PREDEFINED_NAMESPACE_ROOT = 0"
definition UACPI_PREDEFINED_NAMESPACE_GPE :: nat where "UACPI_PREDEFINED_NAMESPACE_GPE = 1"
definition UACPI_PREDEFINED_NAMESPACE_GL :: nat where "UACPI_PREDEFINED_NAMESPACE_GL = 6"
definition UACPI_PREDEFINED_NAMESPACE_OS :: nat where "UACPI_PREDEFINED_NAMESPACE_OS = 7"
definition UACPI_PREDEFINED_NAMESPACE_OSI :: nat where "UACPI_PREDEFINED_NAMESPACE_OSI = 8"
definition UACPI_PREDEFINED_NAMESPACE_REV :: nat where "UACPI_PREDEFINED_NAMESPACE_REV = 9"
definition UACPI_PREDEFINED_NAMESPACE_MAX :: nat where "UACPI_PREDEFINED_NAMESPACE_MAX = 9"

lemmas predefined_numbers = UACPI_PREDEFINED_NAMESPACE_ROOT_def UACPI_PREDEFINED_NAMESPACE_GPE_def UACPI_PREDEFINED_NAMESPACE_GL_def
  UACPI_PREDEFINED_NAMESPACE_OS_def UACPI_PREDEFINED_NAMESPACE_OSI_def UACPI_PREDEFINED_NAMESPACE_REV_def UACPI_PREDEFINED_NAMESPACE_MAX_def

definition chars :: "string \<Rightarrow> u8 list" where "chars str = map of_char str"

definition predefined_names :: "u8 list list" where
  "predefined_names = [[0x5C, 0, 0, 0], chars ''_GPE'', chars ''_PR_'', chars ''_SB_'', chars ''_SI_'', chars ''_TZ_'', chars ''_GL_'',
     chars ''_OS_'', chars ''_OSI'', chars ''_REV'']"

definition predefined_node :: "nat \<Rightarrow> u64" where "predefined_node ns = 16 + of_nat ns"

definition empty_node :: "u8 list \<Rightarrow> u32 \<Rightarrow> uacpi_namespace_node" where
  "empty_node nm fl = \<lparr>nd_name = nm, nd_flags = fl, nd_object = 0, nd_parent = 0, nd_child = 0, nd_next = 0\<rparr>"

text \<open>The memory before anything ran: the array \<open>predefined_namespaces\<close>.\<close>

definition initial_heap :: "u64 \<Rightarrow> cell option" where
  "initial_heap = map_of (map (\<lambda>ns. (predefined_node ns,
     Shared \<lparr>reference_count = 0\<rparr> (BNode (empty_node (predefined_names ! ns) UACPI_NAMESPACE_NODE_PREDEFINED)))) [0..<10])"

definition uacpi_namespace_root :: u64 where "uacpi_namespace_root = predefined_node UACPI_PREDEFINED_NAMESPACE_ROOT"

definition uacpi_namespace_get_predefined :: "nat \<Rightarrow> u64" where
  "uacpi_namespace_get_predefined ns = (if ns > UACPI_PREDEFINED_NAMESPACE_MAX then 0 else predefined_node ns)"

definition UACPI_REV_VALUE :: u64 where "UACPI_REV_VALUE = 2"
definition UACPI_OS_VALUE :: "u8 list" where "UACPI_OS_VALUE = chars ''Microsoft Windows NT'' @ [0]"

definition make_os_object :: "nat \<Rightarrow> ns_host \<Rightarrow> u64 nkern" where
  "make_os_object depth host = kbind (uacpi_create_object (nh_objects host) UACPI_OBJECT_STRING) (\<lambda>obj.
     if obj = 0 then kret 0
     else kbind (cell_get as_object obj) (\<lambda>x. kbind (alloc_bytes (nh_objects host) (of_nat (length UACPI_OS_VALUE))) (\<lambda>os_text.
       kbind (cell_get as_buffer (ob_w0 x)) (\<lambda>b. kseq (body_put as_buffer (ob_w0 x) (BBuffer (b\<lparr>buf_data := os_text\<rparr>)))
       (if os_text = 0 then kseq (uacpi_object_unref depth (nh_objects host) obj) (kret 0)
        else kseq (body_put as_buffer (ob_w0 x) (BBuffer \<lparr>buf_data = os_text, buf_size = of_nat (length UACPI_OS_VALUE)\<rparr>))
          (kseq (write_bytes os_text UACPI_OS_VALUE) (kret obj)))))))"

definition make_object_for_predefined :: "nat \<Rightarrow> ns_host \<Rightarrow> nat \<Rightarrow> u64 nkern" where
  "make_object_for_predefined depth host ns = (let create = uacpi_create_object (nh_objects host) in
     if ns = UACPI_PREDEFINED_NAMESPACE_ROOT then
       kbind (create UACPI_OBJECT_DEVICE) (\<lambda>root. kseq (kmod (root_object_update (\<lambda>_. root)))
         (if root = 0 then kret 0 else create UACPI_OBJECT_UNINITIALIZED))
     else if ns = UACPI_PREDEFINED_NAMESPACE_OS then make_os_object depth host
     else if ns = UACPI_PREDEFINED_NAMESPACE_REV then
       kbind (create UACPI_OBJECT_INTEGER) (\<lambda>obj. if obj = 0 then kret 0
         else kseq (mod_object obj (ob_w0_update (\<lambda>_. UACPI_REV_VALUE))) (kret obj))
     else if ns = UACPI_PREDEFINED_NAMESPACE_GL then
       kbind (create UACPI_OBJECT_MUTEX) (\<lambda>obj. if obj = 0 then kret 0
         else kbind (cell_get as_object obj) (\<lambda>x. kseq (sh_ref (ob_w0 x))
           (kseq (kmod (global_lock_mutex_update (\<lambda>_. ob_w0 x))) (kret obj))))
     else if ns = UACPI_PREDEFINED_NAMESPACE_OSI then
       kbind (create UACPI_OBJECT_METHOD) (\<lambda>obj. if obj = 0 then kret 0
         else kbind (cell_get as_object obj) (\<lambda>x. kbind (cell_get as_method (ob_w0 x)) (\<lambda>me.
           kseq (body_put as_method (ob_w0 x) (BMethod (me\<lparr>me_native_call := True, me_code := nh_uacpi_osi host, me_args := 1\<rparr>)))
             (kret obj))))
     else create UACPI_OBJECT_UNINITIALIZED)"

section \<open>Nodes\<close>

text \<open>The flags of a node.\<close>

definition node_flag :: "u32 \<Rightarrow> u64 \<Rightarrow> bool nkern" where
  "node_flag fl node = kbind (cell_get as_node node) (\<lambda>nd. kret (nd_flags nd AND fl \<noteq> 0))"

definition uacpi_namespace_node_is_alias :: "u64 \<Rightarrow> bool nkern" where
  "uacpi_namespace_node_is_alias node = node_flag UACPI_NAMESPACE_NODE_FLAG_ALIAS node"

definition uacpi_namespace_node_is_dangling :: "u64 \<Rightarrow> bool nkern" where
  "uacpi_namespace_node_is_dangling node = node_flag UACPI_NAMESPACE_NODE_FLAG_DANGLING node"

definition uacpi_namespace_node_is_temporary :: "u64 \<Rightarrow> bool nkern" where
  "uacpi_namespace_node_is_temporary node = node_flag UACPI_NAMESPACE_NODE_FLAG_TEMPORARY node"

definition uacpi_namespace_node_is_predefined :: "u64 \<Rightarrow> bool nkern" where
  "uacpi_namespace_node_is_predefined node = node_flag UACPI_NAMESPACE_NODE_PREDEFINED node"

definition uacpi_namespace_node_get_object :: "u64 \<Rightarrow> u64 nkern" where
  "uacpi_namespace_node_get_object node = (if node = 0 then kret 0
     else kbind (cell_get as_node node) (\<lambda>nd. if nd_object nd = 0 then kret 0 else uacpi_unwrap_internal_reference (nd_object nd)))"

definition uacpi_namespace_node_get_object_typed :: "u64 \<Rightarrow> u32 \<Rightarrow> u64 nkern" where
  "uacpi_namespace_node_get_object_typed node type_mask = kbind (uacpi_namespace_node_get_object node) (\<lambda>obj.
     if obj = 0 then kret 0
     else kbind (uacpi_object_is_one_of obj type_mask) (\<lambda>ok. kret (if ok then obj else 0)))"

definition namespace_node_detach_object :: "nat \<Rightarrow> ns_host \<Rightarrow> u64 \<Rightarrow> unit nkern" where
  "namespace_node_detach_object depth host node = kbind (uacpi_namespace_node_get_object node) (\<lambda>obj.
     if obj = 0 then kret ()
     else kbind (cell_get as_object obj) (\<lambda>x.
       kseq (kif (ob_type x = UACPI_OBJECT_OPERATION_REGION) (nh_opregion_uninstall_handler host node))
      (kbind (cell_get as_node node) (\<lambda>nd.
       kseq (uacpi_object_unref depth (nh_objects host) (nd_object nd))
         (mod_node node (nd_object_update (\<lambda>_. 0)))))))"

definition uacpi_namespace_node_alloc :: "ns_host \<Rightarrow> u8 list \<Rightarrow> u64 nkern" where
  "uacpi_namespace_node_alloc host nm = alloc_cell (nh_objects host) 48 (fresh (BNode (empty_node nm 0)))"

text \<open>The last sibling from \<open>prev\<close> on.\<close>

definition last_sibling :: "u64 \<Rightarrow> u64 nkern" where
  "last_sibling prev = kloop (\<lambda>prev. kbind (cell_get as_node prev) (\<lambda>nd.
     kret (if nd_next nd \<noteq> 0 then Inl (nd_next nd) else Inr prev))) prev"

definition uacpi_namespace_node_install :: "u64 \<Rightarrow> u64 \<Rightarrow> uacpi_status nkern" where
  "uacpi_namespace_node_install parent node = (let parent = (if parent = 0 then uacpi_namespace_root else parent) in
     kbind (uacpi_namespace_node_is_dangling node) (\<lambda>dangling.
     if dangling then kret UACPI_STATUS_NAMESPACE_NODE_DANGLING
     else kbind (cell_get as_node parent) (\<lambda>pd.
       kseq (if nd_child pd = 0 then mod_node parent (nd_child_update (\<lambda>_. node))
             else kbind (last_sibling (nd_child pd)) (\<lambda>prev. mod_node prev (nd_next_update (\<lambda>_. node))))
      (kseq (mod_node node (nd_parent_update (\<lambda>_. parent))) (kret UACPI_STATUS_OK)))))"

text \<open>The sibling before \<open>node\<close>, from \<open>prev\<close> on, or null.\<close>

definition previous_sibling :: "u64 \<Rightarrow> u64 \<Rightarrow> u64 nkern" where
  "previous_sibling node prev = kloop (\<lambda>prev. if prev = 0 then kret (Inr 0)
     else kbind (cell_get as_node prev) (\<lambda>nd. kret (if nd_next nd \<noteq> node then Inl (nd_next nd) else Inr prev))) prev"

text \<open>Taking the node out of the list of its siblings: whether it was in it.\<close>

definition unlink_node :: "u64 \<Rightarrow> bool nkern" where
  "unlink_node node = kbind (cell_get as_node node) (\<lambda>nd.
     kbind (if nd_parent nd \<noteq> 0 then kbind (cell_get as_node (nd_parent nd)) (\<lambda>pd. kret (nd_child pd)) else kret 0) (\<lambda>prev.
     if prev = node then kseq (mod_node (nd_parent nd) (nd_child_update (\<lambda>_. nd_next nd))) (kret True)
     else kbind (previous_sibling node prev) (\<lambda>prev.
       if prev = 0 then kret False
       else kseq (mod_node prev (nd_next_update (\<lambda>_. nd_next nd))) (kret True))))"

definition uacpi_namespace_node_uninstall :: "nat \<Rightarrow> ns_host \<Rightarrow> u64 \<Rightarrow> uacpi_status nkern" where
  "uacpi_namespace_node_uninstall depth host node = kbind (uacpi_namespace_node_is_dangling node) (\<lambda>dangling.
     if dangling then kret UACPI_STATUS_INTERNAL_ERROR
     else kbind (cell_get as_node node) (\<lambda>nd.
     if nd_child nd \<noteq> 0 then kret UACPI_STATUS_DENIED
     else kseq (namespace_node_detach_object depth host node)
      (kbind (unlink_node node) (\<lambda>linked.
       if \<not> linked then kret UACPI_STATUS_INTERNAL_ERROR
       else kseq (mod_node node (nd_flags_update (\<lambda>fl. fl OR UACPI_NAMESPACE_NODE_FLAG_DANGLING)))
         (kseq (uacpi_namespace_node_unref node) (kret UACPI_STATUS_OK))))))"

section \<open>Start-up and shutdown\<close>

text \<open>One round of the first loop of \<open>uacpi_initialize_namespace\<close>: the error to return, if there is one.\<close>

definition initialize_predefined :: "nat \<Rightarrow> ns_host \<Rightarrow> nat \<Rightarrow> uacpi_status option nkern" where
  "initialize_predefined depth host ns = (let node = predefined_node ns in
     kseq (shareable_do (\<lambda>sh. ((), uacpi_shareable_init sh)) node)
    (kbind (make_object_for_predefined depth host ns) (\<lambda>obj.
     if obj = 0 then kret (Some UACPI_STATUS_OUT_OF_MEMORY)
     else kbind (uacpi_create_internal_reference (nh_objects host) UACPI_REFERENCE_KIND_NAMED obj) (\<lambda>r.
       kseq (mod_node node (nd_object_update (\<lambda>_. r)))
      (kseq (uacpi_object_unref depth (nh_objects host) obj)
        (kret (if r = 0 then Some UACPI_STATUS_OUT_OF_MEMORY else None)))))))"

definition initialize_lock :: "ns_host \<Rightarrow> uacpi_status nkern" where
  "initialize_lock host = (\<lambda>s. case uacpi_rw_lock_init (nh_mutex host) (namespace_lock s) of (ret, lock, _) \<Rightarrow>
     Ret ret (s\<lparr>namespace_lock := lock\<rparr>))"

definition uacpi_initialize_namespace :: "nat \<Rightarrow> ns_host \<Rightarrow> uacpi_status nkern" where
  "uacpi_initialize_namespace depth host = kbind (initialize_lock host) (\<lambda>ret.
     if ret \<noteq> UACPI_STATUS_OK then kret ret
     else kbind (kfor_ret [0..<UACPI_PREDEFINED_NAMESPACE_MAX + 1] (initialize_predefined depth host)) (\<lambda>e. case e of
       Some ret \<Rightarrow> kret ret
     | None \<Rightarrow> kseq (kfor [UACPI_PREDEFINED_NAMESPACE_GPE..<UACPI_PREDEFINED_NAMESPACE_MAX + 1] (\<lambda>ns.
           kbind (on_tables (check_flag UACPI_FLAG_NO_OSI)) (\<lambda>no_osi.
             if ns = UACPI_PREDEFINED_NAMESPACE_OSI \<and> no_osi then kret ()
             else kseq (uacpi_namespace_node_install uacpi_namespace_root (predefined_node ns)) (kret ()))))
         (kret UACPI_STATUS_OK)))"

text \<open>\<open>while (current->child) uacpi_namespace_node_uninstall(current->child);\<close>\<close>

definition wipe_children :: "nat \<Rightarrow> ns_host \<Rightarrow> u64 \<Rightarrow> unit nkern" where
  "wipe_children depth host current = kloop (\<lambda>_. kbind (cell_get as_node current) (\<lambda>nd.
     if nd_child nd \<noteq> 0 then kseq (uacpi_namespace_node_uninstall depth host (nd_child nd)) (kret (Inl ()))
     else kret (Inr ()))) ()"

definition deinitialize_round :: "nat \<Rightarrow> ns_host \<Rightarrow> u64 \<times> u64 \<times> u32 \<Rightarrow> (u64 \<times> u64 \<times> u32 + unit) nkern" where
  "deinitialize_round depth host = (\<lambda>(current, nxt, level). if level = 0 then kret (Inr ())
     else kbind (if nxt = 0 then kbind (cell_get as_node current) (\<lambda>nd. kret (nd_child nd))
                 else kbind (cell_get as_node nxt) (\<lambda>nd. kret (nd_next nd))) (\<lambda>nxt.
     if nxt = 0 then kseq (wipe_children depth host current)
       (kbind (cell_get as_node current) (\<lambda>nd. kret (Inl (nd_parent nd, current, level - 1))))
     else kbind (cell_get as_node nxt) (\<lambda>nd.
       if nd_child nd \<noteq> 0 then kret (Inl (nxt, 0, level + 1)) else kret (Inl (current, nxt, level)))))"

definition uacpi_deinitialize_namespace :: "nat \<Rightarrow> ns_host \<Rightarrow> unit nkern" where
  "uacpi_deinitialize_namespace depth host = kbind (uacpi_namespace_write_lock host) (\<lambda>ret.
     kseq (kloop (deinitialize_round depth host) (uacpi_namespace_root, 0, 1))
    (kseq (namespace_node_detach_object depth host uacpi_namespace_root)
    (kseq (free_namespace_node uacpi_namespace_root)
    (kseq (kif (ret = UACPI_STATUS_OK) (kseq uacpi_namespace_write_unlock (kret ())))
    (kbind (kget root_object) (\<lambda>root.
     kseq (uacpi_object_unref depth (nh_objects host) root)
    (kseq (kmod (root_object_update (\<lambda>_. 0)))
    (kbind (kget global_lock_mutex) (\<lambda>m.
     kseq (uacpi_mutex_unref m)
    (kseq (kmod (global_lock_mutex_update (\<lambda>_. 0)))
     (kmod (namespace_lock_update (\<lambda>l. snd (uacpi_rw_lock_deinit l))))))))))))))"

section \<open>Searches\<close>

definition find_round :: "u8 list \<Rightarrow> u64 \<Rightarrow> (u64 + u64) nkern" where
  "find_round nm node = (if node = 0 then kret (Inr 0)
     else kbind (cell_get as_node node) (\<lambda>nd. kret (if nd_name nd = nm then Inr node else Inl (nd_next nd))))"

definition uacpi_namespace_node_find_sub_node :: "u64 \<Rightarrow> u8 list \<Rightarrow> u64 nkern" where
  "uacpi_namespace_node_find_sub_node parent nm = (let parent = (if parent = 0 then uacpi_namespace_root else parent) in
     kbind (cell_get as_node parent) (\<lambda>pd. kloop (find_round nm) (nd_child pd)))"

abbreviation DOT :: u8 where "DOT \<equiv> 0x2E"
abbreviation CARET :: u8 where "CARET \<equiv> 0x5E"
abbreviation BACKSLASH :: u8 where "BACKSLASH \<equiv> 0x5C"
abbreviation UNDERSCORE :: u8 where "UNDERSCORE \<equiv> 0x5F"

text \<open>The name, and what is left of the path.\<close>

fun segment_chars :: "nat \<Rightarrow> u8 list \<Rightarrow> u8 list \<times> u8 list" where
  "segment_chars 0 cursor = ([], cursor)"
| "segment_chars (Suc n) cursor = (if cursor = [] \<or> hd cursor = DOT
     then (case segment_chars n cursor of (nm, rest) \<Rightarrow> (UNDERSCORE # nm, rest))
     else (case segment_chars n (tl cursor) of (nm, rest) \<Rightarrow> (hd cursor # nm, rest)))"

definition segment_to_name :: "u8 list \<Rightarrow> u8 list \<times> u8 list" where
  "segment_to_name cursor = segment_chars 4 cursor"

text \<open>
  The first loop of \<open>uacpi_namespace_node_resolve\<close>, over the prefix of the path: it ends with \<open>goto out\<close> and a status
  (\<open>PrefixOut\<close>), or goes on with the segments.
\<close>

datatype prefix_result = PrefixOut uacpi_status u64 | PrefixGo u64 "u8 list" bool

fun resolve_prefix :: "u8 list \<Rightarrow> u64 \<Rightarrow> u8 \<Rightarrow> bool \<Rightarrow> prefix_result nkern" where
  "resolve_prefix [] cur prev_char single = kret (PrefixOut UACPI_STATUS_OK cur)"
| "resolve_prefix (c # rest) cur prev_char single =
     (if c = BACKSLASH then
        kret (if prev_char = CARET then PrefixOut UACPI_STATUS_INVALID_ARGUMENT cur else PrefixGo uacpi_namespace_root rest False)
      else if c = CARET then
        (if cur = uacpi_namespace_root then kret (PrefixOut UACPI_STATUS_INVALID_ARGUMENT cur)
         else kbind (cell_get as_node cur) (\<lambda>nd. resolve_prefix rest (nd_parent nd) CARET False))
      else kret (PrefixGo cur (c # rest) single))"

text \<open>The search in the scopes above: \<open>parent\<close> is the scope the search began in.\<close>

definition search_above :: "u64 \<Rightarrow> u8 list \<Rightarrow> u64 nkern" where
  "search_above parent seg = kbind (cell_get as_node parent) (\<lambda>nd. kloop (\<lambda>parent. if parent = 0 then kret (Inr 0)
     else kbind (uacpi_namespace_node_find_sub_node parent seg) (\<lambda>cur.
       if cur \<noteq> 0 then kret (Inr cur)
       else kbind (cell_get as_node parent) (\<lambda>nd. kret (Inl (nd_parent nd))))) (nd_parent nd))"

definition next_segment :: "u8 list \<Rightarrow> u8 list \<times> u8 list" where
  "next_segment cursor = segment_to_name (if cursor \<noteq> [] \<and> hd cursor = DOT then tl cursor else cursor)"

lemma segment_chars_length: "length (snd (segment_chars n cursor)) \<le> length cursor"
proof (induction n arbitrary: cursor)
  case (Suc n)
  then show ?case using Suc [of cursor] Suc [of "tl cursor"] by (auto simp: case_prod_beta)
qed simp

lemma next_segment_shorter: "cursor \<noteq> [] \<Longrightarrow> length (snd (next_segment cursor)) < length cursor"
proof -
  assume ne: "cursor \<noteq> []"
  have le: "length (snd (segment_chars n (tl cursor))) < length cursor" for n
    using segment_chars_length [of n "tl cursor"] ne by (cases cursor) auto
  have four: "segment_chars 4 cursor = segment_chars (Suc 3) cursor" by (rule arg_cong [where f = "\<lambda>n. segment_chars n cursor"]) simp
  have "segment_chars 4 cursor = (hd cursor # fst (segment_chars 3 (tl cursor)), snd (segment_chars 3 (tl cursor)))" if "hd cursor \<noteq> DOT"
    unfolding four segment_chars.simps using ne that by (simp add: case_prod_beta)
  then show ?thesis using le [of 4] le [of 3] ne by (simp add: next_segment_def segment_to_name_def)
qed

function resolve_segments :: "bool \<Rightarrow> u64 \<Rightarrow> u64 \<Rightarrow> u8 list \<Rightarrow> bool \<Rightarrow> u64 nkern" where
  "resolve_segments may_search_above parent cur cursor single =
     (if cursor = [] then kret cur
      else kbind (uacpi_namespace_node_find_sub_node cur (fst (next_segment cursor))) (\<lambda>n.
        if n = 0 then
          if \<not> may_search_above \<or> \<not> (single \<and> snd (next_segment cursor) = []) then kret 0
          else search_above parent (fst (next_segment cursor))
        else resolve_segments may_search_above parent n (snd (next_segment cursor)) (single \<and> snd (next_segment cursor) = [])))"
  by pat_completeness auto
termination
  by (relation "measure (\<lambda>(_, _, _, cursor, _). length cursor)") (auto simp: next_segment_shorter)

declare resolve_segments.simps [simp del]

text \<open>The end of the function, behind \<open>out\<close>: the status and the node that is stored.\<close>

definition resolve_out :: "bool \<Rightarrow> uacpi_status \<Rightarrow> u64 \<Rightarrow> (uacpi_status \<times> u64 option) nkern" where
  "resolve_out permanent_only ret cur =
     (if ret = UACPI_STATUS_INVALID_ARGUMENT then kret (ret, None)
      else if cur = 0 then kret (UACPI_STATUS_NOT_FOUND, None)
      else kbind (uacpi_namespace_node_is_temporary cur) (\<lambda>temp.
        kret (if temp \<and> permanent_only then (UACPI_STATUS_DENIED, None) else (ret, Some cur))))"

definition resolve_body :: "u64 \<Rightarrow> u8 list \<Rightarrow> bool \<Rightarrow> bool \<Rightarrow> (uacpi_status \<times> u64 option) nkern" where
  "resolve_body parent path may_search_above permanent_only =
     kbind (resolve_prefix path (if parent = 0 then uacpi_namespace_root else parent) 0 True) (\<lambda>r. case r of
       PrefixOut ret cur \<Rightarrow> resolve_out permanent_only ret cur
     | PrefixGo cur cursor single \<Rightarrow> kbind (resolve_segments may_search_above parent cur cursor single)
         (resolve_out permanent_only UACPI_STATUS_OK))"

definition uacpi_namespace_node_resolve ::
    "ns_host \<Rightarrow> u64 \<Rightarrow> u8 list \<Rightarrow> bool \<Rightarrow> bool \<Rightarrow> bool \<Rightarrow> (uacpi_status \<times> u64 option) nkern" where
  "uacpi_namespace_node_resolve host parent path should_lock may_search_above permanent_only =
     kbind (if should_lock then uacpi_namespace_read_lock host else kret UACPI_STATUS_OK) (\<lambda>ret.
     if ret \<noteq> UACPI_STATUS_OK then kret (ret, None)
     else kbind (resolve_body parent path may_search_above permanent_only) (\<lambda>r.
       kseq (if should_lock then uacpi_namespace_read_unlock host else kret UACPI_STATUS_OK) (kret r)))"

definition uacpi_namespace_node_find :: "ns_host \<Rightarrow> u64 \<Rightarrow> u8 list \<Rightarrow> (uacpi_status \<times> u64 option) nkern" where
  "uacpi_namespace_node_find host parent path = uacpi_namespace_node_resolve host parent path True False True"

definition uacpi_namespace_node_resolve_from_aml_namepath :: "ns_host \<Rightarrow> u64 \<Rightarrow> u8 list \<Rightarrow> (uacpi_status \<times> u64 option) nkern" where
  "uacpi_namespace_node_resolve_from_aml_namepath host scope path = uacpi_namespace_node_resolve host scope path True True True"

text \<open>\<open>uacpi_object_resolve_as_aml_namepath\<close> of \<^verbatim>\<open>src/uacpi/types.c\<close>; the text ends at its first zero.\<close>

definition uacpi_object_resolve_as_aml_namepath :: "ns_host \<Rightarrow> u64 \<Rightarrow> u64 \<Rightarrow> (uacpi_status \<times> u64 option) nkern" where
  "uacpi_object_resolve_as_aml_namepath host obj scope = kbind (uacpi_object_is_aml_namepath obj) (\<lambda>ok.
     if \<not> ok then kret (UACPI_STATUS_INVALID_ARGUMENT, None)
     else kbind (cell_get as_object obj) (\<lambda>x. kbind (cell_get as_buffer (ob_w0 x)) (\<lambda>b.
       kbind (cell_get as_bytes (buf_data b)) (\<lambda>bs.
         if 0 \<notin> set bs then kfault
         else uacpi_namespace_node_resolve_from_aml_namepath host scope (takeWhile (\<lambda>c. c \<noteq> 0) bs)))))"

section \<open>Objects of nodes\<close>

definition uacpi_namespace_node_acquire_object_typed :: "ns_host \<Rightarrow> u64 \<Rightarrow> u32 \<Rightarrow> (uacpi_status \<times> u64 option) nkern" where
  "uacpi_namespace_node_acquire_object_typed host node type_mask = kbind (uacpi_namespace_read_lock host) (\<lambda>ret.
     if ret \<noteq> UACPI_STATUS_OK then kret (ret, None)
     else kbind (uacpi_namespace_node_get_object node) (\<lambda>obj.
       kbind (if obj = 0 then kret False else uacpi_object_is_one_of obj type_mask) (\<lambda>ok.
       kbind (if \<not> ok then kret (UACPI_STATUS_INVALID_ARGUMENT, None)
              else kseq (uacpi_object_ref obj) (kret (ret, Some obj))) (\<lambda>r.
         kseq (uacpi_namespace_read_unlock host) (kret r)))))"

definition uacpi_namespace_node_acquire_object :: "ns_host \<Rightarrow> u64 \<Rightarrow> (uacpi_status \<times> u64 option) nkern" where
  "uacpi_namespace_node_acquire_object host node = uacpi_namespace_node_acquire_object_typed host node UACPI_OBJECT_ANY_BIT"

definition object_mutate_refcount :: "ns_host \<Rightarrow> u64 \<Rightarrow> (u64 \<Rightarrow> unit nkern) \<Rightarrow> uacpi_status nkern" where
  "object_mutate_refcount host obj cb = kbind (uacpi_object_is obj UACPI_OBJECT_REFERENCE) (\<lambda>is_ref.
     if \<not> is_ref then kseq (cb obj) (kret UACPI_STATUS_OK)
     else kbind (uacpi_namespace_read_lock host) (\<lambda>ret.
       if ret \<noteq> UACPI_STATUS_OK then kret ret
       else kseq (cb obj) (kseq (uacpi_namespace_read_unlock host) (kret ret))))"

definition uacpi_namespace_node_reacquire_object :: "ns_host \<Rightarrow> u64 \<Rightarrow> uacpi_status nkern" where
  "uacpi_namespace_node_reacquire_object host obj = object_mutate_refcount host obj uacpi_object_ref"

definition uacpi_namespace_node_release_object :: "nat \<Rightarrow> ns_host \<Rightarrow> u64 \<Rightarrow> uacpi_status nkern" where
  "uacpi_namespace_node_release_object depth host obj = object_mutate_refcount host obj (uacpi_object_unref depth (nh_objects host))"

definition uacpi_namespace_node_name :: "u64 \<Rightarrow> u8 list nkern" where
  "uacpi_namespace_node_name node = kbind (cell_get as_node node) (\<lambda>nd. kret (nd_name nd))"

definition uacpi_namespace_node_type_unlocked :: "u64 \<Rightarrow> (uacpi_status \<times> uacpi_object_type option) nkern" where
  "uacpi_namespace_node_type_unlocked node = (if node = 0 then kret (UACPI_STATUS_INVALID_ARGUMENT, None)
     else kbind (uacpi_namespace_node_get_object node) (\<lambda>obj.
       if obj = 0 then kret (UACPI_STATUS_NOT_FOUND, None)
       else kbind (cell_get as_object obj) (\<lambda>x. kret (UACPI_STATUS_OK, Some (ob_type x)))))"

text \<open>A reading function under the lock.\<close>

definition under_read_lock :: "ns_host \<Rightarrow> (uacpi_status \<times> 'a option) nkern \<Rightarrow> (uacpi_status \<times> 'a option) nkern" where
  "under_read_lock host f = kbind (uacpi_namespace_read_lock host) (\<lambda>ret.
     if ret \<noteq> UACPI_STATUS_OK then kret (ret, None)
     else kbind f (\<lambda>r. kseq (uacpi_namespace_read_unlock host) (kret r)))"

definition uacpi_namespace_node_type :: "ns_host \<Rightarrow> u64 \<Rightarrow> (uacpi_status \<times> uacpi_object_type option) nkern" where
  "uacpi_namespace_node_type host node = under_read_lock host (uacpi_namespace_node_type_unlocked node)"

definition uacpi_namespace_node_is_one_of_unlocked :: "u64 \<Rightarrow> u32 \<Rightarrow> (uacpi_status \<times> bool option) nkern" where
  "uacpi_namespace_node_is_one_of_unlocked node type_mask = (if node = 0 then kret (UACPI_STATUS_INVALID_ARGUMENT, None)
     else kbind (uacpi_namespace_node_get_object node) (\<lambda>obj.
       if obj = 0 then kret (UACPI_STATUS_NOT_FOUND, None)
       else kbind (uacpi_object_is_one_of obj type_mask) (\<lambda>ok. kret (UACPI_STATUS_OK, Some ok))))"

definition uacpi_namespace_node_is_one_of :: "ns_host \<Rightarrow> u64 \<Rightarrow> u32 \<Rightarrow> (uacpi_status \<times> bool option) nkern" where
  "uacpi_namespace_node_is_one_of host node type_mask = under_read_lock host (uacpi_namespace_node_is_one_of_unlocked node type_mask)"

definition uacpi_namespace_node_is :: "ns_host \<Rightarrow> u64 \<Rightarrow> uacpi_object_type \<Rightarrow> (uacpi_status \<times> bool option) nkern" where
  "uacpi_namespace_node_is host node t = uacpi_namespace_node_is_one_of host node (object_type_bit t)"

section \<open>Iteration\<close>

datatype uacpi_iteration_decision = UACPI_ITERATION_DECISION_CONTINUE | UACPI_ITERATION_DECISION_BREAK
  | UACPI_ITERATION_DECISION_NEXT_PEER | InvalidDecision

text \<open>A callback gets the user's data, the node and its depth; the user's data are passed on explicitly.\<close>

type_synonym 'u uacpi_iteration_callback = "'u \<Rightarrow> u64 \<Rightarrow> u32 \<Rightarrow> ('u \<times> uacpi_iteration_decision) nkern"

record 'u iteration =
  it_node :: u64
  it_walking_up :: bool
  it_matches :: bool
  it_depth :: u32
  it_user :: 'u

text \<open>
  How an iteration ends: \<open>goto out\<close>, which releases the lock, or a \<open>return\<close> that does not.
\<close>

datatype 'u iteration_end = IterOut uacpi_status 'u | IterReturn uacpi_status 'u

text \<open>Calling the callback, without the lock: what it decides, or how the iteration ends.\<close>

definition call_callback ::
    "ns_host \<Rightarrow> bool \<Rightarrow> 'u uacpi_iteration_callback \<Rightarrow> 'u iteration \<Rightarrow> ('u \<times> uacpi_iteration_decision + 'u iteration_end) nkern" where
  "call_callback host should_lock cb it =
     kbind (if should_lock then uacpi_namespace_read_unlock host else kret UACPI_STATUS_OK) (\<lambda>ret.
     if ret \<noteq> UACPI_STATUS_OK then kret (Inr (IterReturn ret (it_user it)))
     else kbind (cb (it_user it) (it_node it) (it_depth it)) (\<lambda>(user, decision).
       if decision = UACPI_ITERATION_DECISION_BREAK then kret (Inr (IterOut UACPI_STATUS_OK user))
       else kbind (if should_lock then uacpi_namespace_read_lock host else kret UACPI_STATUS_OK) (\<lambda>ret.
         if ret \<noteq> UACPI_STATUS_OK then kret (Inr (IterReturn ret user)) else kret (Inl (user, decision)))))"

text \<open>The part behind \<open>do_next\<close>.\<close>

definition do_next :: "u32 \<Rightarrow> uacpi_iteration_decision \<Rightarrow> 'u iteration \<Rightarrow> ('u iteration + 'u iteration_end) nkern" where
  "do_next max_depth decision it = kbind (cell_get as_node (it_node it)) (\<lambda>nd.
     if it_walking_up it then
       if nd_next nd \<noteq> 0 then kret (Inl (it\<lparr>it_node := nd_next nd, it_walking_up := False\<rparr>))
       else kret (Inl (it\<lparr>it_depth := it_depth it - 1, it_node := nd_parent nd\<rparr>))
     else if decision = UACPI_ITERATION_DECISION_CONTINUE \<and> it_depth it \<noteq> max_depth \<and> nd_child nd \<noteq> 0 then
       kret (Inl (it\<lparr>it_node := nd_child nd, it_depth := it_depth it + 1\<rparr>))
     else if decision = UACPI_ITERATION_DECISION_CONTINUE \<or> decision = UACPI_ITERATION_DECISION_NEXT_PEER then
       kret (Inl (it\<lparr>it_walking_up := True\<rparr>))
     else kret (Inr (IterOut UACPI_STATUS_INVALID_ARGUMENT (it_user it))))"

text \<open>The body of the loop from the check of \<open>matches\<close> on, and a round of the loop.\<close>

definition visit_node ::
    "ns_host \<Rightarrow> 'u uacpi_iteration_callback option \<Rightarrow> 'u uacpi_iteration_callback option \<Rightarrow> u32 \<Rightarrow> bool \<Rightarrow> bool
     \<Rightarrow> 'u iteration \<Rightarrow> ('u iteration + 'u iteration_end) nkern" where
  "visit_node host down_cb up_cb max_depth should_lock permanent_only it =
     (if \<not> it_matches it then do_next max_depth UACPI_ITERATION_DECISION_CONTINUE it
      else kbind (if permanent_only then uacpi_namespace_node_is_temporary (it_node it) else kret False) (\<lambda>skip.
        if skip then do_next max_depth UACPI_ITERATION_DECISION_NEXT_PEER it
        else case (if it_walking_up it then up_cb else down_cb) of
          None \<Rightarrow> do_next max_depth UACPI_ITERATION_DECISION_CONTINUE it
        | Some cb \<Rightarrow> kbind (call_callback host should_lock cb it) (\<lambda>r. case r of
            Inr e \<Rightarrow> kret (Inr e)
          | Inl (user, decision) \<Rightarrow> do_next max_depth decision (it\<lparr>it_user := user\<rparr>))))"

definition for_each_child_round ::
    "ns_host \<Rightarrow> 'u uacpi_iteration_callback option \<Rightarrow> 'u uacpi_iteration_callback option \<Rightarrow> u32 \<Rightarrow> u32 \<Rightarrow> bool \<Rightarrow> bool
     \<Rightarrow> 'u iteration \<Rightarrow> ('u iteration + 'u iteration_end) nkern" where
  "for_each_child_round host down_cb up_cb type_mask max_depth should_lock permanent_only it =
     (if it_depth it = 0 then kret (Inr (IterOut UACPI_STATUS_OK (it_user it)))
      else kbind (uacpi_namespace_node_is_one_of_unlocked (it_node it) type_mask) (\<lambda>(_, m).
        visit_node host down_cb up_cb max_depth should_lock permanent_only
          (case m of Some b \<Rightarrow> it\<lparr>it_matches := b\<rparr> | None \<Rightarrow> it)))"

definition uacpi_namespace_do_for_each_child ::
    "ns_host \<Rightarrow> u64 \<Rightarrow> 'u uacpi_iteration_callback option \<Rightarrow> 'u uacpi_iteration_callback option \<Rightarrow> u32 \<Rightarrow> u32 \<Rightarrow> bool \<Rightarrow> bool \<Rightarrow> 'u
     \<Rightarrow> (uacpi_status \<times> 'u) nkern" where
  "uacpi_namespace_do_for_each_child host node down_cb up_cb type_mask max_depth should_lock permanent_only user =
     kbind (kget (\<lambda>s. ts_init_level (o_tables s) < UACPI_INIT_LEVEL_SUBSYSTEM_INITIALIZED)) (\<lambda>early.
     if early then kret (UACPI_STATUS_INIT_LEVEL_MISMATCH, user)
     else if down_cb = None \<and> up_cb = None then kret (UACPI_STATUS_INVALID_ARGUMENT, user)
     else if node = 0 \<or> max_depth = 0 then kret (UACPI_STATUS_INVALID_ARGUMENT, user)
     else kbind (if should_lock then uacpi_namespace_read_lock host else kret UACPI_STATUS_OK) (\<lambda>ret.
     if ret \<noteq> UACPI_STATUS_OK then kret (ret, user)
     else kbind (cell_get as_node node) (\<lambda>nd.
     kbind (if nd_child nd = 0 then kret (IterOut ret user)
            else kloop (for_each_child_round host down_cb up_cb type_mask max_depth should_lock permanent_only)
              \<lparr>it_node = nd_child nd, it_walking_up = False, it_matches = False, it_depth = 1, it_user = user\<rparr>) (\<lambda>e. case e of
       IterReturn ret user \<Rightarrow> kret (ret, user)
     | IterOut ret user \<Rightarrow> kseq (if should_lock then uacpi_namespace_read_unlock host else kret UACPI_STATUS_OK) (kret (ret, user))))))"

definition UACPI_MAX_DEPTH_ANY :: u32 where "UACPI_MAX_DEPTH_ANY = 0xFFFFFFFF"

definition uacpi_namespace_for_each_child_simple ::
    "ns_host \<Rightarrow> u64 \<Rightarrow> 'u uacpi_iteration_callback option \<Rightarrow> 'u \<Rightarrow> (uacpi_status \<times> 'u) nkern" where
  "uacpi_namespace_for_each_child_simple host parent callback user =
     uacpi_namespace_do_for_each_child host parent callback None UACPI_OBJECT_ANY_BIT UACPI_MAX_DEPTH_ANY True True user"

definition uacpi_namespace_for_each_child ::
    "ns_host \<Rightarrow> u64 \<Rightarrow> 'u uacpi_iteration_callback option \<Rightarrow> 'u uacpi_iteration_callback option \<Rightarrow> u32 \<Rightarrow> u32 \<Rightarrow> 'u
     \<Rightarrow> (uacpi_status \<times> 'u) nkern" where
  "uacpi_namespace_for_each_child host parent down_cb up_cb type_mask max_depth user =
     uacpi_namespace_do_for_each_child host parent down_cb up_cb type_mask max_depth True True user"

section \<open>Paths\<close>

definition uacpi_namespace_node_depth :: "u64 \<Rightarrow> u64 nkern" where
  "uacpi_namespace_node_depth node = kloop (\<lambda>(node, depth). kbind (cell_get as_node node) (\<lambda>nd.
     kret (if nd_parent nd \<noteq> 0 then Inl (nd_parent nd, depth + 1) else Inr depth))) (node, 0)"

definition uacpi_namespace_node_parent :: "u64 \<Rightarrow> u64 nkern" where
  "uacpi_namespace_node_parent node = kbind (cell_get as_node node) (\<lambda>nd. kret (nd_parent nd))"

text \<open>Writing at an offset of a block; a write outside of it is undefined.\<close>

definition write_at :: "u64 \<Rightarrow> u64 \<Rightarrow> u8 list \<Rightarrow> unit nkern" where
  "write_at p off bs = kbind (cell_get as_bytes p) (\<lambda>old.
     if unat off + length bs \<le> length old
     then kmod (\<lambda>s. s\<lparr>o_heap := (o_heap s)(p \<mapsto> Bytes (take (unat off) old @ bs @ drop (unat off + length bs) old))\<rparr>) else kfault)"

definition path_round :: "u64 \<Rightarrow> u64 \<times> u64 \<Rightarrow> (u64 \<times> u64 + unit) nkern" where
  "path_round path = (\<lambda>(node, offset). if node = uacpi_namespace_root then kret (Inr ())
     else kbind (cell_get as_node node) (\<lambda>nd. kseq (write_at path (offset - 4) (nd_name nd))
       (if nd_parent nd \<noteq> uacpi_namespace_root
        then kseq (write_at path (offset - 4 - 1) [DOT]) (kret (Inl (nd_parent nd, offset - 4 - 1)))
        else kret (Inl (nd_parent nd, offset - 4)))))"

definition uacpi_namespace_node_generate_absolute_path :: "ns_host \<Rightarrow> u64 \<Rightarrow> u64 nkern" where
  "uacpi_namespace_node_generate_absolute_path host node = kbind (uacpi_namespace_node_depth node) (\<lambda>d.
     let depth = d + 1; bytes_needed = 1 + (depth - 1) * 4 + (if depth > 2 then depth - 2 else 0) + 1 in
     kbind (alloc_bytes (nh_objects host) bytes_needed) (\<lambda>path.
     if path = 0 then kret 0
     else kseq (write_at path 0 [BACKSLASH]) (kseq (write_at path (bytes_needed - 1) [0])
       (kseq (kloop (path_round path) (node, bytes_needed - 1)) (kret path)))))"

definition uacpi_free_absolute_path :: "u64 \<Rightarrow> unit nkern" where
  "uacpi_free_absolute_path path = uacpi_free path"

end
