(* ===== verification/UacpiNamespaceTree.thy ===== *)
theory UacpiNamespaceTree
  imports UacpiNamespace UacpiTablesInv
begin

text \<open>
  The namespace as a tree: when the pointers of the nodes represent a tree, what searches find in it, and how absolute paths and
  resolution fit together.
\<close>

section \<open>Trees and their representation\<close>

datatype ntree = NTree u64 "ntree list"

fun ntree_root :: "ntree \<Rightarrow> u64" where "ntree_root (NTree a ts) = a"
fun ntree_children :: "ntree \<Rightarrow> ntree list" where "ntree_children (NTree a ts) = ts"

fun first_ptr :: "ntree list \<Rightarrow> u64" where
  "first_ptr [] = 0"
| "first_ptr (t # ts) = ntree_root t"

fun tree_nodes :: "ntree \<Rightarrow> u64 list" and forest_nodes :: "ntree list \<Rightarrow> u64 list" where
  "tree_nodes (NTree a ts) = a # forest_nodes ts"
| "forest_nodes [] = []"
| "forest_nodes (t # ts) = tree_nodes t @ forest_nodes ts"

type_synonym heap = "u64 \<Rightarrow> cell option"

definition node_at :: "heap \<Rightarrow> u64 \<Rightarrow> uacpi_namespace_node option" where
  "node_at h a = (case h a of None \<Rightarrow> None | Some c \<Rightarrow> as_node c)"

text \<open>\<open>tree_rep h par nxt t\<close>: the nodes of \<open>t\<close> are linked as it says, under the parent \<open>par\<close> and before the sibling \<open>nxt\<close>.\<close>

fun tree_rep :: "heap \<Rightarrow> u64 \<Rightarrow> u64 \<Rightarrow> ntree \<Rightarrow> bool" and forest_rep :: "heap \<Rightarrow> u64 \<Rightarrow> ntree list \<Rightarrow> bool" where
  "tree_rep h par nxt (NTree a ts) \<longleftrightarrow> a \<noteq> 0
     \<and> (case node_at h a of None \<Rightarrow> False | Some nd \<Rightarrow> nd_parent nd = par \<and> nd_next nd = nxt \<and> nd_child nd = first_ptr ts)
     \<and> forest_rep h a ts"
| "forest_rep h par [] \<longleftrightarrow> True"
| "forest_rep h par (t # ts) \<longleftrightarrow> tree_rep h par (first_ptr ts) t \<and> forest_rep h par ts"

definition node_name :: "heap \<Rightarrow> u64 \<Rightarrow> u8 list" where
  "node_name h a = (case node_at h a of None \<Rightarrow> [] | Some nd \<Rightarrow> nd_name nd)"

lemma get_node: "cell_get as_node p s = (case node_at (o_heap s) p of None \<Rightarrow> Fault | Some nd \<Rightarrow> Ret nd s)"
  by (simp add: cell_get_def node_at_def split: option.splits)

lemma get_node_Some: "node_at (o_heap s) p = Some nd \<Longrightarrow> cell_get as_node p s = Ret nd s"
  by (simp add: get_node)

lemma tree_rep_node:
  assumes "tree_rep h par nxt t"
  obtains nd where "node_at h (ntree_root t) = Some nd" "nd_parent nd = par" "nd_next nd = nxt" "nd_child nd = first_ptr (ntree_children t)"
    "ntree_root t \<noteq> 0" "forest_rep h (ntree_root t) (ntree_children t)"
  using assms by (cases t) (auto split: option.splits)

lemma tree_rep_nonzero: "tree_rep h par nxt t \<Longrightarrow> ntree_root t \<noteq> 0"
  by (cases t) simp

text \<open>Heaps that agree on the nodes represent the same tree.\<close>

lemma tree_rep_cong:
  "(\<And>a. a \<in> set (tree_nodes t) \<Longrightarrow> node_at h' a = node_at h a) \<Longrightarrow> tree_rep h' par nxt t = tree_rep h par nxt t"
  and forest_rep_cong:
  "(\<And>a. a \<in> set (forest_nodes ts) \<Longrightarrow> node_at h' a = node_at h a) \<Longrightarrow> forest_rep h' par ts = forest_rep h par ts"
  by (induction t and ts arbitrary: par nxt and par rule: tree_nodes_forest_nodes.induct) auto

lemma ntree_root_in [simp]: "ntree_root t \<in> set (tree_nodes t)"
  by (cases t) simp

section \<open>Searching a scope\<close>

lemma find_round_find:
  assumes "forest_rep (o_heap s) par ts"
  shows "kloop (find_round nm) (first_ptr ts) s =
    Ret (case find (\<lambda>t. node_name (o_heap s) (ntree_root t) = nm) ts of None \<Rightarrow> 0 | Some t \<Rightarrow> ntree_root t) s"
  using assms
proof (induction ts)
  case Nil
  then show ?case by (simp add: kloop_unfold [of _ 0] find_round_def)
next
  case (Cons t ts)
  then obtain nd where nd: "node_at (o_heap s) (ntree_root t) = Some nd" "nd_next nd = first_ptr ts" "ntree_root t \<noteq> 0"
    using tree_rep_node by (metis forest_rep.simps(2))
  with Cons show ?case
    by (simp add: kloop_unfold [of _ "ntree_root t"] find_round_def kern_simps get_node_Some [OF nd(1)] node_name_def)
qed

lemma find_sub_node_finds:
  assumes "tree_rep (o_heap s) par nxt t"
  shows "uacpi_namespace_node_find_sub_node (ntree_root t) nm s =
    Ret (case find (\<lambda>t. node_name (o_heap s) (ntree_root t) = nm) (ntree_children t) of None \<Rightarrow> 0 | Some t \<Rightarrow> ntree_root t) s"
proof -
  from assms obtain nd where nd: "node_at (o_heap s) (ntree_root t) = Some nd" "nd_child nd = first_ptr (ntree_children t)"
    "ntree_root t \<noteq> 0" "forest_rep (o_heap s) (ntree_root t) (ntree_children t)" by (rule tree_rep_node)
  then show ?thesis
    by (simp add: uacpi_namespace_node_find_sub_node_def kern_simps get_node_Some [OF nd(1)] find_round_find)
qed

section \<open>Absolute paths\<close>

text \<open>The text of a path below the root, from the names of its nodes.\<close>

fun dotted :: "u8 list list \<Rightarrow> u8 list" where
  "dotted [] = []"
| "dotted (n # ns) = n @ concat (map ((#) DOT) ns)"

definition name_ok :: "u8 list \<Rightarrow> bool" where
  "name_ok n \<longleftrightarrow> length n = 4 \<and> DOT \<notin> set n \<and> 0 \<notin> set n"

text \<open>A way down from a tree, and the condition that siblings have different names.\<close>

fun spine :: "ntree \<Rightarrow> ntree list \<Rightarrow> bool" where
  "spine t [] \<longleftrightarrow> True"
| "spine t (t' # ts) \<longleftrightarrow> t' \<in> set (ntree_children t) \<and> spine t' ts"

fun siblings_unique :: "heap \<Rightarrow> ntree \<Rightarrow> bool" where
  "siblings_unique h (NTree a ts) \<longleftrightarrow> distinct (map (\<lambda>t. node_name h (ntree_root t)) ts) \<and> (\<forall>t \<in> set ts. siblings_unique h t)"

lemma segment_chars_name:
  assumes "DOT \<notin> set n" "rest = [] \<or> hd rest = DOT"
  shows "segment_chars (length n) (n @ rest) = (n, rest)"
  using assms by (induction n) auto

lemma next_segment_name:
  assumes "name_ok n" "rest = [] \<or> hd rest = DOT"
  shows "next_segment (n @ rest) = (n, rest)" "next_segment (DOT # n @ rest) = (n, rest)"
proof -
  from assms(1) have n: "DOT \<notin> set n" "length n = 4" "n \<noteq> []" by (auto simp: name_ok_def)
  have "segment_chars 4 (n @ rest) = (n, rest)" using segment_chars_name [OF n(1) assms(2)] n(2) by simp
  moreover have "hd (n @ rest) \<noteq> DOT" using n by (cases n) auto
  ultimately show "next_segment (n @ rest) = (n, rest)" "next_segment (DOT # n @ rest) = (n, rest)"
    by (simp_all add: next_segment_def segment_to_name_def)
qed

lemma dots_hd: "concat (map ((#) DOT) ns) = [] \<or> hd (concat (map ((#) DOT) ns)) = DOT"
  by (cases ns) auto

lemma forest_rep_member: "forest_rep h par ts \<Longrightarrow> t \<in> set ts \<Longrightarrow> \<exists>nxt. tree_rep h par nxt t"
  by (induction ts) auto

lemma find_unique:
  "distinct (map f ts) \<Longrightarrow> t \<in> set ts \<Longrightarrow> find (\<lambda>t'. f t' = f t) ts = Some t"
  by (induction ts) force+

text \<open>A segment of the path leads to the child that it names.\<close>

lemma find_child:
  assumes "tree_rep (o_heap s) par nxt t" "siblings_unique (o_heap s) t" "t' \<in> set (ntree_children t)"
  shows "uacpi_namespace_node_find_sub_node (ntree_root t) (node_name (o_heap s) (ntree_root t')) s = Ret (ntree_root t') s"
proof -
  have "find (\<lambda>t. node_name (o_heap s) (ntree_root t) = node_name (o_heap s) (ntree_root t')) (ntree_children t) = Some t'"
    using find_unique [of "\<lambda>t. node_name (o_heap s) (ntree_root t)"] assms(2,3) by (cases t) auto
  then show ?thesis using find_sub_node_finds [OF assms(1)] by simp
qed

lemma spine_child:
  assumes "tree_rep h par nxt t" "siblings_unique h t" "t' \<in> set (ntree_children t)"
  obtains nxt' where "tree_rep h (ntree_root t) nxt' t'" "siblings_unique h t'" "ntree_root t' \<noteq> 0"
proof -
  have "forest_rep h (ntree_root t) (ntree_children t)" using assms(1) by (rule tree_rep_node)
  with assms(3) obtain nxt' where "tree_rep h (ntree_root t) nxt' t'" using forest_rep_member by blast
  moreover from this have "ntree_root t' \<noteq> 0" by (rule tree_rep_nonzero)
  moreover have "siblings_unique h t'" using assms(2,3) by (cases t) auto
  ultimately show ?thesis using that by blast
qed

lemma resolve_step:
  assumes "cursor \<noteq> []" "next_segment cursor = (n, rest)" "uacpi_namespace_node_find_sub_node cur n s = Ret c s" "c \<noteq> 0"
  shows "resolve_segments may parent cur cursor single s = resolve_segments may parent c rest (single \<and> rest = []) s"
  using assms by (simp add: resolve_segments.simps [of _ _ _ cursor] kern_simps)

lemma resolve_segments_spine:
  assumes "tree_rep (o_heap s) par nxt t" "siblings_unique (o_heap s) t" "spine t ts"
    "\<forall>t' \<in> set ts. name_ok (node_name (o_heap s) (ntree_root t'))"
  shows "resolve_segments may parent (ntree_root t) (concat (map ((#) DOT) (map (\<lambda>t. node_name (o_heap s) (ntree_root t)) ts))) single s
    = Ret (ntree_root (last (t # ts))) s"
  using assms
proof (induction ts arbitrary: t par nxt single)
  case Nil
  then show ?case by (simp add: resolve_segments.simps)
next
  case (Cons t' ts)
  let ?n = "node_name (o_heap s) (ntree_root t')" and ?rest = "concat (map ((#) DOT) (map (\<lambda>t. node_name (o_heap s) (ntree_root t)) ts))"
  from Cons.prems have t': "t' \<in> set (ntree_children t)" "spine t' ts" "name_ok ?n" by auto
  obtain nxt' where rep': "tree_rep (o_heap s) (ntree_root t) nxt' t'" "siblings_unique (o_heap s) t'" "ntree_root t' \<noteq> 0"
    using spine_child [OF Cons.prems(1,2) t'(1)] by blast
  have seg: "next_segment (DOT # ?n @ ?rest) = (?n, ?rest)" by (rule next_segment_name(2) [OF t'(3) dots_hd])
  note IH = Cons.IH [OF rep'(1,2) t'(2)]
  have "concat (map ((#) DOT) (map (\<lambda>t. node_name (o_heap s) (ntree_root t)) (t' # ts))) = DOT # ?n @ ?rest" by simp
  then show ?case
    using resolve_step [OF _ seg find_child [OF Cons.prems(1,2) t'(1)] rep'(3)] IH Cons.prems(4)
    by (simp del: map_map)
qed

lemma resolve_dotted:
  assumes "tree_rep (o_heap s) par nxt t" "siblings_unique (o_heap s) t" "spine t ts"
    "\<forall>t' \<in> set ts. name_ok (node_name (o_heap s) (ntree_root t'))"
  shows "resolve_segments may parent (ntree_root t) (dotted (map (\<lambda>t. node_name (o_heap s) (ntree_root t)) ts)) single s
    = Ret (ntree_root (last (t # ts))) s"
proof (cases ts)
  case Nil
  then show ?thesis by (simp add: resolve_segments.simps)
next
  case (Cons t' ts')
  let ?n = "node_name (o_heap s) (ntree_root t')" and ?rest = "concat (map ((#) DOT) (map (\<lambda>t. node_name (o_heap s) (ntree_root t)) ts'))"
  from assms Cons have t': "t' \<in> set (ntree_children t)" "spine t' ts'" "name_ok ?n" by auto
  obtain nxt' where rep': "tree_rep (o_heap s) (ntree_root t) nxt' t'" "siblings_unique (o_heap s) t'" "ntree_root t' \<noteq> 0"
    using spine_child [OF assms(1,2) t'(1)] by blast
  have seg: "next_segment (?n @ ?rest) = (?n, ?rest)" by (rule next_segment_name(1) [OF t'(3) dots_hd])
  have ne: "?n @ ?rest \<noteq> []" using t'(3) by (auto simp: name_ok_def)
  show ?thesis
    using resolve_step [OF ne seg find_child [OF assms(1,2) t'(1)] rep'(3)] resolve_segments_spine [OF rep'(1,2) t'(2)] assms(4)
    by (simp add: Cons del: map_map)
qed

lemma node_at_bytes: "node_at h p = None \<Longrightarrow> node_at (h(p \<mapsto> Bytes b)) = node_at h"
  by (rule ext) (simp add: node_at_def)

lemma spine_snoc: "spine t (ts @ [t']) \<longleftrightarrow> spine t ts \<and> t' \<in> set (ntree_children (last (t # ts)))"
  by (induction ts arbitrary: t) auto

lemma spine_rep:
  "tree_rep h par nxt t \<Longrightarrow> spine t ts \<Longrightarrow> \<exists>par' nxt'. tree_rep h par' nxt' (last (t # ts))"
proof (induction ts arbitrary: t par nxt)
  case (Cons t' ts)
  obtain nd where "forest_rep h (ntree_root t) (ntree_children t)" using tree_rep_node [OF Cons.prems(1)] by metis
  then obtain nxt' where "tree_rep h (ntree_root t) nxt' t'" using forest_rep_member Cons.prems(2) by fastforce
  then show ?case using Cons by simp
qed auto

lemma spine_parent:
  assumes "tree_rep h par nxt t" "spine t (ts @ [t'])"
  obtains nd where "node_at h (ntree_root t') = Some nd" "nd_parent nd = ntree_root (last (t # ts))" "ntree_root t' \<noteq> 0"
    "ntree_root (last (t # ts)) \<noteq> 0"
proof -
  let ?l = "last (t # ts)"
  from assms obtain par' nxt' where l: "tree_rep h par' nxt' ?l" using spine_rep by (metis spine_snoc)
  moreover have "t' \<in> set (ntree_children ?l)" using assms(2) by (simp only: spine_snoc)
  ultimately obtain nxt'' where "tree_rep h (ntree_root ?l) nxt'' t'" using forest_rep_member by (metis tree_rep_node)
  then show ?thesis using that tree_rep_nonzero [OF l] by (metis tree_rep_node)
qed

lemma node_depth_spine:
  assumes "tree_rep (o_heap s) 0 nxt t" "spine t ts"
  shows "uacpi_namespace_node_depth (ntree_root (last (t # ts))) s = Ret (of_nat (length ts)) s"
proof -
  let ?body = "\<lambda>(node, depth). kbind (cell_get as_node node) (\<lambda>nd. kret (if nd_parent nd \<noteq> 0 then Inl (nd_parent nd, depth + 1) else Inr depth))"
  have "kloop ?body (ntree_root (last (t # ts)), d) s = Ret (d + of_nat (length ts)) s" for d :: u64
    using assms(2)
  proof (induction ts arbitrary: d rule: rev_induct)
    case Nil
    obtain nd where "node_at (o_heap s) (ntree_root t) = Some nd" "nd_parent nd = 0" using assms(1) by (rule tree_rep_node)
    then show ?case by (simp add: kloop_unfold [of _ "(ntree_root t, d)"] kern_simps get_node_Some)
  next
    case (snoc t' ts)
    obtain nd where nd: "node_at (o_heap s) (ntree_root t') = Some nd" "nd_parent nd = ntree_root (last (t # ts))"
      "ntree_root (last (t # ts)) \<noteq> 0" using spine_parent [OF assms(1) snoc.prems] by metis
    have "kloop ?body (ntree_root t', d) s = kloop ?body (ntree_root (last (t # ts)), d + 1) s"
      using nd(2,3) by (subst kloop_unfold) (simp add: kern_simps get_node_Some [OF nd(1)] del: last.simps)
    then show ?case using snoc by (simp only: spine_snoc last_snoc append_Cons [symmetric]) (simp add: algebra_simps)
  qed
  then show ?thesis by (simp add: uacpi_namespace_node_depth_def del: last.simps)
qed

text \<open>Writing into the text that is being built: what lies before the offset stays.\<close>

lemma write_at_bytes:
  assumes "o_heap s p = Some (Bytes (pre @ mid @ suf))" "off = of_nat (length pre)" "length pre < 2 ^ 64" "length mid = length bs"
  shows "write_at p off bs s = Ret () (s\<lparr>o_heap := (o_heap s)(p \<mapsto> Bytes (pre @ bs @ suf))\<rparr>)"
proof -
  have "unat off = length pre" using assms(2,3) by (simp add: unat_of_nat_u64)
  then show ?thesis using assms(1,4) by (simp add: write_at_def cell_get_def kern_simps)
qed

lemma dotted_snoc: "dotted (ns @ [n]) = (if ns = [] then n else dotted ns @ DOT # n)"
  by (cases ns) auto

lemma nstate_heap_self: "s\<lparr>o_heap := o_heap s\<rparr> = (s :: nstate)"
  by simp

lemma path_loop_root: "kloop (path_round p) (uacpi_namespace_root, off) s = Ret () s"
  by (subst kloop_unfold) (simp add: path_round_def)

text \<open>The nodes of a way down are different from the node it starts at.\<close>

definition off_root :: "ntree \<Rightarrow> ntree list \<Rightarrow> bool" where
  "off_root t ts \<longleftrightarrow> ntree_root t = uacpi_namespace_root \<and> (\<forall>t' \<in> set ts. ntree_root t' \<noteq> uacpi_namespace_root)"

lemma write_at_before:
  assumes "o_heap s p = Some (Bytes (pre @ suf))" "length pre < 2 ^ 64" "length pre = k + length bs"
  shows "write_at p (of_nat k) bs s = Ret () (s\<lparr>o_heap := (o_heap s)(p \<mapsto> Bytes (take k pre @ bs @ suf))\<rparr>)"
proof -
  have "o_heap s p = Some (Bytes (take k pre @ drop k pre @ suf))" unfolding append_assoc [symmetric] append_take_drop_id using assms(1) .
  from write_at_bytes [OF this] show ?thesis using assms(2,3) by simp
qed

lemma path_round_top:
  assumes "node_at (o_heap s) a = Some nd" "a \<noteq> uacpi_namespace_root" "nd_parent nd = uacpi_namespace_root" "length (nd_name nd) = 4"
    "o_heap s p = Some (Bytes (pre @ suf))" "length pre < 2 ^ 64" "4 \<le> length pre"
  shows "path_round p (a, of_nat (length pre)) s = Ret (Inl (uacpi_namespace_root, of_nat (length pre - 4)))
    (s\<lparr>o_heap := (o_heap s)(p \<mapsto> Bytes (take (length pre - 4) pre @ nd_name nd @ suf))\<rparr>)"
proof -
  have "of_nat (length pre) - 4 = (of_nat (length pre - 4) :: u64)" using assms(7) by (simp add: of_nat_diff)
  then show ?thesis using write_at_before [OF assms(5,6), of "length pre - 4" "nd_name nd"] assms(2,3,4,7)
    by (simp add: path_round_def kern_simps get_node_Some [OF assms(1)])
qed

lemma path_round_below:
  assumes "node_at (o_heap s) a = Some nd" "a \<noteq> uacpi_namespace_root" "nd_parent nd \<noteq> uacpi_namespace_root" "length (nd_name nd) = 4"
    "o_heap s p = Some (Bytes (pre @ suf))" "length pre < 2 ^ 64" "5 \<le> length pre"
  shows "path_round p (a, of_nat (length pre)) s = Ret (Inl (nd_parent nd, of_nat (length pre - 5)))
    (s\<lparr>o_heap := (o_heap s)(p \<mapsto> Bytes (take (length pre - 5) pre @ DOT # nd_name nd @ suf))\<rparr>)"
proof -
  let ?s1 = "s\<lparr>o_heap := (o_heap s)(p \<mapsto> Bytes (take (length pre - 4) pre @ nd_name nd @ suf))\<rparr>"
  have o1: "of_nat (length pre) - 4 = (of_nat (length pre - 4) :: u64)" using assms(7) by (simp add: of_nat_diff)
  have o2: "of_nat (length pre - 4) - 1 = (of_nat (length pre - 5) :: u64)" using assms(7) by (simp add: of_nat_diff)
  have w1: "write_at p (of_nat (length pre - 4)) (nd_name nd) s = Ret () ?s1"
    using write_at_before [OF assms(5,6), of "length pre - 4" "nd_name nd"] assms(4,7) by simp
  have "o_heap ?s1 p = Some (Bytes (take (length pre - 4) pre @ nd_name nd @ suf))" by simp
  moreover have "length (take (length pre - 4) pre) < 2 ^ 64" "length (take (length pre - 4) pre) = (length pre - 5) + length [DOT]"
    "take (length pre - 5) (take (length pre - 4) pre) = take (length pre - 5) pre" using assms(6,7) by (auto simp: min_def)
  ultimately have w2: "write_at p (of_nat (length pre - 5)) [DOT] ?s1
     = Ret () (s\<lparr>o_heap := (o_heap s)(p \<mapsto> Bytes (take (length pre - 5) pre @ DOT # nd_name nd @ suf))\<rparr>)"
    using write_at_before [of ?s1 p "take (length pre - 4) pre" "nd_name nd @ suf" "length pre - 5" "[DOT]"] by simp
  show ?thesis using assms(2,3) w1 w2
    by (simp add: path_round_def kern_simps get_node_Some [OF assms(1)] o1 o2)
qed

lemma path_loop:
  assumes "tree_rep (o_heap s) 0 nxt t" "spine t ts" "off_root t ts" "node_at (o_heap s) p = None"
    "\<forall>t' \<in> set ts. name_ok (node_name (o_heap s) (ntree_root t'))"
    "o_heap s p = Some (Bytes (pre @ suf))" "length pre = 1 + length (dotted (map (\<lambda>t. node_name (o_heap s) (ntree_root t)) ts))" "length pre < 2 ^ 64"
  shows "kloop (path_round p) (ntree_root (last (t # ts)), of_nat (length pre)) s
    = Ret () (s\<lparr>o_heap := (o_heap s)(p \<mapsto> Bytes (take 1 pre @ dotted (map (\<lambda>t. node_name (o_heap s) (ntree_root t)) ts) @ suf))\<rparr>)"
  using assms
proof (induction ts arbitrary: s pre suf rule: rev_induct)
  case Nil
  then have "ntree_root t = uacpi_namespace_root" by (simp add: off_root_def)
  then have "kloop (path_round p) (ntree_root (last (t # [])), of_nat (length pre)) s = Ret () s" by (simp add: path_loop_root)
  moreover have "take 1 pre @ dotted (map (\<lambda>t. node_name (o_heap s) (ntree_root t)) []) @ suf = pre @ suf" using Nil.prems(7) by simp
  moreover have "(o_heap s)(p \<mapsto> Bytes (pre @ suf)) = o_heap s" using Nil.prems(6) by (rule fun_upd_idem)
  ultimately show ?case by (simp only: nstate_heap_self)
next
  case (snoc t' ts)
  let ?n = "node_name (o_heap s) (ntree_root t')" and ?ns = "map (\<lambda>t. node_name (o_heap s) (ntree_root t)) ts"
  obtain nd where nd: "node_at (o_heap s) (ntree_root t') = Some nd" "nd_parent nd = ntree_root (last (t # ts))"
    using spine_parent [OF snoc.prems(1,2)] by metis
  have n: "nd_name nd = ?n" "length ?n = 4" using snoc.prems(5) nd(1) by (auto simp: node_name_def name_ok_def)
  have not_root: "ntree_root t' \<noteq> uacpi_namespace_root" using snoc.prems(3) by (simp add: off_root_def)
  have off: "off_root t ts" "spine t ts" using snoc.prems(2,3) by (auto simp: off_root_def spine_snoc)
  have len: "length pre = (if ts = [] then 5 else 1 + length (dotted ?ns) + 5)"
    using snoc.prems(7) n(2) by (auto simp: dotted_snoc split: if_splits)
  have last: "last (t # ts @ [t']) = t'" by simp
  show ?case
  proof (cases "ts = []")
    case True
    then have up: "nd_parent nd = uacpi_namespace_root" using nd(2) off(1) by (simp add: off_root_def)
    have step: "path_round p (ntree_root t', of_nat (length pre)) s = Ret (Inl (uacpi_namespace_root, of_nat (length pre - 4)))
      (s\<lparr>o_heap := (o_heap s)(p \<mapsto> Bytes (take 1 pre @ ?n @ suf))\<rparr>)"
      using path_round_top [OF nd(1) not_root up _ snoc.prems(6,8)] n len True by simp
    have one: "dotted (map (\<lambda>t. node_name (o_heap s) (ntree_root t)) (ts @ [t'])) = ?n" using True by simp
    show ?thesis unfolding one last kloop_step(1) [of "path_round p", OF step] path_loop_root ..
  next
    case False
    then have up: "nd_parent nd \<noteq> uacpi_namespace_root" using off(1) last_in_set [of ts] nd(2) by (simp add: off_root_def)
    define pre2 where "pre2 = take (length pre - 5) pre"
    have pre2: "length pre2 = length pre - 5" "length pre2 = 1 + length (dotted ?ns)" "length pre2 < 2 ^ 64" "take 1 pre2 = take 1 pre"
      using len False snoc.prems(8) by (simp_all add: pre2_def min_def)
    define s2 where "s2 = s\<lparr>o_heap := (o_heap s)(p \<mapsto> Bytes (pre2 @ DOT # ?n @ suf))\<rparr>"
    have step: "path_round p (ntree_root t', of_nat (length pre)) s = Ret (Inl (ntree_root (last (t # ts)), of_nat (length pre2))) s2"
      using path_round_below [OF nd(1) not_root up _ snoc.prems(6,8)] n len False nd(2) pre2(1) by (simp add: s2_def pre2_def)
    have same2: "node_at (o_heap s2) = node_at (o_heap s)" by (simp add: s2_def node_at_bytes snoc.prems(4))
    then have names: "node_name (o_heap s2) = node_name (o_heap s)" by (intro ext) (simp add: node_name_def)
    have rep2: "tree_rep (o_heap s2) 0 nxt t" using snoc.prems(1) tree_rep_cong [of t "o_heap s2" "o_heap s"] same2 by simp
    have cell2: "o_heap s2 p = Some (Bytes (pre2 @ DOT # ?n @ suf))" by (simp add: s2_def)
    have "kloop (path_round p) (ntree_root (last (t # ts)), of_nat (length pre2)) s2
      = Ret () (s2\<lparr>o_heap := (o_heap s2)(p \<mapsto> Bytes (take 1 pre2 @ dotted ?ns @ DOT # ?n @ suf))\<rparr>)"
      by (rule snoc.IH [OF rep2 off(2,1) _ _ cell2 _ pre2(3), unfolded names]) (use snoc.prems(4,5) pre2(2) same2 in simp_all)
    moreover have "s2\<lparr>o_heap := (o_heap s2)(p \<mapsto> c)\<rparr> = s\<lparr>o_heap := (o_heap s)(p \<mapsto> c)\<rparr>" for c by (simp add: s2_def)
    moreover have "dotted (map (\<lambda>t. node_name (o_heap s) (ntree_root t)) (ts @ [t'])) = dotted ?ns @ DOT # ?n" using False by (simp add: dotted_snoc)
    ultimately show ?thesis unfolding last kloop_step(1) [of "path_round p", OF step] by (simp only: pre2(4) append_assoc append_Cons)
  qed
qed

lemma tree_spine: "a \<in> set (tree_nodes t) \<Longrightarrow> \<exists>ts. spine t ts \<and> ntree_root (last (t # ts)) = a"
  and forest_spine: "a \<in> set (forest_nodes fs) \<Longrightarrow> \<exists>t \<in> set fs. \<exists>ts. spine t ts \<and> ntree_root (last (t # ts)) = a"
proof (induction t and fs rule: tree_nodes_forest_nodes.induct)
  case (1 b fs)
  show ?case
  proof (cases "a = b")
    case True
    then show ?thesis by (intro exI [of _ "[]"]) simp
  next
    case False
    with 1 obtain t ts where "t \<in> set fs" "spine t ts" "ntree_root (last (t # ts)) = a" by auto
    then show ?thesis by (intro exI [of _ "t # ts"]) simp
  qed
qed (auto simp del: last.simps)

lemma child_nodes: "t \<in> set fs \<Longrightarrow> set (tree_nodes t) \<subseteq> set (forest_nodes fs) \<and> length (tree_nodes t) \<le> length (forest_nodes fs)"
  by (induction fs) auto

lemma spine_nodes:
  "spine t ts \<Longrightarrow> t' \<in> set ts \<Longrightarrow> ntree_root t' \<in> set (forest_nodes (ntree_children t))"
proof (induction ts arbitrary: t)
  case (Cons u ts)
  then have "set (tree_nodes u) \<subseteq> set (forest_nodes (ntree_children t))" using child_nodes by auto
  moreover have "ntree_root t' \<in> set (tree_nodes u)" using Cons.IH [of u] Cons.prems by (cases u) fastforce
  ultimately show ?case by blast
qed simp

lemma spine_length: "spine t ts \<Longrightarrow> length ts < length (tree_nodes t)"
proof (induction ts arbitrary: t)
  case Nil
  then show ?case by (cases t) simp
next
  case (Cons u ts)
  then have "length ts < length (tree_nodes u)" "length (tree_nodes u) \<le> length (forest_nodes (ntree_children t))"
    using child_nodes by auto
  then show ?case by (cases t) simp
qed

lemma spine_off_root:
  assumes "distinct (tree_nodes t)" "ntree_root t = uacpi_namespace_root" "spine t ts"
  shows "off_root t ts"
proof -
  have "ntree_root t \<notin> set (forest_nodes (ntree_children t))" using assms(1) by (cases t) simp
  with assms(2) spine_nodes [OF assms(3)] show ?thesis unfolding off_root_def by metis
qed

lemma dotted_length: "\<forall>n \<in> set ns. length n = 4 \<Longrightarrow> length (dotted ns) = (if ns = [] then 0 else 5 * length ns - 1)"
proof (cases ns)
  case (Cons n ms)
  moreover have "\<forall>n \<in> set ms. length n = 4 \<Longrightarrow> length (concat (map ((#) DOT) ms)) = 5 * length ms" by (induction ms) auto
  moreover assume "\<forall>n \<in> set ns. length n = 4"
  ultimately show ?thesis by simp
qed simp

lemma path_size:
  assumes "k < 2 ^ 32"
  shows "(let depth = of_nat k + 1 :: u64 in 1 + (depth - 1) * 4 + (if depth > 2 then depth - 2 else 0) + 1)
    = of_nat (2 + (if k = 0 then 0 else 5 * k - 1))"
proof (cases "k \<le> 1")
  case True
  then have "k = 0 \<or> k = 1" by auto
  then show ?thesis by auto
next
  case False
  then obtain j where k: "k = j + 2" by (metis add.commute le_iff_add not_less_eq_eq one_add_one plus_1_eq_Suc)
  have "unat (of_nat k + 1 :: u64) = k + 1" using assms unat_of_nat_u64 [of "k + 1"] by (simp add: add.commute)
  then have "of_nat k + 1 > (2 :: u64)" using False by (simp add: word_less_nat_alt)
  then show ?thesis by (simp add: k Let_def algebra_simps)
qed

lemma alloc_bytes_ok:
  assumes "oh_alloc host (o_calls s) (unat n)" "o_next s \<noteq> 0"
  shows "\<exists>junk. length junk = unat n \<and> alloc_bytes host n s = Ret (o_next s)
    (s\<lparr>o_calls := Suc (o_calls s), o_heap := (o_heap s)(o_next s \<mapsto> Bytes junk), o_next := o_next s + 1\<rparr>)"
  using assms by (intro exI [of _ "map (oh_junk host (o_calls s)) [0..<unat n]"])
    (simp add: alloc_bytes_def alloc_cell_def o_host_call_def kern_simps)

text \<open>The first and the last byte of the new text.\<close>

lemma write_ends:
  assumes "o_heap s p = Some (Bytes junk)" "length junk = n + 2" "n < 2 ^ 40"
  shows "\<exists>mid s'. length mid = n \<and> kseq (write_at p 0 [BACKSLASH]) (write_at p (of_nat (n + 2) - 1) [0]) s = Ret () s'
    \<and> s' = s\<lparr>o_heap := (o_heap s)(p \<mapsto> Bytes ((BACKSLASH # mid) @ [0]))\<rparr>"
proof -
  from assms(2) obtain a mid b where junk: "junk = a # mid @ [b]" "length mid = n"
    by (cases junk; cases "tl junk" rule: rev_cases) auto
  let ?s1 = "s\<lparr>o_heap := (o_heap s)(p \<mapsto> Bytes (BACKSLASH # mid @ [b]))\<rparr>"
  have w1: "write_at p 0 [BACKSLASH] s = Ret () ?s1"
    using write_at_bytes [of s p "[]" "[a]" "mid @ [b]" 0 "[BACKSLASH]"] assms(1) junk(1) by simp
  have off: "of_nat (n + 2) - 1 = (of_nat (length (BACKSLASH # mid)) :: u64)" using junk(2) by simp
  have w2: "write_at p (of_nat (n + 2) - 1) [0] ?s1 = Ret () (?s1\<lparr>o_heap := (o_heap ?s1)(p \<mapsto> Bytes ((BACKSLASH # mid) @ [0] @ []))\<rparr>)"
    by (rule write_at_bytes [OF _ off, where mid = "[b]"]) (use junk(2) assms(3) in simp_all)
  have "kseq (write_at p 0 [BACKSLASH]) (write_at p (of_nat (n + 2) - 1) [0]) s
    = Ret () (?s1\<lparr>o_heap := (o_heap ?s1)(p \<mapsto> Bytes ((BACKSLASH # mid) @ [0] @ []))\<rparr>)"
    unfolding kseq_cases(1) [of "write_at p 0 [BACKSLASH]", OF w1] by (rule w2)
  then show ?thesis using junk(2) by (intro exI [of _ mid] exI conjI) simp_all
qed

lemma generate_path:
  assumes "tree_rep (o_heap s) 0 nxt t" "spine t ts" "off_root t ts" "o_heap s (o_next s) = None" "o_next s \<noteq> 0" "length ts < 2 ^ 32"
    "\<forall>t' \<in> set ts. name_ok (node_name (o_heap s) (ntree_root t'))" "\<forall>n. oh_alloc (nh_objects host) (o_calls s) n"
  shows "uacpi_namespace_node_generate_absolute_path host (ntree_root (last (t # ts))) s = Ret (o_next s)
    (s\<lparr>o_calls := Suc (o_calls s), o_next := o_next s + 1, o_heap := (o_heap s)(o_next s \<mapsto>
       Bytes (BACKSLASH # dotted (map (\<lambda>t. node_name (o_heap s) (ntree_root t)) ts) @ [0]))\<rparr>)"
proof -
  let ?ns = "map (\<lambda>t. node_name (o_heap s) (ntree_root t)) ts" and ?p = "o_next s" and ?a = "ntree_root (last (t # ts))"
  define n where "n = length (dotted ?ns)"
  have "\<forall>m \<in> set ?ns. length m = 4" using assms(7) by (auto simp: name_ok_def)
  then have n: "n = (if length ts = 0 then 0 else 5 * length ts - 1)" using dotted_length [of ?ns] by (simp add: n_def)
  have sz: "(let depth = of_nat (length ts) + 1 :: u64 in 1 + (depth - 1) * 4 + (if depth > 2 then depth - 2 else 0) + 1) = of_nat (n + 2)"
    using path_size [OF assms(6)] by (simp add: n add.commute)
  have small: "n < 2 ^ 40" using n assms(6) by auto
  then have un: "unat (of_nat (n + 2) :: u64) = n + 2" using unat_of_nat_u64 [of "n + 2"] by simp
  obtain junk where junk: "length junk = n + 2" "alloc_bytes (nh_objects host) (of_nat (n + 2)) s = Ret ?p
      (s\<lparr>o_calls := Suc (o_calls s), o_heap := (o_heap s)(?p \<mapsto> Bytes junk), o_next := ?p + 1\<rparr>)"
    using alloc_bytes_ok [of "nh_objects host" s "of_nat (n + 2)"] assms(5,8) unfolding un by blast
  define s1 where "s1 = s\<lparr>o_calls := Suc (o_calls s), o_heap := (o_heap s)(?p \<mapsto> Bytes junk), o_next := ?p + 1\<rparr>"
  have "o_heap s1 ?p = Some (Bytes junk)" by (simp add: s1_def)
  from write_ends [OF this junk(1) small] obtain mid s2 where mid: "length mid = n"
    and ends: "kseq (write_at ?p 0 [BACKSLASH]) (write_at ?p (of_nat (n + 2) - 1) [0]) s1 = Ret () s2"
    and s2: "s2 = s1\<lparr>o_heap := (o_heap s1)(?p \<mapsto> Bytes ((BACKSLASH # mid) @ [0]))\<rparr>" by blast
  have none: "node_at (o_heap s) ?p = None" using assms(4) by (simp add: node_at_def)
  have same: "node_at (o_heap s2) = node_at (o_heap s)" by (simp add: s2 s1_def node_at_bytes none)
  then have names: "node_name (o_heap s2) = node_name (o_heap s)" by (intro ext) (simp add: node_name_def)
  have rep2: "tree_rep (o_heap s2) 0 nxt t" using assms(1) tree_rep_cong [of t "o_heap s2" "o_heap s"] same by simp
  have cell2: "o_heap s2 ?p = Some (Bytes ((BACKSLASH # mid) @ [0]))" by (simp add: s2)
  have loop: "kloop (path_round ?p) (?a, of_nat (length (BACKSLASH # mid))) s2
      = Ret () (s2\<lparr>o_heap := (o_heap s2)(?p \<mapsto> Bytes (take 1 (BACKSLASH # mid) @ dotted ?ns @ [0]))\<rparr>)"
    by (rule path_loop [OF rep2 assms(2,3) _ _ cell2, unfolded names]) (use none same assms(7) mid small in \<open>simp_all add: n_def\<close>)
  have off: "of_nat (n + 2) - 1 = (of_nat (length (BACKSLASH # mid)) :: u64)" using mid by simp
  have "uacpi_namespace_node_generate_absolute_path host ?a s = kseq (write_at ?p 0 [BACKSLASH]) (kseq (write_at ?p (of_nat (n + 2) - 1) [0])
       (kseq (kloop (path_round ?p) (?a, of_nat (n + 2) - 1)) (kret ?p))) s1"
    using junk(2) assms(5)
    by (simp only: uacpi_namespace_node_generate_absolute_path_def kbind_cases(1) [of "uacpi_namespace_node_depth ?a", OF node_depth_spine [OF assms(1,2)]] Let_def [of "of_nat _ + 1"]
        sz [unfolded Let_def] Let_def kbind_cases(1) [of "alloc_bytes (nh_objects host) (of_nat (n + 2))", OF junk(2)] s1_def [symmetric] if_False)
  also have "\<dots> = kseq (kloop (path_round ?p) (?a, of_nat (n + 2) - 1)) (kret ?p) s2"
    using ends by (auto simp: kseq_def kbind_def split: kres.splits)
  also have "\<dots> = Ret ?p (s2\<lparr>o_heap := (o_heap s2)(?p \<mapsto> Bytes (take 1 (BACKSLASH # mid) @ dotted ?ns @ [0]))\<rparr>)"
    unfolding off kseq_cases(1) [of "kloop (path_round ?p) (?a, of_nat (length (BACKSLASH # mid)))", OF loop] by simp
  also have "s2\<lparr>o_heap := (o_heap s2)(?p \<mapsto> Bytes (take 1 (BACKSLASH # mid) @ dotted ?ns @ [0]))\<rparr>
    = s\<lparr>o_calls := Suc (o_calls s), o_next := ?p + 1, o_heap := (o_heap s)(?p \<mapsto> Bytes (BACKSLASH # dotted ?ns @ [0]))\<rparr>"
    by (simp add: s2 s1_def)
  finally show ?thesis .
qed

text \<open>
  C18: printing and finding a node agree. For every node of a namespace whose siblings have different names of
  four characters, none of them a dot or zero, \<open>uacpi_namespace_node_generate_absolute_path\<close> returns, when memory is available, a string that ends with a zero,
  and resolving that string from any scope returns the node, without changing anything (unless the node is
  temporary and only permanent ones are wanted).
\<close>

theorem absolute_path_roundtrip:
  assumes "tree_rep (o_heap s) 0 nxt t" "ntree_root t = uacpi_namespace_root" "distinct (tree_nodes t)" "length (tree_nodes t) \<le> 2 ^ 32"
    "siblings_unique (o_heap s) t" "\<forall>b \<in> set (tree_nodes t). b \<noteq> uacpi_namespace_root \<longrightarrow> name_ok (node_name (o_heap s) b)"
    "a \<in> set (tree_nodes t)" "node_at (o_heap s) a = Some nd" "permanent_only \<longrightarrow> nd_flags nd AND UACPI_NAMESPACE_NODE_FLAG_TEMPORARY = 0"
    "o_heap s (o_next s) = None" "o_next s \<noteq> 0" "\<forall>n. oh_alloc (nh_objects host) (o_calls s) n"
  shows "\<exists>s' path. uacpi_namespace_node_generate_absolute_path host a s = Ret (o_next s) s'
    \<and> o_heap s' (o_next s) = Some (Bytes (path @ [0])) \<and> 0 \<notin> set path
    \<and> uacpi_namespace_node_resolve host parent path False may_search_above permanent_only s' = Ret (UACPI_STATUS_OK, Some a) s'"
proof -
  obtain ts where ts: "spine t ts" "ntree_root (last (t # ts)) = a" using tree_spine [OF assms(7)] by blast
  have off: "off_root t ts" by (rule spine_off_root [OF assms(3,2) ts(1)])
  have nodes: "ntree_root t' \<in> set (tree_nodes t)" if "t' \<in> set ts" for t' using spine_nodes [OF ts(1) that] by (cases t) simp
  have ok: "\<forall>t' \<in> set ts. name_ok (node_name (o_heap s) (ntree_root t'))" using assms(6) off nodes by (simp add: off_root_def)
  let ?path = "BACKSLASH # dotted (map (\<lambda>t. node_name (o_heap s) (ntree_root t)) ts)"
  define s' where "s' = s\<lparr>o_calls := Suc (o_calls s), o_next := o_next s + 1, o_heap := (o_heap s)(o_next s \<mapsto> Bytes (?path @ [0]))\<rparr>"
  have gen: "uacpi_namespace_node_generate_absolute_path host a s = Ret (o_next s) s'"
    using generate_path [OF assms(1) ts(1) off assms(10,11) _ ok assms(12)] spine_length [OF ts(1)] assms(4) ts(2) by (simp add: s'_def)
  have same: "node_at (o_heap s') = node_at (o_heap s)" using assms(10) by (simp add: s'_def node_at_bytes node_at_def [of _ "o_next s"])
  then have names: "node_name (o_heap s') = node_name (o_heap s)" by (intro ext) (simp add: node_name_def)
  have rep: "tree_rep (o_heap s') 0 nxt t" using assms(1) tree_rep_cong [of t "o_heap s'" "o_heap s"] same by simp
  have "siblings_unique (o_heap s') u = siblings_unique (o_heap s) u" for u by (induction u) (simp add: names)
  then have uniq: "siblings_unique (o_heap s') t" using assms(5) by simp
  have seg: "resolve_segments may_search_above parent uacpi_namespace_root (dotted (map (\<lambda>t. node_name (o_heap s) (ntree_root t)) ts)) False s'
    = Ret a s'"
    using resolve_dotted [OF rep uniq ts(1), of may_search_above parent False] ok ts(2) assms(2) by (simp add: names del: last.simps)
  have "a \<noteq> 0" using spine_rep [OF assms(1) ts(1)] tree_rep_nonzero ts(2) by blast
  then have out: "resolve_out permanent_only UACPI_STATUS_OK a s' = Ret (UACPI_STATUS_OK, Some a) s'"
    using assms(8,9) same
    by (auto simp: resolve_out_def uacpi_namespace_node_is_temporary_def node_flag_def kern_simps get_node UACPI_STATUS_OK_def
        UACPI_STATUS_INVALID_ARGUMENT_def)
  have "uacpi_namespace_node_resolve host parent ?path False may_search_above permanent_only s' = Ret (UACPI_STATUS_OK, Some a) s'"
    using seg out by (simp add: uacpi_namespace_node_resolve_def resolve_body_def kern_simps)
  moreover have "0 \<notin> set (concat (map ((#) DOT) ns))" if "\<forall>n \<in> set ns. 0 \<notin> set n" for ns :: "u8 list list" using that by auto
  then have "0 \<notin> set (dotted ns)" if "\<forall>n \<in> set ns. 0 \<notin> set n" for ns using that by (cases ns) auto
  then have "0 \<notin> set ?path" using ok by (auto simp: name_ok_def)
  moreover have "o_heap s' (o_next s) = Some (Bytes (?path @ [0]))" by (simp add: s'_def)
  ultimately show ?thesis using gen by blast
qed

text \<open>A namespace with the device \<open>\\_SB_.PCI0\<close>.\<close>

definition demo_ns_heap :: heap where
  "demo_ns_heap = [16 \<mapsto> fresh (BNode ((empty_node [0x5C, 0, 0, 0] UACPI_NAMESPACE_NODE_PREDEFINED)\<lparr>nd_child := 17\<rparr>)),
     17 \<mapsto> fresh (BNode ((empty_node [0x5F, 0x53, 0x42, 0x5F] UACPI_NAMESPACE_NODE_PREDEFINED)\<lparr>nd_parent := 16, nd_child := 0x100, nd_object := 0x102\<rparr>)),
     0x100 \<mapsto> fresh (BNode ((empty_node [0x50, 0x43, 0x49, 0x30] 0)\<lparr>nd_parent := 17, nd_object := 0x101\<rparr>)),
     0x101 \<mapsto> fresh (BObject (zero_object\<lparr>ob_type := UACPI_OBJECT_INTEGER\<rparr>)),
     0x102 \<mapsto> fresh (BObject zero_object)]"

definition demo_ns :: nstate where
  "demo_ns = \<lparr>o_heap = demo_ns_heap, o_next = 0x200, o_calls = 0, o_freed_handles = [], o_tables = demo_state,
     namespace_lock = \<lparr>rw_read_mutex = Some 1, rw_write_mutex = Some 2, rw_num_readers = 0\<rparr>, ns_world = mworld_boot,
     root_object = 0, global_lock_mutex = 0\<rparr>"

definition demo_object_host :: object_host where
  "demo_object_host = \<lparr>oh_alloc = (\<lambda>_ _. True), oh_junk = (\<lambda>_ _. 0xAA), oh_create_mutex = (\<lambda>_. 1), oh_create_event = (\<lambda>_. 1), oh_tables = demo_host\<rparr>"

definition demo_ns_host :: ns_host where
  "demo_ns_host = \<lparr>nh_objects = demo_object_host, nh_mutex = quiet_host, nh_opregion_uninstall_handler = (\<lambda>_. kret ()), nh_uacpi_osi = 0\<rparr>"

definition demo_tree :: ntree where "demo_tree = NTree 16 [NTree 17 [NTree 0x100 []]]"

lemmas demo_nodes = demo_ns_heap_def demo_tree_def node_at_def fresh_def empty_node_def

lemma demo_rep: "tree_rep (o_heap demo_ns) 0 0 demo_tree"
  by (simp add: demo_ns_def demo_nodes)

lemma demo_root: "uacpi_namespace_root = 16"
  by (simp add: uacpi_namespace_root_def predefined_node_def predefined_numbers)

theorem absolute_path_roundtrip_witness:
  "\<exists>s' path. uacpi_namespace_node_generate_absolute_path demo_ns_host 0x100 demo_ns = Ret 0x200 s'
    \<and> o_heap s' 0x200 = Some (Bytes (path @ [0])) \<and> 0 \<notin> set path
    \<and> uacpi_namespace_node_resolve demo_ns_host 17 path False False True s' = Ret (UACPI_STATUS_OK, Some 0x100) s'"
proof -
  have n: "node_at (o_heap demo_ns) 0x100 = Some ((empty_node [0x50, 0x43, 0x49, 0x30] 0)\<lparr>nd_parent := 17, nd_object := 0x101\<rparr>)"
    by (simp add: demo_ns_def demo_nodes)
  have ok: "\<forall>b \<in> set (tree_nodes demo_tree). b \<noteq> uacpi_namespace_root \<longrightarrow> name_ok (node_name (o_heap demo_ns) b)"
    by (simp add: demo_ns_def demo_nodes node_name_def name_ok_def demo_root)
  have "siblings_unique (o_heap demo_ns) demo_tree" "distinct (tree_nodes demo_tree)" "0x100 \<in> set (tree_nodes demo_tree)"
    "ntree_root demo_tree = uacpi_namespace_root" "length (tree_nodes demo_tree) \<le> 2 ^ 32" by (simp_all add: demo_tree_def demo_root)
  from absolute_path_roundtrip [OF demo_rep this(4,2,5,1) ok this(3) n, of True demo_ns_host 17 False]
  show ?thesis by (simp add: empty_node_def demo_ns_def demo_ns_host_def demo_object_host_def demo_ns_heap_def)
qed

end
