(* ===== verification/UacpiNamespaceWalk.thy ===== *)
theory UacpiNamespaceWalk
  imports UacpiNamespaceTree
begin

text \<open>
  Iterations over the namespace: the loop of \<open>uacpi_namespace_do_for_each_child\<close>, which follows pointers down, sideways and up,
  visits a tree as a recursive definition says; and what a callback that stops the iteration does to the lock.
\<close>

section \<open>The objects of nodes\<close>

definition object_at :: "heap \<Rightarrow> u64 \<Rightarrow> uacpi_object option" where
  "object_at h p = (case h p of None \<Rightarrow> None | Some c \<Rightarrow> as_object c)"

lemma get_object_Some: "object_at (o_heap s) p = Some x \<Longrightarrow> cell_get as_object p s = Ret x s"
  by (auto simp: object_at_def cell_get_def split: option.splits)

definition unwrapped :: "uacpi_object \<Rightarrow> bool" where
  "unwrapped x \<longleftrightarrow> ob_type x \<noteq> UACPI_OBJECT_REFERENCE \<or> ob_flags x = UACPI_REFERENCE_KIND_REFOF \<or> ob_flags x = UACPI_REFERENCE_KIND_PKG_INDEX"

text \<open>The object that a pointer leads to through internal references.\<close>

inductive unwraps :: "heap \<Rightarrow> u64 \<Rightarrow> u64 \<Rightarrow> uacpi_object \<Rightarrow> bool" for h :: heap where
  here: "object_at h p = Some x \<Longrightarrow> unwrapped x \<Longrightarrow> unwraps h p p x"
| through: "object_at h r = Some y \<Longrightarrow> \<not> unwrapped y \<Longrightarrow> unwraps h (ob_w0 y) p x \<Longrightarrow> unwraps h r p x"

lemma unwrap_reference: "unwraps (o_heap s) r p x \<Longrightarrow> uacpi_unwrap_internal_reference r s = Ret p s \<and> object_at (o_heap s) p = Some x"
  unfolding uacpi_unwrap_internal_reference_def
proof (induction rule: unwraps.induct)
  case (here p x)
  then show ?case by (subst kloop_unfold) (simp add: unwrap_round_def kern_simps get_object_Some unwrapped_def)
next
  case (through r y p x)
  then have "unwrap_round r s = Ret (Inl (ob_w0 y)) s" by (simp add: unwrap_round_def kern_simps get_object_Some unwrapped_def)
  with through show ?case by (simp add: kloop_step(1) [of unwrap_round])
qed

text \<open>The node has an object of the type.\<close>

definition node_has_type :: "heap \<Rightarrow> u64 \<Rightarrow> uacpi_object_type \<Rightarrow> bool" where
  "node_has_type h a ty \<longleftrightarrow> (\<exists>nd p x. node_at h a = Some nd \<and> a \<noteq> 0 \<and> nd_object nd \<noteq> 0 \<and> unwraps h (nd_object nd) p x \<and> p \<noteq> 0 \<and> ob_type x = ty)"

lemma is_one_of_node:
  assumes "node_has_type (o_heap s) a ty"
  shows "uacpi_namespace_node_is_one_of_unlocked a tmask s = Ret (UACPI_STATUS_OK, Some (object_type_bit ty AND tmask \<noteq> 0)) s"
proof -
  from assms obtain nd p x where n: "node_at (o_heap s) a = Some nd" "a \<noteq> 0" "nd_object nd \<noteq> 0" "unwraps (o_heap s) (nd_object nd) p x"
    "p \<noteq> 0" "ob_type x = ty" by (auto simp: node_has_type_def)
  from unwrap_reference [OF n(4)] n show ?thesis
    by (simp add: uacpi_namespace_node_is_one_of_unlocked_def uacpi_namespace_node_get_object_def kern_simps get_node_Some
        uacpi_object_is_one_of_def uacpi_object_get_type_bit_def get_object_Some)
qed

definition node_temporary :: "heap \<Rightarrow> u64 \<Rightarrow> bool" where
  "node_temporary h a \<longleftrightarrow> (case node_at h a of None \<Rightarrow> False | Some nd \<Rightarrow> nd_flags nd AND UACPI_NAMESPACE_NODE_FLAG_TEMPORARY \<noteq> 0)"

section \<open>A recursive walk\<close>

text \<open>
  A callback that only computes. \<open>sel a\<close>: the node is passed to callbacks; \<open>skip a\<close>: it is one that is passed over with
  everything below it. The walk ends early when a callback stops it or answers with an unknown decision.
\<close>

type_synonym 'u pure_callback = "'u \<Rightarrow> u64 \<Rightarrow> u32 \<Rightarrow> 'u \<times> uacpi_iteration_decision"

datatype 'u walk_end = Stopped 'u | Refused 'u

record 'u walk =
  wk_down :: "'u pure_callback option"
  wk_up :: "'u pure_callback option"
  wk_sel :: "u64 \<Rightarrow> bool"
  wk_skip :: "u64 \<Rightarrow> bool"
  wk_max_depth :: u32

definition ask :: "'u pure_callback option \<Rightarrow> 'u walk \<Rightarrow> 'u \<Rightarrow> u64 \<Rightarrow> u32 \<Rightarrow> 'u \<times> uacpi_iteration_decision" where
  "ask cb w u a d = (if \<not> wk_sel w a then (u, UACPI_ITERATION_DECISION_CONTINUE)
     else if wk_skip w a then (u, UACPI_ITERATION_DECISION_NEXT_PEER)
     else case cb of None \<Rightarrow> (u, UACPI_ITERATION_DECISION_CONTINUE) | Some f \<Rightarrow> f u a d)"

definition walk_up :: "'u walk \<Rightarrow> u32 \<Rightarrow> u64 \<Rightarrow> 'u \<Rightarrow> 'u + 'u walk_end" where
  "walk_up w d a u = (case ask (wk_up w) w u a d of (u', dec) \<Rightarrow>
     if dec = UACPI_ITERATION_DECISION_BREAK then Inr (Stopped u') else Inl u')"

fun walk_tree :: "'u walk \<Rightarrow> u32 \<Rightarrow> ntree \<Rightarrow> 'u \<Rightarrow> 'u + 'u walk_end"
  and walk_forest :: "'u walk \<Rightarrow> u32 \<Rightarrow> ntree list \<Rightarrow> 'u \<Rightarrow> 'u + 'u walk_end" where
  "walk_tree w d (NTree a ts) u = (case ask (wk_down w) w u a d of (u1, dec) \<Rightarrow>
     if dec = UACPI_ITERATION_DECISION_BREAK then Inr (Stopped u1)
     else if dec = InvalidDecision then Inr (Refused u1)
     else if dec = UACPI_ITERATION_DECISION_CONTINUE \<and> d \<noteq> wk_max_depth w then
       (case walk_forest w (d + 1) ts u1 of Inr e \<Rightarrow> Inr e | Inl u2 \<Rightarrow> walk_up w d a u2)
     else walk_up w d a u1)"
| "walk_forest w d [] u = Inl u"
| "walk_forest w d (t # ts) u = (case walk_tree w d t u of Inr e \<Rightarrow> Inr e | Inl u' \<Rightarrow> walk_forest w d ts u')"

section \<open>The loop does the walk\<close>

definition lift_cb :: "'u pure_callback option \<Rightarrow> 'u uacpi_iteration_callback option" where
  "lift_cb cb = map_option (\<lambda>f u a d. kret (f u a d)) cb"

text \<open>
  Around a callback the lock is released and taken again: \<open>s\<close> is the state with the lock, \<open>s1\<close> the one without.
\<close>

definition lock_cycle :: "ns_host \<Rightarrow> bool \<Rightarrow> nstate \<Rightarrow> nstate \<Rightarrow> bool" where
  "lock_cycle host should_lock s s1 \<longleftrightarrow> (if should_lock
     then uacpi_namespace_read_unlock host s = Ret UACPI_STATUS_OK s1 \<and> uacpi_namespace_read_lock host s1 = Ret UACPI_STATUS_OK s
     else s1 = s)"

text \<open>The arguments of an iteration; \<open>ws_type\<close> are the types of the nodes' objects.\<close>

record 'u iteration_setup =
  ws_host :: ns_host
  ws_down :: "'u pure_callback option"
  ws_up :: "'u pure_callback option"
  ws_mask :: u32
  ws_max_depth :: u32
  ws_should_lock :: bool
  ws_permanent_only :: bool
  ws_type :: "u64 \<Rightarrow> uacpi_object_type"

definition setup_walk :: "'u iteration_setup \<Rightarrow> heap \<Rightarrow> 'u walk" where
  "setup_walk c h = \<lparr>wk_down = ws_down c, wk_up = ws_up c, wk_sel = (\<lambda>a. object_type_bit (ws_type c a) AND ws_mask c \<noteq> 0),
     wk_skip = (\<lambda>a. ws_permanent_only c \<and> node_temporary h a), wk_max_depth = ws_max_depth c\<rparr>"

lemma setup_walk_simps [simp]:
  "wk_down (setup_walk c h) = ws_down c" "wk_up (setup_walk c h) = ws_up c" "wk_max_depth (setup_walk c h) = ws_max_depth c"
  "wk_sel (setup_walk c h) a \<longleftrightarrow> object_type_bit (ws_type c a) AND ws_mask c \<noteq> 0"
  "wk_skip (setup_walk c h) a \<longleftrightarrow> ws_permanent_only c \<and> node_temporary h a"
  by (simp_all add: setup_walk_def)

definition rnd :: "'u iteration_setup \<Rightarrow> 'u iteration \<Rightarrow> ('u iteration + 'u iteration_end) nkern" where
  "rnd c = for_each_child_round (ws_host c) (lift_cb (ws_down c)) (lift_cb (ws_up c)) (ws_mask c) (ws_max_depth c) (ws_should_lock c) (ws_permanent_only c)"

fun end_of :: "'u walk_end \<Rightarrow> 'u iteration_end" where
  "end_of (Stopped u) = IterOut UACPI_STATUS_OK u"
| "end_of (Refused u) = IterOut UACPI_STATUS_INVALID_ARGUMENT u"

fun state_of :: "nstate \<Rightarrow> nstate \<Rightarrow> 'u walk_end \<Rightarrow> nstate" where
  "state_of s s1 (Stopped u) = s1"
| "state_of s s1 (Refused u) = s"

lemma call_callback_pure:
  assumes "lock_cycle host should_lock s s1" "f (it_user it) (it_node it) (it_depth it) = (u', dec)"
  shows "call_callback host should_lock (\<lambda>u a d. kret (f u a d)) it s =
    (if dec = UACPI_ITERATION_DECISION_BREAK then Ret (Inr (IterOut UACPI_STATUS_OK u')) s1 else Ret (Inl (u', dec)) s)"
  using assms by (auto simp: call_callback_def lock_cycle_def kern_simps split: if_splits)

text \<open>One round: what the callback is asked, and what is done next.\<close>

lemma round_asks:
  assumes ty: "node_has_type (o_heap s) (it_node it) (ws_type c (it_node it))" and depth: "it_depth it \<noteq> 0"
    and lock: "lock_cycle (ws_host c) (ws_should_lock c) s s1"
    and ask: "ask (if it_walking_up it then ws_up c else ws_down c) (setup_walk c (o_heap s)) (it_user it) (it_node it) (it_depth it) = (u', dec)"
  shows "\<exists>m. rnd c it s =
    (if dec = UACPI_ITERATION_DECISION_BREAK then Ret (Inr (IterOut UACPI_STATUS_OK u')) s1
     else do_next (ws_max_depth c) dec (it\<lparr>it_matches := m, it_user := u'\<rparr>) s)"
proof -
  obtain nd where nd: "node_at (o_heap s) (it_node it) = Some nd" using ty by (auto simp: node_has_type_def)
  define m where "m \<longleftrightarrow> object_type_bit (ws_type c (it_node it)) AND ws_mask c \<noteq> 0"
  define sk where "sk \<longleftrightarrow> ws_permanent_only c \<and> node_temporary (o_heap s) (it_node it)"
  define it' where "it' = it\<lparr>it_matches := m\<rparr>"
  let ?cb = "if it_walking_up it then ws_up c else ws_down c"
  have temp: "uacpi_namespace_node_is_temporary (it_node it) s = Ret (node_temporary (o_heap s) (it_node it)) s"
    by (simp add: uacpi_namespace_node_is_temporary_def node_flag_def kern_simps get_node_Some [OF nd] node_temporary_def nd)
  have skip: "(if ws_permanent_only c then uacpi_namespace_node_is_temporary (it_node it) else kret False) s = Ret sk s"
    using temp by (simp add: sk_def)
  have rnd: "rnd c it s = visit_node (ws_host c) (lift_cb (ws_down c)) (lift_cb (ws_up c)) (ws_max_depth c) (ws_should_lock c) (ws_permanent_only c) it' s"
    by (simp add: rnd_def for_each_child_round_def kern_simps is_one_of_node [OF ty] depth m_def it'_def)
  have it': "it_matches it' = m" "it_node it' = it_node it" "it_walking_up it' = it_walking_up it" by (simp_all add: it'_def)
  have cb: "(if it_walking_up it then lift_cb (ws_up c) else lift_cb (ws_down c)) = lift_cb ?cb" by simp
  have visit: "rnd c it s = (if \<not> m then do_next (ws_max_depth c) UACPI_ITERATION_DECISION_CONTINUE it' s
      else if sk then do_next (ws_max_depth c) UACPI_ITERATION_DECISION_NEXT_PEER it' s
      else (case lift_cb ?cb of None \<Rightarrow> do_next (ws_max_depth c) UACPI_ITERATION_DECISION_CONTINUE it'
        | Some cb \<Rightarrow> kbind (call_callback (ws_host c) (ws_should_lock c) cb it') (\<lambda>r. case r of Inr e \<Rightarrow> kret (Inr e)
            | Inl (user, decision) \<Rightarrow> do_next (ws_max_depth c) decision (it'\<lparr>it_user := user\<rparr>))) s)"
    unfolding rnd visit_node_def it' cb
    by (cases m; cases sk) (simp_all only: if_True if_False not_True_eq_False not_False_eq_True
        kbind_cases(1) [of "if ws_permanent_only c then uacpi_namespace_node_is_temporary (it_node it) else kret False", OF skip])
  show ?thesis
  proof (cases "m \<and> \<not> sk \<and> ?cb \<noteq> None")
    case True
    then obtain f where f: "?cb = Some f" by blast
    with True ask have res: "f (it_user it') (it_node it') (it_depth it') = (u', dec)" by (auto simp: ask_def m_def sk_def it'_def)
    have lf: "lift_cb ?cb = Some (\<lambda>u a d. kret (f u a d))" unfolding f by (simp add: lift_cb_def)
    have "rnd c it s = kbind (call_callback (ws_host c) (ws_should_lock c) (\<lambda>u a d. kret (f u a d)) it') (\<lambda>r. case r of Inr e \<Rightarrow> kret (Inr e)
            | Inl (user, decision) \<Rightarrow> do_next (ws_max_depth c) decision (it'\<lparr>it_user := user\<rparr>)) s"
      unfolding visit lf using True by simp
    then show ?thesis using call_callback_pure [where it = it' and f = f, OF lock res]
      by (intro exI [of _ m]) (simp add: kern_simps it'_def)
  next
    case False
    with ask have "it_user it = u'" "dec = (if m \<and> sk then UACPI_ITERATION_DECISION_NEXT_PEER else UACPI_ITERATION_DECISION_CONTINUE)"
      by (auto simp: ask_def m_def sk_def split: if_splits option.splits)
    then show ?thesis using False by (intro exI [of _ m]) (auto simp: visit lift_cb_def it'_def split: option.splits)
  qed
qed

abbreviation cfg :: "u64 \<Rightarrow> bool \<Rightarrow> bool \<Rightarrow> u32 \<Rightarrow> 'u \<Rightarrow> 'u iteration" where
  "cfg a walking_up m d u \<equiv> \<lparr>it_node = a, it_walking_up = walking_up, it_matches = m, it_depth = d, it_user = u\<rparr>"

text \<open>The outcome of a walk, and how the loop goes on after it.\<close>

fun goes_on :: "nstate \<Rightarrow> nstate \<Rightarrow> 'u + 'u walk_end \<Rightarrow> ('u \<Rightarrow> (nstate, 'u iteration_end) kres) \<Rightarrow> (nstate, 'u iteration_end) kres" where
  "goes_on s s1 (Inr e) k = Ret (end_of e) (state_of s s1 e)"
| "goes_on s s1 (Inl u) k = k u"

lemma up_visit:
  assumes "node_has_type (o_heap s) a (ws_type c a)" "d \<noteq> 0" "node_at (o_heap s) a = Some nd"
    and lock: "lock_cycle (ws_host c) (ws_should_lock c) s s1"
  shows "\<exists>m'. kloop (rnd c) (cfg a True m d u) s = goes_on s s1 (walk_up (setup_walk c (o_heap s)) d a u)
    (\<lambda>u'. kloop (rnd c) (if nd_next nd \<noteq> 0 then cfg (nd_next nd) False m' d u' else cfg (nd_parent nd) True m' (d - 1) u') s)"
proof -
  obtain u' dec where ask: "ask (ws_up c) (setup_walk c (o_heap s)) u a d = (u', dec)" by (cases "ask (ws_up c) (setup_walk c (o_heap s)) u a d")
  obtain m' where "rnd c (cfg a True m d u) s = (if dec = UACPI_ITERATION_DECISION_BREAK then Ret (Inr (IterOut UACPI_STATUS_OK u')) s1
     else do_next (ws_max_depth c) dec (cfg a True m' d u') s)"
    using round_asks [OF _ _ lock, of "cfg a True m d u" u' dec] assms(1,2) ask by (auto cong: if_cong)
  then show ?thesis
    using ask assms(3)
    by (intro exI [of _ m']) (subst kloop_unfold, auto simp: walk_up_def do_next_def kern_simps get_node_Some)
qed

lemma down_visit:
  assumes "node_has_type (o_heap s) a (ws_type c a)" "d \<noteq> 0" "node_at (o_heap s) a = Some nd" "ask (ws_down c) (setup_walk c (o_heap s)) u a d = (u', dec)"
    and lock: "lock_cycle (ws_host c) (ws_should_lock c) s s1"
  shows "\<exists>m'. kloop (rnd c) (cfg a False m d u) s =
    (if dec = UACPI_ITERATION_DECISION_BREAK then Ret (IterOut UACPI_STATUS_OK u') s1
     else if dec = InvalidDecision then Ret (IterOut UACPI_STATUS_INVALID_ARGUMENT u') s
     else if dec = UACPI_ITERATION_DECISION_CONTINUE \<and> d \<noteq> ws_max_depth c \<and> nd_child nd \<noteq> 0 then kloop (rnd c) (cfg (nd_child nd) False m' (d + 1) u') s
     else kloop (rnd c) (cfg a True m' d u') s)"
proof -
  obtain m' where "rnd c (cfg a False m d u) s = (if dec = UACPI_ITERATION_DECISION_BREAK then Ret (Inr (IterOut UACPI_STATUS_OK u')) s1
     else do_next (ws_max_depth c) dec (cfg a False m' d u') s)"
    using round_asks [OF _ _ lock, of "cfg a False m d u" u' dec] assms(1,2,4) by (auto cong: if_cong)
  then show ?thesis
    using assms(3) by (intro exI [of _ m'], subst kloop_unfold, cases dec) (auto simp: do_next_def kern_simps get_node_Some)
qed

lemma loop_walks_tree:
  "lock_cycle (ws_host c) (ws_should_lock c) s s1 \<Longrightarrow> tree_rep (o_heap s) par nxt t \<Longrightarrow> \<forall>a \<in> set (tree_nodes t). node_has_type (o_heap s) a (ws_type c a) \<Longrightarrow> d \<noteq> 0 \<Longrightarrow> unat d + length (tree_nodes t) < 2 ^ 32
    \<Longrightarrow> \<exists>m'. kloop (rnd c) (cfg (ntree_root t) False m d u) s = goes_on s s1 (walk_tree (setup_walk c (o_heap s)) d t u)
      (\<lambda>u'. kloop (rnd c) (if nxt \<noteq> 0 then cfg nxt False m' d u' else cfg par True m' (d - 1) u') s)"
  and loop_walks_forest:
  "lock_cycle (ws_host c) (ws_should_lock c) s s1 \<Longrightarrow> forest_rep (o_heap s) par ts \<Longrightarrow> ts \<noteq> [] \<Longrightarrow> \<forall>a \<in> set (forest_nodes ts). node_has_type (o_heap s) a (ws_type c a) \<Longrightarrow> d \<noteq> 0
    \<Longrightarrow> unat d + length (forest_nodes ts) < 2 ^ 32
    \<Longrightarrow> \<exists>m'. kloop (rnd c) (cfg (first_ptr ts) False m d u) s = goes_on s s1 (walk_forest (setup_walk c (o_heap s)) d ts u) (\<lambda>u'. kloop (rnd c) (cfg par True m' (d - 1) u') s)"
proof (induction t and ts arbitrary: par nxt d m u and par d m u rule: tree_nodes_forest_nodes.induct)
  case (1 a ts)
  then obtain nd where nd: "node_at (o_heap s) a = Some nd" "nd_parent nd = par" "nd_next nd = nxt" "nd_child nd = first_ptr ts"
    and forest: "forest_rep (o_heap s) a ts" by (auto split: option.splits)
  have ty: "node_has_type (o_heap s) a (ws_type c a)" "\<forall>a \<in> set (forest_nodes ts). node_has_type (o_heap s) a (ws_type c a)" using 1 by auto
  have d1: "unat (d + 1) = unat d + 1" using 1(6) by (simp add: unat_word_ariths)
  then have d1': "d + 1 \<noteq> 0" "unat (d + 1) + length (forest_nodes ts) < 2 ^ 32" using 1(6) by (auto simp flip: unat_0_iff)
  obtain u1 dec where ask: "ask (ws_down c) (setup_walk c (o_heap s)) u a d = (u1, dec)" by (cases "ask (ws_down c) (setup_walk c (o_heap s)) u a d")
  obtain m1 where dv: "kloop (rnd c) (cfg a False m d u) s =
    (if dec = UACPI_ITERATION_DECISION_BREAK then Ret (IterOut UACPI_STATUS_OK u1) s1
     else if dec = InvalidDecision then Ret (IterOut UACPI_STATUS_INVALID_ARGUMENT u1) s
     else if dec = UACPI_ITERATION_DECISION_CONTINUE \<and> d \<noteq> ws_max_depth c \<and> nd_child nd \<noteq> 0 then kloop (rnd c) (cfg (nd_child nd) False m1 (d + 1) u1) s
     else kloop (rnd c) (cfg a True m1 d u1) s)" using down_visit [OF ty(1) 1(5) nd(1) ask 1(2)] by blast
  have wt: "walk_tree (setup_walk c (o_heap s)) d (NTree a ts) u =
    (if dec = UACPI_ITERATION_DECISION_BREAK then Inr (Stopped u1)
     else if dec = InvalidDecision then Inr (Refused u1)
     else if dec = UACPI_ITERATION_DECISION_CONTINUE \<and> d \<noteq> ws_max_depth c then
       (case walk_forest (setup_walk c (o_heap s)) (d + 1) ts u1 of Inr e \<Rightarrow> Inr e | Inl u2 \<Rightarrow> walk_up (setup_walk c (o_heap s)) d a u2)
     else walk_up (setup_walk c (o_heap s)) d a u1)" using ask by simp
  have uv: "\<exists>m'. kloop (rnd c) (cfg a True m d u) s = goes_on s s1 (walk_up (setup_walk c (o_heap s)) d a u)
    (\<lambda>u'. kloop (rnd c) (if nxt \<noteq> 0 then cfg nxt False m' d u' else cfg par True m' (d - 1) u') s)" for m u
    using up_visit [OF ty(1) 1(5) nd(1) 1(2), of m u] by (simp add: nd cong: if_cong)
  show ?case
  proof (cases "dec = UACPI_ITERATION_DECISION_CONTINUE \<and> d \<noteq> ws_max_depth c \<and> ts \<noteq> []")
    case True
    then have "first_ptr ts \<noteq> 0" using forest tree_rep_nonzero by (cases ts) auto
    then have "kloop (rnd c) (cfg a False m d u) s = kloop (rnd c) (cfg (first_ptr ts) False m1 (d + 1) u1) s" using dv True by (simp add: nd)
    moreover obtain m2 where "kloop (rnd c) (cfg (first_ptr ts) False m1 (d + 1) u1) s =
        goes_on s s1 (walk_forest (setup_walk c (o_heap s)) (d + 1) ts u1) (\<lambda>u'. kloop (rnd c) (cfg a True m2 d u') s)"
      using 1(1) [OF 1(2) forest _ ty(2) d1', of m1 u1] True by auto
    ultimately show ?thesis using uv [of m2] True wt by (cases "walk_forest (setup_walk c (o_heap s)) (d + 1) ts u1") auto
  next
    case False
    have "first_ptr ts = 0 \<longleftrightarrow> ts = []" using forest tree_rep_nonzero by (cases ts) auto
    then show ?thesis using False dv uv [of m1 u1] wt by (cases dec) (auto simp: nd)
  qed
next
  case (3 t ts)
  have rep: "tree_rep (o_heap s) par (first_ptr ts) t" "forest_rep (o_heap s) par ts" using 3(4) by auto
  have ty: "\<forall>a \<in> set (tree_nodes t). node_has_type (o_heap s) a (ws_type c a)" "\<forall>a \<in> set (forest_nodes ts). node_has_type (o_heap s) a (ws_type c a)"
    using 3(6) by auto
  have len: "unat d + length (tree_nodes t) < 2 ^ 32" "unat d + length (forest_nodes ts) < 2 ^ 32" using 3(8) by auto
  obtain m1 where t: "kloop (rnd c) (cfg (ntree_root t) False m d u) s = goes_on s s1 (walk_tree (setup_walk c (o_heap s)) d t u)
      (\<lambda>u'. kloop (rnd c) (if first_ptr ts \<noteq> 0 then cfg (first_ptr ts) False m1 d u' else cfg par True m1 (d - 1) u') s)"
    using 3(1) [OF 3(3) rep(1) ty(1) 3(7) len(1), of m u] by blast
  show ?case
  proof (cases "ts = []")
    case True
    then show ?thesis using t by (intro exI [of _ m1]) (cases "walk_tree (setup_walk c (o_heap s)) d t u"; simp)
  next
    case False
    then have "first_ptr ts \<noteq> 0" using rep(2) tree_rep_nonzero by (cases ts) auto
    then show ?thesis using t 3(2) [OF 3(3) rep(2) False ty(2) 3(7) len(2)] by (cases "walk_tree (setup_walk c (o_heap s)) d t u") auto
  qed
qed simp

lemma lock_keeps:
  assumes "lock_cycle host should_lock s s0"
  shows "o_heap s = o_heap s0"
  using assms by (auto simp: lock_cycle_def uacpi_namespace_read_lock_def split: if_splits prod.splits)

text \<open>The start of the function: from the checks to the loop, whose result \<open>for_each_out\<close> treats.\<close>

definition for_each_out :: "'u iteration_setup \<Rightarrow> 'u iteration_end \<Rightarrow> (uacpi_status \<times> 'u) nkern" where
  "for_each_out c e = (case e of IterReturn ret user \<Rightarrow> kret (ret, user)
     | IterOut ret user \<Rightarrow> kseq (if ws_should_lock c then uacpi_namespace_read_unlock (ws_host c) else kret UACPI_STATUS_OK) (kret (ret, user)))"

definition for_each_loop :: "'u iteration_setup \<Rightarrow> u64 \<Rightarrow> 'u \<Rightarrow> 'u iteration_end nkern" where
  "for_each_loop c p u = (if p = 0 then kret (IterOut UACPI_STATUS_OK u) else kloop (rnd c) (cfg p False False 1 u))"

lemma for_each_start:
  assumes "node_at (o_heap s) a = Some nd" "a \<noteq> 0" "ws_max_depth c \<noteq> 0" "ws_down c \<noteq> None \<or> ws_up c \<noteq> None"
    "ts_init_level (o_tables s0) \<ge> UACPI_INIT_LEVEL_SUBSYSTEM_INITIALIZED" "lock_cycle (ws_host c) (ws_should_lock c) s s0"
  shows "uacpi_namespace_do_for_each_child (ws_host c) a (lift_cb (ws_down c)) (lift_cb (ws_up c)) (ws_mask c) (ws_max_depth c)
      (ws_should_lock c) (ws_permanent_only c) u s0 = kbind (for_each_loop c (nd_child nd) u) (for_each_out c) s"
proof -
  have lock: "(if ws_should_lock c then uacpi_namespace_read_lock (ws_host c) else kret UACPI_STATUS_OK) s0 = Ret UACPI_STATUS_OK s"
    using assms(6) by (auto simp: lock_cycle_def split: if_splits)
  have no: "(ts_init_level (o_tables s0) < UACPI_INIT_LEVEL_SUBSYSTEM_INITIALIZED) = False"
    "(lift_cb (ws_down c) = None \<and> lift_cb (ws_up c) = None) = False" "(a = 0 \<or> ws_max_depth c = 0) = False"
    "(UACPI_STATUS_OK \<noteq> UACPI_STATUS_OK) = False" using assms by (auto simp: lift_cb_def)
  show ?thesis
    unfolding uacpi_namespace_do_for_each_child_def for_each_loop_def for_each_out_def rnd_def kbind_cases(1) [of "kget _", OF kget_apply] no if_False
      kbind_cases(1) [of "if ws_should_lock c then uacpi_namespace_read_lock (ws_host c) else kret UACPI_STATUS_OK", OF lock]
      kbind_cases(1) [of "cell_get as_node a", OF get_node_Some [OF assms(1)]] ..
qed

lemma for_each_loop_walks:
  assumes "forest_rep (o_heap s) par ts" "\<forall>a \<in> set (forest_nodes ts). node_has_type (o_heap s) a (ws_type c a)"
    "length (forest_nodes ts) < 2 ^ 32 - 1" "lock_cycle (ws_host c) (ws_should_lock c) s s0"
  shows "for_each_loop c (first_ptr ts) u s = goes_on s s0 (walk_forest (setup_walk c (o_heap s)) 1 ts u) (\<lambda>u'. Ret (IterOut UACPI_STATUS_OK u') s)"
proof (cases "ts = []")
  case True
  then show ?thesis by (simp add: for_each_loop_def)
next
  case False
  then have ptr: "first_ptr ts \<noteq> 0" using assms(1) tree_rep_nonzero by (cases ts) auto
  have len: "unat (1 :: u32) + length (forest_nodes ts) < 2 ^ 32" using assms(3) by simp
  have finished: "kloop (rnd c) (cfg a up m 0 v) s = Ret (IterOut UACPI_STATUS_OK v) s" for a up m v
    by (subst kloop_unfold) (simp add: rnd_def for_each_child_round_def)
  show ?thesis using loop_walks_forest [OF assms(4,1) False assms(2) _ len, of False u] ptr by (auto simp: for_each_loop_def finished)
qed

lemma do_for_each_child_walks:
  assumes "tree_rep (o_heap s0) par nxt t" "\<forall>a \<in> set (forest_nodes (ntree_children t)). node_has_type (o_heap s0) a (ws_type c a)"
    "length (tree_nodes t) < 2 ^ 32" "ws_max_depth c \<noteq> 0" "ws_down c \<noteq> None \<or> ws_up c \<noteq> None"
    "ts_init_level (o_tables s0) \<ge> UACPI_INIT_LEVEL_SUBSYSTEM_INITIALIZED" "lock_cycle (ws_host c) (ws_should_lock c) s s0"
  shows "uacpi_namespace_do_for_each_child (ws_host c) (ntree_root t) (lift_cb (ws_down c)) (lift_cb (ws_up c)) (ws_mask c) (ws_max_depth c)
      (ws_should_lock c) (ws_permanent_only c) u s0 =
    (case walk_forest (setup_walk c (o_heap s0)) 1 (ntree_children t) u of
       Inl u' \<Rightarrow> Ret (UACPI_STATUS_OK, u') s0
     | Inr (Refused u') \<Rightarrow> Ret (UACPI_STATUS_INVALID_ARGUMENT, u') s0
     | Inr (Stopped u') \<Rightarrow> kseq (if ws_should_lock c then uacpi_namespace_read_unlock (ws_host c) else kret UACPI_STATUS_OK) (kret (UACPI_STATUS_OK, u')) s0)"
proof -
  let ?ts = "ntree_children t"
  have heap: "o_heap s = o_heap s0" by (rule lock_keeps [OF assms(7)])
  obtain nd where nd: "node_at (o_heap s) (ntree_root t) = Some nd" "nd_child nd = first_ptr ?ts" "ntree_root t \<noteq> 0"
    "forest_rep (o_heap s) (ntree_root t) ?ts" using assms(1) unfolding heap by (rule tree_rep_node)
  have len: "length (forest_nodes ?ts) < 2 ^ 32 - 1" using assms(3) by (cases t) simp
  have "for_each_loop c (first_ptr ?ts) u s = goes_on s s0 (walk_forest (setup_walk c (o_heap s0)) 1 ?ts u) (\<lambda>u'. Ret (IterOut UACPI_STATUS_OK u') s)"
    using for_each_loop_walks [OF nd(4) _ len assms(7)] assms(2) heap by simp
  moreover have "for_each_out c (IterOut ret v) s = Ret (ret, v) s0" for ret v
    using assms(7) by (auto simp: for_each_out_def lock_cycle_def kern_simps split: if_splits)
  ultimately show ?thesis
    using for_each_start [OF nd(1,3) assms(4,5,6,7), of u]
    by (auto simp: nd(2) kbind_def for_each_out_def split: sum.splits walk_end.splits)
qed

section \<open>The lock around callbacks\<close>

text \<open>A lock with \<open>n\<close> readers, free for another one, whose mutexes the host always gives.\<close>

definition lock_free :: "ns_host \<Rightarrow> nat \<Rightarrow> nat \<Rightarrow> nstate \<Rightarrow> bool" where
  "lock_free host r w s \<longleftrightarrow> (\<forall>m timeout. kernel_acquire_mutex (nh_mutex host) m timeout = UACPI_STATUS_OK) \<and> r \<noteq> w
     \<and> rw_read_mutex (namespace_lock s) = Some r \<and> rw_write_mutex (namespace_lock s) = Some w \<and> r \<notin> native_held (ns_world s)
     \<and> (rw_num_readers (namespace_lock s) = 0 \<longrightarrow> w \<notin> native_held (ns_world s)) \<and> rw_num_readers (namespace_lock s) \<noteq> -1"

definition with_reader :: "nat \<Rightarrow> nstate \<Rightarrow> nstate" where
  "with_reader w s = s\<lparr>namespace_lock := (namespace_lock s)\<lparr>rw_num_readers := rw_num_readers (namespace_lock s) + 1\<rparr>,
     ns_world := (if rw_num_readers (namespace_lock s) = 0 then (ns_world s)\<lparr>native_held := insert w (native_held (ns_world s))\<rparr> else ns_world s)\<rparr>"

lemmas lock_defs = uacpi_namespace_read_lock_def uacpi_namespace_read_unlock_def uacpi_rw_lock_read_def uacpi_rw_unlock_read_def
  acquire_native_mutex_def release_native_mutex_def host_acquire_def host_release_def

lemma lock_free_cycle:
  assumes "lock_free host r w s"
  shows "lock_cycle host True (with_reader w s) s"
proof -
  have ne: "rw_num_readers (namespace_lock s) + 1 \<noteq> 0" using assms by (simp add: lock_free_def eq_neg_iff_add_eq_0 [symmetric])
  have "insert r (native_held (ns_world s)) - {r} = native_held (ns_world s)"
    "insert w (insert r (native_held (ns_world s))) - {r} = insert w (native_held (ns_world s))"
    "rw_num_readers (namespace_lock s) = 0 \<Longrightarrow> insert r (insert w (native_held (ns_world s))) - {w} - {r} = native_held (ns_world s)"
    using assms by (auto simp: lock_free_def)
  with ne assms show ?thesis
    by (auto simp: lock_cycle_def lock_free_def with_reader_def lock_defs Let_def split: prod.splits if_splits)
qed

text \<open>
  C19: the iteration visits the subtree as the recursive walk does: every node that is selected gets the descending callback before
  everything below it and the ascending callback after it; nodes below one that answers with \<open>NEXT_PEER\<close>, below the maximal depth or below a
  temporary node are passed over; an unknown decision ends the iteration with an error. The state is as before, except
  when a callback answers with \<open>BREAK\<close>: then the lock is released once more.
\<close>

theorem for_each_child_walks:
  assumes "tree_rep (o_heap s) par nxt t" "\<forall>a \<in> set (forest_nodes (ntree_children t)). node_has_type (o_heap s) a (ty a)"
    "length (tree_nodes t) < 2 ^ 32" "max_depth \<noteq> 0" "down \<noteq> None \<or> up \<noteq> None"
    "ts_init_level (o_tables s) \<ge> UACPI_INIT_LEVEL_SUBSYSTEM_INITIALIZED" "lock_free host r w s"
  shows "uacpi_namespace_for_each_child host (ntree_root t) (lift_cb down) (lift_cb up) type_mask max_depth u s =
    (case walk_forest \<lparr>wk_down = down, wk_up = up, wk_sel = (\<lambda>a. object_type_bit (ty a) AND type_mask \<noteq> 0),
        wk_skip = node_temporary (o_heap s), wk_max_depth = max_depth\<rparr> 1 (ntree_children t) u of
       Inl u' \<Rightarrow> Ret (UACPI_STATUS_OK, u') s
     | Inr (Refused u') \<Rightarrow> Ret (UACPI_STATUS_INVALID_ARGUMENT, u') s
     | Inr (Stopped u') \<Rightarrow> kseq (uacpi_namespace_read_unlock host) (kret (UACPI_STATUS_OK, u')) s)"
proof -
  define c where "c = \<lparr>ws_host = host, ws_down = down, ws_up = up, ws_mask = type_mask, ws_max_depth = max_depth, ws_should_lock = True,
     ws_permanent_only = True, ws_type = ty\<rparr>"
  have "setup_walk c (o_heap s) = \<lparr>wk_down = down, wk_up = up, wk_sel = (\<lambda>a. object_type_bit (ty a) AND type_mask \<noteq> 0),
        wk_skip = node_temporary (o_heap s), wk_max_depth = max_depth\<rparr>" by (simp add: setup_walk_def c_def)
  with do_for_each_child_walks [of s par nxt t c "with_reader w s" u] assms lock_free_cycle [OF assms(7)]
  show ?thesis by (auto simp: uacpi_namespace_for_each_child_def c_def split: sum.splits walk_end.splits)
qed

text \<open>
  C31: stopping an iteration releases the namespace lock once too often. When the callback of
  \<open>uacpi_namespace_for_each_child\<close> answers with \<open>BREAK\<close> at the first child, the call succeeds, but the count of readers is one less than
  before. A single other reader loses the write mutex that protects it; and if there was none, the count wraps round, and the next reader gets
  in without the write mutex, so that a writer can enter beside it.
\<close>

theorem break_unlocks_twice:
  assumes "tree_rep (o_heap s) par nxt (NTree a (t # ts))" "\<forall>b \<in> set (forest_nodes (t # ts)). node_has_type (o_heap s) b (ty b)"
    "length (forest_nodes (t # ts)) < 2 ^ 32 - 1" "ts_init_level (o_tables s) \<ge> UACPI_INIT_LEVEL_SUBSYSTEM_INITIALIZED" "lock_free host r w s"
    "max_depth \<noteq> 0" "object_type_bit (ty (ntree_root t)) AND type_mask \<noteq> 0" "\<not> node_temporary (o_heap s) (ntree_root t)"
    "f u (ntree_root t) 1 = (u', UACPI_ITERATION_DECISION_BREAK)"
  shows "\<exists>s2. uacpi_namespace_for_each_child host a (lift_cb (Some f)) (lift_cb up) type_mask max_depth u s = Ret (UACPI_STATUS_OK, u') s2
    \<and> rw_num_readers (namespace_lock s2) = rw_num_readers (namespace_lock s) - 1
    \<and> (rw_num_readers (namespace_lock s) = 1 \<longrightarrow> w \<notin> native_held (ns_world s2))
    \<and> (rw_num_readers (namespace_lock s) = 0 \<longrightarrow>
         (\<exists>s3. uacpi_namespace_read_lock host s2 = Ret UACPI_STATUS_OK s3 \<and> w \<notin> native_held (ns_world s3)))"
proof -
  define c where "c = \<lparr>ws_host = host, ws_down = Some f, ws_up = up, ws_mask = type_mask, ws_max_depth = max_depth, ws_should_lock = True,
     ws_permanent_only = True, ws_type = ty\<rparr>"
  obtain b us where t: "t = NTree b us" by (cases t)
  have "ask (Some f) (setup_walk c (o_heap s)) u b 1 = (u', UACPI_ITERATION_DECISION_BREAK)"
    using assms(7,8,9) by (simp add: ask_def t) (simp add: c_def)
  then have "walk_forest (setup_walk c (o_heap s)) 1 (t # ts) u = Inr (Stopped u')" by (simp add: t) (simp add: c_def)
  with do_for_each_child_walks [of s par nxt "NTree a (t # ts)" c "with_reader w s" u] assms(1-6) lock_free_cycle [OF assms(5)]
  have run: "uacpi_namespace_for_each_child host a (lift_cb (Some f)) (lift_cb up) type_mask max_depth u s
    = kseq (uacpi_namespace_read_unlock host) (kret (UACPI_STATUS_OK, u')) s"
    by (simp add: uacpi_namespace_for_each_child_def c_def)
  let ?n = "rw_num_readers (namespace_lock s)"
  define s2 where "s2 = s\<lparr>namespace_lock := (namespace_lock s)\<lparr>rw_num_readers := ?n - 1\<rparr>,
    ns_world := (ns_world s)\<lparr>native_held := (if ?n = 1 then native_held (ns_world s) - {w} else native_held (ns_world s))\<rparr>\<rparr>"
  have sets: "insert r (native_held (ns_world s)) - {r} = native_held (ns_world s)"
    "insert r (native_held (ns_world s)) - {w} - {r} = native_held (ns_world s) - {w}" using assms(5) by (auto simp: lock_free_def)
  have "uacpi_namespace_read_unlock host s = Ret UACPI_STATUS_OK s2"
    using assms(5) sets by (auto simp: lock_free_def lock_defs Let_def s2_def)
  moreover have "\<exists>s3. uacpi_namespace_read_lock host s2 = Ret UACPI_STATUS_OK s3 \<and> w \<notin> native_held (ns_world s3)" if "?n = 0"
    using assms(5) that by (auto simp: lock_free_def lock_defs Let_def s2_def)
  moreover have "w \<notin> native_held (ns_world s2)" if "?n = 1" using that by (simp add: s2_def)
  moreover have "rw_num_readers (namespace_lock s2) = ?n - 1" by (simp add: s2_def)
  ultimately show ?thesis using run by (simp add: kern_simps)
qed

definition demo_type :: "u64 \<Rightarrow> uacpi_object_type" where
  "demo_type b = (if b = 17 then UACPI_OBJECT_UNINITIALIZED else UACPI_OBJECT_INTEGER)"

lemma demo_types: "\<forall>b \<in> set (forest_nodes [NTree 17 [NTree 0x100 []]]). node_has_type (o_heap demo_ns) b (demo_type b)"
proof -
  have u: "unwraps (o_heap demo_ns) 0x101 0x101 (zero_object\<lparr>ob_type := UACPI_OBJECT_INTEGER\<rparr>)" "unwraps (o_heap demo_ns) 0x102 0x102 zero_object"
    by (auto intro!: unwraps.here simp: demo_ns_def demo_nodes object_at_def unwrapped_def zero_object_def)
  obtain nd1 nd2 where "node_at (o_heap demo_ns) 17 = Some nd1" "nd_object nd1 = 0x102" "node_at (o_heap demo_ns) 0x100 = Some nd2" "nd_object nd2 = 0x101"
    by (simp add: demo_ns_def demo_nodes)
  with u have "node_has_type (o_heap demo_ns) 17 (ob_type zero_object)"
    "node_has_type (o_heap demo_ns) 0x100 (ob_type (zero_object\<lparr>ob_type := UACPI_OBJECT_INTEGER\<rparr>))"
    unfolding node_has_type_def by force+
  then show ?thesis by (simp add: demo_type_def zero_object_def)
qed

lemma demo_lock: "lock_free demo_ns_host 1 2 demo_ns"
  by (simp add: lock_free_def demo_ns_def demo_ns_host_def quiet_host_def mworld_boot_def)

lemma demo_level: "ts_init_level (o_tables demo_ns) \<ge> UACPI_INIT_LEVEL_SUBSYSTEM_INITIALIZED"
  by (simp add: demo_ns_def demo_state_def UACPI_INIT_LEVEL_SUBSYSTEM_INITIALIZED_def)

lemma any_type: "object_type_bit y AND UACPI_OBJECT_ANY_BIT \<noteq> 0"
  by (cases y) (simp_all add: object_type_bit_def UACPI_OBJECT_ANY_BIT_def)

theorem break_unlocks_twice_witness:
  "\<exists>s2. uacpi_namespace_for_each_child demo_ns_host 16 (lift_cb (Some (\<lambda>u a d. (u + 1, UACPI_ITERATION_DECISION_BREAK)))) (lift_cb None)
      UACPI_OBJECT_ANY_BIT UACPI_MAX_DEPTH_ANY (0 :: nat) demo_ns = Ret (UACPI_STATUS_OK, 1) s2
    \<and> rw_num_readers (namespace_lock s2) = -1"
proof -
  have rep: "tree_rep (o_heap demo_ns) 0 0 (NTree 16 [NTree 17 [NTree 0x100 []]])" using demo_rep by (simp only: demo_tree_def)
  have "\<not> node_temporary (o_heap demo_ns) 17"
    by (simp add: node_temporary_def demo_ns_def demo_nodes UACPI_NAMESPACE_NODE_PREDEFINED_def UACPI_NAMESPACE_NODE_FLAG_TEMPORARY_def)
  moreover have "rw_num_readers (namespace_lock demo_ns) = 0" by (simp add: demo_ns_def)
  ultimately show ?thesis
    using break_unlocks_twice [OF rep demo_types _ demo_level demo_lock, of UACPI_MAX_DEPTH_ANY UACPI_OBJECT_ANY_BIT
        "\<lambda>(u :: nat) a d. (u + 1, UACPI_ITERATION_DECISION_BREAK)" 0 1 None] any_type [of "demo_type 17"]
    by (auto simp: UACPI_MAX_DEPTH_ANY_def)
qed

text \<open>A walk that collects every node goes through them in preorder.\<close>

lemma walk_collects:
  assumes "wk_down w = Some (\<lambda>u a d. (u @ [a], UACPI_ITERATION_DECISION_CONTINUE))" "wk_up w = None" "wk_max_depth w = UACPI_MAX_DEPTH_ANY"
  shows "\<forall>a \<in> set (tree_nodes t). wk_sel w a \<and> \<not> wk_skip w a \<Longrightarrow> unat d + length (tree_nodes t) < 2 ^ 32 - 1
      \<Longrightarrow> walk_tree w d t u = Inl (u @ tree_nodes t)"
    and "\<forall>a \<in> set (forest_nodes ts). wk_sel w a \<and> \<not> wk_skip w a \<Longrightarrow> unat d + length (forest_nodes ts) < 2 ^ 32 - 1
      \<Longrightarrow> walk_forest w d ts u = Inl (u @ forest_nodes ts)"
proof (induction t and ts arbitrary: d u and d u rule: tree_nodes_forest_nodes.induct)
  case (1 a ts)
  have d1: "unat (d + 1) = unat d + 1" using 1(3) by (simp add: unat_word_ariths)
  have "d \<noteq> UACPI_MAX_DEPTH_ANY"
  proof
    assume "d = UACPI_MAX_DEPTH_ANY"
    then have "unat d = 2 ^ 32 - 1" by (simp add: UACPI_MAX_DEPTH_ANY_def)
    with 1(3) show False by simp
  qed
  then show ?case using 1 d1 assms by (simp add: ask_def walk_up_def)
qed (simp_all add: assms)

text \<open>
  With a callback that lets the iteration continue, \<open>uacpi_namespace_for_each_child_simple\<close> calls it once for every permanent node below
  the given one, in preorder, and leaves the state, the lock included, as it was.
\<close>

theorem for_each_child_preorder:
  assumes "tree_rep (o_heap s) par nxt t" "\<forall>a \<in> set (forest_nodes (ntree_children t)). node_has_type (o_heap s) a (ty a) \<and> \<not> node_temporary (o_heap s) a"
    "length (tree_nodes t) < 2 ^ 32 - 1" "ts_init_level (o_tables s) \<ge> UACPI_INIT_LEVEL_SUBSYSTEM_INITIALIZED" "lock_free host r w s"
  shows "uacpi_namespace_for_each_child_simple host (ntree_root t) (lift_cb (Some (\<lambda>u a d. (u @ [a], UACPI_ITERATION_DECISION_CONTINUE)))) [] s
    = Ret (UACPI_STATUS_OK, forest_nodes (ntree_children t)) s"
proof -
  define c :: "u64 list iteration_setup" where "c = \<lparr>ws_host = host, ws_down = Some (\<lambda>u a d. (u @ [a], UACPI_ITERATION_DECISION_CONTINUE)), ws_up = None,
     ws_mask = UACPI_OBJECT_ANY_BIT, ws_max_depth = UACPI_MAX_DEPTH_ANY, ws_should_lock = True, ws_permanent_only = True, ws_type = ty\<rparr>"
  let ?w = "setup_walk c (o_heap s)"
  have "walk_forest ?w 1 (ntree_children t) [] = Inl ([] @ forest_nodes (ntree_children t))"
    using assms(2,3) any_type by (intro walk_collects(2)) (cases t; auto simp: c_def)+
  with do_for_each_child_walks [of s par nxt t c "with_reader w s" "[]"] assms lock_free_cycle [OF assms(5)]
  show ?thesis by (simp add: uacpi_namespace_for_each_child_simple_def c_def UACPI_MAX_DEPTH_ANY_def lift_cb_def)
qed

lemma demo_permanent: "\<forall>b \<in> set (forest_nodes [NTree 17 [NTree 0x100 []]]). \<not> node_temporary (o_heap demo_ns) b"
  by (simp add: node_temporary_def demo_ns_def demo_nodes UACPI_NAMESPACE_NODE_PREDEFINED_def UACPI_NAMESPACE_NODE_FLAG_TEMPORARY_def)

theorem for_each_child_preorder_witness:
  "uacpi_namespace_for_each_child_simple demo_ns_host 16 (lift_cb (Some (\<lambda>u a d. (u @ [a], UACPI_ITERATION_DECISION_CONTINUE)))) [] demo_ns
    = Ret (UACPI_STATUS_OK, [17, 0x100]) demo_ns"
proof -
  have "length (tree_nodes demo_tree) < 2 ^ 32 - 1" by (simp add: demo_tree_def)
  with demo_types demo_permanent show ?thesis
    using for_each_child_preorder [OF demo_rep _ _ demo_level demo_lock, of demo_type] by (auto simp: demo_tree_def)
qed

theorem for_each_child_walks_witness:
  "uacpi_namespace_for_each_child demo_ns_host 16 (lift_cb (Some (\<lambda>u a d. (u @ [(a, d)], UACPI_ITERATION_DECISION_CONTINUE))))
      (lift_cb (Some (\<lambda>u a d. (u @ [(a, 0)], UACPI_ITERATION_DECISION_CONTINUE)))) UACPI_OBJECT_ANY_BIT UACPI_MAX_DEPTH_ANY [] demo_ns
    = Ret (UACPI_STATUS_OK, [(17, 1), (0x100, 2), (0x100, 0), (17, 0)]) demo_ns"
proof -
  let ?down = "Some (\<lambda>u a d. (u @ [(a, d)], UACPI_ITERATION_DECISION_CONTINUE))" and ?up = "Some (\<lambda>u a d. (u @ [(a, 0)], UACPI_ITERATION_DECISION_CONTINUE))"
  have deep: "(1 :: u32) \<noteq> UACPI_MAX_DEPTH_ANY" "(2 :: u32) \<noteq> UACPI_MAX_DEPTH_ANY" "UACPI_MAX_DEPTH_ANY \<noteq> 0" by (simp_all add: UACPI_MAX_DEPTH_ANY_def)
  have "walk_forest \<lparr>wk_down = ?down, wk_up = ?up, wk_sel = (\<lambda>a. object_type_bit (demo_type a) AND UACPI_OBJECT_ANY_BIT \<noteq> 0),
      wk_skip = node_temporary (o_heap demo_ns), wk_max_depth = UACPI_MAX_DEPTH_ANY\<rparr> 1 [NTree 17 [NTree 0x100 []]] []
    = Inl [(17 :: u64, 1 :: u32), (0x100, 2), (0x100, 0), (17, 0)]"
    using demo_permanent deep by (simp add: ask_def walk_up_def any_type)
  then show ?thesis
    using for_each_child_walks [of demo_ns 0 0 demo_tree demo_type UACPI_MAX_DEPTH_ANY ?down ?up demo_ns_host 1 2 UACPI_OBJECT_ANY_BIT "[]"]
      demo_rep demo_types demo_level demo_lock deep
    by (simp add: demo_tree_def)
qed

end
