(* ===== verification/UacpiNamespaceEdit.thy ===== *)
theory UacpiNamespaceEdit
  imports UacpiNamespaceTree
begin

text \<open>
  Installing and uninstalling nodes change the tree that the namespace represents as adding a last child and removing a leaf do.
\<close>

section \<open>Editing trees\<close>

fun subtrees :: "ntree \<Rightarrow> ntree list" and forest_subtrees :: "ntree list \<Rightarrow> ntree list" where
  "subtrees (NTree a ts) = NTree a ts # forest_subtrees ts"
| "forest_subtrees [] = []"
| "forest_subtrees (t # ts) = subtrees t @ forest_subtrees ts"

fun at_node :: "u64 \<Rightarrow> (ntree list \<Rightarrow> ntree list) \<Rightarrow> ntree \<Rightarrow> ntree" where
  "at_node p f (NTree a ts) = NTree a (if a = p then f ts else map (at_node p f) ts)"

definition add_child :: "u64 \<Rightarrow> u64 \<Rightarrow> ntree \<Rightarrow> ntree" where
  "add_child p c = at_node p (\<lambda>ts. ts @ [NTree c []])"

definition remove_child :: "u64 \<Rightarrow> u64 \<Rightarrow> ntree \<Rightarrow> ntree" where
  "remove_child p b = at_node p (filter (\<lambda>t. ntree_root t \<noteq> b))"

lemma at_node_root [simp]: "ntree_root (at_node p f t) = ntree_root t"
  by (cases t) simp

lemma first_ptr_map [simp]: "first_ptr (map (at_node p f) ts) = first_ptr ts"
  by (cases ts) simp_all

lemma forest_nodes_append [simp]: "forest_nodes (ts @ us) = forest_nodes ts @ forest_nodes us"
  by (induction ts) auto

lemma forest_rep_append_prefix: "forest_rep h par (ts @ us) \<Longrightarrow> forest_rep h par us"
  by (induction ts) auto

lemma forest_root_nonzero: "forest_rep h par ts \<Longrightarrow> t \<in> set ts \<Longrightarrow> ntree_root t \<noteq> 0"
  by (induction ts) (auto simp: tree_rep_nonzero)

lemma find_SomeD: "find P xs = Some x \<Longrightarrow> x \<in> set xs \<and> P x"
  by (induction xs) (auto split: if_splits)

lemma at_node_absent:
  "p \<notin> set (tree_nodes t) \<Longrightarrow> at_node p f t = t"
  "p \<notin> set (forest_nodes ts) \<Longrightarrow> map (at_node p f) ts = ts"
  by (induction t and ts rule: tree_nodes_forest_nodes.induct) auto

lemma subtree_nodes:
  "u \<in> set (subtrees t) \<Longrightarrow> set (tree_nodes u) \<subseteq> set (tree_nodes t)"
  "u \<in> set (forest_subtrees ts) \<Longrightarrow> set (tree_nodes u) \<subseteq> set (forest_nodes ts)"
  by (induction t and ts rule: tree_nodes_forest_nodes.induct) auto

lemma node_subtree:
  "p \<in> set (tree_nodes t) \<Longrightarrow> \<exists>us. NTree p us \<in> set (subtrees t)"
  "p \<in> set (forest_nodes ts) \<Longrightarrow> \<exists>us. NTree p us \<in> set (forest_subtrees ts)"
  by (induction t and ts rule: tree_nodes_forest_nodes.induct) auto

lemma subtree_rep:
  "tree_rep h par nxt t \<Longrightarrow> u \<in> set (subtrees t) \<Longrightarrow> \<exists>par nxt. tree_rep h par nxt u"
  "forest_rep h par ts \<Longrightarrow> u \<in> set (forest_subtrees ts) \<Longrightarrow> \<exists>par nxt. tree_rep h par nxt u"
proof (induction t and ts arbitrary: par nxt and par rule: tree_nodes_forest_nodes.induct)
  case (1 a ts)
  then show ?case by (cases "u = NTree a ts") (blast, auto)
qed auto

lemma subtree_distinct:
  "distinct (tree_nodes t) \<Longrightarrow> u \<in> set (subtrees t) \<Longrightarrow> distinct (tree_nodes u)"
  "distinct (forest_nodes ts) \<Longrightarrow> u \<in> set (forest_subtrees ts) \<Longrightarrow> distinct (tree_nodes u)"
  by (induction t and ts rule: tree_nodes_forest_nodes.induct) auto

lemma subtree_apart:
  assumes "distinct (forest_nodes (t # ts))"
  shows "NTree p us \<in> set (subtrees t) \<Longrightarrow> \<forall>a \<in> set (forest_nodes ts). a \<notin> set (p # forest_nodes us)"
    "NTree p us \<in> set (forest_subtrees ts) \<Longrightarrow> \<forall>a \<in> set (tree_nodes t). a \<notin> set (p # forest_nodes us)"
proof -
  have d: "set (tree_nodes t) \<inter> set (forest_nodes ts) = {}" using assms by simp
  have n: "set (p # forest_nodes us) = set (tree_nodes (NTree p us))" by simp
  show "NTree p us \<in> set (subtrees t) \<Longrightarrow> \<forall>a \<in> set (forest_nodes ts). a \<notin> set (p # forest_nodes us)"
    "NTree p us \<in> set (forest_subtrees ts) \<Longrightarrow> \<forall>a \<in> set (tree_nodes t). a \<notin> set (p # forest_nodes us)"
    unfolding n using subtree_nodes(1) [of "NTree p us" t] subtree_nodes(2) [of "NTree p us" ts] d by blast+
qed

text \<open>
  A heap in which the subtree at \<open>p\<close> has the children \<open>f us\<close>, and in which nothing else of the tree changed, represents the edited tree.
\<close>

lemma at_node_rep:
  assumes edit: "\<And>par nxt. tree_rep h par nxt (NTree p us) \<Longrightarrow> tree_rep h' par nxt (NTree p (f us))"
  shows "tree_rep h par nxt t \<Longrightarrow> distinct (tree_nodes t) \<Longrightarrow> NTree p us \<in> set (subtrees t)
      \<Longrightarrow> \<forall>a \<in> set (tree_nodes t) - set (p # forest_nodes us). node_at h' a = node_at h a
      \<Longrightarrow> tree_rep h' par nxt (at_node p f t)"
    and "forest_rep h par ts \<Longrightarrow> distinct (forest_nodes ts) \<Longrightarrow> NTree p us \<in> set (forest_subtrees ts)
      \<Longrightarrow> \<forall>a \<in> set (forest_nodes ts) - set (p # forest_nodes us). node_at h' a = node_at h a
      \<Longrightarrow> forest_rep h' par (map (at_node p f) ts)"
proof (induction t and ts arbitrary: par nxt and par rule: tree_nodes_forest_nodes.induct)
  case (1 a ts)
  show ?case
  proof (cases "a = p")
    case True
    then have "NTree p us = NTree a ts" using 1(3,4) subtree_nodes(2) [of "NTree p us" ts] by auto
    then show ?thesis using edit [of par nxt] 1(2) by simp
  next
    case False
    then have sub: "NTree p us \<in> set (forest_subtrees ts)" using 1(4) by simp
    then have "set (p # forest_nodes us) \<subseteq> set (forest_nodes ts)" using subtree_nodes(2) [OF sub] by simp
    then have "a \<notin> set (p # forest_nodes us)" using 1(3) by auto
    then have "node_at h' a = node_at h a" using 1(5) by simp
    then show ?thesis using 1 sub False by (simp split: option.splits)
  qed
next
  case (3 t ts)
  show ?case
  proof (cases "NTree p us \<in> set (subtrees t)")
    case True
    have out: "\<forall>a \<in> set (forest_nodes ts). a \<notin> set (p # forest_nodes us)" by (rule subtree_apart(1) [OF 3(4) True])
    then have "map (at_node p f) ts = ts" by (intro at_node_absent) auto
    moreover have "forest_rep h' par ts = forest_rep h par ts" using out 3(6) by (intro forest_rep_cong) simp
    ultimately show ?thesis using 3 True by simp
  next
    case False
    then have sub: "NTree p us \<in> set (forest_subtrees ts)" using 3(5) by simp
    have out: "\<forall>a \<in> set (tree_nodes t). a \<notin> set (p # forest_nodes us)" by (rule subtree_apart(2) [OF 3(4) sub])
    then have "at_node p f t = t" by (intro at_node_absent) auto
    moreover have "tree_rep h' par (first_ptr ts) t = tree_rep h par (first_ptr ts) t" using out 3(6) by (intro tree_rep_cong) simp
    ultimately show ?thesis using 3 sub by simp
  qed
qed simp

text \<open>Siblings can be cut behind one of them and continued with others.\<close>

lemma relink_siblings:
  assumes "forest_rep h par (vs @ v # xs)" "distinct (forest_nodes (vs @ [v]))" "node_at h (ntree_root v) = Some nd"
    "node_at h' (ntree_root v) = Some (nd\<lparr>nd_next := first_ptr ys\<rparr>)"
    "\<forall>a \<in> set (forest_nodes (vs @ [v])). a \<noteq> ntree_root v \<longrightarrow> node_at h' a = node_at h a" "forest_rep h' par ys"
  shows "forest_rep h' par (vs @ v # ys)"
  using assms
proof (induction vs)
  case Nil
  obtain b us where v: "v = NTree b us" by (cases v)
  have "\<forall>a \<in> set (forest_nodes us). node_at h' a = node_at h a" using Nil(2,5) v by auto
  then have "forest_rep h' b us = forest_rep h b us" by (intro forest_rep_cong) simp
  then show ?case using Nil v by simp
next
  case (Cons t vs)
  have "ntree_root v \<notin> set (tree_nodes t)" using Cons.prems(2) ntree_root_in [of v] by (fastforce simp del: ntree_root_in)
  then have "\<forall>a \<in> set (tree_nodes t). node_at h' a = node_at h a" using Cons.prems(5) by (metis UnI1 append_Cons forest_nodes.simps(2) set_append)
  then have "tree_rep h' par p t = tree_rep h par p t" for p by (intro tree_rep_cong) simp
  moreover have "first_ptr (vs @ v # ys) = first_ptr (vs @ v # xs)" by (cases vs) simp_all
  ultimately show ?case using Cons by simp
qed


text \<open>The node that points to what follows the children \<open>vs\<close> of \<open>p\<close>, and what it is with another pointer.\<close>

definition link :: "u64 \<Rightarrow> ntree list \<Rightarrow> u64" where
  "link p vs = (if vs = [] then p else ntree_root (last vs))"

definition relinked :: "ntree list \<Rightarrow> u64 \<Rightarrow> uacpi_namespace_node \<Rightarrow> uacpi_namespace_node" where
  "relinked vs q nd = (if vs = [] then nd\<lparr>nd_child := q\<rparr> else nd\<lparr>nd_next := q\<rparr>)"

lemma link_in: "link p vs \<in> set (p # forest_nodes vs)"
  by (cases vs rule: rev_cases) (simp_all add: link_def)

lemma relink_children:
  assumes "tree_rep h par nxt (NTree p (vs @ xs))" "distinct (p # forest_nodes vs)" "node_at h (link p vs) = Some nd"
    "node_at h' (link p vs) = Some (relinked vs (first_ptr ys) nd)"
    "\<forall>a \<in> set (p # forest_nodes vs). a \<noteq> link p vs \<longrightarrow> node_at h' a = node_at h a" "forest_rep h' p ys"
  shows "tree_rep h' par nxt (NTree p (vs @ ys))"
proof (cases vs rule: rev_cases)
  case Nil
  then show ?thesis using assms by (simp add: link_def relinked_def)
next
  case (snoc ws v)
  have "forest_rep h' p (ws @ v # ys)"
  proof (rule relink_siblings [where xs = xs and h = h and nd = nd])
    show "forest_rep h p (ws @ v # xs)" using assms(1) snoc by simp
    show "distinct (forest_nodes (ws @ [v]))" using assms(2) snoc by simp
    show "node_at h (ntree_root v) = Some nd" using assms(3) snoc by (simp add: link_def)
    show "node_at h' (ntree_root v) = Some (nd\<lparr>nd_next := first_ptr ys\<rparr>)" using assms(4) snoc by (simp add: link_def relinked_def)
    show "\<forall>a \<in> set (forest_nodes (ws @ [v])). a \<noteq> ntree_root v \<longrightarrow> node_at h' a = node_at h a" using assms(5) snoc by (simp add: link_def)
  qed (rule assms(6))
  moreover have "p \<noteq> ntree_root v" using assms(2) snoc by (cases v) auto
  then have "node_at h' p = node_at h p" using assms(5) snoc by (simp add: link_def)
  moreover have "first_ptr (ws @ v # xs) = first_ptr (ws @ v # ys)" by (cases ws) simp_all
  ultimately show ?thesis using assms(1) snoc by (simp split: option.splits)
qed

section \<open>Walking and linking siblings\<close>

abbreviation last_round :: "u64 \<Rightarrow> (u64 + u64) nkern" where
  "last_round prev \<equiv> kbind (cell_get as_node prev) (\<lambda>nd. kret (if nd_next nd \<noteq> 0 then Inl (nd_next nd) else Inr prev))"

lemma last_sibling_last:
  assumes "forest_rep (o_heap s) par ts" "ts \<noteq> []"
  shows "last_sibling (first_ptr ts) s = Ret (ntree_root (last ts)) s"
  using assms unfolding last_sibling_def
proof (induction ts)
  case (Cons t ts)
  have rep: "tree_rep (o_heap s) par (first_ptr ts) t" using Cons.prems(1) by simp
  obtain nd where nd: "node_at (o_heap s) (ntree_root t) = Some nd" "nd_next nd = first_ptr ts" by (rule tree_rep_node [OF rep])
  have nz: "ts \<noteq> [] \<Longrightarrow> first_ptr ts \<noteq> 0" using Cons.prems(1) tree_rep_nonzero by (cases ts) auto
  have step: "last_round (ntree_root t) s = Ret (if ts = [] then Inr (ntree_root t) else Inl (first_ptr ts)) s"
    using nd(2) nz by (auto simp: kern_simps get_node_Some [OF nd(1)])
  show ?case
  proof (cases "ts = []")
    case True
    then show ?thesis by (simp only: first_ptr.simps kloop_unfold [of _ "ntree_root t"] step) simp
  next
    case False
    have ih: "kloop last_round (first_ptr ts) s = Ret (ntree_root (last ts)) s" by (rule Cons.IH) (use Cons.prems(1) False in simp_all)
    show ?thesis by (simp only: first_ptr.simps kloop_unfold [of _ "ntree_root t"] step False if_False kres.case sum.case ih last_ConsR not_False_eq_True)
  qed
qed simp

lemma node_at_upd: "node_at (h(p \<mapsto> Shared sh (BNode y))) = (node_at h)(p \<mapsto> y)"
  by (rule ext) (simp add: node_at_def)

lemma mod_node_Some:
  assumes "node_at (o_heap s) p = Some x"
  obtains h' where "mod_node p f s = Ret () (s\<lparr>o_heap := h'\<rparr>)" "node_at h' = (node_at (o_heap s))(p \<mapsto> f x)"
proof -
  from assms obtain sh where c: "o_heap s p = Some (Shared sh (BNode x))"
    by (auto simp: node_at_def elim!: as_node.elims split: option.splits)
  then have "mod_node p f s = Ret () (s\<lparr>o_heap := (o_heap s)(p \<mapsto> Shared sh (BNode (f x)))\<rparr>)"
    by (simp add: mod_node_def kern_simps get_node_Some [OF assms] body_put_def)
  then show ?thesis using that node_at_upd by blast
qed


text \<open>The reference count of a cell.\<close>

definition share_at :: "heap \<Rightarrow> u64 \<Rightarrow> uacpi_shareable option" where
  "share_at h a = (case h a of Some (Shared sh b) \<Rightarrow> Some sh | _ \<Rightarrow> None)"

lemma mod_node_share: "mod_node p f s = Ret () s' \<Longrightarrow> share_at (o_heap s') = share_at (o_heap s)"
  by (auto simp: mod_node_def body_put_def cell_get_def kbind_def share_at_def fun_eq_iff split: option.splits cell.splits if_splits)

lemma node_cell: "node_at h a = Some x \<Longrightarrow> share_at h a = Some sh \<Longrightarrow> h a = Some (Shared sh (BNode x))"
  by (auto simp: node_at_def share_at_def elim!: as_node.elims split: option.splits)

text \<open>Searching a scope after a child was added behind the others.\<close>

lemma find_append:
  "(case find P (us @ [c]) of None \<Rightarrow> 0 | Some t \<Rightarrow> ntree_root t) =
   (let q = (case find P us of None \<Rightarrow> 0 | Some t \<Rightarrow> ntree_root t) in if find P us = None \<and> P c then ntree_root c else q)"
  by (induction us) auto


section \<open>Installing\<close>

lemma install_run:
  assumes "tree_rep (o_heap s) par nxt (NTree p us)" "node_at (o_heap s) c = Some cd" "nd_flags cd AND UACPI_NAMESPACE_NODE_FLAG_DANGLING = 0"
    "node_at (o_heap s) (link p us) = Some ld" "link p us \<noteq> c"
  obtains h' where "uacpi_namespace_node_install p c s = Ret UACPI_STATUS_OK (s\<lparr>o_heap := h'\<rparr>)"
    "node_at h' = (node_at (o_heap s))(link p us \<mapsto> relinked us c ld, c \<mapsto> cd\<lparr>nd_parent := p\<rparr>)"
proof -
  obtain pd where pd: "node_at (o_heap s) p = Some pd" "nd_child pd = first_ptr us" and p: "p \<noteq> 0" and us: "forest_rep (o_heap s) p us"
    using assms(1) by (auto split: option.splits)
  have nz: "first_ptr us = 0 \<longleftrightarrow> us = []" using us tree_rep_nonzero by (cases us) auto
  obtain h1 where h1: "mod_node (link p us) (relinked us c) s = Ret () (s\<lparr>o_heap := h1\<rparr>)" "node_at h1 = (node_at (o_heap s))(link p us \<mapsto> relinked us c ld)"
    by (rule mod_node_Some [OF assms(4)])
  have "node_at (o_heap (s\<lparr>o_heap := h1\<rparr>)) c = Some cd" using h1(2) assms(2,5) by simp
  then obtain h2 where h2: "mod_node c (nd_parent_update (\<lambda>_. p)) (s\<lparr>o_heap := h1\<rparr>) = Ret () (s\<lparr>o_heap := h2\<rparr>)"
    "node_at h2 = (node_at h1)(c \<mapsto> cd\<lparr>nd_parent := p\<rparr>)"
    using mod_node_Some [of "s\<lparr>o_heap := h1\<rparr>" c cd "nd_parent_update (\<lambda>_. p)"] by auto
  have dang: "uacpi_namespace_node_is_dangling c s = Ret False s"
    using assms(3) by (simp add: uacpi_namespace_node_is_dangling_def node_flag_def kern_simps get_node_Some [OF assms(2)])
  have links: "(if nd_child pd = 0 then mod_node p (nd_child_update (\<lambda>_. c))
      else kbind (last_sibling (nd_child pd)) (\<lambda>prev. mod_node prev (nd_next_update (\<lambda>_. c)))) s = Ret () (s\<lparr>o_heap := h1\<rparr>)"
  proof (cases "us = []")
    case True
    then have "relinked us c = nd_child_update (\<lambda>_. c)" by (simp add: relinked_def fun_eq_iff)
    with h1(1) True show ?thesis by (simp add: pd(2) link_def)
  next
    case False
    then have "relinked us c = nd_next_update (\<lambda>_. c)" by (simp add: relinked_def fun_eq_iff)
    with h1(1) False nz show ?thesis by (simp add: pd(2) link_def kern_simps last_sibling_last [OF us False])
  qed
  have "uacpi_namespace_node_install p c s = Ret UACPI_STATUS_OK (s\<lparr>o_heap := h2\<rparr>)"
    using p by (simp add: uacpi_namespace_node_install_def kern_simps dang get_node_Some [OF pd(1)] links h2(1))
  then show ?thesis using that h1(2) h2(2) by simp
qed


lemma node_at_link:
  assumes "tree_rep h par nxt (NTree p (vs @ xs))"
  shows "\<exists>ld. node_at h (link p vs) = Some ld"
proof (cases vs rule: rev_cases)
  case Nil
  then show ?thesis using assms by (auto simp: link_def split: option.splits)
next
  case (snoc ws v)
  then have "tree_rep h p (first_ptr xs) v" using assms forest_rep_append_prefix [of h p ws "v # xs"] by simp
  then show ?thesis using snoc by (auto simp: link_def elim: tree_rep_node)
qed

text \<open>
  C15: installing a node adds it as the last child of its parent. When the pointers of the namespace represent a tree, \<open>uacpi_namespace_node_install\<close>
  for a node of the tree and a new node that is not dangling succeeds and the pointers represent the tree with the new child; nothing but the heap changes.
  A search of the parent's scope finds afterwards what it found before, and the new node for its own name if nothing was found before.
\<close>

theorem install_adds_child:
  assumes "tree_rep (o_heap s) par nxt t" "distinct (tree_nodes t)" "p \<in> set (tree_nodes t)" "c \<notin> set (tree_nodes t)" "c \<noteq> 0"
    "node_at (o_heap s) c = Some cd" "nd_child cd = 0" "nd_next cd = 0" "nd_flags cd AND UACPI_NAMESPACE_NODE_FLAG_DANGLING = 0"
  shows "\<exists>h'. uacpi_namespace_node_install p c s = Ret UACPI_STATUS_OK (s\<lparr>o_heap := h'\<rparr>) \<and> tree_rep h' par nxt (add_child p c t)
    \<and> (\<forall>nm. \<exists>q. uacpi_namespace_node_find_sub_node p nm s = Ret q s
         \<and> uacpi_namespace_node_find_sub_node p nm (s\<lparr>o_heap := h'\<rparr>) = Ret (if q = 0 \<and> nm = nd_name cd then c else q) (s\<lparr>o_heap := h'\<rparr>))"
proof -
  let ?h = "o_heap s"
  obtain us where us: "NTree p us \<in> set (subtrees t)" using node_subtree(1) [OF assms(3)] by blast
  obtain par' nxt' where rep: "tree_rep ?h par' nxt' (NTree p us)" using subtree_rep(1) [OF assms(1) us] by blast
  have d: "distinct (p # forest_nodes us)" using subtree_distinct(1) [OF assms(2) us] by simp
  have sub: "set (p # forest_nodes us) \<subseteq> set (tree_nodes t)" using subtree_nodes(1) [OF us] by simp
  then have lc: "link p us \<noteq> c" "c \<notin> set (p # forest_nodes us)" using link_in [of p us] assms(4) by auto
  obtain ld where ld: "node_at ?h (link p us) = Some ld" using node_at_link [of ?h par' nxt' p us "[]"] rep by auto
  obtain h' where h': "uacpi_namespace_node_install p c s = Ret UACPI_STATUS_OK (s\<lparr>o_heap := h'\<rparr>)"
    "node_at h' = (node_at ?h)(link p us \<mapsto> relinked us c ld, c \<mapsto> cd\<lparr>nd_parent := p\<rparr>)"
    by (rule install_run [OF rep assms(6,9) ld lc(1)])
  have child: "forest_rep h' p [NTree c []]" using assms(5,7,8) by (simp add: h'(2))
  have edit: "tree_rep h' a b (NTree p (us @ [NTree c []]))" if "tree_rep ?h a b (NTree p us)" for a b
  proof (rule relink_children [where xs = "[]" and h = ?h and nd = ld])
    show "tree_rep ?h a b (NTree p (us @ []))" using that by simp
    show "node_at h' (link p us) = Some (relinked us (first_ptr [NTree c []]) ld)" using lc(1) by (simp add: h'(2))
    show "\<forall>a \<in> set (p # forest_nodes us). a \<noteq> link p us \<longrightarrow> node_at h' a = node_at ?h a" using lc(2) by (auto simp: h'(2))
  qed (rule d ld child)+
  have frame: "\<forall>a \<in> set (tree_nodes t) - set (p # forest_nodes us). node_at h' a = node_at ?h a"
    using link_in [of p us] assms(4) by (auto simp: h'(2))
  have "tree_rep h' par nxt (add_child p c t)" unfolding add_child_def by (rule at_node_rep(1) [where f = "\<lambda>ts. ts @ [NTree c []]", OF edit assms(1,2) us frame])
  moreover have names: "node_name h' = node_name ?h"
    using ld assms(6) lc(1) by (auto simp: node_name_def fun_eq_iff h'(2) relinked_def)
  have "\<exists>q. uacpi_namespace_node_find_sub_node p nm s = Ret q s
      \<and> uacpi_namespace_node_find_sub_node p nm (s\<lparr>o_heap := h'\<rparr>) = Ret (if q = 0 \<and> nm = nd_name cd then c else q) (s\<lparr>o_heap := h'\<rparr>)" for nm
  proof -
    have "node_name ?h c = nd_name cd" using assms(6) by (simp add: node_name_def)
    moreover have "find (\<lambda>t. node_name ?h (ntree_root t) = nm) us = Some u \<Longrightarrow> ntree_root u \<noteq> 0" for u
      using forest_root_nonzero [of ?h p us u] rep by (auto dest: find_SomeD)
    ultimately show ?thesis
      using find_sub_node_finds [OF rep, of nm] find_sub_node_finds [of "s\<lparr>o_heap := h'\<rparr>" par' nxt' "NTree p (us @ [NTree c []])" nm] edit [OF rep]
      by (auto simp: find_append Let_def names split: option.splits)
  qed
  ultimately show ?thesis using h'(1) by blast
qed


section \<open>Uninstalling\<close>

abbreviation previous_round :: "u64 \<Rightarrow> u64 \<Rightarrow> (u64 + u64) nkern" where
  "previous_round node prev \<equiv> (if prev = 0 then kret (Inr 0)
     else kbind (cell_get as_node prev) (\<lambda>nd. kret (if nd_next nd \<noteq> node then Inl (nd_next nd) else Inr prev)))"

lemma previous_sibling_finds:
  assumes "forest_rep (o_heap s) par (vs @ NTree b us # ws)" "vs \<noteq> []" "b \<notin> ntree_root ` set vs"
  shows "previous_sibling b (first_ptr (vs @ NTree b us # ws)) s = Ret (ntree_root (last vs)) s"
  using assms unfolding previous_sibling_def
proof (induction vs)
  case (Cons t vs)
  have rep: "tree_rep (o_heap s) par (first_ptr (vs @ NTree b us # ws)) t" using Cons.prems(1) by simp
  obtain nd where nd: "node_at (o_heap s) (ntree_root t) = Some nd" "nd_next nd = first_ptr (vs @ NTree b us # ws)" "ntree_root t \<noteq> 0"
    by (rule tree_rep_node [OF rep])
  have eq: "first_ptr (vs @ NTree b us # ws) = b \<longleftrightarrow> vs = []" using Cons.prems(3) by (cases vs) auto
  have step: "previous_round b (ntree_root t) s = Ret (if vs = [] then Inr (ntree_root t) else Inl (first_ptr (vs @ NTree b us # ws))) s"
    using nd(2,3) eq by (auto simp: kern_simps get_node_Some [OF nd(1)])
  show ?case
  proof (cases "vs = []")
    case True
    then show ?thesis by (simp only: append_Cons first_ptr.simps kloop_unfold [of _ "ntree_root t"] step) simp
  next
    case False
    have ih: "kloop (previous_round b) (first_ptr (vs @ NTree b us # ws)) s = Ret (ntree_root (last vs)) s"
      by (rule Cons.IH) (use Cons.prems False in simp_all)
    show ?thesis by (simp only: append_Cons first_ptr.simps kloop_unfold [of _ "ntree_root t"] step False if_False kres.case sum.case ih last_ConsR not_False_eq_True)
  qed
qed simp

lemma unlink_run:
  assumes "tree_rep (o_heap s) par nxt (NTree p (vs @ NTree b us # ws))" "distinct (p # forest_nodes (vs @ NTree b us # ws))"
    "node_at (o_heap s) (link p vs) = Some ld"
  obtains h' where "unlink_node b s = Ret True (s\<lparr>o_heap := h'\<rparr>)" "node_at h' = (node_at (o_heap s))(link p vs \<mapsto> relinked vs (first_ptr ws) ld)"
    "share_at h' = share_at (o_heap s)"
proof -
  let ?us = "vs @ NTree b us # ws"
  obtain pd where pd: "node_at (o_heap s) p = Some pd" "nd_child pd = first_ptr ?us" and p: "p \<noteq> 0" and rep: "forest_rep (o_heap s) p ?us"
    using assms(1) by (auto split: option.splits)
  have "tree_rep (o_heap s) p (first_ptr ws) (NTree b us)" using forest_rep_append_prefix [OF rep] by simp
  then obtain bd where bd: "node_at (o_heap s) b = Some bd" "nd_parent bd = p" "nd_next bd = first_ptr ws" by (auto split: option.splits)
  have nb: "b \<notin> ntree_root ` set vs"
  proof
    assume "b \<in> ntree_root ` set vs"
    then have "b \<in> set (forest_nodes vs)" using child_nodes ntree_root_in by fastforce
    then show False using assms(2) by simp
  qed
  have first: "first_ptr ?us = b \<longleftrightarrow> vs = []" using nb by (cases vs) auto
  obtain h1 where h1: "mod_node (link p vs) (relinked vs (first_ptr ws)) s = Ret () (s\<lparr>o_heap := h1\<rparr>)"
    "node_at h1 = (node_at (o_heap s))(link p vs \<mapsto> relinked vs (first_ptr ws) ld)"
    by (rule mod_node_Some [OF assms(3)])
  have "unlink_node b s = Ret True (s\<lparr>o_heap := h1\<rparr>)"
  proof (cases "vs = []")
    case True
    then have "relinked vs (first_ptr ws) = nd_child_update (\<lambda>_. first_ptr ws)" by (simp add: relinked_def fun_eq_iff)
    with h1(1) True p show ?thesis by (simp add: unlink_node_def kern_simps get_node_Some [OF bd(1)] get_node_Some [OF pd(1)] bd(2,3) pd(2) link_def)
  next
    case False
    then have "relinked vs (first_ptr ws) = nd_next_update (\<lambda>_. first_ptr ws)" by (simp add: relinked_def fun_eq_iff)
    moreover have "ntree_root (last vs) \<noteq> 0" using forest_root_nonzero [OF rep, of "last vs"] False by simp
    ultimately show ?thesis using h1(1) False p first
      by (simp add: unlink_node_def kern_simps get_node_Some [OF bd(1)] get_node_Some [OF pd(1)] bd(2,3) pd(2) link_def
          previous_sibling_finds [OF rep False nb])
  qed
  then show ?thesis using that h1(2) mod_node_share [OF h1(1)] by simp
qed


lemma rep_same_links:
  assumes "node_at h b = Some bd" "node_at h' = (node_at h)(b \<mapsto> bd')" "nd_parent bd' = nd_parent bd" "nd_next bd' = nd_next bd" "nd_child bd' = nd_child bd"
  shows "tree_rep h' par nxt t = tree_rep h par nxt t" "forest_rep h' par ts = forest_rep h par ts"
  using assms by (induction t and ts arbitrary: par nxt and par rule: tree_nodes_forest_nodes.induct) auto

lemma parent_subtree:
  "b \<in> set (tree_nodes t) \<Longrightarrow> b \<noteq> ntree_root t \<Longrightarrow> \<exists>p vs us ws. NTree p (vs @ NTree b us # ws) \<in> set (subtrees t)"
  "b \<in> set (forest_nodes ts) \<Longrightarrow> (\<exists>vs us ws. ts = vs @ NTree b us # ws) \<or> (\<exists>p vs us ws. NTree p (vs @ NTree b us # ws) \<in> set (forest_subtrees ts))"
proof (induction t and ts rule: tree_nodes_forest_nodes.induct)
  case (1 a ts)
  then show ?case by auto
next
  case (3 t ts)
  show ?case
  proof (cases "b \<in> set (tree_nodes t)")
    case True
    show ?thesis
    proof (cases "b = ntree_root t")
      case True
      then have "t # ts = [] @ NTree b (ntree_children t) # ts" by (cases t) simp
      then show ?thesis by blast
    next
      case False
      then show ?thesis using 3(1) True by auto
    qed
  next
    case False
    then have "(\<exists>vs us ws. ts = vs @ NTree b us # ws) \<or> (\<exists>p vs us ws. NTree p (vs @ NTree b us # ws) \<in> set (forest_subtrees ts))" using 3 by simp
    then show ?thesis
    proof
      assume "\<exists>vs us ws. ts = vs @ NTree b us # ws"
      then obtain vs us ws where "ts = vs @ NTree b us # ws" by blast
      then have "t # ts = (t # vs) @ NTree b us # ws" by simp
      then show ?thesis by blast
    qed auto
  qed
qed simp

lemma node_unref_run:
  assumes "node_at (o_heap s) b = Some x" "share_at (o_heap s) b = Some sh" "b \<noteq> 0" "reference_count sh \<noteq> 0" "reference_count sh \<noteq> BUGGED_REFCOUNT"
    "nd_flags x AND UACPI_NAMESPACE_NODE_PREDEFINED = 0"
  shows "uacpi_namespace_node_unref b s = Ret () (s\<lparr>o_heap := (o_heap s)(b := if reference_count sh = 1 then None
     else Some (Shared (sh\<lparr>reference_count := reference_count sh - 1\<rparr>) (BNode x)))\<rparr>)"
  using assms node_cell [OF assms(1,2)]
  by (simp add: uacpi_namespace_node_unref_def unref_and_delete_if_last_def sh_bugged_def sh_unref_def shareable_do_def kbind_def uacpi_bugged_shareable_def
      uacpi_shareable_unref_def Let_def free_namespace_node_def cell_get_def uacpi_free_def kif_def fun_upd_idem)


text \<open>Taking a leaf out, on heaps.\<close>

lemma remove_rep:
  assumes "tree_rep h par nxt t" "distinct (tree_nodes t)" "NTree p (vs @ NTree b [] # ws) \<in> set (subtrees t)" "node_at h (link p vs) = Some ld"
    "\<forall>a. a \<noteq> b \<longrightarrow> node_at h' a = (if a = link p vs then Some (relinked vs (first_ptr ws) ld) else node_at h a)"
  shows "tree_rep h' par nxt (remove_child p b t)"
proof -
  let ?us = "vs @ NTree b [] # ws"
  have d: "distinct (p # forest_nodes ?us)" using subtree_distinct(1) [OF assms(2,3)] by simp
  have l: "link p vs \<noteq> b" "link p vs \<notin> set (forest_nodes ws)" using link_in [of p vs] d by auto
  have roots: "\<forall>t \<in> set (vs @ ws). ntree_root t \<noteq> b"
  proof
    fix t assume "t \<in> set (vs @ ws)"
    then have "ntree_root t \<in> set (forest_nodes (vs @ ws))" using child_nodes ntree_root_in by blast
    then show "ntree_root t \<noteq> b" using d by auto
  qed
  then have f: "filter (\<lambda>t. ntree_root t \<noteq> b) ?us = vs @ ws" by simp
  have edit: "tree_rep h' x y (NTree p (filter (\<lambda>t. ntree_root t \<noteq> b) ?us))" if "tree_rep h x y (NTree p ?us)" for x y
    unfolding f
  proof (rule relink_children [where xs = "NTree b [] # ws" and h = h and nd = ld])
    show "node_at h' (link p vs) = Some (relinked vs (first_ptr ws) ld)" using assms(5) l(1) by simp
    show "\<forall>a \<in> set (p # forest_nodes vs). a \<noteq> link p vs \<longrightarrow> node_at h' a = node_at h a" using assms(5) d by auto
    have "forest_rep h p ?us" using that by simp
    then have "forest_rep h p (NTree b [] # ws)" by (rule forest_rep_append_prefix)
    moreover have "forest_rep h' p ws = forest_rep h p ws" using assms(5) d l(2) by (intro forest_rep_cong) auto
    ultimately show "forest_rep h' p ws" by simp
    show "distinct (p # forest_nodes vs)" using d by simp
  qed (rule that assms(4))+
  have frame: "\<forall>a \<in> set (tree_nodes t) - set (p # forest_nodes ?us). node_at h' a = node_at h a" using assms(5) link_in [of p vs] by auto
  show ?thesis unfolding remove_child_def by (rule at_node_rep(1) [where f = "filter (\<lambda>t. ntree_root t \<noteq> b)", OF edit assms(1-3) frame])
qed



section \<open>Examples\<close>

text \<open>The namespace with the device \<open>\\_SB_.PCI0\<close> and a new node \<open>LPC0\<close> that is not part of it yet.\<close>

definition demo_ns_new :: nstate where
  "demo_ns_new = demo_ns\<lparr>o_heap := demo_ns_heap(0x180 \<mapsto> fresh (BNode (empty_node [0x4C, 0x50, 0x43, 0x30] 0)))\<rparr>"

lemma demo_new_rep: "tree_rep (o_heap demo_ns_new) 0 0 demo_tree"
  by (simp add: demo_ns_new_def demo_nodes)

theorem install_adds_child_witness:
  "\<exists>h'. uacpi_namespace_node_install 17 0x180 demo_ns_new = Ret UACPI_STATUS_OK (demo_ns_new\<lparr>o_heap := h'\<rparr>)
    \<and> tree_rep h' 0 0 (NTree 16 [NTree 17 [NTree 0x100 [], NTree 0x180 []]])"
proof -
  have n: "node_at (o_heap demo_ns_new) 0x180 = Some (empty_node [0x4C, 0x50, 0x43, 0x30] 0)" by (simp add: demo_ns_new_def node_at_def fresh_def)
  have "distinct (tree_nodes demo_tree)" "17 \<in> set (tree_nodes demo_tree)" "0x180 \<notin> set (tree_nodes demo_tree)" "(0x180 :: u64) \<noteq> 0"
    by (simp_all add: demo_tree_def)
  from install_adds_child [OF demo_new_rep this n] show ?thesis
    by (auto simp: empty_node_def add_child_def demo_tree_def)
qed

text \<open>Releasing an integer that nobody else refers to frees it.\<close>

lemma integer_unref:
  assumes "o_heap s q = Some (Shared \<lparr>reference_count = 1\<rparr> (BObject x))" "ob_type x = UACPI_OBJECT_INTEGER" "q \<noteq> 0"
  shows "uacpi_object_unref (Suc depth) host q s = Ret () (s\<lparr>o_heap := (o_heap s)(q := None)\<rparr>)"
proof -
  let ?s = "s\<lparr>o_heap := (o_heap s)(q \<mapsto> Shared \<lparr>reference_count = 0\<rparr> (BObject x))\<rparr>"
  have in0: "ob_inner x = 0" using assms(2) by (simp add: ob_inner_def)
  have loop0: "kloop unref_round 0 ?s = Ret True ?s" by (simp add: kloop_unfold [of _ 0] unref_round_def)
  have "unref_round q s = Ret (Inl 0) ?s"
    using assms by (simp add: unref_round_def sh_bugged_def sh_unref_def shareable_do_def kbind_def kseq_def uacpi_bugged_shareable_def
        uacpi_shareable_unref_def cell_get_def in0 BUGGED_REFCOUNT_def Let_def fun_upd_idem)
  then have loop: "kloop unref_round q s = Ret True ?s" using loop0 by (simp add: kloop_unfold [of _ q])
  have rc: "sh_refcount q ?s = Ret 0 ?s" by (simp add: sh_refcount_def shareable_do_def uacpi_shareable_refcount_def)
  have free: "free_object (Suc depth) host q ?s = Ret () (s\<lparr>o_heap := (o_heap s)(q := None)\<rparr>)"
    using assms by (simp add: free_object_storage_def kseq_def kbind_def cell_get_def uacpi_free_def)
  have "free_chain_round (free_object (Suc depth) host) q ?s = Ret (Inl 0) (s\<lparr>o_heap := (o_heap s)(q := None)\<rparr>)"
    using assms(3) rc free by (simp add: free_chain_round_def kbind_def kseq_def cell_get_def in0 del: free_object.simps)
  then have "free_chain (free_object (Suc depth) host) q ?s = Ret () (s\<lparr>o_heap := (o_heap s)(q := None)\<rparr>)"
    by (simp add: free_chain_def kloop_unfold [of _ q] kloop_unfold [of _ 0] free_chain_round_def [of _ 0] del: free_object.simps)
  with loop rc assms(3) show ?thesis by (simp add: uacpi_object_unref_def object_unref_with_def kbind_def del: free_object.simps)
qed

lemma demo_detach:
  "namespace_node_detach_object 1 demo_ns_host 0x100 demo_ns = Ret () (demo_ns\<lparr>o_heap := demo_ns_heap(0x101 := None,
     0x100 \<mapsto> fresh (BNode ((empty_node [0x50, 0x43, 0x49, 0x30] 0)\<lparr>nd_parent := 17\<rparr>)))\<rparr>)"
proof -
  let ?x = "zero_object\<lparr>ob_type := UACPI_OBJECT_INTEGER\<rparr>"
  let ?s = "demo_ns\<lparr>o_heap := demo_ns_heap(0x101 := None)\<rparr>"
  have x: "o_heap demo_ns 0x101 = Some (Shared \<lparr>reference_count = 1\<rparr> (BObject ?x))"
    by (simp add: demo_ns_def demo_ns_heap_def fresh_def uacpi_shareable_init_def)
  have n: "cell_get as_node 0x100 demo_ns = Ret ((empty_node [0x50, 0x43, 0x49, 0x30] 0)\<lparr>nd_parent := 17, nd_object := 0x101\<rparr>) demo_ns"
    by (simp add: cell_get_def demo_ns_def demo_ns_heap_def fresh_def)
  have "unwrap_round 0x101 demo_ns = Ret (Inr 0x101) demo_ns" by (simp add: unwrap_round_def kbind_def cell_get_def x)
  then have obj: "uacpi_namespace_node_get_object 0x100 demo_ns = Ret 0x101 demo_ns"
    by (simp add: uacpi_namespace_node_get_object_def kbind_def n uacpi_unwrap_internal_reference_def kloop_unfold [of _ "0x101"])
  have unref: "uacpi_object_unref 1 (nh_objects demo_ns_host) 0x101 demo_ns = Ret () ?s"
    using integer_unref [of demo_ns "0x101" ?x 0] x by (simp add: demo_ns_def)
  have "mod_node 0x100 (nd_object_update (\<lambda>_. 0)) ?s = Ret () (?s\<lparr>o_heap := (o_heap ?s)(0x100 \<mapsto> fresh (BNode ((empty_node [0x50, 0x43, 0x49, 0x30] 0)\<lparr>nd_parent := 17\<rparr>)))\<rparr>)"
    by (simp add: mod_node_def kbind_def cell_get_def body_put_def demo_ns_heap_def fresh_def empty_node_def)
  moreover have "cell_get as_object 0x101 demo_ns = Ret ?x demo_ns" by (simp add: cell_get_def x)
  ultimately show ?thesis
    by (simp add: namespace_node_detach_object_def kbind_def kseq_def obj n unref [unfolded One_nat_def])
qed


end
