(* ===== verification/Spec2Isabelle.thy ===== *)
theory Spec2Isabelle
  imports Boot UacpiTablesProps UacpiNamespaceWalk UacpiNamespaceEdit
begin

text \<open>
  \<^bold>\<open>lord84: a verification development\<close>

  lord84 is a small x86-64 kernel in C. The boot loader (Limine) enters \<open>_start\<close> of \<^verbatim>\<open>src/main.c\<close>, which
  brings up the console, the memory managers, the ACPI tables, the timers and interrupt controllers,
  the processors, PCI Express and the AHCI driver, and then runs an idle loop. The uACPI library under
  \<^verbatim>\<open>src/uacpi\<close> is part of the tree and is reached through \<^verbatim>\<open>src/uacpi_kernel_api.c\<close>. Paths
  are relative to the source directory of the kernel.

  \<^bold>\<open>How the code is modelled.\<close> C integers are words of their width and wrap. A stateful function of the kernel
  is a value of the type \<open>kern\<close> of \<open>Prelude\<close>: it takes the state record and returns a value with
  a new state, or halts (\<open>kkill\<close>), or hangs (a spinlock that nobody releases, a loop that does not end), or faults
  (undefined behaviour: a null pointer, an index out of bounds). \<open>kbind\<close>, \<open>kseq\<close>, \<open>kfor\<close> and
  the loop combinators compose such functions in the order of the statements. The state is a chain of records, one
  extension per component, in the order in which the components use one another. Memory is a byte-addressed function
  with little-endian loads and stores (\<open>Machine\<close>); packed structures are read and written at their
  offsets. What the hardware answers (ports, memory-mapped registers, time-stamp counter) is a
  function in the state and therefore arbitrary in every theorem. Loops without a bound in the source have a
  result only if they end; a theorem that such a function returns says so explicitly.

  \<^bold>\<open>The theories and what they show.\<close>

  \<^item> \<open>Prelude\<close>: words, results, the state monad, loops, and generic lemmas.
  \<^item> \<open>Machine\<close> (\<^verbatim>\<open>lib/io.c\<close>): memory, ports, model-specific registers, the halt loop; laws of
    loads after stores.
  \<^item> \<open>KString\<close> (\<^verbatim>\<open>lib/string.c\<close>): \<open>memset\<close>, \<open>memcpy\<close>, \<open>memmove\<close>, \<open>memcmp\<close>, \<open>strlen\<close>, \<open>dtoc\<close>.
    \<open>memmove\<close> is correct for every overlap.
  \<^item> \<open>Spinlock\<close> (\<^verbatim>\<open>lib/spinlock.c\<close>): the sequential effect of taking and releasing a lock, and a step
    relation of any number of processors in which no two are in the critical section.
  \<^item> \<open>Stdio\<close> (\<^verbatim>\<open>drivers/serial.c\<close>, \<^verbatim>\<open>lib/stdio.c\<close>, and the time stamps of \<^verbatim>\<open>hal/tsc.c\<close>): the
    formatted output refines a rendering function of format strings, hanging and faulting exactly where that says;
    printed numbers read back as themselves.
  \<^item> \<open>Pmm\<close> (\<^verbatim>\<open>mm/pmm.c\<close>): the free list threaded through the free pages refines a stack; \<open>pmm_init\<close> builds it;
    what happens when no page is left.
  \<^item> \<open>Vmm\<close> (\<^verbatim>\<open>mm/vmm.c\<close>): four-level page tables in memory. An independent definition of the walk of the
    processor states what mapping, unmapping and allocating do, for the page in question and for all the others.
  \<^item> \<open>Kmalloc\<close> (\<^verbatim>\<open>mm/kmalloc.c\<close>): the heap as it is: allocations alias, and what freeing and growing do.
  \<^item> \<open>Acpi\<close> (\<^verbatim>\<open>sys/acpi.c\<close>): selection of the root table, search of a table, and the walks over the MADT
    against a list of its records; a record of length zero is the only reason not to end.
  \<^item> \<open>Timer\<close> (\<^verbatim>\<open>drivers/pmt.c\<close>, \<^verbatim>\<open>hal/timer.c\<close>, \<^verbatim>\<open>hal/tsc.c\<close>), \<open>Apic\<close> (\<^verbatim>\<open>hal/apic.c\<close>, \<^verbatim>\<open>hal/ioapic.c\<close>): delays
    return and last as long as they should when time passes; register writes assemble to the redirection entry.
  \<^item> \<open>Interrupts\<close> (\<^verbatim>\<open>hal/gdt.c\<close>, \<^verbatim>\<open>hal/idt.c\<close>): descriptors round trip; the dispatch of every vector; the
    allocation of vectors, with an array of slots stated as a locale.
  \<^item> \<open>Sched\<close> (\<^verbatim>\<open>hal/smp.c\<close>, \<^verbatim>\<open>scheduler/sched.c\<close>): starting processors; why the scheduler never runs a task.
  \<^item> \<open>Pci\<close> (\<^verbatim>\<open>sys/pci.c\<close>), \<open>Ahci\<close> (\<^verbatim>\<open>drivers/ahci.c\<close>, \<^verbatim>\<open>elf/elf.c\<close>): enumeration of functions, the device table
    as a list, look-up by class, reset of the controller.
  \<^item> \<open>UacpiKernel\<close> (\<^verbatim>\<open>uacpi_kernel_api.c\<close>): the host interface of uACPI.
  \<^item> \<open>Boot\<close> (\<^verbatim>\<open>main.c\<close> and \<open>vmm_init\<close>): the kernel's own page map and the start-up sequence, which never returns.
  \<^item> \<open>UacpiOsi\<close> (\<^verbatim>\<open>uacpi/shareable.c\<close>, \<^verbatim>\<open>uacpi/osi.c\<close>): an object with a reference count is freed once; the
    list of interfaces keeps its invariant under every sequence of operations, and installing, asking and
    uninstalling agree.
  \<^item> \<open>UacpiMutex\<close> (\<^verbatim>\<open>uacpi/mutex.c\<close>): reader-writer locks in every interleaving, the global lock shared with the
    firmware, nesting of AML mutexes, sequence numbers of the global lock.
  \<^item> \<open>UacpiRegisters\<close> (\<^verbatim>\<open>uacpi/registers.c\<close>): the tables of the fixed registers and their fields; a field round
    trips on storage and leaves the rest alone; status fields are written in a way that loses events.
  \<^item> \<open>UacpiBits\<close>, \<open>UacpiIo\<close>, \<open>UacpiGas\<close> (\<^verbatim>\<open>uacpi/io.c\<close>): copying of bit spans between buffers, which buffer fields and
    the field units of operation regions use to act on exactly their bits; registers described by a generic address
    structure, on plain memory and on the services of this kernel, which cannot reach ports.
  \<^item> \<open>UacpiUtil\<close>, \<open>UacpiStdlib\<close> (part of \<^verbatim>\<open>uacpi/utilities.c\<close>, \<^verbatim>\<open>uacpi/stdlib.c\<close>): parsing of integers against
    the value of the digits with saturation; the formatted printer stores the rendered text cut to the capacity of
    the buffer, terminates it and returns its full length.
  \<^item> \<open>UacpiArray\<close> (\<^verbatim>\<open>include/uacpi/internal/dynamic_array.h\<close>): growable arrays with inline storage refine lists.
  \<^item> \<open>UacpiFadt\<close>, \<open>UacpiTables\<close> (\<^verbatim>\<open>uacpi/tables.c\<close>): the FADT as its bytes, with the conversion of its
    registers; the table array with installation, searches, reference counts, flags, start-up and shut-down. The functions that install a table
    call each other; an argument bounds their depth, and two levels are proved to be enough unless the FADT names itself.
    \<open>KHoare\<close> has rules for postconditions. \<open>UacpiTablesInv\<close> shows that the mappings are those of the referenced
    tables in every reachable state; \<open>UacpiTablesProps\<close> what searches, references and installations return, which failures an
    installation hides, and where it hangs.
  \<^item> \<open>UacpiObjects\<close> (\<^verbatim>\<open>uacpi/types.c\<close>): the objects of uACPI on a heap of typed cells that are shared by reference counts:
    creation, release, shallow and deep copies, references, and the interface for the host. Access to an address that holds no cell of the expected
    kind (freed or never allocated) is a fault; addresses are never reused, so a use after free is seen. Releasing an object may release others,
    and copying a package copies its elements; an argument bounds the depth of this recursion and reaching it counts as not ending.
  \<^item> \<open>UacpiNamespace\<close> (\<^verbatim>\<open>uacpi/namespace.c\<close>): the tree of named nodes on the same heap, with parent, child and sibling pointers, the
    predefined nodes and the reader-writer lock. \<open>UacpiNamespaceTree\<close> relates the pointers to a datatype of trees and shows that searches
    return the first match of the children and that the absolute path of a node resolves to the node; \<open>UacpiNamespaceWalk\<close> that the iteration
    without recursion is the recursive walk, and that stopping it releases the lock twice; \<open>UacpiNamespaceEdit\<close> that installing a node adds a last
    child, which the search of the scope then finds, and that uninstalling removes a leaf and frees it or marks it as dangling.

  \<^bold>\<open>Interfaces.\<close> Locales state what one component promises another and are interpreted on the definitions of the
  model in the theory that provides them: \<open>page_allocator\<close> (\<open>Pmm\<close>, for the users of physical pages), \<open>slot_table\<close>
  (\<open>Interrupts\<close>, for the takers of vectors), \<open>field_storage\<close> (\<open>UacpiIo\<close>, what a field unit needs of the accessor of its region).

  \<^bold>\<open>Parameters.\<close> The assembly stubs of the interrupt table are a function from vectors to addresses; the requests
  that the boot loader answers are fields of the state; interrupts that arrive during a busy wait are a function of
  the iteration. For the parts of uACPI the allocator and the mutexes of the host, the use of the global lock by the firmware,
  the access to a register block, the detachment of an operation region from its handler and the callbacks of an iteration are parameters. Theorems that need more of them than their
  type have it as a hypothesis and come with a witness.

  \<^bold>\<open>Not modelled.\<close> The assembly files, and the headers that only declare. Of uACPI the bytecode interpreter,
  events, notifications, operation regions and resources: they run AML code or need services that this kernel does not provide, and
  the kernel does not call them yet (\<open>uacpi_initialize\<close> is not part of the start-up).
  Time is not modelled but for the readings of the counters; caches and weak memory ordering are not
  modelled, atomic operations are single steps.
\<close>

end
